(* ===== verification/Prelude.thy ===== *)
theory Prelude
  imports Main "HOL-Library.Word" "HOL-Library.Sublist"
begin

text \<open>
  The shared vocabulary of the development: JavaScript strings as lists of UTF-16 code units,
  the string operations of the language that the web client uses (\<open>trim\<close>, \<open>slice\<close>, \<open>split\<close>,
  \<open>join\<close>, \<open>includes\<close>, \<open>toLowerCase\<close>, \<open>parseInt\<close>, number formatting, \<open>JSON.stringify\<close> of
  strings), bytes of a \<open>Uint8Array\<close>, and the generic list lemmas the components share.
\<close>

section \<open>Collections of facts\<close>

named_theorems js_defs \<open>definitions of the JavaScript string operations\<close>
named_theorems filter_defs \<open>definitions of the byte-stream filters\<close>
named_theorems approval_defs \<open>definitions of the approval parser\<close>

section \<open>Strings and bytes\<close>

text \<open>
  A JavaScript string is a sequence of 16-bit code units. Code units are only compared and
  read (\<open>charCodeAt\<close>), so they are integers; \<open>js\<close> turns an ASCII literal into one.
\<close>

type_synonym cu = int
type_synonym jstr = "cu list"
type_synonym byte = "8 word"

definition js :: "string \<Rightarrow> jstr" where
  "js s = map of_char s"

definition asciiBytes :: "string \<Rightarrow> byte list" where
  "asciiBytes s = map of_char s"

abbreviation nl :: cu where "nl \<equiv> 10"
abbreviation space :: cu where "space \<equiv> 32"

text \<open>The white space of \<open>\s\<close> and of \<open>trim\<close>: WhiteSpace and LineTerminator of ECMA-262.\<close>

definition is_ws :: "cu \<Rightarrow> bool" where
  "is_ws c =
     (if c \<le> 32 then c = 32 \<or> (9 \<le> c \<and> c \<le> 13)
      else if c < 160 then False
      else c = 160 \<or> c = 5760 \<or> (8192 \<le> c \<and> c \<le> 8202) \<or> c = 8232 \<or> c = 8233
        \<or> c = 8239 \<or> c = 8287 \<or> c = 12288 \<or> c = 65279)"

definition is_digit :: "cu \<Rightarrow> bool" where
  "is_digit c = (48 \<le> c \<and> c \<le> 57)"

definition is_word :: "cu \<Rightarrow> bool" where
  "is_word c = (is_digit c \<or> (65 \<le> c \<and> c \<le> 90) \<or> c = 95 \<or> (97 \<le> c \<and> c \<le> 122))"

lemma is_ws_space [simp]: "is_ws 32" "is_ws 10" "is_ws 13" "is_ws 9"
  by (simp_all add: is_ws_def)

definition trimStart :: "jstr \<Rightarrow> jstr" where
  "trimStart s = dropWhile is_ws s"

definition trimEnd :: "jstr \<Rightarrow> jstr" where
  "trimEnd s = rev (dropWhile is_ws (rev s))"

definition trim :: "jstr \<Rightarrow> jstr" where
  "trim s = trimEnd (trimStart s)"

text \<open>\<open>s.replace(/\s+/g, ' ')\<close>: every maximal run of white space becomes one space.\<close>

fun squash_ws :: "jstr \<Rightarrow> jstr" where
  "squash_ws [] = []"
| "squash_ws (c # cs) =
     (if is_ws c
      then (case cs of [] \<Rightarrow> [space]
            | d # ds \<Rightarrow> if is_ws d then squash_ws cs else space # squash_ws cs)
      else c # squash_ws cs)"

text \<open>\<open>s.slice(a)\<close> and \<open>s.slice(a, b)\<close>, with negative positions counted from the end.\<close>

definition slice_pos :: "int \<Rightarrow> 'a list \<Rightarrow> nat" where
  "slice_pos i s =
     (if i < 0 then nat (int (length s) + i) else min (nat i) (length s))"

definition slice :: "'a list \<Rightarrow> int \<Rightarrow> int \<Rightarrow> 'a list" where
  "slice s a b = drop (slice_pos a s) (take (slice_pos b s) s)"

definition slice_from :: "'a list \<Rightarrow> int \<Rightarrow> 'a list" where
  "slice_from s a = drop (slice_pos a s) s"

fun starts_with :: "'a list \<Rightarrow> 'a list \<Rightarrow> bool" where
  "starts_with [] ys = True"
| "starts_with (x # xs) [] = False"
| "starts_with (x # xs) (y # ys) = (if x = y then starts_with xs ys else False)"

fun str_includes :: "'a list \<Rightarrow> 'a list \<Rightarrow> bool" where
  "str_includes [] p = starts_with p []"
| "str_includes (x # xs) p = (if starts_with p (x # xs) then True else str_includes xs p)"

text \<open>\<open>s.split(sep)\<close> for a separator of one code unit; \<open>xs.join(sep)\<close>.\<close>

fun split_on :: "cu \<Rightarrow> jstr \<Rightarrow> jstr list" where
  "split_on d [] = [[]]"
| "split_on d (c # cs) =
     (if c = d then [] # split_on d cs
      else (case split_on d cs of [] \<Rightarrow> [[c]] | w # ws \<Rightarrow> (c # w) # ws))"

fun join :: "'a list \<Rightarrow> 'a list list \<Rightarrow> 'a list" where
  "join sep [] = []"
| "join sep [w] = w"
| "join sep (w # v # ws) = w @ sep @ join sep (v # ws)"

text \<open>
  \<open>toLowerCase\<close>: ASCII, Latin-1, Greek, Cyrillic and full-width letters, and the two code
  units outside ASCII that lower to an ASCII letter; every other code unit is left as it is.
\<close>

definition lower_cu :: "cu \<Rightarrow> jstr" where
  "lower_cu c =
     (if c < 128 then (if 65 \<le> c \<and> c \<le> 90 then [c + 32] else [c])
      else if 192 \<le> c \<and> c \<le> 222 \<and> c \<noteq> 215 then [c + 32]
      else if c = 304 then [105, 775]
      else if 913 \<le> c \<and> c \<le> 937 \<and> c \<noteq> 930 then [c + 32]
      else if 1024 \<le> c \<and> c \<le> 1039 then [c + 80]
      else if 1040 \<le> c \<and> c \<le> 1071 then [c + 32]
      else if c = 8490 then [107]
      else if 65313 \<le> c \<and> c \<le> 65338 then [c + 32]
      else [c])"

fun toLowerCase :: "jstr \<Rightarrow> jstr" where
  "toLowerCase [] = []"
| "toLowerCase (c # cs) = lower_cu c @ toLowerCase cs"

section \<open>Numbers\<close>

text \<open>
  The double nearest to a natural number (53 significant bits, ties to even): what a number
  that may exceed \<open>2^53\<close> becomes when JavaScript reads it. \<open>parseInt(s, 10)\<close> on a string of
  digits is the double nearest to the number they write (below \<open>2^1024\<close>).
\<close>

definition half_even :: "int \<Rightarrow> int \<Rightarrow> int" where
  "half_even a b =
     (let q = a div b; r = a mod b in
      if 2 * r < b then q else if 2 * r > b then q + 1
      else if even q then q else q + 1)"

fun excess_bits :: "int \<Rightarrow> nat" where
  "excess_bits n = (if n < 9007199254740992 then 0 else Suc (excess_bits (n div 2)))"

declare excess_bits.simps [simp del]

definition dbl :: "int \<Rightarrow> int" where
  "dbl n = (if n < 9007199254740992 then n
            else half_even n (2 ^ excess_bits n) * 2 ^ excess_bits n)"

fun digits_val :: "int \<Rightarrow> jstr \<Rightarrow> int" where
  "digits_val acc [] = acc"
| "digits_val acc (c # cs) = digits_val (10 * acc + (c - 48)) cs"

definition parse_int :: "jstr \<Rightarrow> int" where
  "parse_int s = dbl (digits_val 0 s)"

text \<open>\<open>n.toString(radix)\<close> and the decimal form a template literal prints (below \<open>10^21\<close>).\<close>

definition digit_cu :: "int \<Rightarrow> cu" where
  "digit_cu d = (if d < 10 then 48 + d else 87 + d)"

function radix_digits :: "int \<Rightarrow> int \<Rightarrow> jstr" where
  "radix_digits b n =
     (if b < 2 \<or> n < b then [digit_cu n] else radix_digits b (n div b) @ [digit_cu (n mod b)])"
  by pat_completeness auto
termination
  by (relation "measure (\<lambda>(b, n). nat n)") (auto simp: int_div_less_self)

declare radix_digits.simps [simp del]

definition num_str :: "int \<Rightarrow> jstr" where
  "num_str n = (if n < 0 then 45 # radix_digits 10 (- n) else radix_digits 10 n)"

section \<open>JSON.stringify\<close>

text \<open>
  \<open>JSON.stringify\<close> of a string: quotes, the two-character escapes, \<open>\uXXXX\<close> for the other
  control characters and for unpaired surrogates.
\<close>

definition hex4 :: "cu \<Rightarrow> jstr" where
  "hex4 c = [92, 117, digit_cu (c div 4096 mod 16), digit_cu (c div 256 mod 16),
             digit_cu (c div 16 mod 16), digit_cu (c mod 16)]"

fun json_chars :: "jstr \<Rightarrow> jstr" where
  "json_chars [] = []"
| "json_chars (c # cs) =
     (if c = 34 then 92 # 34 # json_chars cs
      else if c = 92 then 92 # 92 # json_chars cs
      else if c = 8 then 92 # 98 # json_chars cs
      else if c = 12 then 92 # 102 # json_chars cs
      else if c = 10 then 92 # 110 # json_chars cs
      else if c = 13 then 92 # 114 # json_chars cs
      else if c = 9 then 92 # 116 # json_chars cs
      else if c < 32 then hex4 c @ json_chars cs
      else if 55296 \<le> c \<and> c \<le> 56319 then
        (case cs of
           d # ds \<Rightarrow> if 56320 \<le> d \<and> d \<le> 57343 then c # d # json_chars ds
                    else hex4 c @ json_chars cs
         | [] \<Rightarrow> hex4 c)
      else if 56320 \<le> c \<and> c \<le> 57343 then hex4 c @ json_chars cs
      else c # json_chars cs)"

definition json_string :: "jstr \<Rightarrow> jstr" where
  "json_string s = 34 # json_chars s @ [34]"

definition json_array :: "jstr list \<Rightarrow> jstr" where
  "json_array xs = 91 # join [44] xs @ [93]"

section \<open>Lemmas on lists and strings\<close>

lemma starts_with_iff: "starts_with p s \<longleftrightarrow> prefix p s"
  by (induction p s rule: starts_with.induct) auto

lemma includes_iff: "str_includes s p \<longleftrightarrow> sublist p s"
proof (induction s p rule: str_includes.induct)
  case (1 p)
  then show ?case by (simp add: starts_with_iff)
next
  case (2 x xs p)
  then show ?case by (auto simp: starts_with_iff sublist_Cons_right)
qed

lemma split_on_nonempty [simp]: "split_on d s \<noteq> []"
  by (cases s) (auto split: list.splits)

text \<open>Joining what \<open>split\<close> returned gives the string back, and no piece holds the separator.\<close>

lemma join_Cons: "ws \<noteq> [] \<Longrightarrow> join sep (w # ws) = w @ sep @ join sep ws"
  by (cases ws) auto

lemma join_split_on: "join [d] (split_on d s) = s"
proof (induction s)
  case (Cons c cs)
  obtain w ws where w: "split_on d cs = w # ws"
    by (cases "split_on d cs") auto
  with Cons show ?case by (cases ws) auto
qed simp

lemma split_on_no_sep: "w \<in> set (split_on d s) \<Longrightarrow> d \<notin> set w"
proof (induction s arbitrary: w)
  case (Cons c cs)
  obtain v vs where v: "split_on d cs = v # vs"
    by (cases "split_on d cs") auto
  with Cons show ?case by (auto split: if_splits)
qed simp

lemma set_trim_subset: "set (trim s) \<subseteq> set s"
  by (auto simp: trim_def trimEnd_def trimStart_def dest!: set_dropWhileD)

lemma trimStart_Cons [simp]: "trimStart (c # cs) = (if is_ws c then trimStart cs else c # cs)"
  by (simp add: trimStart_def)

lemma trimStart_Nil [simp]: "trimStart [] = []"
  by (simp add: trimStart_def)

lemma trimStart_idem [simp]: "trimStart (trimStart s) = trimStart s"
  by (simp add: trimStart_def)

lemma trimEnd_idem [simp]: "trimEnd (trimEnd s) = trimEnd s"
  by (simp add: trimEnd_def)

lemma trimEnd_Cons:
  "trimEnd (c # s) = (if trimEnd s = [] then (if is_ws c then [] else [c]) else c # trimEnd s)"
  by (auto simp: trimEnd_def dropWhile_append)

lemma trimEnd_Nil [simp]: "trimEnd [] = []"
  by (simp add: trimEnd_def)

lemma trimStart_nonws: "trimStart s = s \<longleftrightarrow> s = [] \<or> \<not> is_ws (hd s)"
proof
  assume "trimStart s = s"
  then show "s = [] \<or> \<not> is_ws (hd s)"
    by (metis hd_dropWhile dropWhile_eq_Nil_conv trimStart_def)
qed (cases s, auto)

lemma trimEnd_hd: "trimEnd s \<noteq> [] \<Longrightarrow> hd (trimEnd s) = hd s"
  by (cases s) (auto simp: trimEnd_Cons split: if_splits)

lemma trim_idem [simp]: "trim (trim s) = trim s"
proof -
  have "trimStart (trimEnd (trimStart s)) = trimEnd (trimStart s)"
  proof (cases "trimEnd (trimStart s) = []")
    case False
    then have "hd (trimEnd (trimStart s)) = hd (trimStart s)"
      by (rule trimEnd_hd)
    moreover have "trimStart s \<noteq> []"
      using False by auto
    then have "\<not> is_ws (hd (trimStart s))"
      using trimStart_nonws [of "trimStart s"] by simp
    ultimately show ?thesis
      by (simp add: trimStart_nonws)
  qed simp
  then show ?thesis by (simp add: trim_def)
qed

text \<open>What is left of a string when white space is ignored: the measure of "no text is lost".\<close>

definition ink :: "jstr \<Rightarrow> jstr" where
  "ink s = filter (\<lambda>c. \<not> is_ws c) s"

lemma ink_simps [simp]:
  "ink [] = []"
  "ink (c # s) = (if is_ws c then ink s else c # ink s)"
  "ink (s @ t) = ink s @ ink t"
  by (simp_all add: ink_def)

lemma ink_trimStart [simp]: "ink (trimStart s) = ink s"
  by (induction s) auto

lemma ink_trimEnd [simp]: "ink (trimEnd s) = ink s"
proof (induction s)
  case (Cons c s)
  then show ?case by (cases "trimEnd s = []") (auto simp: trimEnd_Cons)
qed simp

lemma ink_trim [simp]: "ink (trim s) = ink s"
  by (simp add: trim_def)

lemma ink_squash_ws [simp]: "ink (squash_ws s) = ink s"
  by (induction s rule: squash_ws.induct) (auto split: list.splits)

lemma ink_concat: "ink (concat xss) = concat (map ink xss)"
  by (induction xss) auto

lemma trim_eq_Nil_iff: "trim s = [] \<longleftrightarrow> (\<forall>c \<in> set s. is_ws c)"
  by (auto simp: trim_def trimEnd_def trimStart_def dropWhile_eq_Nil_conv)
     (metis dropWhile_eq_Nil_conv hd_dropWhile hd_in_set list.set_intros(1) set_dropWhileD)+

lemma ink_eq_Nil_iff: "ink s = [] \<longleftrightarrow> trim s = []"
  by (auto simp: ink_def trim_eq_Nil_iff filter_empty_conv)

text \<open>Squashing white space is idempotent.\<close>

lemma squash_ws_ws_Cons:
  "is_ws c \<Longrightarrow> squash_ws (c # s) = (if s \<noteq> [] \<and> is_ws (hd s) then squash_ws s else space # squash_ws s)"
  by (cases s) auto

lemma squash_ws_hd: "s \<noteq> [] \<Longrightarrow> squash_ws s \<noteq> [] \<and> is_ws (hd (squash_ws s)) = is_ws (hd s)"
  by (induction s rule: squash_ws.induct) (auto split: list.splits)

lemma squash_ws_idem [simp]: "squash_ws (squash_ws s) = squash_ws s"
proof (induction s rule: squash_ws.induct)
  case (2 c cs)
  show ?case
  proof (cases "is_ws c")
    case True
    show ?thesis
    proof (cases "cs = [] \<or> \<not> is_ws (hd cs)")
      case c: True
      then have "squash_ws (c # cs) = space # squash_ws cs"
        using True by (cases cs) auto
      moreover have "squash_ws cs = [] \<or> \<not> is_ws (hd (squash_ws cs))"
        using c squash_ws_hd [of cs] by (cases cs) auto
      ultimately show ?thesis
        using 2 True c by (cases cs) (auto simp: squash_ws_ws_Cons)
    next
      case False
      with True 2 show ?thesis by (cases cs) auto
    qed
  next
    case False
    with 2 show ?thesis by simp
  qed
qed simp

lemma slice_pos_le: "slice_pos i s \<le> length s"
  by (auto simp: slice_pos_def)

lemma length_slice_le: "length (slice s a b) \<le> length s"
  using slice_pos_le [of b s] by (simp add: slice_def)

lemma slice_prefix: "0 \<le> b \<Longrightarrow> slice s 0 b = take (nat b) s"
  by (simp add: slice_def slice_pos_def min_def)

text \<open>A number with fewer than 54 bits is read exactly.\<close>

lemma dbl_small [simp]: "n < 9007199254740992 \<Longrightarrow> dbl n = n"
  by (simp add: dbl_def)

lemma half_even_ge0: "0 \<le> a \<Longrightarrow> 0 < b \<Longrightarrow> 0 \<le> half_even a b"
  by (simp add: half_even_def Let_def pos_imp_zdiv_nonneg_iff)

lemma dbl_ge0: "0 \<le> n \<Longrightarrow> 0 \<le> dbl n"
  by (simp add: dbl_def half_even_ge0)

text \<open>
  A pattern of at most \<open>k + 1\<close> elements that appears with a new chunk lies within the last \<open>k\<close>
  elements before it and the chunk.
\<close>

lemma sublist_tail:
  assumes "sublist p (xs @ ys)" "\<not> sublist p xs" "length p \<le> Suc k"
  shows "sublist p (drop (length xs - k) xs @ ys)"
proof -
  obtain u v where uv: "xs @ ys = u @ p @ v"
    using assms(1) by (auto simp: sublist_def)
  have "length xs < length u + length p"
  proof (rule ccontr)
    assume "\<not> ?thesis"
    then have "xs = u @ p @ take (length xs - length (u @ p)) v"
      using arg_cong [OF uv, of "take (length xs)"] by simp
    with assms(2) show False by (metis sublist_appendI)
  qed
  with assms(3) have "length xs - k \<le> length u" by simp
  then have "drop (length xs - k) (xs @ ys) = drop (length xs - k) u @ p @ v"
    unfolding uv by simp
  then have "drop (length xs - k) xs @ ys = drop (length xs - k) u @ p @ v"
    by simp
  then show ?thesis by (metis sublist_appendI)
qed

end
