(* ===== verification/StreamFilter.thy ===== *)
theory StreamFilter
  imports Prelude
begin

text \<open>
  What the byte-stream filters of the terminal share. Each of them appends a chunk of bytes to
  the carry of the last call and walks over the result with \<open>while (i < combined.length)\<close>; an
  iteration looks at the bytes from \<open>i\<close> on and either stops (\<open>break\<close>, the rest is the new carry)
  or emits output, advances and changes the state. \<open>scan\<close> is that loop. The locale
  \<open>stable_scan\<close> states what makes such a loop independent of where the stream is cut, the
  locale \<open>chunk_filter\<close> what a filter promises to its caller.
\<close>

section \<open>The scanning loop\<close>

type_synonym ('s, 'b, 'o) scan_step = "'s \<Rightarrow> 'b list \<Rightarrow> ('o list \<times> nat \<times> 's) option"

text \<open>
  The loop on \<open>combined.slice(i)\<close>. Every iteration of the source that does not \<open>break\<close> advances
  by at least one byte; \<open>max 1\<close> writes that into the recursion, and the progress law of
  \<open>stable_scan\<close> shows it never matters.
\<close>

function scan :: "('s, 'b, 'o) scan_step \<Rightarrow> 's \<Rightarrow> 'b list \<Rightarrow> 'o list \<times> 's \<times> 'b list" where
  "scan f s [] = ([], s, [])"
| "scan f s (b # bs) =
     (case f s (b # bs) of
        None \<Rightarrow> ([], s, b # bs)
      | Some (out, n, s') \<Rightarrow>
          (let (out', s'', c) = scan f s' (drop (max 1 n) (b # bs)) in (out @ out', s'', c)))"
  by pat_completeness auto
termination by (relation "measure (\<lambda>(f, s, xs). length xs)") auto

text \<open>A filter call: the new chunk after the carry, the rest back into the carry.\<close>

definition feed_scan ::
  "('s, 'b, 'o) scan_step \<Rightarrow> 'b list \<times> 's \<Rightarrow> 'b list \<Rightarrow> 'o list \<times> 'b list \<times> 's" where
  "feed_scan f st chunk =
     (let (out, s', c) = scan f (snd st) (fst st @ chunk) in (out, c, s'))"

fun feed_chunks :: "('st \<Rightarrow> 'b list \<Rightarrow> 'o list \<times> 'st) \<Rightarrow> 'st \<Rightarrow> 'b list list \<Rightarrow> 'o list \<times> 'st" where
  "feed_chunks feed st [] = ([], st)"
| "feed_chunks feed st (c # cs) =
     (let (out, st') = feed st c; (out', st'') = feed_chunks feed st' cs in (out @ out', st''))"

section \<open>Byte patterns\<close>

text \<open>
  \<open>bytesStartWith(bytes, offset, pattern)\<close> and \<open>isPossiblePrefix(bytes, offset, patterns)\<close> on the
  bytes from the offset on.
\<close>

definition bytesStartWith :: "byte list \<Rightarrow> byte list \<Rightarrow> bool" where
  "bytesStartWith bs pattern = starts_with pattern bs"

fun isPossiblePrefix :: "byte list \<Rightarrow> byte list list \<Rightarrow> bool" where
  "isPossiblePrefix bs [] = False"
| "isPossiblePrefix bs (p # ps) =
     (if length bs < length p \<and> starts_with bs p then True else isPossiblePrefix bs ps)"

lemma bytesStartWith_append:
  "bytesStartWith bs p \<Longrightarrow> bytesStartWith (bs @ cs) p"
  by (auto simp: bytesStartWith_def starts_with_iff)

lemma isPossiblePrefix_iff:
  "isPossiblePrefix bs ps \<longleftrightarrow> (\<exists>p \<in> set ps. strict_prefix bs p)"
proof -
  have "length bs < length p \<and> starts_with bs p \<longleftrightarrow> strict_prefix bs p" for p :: "byte list"
    by (auto simp: starts_with_iff strict_prefix_def prefix_def)
  then show ?thesis
    by (induction bs ps rule: isPossiblePrefix.induct) auto
qed

text \<open>
  Bytes that neither start with a pattern nor are a proper prefix of it differ from it, and no
  extension of them starts with it.
\<close>

lemma no_pattern_later:
  assumes "\<not> bytesStartWith bs p" "\<not> isPossiblePrefix bs ps" "p \<in> set ps"
  shows "\<not> bytesStartWith (bs @ cs) p"
proof
  assume "bytesStartWith (bs @ cs) p"
  then have "prefix p (bs @ cs)" "prefix bs (bs @ cs)"
    by (simp_all add: bytesStartWith_def starts_with_iff)
  then have "prefix p bs \<or> prefix bs p"
    by (rule prefix_same_cases)
  with assms show False
    by (auto simp: bytesStartWith_def starts_with_iff isPossiblePrefix_iff strict_prefix_def)
qed

lemma no_prefix_later:
  "\<not> isPossiblePrefix bs ps \<Longrightarrow> \<not> isPossiblePrefix (bs @ cs) ps"
  by (auto simp: isPossiblePrefix_iff strict_prefix_def prefix_def)

section \<open>Contracts\<close>

text \<open>What a filter promises: cutting the stream differently does not change what it does.\<close>

locale chunk_filter =
  fixes feed :: "'st \<Rightarrow> 'b list \<Rightarrow> 'o list \<times> 'st"
    and inv :: "'st \<Rightarrow> bool"
  assumes feed_Nil: "inv st \<Longrightarrow> feed st [] = ([], st)"
    and feed_append: "inv st \<Longrightarrow>
      feed st (xs @ ys) =
        (let (out1, st1) = feed st xs; (out2, st2) = feed st1 ys in (out1 @ out2, st2))"
    and feed_inv: "inv st \<Longrightarrow> inv (snd (feed st xs))"
begin

lemma chunks_inv: "inv st \<Longrightarrow> inv (snd (feed_chunks feed st cs))"
proof (induction cs arbitrary: st)
  case (Cons c cs)
  with feed_inv [of st c] show ?case by (auto split: prod.splits) (metis snd_conv)
qed simp

lemma chunks_eq: "inv st \<Longrightarrow> feed_chunks feed st cs = feed st (concat cs)"
proof (induction cs arbitrary: st)
  case Nil
  then show ?case by (simp add: feed_Nil)
next
  case (Cons c cs)
  then have "inv (snd (feed st c))" by (simp add: feed_inv)
  with Cons show ?case by (auto simp: feed_append split: prod.splits)
qed

text \<open>Two ways to cut the same bytes give the same output and the same state.\<close>

lemma chunks_irrelevant:
  "inv st \<Longrightarrow> concat cs = concat ds \<Longrightarrow> feed_chunks feed st cs = feed_chunks feed st ds"
  by (simp add: chunks_eq)

end

text \<open>
  A scanning loop with lookahead: an iteration advances within what it was given, and more input
  behind what it saw does not change what it did.
\<close>

locale stable_scan =
  fixes step :: "('s, 'b, 'o) scan_step"
  assumes progress: "xs \<noteq> [] \<Longrightarrow> step s xs = Some (out, n, s') \<Longrightarrow> 0 < n \<and> n \<le> length xs"
    and stable: "xs \<noteq> [] \<Longrightarrow> step s xs = Some r \<Longrightarrow> step s (xs @ ys) = Some r"
begin

definition settled :: "'b list \<times> 's \<Rightarrow> bool" where
  "settled st \<longleftrightarrow> (case st of (c, s) \<Rightarrow> c = [] \<or> step s c = None)"

lemma scan_Some:
  assumes "xs \<noteq> []" "step s xs = Some (out, n, s')"
  shows "scan step s (xs @ ys) =
    (let (out', s'', c) = scan step s' (drop n xs @ ys) in (out @ out', s'', c))"
proof -
  obtain b bs where b: "xs @ ys = b # bs" using assms(1) by (cases xs) auto
  have "step s (b # bs) = Some (out, n, s')"
    using stable [OF assms, of ys] b by simp
  moreover have "drop (max 1 n) (b # bs) = drop n xs @ ys"
    using progress [OF assms] b [symmetric] by (simp add: max_absorb2)
  ultimately show ?thesis by (simp add: b del: drop_append)
qed

lemma scan_settled: "scan step s xs = (out, s', c) \<Longrightarrow> settled (c, s')"
proof (induction xs arbitrary: s out rule: length_induct)
  case (1 xs)
  show ?case
  proof (cases "xs = [] \<or> step s xs = None")
    case True
    with 1 show ?thesis by (cases xs) (auto simp: settled_def)
  next
    case False
    then obtain o1 n s1 where st: "xs \<noteq> []" "step s xs = Some (o1, n, s1)"
      by (cases "step s xs") auto
    then have "length (drop n xs) < length xs"
      using progress [OF st] by (cases xs) auto
    moreover obtain o2 where "scan step s1 (drop n xs) = (o2, s', c)"
      using 1(2) scan_Some [OF st, of "[]"] by (auto split: prod.splits)
    ultimately show ?thesis using 1(1) by blast
  qed
qed

lemma scan_stop: "settled (c, s) \<Longrightarrow> scan step s c = ([], s, c)"
  by (cases c) (auto simp: settled_def)

lemma scan_append:
  "scan step s (xs @ ys) =
     (let (out1, s1, c1) = scan step s xs; (out2, s2, c2) = scan step s1 (c1 @ ys)
      in (out1 @ out2, s2, c2))"
proof (induction xs arbitrary: s rule: length_induct)
  case (1 xs)
  show ?case
  proof (cases "xs = [] \<or> step s xs = None")
    case True
    then have "scan step s xs = ([], s, xs)" by (cases xs) auto
    then show ?thesis by (simp split: prod.split)
  next
    case False
    then obtain out n s' where st: "xs \<noteq> []" "step s xs = Some (out, n, s')"
      by (cases "step s xs") auto
    have "length (drop n xs) < length xs"
      using progress [OF st] st(1) by (cases xs) auto
    then have IH: "scan step s' (drop n xs @ ys) =
        (let (out1, s1, c1) = scan step s' (drop n xs); (out2, s2, c2) = scan step s1 (c1 @ ys)
         in (out1 @ out2, s2, c2))"
      using 1 by blast
    have "scan step s xs = (let (out', s'', c) = scan step s' (drop n xs) in (out @ out', s'', c))"
      using scan_Some [OF st, of "[]"] by simp
    then show ?thesis
      unfolding scan_Some [OF st] IH by (auto split: prod.splits)
  qed
qed

end

sublocale stable_scan \<subseteq> chunked: chunk_filter "feed_scan step" settled
proof
  fix st :: "'b list \<times> 's" and xs ys :: "'b list"
  obtain c s where st: "st = (c, s)" by (cases st)
  show "settled st \<Longrightarrow> feed_scan step st [] = ([], st)"
    by (simp add: st feed_scan_def scan_stop)
  show "settled (snd (feed_scan step st xs))"
    using scan_settled [of s "c @ xs"] by (auto simp: st feed_scan_def split: prod.splits)
  show "feed_scan step st (xs @ ys) =
      (let (out1, st1) = feed_scan step st xs; (out2, st2) = feed_scan step st1 ys
       in (out1 @ out2, st2))"
    using scan_append [of s "c @ xs" ys]
    by (auto simp: st feed_scan_def split: prod.splits)
qed

text \<open>A filter behind a filter is a filter: the stages of \<open>writePTYChunk\<close>.\<close>

definition pipe ::
  "('st \<Rightarrow> 'b list \<Rightarrow> 'c list \<times> 'st) \<Rightarrow> ('tt \<Rightarrow> 'c list \<Rightarrow> 'd list \<times> 'tt)
    \<Rightarrow> 'st \<times> 'tt \<Rightarrow> 'b list \<Rightarrow> 'd list \<times> 'st \<times> 'tt" where
  "pipe f g st xs =
     (let (mid, s') = f (fst st) xs; (out, t') = g (snd st) mid in (out, s', t'))"

locale filter_pipe =
  first: chunk_filter f finv + second: chunk_filter g ginv
  for f :: "'st \<Rightarrow> 'b list \<Rightarrow> 'c list \<times> 'st" and finv
    and g :: "'tt \<Rightarrow> 'c list \<Rightarrow> 'd list \<times> 'tt" and ginv

sublocale filter_pipe \<subseteq> piped: chunk_filter "pipe f g" "\<lambda>st. finv (fst st) \<and> ginv (snd st)"
proof
  fix st :: "'st \<times> 'tt" and xs ys :: "'b list"
  assume inv: "finv (fst st) \<and> ginv (snd st)"
  then show "pipe f g st [] = ([], st)"
    by (simp add: pipe_def first.feed_Nil second.feed_Nil)
  show "finv (fst (snd (pipe f g st xs))) \<and> ginv (snd (snd (pipe f g st xs)))"
    using inv first.feed_inv [of "fst st" xs] second.feed_inv [of "snd st" "fst (f (fst st) xs)"]
    by (auto simp: pipe_def split: prod.splits)
  show "pipe f g st (xs @ ys) =
      (let (out1, st1) = pipe f g st xs; (out2, st2) = pipe f g st1 ys in (out1 @ out2, st2))"
    using inv by (auto simp: pipe_def first.feed_append second.feed_append split: prod.splits)
qed

end
