(* ===== verification/JsRegex.thy ===== *)
theory JsRegex
  imports Prelude
begin

text \<open>
  JavaScript regular expressions, as far as the web client uses them: the backtracking matcher
  of ECMA-262 in continuation-passing style (greedy and lazy quantifiers, captures that are
  reset at each iteration, assertions, the \<open>i\<close> flag), the search and global-match loops of
  \<open>exec\<close>, and \<open>replace\<close>. A literal of the source is transcribed as a term of type \<open>rx\<close>.
  A declarative denotation, with soundness and completeness of the matcher against it, is what
  proofs about concrete expressions use.
\<close>

section \<open>Syntax\<close>

datatype citem = CRange cu cu | CWs | CDigit | CNonDigit | CWordCh | CNonWs

datatype cclass = CC bool "citem list"  \<comment> \<open>negated?, items\<close>

datatype rx =
    REps
  | RCls cclass
  | RSeq rx rx
  | RAlt rx rx
  | RRep bool nat "nat option" rx  \<comment> \<open>greedy?, min, max\<close>
  | RGrp nat rx
  | RBol
  | REol
  | RWordB
  | RLook bool rx  \<comment> \<open>lookahead; True is negative\<close>

definition chr :: "cu \<Rightarrow> rx" where "chr c = RCls (CC False [CRange c c])"
definition anyOf :: "jstr \<Rightarrow> rx" where "anyOf cs = RCls (CC False (map (\<lambda>c. CRange c c) cs))"
definition dot :: rx where "dot = RCls (CC True [CRange 10 10, CRange 13 13, CRange 8232 8233])"
definition anyChar :: rx where "anyChar = RCls (CC True [])"  \<comment> \<open>\<open>[\s\S]\<close>\<close>
definition wsCh :: rx where "wsCh = RCls (CC False [CWs])"
definition nonWs :: rx where "nonWs = RCls (CC False [CNonWs])"
definition digit :: rx where "digit = RCls (CC False [CDigit])"

fun seqs :: "rx list \<Rightarrow> rx" where
  "seqs [] = REps"
| "seqs [r] = r"
| "seqs (r # s # rs) = RSeq r (seqs (s # rs))"

fun alts :: "rx list \<Rightarrow> rx" where
  "alts [] = REps"
| "alts [r] = r"
| "alts (r # s # rs) = RAlt r (alts (s # rs))"

definition lit :: "jstr \<Rightarrow> rx" where "lit s = seqs (map chr s)"
definition many :: "rx \<Rightarrow> rx" where "many r = RRep True 0 None r"
definition many1 :: "rx \<Rightarrow> rx" where "many1 r = RRep True 1 None r"
definition manyLazy :: "rx \<Rightarrow> rx" where "manyLazy r = RRep False 0 None r"
definition many1Lazy :: "rx \<Rightarrow> rx" where "many1Lazy r = RRep False 1 None r"
definition opt :: "rx \<Rightarrow> rx" where "opt r = RRep True 0 (Some 1) r"
definition times :: "nat \<Rightarrow> nat \<Rightarrow> rx \<Rightarrow> rx" where "times a b r = RRep True a (Some b) r"
definition atLeast :: "nat \<Rightarrow> rx \<Rightarrow> rx" where "atLeast a r = RRep True a None r"

lemmas rx_abbrevs = chr_def anyOf_def dot_def anyChar_def wsCh_def nonWs_def digit_def
  lit_def many_def many1_def manyLazy_def many1Lazy_def opt_def times_def atLeast_def

section \<open>Characters\<close>

text \<open>
  With the \<open>i\<close> flag two code units match when they have the same upper case. The letters that
  occur in the source's case-insensitive expressions are ASCII and full-width ones.
\<close>

definition other_case :: "cu \<Rightarrow> cu" where
  "other_case c =
     (if 65 \<le> c \<and> c \<le> 90 then c + 32
      else if 97 \<le> c \<and> c \<le> 122 then c - 32
      else if 65313 \<le> c \<and> c \<le> 65338 then c + 32
      else if 65345 \<le> c \<and> c \<le> 65370 then c - 32
      else c)"

fun in_items :: "cu \<Rightarrow> citem list \<Rightarrow> bool" where
  "in_items c [] = False"
| "in_items c (CRange a b # is) = (if a \<le> c \<and> c \<le> b then True else in_items c is)"
| "in_items c (CWs # is) = (if is_ws c then True else in_items c is)"
| "in_items c (CDigit # is) = (if is_digit c then True else in_items c is)"
| "in_items c (CNonDigit # is) = (if is_digit c then in_items c is else True)"
| "in_items c (CWordCh # is) = (if is_word c then True else in_items c is)"
| "in_items c (CNonWs # is) = (if is_ws c then in_items c is else True)"

fun in_class :: "bool \<Rightarrow> cclass \<Rightarrow> cu \<Rightarrow> bool" where
  "in_class ic (CC neg is) c =
     ((if in_items c is then True else if ic then in_items (other_case c) is else False) \<noteq> neg)"

section \<open>The matcher\<close>

text \<open>
  A match state: the position, the code unit before it, what is left of the input, and the
  captures so far (the newest first) as positions.
\<close>

datatype st = St (pos: int) (prev: "cu option") (rest: jstr) (caps: "(nat \<times> int \<times> int) list")

type_synonym cont = "st \<Rightarrow> st option"

primrec groups :: "rx \<Rightarrow> nat list" where
  "groups REps = []"
| "groups (RCls c) = []"
| "groups (RSeq a b) = groups a @ groups b"
| "groups (RAlt a b) = groups a @ groups b"
| "groups (RRep g mn mx r) = groups r"
| "groups (RGrp n r) = n # groups r"
| "groups RBol = []"
| "groups REol = []"
| "groups RWordB = []"
| "groups (RLook neg r) = groups r"

definition forget :: "nat list \<Rightarrow> st \<Rightarrow> st" where
  "forget gs x =
     (if gs = [] then x
      else St (pos x) (prev x) (rest x) (filter (\<lambda>(n, _). \<not> List.member gs n) (caps x)))"

text \<open>
  The optional iterations of a quantifier. An iteration that consumes nothing fails, so at most
  \<open>length (rest x)\<close> of them can succeed; that length is the fuel.
\<close>

primrec loop :: "nat \<Rightarrow> (cont \<Rightarrow> cont) \<Rightarrow> bool \<Rightarrow> nat list \<Rightarrow> nat option \<Rightarrow> cont \<Rightarrow> cont" where
  "loop 0 m greedy gs mx k x = k x"
| "loop (Suc f) m greedy gs mx k x =
     (if mx = Some 0 then k x
      else if greedy then
        (case m (\<lambda>y. if pos y = pos x then None
                     else loop f m greedy gs (map_option (\<lambda>n. n - 1) mx) k y) (forget gs x) of
           None \<Rightarrow> k x | Some z \<Rightarrow> Some z)
      else
        (case k x of
           None \<Rightarrow> m (\<lambda>y. if pos y = pos x then None
                     else loop f m greedy gs (map_option (\<lambda>n. n - 1) mx) k y) (forget gs x)
         | Some z \<Rightarrow> Some z))"

primrec must :: "nat \<Rightarrow> (cont \<Rightarrow> cont) \<Rightarrow> nat list \<Rightarrow> cont \<Rightarrow> cont" where
  "must 0 m gs k x = k x"
| "must (Suc n) m gs k x = m (must n m gs k) (forget gs x)"

definition at_word :: "cu option \<Rightarrow> bool" where
  "at_word c = (case c of None \<Rightarrow> False | Some d \<Rightarrow> is_word d)"

definition next_cu :: "st \<Rightarrow> cu option" where
  "next_cu x = (case rest x of [] \<Rightarrow> None | c # _ \<Rightarrow> Some c)"

primrec run :: "bool \<Rightarrow> rx \<Rightarrow> cont \<Rightarrow> cont" where
  "run ic REps k x = k x"
| "run ic (RCls c) k x =
     (case rest x of [] \<Rightarrow> None
      | a # as \<Rightarrow> if in_class ic c a then k (St (pos x + 1) (Some a) as (caps x)) else None)"
| "run ic (RSeq a b) k x = run ic a (run ic b k) x"
| "run ic (RAlt a b) k x = (case run ic a k x of None \<Rightarrow> run ic b k x | Some z \<Rightarrow> Some z)"
| "run ic (RRep greedy mn mx r) k x =
     must mn (run ic r) (groups r)
       (\<lambda>y. loop (length (rest y)) (run ic r) greedy (groups r)
              (map_option (\<lambda>n. n - mn) mx) k y) x"
| "run ic (RGrp n r) k x =
     run ic r (\<lambda>y. k (St (pos y) (prev y) (rest y) ((n, pos x, pos y) # caps y))) x"
| "run ic RBol k x = (if prev x = None then k x else None)"
| "run ic REol k x = (if rest x = [] then k x else None)"
| "run ic RWordB k x = (if at_word (prev x) \<noteq> at_word (next_cu x) then k x else None)"
| "run ic (RLook neg r) k x =
     (case run ic r Some x of
        None \<Rightarrow> if neg then k x else None
      | Some y \<Rightarrow> if neg then None else k (St (pos x) (prev x) (rest x) (caps y)))"

section \<open>Denotation\<close>

definition iter1 :: "(st \<Rightarrow> st set) \<Rightarrow> nat list \<Rightarrow> st rel" where
  "iter1 R gs = {(x, y). y \<in> R (forget gs x) \<and> pos y \<noteq> pos x}"

primrec must_den :: "nat \<Rightarrow> (st \<Rightarrow> st set) \<Rightarrow> nat list \<Rightarrow> st \<Rightarrow> st set" where
  "must_den 0 R gs x = {x}"
| "must_den (Suc n) R gs x = (\<Union>y \<in> R (forget gs x). must_den n R gs y)"

fun within :: "nat option \<Rightarrow> nat \<Rightarrow> bool" where
  "within None j = True"
| "within (Some m) j = (j \<le> m)"

lemma within_pred: "within mx (Suc j) \<Longrightarrow> within (map_option (\<lambda>n. n - Suc 0) mx) j"
  by (cases mx) auto

definition loop_den :: "(st \<Rightarrow> st set) \<Rightarrow> nat list \<Rightarrow> nat option \<Rightarrow> st \<Rightarrow> st set" where
  "loop_den R gs mx x =
     {y. \<exists>j. within mx j \<and> (x, y) \<in> iter1 R gs ^^ j}"

text \<open>
  The states an expression can reach: the order of preference of the matcher is forgotten.
  Lookahead keeps the matcher, whose first success decides the captures.
\<close>

primrec den :: "bool \<Rightarrow> rx \<Rightarrow> st \<Rightarrow> st set" where
  "den ic REps x = {x}"
| "den ic (RCls c) x =
     (case rest x of [] \<Rightarrow> {}
      | a # as \<Rightarrow> if in_class ic c a then {St (pos x + 1) (Some a) as (caps x)} else {})"
| "den ic (RSeq a b) x = (\<Union>y \<in> den ic a x. den ic b y)"
| "den ic (RAlt a b) x = den ic a x \<union> den ic b x"
| "den ic (RRep greedy mn mx r) x =
     (\<Union>y \<in> must_den mn (den ic r) (groups r) x.
        loop_den (den ic r) (groups r) (map_option (\<lambda>n. n - mn) mx) y)"
| "den ic (RGrp n r) x =
     (\<lambda>y. St (pos y) (prev y) (rest y) ((n, pos x, pos y) # caps y)) ` den ic r x"
| "den ic RBol x = (if prev x = None then {x} else {})"
| "den ic REol x = (if rest x = [] then {x} else {})"
| "den ic RWordB x = (if at_word (prev x) \<noteq> at_word (next_cu x) then {x} else {})"
| "den ic (RLook neg r) x =
     (case run ic r Some x of
        None \<Rightarrow> if neg then {x} else {}
      | Some y \<Rightarrow> if neg then {} else {St (pos x) (prev x) (rest x) (caps y)})"

text \<open>Every reachable state is further along the same input.\<close>

definition along :: "st \<Rightarrow> st \<Rightarrow> bool" where
  "along x y \<longleftrightarrow> (\<exists>u. rest x = u @ rest y \<and> pos y = pos x + int (length u))"

lemma along_refl [simp]: "along x x"
  by (simp add: along_def)

lemma along_trans: "along x y \<Longrightarrow> along y z \<Longrightarrow> along x z"
  by (force simp: along_def)

lemma forget_simps [simp]:
  "pos (forget gs x) = pos x" "prev (forget gs x) = prev x" "rest (forget gs x) = rest x"
  by (simp_all add: forget_def)

lemma along_forget [simp]: "along (forget gs x) y = along x y"
  by (simp add: along_def)

lemma along_length: "along x y \<Longrightarrow> pos y = pos x + int (length (rest x)) - int (length (rest y))"
  by (auto simp: along_def)

lemma along_progress: "along x y \<Longrightarrow> pos y \<noteq> pos x \<Longrightarrow> length (rest y) < length (rest x)"
  by (auto simp: along_def)

lemma along_pos_le: "along x y \<Longrightarrow> pos x \<le> pos y"
  by (auto simp: along_def)

lemma must_den_along:
  assumes "\<And>x y. y \<in> R x \<Longrightarrow> along x y"
  shows "y \<in> must_den n R gs x \<Longrightarrow> along x y"
proof (induction n arbitrary: x)
  case (Suc n)
  then obtain z where "z \<in> R (forget gs x)" "y \<in> must_den n R gs z" by auto
  with Suc.IH [of z] assms [of z "forget gs x"] show ?case
    by (auto intro: along_trans)
qed simp

lemma iter1_along:
  assumes "\<And>x y. y \<in> R x \<Longrightarrow> along x y"
  shows "(x, y) \<in> iter1 R gs ^^ j \<Longrightarrow> along x y"
proof (induction j arbitrary: y)
  case (Suc j)
  then obtain z where z: "(x, z) \<in> iter1 R gs ^^ j" "(z, y) \<in> iter1 R gs"
    by auto
  from z(2) have "along (forget gs z) y"
    using assms [of y "forget gs z"] by (auto simp: iter1_def)
  with Suc.IH [OF z(1)] show ?case
    by (auto intro: along_trans)
qed simp

lemma den_along: "y \<in> den ic r x \<Longrightarrow> along x y"
proof (induction r arbitrary: x y)
  case (RCls c)
  then show ?case by (auto simp: along_def split: list.splits if_splits)
next
  case (RSeq a b)
  then obtain z where "z \<in> den ic a x" "y \<in> den ic b z" by auto
  then show ?case by (blast intro: RSeq.IH along_trans)
next
  case (RRep g mn mx r)
  then obtain z where z: "z \<in> must_den mn (den ic r) (groups r) x"
    and y: "y \<in> loop_den (den ic r) (groups r) (map_option (\<lambda>n. n - mn) mx) z"
    by auto
  have "along x z"
    by (rule must_den_along [OF _ z]) (rule RRep.IH)
  moreover from y obtain j where "(z, y) \<in> iter1 (den ic r) (groups r) ^^ j"
    by (auto simp: loop_den_def)
  then have "along z y"
    by (rule iter1_along [rotated]) (rule RRep.IH)
  ultimately show ?case by (rule along_trans)
next
  case (RGrp n r)
  then show ?case by (force simp: along_def)
next
  case (RLook neg r)
  then show ?case by (auto simp: along_def split: option.splits if_splits)
qed (auto split: if_splits)

section \<open>Soundness and completeness of the matcher\<close>

definition implements :: "(cont \<Rightarrow> cont) \<Rightarrow> (st \<Rightarrow> st set) \<Rightarrow> bool" where
  "implements m R \<longleftrightarrow>
     (\<forall>k x z. m k x = Some z \<longrightarrow> (\<exists>y \<in> R x. k y = Some z)) \<and>
     (\<forall>k x y. y \<in> R x \<longrightarrow> k y \<noteq> None \<longrightarrow> m k x \<noteq> None)"

lemma implements_sound: "implements m R \<Longrightarrow> m k x = Some z \<Longrightarrow> \<exists>y \<in> R x. k y = Some z"
  by (auto simp: implements_def)

lemma implements_complete: "implements m R \<Longrightarrow> y \<in> R x \<Longrightarrow> k y \<noteq> None \<Longrightarrow> m k x \<noteq> None"
  unfolding implements_def by blast

lemma must_sound:
  assumes "implements m R"
  shows "must n m gs k x = Some z \<Longrightarrow> \<exists>y \<in> must_den n R gs x. k y = Some z"
proof (induction n arbitrary: x)
  case (Suc n)
  then obtain y where "y \<in> R (forget gs x)" "must n m gs k y = Some z"
    using implements_sound [OF assms] by fastforce
  with Suc.IH [of y] show ?case by auto
qed simp

lemma must_complete:
  assumes "implements m R"
  shows "y \<in> must_den n R gs x \<Longrightarrow> k y \<noteq> None \<Longrightarrow> must n m gs k x \<noteq> None"
proof (induction n arbitrary: x)
  case (Suc n)
  then obtain u where u: "u \<in> R (forget gs x)" "y \<in> must_den n R gs u"
    by auto
  then have "must n m gs k u \<noteq> None"
    using Suc by blast
  with implements_complete [OF assms u(1)] show ?case by simp
qed simp

lemma loop_sound:
  assumes "implements m R"
  shows "loop f m greedy gs mx k x = Some z \<Longrightarrow> \<exists>y \<in> loop_den R gs mx x. k y = Some z"
proof (induction f arbitrary: x mx)
  case 0
  then have "k x = Some z" by simp
  moreover have "x \<in> loop_den R gs mx x"
    by (cases mx) (auto simp: loop_den_def intro!: exI [of _ 0])
  ultimately show ?case by blast
next
  case (Suc f)
  have here: "x \<in> loop_den R gs mx x"
    by (cases mx) (auto simp: loop_den_def intro!: exI [of _ 0])
  show ?case
  proof (cases "k x = Some z")
    case True
    with here show ?thesis by blast
  next
    case False
    with Suc.prems have mx: "mx \<noteq> Some 0"
      and "m (\<lambda>y. if pos y = pos x then None
             else loop f m greedy gs (map_option (\<lambda>n. n - 1) mx) k y) (forget gs x) = Some z"
      by (auto split: if_splits option.splits)
    then obtain y where y: "y \<in> R (forget gs x)" "pos y \<noteq> pos x"
        "loop f m greedy gs (map_option (\<lambda>n. n - 1) mx) k y = Some z"
      using implements_sound [OF assms] by (fastforce split: if_splits)
    from Suc.IH [OF y(3)] obtain w j where w: "k w = Some z"
        "within (map_option (\<lambda>n. n - 1) mx) j" "(y, w) \<in> iter1 R gs ^^ j"
      unfolding loop_den_def by blast
    have "(x, w) \<in> iter1 R gs ^^ Suc j"
      using y w(3) by (intro relpow_Suc_I2 [of x y]) (auto simp: iter1_def)
    moreover have "within mx (Suc j)"
      using w(2) mx by (cases mx) auto
    ultimately have "w \<in> loop_den R gs mx x"
      unfolding loop_den_def by blast
    with w(1) show ?thesis by blast
  qed
qed

lemma loop_complete:
  assumes "implements m R" and along: "\<And>x y. y \<in> R x \<Longrightarrow> along x y"
  shows "(x, y) \<in> iter1 R gs ^^ j \<Longrightarrow> within mx j
     \<Longrightarrow> length (rest x) \<le> f \<Longrightarrow> k y \<noteq> None \<Longrightarrow> loop f m greedy gs mx k x \<noteq> None"
proof (induction f arbitrary: x mx j)
  case 0
  have "y = x"
  proof (rule ccontr)
    assume "y \<noteq> x"
    with 0(1) obtain w where "(x, w) \<in> iter1 R gs"
      by (metis relpow_E2)
    then have "length (rest w) < length (rest (forget gs x))"
      using along [of w "forget gs x"] by (intro along_progress) (auto simp: iter1_def)
    with 0(3) show False by simp
  qed
  with 0 show ?case by simp
next
  case (Suc f)
  show ?case
  proof (cases "k x = None")
    case False
    then show ?thesis by (auto split: option.splits)
  next
    case True
    with Suc.prems(1,4) obtain i w where j: "j = Suc i"
        and w: "(x, w) \<in> iter1 R gs" "(w, y) \<in> iter1 R gs ^^ i"
      by (metis relpow_E2)
    have R: "w \<in> R (forget gs x)" "pos w \<noteq> pos x"
      using w(1) by (auto simp: iter1_def)
    have "length (rest w) < length (rest (forget gs x))"
      using along [OF R(1)] R(2) by (intro along_progress) auto
    then have "loop f m greedy gs (map_option (\<lambda>n. n - 1) mx) k w \<noteq> None"
      using Suc.prems j w(2) by (intro Suc.IH [of w i]) (auto simp: within_pred)
    with R have "m (\<lambda>y. if pos y = pos x then None
        else loop f m greedy gs (map_option (\<lambda>n. n - 1) mx) k y) (forget gs x) \<noteq> None"
      by (intro implements_complete [OF assms(1) R(1)]) simp
    moreover have "mx \<noteq> Some 0"
      using Suc.prems(2) j by auto
    ultimately show ?thesis
      using True by (auto split: option.splits)
  qed
qed

lemma run_implements: "implements (run ic r) (den ic r)"
proof (induction r)
  case (RRep greedy mn mx r)
  let ?R = "den ic r" and ?gs = "groups r" and ?mx = "map_option (\<lambda>n. n - mn) mx"
  show ?case
    unfolding implements_def
  proof (intro conjI allI impI)
    fix k x z
    assume "run ic (RRep greedy mn mx r) k x = Some z"
    then obtain y where "y \<in> must_den mn ?R ?gs x"
        and "loop (length (rest y)) (run ic r) greedy ?gs ?mx k y = Some z"
      using must_sound [OF RRep] by fastforce
    with loop_sound [OF RRep] show "\<exists>y \<in> den ic (RRep greedy mn mx r) x. k y = Some z"
      by fastforce
  next
    fix k :: cont and x y
    assume "y \<in> den ic (RRep greedy mn mx r) x" and k: "k y \<noteq> None"
    then obtain w j where w: "w \<in> must_den mn ?R ?gs x" "(w, y) \<in> iter1 ?R ?gs ^^ j"
        "within ?mx j"
      by (auto simp: loop_den_def)
    then have "loop (length (rest w)) (run ic r) greedy ?gs ?mx k w \<noteq> None"
      using k by (intro loop_complete [OF RRep den_along]) auto
    with must_complete [OF RRep w(1)] show "run ic (RRep greedy mn mx r) k x \<noteq> None"
      by simp
  qed
next
  case (RSeq a b)
  show ?case
    unfolding implements_def
  proof (intro conjI allI impI)
    fix k x z assume "run ic (RSeq a b) k x = Some z"
    then show "\<exists>y \<in> den ic (RSeq a b) x. k y = Some z"
      using implements_sound [OF RSeq.IH(1)] implements_sound [OF RSeq.IH(2)] by fastforce
  next
    fix k :: cont and x y assume "y \<in> den ic (RSeq a b) x" "k y \<noteq> None"
    then obtain w where "w \<in> den ic a x" "y \<in> den ic b w" by auto
    with \<open>k y \<noteq> None\<close> show "run ic (RSeq a b) k x \<noteq> None"
      using implements_complete [OF RSeq.IH(1), of w x]
        implements_complete [OF RSeq.IH(2), of y w] by simp
  qed
next
  case (RAlt a b)
  show ?case
    unfolding implements_def
  proof (intro conjI allI impI)
    fix k x z assume "run ic (RAlt a b) k x = Some z"
    then consider "run ic a k x = Some z" | "run ic b k x = Some z"
      by (auto split: option.splits)
    then show "\<exists>y \<in> den ic (RAlt a b) x. k y = Some z"
      using implements_sound [OF RAlt.IH(1)] implements_sound [OF RAlt.IH(2)]
      by cases fastforce+
  next
    fix k :: cont and x y assume "y \<in> den ic (RAlt a b) x" "k y \<noteq> None"
    then show "run ic (RAlt a b) k x \<noteq> None"
      using implements_complete [OF RAlt.IH(1), of y x k]
        implements_complete [OF RAlt.IH(2), of y x k] by (auto split: option.splits)
  qed
next
  case (RGrp n r)
  then show ?case
    unfolding implements_def by (auto simp: bex_simps)
qed (auto simp: implements_def split: list.splits option.splits if_splits)

theorem run_sound: "run ic r k x = Some z \<Longrightarrow> \<exists>y \<in> den ic r x. k y = Some z"
  by (rule implements_sound [OF run_implements])

theorem run_complete: "y \<in> den ic r x \<Longrightarrow> k y \<noteq> None \<Longrightarrow> run ic r k x \<noteq> None"
  by (rule implements_complete [OF run_implements])


section \<open>Search, exec and replace\<close>

text \<open>The start state at the beginning of a string, and the state one code unit further.\<close>

definition start :: "jstr \<Rightarrow> st" where
  "start s = St 0 None s []"

fun skip1 :: "st \<Rightarrow> st" where
  "skip1 (St p q [] cs) = St p q [] []"
| "skip1 (St p q (c # r) cs) = St (p + 1) (Some c) r []"

fun seek :: "bool \<Rightarrow> rx \<Rightarrow> int \<Rightarrow> cu option \<Rightarrow> jstr \<Rightarrow> (int \<times> st) option" where
  "seek ic re p q [] = map_option (\<lambda>y. (p, y)) (run ic re Some (St p q [] []))"
| "seek ic re p q (c # r) =
     (case run ic re Some (St p q (c # r) []) of
        Some y \<Rightarrow> Some (p, y)
      | None \<Rightarrow> seek ic re (p + 1) (Some c) r)"

definition find_at :: "bool \<Rightarrow> rx \<Rightarrow> st \<Rightarrow> (int \<times> st) option" where
  "find_at ic re x = seek ic re (pos x) (prev x) (rest x)"

text \<open>A match: where it starts and ends, its captures, and the whole input.\<close>

datatype rmatch = RM (m_index: int) (m_end: int) (m_caps: "(nat \<times> int \<times> int) list") (m_input: jstr)

definition substring :: "jstr \<Rightarrow> int \<Rightarrow> int \<Rightarrow> jstr" where
  "substring s a b = take (nat (b - a)) (drop (nat a) s)"

definition m_text :: "rmatch \<Rightarrow> jstr" where
  "m_text m = substring (m_input m) (m_index m) (m_end m)"

definition m_group :: "rmatch \<Rightarrow> nat \<Rightarrow> jstr option" where
  "m_group m n = map_option (\<lambda>(a, b). substring (m_input m) a b) (map_of (m_caps m) n)"

text \<open>\<open>m[n]\<close> where the code uses it as a string it knows to be there.\<close>

definition grp :: "rmatch \<Rightarrow> nat \<Rightarrow> jstr" where
  "grp m n = (case m_group m n of None \<Rightarrow> [] | Some s \<Rightarrow> s)"

definition exec :: "bool \<Rightarrow> rx \<Rightarrow> jstr \<Rightarrow> rmatch option" where
  "exec ic re s = map_option (\<lambda>(i, y). RM i (pos y) (caps y) s) (find_at ic re (start s))"

definition test :: "bool \<Rightarrow> rx \<Rightarrow> jstr \<Rightarrow> bool" where
  "test ic re s = (case find_at ic re (start s) of None \<Rightarrow> False | Some _ \<Rightarrow> True)"

text \<open>A hit of the search is a match of the denotation from a later position of the input.\<close>

lemma seek_Some:
  "seek ic re p q r = Some (i, y) \<Longrightarrow>
     \<exists>u r' q'. r = u @ r' \<and> i = p + int (length u) \<and> y \<in> den ic re (St i q' r' [])"
proof (induction ic re p q r rule: seek.induct)
  case (1 ic re p q)
  then have "run ic re Some (St p q [] []) = Some y" "i = p"
    by auto
  then have "y \<in> den ic re (St i q [] [])"
    using run_sound [of ic re Some] by fastforce
  with \<open>i = p\<close> show ?case by auto
next
  case (2 ic re p q c r)
  show ?case
  proof (cases "run ic re Some (St p q (c # r) [])")
    case None
    with 2 obtain u r' q' where u: "r = u @ r'" "i = p + 1 + int (length u)"
        "y \<in> den ic re (St i q' r' [])"
      by auto
    show ?thesis
      by (rule exI [of _ "c # u"], rule exI [of _ r'], rule exI [of _ q']) (use u in simp)
  next
    case (Some z)
    with 2 have z: "i = p" "y = z" by auto
    with Some have "y \<in> den ic re (St i q (c # r) [])"
      using run_sound [of ic re Some] by fastforce
    show ?thesis
      by (rule exI [of _ "[]"], rule exI [of _ "c # r"], rule exI [of _ q])
         (use z(1) \<open>y \<in> _\<close> in simp)
  qed
qed

lemma find_at_Some:
  assumes "find_at ic re x = Some (i, y)"
  obtains u r' q' where "rest x = u @ r'" "i = pos x + int (length u)"
    "y \<in> den ic re (St i q' r' [])" "along (St i q' r' []) y"
  using seek_Some [OF assms [unfolded find_at_def]] den_along by blast

lemma find_at_bounds:
  assumes "find_at ic re x = Some (i, y)"
  shows "pos x \<le> i" "i \<le> pos y" "along x y"
proof -
  obtain u r' q' where u: "rest x = u @ r'" "i = pos x + int (length u)"
      "along (St i q' r' []) y"
    using find_at_Some [OF assms] by blast
  then show "pos x \<le> i" "i \<le> pos y"
    using along_pos_le by fastforce+
  show "along x y"
    using u by (force simp: along_def)
qed

lemma find_at_progress:
  assumes "find_at ic re x = Some (i, y)" and "pos y \<noteq> i"
  shows "length (rest y) < length (rest x)"
  using find_at_bounds [OF assms(1)] assms(2) by (intro along_progress) auto

text \<open>
  The loop \<open>while ((m = re.exec(s)) !== null)\<close> of a global expression; after an empty match the
  next search starts one code unit further, as every such loop of the source arranges.
\<close>

function find_all :: "bool \<Rightarrow> rx \<Rightarrow> st \<Rightarrow> (int \<times> st) list" where
  "find_all ic re x =
     (case find_at ic re x of
        None \<Rightarrow> []
      | Some (i, y) \<Rightarrow>
          (i, y) #
          (if pos y \<noteq> i then find_all ic re y
           else if rest y = [] then [] else find_all ic re (skip1 y)))"
  by pat_completeness auto
termination
proof (relation "measure (\<lambda>(ic, re, x). length (rest x))", goal_cases)
  case (2 ic re x a i y)
  then show ?case using find_at_progress by auto
next
  case (3 ic re x a i y)
  then have "along x y" using find_at_bounds by auto
  then have "length (rest y) \<le> length (rest x)" by (auto simp: along_def)
  with 3 show ?case by (cases y rule: skip1.cases) auto
qed simp

declare find_all.simps [simp del]

definition exec_all :: "bool \<Rightarrow> rx \<Rightarrow> jstr \<Rightarrow> rmatch list" where
  "exec_all ic re s = map (\<lambda>(i, y). RM i (pos y) (caps y) s) (find_all ic re (start s))"

text \<open>\<open>s.replace(re, f)\<close> without and with the \<open>g\<close> flag.\<close>

fun splice :: "(rmatch \<Rightarrow> jstr) \<Rightarrow> jstr \<Rightarrow> int \<Rightarrow> rmatch list \<Rightarrow> jstr" where
  "splice f s p [] = drop (nat p) s"
| "splice f s p (m # ms) = substring s p (m_index m) @ f m @ splice f s (m_end m) ms"

definition replace_first :: "bool \<Rightarrow> rx \<Rightarrow> (rmatch \<Rightarrow> jstr) \<Rightarrow> jstr \<Rightarrow> jstr" where
  "replace_first ic re f s =
     (case exec ic re s of None \<Rightarrow> s | Some m \<Rightarrow> splice f s 0 [m])"

definition replace_all :: "bool \<Rightarrow> rx \<Rightarrow> (rmatch \<Rightarrow> jstr) \<Rightarrow> jstr \<Rightarrow> jstr" where
  "replace_all ic re f s = splice f s 0 (exec_all ic re s)"

lemma exec_bounds:
  assumes "exec ic re s = Some m"
  shows "0 \<le> m_index m" "m_index m \<le> m_end m" "m_end m \<le> int (length s)" "m_input m = s"
proof -
  from assms obtain i y where y: "find_at ic re (start s) = Some (i, y)"
      "m = RM i (pos y) (caps y) s"
    by (auto simp: exec_def)
  note b = find_at_bounds [OF y(1)]
  have "pos y \<le> int (length s)"
    using along_length [OF b(3)] by (simp add: start_def)
  with b y(2) show "0 \<le> m_index m" "m_index m \<le> m_end m" "m_end m \<le> int (length s)" "m_input m = s"
    by (auto simp: start_def)
qed

text \<open>The matches of the global loop are in order and do not overlap.\<close>

fun ordered :: "int \<Rightarrow> (int \<times> int) list \<Rightarrow> int \<Rightarrow> bool" where
  "ordered lo [] hi = (lo \<le> hi)"
| "ordered lo ((a, b) # ms) hi = (lo \<le> a \<and> a \<le> b \<and> b \<le> hi \<and> ordered b ms hi)"

lemma ordered_mono: "ordered lo ms hi \<Longrightarrow> lo' \<le> lo \<Longrightarrow> ordered lo' ms hi"
  by (cases ms) auto

lemma skip1_along: "along y (skip1 y)"
  by (cases y rule: skip1.cases) (auto simp: along_def)

lemma find_all_ordered:
  "ordered (pos x) (map (\<lambda>(i, y). (i, pos y)) (find_all ic re x)) (pos x + int (length (rest x)))"
proof (induction ic re x rule: find_all.induct)
  case (1 ic re x)
  show ?case
  proof (cases "find_at ic re x")
    case None
    then show ?thesis by (simp add: find_all.simps)
  next
    case (Some iy)
    obtain i y where iy: "iy = (i, y)" by (cases iy)
    note b = find_at_bounds [OF Some [unfolded iy]]
    note len = along_length [OF b(3)] along_length [OF skip1_along [of y]]
    have e1: "pos y + int (length (rest y)) = pos x + int (length (rest x))"
      and e2: "pos (skip1 y) + int (length (rest (skip1 y))) = pos x + int (length (rest x))"
      using len by simp_all
    have step: "pos y \<le> pos (skip1 y)"
      by (rule along_pos_le [OF skip1_along])
    have "ordered (pos y)
        (map (\<lambda>(i, y). (i, pos y)) (if pos y \<noteq> i then find_all ic re y
          else if rest y = [] then [] else find_all ic re (skip1 y))) (pos x + int (length (rest x)))"
    proof (cases "pos y = i \<and> rest y \<noteq> []")
      case True
      then have "ordered (pos (skip1 y)) (map (\<lambda>(i, y). (i, pos y)) (find_all ic re (skip1 y)))
          (pos x + int (length (rest x)))"
        using "1.IH"(2) [OF Some iy [symmetric]] unfolding e2 by blast
      with True show ?thesis by (auto intro: ordered_mono [OF _ step])
    next
      case False
      show ?thesis
      proof (cases "pos y = i")
        case True
        with False len(1) show ?thesis by simp
      next
        case moved: False
        then have "ordered (pos y) (map (\<lambda>(i, y). (i, pos y)) (find_all ic re y))
            (pos x + int (length (rest x)))"
          using "1.IH"(1) [OF Some iy [symmetric]] unfolding e1 by blast
        with moved show ?thesis by simp
      qed
    qed
    with b len show ?thesis
      by (subst find_all.simps) (simp add: Some iy)
  qed
qed

lemma exec_all_ordered:
  "ordered 0 (map (\<lambda>m. (m_index m, m_end m)) (exec_all ic re s)) (int (length s))"
  using find_all_ordered [of "start s" ic re]
  by (simp add: exec_all_def start_def comp_def case_prod_unfold)

lemma exec_all_input: "m \<in> set (exec_all ic re s) \<Longrightarrow> m_input m = s"
  by (auto simp: exec_all_def)

text \<open>\<open>test\<close>, \<open>exec\<close> and the global loop agree on whether there is a match.\<close>

lemma test_exec: "test ic re s \<longleftrightarrow> exec ic re s \<noteq> None"
  by (auto simp: test_def exec_def split: option.splits)

lemma exec_all_Nil_iff: "exec_all ic re s = [] \<longleftrightarrow> exec ic re s = None"
  by (simp add: exec_all_def exec_def find_all.simps split: option.splits)

lemma replace_all_no_match: "\<not> test ic re s \<Longrightarrow> replace_all ic re f s = s"
  using exec_all_Nil_iff [of ic re s] by (simp add: replace_all_def test_exec)

text \<open>A string none of whose positions is in the denotation's domain has no match.\<close>

lemma seek_None_iff:
  "seek ic re p q r = None \<longleftrightarrow>
     run ic re Some (St p q r []) = None \<and>
     (case r of [] \<Rightarrow> True | c # r' \<Rightarrow> seek ic re (p + 1) (Some c) r' = None)"
  by (cases r) (auto split: option.splits)

text \<open>Replacing every match of one class by nothing keeps the other code units.\<close>

lemma find_at_class:
  "find_at ic (RCls C) (St p q (c # r) cs) =
     (if in_class ic C c then Some (p, St (p + 1) (Some c) r [])
      else find_at ic (RCls C) (St (p + 1) (Some c) r cs))"
  by (simp add: find_at_def)

lemma find_at_class_Nil: "find_at ic (RCls C) (St p q [] cs) = None"
  by (simp add: find_at_def)

lemma find_all_class:
  "find_all ic (RCls C) (St p q [] cs) = []"
  "find_all ic (RCls C) (St p q (c # r) cs) =
     (if in_class ic C c then (p, St (p + 1) (Some c) r []) # find_all ic (RCls C) (St (p + 1) (Some c) r [])
      else find_all ic (RCls C) (St (p + 1) (Some c) r cs))"
  by (subst find_all.simps, simp add: find_at_class_Nil)
     (subst (1 3) find_all.simps, simp add: find_at_class)

lemma substring_snoc:
  assumes "0 \<le> a" "a \<le> p" "s = u @ c # r" "int (length u) = p"
  shows "substring s a (p + 1) = substring s a p @ [c]"
proof -
  have "nat (p + 1 - a) = Suc (length u - nat a)" "nat (p - a) = length u - nat a" "nat a \<le> length u"
    using assms by auto
  with assms(3) show ?thesis by (simp add: substring_def)
qed

lemma substring_self [simp]: "substring s a a = []"
  by (simp add: substring_def)

lemma splice_class:
  assumes "s = u @ r" "int (length u) = p" "0 \<le> a" "a \<le> p"
  shows "splice (\<lambda>_. []) s a
      (map (\<lambda>(i, y). RM i (pos y) (caps y) s) (find_all ic (RCls C) (St p q r cs)))
    = substring s a p @ filter (\<lambda>c. \<not> in_class ic C c) r"
  using assms
proof (induction r arbitrary: u p q a cs)
  case Nil
  then show ?case
    by (simp add: find_all_class substring_def nat_diff_distrib)
next
  case (Cons c r)
  have "s = (u @ [c]) @ r" "int (length (u @ [c])) = p + 1"
    using Cons.prems by simp_all
  note IH = Cons.IH [OF this]
  show ?case
  proof (cases "in_class ic C c")
    case True
    with IH [of "p + 1"] Cons.prems show ?thesis
      by (simp add: find_all_class)
  next
    case False
    with IH [of a] Cons.prems substring_snoc [of a p s u c r] show ?thesis
      by (simp add: find_all_class)
  qed
qed

lemma replace_all_class:
  "replace_all ic (RCls C) (\<lambda>_. []) s = filter (\<lambda>c. \<not> in_class ic C c) s"
  using splice_class [of s "[]" s 0 0 ic C None "[]"]
  by (simp add: replace_all_def exec_all_def start_def)

section \<open>Captures\<close>

text \<open>A state of the matcher on the input \<open>s\<close>: what is left is a suffix at the right position.\<close>

definition st_of :: "jstr \<Rightarrow> st \<Rightarrow> bool" where
  "st_of s x \<longleftrightarrow> (\<exists>u. s = u @ rest x \<and> pos x = int (length u))"

lemma st_of_start: "st_of s (start s)"
  by (simp add: st_of_def start_def)

lemma along_substring:
  assumes "st_of s x" "along x y"
  shows "st_of s y" "rest x = substring s (pos x) (pos y) @ rest y"
proof -
  from assms obtain u v where "s = u @ rest x" "pos x = int (length u)" "rest x = v @ rest y"
      "pos y = pos x + int (length v)"
    by (auto simp: st_of_def along_def)
  then show "st_of s y" "rest x = substring s (pos x) (pos y) @ rest y"
    by (auto simp: st_of_def substring_def intro: exI [of _ "u @ v"])
qed

text \<open>What a repeated class consumes: code units of the class, no capture changed.\<close>

definition eats :: "bool \<Rightarrow> cclass \<Rightarrow> st \<Rightarrow> st \<Rightarrow> bool" where
  "eats ic C x y \<longleftrightarrow> caps y = caps x \<and>
     (\<exists>u. rest x = u @ rest y \<and> pos y = pos x + int (length u) \<and> (\<forall>c \<in> set u. in_class ic C c))"

lemma eats_refl [simp]: "eats ic C x x"
  by (simp add: eats_def)

lemma eats_trans: "eats ic C x y \<Longrightarrow> eats ic C y z \<Longrightarrow> eats ic C x z"
proof -
  assume a: "eats ic C x y" "eats ic C y z"
  then obtain u v where "rest x = u @ rest y" "pos y = pos x + int (length u)" "\<forall>c \<in> set u. in_class ic C c"
      "rest y = v @ rest z" "pos z = pos y + int (length v)" "\<forall>c \<in> set v. in_class ic C c"
    by (auto simp: eats_def)
  then have "rest x = (u @ v) @ rest z" "pos z = pos x + int (length (u @ v))"
      "\<forall>c \<in> set (u @ v). in_class ic C c"
    by auto
  with a show ?thesis by (auto simp: eats_def intro!: exI [of _ "u @ v"])
qed

lemma eats_class: "y \<in> den ic (RCls C) x \<Longrightarrow> eats ic C x y"
  by (auto simp: eats_def split: list.splits if_splits intro!: exI [of _ "[_]"])

lemma must_eats:
  assumes "\<And>x y. y \<in> R x \<Longrightarrow> eats ic C x y"
  shows "y \<in> must_den n R [] x \<Longrightarrow> eats ic C x y"
proof (induction n arbitrary: x)
  case (Suc n)
  then obtain z where "z \<in> R x" "y \<in> must_den n R [] z"
    by (auto simp: forget_def)
  with Suc.IH [of z] assms [of z x] show ?case by (blast intro: eats_trans)
qed simp

lemma iter1_eats:
  assumes "\<And>x y. y \<in> R x \<Longrightarrow> eats ic C x y"
  shows "(x, y) \<in> iter1 R [] ^^ j \<Longrightarrow> eats ic C x y"
proof (induction j arbitrary: y)
  case (Suc j)
  then obtain z where "(x, z) \<in> iter1 R [] ^^ j" "(z, y) \<in> iter1 R []"
    by auto
  with Suc.IH [of z] assms [of y z] show ?case
    by (auto simp: iter1_def forget_def intro: eats_trans)
qed simp

lemma den_rep_class:
  assumes "y \<in> den ic (RRep g mn mx (RCls C)) x"
  shows "eats ic C x y"
proof -
  from assms obtain z j where "z \<in> must_den mn (den ic (RCls C)) [] x"
      "(z, y) \<in> iter1 (den ic (RCls C)) [] ^^ j"
    by (auto simp: loop_den_def simp del: den.simps(2))
  then show ?thesis
    using must_eats [of "den ic (RCls C)", OF eats_class] iter1_eats [of "den ic (RCls C)", OF eats_class]
    by (blast intro: eats_trans)
qed

lemma eats_along: "eats ic C x y \<Longrightarrow> along x y"
  by (auto simp: eats_def along_def)

text \<open>The text a repeated class has consumed, as a substring of the input.\<close>

lemma eats_substring:
  assumes "st_of s x" "eats ic C x y"
  shows "\<forall>c \<in> set (substring s (pos x) (pos y)). in_class ic C c"
proof -
  from assms(2) obtain u where u: "rest x = u @ rest y" "\<forall>c \<in> set u. in_class ic C c"
    by (auto simp: eats_def)
  have "u = substring s (pos x) (pos y)"
    using along_substring(2) [OF assms(1) eats_along [OF assms(2)]] u(1) by simp
  with u(2) show ?thesis by simp
qed

text \<open>A match of \<open>exec\<close> as a pair of matcher states on its input.\<close>

lemma exec_den:
  assumes "exec ic re s = Some m"
  obtains x y where "st_of s x" "y \<in> den ic re x" "caps x = []"
    "m = RM (pos x) (pos y) (caps y) s"
proof -
  from assms obtain i y where y: "find_at ic re (start s) = Some (i, y)"
      "m = RM i (pos y) (caps y) s"
    by (auto simp: exec_def)
  from y(1) obtain u r' q' where "rest (start s) = u @ r'" "i = pos (start s) + int (length u)"
      "y \<in> den ic re (St i q' r' [])"
    by (rule find_at_Some)
  with y(2) show thesis
    by (intro that [of "St i q' r' []" y]) (auto simp: st_of_def start_def)
qed

section \<open>Literals\<close>

text \<open>A literal is found exactly where the string has it, up to case under the \<open>i\<close> flag.\<close>

definition lit_match :: "bool \<Rightarrow> cu \<Rightarrow> cu \<Rightarrow> bool" where
  "lit_match ic c d = in_class ic (CC False [CRange c c]) d"

lemma den_seqs_Cons: "den ic (seqs (r # rs)) x = (\<Union>y \<in> den ic r x. den ic (seqs rs) y)"
  by (cases rs) auto

lemma den_lit:
  "den ic (lit s) x \<noteq> {} \<longleftrightarrow> (\<exists>v w. rest x = v @ w \<and> list_all2 (lit_match ic) s v)"
proof (induction s arbitrary: x)
  case Nil
  then show ?case by (simp add: lit_def)
next
  case (Cons c s)
  have "den ic (lit (c # s)) x = (\<Union>y \<in> den ic (chr c) x. den ic (lit s) y)"
    unfolding lit_def list.map by (rule den_seqs_Cons)
  also have "\<dots> \<noteq> {} \<longleftrightarrow> (\<exists>d r. rest x = d # r \<and> lit_match ic c d \<and>
      den ic (lit s) (St (pos x + 1) (Some d) r (caps x)) \<noteq> {})"
    by (auto simp: chr_def lit_match_def split: list.splits simp del: in_class.simps)
  also have "\<dots> \<longleftrightarrow> (\<exists>v w. rest x = v @ w \<and> list_all2 (lit_match ic) (c # s) v)"
    unfolding Cons.IH by (auto simp: list_all2_Cons1) (metis append_Cons)+
  finally show ?case .
qed

lemma run_Some_iff: "run ic re Some x \<noteq> None \<longleftrightarrow> den ic re x \<noteq> {}"
  using run_sound [of ic re Some x] run_complete [of _ ic re x Some] by fastforce

lemma seek_lit:
  "seek ic (lit s) p q r \<noteq> None \<longleftrightarrow> (\<exists>v. sublist v r \<and> list_all2 (lit_match ic) s v)"
proof (induction r arbitrary: p q)
  case Nil
  have "run ic (lit s) Some (St p q [] []) \<noteq> None \<longleftrightarrow> list_all2 (lit_match ic) s []"
    unfolding run_Some_iff den_lit by auto
  then show ?case by auto
next
  case (Cons c r)
  have "run ic (lit s) Some (St p q (c # r) []) \<noteq> None \<longleftrightarrow>
      (\<exists>v. prefix v (c # r) \<and> list_all2 (lit_match ic) s v)"
    unfolding run_Some_iff den_lit by (auto simp: prefix_def)
  moreover have "seek ic (lit s) p q (c # r) \<noteq> None \<longleftrightarrow>
      run ic (lit s) Some (St p q (c # r) []) \<noteq> None \<or> seek ic (lit s) (p + 1) (Some c) r \<noteq> None"
    by (auto split: option.splits)
  ultimately show ?case
    using Cons.IH [of "p + 1" "Some c"] by (auto simp: sublist_Cons_right)
qed

lemma test_lit: "test ic (lit s) t \<longleftrightarrow> (\<exists>v. sublist v t \<and> list_all2 (lit_match ic) s v)"
  using seek_lit [of ic s 0 None t]
  by (auto simp: test_def find_at_def start_def split: option.splits)

end
