(* ===== verification/Utf8.thy ===== *)
theory Utf8
  imports JsRegex
begin

text \<open>
  \<open>TextDecoder('utf-8')\<close> and \<open>TextEncoder\<close>: the decoder of the WHATWG Encoding Standard (a
  byte that does not fit ends the sequence, which becomes U+FFFD, and is read again as the start
  of the next one; a leading byte-order mark is dropped), and the encoder, which replaces
  unpaired surrogates by U+FFFD. Code points in between are integers.
\<close>

section \<open>Decoding\<close>

datatype u8state = U8 (needed: nat) (partial_cp: int) (lower_b: int) (upper_b: int)

definition u8start :: u8state where "u8start = U8 0 0 128 191"

definition replacement :: int where "replacement = 65533"

text \<open>A byte read where a new sequence may start.\<close>

definition u8lead :: "int \<Rightarrow> int list \<times> u8state" where
  "u8lead b =
     (if b \<le> 127 then ([b], u8start)
      else if 194 \<le> b \<and> b \<le> 223 then ([], U8 1 (b - 192) 128 191)
      else if 224 \<le> b \<and> b \<le> 239 then
        ([], U8 2 (b - 224) (if b = 224 then 160 else 128) (if b = 237 then 159 else 191))
      else if 240 \<le> b \<and> b \<le> 244 then
        ([], U8 3 (b - 240) (if b = 240 then 144 else 128) (if b = 244 then 143 else 191))
      else ([replacement], u8start))"

fun u8byte :: "u8state \<Rightarrow> int \<Rightarrow> int list \<times> u8state" where
  "u8byte (U8 0 cp lo hi) b = u8lead b"
| "u8byte (U8 (Suc n) cp lo hi) b =
     (if lo \<le> b \<and> b \<le> hi then
        (let cp' = cp * 64 + (b - 128) in
         if n = 0 then ([cp'], u8start) else ([], U8 n cp' 128 191))
      else (let (out, st) = u8lead b in (replacement # out, st)))"

fun u8decode :: "u8state \<Rightarrow> byte list \<Rightarrow> int list" where
  "u8decode st [] = (if needed st = 0 then [] else [replacement])"
| "u8decode st (b # bs) = (let (out, st') = u8byte st (uint b) in out @ u8decode st' bs)"

definition drop_bom :: "int list \<Rightarrow> int list" where
  "drop_bom cps = (case cps of [] \<Rightarrow> [] | c # cs \<Rightarrow> if c = 65279 then cs else cps)"

text \<open>A string of code units from code points.\<close>

definition units_of_cp :: "int \<Rightarrow> jstr" where
  "units_of_cp c =
     (if c < 65536 then [c]
      else [55296 + (c - 65536) div 1024, 56320 + (c - 65536) mod 1024])"

definition utf8_decode :: "byte list \<Rightarrow> jstr" where
  "utf8_decode bs = concat (map units_of_cp (drop_bom (u8decode u8start bs)))"

section \<open>Encoding\<close>

definition is_high :: "cu \<Rightarrow> bool" where "is_high c = (55296 \<le> c \<and> c \<le> 56319)"
definition is_low :: "cu \<Rightarrow> bool" where "is_low c = (56320 \<le> c \<and> c \<le> 57343)"

fun code_points :: "jstr \<Rightarrow> int list" where
  "code_points [] = []"
| "code_points (c # cs) =
     (if is_high c then
        (case cs of
           d # ds \<Rightarrow> if is_low d then (65536 + (c - 55296) * 1024 + (d - 56320)) # code_points ds
                    else replacement # code_points cs
         | [] \<Rightarrow> [replacement])
      else if is_low c then replacement # code_points cs
      else c # code_points cs)"

definition mk_byte :: "int \<Rightarrow> byte" where "mk_byte k = word_of_int k"

definition bytes_of_cp :: "int \<Rightarrow> byte list" where
  "bytes_of_cp c =
     (if c < 128 then [mk_byte c]
      else if c < 2048 then [mk_byte (192 + c div 64), mk_byte (128 + c mod 64)]
      else if c < 65536 then
        [mk_byte (224 + c div 4096), mk_byte (128 + c div 64 mod 64),
         mk_byte (128 + c mod 64)]
      else
        [mk_byte (240 + c div 262144), mk_byte (128 + c div 4096 mod 64),
         mk_byte (128 + c div 64 mod 64), mk_byte (128 + c mod 64)])"

definition utf8_encode :: "jstr \<Rightarrow> byte list" where
  "utf8_encode s = concat (map bytes_of_cp (code_points s))"

section \<open>Lemmas\<close>

text \<open>A string of code units in range, as every JavaScript string is.\<close>

definition is_jstr :: "jstr \<Rightarrow> bool" where
  "is_jstr s \<longleftrightarrow> (\<forall>c \<in> set s. 0 \<le> c \<and> c < 65536)"

lemma code_points_range:
  "is_jstr s \<Longrightarrow> c \<in> set (code_points s) \<Longrightarrow> 0 \<le> c \<and> c < 1114112 \<and> (c < 128 \<longrightarrow> c \<in> set s)"
proof (induction s rule: code_points.induct)
  case (2 x xs)
  have bounds: "is_high x \<Longrightarrow> 55296 \<le> x \<and> x \<le> 56319" "is_low x \<Longrightarrow> 56320 \<le> x \<and> x \<le> 57343" for x
    by (auto simp: is_high_def is_low_def)
  show ?case
  proof (cases "is_high x")
    case high: True
    show ?thesis
    proof (cases xs)
      case Nil
      with 2 high show ?thesis by (auto simp: replacement_def)
    next
      case (Cons d ds)
      show ?thesis
      proof (cases "is_low d")
        case True
        with 2 high Cons bounds(1) [OF high] bounds(2) [OF True] show ?thesis
          by (auto simp: is_jstr_def)
      next
        case False
        with 2 high Cons show ?thesis by (auto simp: is_jstr_def replacement_def)
      qed
    qed
  next
    case False
    with 2 show ?thesis by (auto simp: is_jstr_def replacement_def split: if_splits)
  qed
qed simp

lemma uint_byte: "0 \<le> k \<Longrightarrow> k < 256 \<Longrightarrow> uint (mk_byte k) = k"
  by (simp add: mk_byte_def uint_word_of_int take_bit_int_eq_self)

text \<open>Bytes of a code point outside ASCII have their top bit set.\<close>

lemma bytes_of_cp_high:
  assumes "128 \<le> c" "c < 1114112" "b \<in> set (bytes_of_cp c)"
  shows "128 \<le> uint b"
proof -
  have "c div 64 < 32" if "c < 2048" using that by (simp add: div_less_iff_less_mult)
  moreover have "c div 4096 < 16" if "c < 65536" using that by (simp add: div_less_iff_less_mult)
  moreover have "c div 262144 < 5" using assms by (simp add: div_less_iff_less_mult)
  moreover have "0 \<le> c div 64" "0 \<le> c div 4096" "0 \<le> c div 262144"
    using assms by (simp_all add: pos_imp_zdiv_nonneg_iff)
  moreover have "0 \<le> k mod 64 \<and> k mod 64 < 64" for k :: int by simp
  ultimately show ?thesis
    using assms by (auto simp: bytes_of_cp_def uint_byte split: if_splits)
qed

text \<open>An ASCII byte is in the encoding only if its code unit is in the string.\<close>

theorem utf8_encode_ascii:
  assumes "is_jstr s" "b \<in> set (utf8_encode s)" "uint b < 128"
  shows "uint b \<in> set s"
proof -
  from assms(2) obtain c where c: "c \<in> set (code_points s)" "b \<in> set (bytes_of_cp c)"
    by (auto simp: utf8_encode_def)
  note range = code_points_range [OF assms(1) c(1)]
  have small: "c < 128"
    using bytes_of_cp_high [of c b] range c(2) assms(3) by force
  then have "uint b = c"
    using c(2) range by (auto simp: bytes_of_cp_def uint_byte)
  with range small show ?thesis by simp
qed

text \<open>What the decoder returns is a string of code units in range.\<close>

definition u8inv :: "u8state \<Rightarrow> bool" where
  "u8inv st \<longleftrightarrow>
     (case needed st of 0 \<Rightarrow> True
      | Suc n \<Rightarrow> 0 \<le> partial_cp st \<and> 128 \<le> lower_b st
          \<and> (partial_cp st * 64 + (upper_b st - 127)) * 64 ^ n \<le> 1114112)"

lemma u8lead_inv:
  assumes "0 \<le> b" "b < 256" "u8lead b = (out, st)"
  shows "u8inv st \<and> (\<forall>c \<in> set out. 0 \<le> c \<and> c < 1114112)"
  using assms
  by (auto simp: u8lead_def u8inv_def u8start_def replacement_def numeral_2_eq_2 numeral_3_eq_3
      split: if_splits)

lemma u8byte_inv:
  assumes "0 \<le> b" "b < 256" "u8inv st" "u8byte st b = (out, st')"
  shows "u8inv st' \<and> (\<forall>c \<in> set out. 0 \<le> c \<and> c < 1114112)"
proof (cases "(st, b)" rule: u8byte.cases)
  case (1 cp lo hi b')
  with assms show ?thesis using u8lead_inv by auto
next
  case (2 n cp lo hi b')
  show ?thesis
  proof (cases "lo \<le> b \<and> b \<le> hi")
    case True
    let ?cp = "cp * 64 + (b - 128)"
    have cp: "0 \<le> cp" "128 \<le> lo" "(cp * 64 + (hi - 127)) * 64 ^ n \<le> 1114112"
      using assms(3) 2 by (auto simp: u8inv_def)
    have "(?cp + 1) * 64 ^ n \<le> (cp * 64 + (hi - 127)) * 64 ^ n"
      using True by (intro mult_right_mono) auto
    then have le: "(?cp + 1) * 64 ^ n \<le> 1114112"
      using cp(3) by (rule order_trans)
    show ?thesis
    proof (cases n)
      case 0
      with True 2 assms cp le show ?thesis
        by (auto simp: Let_def u8inv_def u8start_def)
    next
      case (Suc m)
      have "(?cp * 64 + (191 - 127)) * 64 ^ m = (?cp + 1) * 64 ^ n"
        by (simp add: Suc algebra_simps)
      with le have "(?cp * 64 + (191 - 127)) * 64 ^ m \<le> 1114112" by simp
      moreover have "0 \<le> ?cp" using True cp by simp
      ultimately have "u8inv (U8 (Suc m) ?cp 128 191)"
        unfolding u8inv_def by (simp only: u8state.sel nat.case) simp
      moreover have "st' = U8 (Suc m) ?cp 128 191 \<and> out = []"
        using 2 assms(4) True Suc by (auto simp: Let_def)
      ultimately show ?thesis by simp
    qed
  next
    case False
    with 2 assms u8lead_inv show ?thesis
      by (auto simp: replacement_def split: prod.splits)
  qed
qed

lemma u8decode_range:
  "u8inv st \<Longrightarrow> c \<in> set (u8decode st bs) \<Longrightarrow> 0 \<le> c \<and> c < 1114112"
proof (induction st bs rule: u8decode.induct)
  case (1 st)
  then show ?case by (auto simp: replacement_def split: if_splits)
next
  case (2 st b bs)
  obtain out st' where u: "u8byte st (uint b) = (out, st')" by fastforce
  have "uint b < 256" using uint_bounded [of b] by simp
  with u8byte_inv [OF _ _ "2.prems"(1) u] have "u8inv st'" "\<forall>c \<in> set out. 0 \<le> c \<and> c < 1114112"
    by auto
  with 2 u show ?case by auto
qed

lemma is_jstr_append [simp]: "is_jstr (s @ t) \<longleftrightarrow> is_jstr s \<and> is_jstr t"
  by (auto simp: is_jstr_def)

lemma units_of_cp_jstr: "0 \<le> c \<Longrightarrow> c < 1114112 \<Longrightarrow> is_jstr (units_of_cp c)"
  by (auto simp: is_jstr_def units_of_cp_def div_less_iff_less_mult pos_imp_zdiv_nonneg_iff)

theorem is_jstr_utf8_decode: "is_jstr (utf8_decode bs)"
proof -
  have "u8inv u8start" by (simp add: u8inv_def u8start_def)
  then have "0 \<le> c \<and> c < 1114112" if "c \<in> set (drop_bom (u8decode u8start bs))" for c
    using u8decode_range [of u8start c bs] that
    by (cases "u8decode u8start bs") (auto simp: drop_bom_def split: if_splits)
  then show ?thesis
    using units_of_cp_jstr by (auto simp: utf8_decode_def is_jstr_def)
qed

end
