(* ===== verification/HubMarkerFilter.thy ===== *)
theory HubMarkerFilter
  imports StreamFilter Utf8
begin

text \<open>
  \<open>src/web/src/app/hub-marker-filter.ts\<close>: the filter that takes the \<open>[MANY-AI-CLI]\<close> and
  \<open>[MANY-AI-CLI-DONE]\<close> tags out of the terminal's byte stream. The body of a block is buffered
  and, at the closing tag, written without any escape sequence, followed by erase-below; a block
  that is not closed within \<open>MAX_MARKER_BUFFER_BYTES\<close> is dropped.
\<close>

section \<open>Patterns\<close>

definition hubMarkerOpenBytes :: "byte list" where
  "hubMarkerOpenBytes = asciiBytes ''[MANY-AI-CLI]''"

definition hubMarkerEndBytes :: "byte list" where
  "hubMarkerEndBytes = asciiBytes ''[/MANY-AI-CLI]''"

definition hubMarkerBytePatterns :: "byte list list" where
  "hubMarkerBytePatterns = [hubMarkerOpenBytes, hubMarkerEndBytes]"

definition hubDoneMarkerOpen :: "byte list" where
  "hubDoneMarkerOpen = asciiBytes ''[MANY-AI-CLI-DONE]''"

definition hubDoneMarkerClose :: "byte list" where
  "hubDoneMarkerClose = asciiBytes ''[/MANY-AI-CLI-DONE]''"

definition eraseDisplayBelowBytes :: "byte list" where
  "eraseDisplayBelowBytes = 27 # asciiBytes ''[J''"

definition MAX_MARKER_BUFFER_BYTES :: int where
  "MAX_MARKER_BUFFER_BYTES = 32 * 1024"

lemmas hub_patterns = hubMarkerOpenBytes_def hubMarkerEndBytes_def hubDoneMarkerOpen_def
  hubDoneMarkerClose_def eraseDisplayBelowBytes_def asciiBytes_def

section \<open>Stripping escape sequences\<close>

text \<open>\<open>/\x1b\][^\x07\x1b]*(?:\x07|\x1b\\)/g\<close> and the three expressions after it.\<close>

definition ANSI_OSC_RE :: rx where
  "ANSI_OSC_RE = seqs [chr 27, chr 93, many (RCls (CC True [CRange 7 7, CRange 27 27])),
     RAlt (chr 7) (lit [27, 92])]"

definition ANSI_CSI_RE :: rx where
  "ANSI_CSI_RE = seqs [chr 27, chr 91, many (RCls (CC False [CRange 48 63])),
     many (RCls (CC False [CRange 32 47])), RCls (CC False [CRange 64 126])]"

definition ANSI_ESC_SINGLE_RE :: rx where
  "ANSI_ESC_SINGLE_RE = seqs [chr 27, RCls (CC False [CRange 64 90, CRange 92 95])]"

definition ANSI_ESC_BARE_RE :: rx where
  "ANSI_ESC_BARE_RE = chr 27"

definition stripAnsiFromString :: "jstr \<Rightarrow> jstr" where
  "stripAnsiFromString s =
     replace_all False ANSI_ESC_BARE_RE (\<lambda>_. [])
       (replace_all False ANSI_ESC_SINGLE_RE (\<lambda>_. [])
         (replace_all False ANSI_CSI_RE (\<lambda>_. [])
           (replace_all False ANSI_OSC_RE (\<lambda>_. []) s)))"

definition flushBufToOut :: "byte list \<Rightarrow> byte list" where
  "flushBufToOut buf =
     (if buf = [] then [] else utf8_encode (stripAnsiFromString (utf8_decode buf)))"

section \<open>The filter\<close>

record hubState =
  inDone :: bool
  inMarker :: bool
  markerBuf :: "byte list"
  doneBuf :: "byte list"
  lineStart :: bool
  escPhase :: int

text \<open>A fresh state, \<open>lineStart ?? true\<close> and \<open>escPhase ?? 0\<close> included.\<close>

definition hubInit :: hubState where
  "hubInit = \<lparr>inDone = False, inMarker = False, markerBuf = [], doneBuf = [],
     lineStart = True, escPhase = 0\<rparr>"

definition isPossibleMarkerPrefix :: "byte list \<Rightarrow> bool" where
  "isPossibleMarkerPrefix bs =
     (if isPossiblePrefix bs hubMarkerBytePatterns then True
      else isPossiblePrefix bs [hubDoneMarkerOpen])"

text \<open>The line-start gate: one byte of what is shown, through the escape-sequence phases.\<close>

definition trackByte :: "byte \<Rightarrow> hubState \<Rightarrow> hubState" where
  "trackByte b s =
     (if escPhase s = 1 then
        (if b = 0x5b then s\<lparr>escPhase := 2\<rparr>
         else if b = 0x5d then s\<lparr>escPhase := 3\<rparr>
         else s\<lparr>escPhase := 0\<rparr>)
      else if escPhase s = 2 then
        (if 0x40 \<le> b \<and> b \<le> 0x7e then
           (if b = 0x48 \<or> b = 0x66 then s\<lparr>escPhase := 0, lineStart := True\<rparr>
            else s\<lparr>escPhase := 0\<rparr>)
         else s)
      else if escPhase s = 3 then
        (if b = 0x07 then s\<lparr>escPhase := 0\<rparr>
         else if b = 0x1b then s\<lparr>escPhase := 1\<rparr>
         else s)
      else if b = 0x1b then s\<lparr>escPhase := 1\<rparr>
      else if b = 0x0a \<or> b = 0x0d then s\<lparr>lineStart := True\<rparr>
      else if b = 0x20 \<or> b = 0x09 \<or> b < 0x20 then s
      else s\<lparr>lineStart := False\<rparr>)"

definition passByte :: "hubState \<Rightarrow> byte \<Rightarrow> (byte list \<times> nat \<times> hubState) option" where
  "passByte s b = Some ([b], 1, trackByte b s)"

text \<open>One iteration of the loop of \<open>filterHubMarkersPure\<close>.\<close>

definition hubDoneStep :: "hubState \<Rightarrow> byte list \<Rightarrow> (byte list \<times> nat \<times> hubState) option" where
  "hubDoneStep s bs =
     (if bytesStartWith bs hubDoneMarkerClose then
        Some (flushBufToOut (doneBuf s) @ eraseDisplayBelowBytes, length hubDoneMarkerClose,
              s\<lparr>inDone := False, lineStart := False, doneBuf := []\<rparr>)
      else if isPossiblePrefix bs [hubDoneMarkerClose] then None
      else (let buf = doneBuf s @ [hd bs] in
        if int (length buf) > MAX_MARKER_BUFFER_BYTES then
          Some ([], 1, s\<lparr>inDone := False, lineStart := False, doneBuf := []\<rparr>)
        else Some ([], 1, s\<lparr>doneBuf := buf\<rparr>)))"

definition hubBodyStep :: "hubState \<Rightarrow> byte list \<Rightarrow> (byte list \<times> nat \<times> hubState) option" where
  "hubBodyStep s bs =
     (if (inMarker s \<or> lineStart s) \<and> isPossibleMarkerPrefix bs then None
      else if inMarker s then
        (let buf = markerBuf s @ [hd bs] in
         if int (length buf) > MAX_MARKER_BUFFER_BYTES then
           Some ([], 1, s\<lparr>inMarker := False, lineStart := False, markerBuf := []\<rparr>)
         else Some ([], 1, s\<lparr>markerBuf := buf\<rparr>))
      else passByte s (hd bs))"

definition hubStep :: "hubState \<Rightarrow> byte list \<Rightarrow> (byte list \<times> nat \<times> hubState) option" where
  "hubStep s bs =
     (if inDone s then hubDoneStep s bs
      else if bytesStartWith bs hubDoneMarkerOpen then
        (if lineStart s then
           Some ([], length hubDoneMarkerOpen, s\<lparr>inDone := True, lineStart := False\<rparr>)
         else passByte s (hd bs))
      else (case List.find (bytesStartWith bs) hubMarkerBytePatterns of
          None \<Rightarrow> hubBodyStep s bs
        | Some marker \<Rightarrow>
            if inMarker s \<or> lineStart s then
              (if marker = hubMarkerEndBytes then
                 Some (flushBufToOut (markerBuf s) @ eraseDisplayBelowBytes, length marker,
                       s\<lparr>inMarker := False, lineStart := False, markerBuf := []\<rparr>)
               else Some ([], length marker, s\<lparr>inMarker := True, lineStart := False\<rparr>))
            else if \<not> inMarker s then passByte s (hd bs)
            else hubBodyStep s bs))"

definition filterHubMarkersPure ::
  "byte list \<times> hubState \<Rightarrow> byte list \<Rightarrow> byte list \<times> byte list \<times> hubState" where
  "filterHubMarkersPure st bytes = feed_scan hubStep st bytes"

lemmas hubStep_defs = hubStep_def hubDoneStep_def hubBodyStep_def passByte_def

section \<open>The filter does not depend on where the stream is cut\<close>

lemma pattern_lengths [simp]:
  "length hubMarkerOpenBytes = 13" "length hubMarkerEndBytes = 14"
  "length hubDoneMarkerOpen = 18" "length hubDoneMarkerClose = 19"
  by (simp_all add: hub_patterns)

lemma bytesStartWith_length: "bytesStartWith bs p \<Longrightarrow> length p \<le> length bs"
  by (simp add: bytesStartWith_def starts_with_iff prefix_length_le)

lemma find_marker:
  "List.find (bytesStartWith bs) hubMarkerBytePatterns =
     (if bytesStartWith bs hubMarkerOpenBytes then Some hubMarkerOpenBytes
      else if bytesStartWith bs hubMarkerEndBytes then Some hubMarkerEndBytes else None)"
  by (simp add: hubMarkerBytePatterns_def)

lemma marker_clash:
  "bytesStartWith bs hubMarkerOpenBytes \<Longrightarrow> \<not> bytesStartWith bs hubMarkerEndBytes"
  "bytesStartWith bs hubMarkerOpenBytes \<Longrightarrow> \<not> bytesStartWith bs hubDoneMarkerOpen"
  "bytesStartWith bs hubMarkerEndBytes \<Longrightarrow> \<not> bytesStartWith bs hubDoneMarkerOpen"
  by (auto simp: bytesStartWith_def starts_with_iff hub_patterns elim!: prefixE)

lemma open_not_end [simp]: "hubMarkerOpenBytes \<noteq> hubMarkerEndBytes"
  by (simp add: hub_patterns)

lemma hubStep_progress:
  assumes "bs \<noteq> []" "hubStep s bs = Some (out, n, s')"
  shows "0 < n \<and> n \<le> length bs"
  using assms
  by (cases bs)
     (auto simp: hubStep_defs find_marker Let_def dest: bytesStartWith_length split: if_splits)

text \<open>Once a step is not \<open>None\<close>, the patterns it did not see cannot appear in more input.\<close>

lemma not_marker_prefix:
  assumes "\<not> isPossibleMarkerPrefix bs"
  shows "\<not> isPossibleMarkerPrefix (bs @ cs)"
    "\<not> bytesStartWith bs hubDoneMarkerOpen \<Longrightarrow> \<not> bytesStartWith (bs @ cs) hubDoneMarkerOpen"
    "\<not> bytesStartWith bs hubMarkerOpenBytes \<Longrightarrow> \<not> bytesStartWith (bs @ cs) hubMarkerOpenBytes"
    "\<not> bytesStartWith bs hubMarkerEndBytes \<Longrightarrow> \<not> bytesStartWith (bs @ cs) hubMarkerEndBytes"
proof -
  have n: "\<not> isPossiblePrefix bs hubMarkerBytePatterns" "\<not> isPossiblePrefix bs [hubDoneMarkerOpen]"
    using assms by (auto simp: isPossibleMarkerPrefix_def split: if_splits)
  show "\<not> isPossibleMarkerPrefix (bs @ cs)"
    using n no_prefix_later
    by (simp add: isPossibleMarkerPrefix_def del: isPossiblePrefix.simps)
  show "\<not> bytesStartWith bs hubDoneMarkerOpen \<Longrightarrow> \<not> bytesStartWith (bs @ cs) hubDoneMarkerOpen"
    by (rule no_pattern_later [OF _ n(2)]) simp_all
  show "\<not> bytesStartWith bs hubMarkerOpenBytes \<Longrightarrow> \<not> bytesStartWith (bs @ cs) hubMarkerOpenBytes"
    and "\<not> bytesStartWith bs hubMarkerEndBytes \<Longrightarrow> \<not> bytesStartWith (bs @ cs) hubMarkerEndBytes"
    by (rule no_pattern_later [OF _ n(1)], simp, simp add: hubMarkerBytePatterns_def)+
qed

lemma hubDoneStep_stable:
  assumes "bs \<noteq> []" "hubDoneStep s bs = Some r"
  shows "hubDoneStep s (bs @ cs) = Some r"
proof (cases "bytesStartWith bs hubDoneMarkerClose")
  case True
  with assms bytesStartWith_append [OF True] show ?thesis
    by (simp add: hubDoneStep_def)
next
  case False
  with assms have n: "\<not> isPossiblePrefix bs [hubDoneMarkerClose]"
    by (auto simp: hubDoneStep_def)
  have "\<not> bytesStartWith (bs @ cs) hubDoneMarkerClose"
    by (rule no_pattern_later [OF False n]) simp
  with assms False n no_prefix_later [OF n] show ?thesis
    by (auto simp: hubDoneStep_def)
qed

text \<open>Outside a block and away from a line start every byte passes, whatever follows.\<close>

lemma hubStep_mid_line:
  "\<not> inDone s \<Longrightarrow> \<not> inMarker s \<Longrightarrow> \<not> lineStart s \<Longrightarrow> hubStep s bs = passByte s (hd bs)"
  by (simp add: hubStep_def hubBodyStep_def find_marker)

lemma hubStep_stable:
  assumes "bs \<noteq> []" "hubStep s bs = Some r"
  shows "hubStep s (bs @ cs) = Some r"
proof (cases "inDone s")
  case True
  with assms hubDoneStep_stable show ?thesis by (simp add: hubStep_def)
next
  case nd: False
  show ?thesis
  proof (cases "inMarker s \<or> lineStart s")
    case False
    with nd assms show ?thesis by (simp add: hubStep_mid_line passByte_def)
  next
    case ctx: True
    note app = bytesStartWith_append [of bs _ cs]
    show ?thesis
    proof (cases "bytesStartWith bs hubDoneMarkerOpen \<or> bytesStartWith bs hubMarkerOpenBytes
        \<or> bytesStartWith bs hubMarkerEndBytes")
      case True
      with assms nd ctx app marker_clash [of bs] marker_clash [of "bs @ cs"] show ?thesis
        by (auto simp: hubStep_def find_marker passByte_def split: if_splits)
    next
      case False
      with assms nd ctx have n: "\<not> isPossibleMarkerPrefix bs"
        by (auto simp: hubStep_def hubBodyStep_def find_marker)
      with False nd ctx assms not_marker_prefix [OF n, of cs] show ?thesis
        by (auto simp: hubStep_def hubBodyStep_def find_marker passByte_def)
    qed
  qed
qed

interpretation hub_scan: stable_scan hubStep
  by unfold_locales (fact hubStep_progress, fact hubStep_stable)

lemma hub_settled_init: "hub_scan.settled ([], hubInit)"
  by (simp add: hub_scan.settled_def)

section \<open>State invariants\<close>

text \<open>
  A block is one of the two kinds, its tags close the line-start gate, and neither buffer
  outgrows its bound.
\<close>

definition hubInv :: "hubState \<Rightarrow> bool" where
  "hubInv s \<longleftrightarrow>
     (inMarker s \<longrightarrow> \<not> inDone s \<and> \<not> lineStart s) \<and> (inDone s \<longrightarrow> \<not> lineStart s) \<and>
     (\<not> inMarker s \<longrightarrow> markerBuf s = []) \<and> (\<not> inDone s \<longrightarrow> doneBuf s = []) \<and>
     int (length (markerBuf s)) \<le> MAX_MARKER_BUFFER_BYTES \<and>
     int (length (doneBuf s)) \<le> MAX_MARKER_BUFFER_BYTES"

lemma max_marker_pos [simp]: "0 \<le> MAX_MARKER_BUFFER_BYTES"
  by (simp add: MAX_MARKER_BUFFER_BYTES_def)

lemma trackByte_simps [simp]:
  "inDone (trackByte b s) = inDone s" "inMarker (trackByte b s) = inMarker s"
  "markerBuf (trackByte b s) = markerBuf s" "doneBuf (trackByte b s) = doneBuf s"
  by (simp_all add: trackByte_def)

text \<open>The one byte a block body lets through, the bracket of a tag in it, is no line start.\<close>

lemma trackByte_bracket: "escPhase s = 0 \<Longrightarrow> \<not> lineStart s \<Longrightarrow> \<not> lineStart (trackByte 0x5b s)"
  by (simp add: trackByte_def)

lemma trackByte_bracket_gate: "\<not> lineStart s \<Longrightarrow> \<not> lineStart (trackByte 0x5b s)"
  by (simp add: trackByte_def)

lemma hubDoneMarkerOpen_hd: "bytesStartWith bs hubDoneMarkerOpen \<Longrightarrow> hd bs = 0x5b"
  by (cases bs) (auto simp: bytesStartWith_def hub_patterns split: if_splits)

lemma hubStep_inv:
  assumes "hubInv s" "bs \<noteq> []" "hubStep s bs = Some (out, n, s')"
  shows "hubInv s'"
proof -
  consider "inDone s" | "\<not> inDone s" "bytesStartWith bs hubDoneMarkerOpen"
    | "\<not> inDone s" "\<not> bytesStartWith bs hubDoneMarkerOpen" by blast
  then show ?thesis
  proof cases
    case 1
    with assms show ?thesis
      by (auto simp: hubStep_def hubDoneStep_def hubInv_def Let_def split: if_splits)
  next
    case 2
    with assms hubDoneMarkerOpen_hd [OF 2(2)] trackByte_bracket_gate [of s] show ?thesis
      by (auto simp: hubStep_def passByte_def hubInv_def split: if_splits)
  next
    case 3
    with assms show ?thesis
      by (auto simp: hubStep_def hubBodyStep_def passByte_def hubInv_def Let_def find_marker
          split: if_splits)
  qed
qed

text \<open>The bytes kept for the next chunk are the start of a tag, so there are at most 18.\<close>

lemma isPossiblePrefix_length:
  "isPossiblePrefix bs ps \<Longrightarrow> \<exists>p \<in> set ps. length bs < length p"
  using prefix_length_less by (auto simp: isPossiblePrefix_iff)

lemma hubStep_None_short: "bs \<noteq> [] \<Longrightarrow> hubStep s bs = None \<Longrightarrow> length bs \<le> 18"
  using isPossiblePrefix_length [of bs hubMarkerBytePatterns]
    isPossiblePrefix_length [of bs "[hubDoneMarkerOpen]"]
    isPossiblePrefix_length [of bs "[hubDoneMarkerClose]"]
  by (auto simp: hubStep_defs find_marker Let_def isPossibleMarkerPrefix_def hubMarkerBytePatterns_def
      simp del: isPossiblePrefix.simps split: if_splits)

lemma hub_scan_inv: "hubInv s \<Longrightarrow> scan hubStep s bs = (out, s', c) \<Longrightarrow> hubInv s' \<and> length c \<le> 18"
proof (induction bs arbitrary: s out rule: length_induct)
  case (1 bs)
  show ?case
  proof (cases "bs = [] \<or> hubStep s bs = None")
    case True
    with 1 hubStep_None_short [of bs s] show ?thesis by (cases bs) auto
  next
    case False
    then obtain o1 n s1 where st: "bs \<noteq> []" "hubStep s bs = Some (o1, n, s1)"
      by (cases "hubStep s bs") auto
    then have "length (drop n bs) < length bs"
      using hubStep_progress [OF st] by (cases bs) auto
    moreover obtain o2 where "scan hubStep s1 (drop n bs) = (o2, s', c)"
      using 1(3) hub_scan.scan_Some [OF st, of "[]"] by (auto split: prod.splits)
    ultimately show ?thesis
      using 1(1) hubStep_inv [OF 1(2) st] by blast
  qed
qed

lemma hubInv_init: "hubInv hubInit"
  by (simp add: hubInv_def hubInit_def)

lemma hub_chunks_inv:
  "hubInv (snd st) \<Longrightarrow> length (fst st) \<le> 18 \<Longrightarrow>
     (let (out, c, s) = feed_chunks filterHubMarkersPure st cs in hubInv s \<and> length c \<le> 18)"
proof (induction cs arbitrary: st)
  case (Cons b bs)
  obtain out c s where f: "filterHubMarkersPure st b = (out, c, s)" by (cases "filterHubMarkersPure st b")
  then have "hubInv s \<and> length c \<le> 18"
    using hub_scan_inv [OF Cons.prems(1)]
    by (auto simp: filterHubMarkersPure_def feed_scan_def split: prod.splits)
  with Cons.IH [of "(c, s)"] f show ?case by (auto split: prod.splits)
qed (auto split: prod.splits)

section \<open>What a block writes\<close>

lemma strip_no_escape: "27 \<notin> set (stripAnsiFromString s)"
  by (simp add: stripAnsiFromString_def ANSI_ESC_BARE_RE_def chr_def replace_all_class)

text \<open>Deleting matches keeps the string's code units among the old ones.\<close>

lemma set_substring: "set (substring s a b) \<subseteq> set s"
  by (auto simp: substring_def dest: in_set_takeD in_set_dropD)

lemma splice_delete_subset: "set (splice (\<lambda>_. []) s a ms) \<subseteq> set s"
  by (induction "\<lambda>_ :: rmatch. [] :: jstr" s a ms rule: splice.induct)
     (use set_substring in \<open>auto dest: in_set_dropD\<close>)

lemma replace_all_delete_subset: "set (replace_all ic re (\<lambda>_. []) s) \<subseteq> set s"
  by (simp add: replace_all_def splice_delete_subset)

lemma stripAnsiFromString_subset: "set (stripAnsiFromString s) \<subseteq> set s"
  unfolding stripAnsiFromString_def
  by (intro order_trans [OF replace_all_delete_subset] order_refl)

lemma flush_no_escape: "0x1b \<notin> set (flushBufToOut buf)"
proof
  assume "0x1b \<in> set (flushBufToOut buf)"
  then have b: "0x1b \<in> set (utf8_encode (stripAnsiFromString (utf8_decode buf)))"
    by (auto simp: flushBufToOut_def split: if_splits)
  have "is_jstr (stripAnsiFromString (utf8_decode buf))"
    using is_jstr_utf8_decode [of buf] stripAnsiFromString_subset [of "utf8_decode buf"]
    by (auto simp: is_jstr_def)
  from utf8_encode_ascii [OF this b] strip_no_escape show False by simp
qed

section \<open>Text outside and inside a block\<close>

definition tagFree :: "byte list \<Rightarrow> bool" where
  "tagFree bs \<longleftrightarrow> \<not> str_includes bs hubMarkerOpenBytes \<and> \<not> str_includes bs hubMarkerEndBytes
     \<and> \<not> str_includes bs hubDoneMarkerOpen"

lemma tagFree_start:
  assumes "tagFree bs"
  shows "\<not> bytesStartWith bs hubMarkerOpenBytes" "\<not> bytesStartWith bs hubMarkerEndBytes"
    "\<not> bytesStartWith bs hubDoneMarkerOpen"
  using assms by (auto simp: tagFree_def includes_iff bytesStartWith_def starts_with_iff)

lemma tagFree_Cons: "tagFree (b # bs) \<Longrightarrow> tagFree bs"
  by (auto simp: tagFree_def includes_iff intro: sublist_Cons_right [THEN iffD2])

lemma hub_scan_plain:
  "tagFree bs \<Longrightarrow> \<not> inDone s \<Longrightarrow> \<not> inMarker s \<Longrightarrow> scan hubStep s bs = (out, s', c) \<Longrightarrow>
     out @ c = bs \<and> \<not> inDone s' \<and> \<not> inMarker s'"
proof (induction bs arbitrary: s out)
  case (Cons b bs)
  show ?case
  proof (cases "hubStep s (b # bs)")
    case None
    with Cons.prems show ?thesis by auto
  next
    case (Some r)
    then have "r = ([b], 1, trackByte b s)"
      using Cons.prems(2,3) tagFree_start [OF Cons.prems(1)]
      by (auto simp: hubStep_def hubBodyStep_def find_marker passByte_def split: if_splits)
    moreover obtain o2 where "scan hubStep (trackByte b s) bs = (o2, s', c)" "out = b # o2"
      using Cons.prems(4) Some calculation by (auto split: prod.splits)
    ultimately show ?thesis
      using Cons.IH [of "trackByte b s" o2] Cons.prems(2,3) tagFree_Cons [OF Cons.prems(1)]
      by simp
  qed
qed auto

text \<open>
  A tag holds one bracket, its first byte, so a tag cannot begin in a body and end in the tag
  that closes it.
\<close>

lemma bracket_once:
  assumes "t \<noteq> []" "0x5b \<notin> set (tl p)" "\<not> str_includes t p" "e \<noteq> []" "hd e = 0x5b"
  shows "\<not> bytesStartWith (t @ e) p" "\<not> strict_prefix (t @ e) p"
proof -
  have no: "\<not> prefix (t @ [0x5b]) p"
  proof
    assume "prefix (t @ [0x5b]) p"
    then obtain u where "p = t @ 0x5b # u" by (auto elim: prefixE)
    with assms(1,2) show False by (cases t) auto
  qed
  obtain e' where e: "e = 0x5b # e'" using assms(4,5) by (cases e) auto
  show "\<not> bytesStartWith (t @ e) p"
  proof
    assume "bytesStartWith (t @ e) p"
    then have p: "prefix p (t @ e)" by (simp add: bytesStartWith_def starts_with_iff)
    then have "prefix p t \<or> prefix (t @ [0x5b]) p"
      by (auto simp: prefix_append e prefix_Cons)
    with no assms(3) show False
      by (auto simp: includes_iff)
  qed
  show "\<not> strict_prefix (t @ e) p"
    using no by (auto simp: e strict_prefix_def prefix_def)
qed

lemma tl_patterns:
  "0x5b \<notin> set (tl hubMarkerOpenBytes)" "0x5b \<notin> set (tl hubMarkerEndBytes)"
  "0x5b \<notin> set (tl hubDoneMarkerOpen)" "0x5b \<notin> set (tl hubDoneMarkerClose)"
  "hubMarkerEndBytes \<noteq> []" "hubDoneMarkerClose \<noteq> []"
  "hd hubMarkerEndBytes = 0x5b" "hd hubDoneMarkerClose = 0x5b"
  by (simp_all add: hub_patterns)

lemma tagFree_body:
  assumes "tagFree t" "t \<noteq> []"
  shows "\<not> isPossibleMarkerPrefix (t @ hubMarkerEndBytes)"
    "\<not> bytesStartWith (t @ hubMarkerEndBytes) hubMarkerOpenBytes"
    "\<not> bytesStartWith (t @ hubMarkerEndBytes) hubMarkerEndBytes"
    "\<not> bytesStartWith (t @ hubMarkerEndBytes) hubDoneMarkerOpen"
  using assms bracket_once [OF assms(2) tl_patterns(1) _ tl_patterns(5,7)]
    bracket_once [OF assms(2) tl_patterns(2) _ tl_patterns(5,7)]
    bracket_once [OF assms(2) tl_patterns(3) _ tl_patterns(5,7)]
  by (auto simp: tagFree_def isPossibleMarkerPrefix_def isPossiblePrefix_iff hubMarkerBytePatterns_def
      simp del: isPossiblePrefix.simps)

lemma bytesStartWith_self [simp]: "bytesStartWith (p @ bs) p"
  by (simp add: bytesStartWith_def starts_with_iff)

lemma hubStep_close:
  assumes "inMarker s" "\<not> inDone s"
  shows "hubStep s (hubMarkerEndBytes @ bs) =
    Some (flushBufToOut (markerBuf s) @ eraseDisplayBelowBytes, 14,
          s\<lparr>inMarker := False, lineStart := False, markerBuf := []\<rparr>)"
  using assms marker_clash [of "hubMarkerEndBytes @ bs"]
  by (auto simp: hubStep_def find_marker)

lemma scan_step:
  "xs \<noteq> [] \<Longrightarrow> hubStep s xs = Some (out, n, s') \<Longrightarrow>
     scan hubStep s xs = (let (out', s'', c) = scan hubStep s' (drop n xs) in (out @ out', s'', c))"
  using hub_scan.scan_Some [of xs s out n s' "[]"] by simp

lemma hub_scan_body:
  assumes "tagFree t" "inMarker s" "\<not> inDone s"
    "int (length (markerBuf s @ t)) \<le> MAX_MARKER_BUFFER_BYTES"
  shows "scan hubStep s (t @ hubMarkerEndBytes) =
    (flushBufToOut (markerBuf s @ t) @ eraseDisplayBelowBytes,
     s\<lparr>inMarker := False, lineStart := False, markerBuf := []\<rparr>, [])"
  using assms
proof (induction t arbitrary: s)
  case Nil
  then show ?case
    using scan_step [OF _ hubStep_close [of s "[]"]] by (simp add: tl_patterns)
next
  case (Cons b t)
  let ?xs = "(b # t) @ hubMarkerEndBytes" and ?s' = "s\<lparr>markerBuf := markerBuf s @ [b]\<rparr>"
  have "hubStep s ?xs = Some ([], 1, ?s')"
    using Cons.prems tagFree_body [OF Cons.prems(1)]
    by (simp add: hubStep_def hubBodyStep_def find_marker)
  with scan_step [of ?xs s "[]" 1 ?s'] have "scan hubStep s ?xs = scan hubStep ?s' (t @ hubMarkerEndBytes)"
    by (simp split: prod.splits)
  with Cons tagFree_Cons [OF Cons.prems(1)] show ?case by simp
qed

lemma hubStep_doneClose:
  "inDone s \<Longrightarrow> hubStep s (hubDoneMarkerClose @ bs) =
    Some (flushBufToOut (doneBuf s) @ eraseDisplayBelowBytes, 19,
          s\<lparr>inDone := False, lineStart := False, doneBuf := []\<rparr>)"
  by (simp add: hubStep_def hubDoneStep_def)

lemma hub_scan_done_body:
  assumes "\<not> str_includes t hubDoneMarkerClose" "inDone s"
    "int (length (doneBuf s @ t)) \<le> MAX_MARKER_BUFFER_BYTES"
  shows "scan hubStep s (t @ hubDoneMarkerClose) =
    (flushBufToOut (doneBuf s @ t) @ eraseDisplayBelowBytes,
     s\<lparr>inDone := False, lineStart := False, doneBuf := []\<rparr>, [])"
  using assms
proof (induction t arbitrary: s)
  case Nil
  then show ?case
    using scan_step [OF _ hubStep_doneClose [of s "[]"]] by (simp add: tl_patterns)
next
  case (Cons b t)
  let ?xs = "(b # t) @ hubDoneMarkerClose" and ?s' = "s\<lparr>doneBuf := doneBuf s @ [b]\<rparr>"
  have "\<not> isPossiblePrefix ?xs [hubDoneMarkerClose]" "\<not> bytesStartWith ?xs hubDoneMarkerClose"
    using bracket_once [OF _ tl_patterns(4) Cons.prems(1) tl_patterns(6,8)]
    by (auto simp: isPossiblePrefix_iff simp del: isPossiblePrefix.simps)
  then have "hubStep s ?xs = Some ([], 1, ?s')"
    using Cons.prems by (simp add: hubStep_def hubDoneStep_def del: isPossiblePrefix.simps)
  with scan_step [of ?xs s "[]" 1 ?s'] have "scan hubStep s ?xs = scan hubStep ?s' (t @ hubDoneMarkerClose)"
    by (simp split: prod.splits)
  moreover have "\<not> str_includes t hubDoneMarkerClose"
    using Cons.prems(1) by (auto split: if_splits)
  ultimately show ?case
    using Cons by simp
qed

lemma hubStep_open:
  "\<not> inDone s \<Longrightarrow> lineStart s \<Longrightarrow> hubStep s (hubMarkerOpenBytes @ bs) =
     Some ([], 13, s\<lparr>inMarker := True, lineStart := False\<rparr>)"
  using marker_clash [of "hubMarkerOpenBytes @ bs"] by (simp add: hubStep_def find_marker)

lemma hubStep_doneOpen:
  "\<not> inDone s \<Longrightarrow> lineStart s \<Longrightarrow> hubStep s (hubDoneMarkerOpen @ bs) =
     Some ([], 18, s\<lparr>inDone := True, lineStart := False\<rparr>)"
  by (simp add: hubStep_def)

text \<open>A body without a bracket is buffered as it is, up to the bound.\<close>

lemma no_bracket:
  assumes "0x5b \<notin> set t" "t \<noteq> []"
  shows "\<not> bytesStartWith t hubMarkerOpenBytes" "\<not> bytesStartWith t hubMarkerEndBytes"
    "\<not> bytesStartWith t hubDoneMarkerOpen" "\<not> isPossibleMarkerPrefix t"
  using assms
  by (cases t; simp add: bytesStartWith_def hub_patterns isPossibleMarkerPrefix_def
      hubMarkerBytePatterns_def)+

lemma hub_scan_overflow:
  assumes "0x5b \<notin> set t" "inMarker s" "\<not> inDone s" "escPhase s = 0"
    "int (length (markerBuf s)) \<le> MAX_MARKER_BUFFER_BYTES"
    "int (length (markerBuf s @ t)) = MAX_MARKER_BUFFER_BYTES + 1"
  shows "scan hubStep s t =
    ([], s\<lparr>inMarker := False, lineStart := False, markerBuf := []\<rparr>, [])"
  using assms
proof (induction t arbitrary: s)
  case (Cons b t)
  let ?s' = "s\<lparr>markerBuf := markerBuf s @ [b]\<rparr>"
  have st: "hubStep s (b # t) = hubBodyStep s (b # t)"
    using Cons.prems no_bracket [of "b # t"] by (simp add: hubStep_def find_marker)
  show ?case
  proof (cases "t = []")
    case True
    with Cons.prems st no_bracket [of "b # t"] show ?thesis
      by (simp add: hubBodyStep_def)
  next
    case False
    then have "int (length (markerBuf s @ [b])) \<le> MAX_MARKER_BUFFER_BYTES"
      using Cons.prems(6) by (cases t) auto
    then have "hubStep s (b # t) = Some ([], 1, ?s')"
      using st Cons.prems no_bracket [of "b # t"] by (simp add: hubBodyStep_def)
    with Cons.IH [of ?s'] Cons.prems \<open>int (length (markerBuf s @ [b])) \<le> _\<close> show ?thesis
      by simp
  qed
qed simp

lemma hub_scan_buffer:
  assumes "0x5b \<notin> set t" "inMarker s" "\<not> inDone s"
    "int (length (markerBuf s @ t)) \<le> MAX_MARKER_BUFFER_BYTES"
  shows "scan hubStep s t = ([], s\<lparr>markerBuf := markerBuf s @ t\<rparr>, [])"
  using assms
proof (induction t arbitrary: s)
  case (Cons b t)
  then have "hubStep s (b # t) = Some ([], 1, s\<lparr>markerBuf := markerBuf s @ [b]\<rparr>)"
    using no_bracket [of "b # t"] by (simp add: hubStep_def hubBodyStep_def find_marker)
  with Cons show ?case by simp
qed simp

section \<open>Properties\<close>

text \<open>
  C22: The marker filter does not depend on how the terminal stream is cut into chunks: from a
  fresh state, two ways to cut the same bytes give the same output, carry and state.
\<close>

theorem hub_filter_chunking:
  assumes "concat cs = concat ds"
  shows "feed_chunks filterHubMarkersPure ([], hubInit) cs
       = feed_chunks filterHubMarkersPure ([], hubInit) ds"
  using hub_scan.chunked.chunks_irrelevant [OF hub_settled_init assms]
  by (simp add: filterHubMarkersPure_def [abs_def])

lemma hub_filter_chunking_witness:
  "feed_chunks filterHubMarkersPure ([], hubInit) [[91, 77], [], [65, 13]]
     = feed_chunks filterHubMarkersPure ([], hubInit) [[91], [77, 65], [13]]"
  by (rule hub_filter_chunking) simp

text \<open>
  After any chunks the filter is in at most one kind of block, a block is never at a line
  start, a buffer is empty outside its block and within the bound of 32 KiB inside it, and at
  most 18 bytes are held back.
\<close>

theorem hub_filter_bounded:
  "case feed_chunks filterHubMarkersPure ([], hubInit) cs of
     (out, carry, s) \<Rightarrow> hubInv s \<and> length carry \<le> 18"
  using hub_chunks_inv [of "([], hubInit)" cs] hubInv_init by (simp split: prod.splits)

text \<open>
  Outside a block nothing is lost: bytes without a tag come out unchanged, those that may
  start one staying in the carry, and no block is opened.
\<close>

theorem hub_filter_plain:
  assumes "tagFree (carry @ chunk)" "\<not> inDone s" "\<not> inMarker s"
    and "filterHubMarkersPure (carry, s) chunk = (out, carry', s')"
  shows "out @ carry' = carry @ chunk \<and> \<not> inDone s' \<and> \<not> inMarker s'"
  using hub_scan_plain [OF assms(1-3)] assms(4)
  by (auto simp: filterHubMarkersPure_def feed_scan_def split: prod.splits)

lemma hub_filter_plain_witness:
  "\<exists>out carry' s'. filterHubMarkersPure ([], hubInit) [91, 77, 120] = (out, carry', s')
     \<and> out @ carry' = [91, 77, 120] \<and> \<not> inDone s' \<and> \<not> inMarker s'"
proof -
  obtain out c s where f: "filterHubMarkersPure ([], hubInit) [91, 77, 120] = (out, c, s)"
    by (cases "filterHubMarkersPure ([], hubInit) [91, 77, 120]")
  have "tagFree ([] @ [91, 77, 120])"
    by (simp add: tagFree_def hub_patterns)
  from hub_filter_plain [OF this _ _ f] f show ?thesis
    by (simp add: hubInit_def)
qed



text \<open>
  A completion block is written the same way, whatever tags other than its own closing one
  the body quotes.
\<close>

theorem hub_filter_done_block:
  assumes "\<not> str_includes body hubDoneMarkerClose" "int (length body) \<le> MAX_MARKER_BUFFER_BYTES"
    and "hubInv s" "lineStart s"
  shows "filterHubMarkersPure ([], s) (hubDoneMarkerOpen @ body @ hubDoneMarkerClose)
    = (flushBufToOut body @ eraseDisplayBelowBytes, [], s\<lparr>lineStart := False\<rparr>)"
proof -
  have s: "\<not> inDone s" "doneBuf s = []"
    using assms(3,4) by (auto simp: hubInv_def)
  let ?s = "s\<lparr>inDone := True, lineStart := False\<rparr>"
  have "scan hubStep s (hubDoneMarkerOpen @ body @ hubDoneMarkerClose)
      = scan hubStep ?s (body @ hubDoneMarkerClose)"
    using scan_step [OF _ hubStep_doneOpen [OF s(1) assms(4)]] by (simp add: hub_patterns split: prod.splits)
  with hub_scan_done_body [of body ?s] s assms show ?thesis
    by (simp add: filterHubMarkersPure_def feed_scan_def)
qed

lemma hub_filter_done_block_witness:
  "filterHubMarkersPure ([], hubInit)
     (hubDoneMarkerOpen @ hubMarkerOpenBytes @ hubDoneMarkerClose)
   = (flushBufToOut hubMarkerOpenBytes @ eraseDisplayBelowBytes, [], hubInit\<lparr>lineStart := False\<rparr>)"
  by (rule hub_filter_done_block)
     (simp_all add: hub_patterns MAX_MARKER_BUFFER_BYTES_def hubInv_init, simp add: hubInit_def)

text \<open>
  What a block writes holds no escape byte, whatever bytes the body was made of.
\<close>

theorem hub_flush_no_escape: "(0x1b :: byte) \<notin> set (flushBufToOut buf)"
  by (rule flush_no_escape)



text \<open>
  A completion tag quoted inside a question block is torn: its first bracket is written at
  once, before the body that precedes it, which is still in the buffer.
\<close>

theorem hub_quoted_done_tag_reordered:
  assumes "0x5b \<notin> set before" "0x5b \<notin> set after" "hubInv s" "lineStart s" "escPhase s = 0"
    and "int (length before + length after) + 17 \<le> MAX_MARKER_BUFFER_BYTES"
  shows "fst (filterHubMarkersPure ([], s)
      (hubMarkerOpenBytes @ before @ hubDoneMarkerOpen @ after @ hubMarkerEndBytes))
    = [0x5b] @ flushBufToOut (before @ tl hubDoneMarkerOpen @ after) @ eraseDisplayBelowBytes"
proof -
  have s: "\<not> inDone s" "\<not> inMarker s" "markerBuf s = []"
    using assms(3,4) by (auto simp: hubInv_def)
  let ?rest = "tl hubDoneMarkerOpen @ after"
  let ?s1 = "s\<lparr>inMarker := True, lineStart := False\<rparr>"
  let ?s2 = "?s1\<lparr>markerBuf := before\<rparr>"
  let ?s3 = "trackByte 0x5b ?s2"
  have tag: "hubDoneMarkerOpen @ bs = 0x5b # tl hubDoneMarkerOpen @ bs" for bs
    by (simp add: hub_patterns)
  have 1: "scan hubStep s (hubMarkerOpenBytes @ xs) = scan hubStep ?s1 xs" for xs
    using scan_step [OF _ hubStep_open [OF s(1) assms(4), of xs]]
    by (simp add: hub_patterns split: prod.splits)
  have 2: "scan hubStep ?s1 (before @ xs) = scan hubStep ?s2 xs" for xs
    using hub_scan.scan_append [of ?s1 before xs] hub_scan_buffer [of before ?s1] s assms(1,6)
    by (simp split: prod.splits)
  have "hubStep ?s2 (hubDoneMarkerOpen @ after @ hubMarkerEndBytes) = Some ([0x5b], 1, ?s3)"
    using s by (simp add: hubStep_def passByte_def) (simp add: hub_patterns)
  then have 3: "scan hubStep ?s2 (hubDoneMarkerOpen @ after @ hubMarkerEndBytes)
      = (let (o2, s2, c) = scan hubStep ?s3 (?rest @ hubMarkerEndBytes) in (0x5b # o2, s2, c))"
    using scan_step [of "hubDoneMarkerOpen @ after @ hubMarkerEndBytes" ?s2 "[0x5b]" 1 ?s3]
    by (simp add: tag del: hub_patterns)
  have "0x5b \<notin> set ?rest" using assms(2) tl_patterns(3) by simp
  then have "tagFree ?rest"
    by (auto simp: tagFree_def includes_iff hub_patterns dest: set_mono_sublist)
  then have "scan hubStep ?s3 (?rest @ hubMarkerEndBytes) =
      (flushBufToOut (before @ ?rest) @ eraseDisplayBelowBytes,
       ?s3\<lparr>inMarker := False, lineStart := False, markerBuf := []\<rparr>, [])"
    using hub_scan_body [of ?rest ?s3] s assms(6) by simp
  with 1 2 3 show ?thesis
    by (simp add: filterHubMarkersPure_def feed_scan_def)
qed

lemma hub_quoted_done_tag_reordered_witness:
  "fst (filterHubMarkersPure ([], hubInit)
      (hubMarkerOpenBytes @ [65] @ hubDoneMarkerOpen @ [66] @ hubMarkerEndBytes))
    = [0x5b] @ flushBufToOut ([65] @ tl hubDoneMarkerOpen @ [66]) @ eraseDisplayBelowBytes"
  by (rule hub_quoted_done_tag_reordered)
     (simp_all add: MAX_MARKER_BUFFER_BYTES_def hubInv_init, simp_all add: hubInit_def)

end
