(* ===== verification/CursorHideFilter.thy ===== *)
theory CursorHideFilter
  imports HubMarkerFilter
begin

text \<open>
  \<open>src/web/src/app/cursor-hide-filter.ts\<close>: blocks between "hide cursor" and "show cursor" that
  move the cursor absolutely and hold no line feed are status-bar frames and are discarded,
  unless the alternate screen is on; everything else passes. Output bytes and the events the
  caller reads are one list, in the order the code produces them.
\<close>

section \<open>Sequences and state\<close>

definition hideCursorSeq :: "byte list" where "hideCursorSeq = 27 # asciiBytes ''[?25l''"
definition showCursorSeq :: "byte list" where "showCursorSeq = 27 # asciiBytes ''[?25h''"
definition altScreenEnterSeq :: "byte list" where "altScreenEnterSeq = 27 # asciiBytes ''[?1049h''"
definition altScreenExitSeq :: "byte list" where "altScreenExitSeq = 27 # asciiBytes ''[?1049l''"

definition MAX_CURSOR_HIDE_BUF :: int where "MAX_CURSOR_HIDE_BUF = 2048"

lemmas cursor_seqs = hideCursorSeq_def showCursorSeq_def altScreenEnterSeq_def altScreenExitSeq_def
  asciiBytes_def

record cursorHideState =
  inBlock :: bool
  blockBuf :: "byte list"
  hasAbsPos :: bool
  hasNewline :: bool
  altScreen :: bool

definition cursorHideInit :: cursorHideState where
  "cursorHideInit = \<lparr>inBlock = False, blockBuf = [], hasAbsPos = False, hasNewline = False,
     altScreen = False\<rparr>"

datatype cursorHideEventKind =
  PassOverflow | PassShow | PassAlt | PassLf | FilterDiscard

datatype chItem =
    ChByte byte
  | ChEvent (evKind: cursorHideEventKind) (evBuf: "byte list") (evAbs: bool) (evNl: bool)

definition chBytes :: "byte list \<Rightarrow> chItem list" where
  "chBytes bs = map ChByte bs"

text \<open>\<open>blockBuf = []; hasAbsPos = false; hasNewline = false\<close>, and leaving or entering a block.\<close>

declare isPossiblePrefix.simps [simp del]

definition chReset :: "bool \<Rightarrow> cursorHideState \<Rightarrow> cursorHideState" where
  "chReset ib s = s\<lparr>inBlock := ib, blockBuf := [], hasAbsPos := False, hasNewline := False\<rparr>"

lemma chReset_simps [simp]:
  "inBlock (chReset b s) = b" "blockBuf (chReset b s) = []" "hasAbsPos (chReset b s) = False"
  "hasNewline (chReset b s) = False" "altScreen (chReset b s) = altScreen s"
  by (simp_all add: chReset_def)

section \<open>The loop\<close>

datatype chResult = ChStop cursorHideState | ChGo "chItem list" nat cursorHideState

definition chOutside :: "cursorHideState \<Rightarrow> byte list \<Rightarrow> chResult" where
  "chOutside s bs =
     (if bytesStartWith bs altScreenEnterSeq then
        ChGo (chBytes altScreenEnterSeq) (length altScreenEnterSeq) (s\<lparr>altScreen := True\<rparr>)
      else if bytesStartWith bs altScreenExitSeq then
        ChGo (chBytes altScreenExitSeq) (length altScreenExitSeq) (s\<lparr>altScreen := False\<rparr>)
      else if bytesStartWith bs hideCursorSeq then
        ChGo [] (length hideCursorSeq) (chReset True s)
      else if isPossiblePrefix bs [hideCursorSeq, altScreenEnterSeq, altScreenExitSeq] then
        ChStop (chReset False s)
      else ChGo [ChByte (hd bs)] 1 s)"

definition is_digit_byte :: "byte \<Rightarrow> bool" where
  "is_digit_byte b \<longleftrightarrow> 0x30 \<le> b \<and> b \<le> 0x39"

text \<open>
  The bytes of an absolute cursor move with both coordinates at the front, if there is one:
  \<open>i + 4 < combined.length\<close>, digits, a semicolon, digits, \<open>H\<close>.
\<close>

definition cupLength :: "byte list \<Rightarrow> nat option" where
  "cupLength bs =
     (if hd bs = 0x1b \<and> 4 < length bs \<and> bs ! 1 = 0x5b then
        (let row = takeWhile is_digit_byte (drop 2 bs) in
         case dropWhile is_digit_byte (drop 2 bs) of
           [] \<Rightarrow> None
         | b # r \<Rightarrow>
             if row \<noteq> [] \<and> b = 0x3b then
               (let col = takeWhile is_digit_byte r in
                case dropWhile is_digit_byte r of
                  [] \<Rightarrow> None
                | e # _ \<Rightarrow> if col \<noteq> [] \<and> e = 0x48
                           then Some (2 + length row + 1 + length col + 1) else None)
             else None)
      else None)"

definition chShow :: "cursorHideState \<Rightarrow> chItem list" where
  "chShow s =
     (let ev = (\<lambda>k. [ChEvent k (blockBuf s) (hasAbsPos s) (hasNewline s)]);
          pass = chBytes (hideCursorSeq @ blockBuf s @ showCursorSeq) in
      if \<not> hasAbsPos s \<or> hasNewline s then ev PassShow @ pass
      else if altScreen s then ev PassAlt @ pass
      else ev FilterDiscard)"

definition chInside :: "cursorHideState \<Rightarrow> byte list \<Rightarrow> chResult" where
  "chInside s bs =
     (if bytesStartWith bs showCursorSeq then
        ChGo (chShow s) (length showCursorSeq) (chReset False s)
      else if bytesStartWith bs altScreenEnterSeq then
        ChGo [] (length altScreenEnterSeq)
          (s\<lparr>altScreen := True, blockBuf := blockBuf s @ altScreenEnterSeq\<rparr>)
      else if bytesStartWith bs altScreenExitSeq then
        ChGo [] (length altScreenExitSeq)
          (s\<lparr>altScreen := False, blockBuf := blockBuf s @ altScreenExitSeq\<rparr>)
      else if isPossiblePrefix bs [showCursorSeq, altScreenEnterSeq, altScreenExitSeq] then
        ChStop s
      else
        (case (if hasAbsPos s then None else cupLength bs) of
           Some n \<Rightarrow> ChGo [] n (s\<lparr>hasAbsPos := True, blockBuf := blockBuf s @ take n bs\<rparr>)
         | None \<Rightarrow>
             let buf = blockBuf s @ [hd bs] in
             if hd bs = 0x0a then
               ChGo (ChEvent PassLf buf (hasAbsPos s) True # chBytes (hideCursorSeq @ buf)) 1
                 (chReset False s)
             else ChGo [] 1 (s\<lparr>blockBuf := buf\<rparr>)))"

function chLoop :: "cursorHideState \<Rightarrow> byte list \<Rightarrow> chItem list \<times> cursorHideState \<times> byte list" where
  "chLoop s bs =
     (if bs = [] then ([], s, [])
      else if inBlock s \<and> int (length (blockBuf s)) \<ge> MAX_CURSOR_HIDE_BUF then
        (let (out, r) = chLoop (chReset False s) bs in
         (ChEvent PassOverflow (blockBuf s) (hasAbsPos s) (hasNewline s)
            # chBytes (hideCursorSeq @ blockBuf s) @ out, r))
      else
        (case (if inBlock s then chInside s bs else chOutside s bs) of
           ChStop s' \<Rightarrow> ([], s', bs)
         | ChGo out n s' \<Rightarrow> (let (out', r) = chLoop s' (drop (max 1 n) bs) in (out @ out', r))))"
  by pat_completeness auto
termination
  by (relation "measures [\<lambda>(s, bs). length bs, \<lambda>(s, bs). if inBlock s then 1 else 0]")
     auto

declare chLoop.simps [simp del]

definition filterCursorHideBlocksPure ::
  "byte list \<times> cursorHideState \<Rightarrow> byte list \<Rightarrow> chItem list \<times> byte list \<times> cursorHideState" where
  "filterCursorHideBlocksPure st bytes =
     (let (out, s, c) = chLoop (snd st) (fst st @ bytes) in (out, c, s))"

text \<open>What the caller sends on, and the events it reads.\<close>

definition chOut :: "chItem list \<Rightarrow> byte list" where
  "chOut its = concat (map (\<lambda>it. case it of ChByte b \<Rightarrow> [b] | _ \<Rightarrow> []) its)"

definition chEvents :: "chItem list \<Rightarrow> chItem list" where
  "chEvents its = filter (\<lambda>it. case it of ChByte _ \<Rightarrow> False | _ \<Rightarrow> True) its"

section \<open>Nothing is lost but discarded blocks\<close>

text \<open>The bytes an output stands for: a discarded block is put back in its place.\<close>

fun chReplay :: "chItem list \<Rightarrow> byte list" where
  "chReplay [] = []"
| "chReplay (ChByte b # its) = b # chReplay its"
| "chReplay (ChEvent k buf a h # its) =
     (if k = FilterDiscard then hideCursorSeq @ buf @ showCursorSeq else []) @ chReplay its"

definition chPending :: "cursorHideState \<Rightarrow> byte list" where
  "chPending s = (if inBlock s then hideCursorSeq @ blockBuf s else [])"

lemma chReplay_append [simp]: "chReplay (xs @ ys) = chReplay xs @ chReplay ys"
  by (induction xs rule: chReplay.induct) auto

lemma chReplay_bytes [simp]: "chReplay (chBytes bs) = bs"
  by (induction bs) (auto simp: chBytes_def)

lemma chBytes_append: "chBytes (xs @ ys) = chBytes xs @ chBytes ys"
  by (simp add: chBytes_def)

lemma bytesStartWith_take: "bytesStartWith bs p \<Longrightarrow> p @ drop (length p) bs = bs"
  by (auto simp: bytesStartWith_def starts_with_iff elim: prefixE)

lemma seq_lengths [simp]:
  "length hideCursorSeq = 6" "length showCursorSeq = 6"
  "length altScreenEnterSeq = 8" "length altScreenExitSeq = 8"
  by (simp_all add: cursor_seqs)

lemma cupLength_bounds: "cupLength bs = Some n \<Longrightarrow> 0 < n \<and> n \<le> length bs"
proof -
  assume c: "cupLength bs = Some n"
  then obtain b r e r' where d: "dropWhile is_digit_byte (drop 2 bs) = b # r"
      "dropWhile is_digit_byte r = e # r'"
      "n = 2 + length (takeWhile is_digit_byte (drop 2 bs)) + 1 + length (takeWhile is_digit_byte r) + 1"
      "4 < length bs"
    by (auto simp: cupLength_def Let_def split: if_splits list.splits)
  have "length (takeWhile is_digit_byte (drop 2 bs)) + length (b # r) = length (drop 2 bs)"
    using arg_cong [OF takeWhile_dropWhile_id [of is_digit_byte "drop 2 bs"], of length] d(1)
    by (simp del: takeWhile_dropWhile_id)
  moreover have "length (takeWhile is_digit_byte r) + length (e # r') = length r"
    using arg_cong [OF takeWhile_dropWhile_id [of is_digit_byte r], of length] d(2)
    by (simp del: takeWhile_dropWhile_id)
  ultimately show ?thesis using d(3,4) by simp
qed

text \<open>Every iteration accounts for the bytes it consumes.\<close>

lemma chOutside_conserves:
  assumes "bs \<noteq> []" "\<not> inBlock s"
  shows "case chOutside s bs of
      ChStop s' \<Rightarrow> \<not> inBlock s'
    | ChGo out n s' \<Rightarrow> 0 < n \<and> n \<le> length bs \<and> chReplay out @ chPending s' = take n bs"
proof -
  have t: "bytesStartWith bs p \<Longrightarrow> take (length p) bs = p" for p
    by (auto simp: bytesStartWith_def starts_with_iff elim: prefixE)
  from assms show ?thesis
    using bytesStartWith_length [of bs altScreenEnterSeq] bytesStartWith_length [of bs altScreenExitSeq]
      bytesStartWith_length [of bs hideCursorSeq] t [of altScreenEnterSeq] t [of altScreenExitSeq]
      t [of hideCursorSeq]
    by (cases bs) (auto simp: chOutside_def chPending_def chReset_def)
qed

lemma chInside_conserves:
  assumes "bs \<noteq> []" "inBlock s"
  shows "case chInside s bs of
      ChStop s' \<Rightarrow> s' = s
    | ChGo out n s' \<Rightarrow> 0 < n \<and> n \<le> length bs \<and>
        chReplay out @ chPending s' = chPending s @ take n bs"
proof -
  have t: "bytesStartWith bs p \<Longrightarrow> take (length p) bs = p" for p
    by (auto simp: bytesStartWith_def starts_with_iff elim: prefixE)
  show ?thesis
  proof (cases "bytesStartWith bs showCursorSeq \<or> bytesStartWith bs altScreenEnterSeq
      \<or> bytesStartWith bs altScreenExitSeq")
    case True
    with assms show ?thesis
      using bytesStartWith_length [of bs altScreenEnterSeq] bytesStartWith_length [of bs altScreenExitSeq]
        bytesStartWith_length [of bs showCursorSeq] t [of altScreenEnterSeq] t [of altScreenExitSeq]
        t [of showCursorSeq]
      by (auto simp: chInside_def chPending_def chReset_def chShow_def Let_def)
  next
    case False
    with assms cupLength_bounds [of bs] show ?thesis
      by (cases bs) (auto simp: chInside_def chPending_def chReset_def Let_def split: option.splits)
  qed
qed

lemma chLoop_conserves:
  "chLoop s bs = (out, s', c) \<Longrightarrow> chReplay out @ chPending s' @ c = chPending s @ bs"
proof (induction s bs arbitrary: out rule: chLoop.induct)
  case (1 s bs)
  consider "bs = []" | "bs \<noteq> []" "inBlock s" "int (length (blockBuf s)) \<ge> MAX_CURSOR_HIDE_BUF"
    | "bs \<noteq> []" "\<not> (inBlock s \<and> int (length (blockBuf s)) \<ge> MAX_CURSOR_HIDE_BUF)"
    by blast
  then show ?case
  proof cases
    case 1
    with "1.prems" show ?thesis by (simp add: chLoop.simps)
  next
    case 2
    then obtain o2 where "chLoop (chReset False s) bs = (o2, s', c)"
        "out = ChEvent PassOverflow (blockBuf s) (hasAbsPos s) (hasNewline s)
            # chBytes (hideCursorSeq @ blockBuf s) @ o2"
      using "1.prems" by (subst (asm) chLoop.simps) (auto split: prod.splits)
    with "1.IH"(1) [OF 2(1)] 2 show ?thesis
      by (simp add: chPending_def chReset_def)
  next
    case 3
    let ?r = "if inBlock s then chInside s bs else chOutside s bs"
    show ?thesis
    proof (cases ?r)
      case (ChStop s1)
      with 3 "1.prems" have "out = [] \<and> s' = s1 \<and> c = bs"
        by (subst (asm) chLoop.simps) (simp split: if_splits)
      with ChStop chInside_conserves [OF 3(1), of s] chOutside_conserves [OF 3(1), of s] show ?thesis
        by (cases "inBlock s") (auto simp: chPending_def)
    next
      case (ChGo o1 n s1)
      have st: "0 < n \<and> n \<le> length bs \<and> chReplay o1 @ chPending s1 = chPending s @ take n bs"
        using ChGo chInside_conserves [OF 3(1), of s] chOutside_conserves [OF 3(1), of s]
        by (cases "inBlock s") (auto simp: chPending_def)
      from 3 ChGo "1.prems" obtain o2 where o2: "chLoop s1 (drop n bs) = (o2, s', c)" "out = o1 @ o2"
        using st by (subst (asm) chLoop.simps) (auto split: prod.splits simp: max_def)
      have "chReplay o2 @ chPending s' @ c = chPending s1 @ drop n bs"
        using "1.IH"(2) [OF 3 ChGo, of o2] o2 st by (simp add: max_def)
      with o2(2) st show ?thesis
        by (metis append.assoc append_take_drop_id chReplay_append)
    qed
  qed
qed

section \<open>What is discarded\<close>

text \<open>
  While a block is open it holds no line feed, \<open>hasNewline\<close> is never set, and \<open>hasAbsPos\<close> says
  that a cursor move with both coordinates is in the buffer.
\<close>

definition hasCup :: "byte list \<Rightarrow> bool" where
  "hasCup buf \<longleftrightarrow> (\<exists>u v. buf = u @ v \<and> v \<noteq> [] \<and> cupLength v \<noteq> None)"

definition chInv :: "cursorHideState \<Rightarrow> bool" where
  "chInv s \<longleftrightarrow> \<not> hasNewline s \<and> 0x0a \<notin> set (blockBuf s) \<and> (hasAbsPos s \<longrightarrow> hasCup (blockBuf s))"

text \<open>Status frames are discarded only on the main screen.\<close>

definition chItemOk :: "chItem \<Rightarrow> bool" where
  "chItemOk it \<longleftrightarrow> (case it of ChByte _ \<Rightarrow> True
     | ChEvent k buf a h \<Rightarrow> k = FilterDiscard \<longrightarrow> a \<and> \<not> h \<and> 0x0a \<notin> set buf \<and> hasCup buf)"

lemma chInv_reset [simp]: "chInv (chReset b s)"
  by (simp add: chInv_def chReset_def)

lemma chItemOk_simps [simp]:
  "chItemOk (ChByte b)"
  "chItemOk (ChEvent k buf a h) \<longleftrightarrow> (k = FilterDiscard \<longrightarrow> a \<and> \<not> h \<and> 0x0a \<notin> set buf \<and> hasCup buf)"
  by (simp_all add: chItemOk_def)

lemma chItemOk_bytes [simp]: "it \<in> set (chBytes bs) \<Longrightarrow> chItemOk it"
  by (auto simp: chBytes_def)

lemma cupLength_append: "cupLength v = Some n \<Longrightarrow> v \<noteq> [] \<Longrightarrow> cupLength (v @ w) = Some n"
proof -
  assume v: "cupLength v = Some n" "v \<noteq> []"
  then obtain b r e r' where d: "dropWhile is_digit_byte (drop 2 v) = b # r"
      "dropWhile is_digit_byte r = e # r'" "4 < length v"
    by (auto simp: cupLength_def Let_def split: if_splits list.splits)
  have "dropWhile is_digit_byte (drop 2 v @ w) = b # r @ w
      \<and> takeWhile is_digit_byte (drop 2 v @ w) = takeWhile is_digit_byte (drop 2 v)"
    using d(1) dropWhile_eq_Nil_conv [of is_digit_byte "drop 2 v"]
    by (metis (full_types) Cons_eq_appendI dropWhile_append1 list.distinct(1) takeWhile_append1)
  moreover have "dropWhile is_digit_byte (r @ w) = e # r' @ w
      \<and> takeWhile is_digit_byte (r @ w) = takeWhile is_digit_byte r"
    using d(2) dropWhile_eq_Nil_conv [of is_digit_byte r]
    by (metis (full_types) Cons_eq_appendI dropWhile_append1 list.distinct(1) takeWhile_append1)
  moreover have "drop 2 (v @ w) = drop 2 v @ w" "hd (v @ w) = hd v" "(v @ w) ! 1 = v ! 1"
    using d(3) v(2) by (simp_all add: nth_append)
  ultimately show ?thesis
    using v d by (auto simp: cupLength_def Let_def split: if_splits)
qed

lemma hasCup_append: "hasCup b \<Longrightarrow> hasCup (b @ c)"
proof -
  assume "hasCup b"
  then obtain u v n where "b = u @ v" "v \<noteq> []" "cupLength v = Some n"
    by (auto simp: hasCup_def)
  then have "b @ c = u @ (v @ c)" "v @ c \<noteq> []" "cupLength (v @ c) = Some n"
    by (simp_all add: cupLength_append)
  then show ?thesis unfolding hasCup_def by blast
qed

lemma digit_bytes_no_lf: "b \<in> set (takeWhile is_digit_byte bs) \<Longrightarrow> b \<noteq> 0x0a"
  by (auto dest!: set_takeWhileD simp: is_digit_byte_def)

lemma cupLength_split:
  assumes "cupLength bs = Some n"
  obtains r1 r2 r' where "bs = 0x1b # 0x5b # r1 @ 0x3b # r2 @ 0x48 # r'"
    "take n bs = 0x1b # 0x5b # r1 @ 0x3b # r2 @ [0x48]"
    "r1 \<noteq> []" "r2 \<noteq> []" "\<forall>b \<in> set (r1 @ r2). is_digit_byte b"
proof -
  let ?r1 = "takeWhile is_digit_byte (drop 2 bs)"
  from assms obtain r r' where d: "dropWhile is_digit_byte (drop 2 bs) = 0x3b # r"
      "dropWhile is_digit_byte r = 0x48 # r'"
      "n = 2 + length ?r1 + 1 + length (takeWhile is_digit_byte r) + 1"
      "4 < length bs" "hd bs = 0x1b" "bs ! 1 = 0x5b" "?r1 \<noteq> []" "takeWhile is_digit_byte r \<noteq> []"
    by (auto simp: cupLength_def Let_def split: if_splits list.splits)
  have 1: "bs = 0x1b # 0x5b # drop 2 bs"
    using d(4-6) by (cases bs; cases "tl bs") (auto simp: numeral_2_eq_2)
  have 2: "drop 2 bs = ?r1 @ 0x3b # r"
    using takeWhile_dropWhile_id [of is_digit_byte "drop 2 bs"] d(1) by simp
  have 3: "r = takeWhile is_digit_byte r @ 0x48 # r'"
    using takeWhile_dropWhile_id [of is_digit_byte r] d(2) by simp
  let ?r2 = "takeWhile is_digit_byte r"
  have bs: "bs = (0x1b # 0x5b # ?r1 @ 0x3b # ?r2 @ [0x48]) @ r'"
    using 1 2 3 by simp
  have "n = length (0x1b # 0x5b # ?r1 @ 0x3b # ?r2 @ [0x48 :: byte])"
    using d(3) by simp
  then have tk: "take n bs = 0x1b # 0x5b # ?r1 @ 0x3b # ?r2 @ [0x48]"
    using bs by (metis append_eq_conv_conj)
  show thesis
  proof (rule that [of ?r1 ?r2 r'])
    show "bs = 0x1b # 0x5b # ?r1 @ 0x3b # ?r2 @ 0x48 # r'" using bs by simp
    show "take n bs = 0x1b # 0x5b # ?r1 @ 0x3b # ?r2 @ [0x48]" by (rule tk)
    show "\<forall>b \<in> set (?r1 @ ?r2). is_digit_byte b" by (auto dest: set_takeWhileD)
  qed (use d in auto)
qed

lemma cupLength_take:
  assumes "cupLength bs = Some n"
  shows "0x0a \<notin> set (take n bs)" "cupLength (take n bs) = Some n"
proof -
  from cupLength_split [OF assms] obtain r1 r2 r' where r:
      "take n bs = 0x1b # 0x5b # r1 @ 0x3b # r2 @ [0x48]" "r1 \<noteq> []" "r2 \<noteq> []"
      "\<forall>b \<in> set (r1 @ r2). is_digit_byte b"
    by metis
  have "\<not> is_digit_byte 0x0a" by (simp add: is_digit_byte_def)
  with r(1,4) show "0x0a \<notin> set (take n bs)" by auto
  have digits: "takeWhile is_digit_byte (r @ b # s) = r" "dropWhile is_digit_byte (r @ b # s) = b # s"
    if "\<forall>b \<in> set r. is_digit_byte b" "\<not> is_digit_byte b" for r b s
    using that by (simp_all add: takeWhile_append2 dropWhile_append2 takeWhile_tail)
  have nd: "\<not> is_digit_byte 0x3b" "\<not> is_digit_byte 0x48"
    by (simp_all add: is_digit_byte_def)
  have len: "n = length (take n bs)"
    using cupLength_bounds [OF assms] by simp
  then have n: "n = 4 + length r1 + length r2"
    using r(1) by simp
  have "0 < length r1" "0 < length r2" using r(2,3) by simp_all
  then show "cupLength (take n bs) = Some n"
    unfolding r(1) using r digits [OF _ nd(1), of r1 "r2 @ [0x48]"] digits [OF _ nd(2), of r2 "[]"] n
    by (simp add: cupLength_def Let_def)
qed

lemma chStep_discards:
  assumes "chInv s" "bs \<noteq> []"
    and "(if inBlock s then chInside s bs else chOutside s bs) = r"
  shows "case r of ChStop s' \<Rightarrow> chInv s'
    | ChGo out n s' \<Rightarrow> chInv s' \<and> (\<forall>it \<in> set out. chItemOk it)"
proof (cases "inBlock s")
  case False
  with assms show ?thesis
    by (auto simp: chOutside_def chInv_def chReset_def)
next
  case True
  have seqs: "0x0a \<notin> set altScreenEnterSeq" "0x0a \<notin> set altScreenExitSeq"
    by (simp_all add: cursor_seqs)
  have cup: "hasCup (b @ take n bs)" "0x0a \<notin> set (take n bs)" if "cupLength bs = Some n" for b n
  proof -
    have "take n bs \<noteq> []" using cupLength_bounds [OF that] by auto
    with cupLength_take [OF that] show "hasCup (b @ take n bs)" "0x0a \<notin> set (take n bs)"
      unfolding hasCup_def by blast+
  qed
  show ?thesis
  proof (cases "bytesStartWith bs showCursorSeq")
    case shown: True
    have "\<forall>it \<in> set (chShow s). chItemOk it"
      using assms(1) by (auto simp: chShow_def Let_def chInv_def chBytes_def)
    with shown True assms(3) show ?thesis by (auto simp: chInside_def)
  next
    case False
    with True assms cup seqs show ?thesis
      by (auto simp: chInside_def Let_def chInv_def hasCup_append split: option.splits if_splits)
  qed
qed

lemma chLoop_discards:
  "chInv s \<Longrightarrow> chLoop s bs = (out, s', c) \<Longrightarrow> chInv s' \<and> (\<forall>it \<in> set out. chItemOk it)"
proof (induction s bs arbitrary: out rule: chLoop.induct)
  case (1 s bs)
  consider "bs = []" | "bs \<noteq> []" "inBlock s" "int (length (blockBuf s)) \<ge> MAX_CURSOR_HIDE_BUF"
    | "bs \<noteq> []" "\<not> (inBlock s \<and> int (length (blockBuf s)) \<ge> MAX_CURSOR_HIDE_BUF)"
    by blast
  then show ?case
  proof cases
    case 1
    with "1.prems" show ?thesis by (simp add: chLoop.simps)
  next
    case 2
    then obtain o2 where "chLoop (chReset False s) bs = (o2, s', c)"
        "out = ChEvent PassOverflow (blockBuf s) (hasAbsPos s) (hasNewline s)
            # chBytes (hideCursorSeq @ blockBuf s) @ o2"
      using "1.prems" by (subst (asm) chLoop.simps) (auto split: prod.splits)
    with "1.IH"(1) [OF 2(1)] 2 show ?thesis by auto
  next
    case 3
    let ?r = "if inBlock s then chInside s bs else chOutside s bs"
    note st = chStep_discards [OF "1.prems"(1) 3(1) refl]
    show ?thesis
    proof (cases ?r)
      case (ChStop s1)
      with 3 "1.prems" have "out = [] \<and> s' = s1 \<and> c = bs"
        by (subst (asm) chLoop.simps) (simp split: if_splits)
      with st ChStop show ?thesis by simp
    next
      case (ChGo o1 n s1)
      from 3 ChGo "1.prems" obtain o2 where o2:
          "chLoop s1 (drop (max 1 n) bs) = (o2, s', c)" "out = o1 @ o2"
        by (subst (asm) chLoop.simps) (auto split: prod.splits)
      with "1.IH"(2) [OF 3 ChGo, of o2] st ChGo show ?thesis by auto
    qed
  qed
qed

text \<open>On the alternate screen, as long as it is not left, nothing is discarded.\<close>

lemma str_includes_drop: "\<not> str_includes bs p \<Longrightarrow> \<not> str_includes (drop n bs) p"
  by (auto simp: includes_iff dest: sublist_order.order_trans [OF _ suffix_imp_sublist [OF suffix_drop]])

lemma not_includes_start: "\<not> str_includes bs p \<Longrightarrow> \<not> bytesStartWith bs p"
  by (auto simp: includes_iff bytesStartWith_def starts_with_iff)

lemma chStep_alt:
  assumes "altScreen s" "\<not> bytesStartWith bs altScreenExitSeq"
    and "(if inBlock s then chInside s bs else chOutside s bs) = r"
  shows "case r of ChStop s' \<Rightarrow> altScreen s'
    | ChGo out n s' \<Rightarrow> altScreen s' \<and> (\<forall>b a h. ChEvent FilterDiscard b a h \<notin> set out)"
  using assms
  by (auto simp: chInside_def chOutside_def chShow_def Let_def chBytes_def split: option.splits if_splits)

lemma chLoop_alt:
  "altScreen s \<Longrightarrow> \<not> str_includes bs altScreenExitSeq \<Longrightarrow> chLoop s bs = (out, s', c) \<Longrightarrow>
     altScreen s' \<and> (\<forall>b a h. ChEvent FilterDiscard b a h \<notin> set out)"
proof (induction s bs arbitrary: out rule: chLoop.induct)
  case (1 s bs)
  consider "bs = []" | "bs \<noteq> []" "inBlock s" "int (length (blockBuf s)) \<ge> MAX_CURSOR_HIDE_BUF"
    | "bs \<noteq> []" "\<not> (inBlock s \<and> int (length (blockBuf s)) \<ge> MAX_CURSOR_HIDE_BUF)"
    by blast
  then show ?case
  proof cases
    case 1
    with "1.prems" show ?thesis by (simp add: chLoop.simps)
  next
    case 2
    then obtain o2 where "chLoop (chReset False s) bs = (o2, s', c)"
        "out = ChEvent PassOverflow (blockBuf s) (hasAbsPos s) (hasNewline s)
            # chBytes (hideCursorSeq @ blockBuf s) @ o2"
      using "1.prems" by (subst (asm) chLoop.simps) (auto split: prod.splits)
    with "1.IH"(1) [OF 2(1)] 2 "1.prems" show ?thesis by (auto simp: chBytes_def)
  next
    case 3
    let ?r = "if inBlock s then chInside s bs else chOutside s bs"
    note st = chStep_alt [OF "1.prems"(1) not_includes_start [OF "1.prems"(2)] refl]
    show ?thesis
    proof (cases ?r)
      case (ChStop s1)
      with 3 "1.prems" have "out = [] \<and> s' = s1 \<and> c = bs"
        by (subst (asm) chLoop.simps) (simp split: if_splits)
      with st ChStop show ?thesis by simp
    next
      case (ChGo o1 n s1)
      from 3 ChGo "1.prems" obtain o2 where o2:
          "chLoop s1 (drop (max 1 n) bs) = (o2, s', c)" "out = o1 @ o2"
        by (subst (asm) chLoop.simps) (auto split: prod.splits)
      with "1.IH"(2) [OF 3 ChGo, of o2] st ChGo str_includes_drop [OF "1.prems"(2)] show ?thesis
        by auto
    qed
  qed
qed

lemma chunks_conserve:
  "feed_chunks filterCursorHideBlocksPure (c, s) cs = (out, c', s') \<Longrightarrow>
     chReplay out @ chPending s' @ c' = chPending s @ c @ concat cs"
proof (induction cs arbitrary: c s out)
  case (Cons b bs)
  obtain o1 c1 s1 where f: "filterCursorHideBlocksPure (c, s) b = (o1, c1, s1)"
    by (cases "filterCursorHideBlocksPure (c, s) b")
  with Cons.prems obtain o2 where o2: "feed_chunks filterCursorHideBlocksPure (c1, s1) bs = (o2, c', s')"
      "out = o1 @ o2"
    by (auto split: prod.splits)
  from f have "chLoop s (c @ b) = (o1, s1, c1)"
    by (auto simp: filterCursorHideBlocksPure_def split: prod.splits)
  from chLoop_conserves [OF this] Cons.IH [OF o2(1)] o2(2) show ?case
    by (metis append.assoc chReplay_append concat.simps(2))
qed simp

lemma chunks_discards:
  "chInv s \<Longrightarrow> feed_chunks filterCursorHideBlocksPure (c, s) cs = (out, c', s') \<Longrightarrow>
     \<forall>it \<in> set out. chItemOk it"
proof (induction cs arbitrary: c s out)
  case (Cons b bs)
  obtain o1 c1 s1 where f: "filterCursorHideBlocksPure (c, s) b = (o1, c1, s1)"
    by (cases "filterCursorHideBlocksPure (c, s) b")
  with Cons.prems obtain o2 where o2: "feed_chunks filterCursorHideBlocksPure (c1, s1) bs = (o2, c', s')"
      "out = o1 @ o2"
    by (auto split: prod.splits)
  from f have "chLoop s (c @ b) = (o1, s1, c1)"
    by (auto simp: filterCursorHideBlocksPure_def split: prod.splits)
  from chLoop_discards [OF Cons.prems(1) this] Cons.IH [OF _ o2(1)] o2(2) show ?case
    by auto
qed simp

section \<open>Properties\<close>

text \<open>
  The cursor-hide filter loses nothing but the blocks it reports as discarded: over any
  chunks, the output with every discarded block put back in its place, the block being
  collected and the carry make up the input.
\<close>

theorem cursor_hide_conserves:
  "case feed_chunks filterCursorHideBlocksPure ([], cursorHideInit) cs of
     (out, carry, s) \<Rightarrow> chReplay out @ chPending s @ carry = concat cs"
  using chunks_conserve [of "[]" cursorHideInit cs]
  by (auto simp: cursorHideInit_def chPending_def split: prod.splits)

text \<open>
  Every discarded block is a status frame: it holds an absolute cursor move with both
  coordinates and no line feed, and the event says so.
\<close>

theorem cursor_hide_discards_status_only:
  "ChEvent FilterDiscard buf a h
     \<in> set (fst (feed_chunks filterCursorHideBlocksPure ([], cursorHideInit) cs)) \<longrightarrow>
   a \<and> \<not> h \<and> 0x0a \<notin> set buf \<and> hasCup buf"
proof -
  have "chInv cursorHideInit" by (simp add: chInv_def cursorHideInit_def)
  then have "\<forall>it \<in> set (fst (feed_chunks filterCursorHideBlocksPure ([], cursorHideInit) cs)). chItemOk it"
    using chunks_discards by (metis prod.collapse)
  then show ?thesis by fastforce
qed

text \<open>The bytes of \<open>hide, ESC [ 1 ; 5 H, x, show\<close>: a status frame of one letter.\<close>

definition statusFrame :: "byte list" where
  "statusFrame = hideCursorSeq @ [27, 91, 49, 59, 53, 72, 120] @ showCursorSeq"

lemma statusFrame_discarded:
  "fst (filterCursorHideBlocksPure ([], cursorHideInit) statusFrame)
     = [ChEvent FilterDiscard [27, 91, 49, 59, 53, 72, 120] True False]"
  by code_simp

lemma cursor_hide_discards_status_only_witness:
  "ChEvent FilterDiscard [27, 91, 49, 59, 53, 72, 120] True False
     \<in> set (fst (feed_chunks filterCursorHideBlocksPure ([], cursorHideInit) [statusFrame]))
   \<and> hasCup [27, 91, 49, 59, 53, 72, 120]"
proof -
  have "ChEvent FilterDiscard [27, 91, 49, 59, 53, 72, 120] True False
      \<in> set (fst (feed_chunks filterCursorHideBlocksPure ([], cursorHideInit) [statusFrame]))"
    using statusFrame_discarded by (simp split: prod.splits)
  with cursor_hide_discards_status_only show ?thesis by blast
qed

text \<open>
  C36: On the alternate screen nothing is discarded until the screen is left, so an application
  that draws there with absolute cursor moves stays visible.
\<close>

theorem cursor_hide_keeps_alt_screen:
  assumes "altScreen s" "\<not> str_includes (carry @ bytes) altScreenExitSeq"
    and "filterCursorHideBlocksPure (carry, s) bytes = (out, carry', s')"
  shows "altScreen s' \<and> (\<forall>buf a h. ChEvent FilterDiscard buf a h \<notin> set out)"
  using chLoop_alt [OF assms(1,2)] assms(3)
  by (auto simp: filterCursorHideBlocksPure_def split: prod.splits)

lemma cursor_hide_keeps_alt_screen_witness:
  "\<forall>buf a h. ChEvent FilterDiscard buf a h
     \<notin> set (fst (filterCursorHideBlocksPure ([], cursorHideInit\<lparr>altScreen := True\<rparr>) statusFrame))"
proof -
  let ?s = "cursorHideInit\<lparr>altScreen := True\<rparr>"
  have "\<not> str_includes ([] @ statusFrame) altScreenExitSeq" by code_simp
  moreover obtain o1 c1 s1 where "filterCursorHideBlocksPure ([], ?s) statusFrame = (o1, c1, s1)"
    by (cases "filterCursorHideBlocksPure ([], ?s) statusFrame")
  ultimately show ?thesis
    using cursor_hide_keeps_alt_screen [of ?s "[]" statusFrame o1 c1 s1] by simp
qed

text \<open>
  Where the stream is cut does matter to this filter: a status frame whose cursor move is
  cut after its first digit is not recognised and is written to the screen, while the same
  bytes in one chunk are discarded.
\<close>

theorem cursor_hide_depends_on_chunks:
  "chOut (fst (feed_chunks filterCursorHideBlocksPure ([], cursorHideInit) [statusFrame])) = []
   \<and> chOut (fst (feed_chunks filterCursorHideBlocksPure ([], cursorHideInit)
        [take 9 statusFrame, drop 9 statusFrame])) = statusFrame"
proof
  show "chOut (fst (feed_chunks filterCursorHideBlocksPure ([], cursorHideInit) [statusFrame])) = []"
    by code_simp
  show "chOut (fst (feed_chunks filterCursorHideBlocksPure ([], cursorHideInit)
      [take 9 statusFrame, drop 9 statusFrame])) = statusFrame"
    by code_simp
qed

end
