(* ===== verification/DisplayFilters.thy ===== *)
theory DisplayFilters
  imports CursorHideFilter
begin

text \<open>
  The display filters of \<open>src/web/src/app/terminal.ts\<close>: reverse video is rewritten to a
  background colour, synchronized-update marks are removed, erase-scrollback is removed for
  Codex, a bare carriage return gets an erase-to-end-of-line, screen-clear sequences are
  detected; and \<open>writePTYChunk\<close>, which runs all filters over a chunk.
\<close>

section \<open>Reverse video\<close>

definition is_final :: "byte \<Rightarrow> bool" where
  "is_final b \<longleftrightarrow> 0x40 \<le> b \<and> b \<le> 0x7e"

text \<open>The filtered parameters of an SGR sequence (\<open>parts\<close> to \<open>filtered\<close>).\<close>

definition rewriteSgrParts :: "jstr list \<Rightarrow> jstr list" where
  "rewriteSgrParts parts =
     filter (\<lambda>p. p \<noteq> js ''7'' \<and> p \<noteq> js ''27'') parts
     @ (if List.member parts (js ''7'') then [js ''48'', js ''5'', js ''238''] else [])
     @ (if List.member parts (js ''27'') then [js ''49''] else [])"

text \<open>\<open>String.fromCharCode\<close> of each byte; \<open>asciiBytes\<close> keeps the low eight bits.\<close>

definition bytes_str :: "byte list \<Rightarrow> jstr" where
  "bytes_str bs = map uint bs"

definition str_bytes :: "jstr \<Rightarrow> byte list" where
  "str_bytes s = map word_of_int s"

definition rewriteSgr :: "byte list \<Rightarrow> byte list" where
  "rewriteSgr params =
     (let filtered = rewriteSgrParts (split_on 59 (bytes_str params)) in
      if filtered \<noteq> [] then str_bytes ([27, 91] @ join [59] filtered @ [109]) else [])"

definition reverseVideoStep :: "(unit, byte, byte) scan_step" where
  "reverseVideoStep u bs =
     (if hd bs \<noteq> 0x1b then Some ([hd bs], 1, u)
      else (case tl bs of
          [] \<Rightarrow> None
        | b # r \<Rightarrow>
            if b \<noteq> 0x5b then Some ([hd bs], 1, u)
            else (let params = takeWhile (\<lambda>c. \<not> is_final c) r in
              case dropWhile (\<lambda>c. \<not> is_final c) r of
                [] \<Rightarrow> None
              | f # _ \<Rightarrow>
                  if f \<noteq> 0x6d then Some (take (3 + length params) bs, 3 + length params, u)
                  else Some (rewriteSgr params, 3 + length params, u))))"

definition filterReverseVideoForDisplay ::
  "byte list \<times> unit \<Rightarrow> byte list \<Rightarrow> byte list \<times> byte list \<times> unit" where
  "filterReverseVideoForDisplay st bytes = feed_scan reverseVideoStep st bytes"

section \<open>Removed sequences\<close>

definition synchronizedUpdateSeqBytePatterns :: "byte list list" where
  "synchronizedUpdateSeqBytePatterns = [27 # asciiBytes ''[?2026h'', 27 # asciiBytes ''[?2026l'']"

definition eraseScrollbackSeqBytePatterns :: "byte list list" where
  "eraseScrollbackSeqBytePatterns = [27 # asciiBytes ''[3J'']"

definition carryLength :: "byte list list \<Rightarrow> nat" where
  "carryLength ps = fold max (map length ps) 0 - 1"

text \<open>
  The loop body that \<open>filterSynchronizedUpdateForDisplay\<close> and \<open>filterEraseScrollbackForDisplay\<close>
  share: a pattern is skipped, a possible prefix within \<open>carryLength\<close> of the end is carried.
\<close>

definition dropSeqStep :: "byte list list \<Rightarrow> (unit, byte, byte) scan_step" where
  "dropSeqStep ps u bs =
     (case List.find (bytesStartWith bs) ps of
        Some seq \<Rightarrow> Some ([], length seq, u)
      | None \<Rightarrow>
          if length bs \<le> carryLength ps \<and> isPossiblePrefix bs ps then None
          else Some ([hd bs], 1, u))"

definition filterSynchronizedUpdateForDisplay ::
  "byte list \<times> unit \<Rightarrow> byte list \<Rightarrow> byte list \<times> byte list \<times> unit" where
  "filterSynchronizedUpdateForDisplay st bytes =
     feed_scan (dropSeqStep synchronizedUpdateSeqBytePatterns) st bytes"

definition filterEraseScrollbackForDisplay ::
  "bool \<Rightarrow> byte list \<times> unit \<Rightarrow> byte list \<Rightarrow> byte list \<times> byte list \<times> unit" where
  "filterEraseScrollbackForDisplay isCodex st bytes =
     (if \<not> isCodex then (bytes, st)
      else feed_scan (dropSeqStep eraseScrollbackSeqBytePatterns) st bytes)"

section \<open>Bare carriage return\<close>

definition bareCrStep :: "(unit, byte, byte) scan_step" where
  "bareCrStep u bs =
     (if hd bs = 0x0d then
        (case tl bs of
           [] \<Rightarrow> None
         | b # _ \<Rightarrow> Some (if b \<noteq> 0x0a then hd bs # 27 # asciiBytes ''[K'' else [hd bs], 1, u))
      else Some ([hd bs], 1, u))"

definition filterBareCarriageReturnForDisplay ::
  "byte list \<times> unit \<Rightarrow> byte list \<Rightarrow> byte list \<times> byte list \<times> unit" where
  "filterBareCarriageReturnForDisplay st bytes = feed_scan bareCrStep st bytes"

section \<open>Screen-clear detection\<close>

definition screenClearSeqBytePatterns :: "byte list list" where
  "screenClearSeqBytePatterns =
     [27 # asciiBytes ''[2J'', 27 # asciiBytes ''[3J'', 27 # asciiBytes ''[H'',
      27 # asciiBytes ''[0;0H'', 27 # asciiBytes ''[1;1H'', altScreenEnterSeq, altScreenExitSeq]"

fun anyPatternIn :: "byte list \<Rightarrow> byte list list \<Rightarrow> bool" where
  "anyPatternIn [] ps = False"
| "anyPatternIn (b # bs) ps =
     (if list_ex (bytesStartWith (b # bs)) ps then True else anyPatternIn bs ps)"

text \<open>Returns whether a sequence was found, and the new carry.\<close>

definition detectScreenClearSeqForAutoScroll :: "byte list \<Rightarrow> byte list \<Rightarrow> bool \<times> byte list" where
  "detectScreenClearSeqForAutoScroll carry bytes =
     (if bytes = [] then (False, carry)
      else (let combined = carry @ bytes in
        (anyPatternIn combined screenClearSeqBytePatterns,
         drop (length combined - carryLength screenClearSeqBytePatterns) combined)))"

section \<open>writePTYChunk\<close>

record displayState =
  hubFilter :: "byte list \<times> hubState"
  reverseVideoFilter :: "byte list \<times> unit"
  eraseScrollbackFilter :: "byte list \<times> unit"
  cursorHideFilter :: "byte list \<times> cursorHideState"
  crFilter :: "byte list \<times> unit"
  synchronizedUpdateFilter :: "byte list \<times> unit"
  screenClearSeqCarry :: "byte list"

definition displayInit :: displayState where
  "displayInit = \<lparr>hubFilter = ([], hubInit), reverseVideoFilter = ([], ()),
     eraseScrollbackFilter = ([], ()), cursorHideFilter = ([], cursorHideInit),
     crFilter = ([], ()), synchronizedUpdateFilter = ([], ()), screenClearSeqCarry = []\<rparr>"

text \<open>What the wrapper of the cursor-hide filter knows: the debugging bypass and the provider.\<close>

datatype provider = Codex | Grok | OtherProvider

definition filterCursorHideShowBlocksForDisplay ::
  "bool \<Rightarrow> provider \<Rightarrow> byte list \<times> cursorHideState \<Rightarrow> byte list
     \<Rightarrow> byte list \<times> chItem list \<times> byte list \<times> cursorHideState" where
  "filterCursorHideShowBlocksForDisplay bypass p st bytes =
     (if bypass then (bytes, [], [], chReset False (snd st))
      else if p = Grok then (bytes, [], st)
      else (let (items, st') = filterCursorHideBlocksPure st bytes in
        (chOut items,
         filter (\<lambda>e. evKind e = FilterDiscard \<or> evKind e = PassAlt) (chEvents items), st')))"

text \<open>
  The result: the bytes for the terminal widget (nothing is written when there are none), the
  frames for the live-status line, and whether the viewport snaps to the bottom afterwards.
\<close>

definition writePTYChunk ::
  "bool \<Rightarrow> provider \<Rightarrow> displayState \<Rightarrow> byte list
     \<Rightarrow> byte list \<times> chItem list \<times> bool \<times> displayState" where
  "writePTYChunk bypass p t bytes =
     (let (hasClear, clearCarry) = detectScreenClearSeqForAutoScroll (screenClearSeqCarry t) bytes;
          (b1, s1) = filterHubMarkersPure (hubFilter t) bytes;
          (b2, s2) = filterReverseVideoForDisplay (reverseVideoFilter t) b1;
          (b3, s3) = filterEraseScrollbackForDisplay (p = Codex) (eraseScrollbackFilter t) b2;
          (b4, evs, s4) = filterCursorHideShowBlocksForDisplay bypass p (cursorHideFilter t) b3;
          (b5, s5) = filterBareCarriageReturnForDisplay (crFilter t) b4;
          (b6, s6) = filterSynchronizedUpdateForDisplay (synchronizedUpdateFilter t) b5
      in (b6, evs, hasClear,
          \<lparr>hubFilter = s1, reverseVideoFilter = s2, eraseScrollbackFilter = s3,
           cursorHideFilter = s4, crFilter = s5, synchronizedUpdateFilter = s6,
           screenClearSeqCarry = clearCarry\<rparr>))"

section \<open>Each filter is a stable scan\<close>

lemma dropWhile_more:
  "dropWhile P xs = y # ys \<Longrightarrow> dropWhile P (xs @ zs) = y # ys @ zs \<and> takeWhile P (xs @ zs) = takeWhile P xs"
  by (induction xs) (auto split: if_splits)

lemma dropWhile_length: "dropWhile P xs = y # ys \<Longrightarrow> length (takeWhile P xs) < length xs"
  by (induction xs) (auto split: if_splits)

interpretation reverse_video: stable_scan reverseVideoStep
proof
  fix xs ys :: "byte list" and u r and out :: "byte list" and n and u' :: unit
  assume ne: "xs \<noteq> []"
  obtain b bs where xs: "xs = b # bs" using ne by (cases xs) auto
  show "reverseVideoStep u xs = Some (out, n, u') \<Longrightarrow> 0 < n \<and> n \<le> length xs"
    by (auto simp: reverseVideoStep_def xs Let_def dest!: dropWhile_length split: if_splits list.splits)
  assume st: "reverseVideoStep u xs = Some r"
  show "reverseVideoStep u (xs @ ys) = Some r"
  proof (cases bs)
    case (Cons c cs)
    show ?thesis
    proof (cases "dropWhile (\<lambda>c. \<not> is_final c) cs")
      case Nil
      with st show ?thesis
        by (simp add: reverseVideoStep_def xs Cons Let_def del: dropWhile_eq_Nil_conv split: if_splits)
    next
      case (Cons f fs)
      note more = dropWhile_more [OF this, of ys] dropWhile_length [OF this]
      have "take (3 + length (takeWhile (\<lambda>c. \<not> is_final c) cs)) (b # c # cs @ ys)
          = take (3 + length (takeWhile (\<lambda>c. \<not> is_final c) cs)) (b # c # cs)"
        using more(2) by (simp add: numeral_3_eq_3)
      with st Cons \<open>bs = c # cs\<close> more show ?thesis
        by (auto simp: reverseVideoStep_def xs Let_def split: if_splits)
    qed
  qed (use st in \<open>simp add: reverseVideoStep_def xs split: if_splits\<close>)
qed

lemma find_start: "List.find (bytesStartWith bs) ps = Some q \<Longrightarrow> q \<in> set ps \<and> bytesStartWith bs q"
  by (auto simp: find_Some_iff)

lemma fold_max_ge: "m \<le> fold max ns m" for m :: nat
proof (induction ns arbitrary: m)
  case (Cons n ns)
  from Cons.IH [of "max n m"] show ?case by simp
qed simp

lemma fold_max_le: "n \<in> set ns \<Longrightarrow> n \<le> fold max ns m" for m :: nat
proof (induction ns arbitrary: m)
  case (Cons k ns)
  with fold_max_ge [of "max k m" ns] show ?case by auto
qed simp

text \<open>
  A possible prefix is shorter than its pattern, so the guard on the distance to the end of the
  chunk never decides.
\<close>

lemma carryLength_guard: "isPossiblePrefix bs ps \<Longrightarrow> length bs \<le> carryLength ps"
proof -
  assume "isPossiblePrefix bs ps"
  then obtain p where "p \<in> set ps" "length bs < length p"
    using isPossiblePrefix_length by blast
  moreover have "length p \<le> fold max (map length ps) 0"
    using \<open>p \<in> set ps\<close> by (intro fold_max_le) auto
  ultimately show ?thesis by (simp add: carryLength_def)
qed

text \<open>
  Patterns of which none starts another are found at once or ruled out for good.
\<close>

lemma dropSeq_stable_scan:
  assumes "[] \<notin> set ps"
    and unique: "\<And>p q. p \<in> set ps \<Longrightarrow> q \<in> set ps \<Longrightarrow> prefix p q \<Longrightarrow> p = q"
  shows "stable_scan (dropSeqStep ps)"
proof
  fix xs ys :: "byte list" and u r and out :: "byte list" and n and u' :: unit
  assume ne: "xs \<noteq> []"
  show "dropSeqStep ps u xs = Some (out, n, u') \<Longrightarrow> 0 < n \<and> n \<le> length xs"
    using ne assms(1)
    by (cases "List.find (bytesStartWith xs) ps")
       (auto simp: dropSeqStep_def Suc_le_eq dest: find_start bytesStartWith_length split: if_splits)
  assume st: "dropSeqStep ps u xs = Some r"
  show "dropSeqStep ps u (xs @ ys) = Some r"
  proof (cases "List.find (bytesStartWith xs) ps")
    case (Some q)
    have q: "q \<in> set ps" "bytesStartWith xs q" using find_start [OF Some] by auto
    have "List.find (bytesStartWith (xs @ ys)) ps \<noteq> None"
      using q bytesStartWith_append [OF q(2)] by (auto simp: find_None_iff)
    then obtain q' where q': "List.find (bytesStartWith (xs @ ys)) ps = Some q'" by auto
    have "prefix q (xs @ ys)" "prefix q' (xs @ ys)"
      using bytesStartWith_append [OF q(2), of ys] find_start [OF q']
      by (auto simp: bytesStartWith_def starts_with_iff)
    then have "prefix q q' \<or> prefix q' q" by (rule prefix_same_cases)
    then have "q' = q" using unique q(1) find_start [OF q'] by metis
    with st Some q' show ?thesis by (simp add: dropSeqStep_def)
  next
    case None
    then have n: "\<not> isPossiblePrefix xs ps"
      using st carryLength_guard by (auto simp: dropSeqStep_def split: if_splits)
    have "\<not> bytesStartWith (xs @ ys) p" if "p \<in> set ps" for p
      using no_pattern_later [OF _ n that] None that by (auto simp: find_None_iff)
    then have "List.find (bytesStartWith (xs @ ys)) ps = None" by (auto simp: find_None_iff)
    with st None n ne no_prefix_later [OF n] show ?thesis
      by (auto simp: dropSeqStep_def)
  qed
qed

interpretation sync_update: stable_scan "dropSeqStep synchronizedUpdateSeqBytePatterns"
  by (rule dropSeq_stable_scan) (auto simp: synchronizedUpdateSeqBytePatterns_def asciiBytes_def)

interpretation erase_scrollback: stable_scan "dropSeqStep eraseScrollbackSeqBytePatterns"
  by (rule dropSeq_stable_scan) (auto simp: eraseScrollbackSeqBytePatterns_def asciiBytes_def)

interpretation bare_cr: stable_scan bareCrStep
proof
  fix xs ys :: "byte list" and u r and out :: "byte list" and n and u' :: unit
  assume ne: "xs \<noteq> []"
  obtain b bs where xs: "xs = b # bs" using ne by (cases xs) auto
  show "bareCrStep u xs = Some (out, n, u') \<Longrightarrow> 0 < n \<and> n \<le> length xs"
    by (auto simp: bareCrStep_def xs split: if_splits list.splits)
  show "bareCrStep u xs = Some r \<Longrightarrow> bareCrStep u (xs @ ys) = Some r"
    by (auto simp: bareCrStep_def xs split: if_splits list.splits)
qed

lemma filter_scans:
  "filterHubMarkersPure = feed_scan hubStep"
  "filterReverseVideoForDisplay = feed_scan reverseVideoStep"
  "filterBareCarriageReturnForDisplay = feed_scan bareCrStep"
  "filterSynchronizedUpdateForDisplay = feed_scan (dropSeqStep synchronizedUpdateSeqBytePatterns)"
  by (simp_all add: fun_eq_iff filterHubMarkersPure_def filterReverseVideoForDisplay_def
      filterBareCarriageReturnForDisplay_def filterSynchronizedUpdateForDisplay_def)

section \<open>The pipeline without the cursor-hide stage\<close>

definition erase_settled :: "bool \<Rightarrow> byte list \<times> unit \<Rightarrow> bool" where
  "erase_settled isCodex st \<longleftrightarrow> (isCodex \<longrightarrow> erase_scrollback.settled st)"

interpretation erase_stage: chunk_filter "filterEraseScrollbackForDisplay isCodex" "erase_settled isCodex"
  for isCodex
proof (cases isCodex)
  case True
  then have "filterEraseScrollbackForDisplay isCodex
      = feed_scan (dropSeqStep eraseScrollbackSeqBytePatterns)"
    and "erase_settled isCodex = erase_scrollback.settled"
    by (auto simp: fun_eq_iff filterEraseScrollbackForDisplay_def erase_settled_def)
  then show "chunk_filter (filterEraseScrollbackForDisplay isCodex) (erase_settled isCodex)"
    using erase_scrollback.chunked.chunk_filter_axioms by simp
next
  case False
  then show "chunk_filter (filterEraseScrollbackForDisplay isCodex) (erase_settled isCodex)"
    by unfold_locales (auto simp: filterEraseScrollbackForDisplay_def erase_settled_def)
qed

interpretation cr_sync: filter_pipe "feed_scan bareCrStep" bare_cr.settled
  "feed_scan (dropSeqStep synchronizedUpdateSeqBytePatterns)" sync_update.settled ..

interpretation erase_cr_sync: filter_pipe "filterEraseScrollbackForDisplay isCodex" "erase_settled isCodex"
  "pipe (feed_scan bareCrStep) (feed_scan (dropSeqStep synchronizedUpdateSeqBytePatterns))"
  "\<lambda>st. bare_cr.settled (fst st) \<and> sync_update.settled (snd st)"
  for isCodex ..

interpretation rv_tail: filter_pipe "feed_scan reverseVideoStep" reverse_video.settled
  "pipe (filterEraseScrollbackForDisplay isCodex)
     (pipe (feed_scan bareCrStep) (feed_scan (dropSeqStep synchronizedUpdateSeqBytePatterns)))"
  "\<lambda>st. erase_settled isCodex (fst st)
     \<and> bare_cr.settled (fst (snd st)) \<and> sync_update.settled (snd (snd st))"
  for isCodex ..

interpretation hub_tail: filter_pipe "feed_scan hubStep" hub_scan.settled
  "pipe (feed_scan reverseVideoStep) (pipe (filterEraseScrollbackForDisplay isCodex)
     (pipe (feed_scan bareCrStep) (feed_scan (dropSeqStep synchronizedUpdateSeqBytePatterns))))"
  "\<lambda>st. reverse_video.settled (fst st) \<and> erase_settled isCodex (fst (snd st))
     \<and> bare_cr.settled (fst (snd (snd st))) \<and> sync_update.settled (snd (snd (snd st)))"
  for isCodex ..

text \<open>The chain of stages as one filter, and the part of the terminal's state it works on.\<close>

definition plainPipe where
  "plainPipe isCodex = pipe (feed_scan hubStep) (pipe (feed_scan reverseVideoStep)
     (pipe (filterEraseScrollbackForDisplay isCodex)
       (pipe (feed_scan bareCrStep) (feed_scan (dropSeqStep synchronizedUpdateSeqBytePatterns)))))"

definition plainState where
  "plainState t = (hubFilter t, reverseVideoFilter t, eraseScrollbackFilter t, crFilter t,
     synchronizedUpdateFilter t)"

text \<open>Several chunks one after the other: everything written.\<close>

fun writePTYChunks ::
  "bool \<Rightarrow> provider \<Rightarrow> displayState \<Rightarrow> byte list list \<Rightarrow> byte list \<times> bool list \<times> displayState" where
  "writePTYChunks bypass p t [] = ([], [], t)"
| "writePTYChunks bypass p t (c # cs) =
     (let (out, evs, clear, t') = writePTYChunk bypass p t c;
          (out', clears, t'') = writePTYChunks bypass p t' cs
      in (out @ out', clear # clears, t''))"

lemma writePTYChunk_plain:
  assumes "bypass \<or> p = Grok" "writePTYChunk bypass p t c = (out, evs, clear, t')"
  shows "plainPipe (p = Codex) (plainState t) c = (out, plainState t')"
  using assms
  by (auto simp: writePTYChunk_def plainPipe_def plainState_def pipe_def filter_scans
      filterCursorHideShowBlocksForDisplay_def split: prod.splits if_splits)

lemma writePTYChunks_plain:
  assumes "bypass \<or> p = Grok"
  shows "writePTYChunks bypass p t cs = (out, clears, t') \<Longrightarrow>
    feed_chunks (plainPipe (p = Codex)) (plainState t) cs = (out, plainState t')"
proof (induction cs arbitrary: t out clears)
  case (Cons c cs)
  obtain o1 evs cl t1 where 1: "writePTYChunk bypass p t c = (o1, evs, cl, t1)"
    by (cases "writePTYChunk bypass p t c")
  obtain o2 cls t2 where 2: "writePTYChunks bypass p t1 cs = (o2, cls, t2)"
    by (cases "writePTYChunks bypass p t1 cs")
  from Cons.prems 1 2 have r: "out = o1 @ o2" "t' = t2" by simp_all
  with Cons.IH [OF 2 [folded r(2)]] writePTYChunk_plain [OF assms 1] show ?case by simp
qed simp

lemma plainState_init_settled:
  "hub_scan.settled (fst (plainState displayInit)) \<and> reverse_video.settled (fst (snd (plainState displayInit)))
   \<and> erase_settled c (fst (snd (snd (plainState displayInit))))
   \<and> bare_cr.settled (fst (snd (snd (snd (plainState displayInit)))))
   \<and> sync_update.settled (snd (snd (snd (snd (plainState displayInit)))))"
  by (simp add: plainState_def displayInit_def hub_scan.settled_def reverse_video.settled_def
      erase_settled_def erase_scrollback.settled_def bare_cr.settled_def sync_update.settled_def)

section \<open>Detection over a stream\<close>

definition streamHas :: "byte list \<Rightarrow> bool" where
  "streamHas bs \<longleftrightarrow> (\<exists>p \<in> set screenClearSeqBytePatterns. str_includes bs p)"

lemma anyPatternIn_iff: "[] \<notin> set ps \<Longrightarrow> anyPatternIn bs ps \<longleftrightarrow> (\<exists>p \<in> set ps. str_includes bs p)"
proof (induction bs ps rule: anyPatternIn.induct)
  case (1 ps)
  then show ?case by (auto simp: includes_iff)
next
  case (2 b bs ps)
  have "list_ex (bytesStartWith (b # bs)) ps \<longleftrightarrow> (\<exists>p \<in> set ps. starts_with p (b # bs))"
    by (auto simp: list_ex_iff bytesStartWith_def)
  with 2 show ?case by auto
qed

fun detectAll :: "byte list \<Rightarrow> byte list list \<Rightarrow> bool list" where
  "detectAll carry [] = []"
| "detectAll carry (c # cs) =
     (let (found, carry') = detectScreenClearSeqForAutoScroll carry c in found # detectAll carry' cs)"

lemma screenClear_patterns:
  "[] \<notin> set screenClearSeqBytePatterns" "carryLength screenClearSeqBytePatterns = 7"
  "p \<in> set screenClearSeqBytePatterns \<Longrightarrow> length p \<le> 8"
  by (auto simp: screenClearSeqBytePatterns_def asciiBytes_def carryLength_def cursor_seqs)

lemma streamHas_append: "streamHas xs \<Longrightarrow> streamHas (xs @ ys)"
proof -
  have "sublist p (xs @ ys)" if "sublist p xs" for p
    using that sublist_append_rightI [of xs ys] by (rule sublist_order.order_trans)
  then show "streamHas xs \<Longrightarrow> streamHas (xs @ ys)"
    by (auto simp: streamHas_def includes_iff)
qed

lemma detectAll_iff:
  assumes "carry = drop (length pre - 7) pre" "\<not> streamHas pre"
  shows "True \<in> set (detectAll carry cs) \<longleftrightarrow> streamHas (pre @ concat cs)"
  using assms
proof (induction cs arbitrary: carry pre)
  case Nil
  then show ?case by simp
next
  case (Cons c cs)
  let ?comb = "carry @ c"
  show ?case
  proof (cases "c = []")
    case True
    with Cons show ?thesis by (simp add: detectScreenClearSeqForAutoScroll_def)
  next
    case False
    have found: "anyPatternIn ?comb screenClearSeqBytePatterns \<longleftrightarrow> streamHas (pre @ c)"
    proof -
      have "str_includes ?comb p \<longleftrightarrow> str_includes (pre @ c) p"
        if p: "p \<in> set screenClearSeqBytePatterns" for p
      proof
        assume "str_includes (pre @ c) p"
        moreover have "\<not> str_includes pre p" using Cons.prems(2) p by (auto simp: streamHas_def)
        ultimately show "str_includes ?comb p"
          using sublist_tail [of p pre c 7] screenClear_patterns(3) [OF p] Cons.prems(1)
          by (simp add: includes_iff)
      next
        assume "str_includes ?comb p"
        moreover have "sublist ?comb (pre @ c)"
        proof -
          have "pre @ c = take (length pre - 7) pre @ ?comb"
            unfolding Cons.prems(1) by (simp add: append_assoc [symmetric] del: append_assoc)
          then show ?thesis by (metis sublist_append_leftI)
        qed
        ultimately show "str_includes (pre @ c) p"
          by (auto simp: includes_iff intro: sublist_order.order_trans)
      qed
      then show ?thesis
        using anyPatternIn_iff [OF screenClear_patterns(1)] by (auto simp: streamHas_def)
    qed
    have carry: "drop (length ?comb - 7) ?comb = drop (length (pre @ c) - 7) (pre @ c)"
      unfolding Cons.prems(1) by (cases "7 \<le> length pre") (auto simp: drop_append add.commute)
    show ?thesis
    proof (cases "streamHas (pre @ c)")
      case True
      then have "streamHas (pre @ c @ concat cs)"
        using streamHas_append [of "pre @ c" "concat cs"] by simp
      with True found False show ?thesis
        by (simp add: detectScreenClearSeqForAutoScroll_def Let_def)
    next
      case nf: False
      from Cons.IH [OF carry nf] nf found False screenClear_patterns(2) show ?thesis
        by (simp add: detectScreenClearSeqForAutoScroll_def Let_def)
    qed
  qed
qed

section \<open>Reverse video, parameter by parameter\<close>

lemma split_on_Cons_sep [simp]: "split_on d (d # s) = [] # split_on d s"
  by simp

lemma str_bytes_append [simp]: "str_bytes (s @ t) = str_bytes s @ str_bytes t"
  by (simp add: str_bytes_def)

lemma str_bytes_bytes_str [simp]: "str_bytes (bytes_str bs) = bs"
  by (simp add: str_bytes_def bytes_str_def comp_def)

lemma scan_sgr:
  assumes "list_all (\<lambda>c. \<not> is_final c) params"
  shows "scan reverseVideoStep u (27 # 91 # params @ [109]) = (rewriteSgr params, u, [])"
proof -
  have f: "is_final 109" by (simp add: is_final_def)
  have d: "dropWhile (\<lambda>c. \<not> is_final c) (params @ [109]) = [109]"
    and t: "takeWhile (\<lambda>c. \<not> is_final c) (params @ [109]) = params"
    using assms f by (auto simp: list_all_iff dropWhile_append2 takeWhile_append2)
  have "reverseVideoStep u (27 # 91 # params @ [109])
      = Some (rewriteSgr params, 3 + length params, u)"
    using t d by (simp add: reverseVideoStep_def Let_def)
  then show ?thesis by (simp add: max_def)
qed

lemma rewriteSgr_same:
  assumes "js ''7'' \<notin> set (split_on 59 (bytes_str params))"
    and "js ''27'' \<notin> set (split_on 59 (bytes_str params))"
  shows "rewriteSgr params = 27 # 91 # params @ [109]"
proof -
  let ?ps = "split_on 59 (bytes_str params)"
  have "rewriteSgrParts ?ps = ?ps"
    using assms by (auto simp: rewriteSgrParts_def intro: filter_True)
  then have "rewriteSgr params = str_bytes ([27, 91] @ bytes_str params @ [109])"
    by (simp add: rewriteSgr_def join_split_on)
  also have "\<dots> = 27 # 91 # params @ [109]"
    by (simp add: str_bytes_def [of "[109]"]) (simp add: str_bytes_def bytes_str_def comp_def)
  finally show ?thesis .
qed

section \<open>Bare carriage returns\<close>

lemma bareCrStep_other: "b \<noteq> 0x0d \<Longrightarrow> bareCrStep u (b # bs) = Some ([b], 1, u)"
  by (simp add: bareCrStep_def)

lemma bareCrStep_cr:
  "bareCrStep u [0x0d] = None"
  "bareCrStep u (0x0d # d # ds) =
     Some (if d \<noteq> 0x0a then [13, 27, 91, 75] else [13], 1, u)"
  by (simp_all add: bareCrStep_def asciiBytes_def)

definition crGuarded :: "byte list \<Rightarrow> bool" where
  "crGuarded out \<longleftrightarrow> (\<forall>u v. out = u @ 0x0d # v \<longrightarrow>
     (\<exists>w. v = 0x0a # w) \<or> (\<exists>w. v = 27 # 91 # 75 # w))"

lemma crGuarded_Nil [simp]: "crGuarded []"
  by (simp add: crGuarded_def)

lemma crGuarded_Cons:
  "crGuarded (b # out) \<longleftrightarrow>
     (b = 0x0d \<longrightarrow> (\<exists>w. out = 0x0a # w) \<or> (\<exists>w. out = 27 # 91 # 75 # w)) \<and> crGuarded out"
  unfolding crGuarded_def
proof (intro iffI conjI allI impI, goal_cases)
  case 1
  then show ?case by (metis append_Nil)
next
  case (2 u v)
  then show ?case by (metis append_Cons)
next
  case (3 u v)
  then show ?case by (cases u) auto
qed

lemma scan_bare_cr:
  "scan bareCrStep u bs = (out, u', c) \<Longrightarrow>
     crGuarded out \<and> (\<forall>b r. bs = b # r \<longrightarrow> b \<noteq> 0x0d \<longrightarrow> (\<exists>o'. out = b # o'))"
proof (induction bs arbitrary: u out)
  case (Cons b bs)
  show ?case
  proof (cases "b = 0x0d")
    case False
    with Cons.prems obtain o2 where "scan bareCrStep u bs = (o2, u', c)" "out = b # o2"
      by (auto simp: bareCrStep_other split: prod.splits)
    with Cons.IH False show ?thesis by (auto simp: crGuarded_Cons)
  next
    case True
    show ?thesis
    proof (cases bs)
      case Nil
      with True Cons.prems show ?thesis by (auto simp: bareCrStep_cr)
    next
      case (Cons d ds)
      obtain o2 where o2: "scan bareCrStep u (d # ds) = (o2, u', c)"
          "out = (if d \<noteq> 0x0a then [13, 27, 91, 75] else [13]) @ o2"
        using Cons.prems True \<open>bs = d # ds\<close>
        by (subst (asm) scan.simps(2)) (auto simp: bareCrStep_cr split: prod.splits)
      with Cons.IH [of u o2] \<open>bs = d # ds\<close> True show ?thesis
        by (auto simp: crGuarded_Cons split: if_splits)
    qed
  qed
qed simp

section \<open>Properties\<close>

text \<open>
  C37: With the cursor-hide stage bypassed, as it always is for Grok sessions, what the terminal
  displays does not depend on how the PTY stream is cut into chunks: all five other stages of
  \<open>writePTYChunk\<close> carry exactly what they must.
\<close>

theorem display_chunking:
  assumes "bypass \<or> p = Grok" "concat cs = concat ds"
  shows "fst (writePTYChunks bypass p displayInit cs) = fst (writePTYChunks bypass p displayInit ds)"
proof -
  obtain o1 c1 t1 where 1: "writePTYChunks bypass p displayInit cs = (o1, c1, t1)"
    by (cases "writePTYChunks bypass p displayInit cs")
  obtain o2 c2 t2 where 2: "writePTYChunks bypass p displayInit ds = (o2, c2, t2)"
    by (cases "writePTYChunks bypass p displayInit ds")
  have "feed_chunks (plainPipe (p = Codex)) (plainState displayInit) cs
      = feed_chunks (plainPipe (p = Codex)) (plainState displayInit) ds"
    unfolding plainPipe_def
    by (rule hub_tail.piped.chunks_irrelevant [OF _ assms(2)]) (use plainState_init_settled in auto)
  with writePTYChunks_plain [OF assms(1) 1] writePTYChunks_plain [OF assms(1) 2] 1 2 show ?thesis
    by simp
qed

lemma display_chunking_witness:
  "fst (writePTYChunks False Grok displayInit [[27, 91], [55, 109, 13], [65]])
     = fst (writePTYChunks False Grok displayInit [[27, 91, 55, 109, 13, 65]])"
  by (rule display_chunking) simp_all

text \<open>
  A screen-clear sequence is noticed exactly when the stream holds one, however it is cut:
  the seven bytes carried from chunk to chunk are enough.
\<close>

theorem screen_clear_detection:
  "True \<in> set (detectAll [] cs) \<longleftrightarrow>
     (\<exists>p \<in> set screenClearSeqBytePatterns. str_includes (concat cs) p)"
proof -
  have "\<not> streamHas []"
    using screenClear_patterns(1) by (auto simp: streamHas_def includes_iff)
  with detectAll_iff [of "[]" "[]" cs] show ?thesis by (simp add: streamHas_def)
qed

text \<open>
  A colour sequence with neither parameter 7 nor 27 passes byte for byte; any other leaves
  without those parameters and with the rest in order, followed by the replacement colours.
\<close>

theorem reverse_video_rewrite:
  assumes "list_all (\<lambda>c. \<not> is_final c) params"
    and "parts = split_on 59 (bytes_str params)"
  shows "filterReverseVideoForDisplay ([], ()) (27 # 91 # params @ [109]) = (rewriteSgr params, [], ())
    \<and> (js ''7'' \<notin> set parts \<and> js ''27'' \<notin> set parts \<longrightarrow> rewriteSgr params = 27 # 91 # params @ [109])
    \<and> js ''7'' \<notin> set (rewriteSgrParts parts) \<and> js ''27'' \<notin> set (rewriteSgrParts parts)"
proof (intro conjI impI)
  show "filterReverseVideoForDisplay ([], ()) (27 # 91 # params @ [109]) = (rewriteSgr params, [], ())"
    using scan_sgr [OF assms(1)] by (simp add: filterReverseVideoForDisplay_def feed_scan_def)
  show "js ''7'' \<notin> set parts \<and> js ''27'' \<notin> set parts \<Longrightarrow> rewriteSgr params = 27 # 91 # params @ [109]"
    unfolding assms(2) by (simp add: rewriteSgr_same)
  show "js ''7'' \<notin> set (rewriteSgrParts parts)" "js ''27'' \<notin> set (rewriteSgrParts parts)"
    by (auto simp: rewriteSgrParts_def js_def)
qed

lemma reverse_video_rewrite_witness:
  "filterReverseVideoForDisplay ([], ()) [27, 91, 49, 109] = ([27, 91, 49, 109], [], ())"
proof -
  have "list_all (\<lambda>c. \<not> is_final c) [49]" by (simp add: is_final_def)
  from reverse_video_rewrite [OF this refl] show ?thesis
    by (simp add: bytes_str_def js_def)
qed

text \<open>
  The parameters are compared without regard to their position, so the palette index 7 of a
  256-colour sequence is taken for reverse video: \<open>ESC [ 38;5;7 m\<close> (foreground 7) becomes
  \<open>ESC [ 38;5;48;5;238 m\<close>, which selects foreground 48.
\<close>

theorem reverse_video_breaks_palette:
  "fst (filterReverseVideoForDisplay ([], ()) (27 # asciiBytes ''[38;5;7m''))
     = 27 # asciiBytes ''[38;5;48;5;238m''"
  by code_simp

text \<open>
  After the carriage-return stage every carriage return is followed by a line feed or by
  erase-to-end-of-line, over any chunks.
\<close>

theorem bare_cr_guarded:
  "crGuarded (fst (feed_chunks filterBareCarriageReturnForDisplay ([], ()) cs))"
proof -
  have "bare_cr.settled ([], ())" by (simp add: bare_cr.settled_def)
  then have "feed_chunks filterBareCarriageReturnForDisplay ([], ()) cs
      = filterBareCarriageReturnForDisplay ([], ()) (concat cs)"
    using bare_cr.chunked.chunks_eq by (simp add: filter_scans)
  then show ?thesis
    using scan_bare_cr [of "()" "concat cs"]
    by (auto simp: filterBareCarriageReturnForDisplay_def feed_scan_def split: prod.splits)
qed

end
