(* ===== verification/LiveLine.thy ===== *)
theory LiveLine
  imports DisplayFilters
begin

text \<open>
  The text of the live-status line: \<open>reconstructLiveLine\<close> of \<open>src/web/src/app/terminal.ts\<close>, which
  replays the frames the cursor-hide filter discards on a virtual line of cells, and the
  provider-specific extractors of \<open>src/web/src/app/live-status.ts\<close>, which read rendered lines.
\<close>

section \<open>parseInt on arbitrary strings\<close>

text \<open>\<open>parseInt(s, 10)\<close>; \<open>None\<close> is \<open>NaN\<close>.\<close>

definition parseInt10 :: "jstr \<Rightarrow> int option" where
  "parseInt10 s =
     (let t = trimStart s;
          neg = (case t of [] \<Rightarrow> False | c # _ \<Rightarrow> c = 45);
          u = (case t of [] \<Rightarrow> [] | c # r \<Rightarrow> if c = 45 \<or> c = 43 then r else t);
          ds = takeWhile is_digit u in
      if ds = [] then None else Some (if neg then - parse_int ds else parse_int ds))"

text \<open>\<open>params ? (parseInt(params, 10) || d) : d\<close>.\<close>

definition paramOr :: "int \<Rightarrow> jstr \<Rightarrow> int" where
  "paramOr d params = (case parseInt10 params of None \<Rightarrow> d | Some n \<Rightarrow> if n = 0 then d else n)"

section \<open>The virtual line\<close>

text \<open>
  \<open>liveLineRow\<close> and the sparse array \<open>liveLineCells\<close>; a hole is \<open>None\<close>. Characters are code points
  (\<open>Array.from(s)\<close>).
\<close>

record liveLine =
  liveLineRow :: "int option"
  liveLineCells :: "int option list"

text \<open>
  \<open>cells[col] = ch\<close>: past the end the array grows with holes; a column that is no array index
  makes a property that is never read.
\<close>

definition setCell :: "int \<Rightarrow> int \<Rightarrow> int option list \<Rightarrow> int option list" where
  "setCell col ch cells =
     (if col < 0 \<or> 4294967295 \<le> col then cells
      else if nat col < length cells then cells[nat col := Some ch]
      else cells @ replicate (nat col - length cells) None @ [Some ch])"

text \<open>\<open>EL\<close> on the status row; shortening an array to a negative length is a \<open>RangeError\<close>.\<close>

definition eraseCells :: "int \<Rightarrow> int \<Rightarrow> int option list \<Rightarrow> int option list option" where
  "eraseCells mode col cells =
     (if mode = 0 then (if col < 0 then None else Some (take (nat col) cells))
      else if mode = 2 then Some []
      else if mode = 1 then
        (let n = min (nat col) (length cells - 1) in
         Some (take 1 cells @ replicate n (Some 32) @ drop (1 + n) cells))
      else Some cells)"

text \<open>\<open>/^(\d*);?(\d*)$/\<close>\<close>

definition CUP_PARAMS_RE :: rx where
  "CUP_PARAMS_RE = seqs [RBol, RGrp 1 (many digit), opt (chr 59), RGrp 2 (many digit), REol]"

definition cupParams :: "jstr \<Rightarrow> int \<times> int" where
  "cupParams params =
     (case exec False CUP_PARAMS_RE params of
        None \<Rightarrow> (1, 1)
      | Some m \<Rightarrow> (if grp m 1 \<noteq> [] then parse_int (grp m 1) else 1,
                   if grp m 2 \<noteq> [] then parse_int (grp m 2) else 1))"

definition liveCsi ::
  "int \<Rightarrow> jstr \<Rightarrow> int \<Rightarrow> int \<Rightarrow> liveLine \<Rightarrow> (int \<times> int \<times> liveLine) option" where
  "liveCsi fin params row col L =
     (if fin = 72 \<or> fin = 102 then (let (r, c) = cupParams params in Some (r, c, L))
      else if fin = 67 then Some (row, col + paramOr 1 params, L)
      else if fin = 68 then Some (row, max 1 (col - paramOr 1 params), L)
      else if fin = 71 then Some (row, paramOr 1 params, L)
      else if fin = 75 then
        (if liveLineRow L = Some row then
           map_option (\<lambda>cells. (row, col, L\<lparr>liveLineCells := cells\<rparr>))
             (eraseCells (paramOr 0 params) col (liveLineCells L))
         else Some (row, col, L))
      else Some (row, col, L))"

text \<open>Behind \<open>ESC ]\<close>: up to BEL or \<open>ESC \\<close>.\<close>

fun skipOsc :: "int list \<Rightarrow> int list" where
  "skipOsc [] = []"
| "skipOsc (c # cs) =
     (if c = 7 then cs
      else if c = 27 \<and> cs \<noteq> [] \<and> hd cs = 92 then tl cs
      else skipOsc cs)"

lemma skipOsc_length: "length (skipOsc cs) \<le> length cs"
  by (induction cs) auto

definition csi_final :: "int \<Rightarrow> bool" where
  "csi_final c \<longleftrightarrow> 64 \<le> c \<and> c \<le> 126"

definition putChar :: "int \<Rightarrow> int \<Rightarrow> int \<Rightarrow> liveLine \<Rightarrow> liveLine" where
  "putChar row col ch L =
     (let L' = (if liveLineRow L = Some row then L else \<lparr>liveLineRow = Some row, liveLineCells = []\<rparr>)
      in L'\<lparr>liveLineCells := setCell col ch (liveLineCells L')\<rparr>)"

lemma dropWhile_shorter: "dropWhile P xs = y # ys \<Longrightarrow> length ys < length xs"
  by (induction xs) (auto split: if_splits)

text \<open>
  The loop over the characters of a frame; \<open>None\<close> is an exception that leaves the function.
\<close>

function liveScan :: "int list \<Rightarrow> int \<Rightarrow> int \<Rightarrow> liveLine \<Rightarrow> liveLine option" where
  "liveScan [] row col L = Some L"
| "liveScan (ch # cs) row col L =
     (if ch = 27 then
        (case cs of
           [] \<Rightarrow> Some L
         | d # ds \<Rightarrow>
             if d = 91 then
               (case dropWhile (\<lambda>c. \<not> csi_final c) ds of
                  [] \<Rightarrow> Some L
                | f # r \<Rightarrow>
                    (case liveCsi f (takeWhile (\<lambda>c. \<not> csi_final c) ds) row col L of
                       None \<Rightarrow> None
                     | Some (row', col', L') \<Rightarrow> liveScan r row' col' L'))
             else if d = 93 then liveScan (skipOsc ds) row col L
             else liveScan ds row col L)
      else if ch = 13 then liveScan cs row 1 L
      else if ch = 10 then liveScan cs (row + 1) col L
      else if ch \<le> 31 \<or> ch = 127 then liveScan cs row col L
      else if liveLineRow L \<noteq> Some row \<and> ch = 32 then liveScan cs row (col + 1) L
      else liveScan cs row (col + 1) (putChar row col ch L))"
  by pat_completeness auto

termination
  by (relation "measure (\<lambda>(cs, row, col, L). length cs)")
     (auto dest: dropWhile_shorter simp: skipOsc_length le_imp_less_Suc le_SucI)

text \<open>
  \<open>reconstructLiveLine\<close>: \<open>isLN\<close> is the Unicode test \<open>/[\p{L}\p{N}]/u\<close> on a code point.
\<close>

definition liveText :: "(int \<Rightarrow> bool) \<Rightarrow> int option list \<Rightarrow> jstr" where
  "liveText isLN cells =
     (let out = trim (squash_ws (concat (map (\<lambda>c. case c of None \<Rightarrow> [32] | Some cp \<Rightarrow> units_of_cp cp)
                  (drop 1 cells)))) in
      if list_ex isLN (code_points out) then out else [])"

definition reconstructLiveLine ::
  "(int \<Rightarrow> bool) \<Rightarrow> liveLine \<Rightarrow> byte list \<Rightarrow> (jstr \<times> liveLine) option" where
  "reconstructLiveLine isLN L buf =
     (let row = (case liveLineRow L of None \<Rightarrow> 1 | Some r \<Rightarrow> r) in
      map_option (\<lambda>L'. (liveText isLN (liveLineCells L'), L'))
        (liveScan (drop_bom (u8decode u8start buf)) row 1 L))"

section \<open>Provider-specific extraction\<close>

definition compactLine :: "jstr \<Rightarrow> jstr" where
  "compactLine line = trim (squash_ws line)"

definition SPINNER_RE :: rx where
  "SPINNER_RE = seqs [RBol,
     RCls (CC False (map (\<lambda>c. CRange c c)
       [8226, 183, 9679, 9673, 9678, 9675, 9680, 9681, 9682, 9683, 9716, 9717, 9718, 9719]
       @ [CRange 10241 10495])), many wsCh]"

definition stripLeadingSpinner :: "jstr \<Rightarrow> jstr" where
  "stripLeadingSpinner line = trim (replace_first False SPINNER_RE (\<lambda>_. []) line)"

definition alnumRange :: "citem list" where
  "alnumRange = [CRange 65 90, CRange 97 122, CRange 48 57]"

text \<open>\<open>(?:Auto|[A-Za-z0-9._-]+)\<close> and \<open>[A-Za-z0-9._+:-]+\<close>\<close>

definition modelNameRe :: rx where
  "modelNameRe = RAlt (lit (js ''Auto''))
     (many1 (RCls (CC False (alnumRange @ [CRange 46 46, CRange 95 95, CRange 45 45]))))"

definition modelVersionRe :: rx where
  "modelVersionRe = many1 (RCls (CC False
     (alnumRange @ [CRange 46 46, CRange 95 95, CRange 43 43, CRange 58 58, CRange 45 45])))"

definition MODEL_ARROW_RE :: rx where
  "MODEL_ARROW_RE = seqs [RWordB, modelNameRe, many wsCh,
     alts [chr 8594, lit (js ''->''), chr 183], many wsCh, modelVersionRe,
     opt (seqs [many wsCh, chr 37])]"

definition MODEL_PERCENT_RE :: rx where
  "MODEL_PERCENT_RE = seqs [RWordB, modelNameRe, many wsCh, chr 183, many wsCh, many1 digit,
     opt (seqs [chr 46, many1 digit]), chr 37]"

text \<open>The lines from the start index down to the first one: the reversed prefix.\<close>

fun findLastModelUsage :: "jstr list \<Rightarrow> jstr" where
  "findLastModelUsage [] = []"
| "findLastModelUsage (l # ls) =
     (case exec False MODEL_ARROW_RE (compactLine l) of
        Some m \<Rightarrow> compactLine (m_text m)
      | None \<Rightarrow>
          (case exec False MODEL_PERCENT_RE (compactLine l) of
             Some m \<Rightarrow> compactLine (m_text m)
           | None \<Rightarrow> findLastModelUsage ls))"

definition WORKING_RE :: rx where
  "WORKING_RE = seqs [RBol, lit (js ''Working''), RWordB]"

definition CODEX_ACTION_RE :: rx where
  "CODEX_ACTION_RE = seqs [RBol, RGrp 1 (alts (map (\<lambda>w. lit (js w))
     [''Running'', ''Ran'', ''Reading'', ''Read'', ''Editing'', ''Edited'', ''Searching'', ''Thinking''])),
     RWordB]"

text \<open>The loops run from the last line to the first; \<open>action\<close> is their local variable.\<close>

fun codexStatus :: "jstr \<Rightarrow> jstr list \<Rightarrow> jstr" where
  "codexStatus action [] = action"
| "codexStatus action (l # ls) =
     (let stripped = stripLeadingSpinner (compactLine l) in
      if stripped = [] then codexStatus action ls
      else if test True WORKING_RE stripped then stripped
      else if action = [] \<and> test True CODEX_ACTION_RE stripped then codexStatus stripped ls
      else codexStatus action ls)"

definition extractCodexLiveStatusFromLines :: "jstr list \<Rightarrow> jstr" where
  "extractCodexLiveStatusFromLines lines = codexStatus [] (rev lines)"

definition COPILOT_WORKING_RE :: rx where
  "COPILOT_WORKING_RE = seqs [opt (anyOf [9679, 9673, 9678, 9675]), many wsCh, lit (js ''Working''),
     many1 wsCh, lit (js ''esc''), many1 wsCh, lit (js ''cancel''), RWordB]"

definition COPILOT_MODEL_TAIL_RE :: rx where
  "COPILOT_MODEL_TAIL_RE = seqs [many1 wsCh, modelNameRe, many wsCh,
     RAlt (chr 8594) (lit (js ''->'')), many wsCh, modelVersionRe, many dot, REol]"

fun copilotStatus :: "jstr list \<Rightarrow> jstr" where
  "copilotStatus [] = []"
| "copilotStatus (l # ls) =
     (let raw = compactLine l in
      if raw = [] then copilotStatus ls
      else (case exec True COPILOT_WORKING_RE raw of
          None \<Rightarrow> copilotStatus ls
        | Some m \<Rightarrow>
            (let status = trim (hd (split_on 10095 (stripLeadingSpinner (slice_from raw (m_index m)))));
                 model = findLastModelUsage (l # ls) in
             if model \<noteq> [] then
               trim (replace_first True COPILOT_MODEL_TAIL_RE (\<lambda>_. []) status) @ [32, 183, 32] @ model
             else status)))"

definition extractCopilotLiveStatusFromLines :: "jstr list \<Rightarrow> jstr" where
  "extractCopilotLiveStatusFromLines lines = copilotStatus (rev lines)"

definition FOLLOW_UP_RE :: rx where
  "FOLLOW_UP_RE = seqs [RAlt RBol wsCh, chr 8594, many wsCh, lit (js ''Add a follow-up''), RWordB]"

definition CURSOR_ACTION_RE :: rx where
  "CURSOR_ACTION_RE = seqs [RBol, RGrp 1 (alts (map (\<lambda>w. lit (js w))
     [''WebSearch'', ''Read'', ''Edit'', ''Search'', ''Run'', ''Apply'', ''Create'', ''Update'', ''Delete''])),
     RWordB]"

definition followUpText :: "jstr \<Rightarrow> jstr" where
  "followUpText raw =
     trim (replace_first True (seqs [many wsCh, lit (js ''ctrl+c to stop''), RWordB]) (\<lambda>_. [])
       (replace_first True (seqs [RBol, manyLazy dot, chr 8594, many wsCh]) (\<lambda>_. []) raw))"

fun cursorAgentStatus :: "jstr \<Rightarrow> jstr \<Rightarrow> jstr \<Rightarrow> jstr list \<Rightarrow> jstr" where
  "cursorAgentStatus usage followUp action [] =
     (if followUp \<noteq> [] then (if usage \<noteq> [] then followUp @ [32, 183, 32] @ usage else followUp)
      else if usage \<noteq> [] then usage else action)"
| "cursorAgentStatus usage followUp action (l # ls) =
     (let raw = compactLine l in
      if raw = [] then cursorAgentStatus usage followUp action ls
      else
        (let usage' = (if usage = [] then
               (case exec False MODEL_PERCENT_RE raw of Some m \<Rightarrow> compactLine (m_text m) | None \<Rightarrow> usage)
               else usage);
             followUp' = (if followUp = [] \<and> test True FOLLOW_UP_RE raw then followUpText raw else followUp);
             action' = (if action = [] \<and> test True CURSOR_ACTION_RE raw then raw else action) in
         if followUp' \<noteq> [] \<and> usage' \<noteq> [] then followUp' @ [32, 183, 32] @ usage'
         else cursorAgentStatus usage' followUp' action' ls))"

definition extractCursorAgentLiveStatusFromLines :: "jstr list \<Rightarrow> jstr" where
  "extractCursorAgentLiveStatusFromLines lines = cursorAgentStatus [] [] [] (rev lines)"

section \<open>What a frame does to the line\<close>

lemma length_setCell: "length cells \<le> length (setCell col ch cells)"
  by (auto simp: setCell_def)

text \<open>Reading a cell after a write: a frame law for the sparse array.\<close>

definition cellAt :: "int option list \<Rightarrow> nat \<Rightarrow> int option" where
  "cellAt cells k = (if k < length cells then cells ! k else None)"

lemma cellAt_setCell:
  assumes "0 \<le> col" "col < 4294967295"
  shows "cellAt (setCell col ch cells) k = (if k = nat col then Some ch else cellAt cells k)"
  using assms
  by (auto simp: cellAt_def setCell_def nth_append nth_list_update)

definition printable :: "int \<Rightarrow> bool" where
  "printable c \<longleftrightarrow> 31 < c \<and> c \<noteq> 127"

lemma liveScan_text_aux:
  assumes "list_all printable cs" "liveLineRow L = Some row" "0 \<le> col"
    "col + int (length cs) \<le> 4294967295"
  shows "\<exists>L'. liveScan cs row col L = Some L' \<and> liveLineRow L' = Some row \<and>
    (\<forall>k. cellAt (liveLineCells L') k =
       (if nat col \<le> k \<and> k < nat col + length cs then Some (cs ! (k - nat col))
        else cellAt (liveLineCells L) k))"
  using assms
proof (induction cs arbitrary: col L)
  case (Cons ch cs)
  let ?L = "putChar row col ch L"
  have p: "ch \<noteq> 27" "ch \<noteq> 13" "ch \<noteq> 10" "\<not> (ch \<le> 31 \<or> ch = 127)"
    using Cons.prems(1) by (auto simp: printable_def)
  have put: "liveLineRow ?L = Some row" "liveLineCells ?L = setCell col ch (liveLineCells L)"
    using Cons.prems(2) by (simp_all add: putChar_def)
  have "list_all printable cs" "0 \<le> col + 1" "col + 1 + int (length cs) \<le> 4294967295"
    using Cons.prems by simp_all
  from Cons.IH [OF this(1) put(1) this(2,3)] obtain L' where L':
      "liveScan cs row (col + 1) ?L = Some L'" "liveLineRow L' = Some row"
      "\<forall>k. cellAt (liveLineCells L') k =
        (if nat (col + 1) \<le> k \<and> k < nat (col + 1) + length cs then Some (cs ! (k - nat (col + 1)))
         else cellAt (liveLineCells ?L) k)"
    by blast
  have n: "nat (col + 1) = Suc (nat col)" using Cons.prems(3) by simp
  have "cellAt (liveLineCells L') k =
      (if nat col \<le> k \<and> k < nat col + length (ch # cs) then Some ((ch # cs) ! (k - nat col))
       else cellAt (liveLineCells L) k)" for k
  proof (cases "k = nat col")
    case True
    with L'(3) n Cons.prems(3,4) show ?thesis by (simp add: put(2) cellAt_setCell)
  next
    case False
    then have "Suc (nat col) \<le> k \<longleftrightarrow> nat col \<le> k" by auto
    moreover have "(ch # cs) ! (k - nat col) = cs ! (k - Suc (nat col))" if "Suc (nat col) \<le> k"
      using that by (simp add: nth_Cons' Suc_diff_le)
    ultimately show ?thesis
      using L'(3) n Cons.prems(3,4) False by (simp add: put(2) cellAt_setCell)
  qed
  moreover have "liveScan (ch # cs) row col L = Some L'"
    using L'(1) p Cons.prems(2) by simp
  ultimately show ?case using L'(2) by blast
qed auto

text \<open>A parameter string without a minus sign is never read as a negative number.\<close>

lemma digits_val_ge0: "0 \<le> acc \<Longrightarrow> list_all is_digit ds \<Longrightarrow> 0 \<le> digits_val acc ds"
  by (induction acc ds rule: digits_val.induct) (auto simp: is_digit_def)

lemma parse_int_ge0: "list_all is_digit ds \<Longrightarrow> 0 \<le> parse_int ds"
  by (simp add: parse_int_def dbl_ge0 digits_val_ge0)

lemma parseInt10_ge0:
  assumes "45 \<notin> set s" "parseInt10 s = Some n"
  shows "0 \<le> n"
proof -
  have "list_all is_digit (takeWhile is_digit u)" for u
    by (auto simp: list_all_iff dest: set_takeWhileD)
  then have nn: "0 \<le> parse_int (takeWhile is_digit u)" for u
    by (rule parse_int_ge0)
  have "45 \<notin> set (trimStart s)"
    using assms(1) by (auto simp: trimStart_def dest: set_dropWhileD)
  with assms(2) nn show ?thesis
    by (cases "trimStart s") (auto simp: parseInt10_def Let_def simp del: takeWhile.simps split: if_splits)
qed

lemma paramOr_ge0: "45 \<notin> set s \<Longrightarrow> 0 \<le> d \<Longrightarrow> 0 \<le> paramOr d s"
  using parseInt10_ge0 [of s] by (auto simp: paramOr_def split: option.splits)

lemma in_class_digit: "in_class False (CC False [CDigit]) c \<longleftrightarrow> is_digit c"
  by (cases "is_digit c") simp_all

lemma cupParams_ge0: "0 \<le> fst (cupParams s) \<and> 0 \<le> snd (cupParams s)"
proof (cases "exec False CUP_PARAMS_RE s")
  case None
  then show ?thesis by (simp add: cupParams_def)
next
  case (Some m)
  then obtain x y where xy: "st_of s x" "y \<in> den False CUP_PARAMS_RE x" "caps x = []"
      "m = RM (pos x) (pos y) (caps y) s"
    by (rule exec_den)
  let ?C = "CC False [CDigit]"
  from xy(2) have "\<exists>x1 \<in> den False (many digit) x.
      \<exists>x2 \<in> den False (opt (chr 59)) (St (pos x1) (prev x1) (rest x1) ((1, pos x, pos x1) # caps x1)).
      \<exists>x3 \<in> den False (many digit) x2. caps y = (2, pos x2, pos x3) # caps x3"
    unfolding CUP_PARAMS_RE_def by (fastforce split: if_splits)
  then obtain x1 x2 x3 where x1: "x1 \<in> den False (many digit) x"
      and x2: "x2 \<in> den False (opt (chr 59)) (St (pos x1) (prev x1) (rest x1) ((1, pos x, pos x1) # caps x1))"
      and x3: "x3 \<in> den False (many digit) x2" "caps y = (2, pos x2, pos x3) # caps x3"
    by blast
  have e1: "eats False ?C x x1"
    using x1 den_rep_class [of x1 False True 0 None ?C x] by (simp add: many_def digit_def)
  have e2: "eats False (CC False [CRange 59 59]) (St (pos x1) (prev x1) (rest x1) ((1, pos x, pos x1) # caps x1)) x2"
    using x2 by (auto simp: opt_def chr_def simp del: den.simps dest: den_rep_class)
  have e3: "eats False ?C x2 x3"
    using x3(1) den_rep_class [of x3 False True 0 None ?C x2] by (simp add: many_def digit_def)
  have s1: "st_of s x1" by (rule along_substring(1) [OF xy(1) eats_along [OF e1]])
  then have "st_of s (St (pos x1) (prev x1) (rest x1) ((1, pos x, pos x1) # caps x1))"
    by (simp add: st_of_def)
  then have s2: "st_of s x2" by (rule along_substring(1) [OF _ eats_along [OF e2]])
  have c: "caps y = [(2, pos x2, pos x3), (1, pos x, pos x1)]"
    using x3(2) e1 e2 e3 xy(3) by (simp add: eats_def)
  have "grp m 1 = substring s (pos x) (pos x1)" "grp m 2 = substring s (pos x2) (pos x3)"
    using c xy(4) by (simp_all add: grp_def m_group_def)
  moreover have "list_all is_digit (substring s (pos x) (pos x1))"
      "list_all is_digit (substring s (pos x2) (pos x3))"
    using eats_substring [OF xy(1) e1] eats_substring [OF s2 e3] in_class_digit
    unfolding list_all_iff by blast+
  ultimately show ?thesis
    using Some parse_int_ge0 by (auto simp: cupParams_def)
qed

text \<open>So such frames never shorten the line to a negative length.\<close>

lemma liveCsi_total:
  assumes "45 \<notin> set params" "0 \<le> col"
  shows "\<exists>r c L'. liveCsi fin params row col L = Some (r, c, L') \<and> 0 \<le> c"
  using assms paramOr_ge0 [OF assms(1), of 1] cupParams_ge0 [of params]
  by (auto simp: liveCsi_def eraseCells_def Let_def split: prod.splits)

lemma liveScan_total: "45 \<notin> set cs \<Longrightarrow> 0 \<le> col \<Longrightarrow> liveScan cs row col L \<noteq> None"
proof (induction cs row col L rule: liveScan.induct)
  case (2 ch cs row col L)
  show ?case
  proof (cases "ch = 27")
    case False
    with 2 show ?thesis by auto
  next
    case esc: True
    show ?thesis
    proof (cases cs)
      case Nil
      with esc show ?thesis by simp
    next
      case (Cons d ds)
      have sub: "set (skipOsc ds) \<subseteq> set ds"
        by (induction ds) (auto dest: list.set_sel(2))
      show ?thesis
      proof (cases "d = 91")
        case False
        with esc Cons 2 sub show ?thesis by auto
      next
        case csi: True
        let ?ps = "takeWhile (\<lambda>c. \<not> csi_final c) ds"
        show ?thesis
        proof (cases "dropWhile (\<lambda>c. \<not> csi_final c) ds")
          case Nil
          with esc Cons csi show ?thesis by (simp del: dropWhile_eq_Nil_conv)
        next
          case dw: (Cons f r)
          have "45 \<notin> set ?ps" using "2.prems"(1) Cons by (auto dest: set_takeWhileD)
          with liveCsi_total "2.prems"(2) obtain r' c' L' where
              l: "liveCsi f ?ps row col L = Some (r', c', L')" "0 \<le> c'"
            by blast
          have "set r \<subseteq> set ds"
            using dw by (metis set_dropWhileD set_subset_Cons subset_code(1))
          with "2.prems"(1) Cons have "45 \<notin> set r" by auto
          with "2.IH"(1) [OF esc Cons csi dw l(1) refl refl] l(2) have "liveScan r r' c' L' \<noteq> None"
            by simp
          with esc Cons csi dw l(1) show ?thesis by simp
        qed
      qed
    qed
  qed
qed simp

section \<open>The Codex extractor as a search\<close>

definition codexLine :: "jstr \<Rightarrow> jstr" where
  "codexLine l = stripLeadingSpinner (compactLine l)"

definition codexWorking :: "jstr \<Rightarrow> bool" where
  "codexWorking l \<longleftrightarrow> l \<noteq> [] \<and> test True WORKING_RE l"

definition codexAction :: "jstr \<Rightarrow> bool" where
  "codexAction l \<longleftrightarrow> l \<noteq> [] \<and> test True CODEX_ACTION_RE l"

lemma codexStatus_search:
  "codexStatus action ls =
     (case List.find codexWorking (map codexLine ls) of
        Some w \<Rightarrow> w
      | None \<Rightarrow> if action \<noteq> [] then action
          else (case List.find codexAction (map codexLine ls) of Some a \<Rightarrow> a | None \<Rightarrow> []))"
  by (induction action ls rule: codexStatus.induct)
     (auto simp: codexLine_def codexWorking_def codexAction_def Let_def split: option.splits)

section \<open>Properties\<close>

text \<open>
  A frame that moves to a row and column of the status line and writes text there changes
  exactly the cells it writes: every other cell keeps what earlier frames wrote, so partial
  updates never tear the line.
\<close>

theorem live_line_partial_update:
  assumes "list_all (\<lambda>c. \<not> csi_final c) params" "cupParams params = (row, col)"
    and "list_all printable cs" "liveLineRow L = Some row" "col + int (length cs) \<le> 4294967295"
  shows "\<exists>L'. liveScan (27 # 91 # params @ 72 # cs) row0 col0 L = Some L' \<and> liveLineRow L' = Some row \<and>
    (\<forall>k. cellAt (liveLineCells L') k =
       (if nat col \<le> k \<and> k < nat col + length cs then Some (cs ! (k - nat col))
        else cellAt (liveLineCells L) k))"
proof -
  have f: "csi_final 72" by (simp add: csi_final_def)
  have d: "dropWhile (\<lambda>c. \<not> csi_final c) (params @ 72 # cs) = 72 # cs"
    and t: "takeWhile (\<lambda>c. \<not> csi_final c) (params @ 72 # cs) = params"
    using assms(1) f by (simp_all add: list_all_iff dropWhile_append2 takeWhile_append2)
  have "0 \<le> col" using cupParams_ge0 [of params] assms(2) by simp
  moreover have "liveScan (27 # 91 # params @ 72 # cs) row0 col0 L = liveScan cs row col L"
    using assms(2) by (simp add: d t liveCsi_def del: dropWhile_append takeWhile_append)
  ultimately show ?thesis
    using liveScan_text_aux [OF assms(3,4) _ assms(5)] by simp
qed

lemma live_line_partial_update_witness:
  "\<exists>L'. liveScan [27, 91, 50, 59, 51, 72, 88] 1 1 \<lparr>liveLineRow = Some 2, liveLineCells = [None, Some 65]\<rparr>
     = Some L' \<and> cellAt (liveLineCells L') 3 = Some 88 \<and> cellAt (liveLineCells L') 1 = Some 65"
proof -
  have "list_all (\<lambda>c. \<not> csi_final c) [50, 59, 51]" by (simp add: csi_final_def)
  moreover have "cupParams [50, 59, 51] = (2, 3)" by code_simp
  moreover have "list_all printable [88]" by (simp add: printable_def)
  ultimately obtain L' where L': "liveScan (27 # 91 # [50, 59, 51] @ 72 # [88]) 1 1
        \<lparr>liveLineRow = Some 2, liveLineCells = [None, Some 65]\<rparr> = Some L'"
      "\<forall>k. cellAt (liveLineCells L') k =
       (if nat 3 \<le> k \<and> k < nat 3 + length [88 :: int] then Some ([88] ! (k - nat 3))
        else cellAt (liveLineCells \<lparr>liveLineRow = Some 2, liveLineCells = [None, Some 65]\<rparr>) k)"
    using live_line_partial_update [of "[50, 59, 51]" 2 3 "[88]"
        "\<lparr>liveLineRow = Some 2, liveLineCells = [None, Some 65]\<rparr>" 1 1]
    by (simp del: liveScan.simps) blast
  have "cellAt (liveLineCells L') 3 = Some 88" "cellAt (liveLineCells L') 1 = Some 65"
    using L'(2) [THEN spec, of 3] L'(2) [THEN spec, of 1] by (simp_all add: cellAt_def [of "[None, Some 65]"])
  with L'(1) show ?thesis by (simp del: liveScan.simps)
qed

text \<open>
  A frame without a minus sign never makes \<open>reconstructLiveLine\<close> fail.
\<close>

theorem live_line_total:
  assumes "45 \<notin> set (drop_bom (u8decode u8start buf))"
  shows "reconstructLiveLine isLN L buf \<noteq> None"
  using liveScan_total [OF assms, of 1] by (simp add: reconstructLiveLine_def Let_def)

lemma live_line_total_witness:
  "reconstructLiveLine is_word \<lparr>liveLineRow = None, liveLineCells = []\<rparr> [27, 91, 50, 59, 51, 72, 88] \<noteq> None"
  by (rule live_line_total) code_simp

text \<open>
  A status frame with a negative cursor movement and an erase-in-line makes it fail: the
  cursor ends left of the line and \<open>cells.length\<close> is assigned a negative number, an exception
  that nothing on the way to \<open>writePTYChunk\<close> catches.
\<close>

theorem live_line_negative_move_throws:
  "reconstructLiveLine isLN \<lparr>liveLineRow = Some 1, liveLineCells = []\<rparr>
     (27 # asciiBytes ''[1;1Hx'' @ 27 # asciiBytes ''[-9C'' @ 27 # asciiBytes ''[K'') = None"
proof -
  have "liveScan (drop_bom (u8decode u8start
      (27 # asciiBytes ''[1;1Hx'' @ 27 # asciiBytes ''[-9C'' @ 27 # asciiBytes ''[K''))) 1 1
      \<lparr>liveLineRow = Some 1, liveLineCells = []\<rparr> = None"
    by code_simp
  then show ?thesis by (simp add: reconstructLiveLine_def)
qed

text \<open>
  The Codex extractor returns the lowest line that starts with Working, and only when there
  is none the lowest line that starts with one of the action words, else nothing.
\<close>

theorem codex_status_search:
  "extractCodexLiveStatusFromLines lines =
     (case List.find codexWorking (map codexLine (rev lines)) of
        Some w \<Rightarrow> w
      | None \<Rightarrow> (case List.find codexAction (map codexLine (rev lines)) of Some a \<Rightarrow> a | None \<Rightarrow> []))"
  by (simp add: extractCodexLiveStatusFromLines_def codexStatus_search)

end
