(* ===== verification/LiveStatus.thy ===== *)
theory LiveStatus
  imports LiveLine
begin

text \<open>
  The live-status pill of \<open>src/web/src/app/terminal.ts\<close>: the text of the last status frame, the
  tracking of Claude's \<open>/compact\<close> (start and end markers found across chunks, expiry when
  frames stop), the timers, and what is drawn. Timers are due times in the state; a timer's
  handler is an operation that acts once its time has come.
\<close>

section \<open>State\<close>

definition LIVE_STATUS_HIDE_MS :: int where "LIVE_STATUS_HIDE_MS = 1500"
definition COMPACT_IDLE_MS :: int where "COMPACT_IDLE_MS = 1500"
definition LIVE_LONGPROC_SEC :: int where "LIVE_LONGPROC_SEC = 300"

record liveTerm =
  compactingSince :: "int option"
  compactSeenAt :: int
  compactDetectTail :: jstr
  liveStatusText :: jstr
  liveStatusHideTimer :: "int option"
  liveLineOf :: liveLine

datatype sessState = SRunning | SWaiting | SError | SDisconnected | SStandby

text \<open>A label: a text as it is, or a message key of \<open>ti18n\<close>, possibly with seconds.\<close>

datatype label = Plain jstr | Msg string | MsgSec string int

datatype viewMode = MActive | MWaiting | MIdle | MHidden

text \<open>
  The pill's DOM: the element, its \<open>idle\<close> and \<open>waiting\<close> classes, its text, the compact bar and
  the long-processing badge (\<open>None\<close> before it is created).
\<close>

record pillDom =
  pHidden :: bool
  pIdle :: bool
  pWaiting :: bool
  pText :: label
  pBarHidden :: bool
  pLongproc :: "(bool \<times> label) option"  \<comment> \<open>hidden?, text\<close>

record liveWorld =
  now :: int
  activeSessionId :: "int option"
  terminals :: "int \<Rightarrow> liveTerm option"
  sessionState :: "int \<Rightarrow> sessState option"
  sessionProvider :: "int \<Rightarrow> jstr"
  compactTickTimer :: "int option"
  extractTimers :: "int \<Rightarrow> (int \<times> jstr) option"  \<comment> \<open>due time, provider\<close>
  runningSince :: "int \<Rightarrow> int option"
  mobileView :: bool
  pill :: pillDom

definition updTerm :: "int \<Rightarrow> (liveTerm \<Rightarrow> liveTerm) \<Rightarrow> liveWorld \<Rightarrow> liveWorld" where
  "updTerm sid f w = w\<lparr>terminals := (terminals w)(sid := map_option f (terminals w sid))\<rparr>"

definition stopCompactTick :: "liveWorld \<Rightarrow> liveWorld" where
  "stopCompactTick w = w\<lparr>compactTickTimer := None\<rparr>"

definition ensureCompactTick :: "liveWorld \<Rightarrow> liveWorld" where
  "ensureCompactTick w =
     (if compactTickTimer w \<noteq> None then w else w\<lparr>compactTickTimer := Some (now w + 1000)\<rparr>)"

definition clearCompact :: "liveTerm \<Rightarrow> liveTerm" where
  "clearCompact t = t\<lparr>compactingSince := None, compactDetectTail := []\<rparr>"

section \<open>Elapsed time and drawing\<close>

definition activeTerm :: "liveWorld \<Rightarrow> (int \<times> liveTerm) option" where
  "activeTerm w =
     (case activeSessionId w of None \<Rightarrow> None
      | Some sid \<Rightarrow> map_option (\<lambda>t. (sid, t)) (terminals w sid))"

text \<open>The seconds since the compact started; an expired compact is cleared on the way.\<close>

definition activeCompactElapsedSec :: "liveWorld \<Rightarrow> int option \<times> liveWorld" where
  "activeCompactElapsedSec w =
     (case activeTerm w of
        None \<Rightarrow> (None, w)
      | Some (sid, t) \<Rightarrow>
          (case compactingSince t of
             None \<Rightarrow> (None, w)
           | Some since \<Rightarrow>
               if now w - compactSeenAt t > COMPACT_IDLE_MS then (None, updTerm sid clearCompact w)
               else (Some (max 0 ((now w - since) div 1000)), w)))"

definition syncLiveStatusLongproc :: "liveWorld \<Rightarrow> liveWorld" where
  "syncLiveStatusLongproc w =
     (let hide = (\<lambda>w. w\<lparr>pill := (pill w)\<lparr>pLongproc := map_option (\<lambda>(_, l). (True, l)) (pLongproc (pill w))\<rparr>\<rparr>) in
      case activeSessionId w of
        None \<Rightarrow> hide w
      | Some sid \<Rightarrow>
          if sessionState w sid \<noteq> Some SRunning then
            hide (w\<lparr>runningSince := (runningSince w)(sid := None)\<rparr>)
          else
            (let since = (case runningSince w sid of None \<Rightarrow> now w | Some s \<Rightarrow> if s = 0 then now w else s);
                 sec = max 0 ((now w - since) div 1000);
                 lbl = (if mobileView w then Plain [9888, 53, 109, 43] else Msg ''card_longproc_label'')
             in w\<lparr>runningSince := (runningSince w)(sid := Some since),
                  pill := (pill w)\<lparr>pLongproc := Some (sec < LIVE_LONGPROC_SEC, lbl)\<rparr>\<rparr>))"

definition renderLiveStatusDom :: "viewMode \<Rightarrow> label \<Rightarrow> liveWorld \<Rightarrow> liveWorld" where
  "renderLiveStatusDom mode txt w =
     (if mode = MHidden then
        syncLiveStatusLongproc
          (w\<lparr>pill := (pill w)\<lparr>pHidden := True, pIdle := False, pWaiting := False,
             pText := Plain [], pBarHidden := True\<rparr>\<rparr>)
      else
        (let (sec, w1) = activeCompactElapsedSec w;
             (mode', txt') = (case sec of None \<Rightarrow> (mode, txt)
               | Some s \<Rightarrow> (MActive, MsgSec ''live_status_compacting'' s))
         in syncLiveStatusLongproc
              (w1\<lparr>pill := (pill w1)\<lparr>pHidden := False, pIdle := (mode' = MIdle),
                 pWaiting := (mode' = MWaiting), pText := txt', pBarHidden := (sec = None)\<rparr>\<rparr>)))"

definition liveStatusViewFor :: "int \<Rightarrow> liveWorld \<Rightarrow> viewMode \<times> label" where
  "liveStatusViewFor sid w =
     (let streaming = (case terminals w sid of None \<Rightarrow> None
            | Some t \<Rightarrow> if liveStatusHideTimer t = None then None else Some (liveStatusText t)) in
      case streaming of
        Some txt \<Rightarrow> (MActive, Plain txt)
      | None \<Rightarrow>
          (case sessionState w sid of
             Some SRunning \<Rightarrow> (MActive, Msg ''live_status_running'')
           | Some SWaiting \<Rightarrow> (MWaiting, Msg ''live_status_waiting'')
           | Some SError \<Rightarrow> (MIdle, Msg ''live_status_error'')
           | Some SDisconnected \<Rightarrow> (MIdle, Msg ''live_status_disconnected'')
           | _ \<Rightarrow> (MIdle, Msg ''live_status_idle'')))"

definition syncLiveStatusDomForActive :: "liveWorld \<Rightarrow> liveWorld" where
  "syncLiveStatusDomForActive w =
     (case activeTerm w of
        None \<Rightarrow> renderLiveStatusDom MHidden (Plain []) (stopCompactTick w)
      | Some (sid, _) \<Rightarrow>
          (let (sec, w1) = activeCompactElapsedSec w;
               w2 = (if sec \<noteq> None then ensureCompactTick w1 else w1);
               (m, l) = liveStatusViewFor sid w2
           in renderLiveStatusDom m l w2))"

section \<open>Compact tracking\<close>

definition COMPACT_DETECT_RE :: rx where
  "COMPACT_DETECT_RE = lit (js ''Compacting conversation'')"

definition COMPACT_DONE_RE :: rx where
  "COMPACT_DONE_RE = lit (js ''Conversation compacted'')"

definition noteCompactStart :: "int \<Rightarrow> liveWorld \<Rightarrow> liveWorld" where
  "noteCompactStart sid w =
     (case terminals w sid of
        None \<Rightarrow> w
      | Some t \<Rightarrow>
          (let justStarted = (compactingSince t = None);
               w1 = updTerm sid (\<lambda>t. t\<lparr>compactingSince := (if justStarted then Some (now w) else compactingSince t),
                                     compactSeenAt := now w\<rparr>) w
           in if activeSessionId w = Some sid \<and> justStarted
              then renderLiveStatusDom MActive (Plain []) (ensureCompactTick w1) else w1))"

definition noteCompactDone :: "int \<Rightarrow> liveWorld \<Rightarrow> liveWorld" where
  "noteCompactDone sid w =
     (case terminals w sid of
        None \<Rightarrow> w
      | Some t \<Rightarrow>
          if compactingSince t = None then w
          else (let w1 = updTerm sid clearCompact w in
            if activeSessionId w = Some sid then syncLiveStatusDomForActive (stopCompactTick w1) else w1))"

definition markCompactActivity :: "int \<Rightarrow> jstr \<Rightarrow> liveWorld \<Rightarrow> liveWorld" where
  "markCompactActivity sid chunk w =
     (case terminals w sid of
        None \<Rightarrow> w
      | Some t \<Rightarrow>
          if compactingSince t \<noteq> None then
            (let w1 = updTerm sid (\<lambda>t. t\<lparr>compactSeenAt := now w\<rparr>) w;
                 probe = compactDetectTail t @ chunk in
             if chunk = [] then w1
             else if test True COMPACT_DONE_RE probe then noteCompactDone sid w1
             else updTerm sid (\<lambda>t. t\<lparr>compactDetectTail := slice_from probe (-24)\<rparr>) w1)
          else if chunk = [] then w
          else (let probe = compactDetectTail t @ chunk in
            if test True COMPACT_DETECT_RE probe
            then noteCompactStart sid (updTerm sid (\<lambda>t. t\<lparr>compactDetectTail := []\<rparr>) w)
            else updTerm sid (\<lambda>t. t\<lparr>compactDetectTail := slice_from probe (-24)\<rparr>) w))"

text \<open>The handler of the one-second interval.\<close>

definition fireCompactTick :: "liveWorld \<Rightarrow> liveWorld" where
  "fireCompactTick w =
     (case compactTickTimer w of
        None \<Rightarrow> w
      | Some due \<Rightarrow>
          if now w < due then w
          else (let w1 = w\<lparr>compactTickTimer := Some (due + 1000)\<rparr> in
            (case activeTerm w1 of
               None \<Rightarrow> stopCompactTick w1
             | Some (sid, t) \<Rightarrow>
                 if compactingSince t = None then stopCompactTick w1
                 else if now w1 - compactSeenAt t > COMPACT_IDLE_MS then
                   syncLiveStatusDomForActive (stopCompactTick (updTerm sid clearCompact w1))
                 else renderLiveStatusDom MActive (Plain []) w1)))"

section \<open>Status frames\<close>

definition setSessionLiveStatus :: "int \<Rightarrow> jstr \<Rightarrow> liveWorld \<Rightarrow> liveWorld" where
  "setSessionLiveStatus sid txt w =
     (case terminals w sid of
        None \<Rightarrow> w
      | Some _ \<Rightarrow>
          (let w1 = (if txt = [] then w
                 else if test True COMPACT_DETECT_RE txt then noteCompactStart sid w
                 else if test True COMPACT_DONE_RE txt then noteCompactDone sid w
                 else w);
               w2 = updTerm sid (\<lambda>t. t\<lparr>liveStatusText := (if txt \<noteq> [] then txt else liveStatusText t),
                      liveStatusHideTimer := Some (now w + LIVE_STATUS_HIDE_MS)\<rparr>) w1
           in if activeSessionId w = Some sid then
                renderLiveStatusDom MActive
                  (Plain (case terminals w2 sid of None \<Rightarrow> [] | Some t \<Rightarrow> liveStatusText t)) w2
              else w2))"

definition fireHideTimer :: "int \<Rightarrow> liveWorld \<Rightarrow> liveWorld" where
  "fireHideTimer sid w =
     (case terminals w sid of
        None \<Rightarrow> w
      | Some t \<Rightarrow>
          (case liveStatusHideTimer t of
             None \<Rightarrow> w
           | Some due \<Rightarrow>
               if now w < due then w
               else (let w1 = updTerm sid (\<lambda>t. t\<lparr>liveStatusHideTimer := None\<rparr>) w in
                 if activeSessionId w = Some sid then
                   (let (m, l) = liveStatusViewFor sid w1 in renderLiveStatusDom m l w1)
                 else w1)))"

text \<open>A frame of the cursor-hide filter; \<open>None\<close> when reconstructing it raises an exception.\<close>

definition extractAndSetLiveStatus ::
  "(int \<Rightarrow> bool) \<Rightarrow> int \<Rightarrow> byte list \<Rightarrow> liveWorld \<Rightarrow> liveWorld option" where
  "extractAndSetLiveStatus isLN sid buf w =
     (if buf = [] then Some w
      else (case terminals w sid of
          None \<Rightarrow> Some w
        | Some t \<Rightarrow>
            (case reconstructLiveLine isLN (liveLineOf t) buf of
               None \<Rightarrow> None
             | Some (txt, L) \<Rightarrow>
                 Some (setSessionLiveStatus sid txt (updTerm sid (\<lambda>t. t\<lparr>liveLineOf := L\<rparr>) w)))))"

text \<open>
  The throttled extraction for the other providers; \<open>scanBuffer sid limit\<close> is the last lines of the
  terminal widget.
\<close>

definition liveStatusExtractors :: "jstr \<Rightarrow> (int \<times> (jstr list \<Rightarrow> jstr)) option" where
  "liveStatusExtractors p =
     (if p = js ''codex'' then Some (48, extractCodexLiveStatusFromLines)
      else if p = js ''copilot'' then Some (48, extractCopilotLiveStatusFromLines)
      else if p = js ''cursor-agent'' then Some (64, extractCursorAgentLiveStatusFromLines)
      else None)"

definition scheduleLiveStatusExtract :: "int \<Rightarrow> liveWorld \<Rightarrow> liveWorld" where
  "scheduleLiveStatusExtract sid w =
     (if extractTimers w sid \<noteq> None then w
      else (let p = toLowerCase (sessionProvider w sid) in
        if liveStatusExtractors p = None then w
        else w\<lparr>extractTimers := (extractTimers w)(sid := Some (now w + 250, p))\<rparr>))"

definition fireExtractTimer :: "(int \<Rightarrow> int \<Rightarrow> jstr list) \<Rightarrow> int \<Rightarrow> liveWorld \<Rightarrow> liveWorld" where
  "fireExtractTimer scanBuffer sid w =
     (case extractTimers w sid of
        None \<Rightarrow> w
      | Some (due, p) \<Rightarrow>
          if now w < due then w
          else (let w1 = w\<lparr>extractTimers := (extractTimers w)(sid := None)\<rparr> in
            case (terminals w1 sid, liveStatusExtractors p) of
              (Some _, Some (limit, extract)) \<Rightarrow> setSessionLiveStatus sid (extract (scanBuffer sid limit)) w1
            | _ \<Rightarrow> w1))"

section \<open>What is drawn\<close>

lemma terminals_longproc [simp]:
  "terminals (syncLiveStatusLongproc w) = terminals w" "activeSessionId (syncLiveStatusLongproc w) = activeSessionId w"
  "now (syncLiveStatusLongproc w) = now w" "compactTickTimer (syncLiveStatusLongproc w) = compactTickTimer w"
  "pHidden (pill (syncLiveStatusLongproc w)) = pHidden (pill w)"
  "pIdle (pill (syncLiveStatusLongproc w)) = pIdle (pill w)"
  "pWaiting (pill (syncLiveStatusLongproc w)) = pWaiting (pill w)"
  "pText (pill (syncLiveStatusLongproc w)) = pText (pill w)"
  "pBarHidden (pill (syncLiveStatusLongproc w)) = pBarHidden (pill w)"
  by (simp_all add: syncLiveStatusLongproc_def Let_def split: option.split)

text \<open>The compact of the active session, if it is live at the current time.\<close>

definition liveCompact :: "liveWorld \<Rightarrow> int option" where
  "liveCompact w =
     (case activeTerm w of None \<Rightarrow> None
      | Some (_, t) \<Rightarrow>
          (case compactingSince t of None \<Rightarrow> None
           | Some s \<Rightarrow> if now w - compactSeenAt t > COMPACT_IDLE_MS then None else Some s))"

text \<open>What the pill must look like when it is shown.\<close>

definition pillOk :: "liveWorld \<Rightarrow> bool" where
  "pillOk w \<longleftrightarrow> \<not> pHidden (pill w) \<and> \<not> (pIdle (pill w) \<and> pWaiting (pill w)) \<and>
     (case liveCompact w of
        None \<Rightarrow> pBarHidden (pill w)
      | Some s \<Rightarrow> \<not> pBarHidden (pill w) \<and> \<not> pIdle (pill w) \<and> \<not> pWaiting (pill w)
          \<and> pText (pill w) = MsgSec ''live_status_compacting'' (max 0 ((now w - s) div 1000)))"

lemma activeTerm_updTerm:
  "activeTerm (updTerm sid f w) =
     map_option (\<lambda>(i, t). (i, if i = sid then f t else t)) (activeTerm w)"
  by (cases "activeSessionId w"; cases "terminals w (the (activeSessionId w))")
     (auto simp: activeTerm_def updTerm_def)

lemma activeTerm_simps [simp]:
  "activeTerm (w\<lparr>compactTickTimer := d\<rparr>) = activeTerm w" "activeTerm (stopCompactTick w) = activeTerm w"
  by (simp_all add: activeTerm_def stopCompactTick_def cong: option.case_cong)

lemma updTerm_simps [simp]:
  "now (updTerm sid f w) = now w" "activeSessionId (updTerm sid f w) = activeSessionId w"
  "pill (updTerm sid f w) = pill w" "compactTickTimer (updTerm sid f w) = compactTickTimer w"
  "terminals (updTerm sid f w) sid = map_option f (terminals w sid)"
  by (simp_all add: updTerm_def)

lemma elapsed_cases:
  obtains (none) w' where "activeCompactElapsedSec w = (None, w')" "liveCompact w = None" "liveCompact w' = None"
      "now w' = now w" "pill w' = pill w" "activeSessionId w' = activeSessionId w"
      "compactTickTimer w' = compactTickTimer w"
  | (some) s where "activeCompactElapsedSec w = (Some (max 0 ((now w - s) div 1000)), w)" "liveCompact w = Some s"
proof (cases "activeTerm w")
  case None
  then show thesis by (intro none [of w]) (simp_all add: activeCompactElapsedSec_def liveCompact_def)
next
  case (Some it)
  obtain i t where it: "it = (i, t)" by (cases it)
  show thesis
  proof (cases "compactingSince t")
    case None
    with Some it show thesis
      by (intro none [of w]) (simp_all add: activeCompactElapsedSec_def liveCompact_def)
  next
    case since: (Some s)
    show thesis
    proof (cases "now w - compactSeenAt t > COMPACT_IDLE_MS")
      case True
      with Some it since show thesis
        by (intro none [of "updTerm i clearCompact w"])
           (simp_all add: activeCompactElapsedSec_def liveCompact_def activeTerm_updTerm clearCompact_def)
    next
      case False
      with Some it since show thesis
        by (intro some [of s]) (simp_all add: activeCompactElapsedSec_def liveCompact_def)
    qed
  qed
qed

lemma liveCompact_cong:
  assumes "terminals w' = terminals w" "activeSessionId w' = activeSessionId w" "now w' = now w"
  shows "liveCompact w' = liveCompact w"
  unfolding liveCompact_def activeTerm_def assms ..

lemma render_pillOk: "m \<noteq> MHidden \<Longrightarrow> pillOk (renderLiveStatusDom m l w)"
proof -
  assume m: "m \<noteq> MHidden"
  show ?thesis
  proof (cases w rule: elapsed_cases)
    case (none w')
    let ?w = "renderLiveStatusDom m l w"
    have "liveCompact ?w = liveCompact w'"
      using m none by (intro liveCompact_cong) (simp_all add: renderLiveStatusDom_def)
    with m none show ?thesis by (simp add: pillOk_def renderLiveStatusDom_def)
  next
    case (some s)
    let ?w = "renderLiveStatusDom m l w"
    have "liveCompact ?w = liveCompact w"
      using m some by (intro liveCompact_cong) (simp_all add: renderLiveStatusDom_def)
    with m some show ?thesis by (simp add: pillOk_def renderLiveStatusDom_def)
  qed
qed

lemma view_not_hidden: "fst (liveStatusViewFor sid w) \<noteq> MHidden"
  by (auto simp: liveStatusViewFor_def Let_def split: option.splits sessState.splits)

lemma sync_pillOk: "activeTerm w \<noteq> None \<Longrightarrow> pillOk (syncLiveStatusDomForActive w)"
  using render_pillOk [OF view_not_hidden]
  by (auto simp: syncLiveStatusDomForActive_def Let_def case_prod_unfold)

section \<open>Markers across chunks\<close>

definition isCompacting :: "int \<Rightarrow> liveWorld \<Rightarrow> bool" where
  "isCompacting sid w =
     (case terminals w sid of None \<Rightarrow> False | Some t \<Rightarrow> compactingSince t \<noteq> None)"

text \<open>Chunks with the times at which they arrive, and after each whether a compact is on.\<close>

fun markRun :: "int \<Rightarrow> liveWorld \<Rightarrow> (int \<times> jstr) list \<Rightarrow> bool list" where
  "markRun sid w [] = []"
| "markRun sid w ((time, chunk) # cs) =
     (let w1 = markCompactActivity sid chunk (w\<lparr>now := time\<rparr>)
      in isCompacting sid w1 # markRun sid w1 cs)"

lemma terminals_ensureTick [simp]:
  "terminals (ensureCompactTick w) = terminals w" "activeSessionId (ensureCompactTick w) = activeSessionId w"
  "now (ensureCompactTick w) = now w"
  by (simp_all add: ensureCompactTick_def)

lemma terminals_render:
  "liveCompact w \<noteq> None \<Longrightarrow> terminals (renderLiveStatusDom m l w) = terminals w"
  by (cases w rule: elapsed_cases) (simp_all add: renderLiveStatusDom_def)

lemma noteCompactStart_on:
  assumes "terminals w sid = Some t"
  shows "isCompacting sid (noteCompactStart sid w)"
proof -
  let ?f = "\<lambda>t'. t'\<lparr>compactingSince := (if compactingSince t = None then Some (now w) else compactingSince t),
      compactSeenAt := now w\<rparr>"
  let ?w1 = "updTerm sid ?f w"
  have on: "terminals ?w1 sid = Some (?f t)" "compactingSince (?f t) \<noteq> None"
    using assms by auto
  show ?thesis
  proof (cases "activeSessionId w = Some sid \<and> compactingSince t = None")
    case True
    have "liveCompact (ensureCompactTick ?w1) = Some (now w)"
      using True assms by (simp add: liveCompact_def activeTerm_def COMPACT_IDLE_MS_def)
    then have "terminals (renderLiveStatusDom MActive (Plain []) (ensureCompactTick ?w1)) = terminals ?w1"
      by (subst terminals_render) simp_all
    with True on assms show ?thesis
      by (simp add: noteCompactStart_def isCompacting_def Let_def)
  next
    case False
    with on assms show ?thesis
      by (auto simp: noteCompactStart_def isCompacting_def Let_def)
  qed
qed

lemma slice_from_last: "slice_from s (- 24) = drop (length s - 24) s"
proof -
  have "nat (int (length s) + - 24) = length s - 24" by arith
  then show ?thesis by (simp add: slice_from_def slice_pos_def)
qed

lemma detect_length:
  "list_all2 (lit_match ic) (js ''Compacting conversation'') v \<Longrightarrow> length v = 23"
  by (drule list_all2_lengthD) (simp add: js_def)

lemma test_detect_append:
  "test True COMPACT_DETECT_RE xs \<Longrightarrow> test True COMPACT_DETECT_RE (xs @ ys)"
  unfolding COMPACT_DETECT_RE_def test_lit
  by (meson sublist_append_rightI sublist_order.order_trans)

lemma test_detect_tail:
  assumes "\<not> test True COMPACT_DETECT_RE pre"
  shows "test True COMPACT_DETECT_RE (drop (length pre - 24) pre @ c) \<longleftrightarrow> test True COMPACT_DETECT_RE (pre @ c)"
proof
  have "pre @ c = take (length pre - 24) pre @ (drop (length pre - 24) pre @ c)"
    by (simp add: append_assoc [symmetric] del: append_assoc)
  then have "sublist (drop (length pre - 24) pre @ c) (pre @ c)"
    by (metis sublist_append_leftI)
  then show "test True COMPACT_DETECT_RE (drop (length pre - 24) pre @ c) \<Longrightarrow> test True COMPACT_DETECT_RE (pre @ c)"
    unfolding COMPACT_DETECT_RE_def test_lit by (meson sublist_order.order_trans)
next
  assume "test True COMPACT_DETECT_RE (pre @ c)"
  then obtain v where v: "sublist v (pre @ c)" "list_all2 (lit_match True) (js ''Compacting conversation'') v"
    unfolding COMPACT_DETECT_RE_def test_lit by blast
  moreover have "\<not> sublist v pre"
    using assms v(2) unfolding COMPACT_DETECT_RE_def test_lit by blast
  ultimately have "sublist v (drop (length pre - 24) pre @ c)"
    using detect_length [OF v(2)] by (intro sublist_tail) auto
  with v(2) show "test True COMPACT_DETECT_RE (drop (length pre - 24) pre @ c)"
    unfolding COMPACT_DETECT_RE_def test_lit by blast
qed

lemma markRun_detects:
  assumes "terminals w sid = Some t" "compactingSince t = None"
    and "compactDetectTail t = drop (length pre - 24) pre" "\<not> test True COMPACT_DETECT_RE pre"
  shows "True \<in> set (markRun sid w cs) \<longleftrightarrow> test True COMPACT_DETECT_RE (pre @ concat (map snd cs))"
  using assms
proof (induction cs arbitrary: w t pre)
  case Nil
  then show ?case by simp
next
  case (Cons tc cs)
  obtain time c where tc: "tc = (time, c)" by (cases tc)
  let ?w = "w\<lparr>now := time\<rparr>"
  let ?w1 = "markCompactActivity sid c ?w"
  have t: "terminals ?w sid = Some t" using Cons.prems(1) by simp
  have probe: "test True COMPACT_DETECT_RE (compactDetectTail t @ c) \<longleftrightarrow> test True COMPACT_DETECT_RE (pre @ c)"
    unfolding Cons.prems(3) by (rule test_detect_tail [OF Cons.prems(4)])
  consider "c = []" | "c \<noteq> []" "test True COMPACT_DETECT_RE (pre @ c)"
    | "c \<noteq> []" "\<not> test True COMPACT_DETECT_RE (pre @ c)" by blast
  then show ?case
  proof cases
    case 1
    then have "?w1 = ?w" using t Cons.prems(2) by (simp add: markCompactActivity_def)
    with Cons.IH [OF t Cons.prems(2-4)] t Cons.prems(2) 1 tc show ?thesis
      by (simp add: isCompacting_def)
  next
    case 2
    then have "isCompacting sid ?w1"
      using t Cons.prems(2) probe
      by (auto simp: markCompactActivity_def Let_def intro!: noteCompactStart_on)
    moreover have "test True COMPACT_DETECT_RE (pre @ c @ concat (map snd cs))"
      using test_detect_append [OF 2(2)] by simp
    ultimately show ?thesis using tc by simp
  next
    case 3
    let ?t = "t\<lparr>compactDetectTail := slice_from (compactDetectTail t @ c) (- 24)\<rparr>"
    have w1: "terminals ?w1 sid = Some ?t"
      using 3 t Cons.prems(2) probe by (simp add: markCompactActivity_def Let_def)
    have tail: "compactDetectTail ?t = drop (length (pre @ c) - 24) (pre @ c)"
      unfolding liveTerm.simps slice_from_last Cons.prems(3)
      by (cases "24 \<le> length pre") (auto simp: drop_append add.commute)
    have "True \<in> set (markRun sid ?w1 cs) \<longleftrightarrow> test True COMPACT_DETECT_RE ((pre @ c) @ concat (map snd cs))"
      by (rule Cons.IH [OF w1 _ tail 3(2)]) (simp add: Cons.prems(2))
    then show ?thesis
      using w1 Cons.prems(2) tc by (simp add: isCompacting_def)
  qed
qed

section \<open>Properties\<close>

text \<open>A session as \<open>ensureTerminal\<close> leaves it, active and alone, at time 10000; for examples.\<close>

definition freshTerm :: liveTerm where
  "freshTerm = \<lparr>compactingSince = None, compactSeenAt = 0, compactDetectTail = [],
     liveStatusText = [], liveStatusHideTimer = None,
     liveLineOf = \<lparr>liveLineRow = None, liveLineCells = []\<rparr>\<rparr>"

definition oneSession :: "liveTerm \<Rightarrow> liveWorld" where
  "oneSession t = \<lparr>now = 10000, activeSessionId = Some 1, terminals = (\<lambda>_. None)(1 := Some t),
     sessionState = (\<lambda>_. Some SStandby), sessionProvider = (\<lambda>_. []), compactTickTimer = Some 9000,
     extractTimers = (\<lambda>_. None), runningSince = (\<lambda>_. None), mobileView = False,
     pill = \<lparr>pHidden = True, pIdle = False, pWaiting = False, pText = Plain [], pBarHidden = True,
             pLongproc = None\<rparr>\<rparr>"

text \<open>
  Whenever a status frame of the active session, a switch of sessions or the one-second
  tick draws the pill, it is consistent: the compact bar is shown exactly while a compact of
  the active session is live, with its elapsed seconds and neither idle nor waiting colours.
\<close>

theorem live_status_pill_consistent:
  "(activeSessionId w = Some sid \<and> terminals w sid \<noteq> None \<longrightarrow> pillOk (setSessionLiveStatus sid txt w))
   \<and> (activeTerm w \<noteq> None \<longrightarrow> pillOk (syncLiveStatusDomForActive w))
   \<and> (compactTickTimer w = Some due \<and> due \<le> now w \<and> (\<exists>s. activeTerm w = Some s \<and> compactingSince (snd s) \<noteq> None)
        \<longrightarrow> pillOk (fireCompactTick w))"
proof (intro conjI impI)
  show "activeSessionId w = Some sid \<and> terminals w sid \<noteq> None \<Longrightarrow> pillOk (setSessionLiveStatus sid txt w)"
    by (auto simp: setSessionLiveStatus_def Let_def intro!: render_pillOk)
  show "activeTerm w \<noteq> None \<Longrightarrow> pillOk (syncLiveStatusDomForActive w)"
    by (rule sync_pillOk)
  assume a: "compactTickTimer w = Some due \<and> due \<le> now w
    \<and> (\<exists>s. activeTerm w = Some s \<and> compactingSince (snd s) \<noteq> None)"
  let ?w1 = "w\<lparr>compactTickTimer := Some (due + 1000)\<rparr>"
  obtain i t where t: "activeTerm w = Some (i, t)" "compactingSince t \<noteq> None" using a by auto
  have at: "activeTerm ?w1 = Some (i, t)" using t(1) by simp
  have "activeTerm (stopCompactTick (updTerm i clearCompact ?w1)) \<noteq> None"
    using at by (simp add: activeTerm_updTerm)
  with a at t show "pillOk (fireCompactTick w)"
    by (auto simp: fireCompactTick_def Let_def intro!: render_pillOk sync_pillOk)
qed

lemma live_status_pill_consistent_witness:
  "pillOk (setSessionLiveStatus 1 [65] (oneSession freshTerm))"
  using live_status_pill_consistent [of "oneSession freshTerm" 1 "[65]" 0] by (simp add: oneSession_def)

text \<open>
  The start marker of a compact is found exactly when the text of the session's chunks
  holds it, up to case, wherever the chunks are cut: the 24 carried characters are enough.
\<close>

theorem compact_start_detected:
  assumes "terminals w sid = Some t" "compactingSince t = None" "compactDetectTail t = []"
  shows "True \<in> set (markRun sid w cs) \<longleftrightarrow> test True COMPACT_DETECT_RE (concat (map snd cs))"
proof -
  have "\<not> test True COMPACT_DETECT_RE []" by code_simp
  with markRun_detects [of w sid t "[]" cs] assms show ?thesis by simp
qed

lemma compact_start_detected_witness:
  "True \<in> set (markRun 1 (oneSession freshTerm) [(10000, js ''compacting con''), (10001, js ''versation'')])"
proof -
  have "terminals (oneSession freshTerm) 1 = Some freshTerm" by (simp add: oneSession_def)
  moreover have "compactingSince freshTerm = None" "compactDetectTail freshTerm = []"
    by (simp_all add: freshTerm_def)
  moreover have "test True COMPACT_DETECT_RE (concat (map snd
      [(10000 :: int, js ''compacting con''), (10001, js ''versation'')]))"
    by code_simp
  ultimately show ?thesis using compact_start_detected by blast
qed

text \<open>
  A compact whose frames have stopped for more than \<open>COMPACT_IDLE_MS\<close> ends at the next tick:
  the interval is stopped, the session is no longer compacting and the bar is hidden.
\<close>

theorem compact_expires:
  assumes "compactTickTimer w = Some due" "due \<le> now w" "activeSessionId w = Some sid"
    and "terminals w sid = Some t" "compactingSince t \<noteq> None" "now w - compactSeenAt t > COMPACT_IDLE_MS"
  shows "compactTickTimer (fireCompactTick w) = None \<and> \<not> isCompacting sid (fireCompactTick w)
    \<and> pBarHidden (pill (fireCompactTick w))"
proof -
  let ?w1 = "w\<lparr>compactTickTimer := Some (due + 1000)\<rparr>"
  let ?w2 = "stopCompactTick (updTerm sid clearCompact ?w1)"
  have at: "activeTerm ?w1 = Some (sid, t)" using assms by (simp add: activeTerm_def)
  have w2: "terminals ?w2 sid = Some (clearCompact t)" "activeSessionId ?w2 = Some sid"
      "compactTickTimer ?w2 = None"
    using assms by (simp_all add: stopCompactTick_def updTerm_def)
  have sec: "activeCompactElapsedSec ?w2 = (None, ?w2)"
    using w2 by (simp add: activeCompactElapsedSec_def activeTerm_def clearCompact_def)
  obtain m l where v: "liveStatusViewFor sid ?w2 = (m, l)" by fastforce
  then have m: "m \<noteq> MHidden" using view_not_hidden [of sid ?w2] by simp
  have "fireCompactTick w = syncLiveStatusDomForActive ?w2"
    using assms at by (auto simp: fireCompactTick_def Let_def)
  also have "\<dots> = renderLiveStatusDom m l ?w2"
    using w2 sec v by (simp add: syncLiveStatusDomForActive_def activeTerm_def)
  finally show ?thesis
    using m sec w2 by (simp add: renderLiveStatusDom_def isCompacting_def clearCompact_def)
qed

lemma compact_expires_witness:
  "\<not> isCompacting 1 (fireCompactTick (oneSession (freshTerm\<lparr>compactingSince := Some 1000, compactSeenAt := 2000\<rparr>)))"
  by (rule compact_expires [THEN conjunct2, THEN conjunct1, of _ 9000 1
        "freshTerm\<lparr>compactingSince := Some 1000, compactSeenAt := 2000\<rparr>"])
     (simp_all add: oneSession_def COMPACT_IDLE_MS_def)

end
