(* ===== verification/DeferredEnter.thy ===== *)
theory DeferredEnter
  imports Prelude
begin

text \<open>
  \<open>src/web/src/app/deferred-enter.ts\<close>: the carriage return that submits a pasted text (or the
  paste that follows an injected image) is sent once, when the session's output has been quiet
  for a while, and at the latest when a safety timer runs out. Timers are due times in the
  state, the firing of a timer is an operation that acts when its time has come; callbacks and
  actions are reduced to whether they return or throw. Every effect is recorded in a trace.
\<close>

section \<open>State\<close>

definition IDLE_SETTLE_MS :: int where "IDLE_SETTLE_MS = 120"
definition MIN_WAIT_MS :: int where "MIN_WAIT_MS = 120"
definition SLOW_PASTE_MIN_WAIT_MS :: int where "SLOW_PASTE_MIN_WAIT_MS = 700"
definition SLOW_PASTE_PROVIDERS :: "jstr list" where
  "SLOW_PASTE_PROVIDERS = [js ''codex'', js ''opencode'']"
definition MAX_WAIT_MS :: int where "MAX_WAIT_MS = 30000"
definition INJECT_SETTLE_MAX_WAIT_MS :: int where "INJECT_SETTLE_MAX_WAIT_MS = 4000"

definition deferredEnterMinWaitFor :: "jstr \<Rightarrow> int" where
  "deferredEnterMinWaitFor provider =
     (if List.member SLOW_PASTE_PROVIDERS provider then SLOW_PASTE_MIN_WAIT_MS else MIN_WAIT_MS)"

datatype callback = NoCallback | Returns | Throws

text \<open>The action: the guarded \<open>sendText(id, '\r')\<close>, which never throws, or a caller's action.\<close>

datatype deAction = SendEnter | CallerAction nat callback

record pendingEnter =
  startedAt :: int
  idleTimer :: "int option"
  maxTimer :: "int option"
  fired :: bool
  minWaitMs :: int
  action :: deAction
  onInjected :: callback
  onAcked :: callback

text \<open>
  The trace: a reservation is made, fires (with the time, its start and its two waits), calls
  back or acts.
\<close>

datatype deEvent =
    EvScheduled int
  | EvFired int int int int int  \<comment> \<open>session, now, startedAt, minWait, maxWait\<close>
  | EvInjected int
  | EvEnter int
  | EvAction int nat
  | EvAcked int

record deWorld =
  deNow :: int
  pendingOf :: "int \<Rightarrow> pendingEnter option"
  sessionLive :: "int \<Rightarrow> bool"
  trace :: "deEvent list"

section \<open>Operations\<close>

text \<open>
  What \<open>fire\<close> runs inside its \<open>try\<close>: the callbacks and the action in order, up to the first that
  throws.
\<close>

definition runAction :: "int \<Rightarrow> pendingEnter \<Rightarrow> deEvent list" where
  "runAction sid p =
     (let onInj = (if onInjected p = NoCallback then [] else [EvInjected sid]);
          act = (case action p of SendEnter \<Rightarrow> EvEnter sid | CallerAction n _ \<Rightarrow> EvAction sid n);
          thrown = (case action p of SendEnter \<Rightarrow> False | CallerAction _ c \<Rightarrow> c = Throws);
          ack = (if onAcked p = NoCallback then [] else [EvAcked sid])
      in if onInjected p = Throws then onInj
         else if thrown then onInj @ [act]
         else onInj @ [act] @ ack)"

definition fireEnter :: "int \<Rightarrow> deWorld \<Rightarrow> deWorld" where
  "fireEnter sid w =
     (case pendingOf w sid of
        None \<Rightarrow> w
      | Some p \<Rightarrow>
          if fired p then w
          else (let w1 = w\<lparr>pendingOf := (pendingOf w)(sid := None)\<rparr> in
            if \<not> sessionLive w sid then w1
            else w1\<lparr>trace := trace w @ EvFired sid (deNow w) (startedAt p) (minWaitMs p)
                     (case maxTimer p of None \<Rightarrow> 0 | Some m \<Rightarrow> m - startedAt p) # runAction sid p\<rparr>))"

definition armIdle :: "int \<Rightarrow> deWorld \<Rightarrow> deWorld" where
  "armIdle sid w =
     (case pendingOf w sid of
        None \<Rightarrow> w
      | Some p \<Rightarrow>
          if fired p then w
          else (let elapsed = deNow w - startedAt p;
                    wait = max IDLE_SETTLE_MS (minWaitMs p - elapsed)
                in w\<lparr>pendingOf := (pendingOf w)(sid := Some (p\<lparr>idleTimer := Some (deNow w + wait)\<rparr>))\<rparr>))"

definition cancelDeferredEnter :: "int \<Rightarrow> deWorld \<Rightarrow> deWorld" where
  "cancelDeferredEnter sid w = w\<lparr>pendingOf := (pendingOf w)(sid := None)\<rparr>"

definition scheduleEnter ::
  "int \<Rightarrow> deAction \<Rightarrow> int \<Rightarrow> int \<Rightarrow> callback \<Rightarrow> callback \<Rightarrow> deWorld \<Rightarrow> deWorld" where
  "scheduleEnter sid act maxWait minWait onInj ack w =
     (let w1 = cancelDeferredEnter sid w;
          p = \<lparr>startedAt = deNow w, idleTimer = None, maxTimer = Some (deNow w + maxWait),
               fired = False, minWaitMs = minWait, action = act, onInjected = onInj, onAcked = ack\<rparr>
      in armIdle sid (w1\<lparr>pendingOf := (pendingOf w1)(sid := Some p), trace := trace w1 @ [EvScheduled sid]\<rparr>))"

definition scheduleDeferredEnter :: "int \<Rightarrow> int \<Rightarrow> callback \<Rightarrow> callback \<Rightarrow> deWorld \<Rightarrow> deWorld" where
  "scheduleDeferredEnter sid minWait onInj ack w = scheduleEnter sid SendEnter MAX_WAIT_MS minWait onInj ack w"

definition scheduleAfterOutputSettle :: "int \<Rightarrow> nat \<Rightarrow> callback \<Rightarrow> deWorld \<Rightarrow> deWorld" where
  "scheduleAfterOutputSettle sid n c w =
     scheduleEnter sid (CallerAction n c) INJECT_SETTLE_MAX_WAIT_MS MIN_WAIT_MS NoCallback NoCallback w"

definition notifyDeferredEnterOutput :: "int \<Rightarrow> deWorld \<Rightarrow> deWorld" where
  "notifyDeferredEnterOutput sid w =
     (case pendingOf w sid of
        None \<Rightarrow> w
      | Some p \<Rightarrow> if fired p then w else armIdle sid w)"

definition hasPendingDeferredEnter :: "int \<Rightarrow> deWorld \<Rightarrow> bool" where
  "hasPendingDeferredEnter sid w \<longleftrightarrow> pendingOf w sid \<noteq> None"

text \<open>The event loop runs a timer that is due.\<close>

definition idleDue :: "int \<Rightarrow> deWorld \<Rightarrow> bool" where
  "idleDue sid w \<longleftrightarrow> (case pendingOf w sid of None \<Rightarrow> False
     | Some p \<Rightarrow> (case idleTimer p of None \<Rightarrow> False | Some d \<Rightarrow> d \<le> deNow w))"

definition maxDue :: "int \<Rightarrow> deWorld \<Rightarrow> bool" where
  "maxDue sid w \<longleftrightarrow> (case pendingOf w sid of None \<Rightarrow> False
     | Some p \<Rightarrow> (case maxTimer p of None \<Rightarrow> False | Some d \<Rightarrow> d \<le> deNow w))"

section \<open>Runs\<close>

text \<open>
  One step of the page: a call of the module, output of the session, a timer that is due, the
  end of a session, or time passing. Waits are not negative and below the safety wait, as at
  every call in the source.
\<close>

inductive de_step :: "deWorld \<Rightarrow> deWorld \<Rightarrow> bool" where
  de_enter: "0 \<le> m \<Longrightarrow> m \<le> MAX_WAIT_MS \<Longrightarrow> de_step w (scheduleDeferredEnter sid m onInj ack w)"
| de_settle: "de_step w (scheduleAfterOutputSettle sid n c w)"
| de_output: "de_step w (notifyDeferredEnterOutput sid w)"
| de_cancel: "de_step w (cancelDeferredEnter sid w)"
| de_idle: "idleDue sid w \<Longrightarrow> de_step w (fireEnter sid w)"
| de_max: "maxDue sid w \<Longrightarrow> de_step w (fireEnter sid w)"
| de_time: "0 \<le> d \<Longrightarrow> de_step w (w\<lparr>deNow := deNow w + d\<rparr>)"
| de_sessions: "de_step w (w\<lparr>sessionLive := f\<rparr>)"

inductive_cases de_stepE: "de_step w w'"

definition deInit :: "(int \<Rightarrow> bool) \<Rightarrow> int \<Rightarrow> deWorld" where
  "deInit live t = \<lparr>deNow = t, pendingOf = (\<lambda>_. None), sessionLive = live, trace = []\<rparr>"

inductive de_reach :: "deWorld \<Rightarrow> bool" where
  de_reach_init: "de_reach (deInit live t)"
| de_reach_step: "de_reach w \<Longrightarrow> de_step w w' \<Longrightarrow> de_reach w'"

section \<open>Invariant\<close>

text \<open>
  A reservation has both timers armed, the safety timer where it was set at the start, the idle
  timer never before the minimum wait; it has not fired.
\<close>

definition pendOk :: "int \<Rightarrow> pendingEnter \<Rightarrow> bool" where
  "pendOk t p \<longleftrightarrow> \<not> fired p \<and> startedAt p \<le> t \<and> 0 \<le> minWaitMs p \<and>
     (\<exists>m. maxTimer p = Some (startedAt p + m) \<and> minWaitMs p \<le> m \<and> m \<le> MAX_WAIT_MS) \<and>
     (\<exists>d. idleTimer p = Some d \<and> startedAt p + minWaitMs p \<le> d \<and> startedAt p + IDLE_SETTLE_MS \<le> d
        \<and> d \<le> max (t + IDLE_SETTLE_MS) (startedAt p + minWaitMs p))"

definition firedOk :: "deEvent \<Rightarrow> bool" where
  "firedOk e \<longleftrightarrow> (case e of EvFired sid t s mn mx \<Rightarrow> s + mn \<le> t \<and> mn \<le> mx \<and> mx \<le> MAX_WAIT_MS | _ \<Rightarrow> True)"

definition nScheduled :: "int \<Rightarrow> deEvent list \<Rightarrow> nat" where
  "nScheduled sid tr = length (filter (\<lambda>e. e = EvScheduled sid) tr)"

definition nActions :: "int \<Rightarrow> deEvent list \<Rightarrow> nat" where
  "nActions sid tr = length (filter (\<lambda>e. e = EvEnter sid \<or> (\<exists>n. e = EvAction sid n)) tr)"

definition nOpen :: "int \<Rightarrow> deWorld \<Rightarrow> nat" where
  "nOpen sid w = (case pendingOf w sid of None \<Rightarrow> 0 | Some _ \<Rightarrow> 1)"

lemma nOpen_simps [simp]:
  "nOpen s (w\<lparr>pendingOf := (pendingOf w)(sid := Some p)\<rparr>) = (if s = sid then 1 else nOpen s w)"
  "nOpen s (w\<lparr>pendingOf := (pendingOf w)(sid := None)\<rparr>) = (if s = sid then 0 else nOpen s w)"
  "nOpen s (w\<lparr>trace := tr\<rparr>) = nOpen s w" "nOpen s (w\<lparr>deNow := t\<rparr>) = nOpen s w"
  "nOpen s (w\<lparr>sessionLive := f\<rparr>) = nOpen s w"
  "nOpen s (w\<lparr>pendingOf := (pendingOf w)(sid := Some p), trace := tr\<rparr>) = (if s = sid then 1 else nOpen s w)"
  "nOpen s (w\<lparr>pendingOf := (pendingOf w)(sid := None), trace := tr\<rparr>) = (if s = sid then 0 else nOpen s w)"
  by (simp_all add: nOpen_def)

lemma nOpen_Some: "pendingOf w sid = Some p \<Longrightarrow> nOpen sid w = 1"
  by (simp add: nOpen_def)

definition deInv :: "deWorld \<Rightarrow> bool" where
  "deInv w \<longleftrightarrow>
     (\<forall>sid p. pendingOf w sid = Some p \<longrightarrow> pendOk (deNow w) p) \<and>
     (\<forall>e \<in> set (trace w). firedOk e) \<and>
     (\<forall>sid. nActions sid (trace w) + nOpen sid w \<le> nScheduled sid (trace w))"

lemma deInvI:
  assumes "\<And>sid p. pendingOf w sid = Some p \<Longrightarrow> pendOk (deNow w) p"
    and "\<And>e. e \<in> set (trace w) \<Longrightarrow> firedOk e"
    and "\<And>sid. nActions sid (trace w) + nOpen sid w \<le> nScheduled sid (trace w)"
  shows "deInv w"
  using assms by (simp add: deInv_def)

lemma deInvD:
  assumes "deInv w"
  shows "pendingOf w sid = Some p \<Longrightarrow> pendOk (deNow w) p"
    and "e \<in> set (trace w) \<Longrightarrow> firedOk e"
    and "nActions sid (trace w) + nOpen sid w \<le> nScheduled sid (trace w)"
  using assms unfolding deInv_def by blast+

lemma nScheduled_simps [simp]:
  "nScheduled sid [] = 0" "nScheduled sid (xs @ ys) = nScheduled sid xs + nScheduled sid ys"
  "nScheduled sid (e # xs) = (if e = EvScheduled sid then 1 else 0) + nScheduled sid xs"
  by (simp_all add: nScheduled_def)

lemma nActions_simps [simp]:
  "nActions sid [] = 0" "nActions sid (xs @ ys) = nActions sid xs + nActions sid ys"
  "nActions sid (e # xs) = (if e = EvEnter sid \<or> (\<exists>n. e = EvAction sid n) then 1 else 0) + nActions sid xs"
  by (simp_all add: nActions_def)

lemma runAction_counts:
  "nScheduled s (runAction sid p) = 0" "nActions s (runAction sid p) \<le> (if s = sid then 1 else 0)"
  "\<forall>e \<in> set (runAction sid p). firedOk e"
  by (auto simp: runAction_def Let_def firedOk_def split: deAction.splits)

lemma pendOk_later: "pendOk t p \<Longrightarrow> t \<le> t' \<Longrightarrow> pendOk t' p"
  by (auto simp: pendOk_def)

lemma armIdle_pendOk:
  assumes "\<not> fired p" "startedAt p \<le> t" "0 \<le> minWaitMs p"
    and "maxTimer p = Some (startedAt p + m)" "minWaitMs p \<le> m" "m \<le> MAX_WAIT_MS"
  shows "pendOk t (p\<lparr>idleTimer := Some (t + max IDLE_SETTLE_MS (minWaitMs p - (t - startedAt p)))\<rparr>)"
  using assms by (auto simp: pendOk_def IDLE_SETTLE_MS_def max_def)

lemma schedule_inv:
  assumes "deInv w" "0 \<le> mn" "mn \<le> mx" "mx \<le> MAX_WAIT_MS"
  shows "deInv (scheduleEnter sid act mx mn onInj ack w)"
proof -
  let ?p = "\<lparr>startedAt = deNow w, idleTimer = None, maxTimer = Some (deNow w + mx), fired = False,
      minWaitMs = mn, action = act, onInjected = onInj, onAcked = ack\<rparr>"
  let ?p' = "?p\<lparr>idleTimer := Some (deNow w + max IDLE_SETTLE_MS (mn - 0))\<rparr>"
  have ok: "pendOk (deNow w) ?p'"
    using armIdle_pendOk [of ?p "deNow w" mx] assms by simp
  have w': "scheduleEnter sid act mx mn onInj ack w
      = w\<lparr>pendingOf := (pendingOf w)(sid := Some ?p'), trace := trace w @ [EvScheduled sid]\<rparr>"
    by (simp add: scheduleEnter_def cancelDeferredEnter_def armIdle_def Let_def)
  have "nActions s (trace w) \<le> nScheduled s (trace w)" for s
    using deInvD(3) [OF assms(1), of s] by simp
  then show ?thesis
    unfolding w' using deInvD [OF assms(1)] ok
    by (intro deInvI) (auto simp: firedOk_def split: if_splits)
qed

lemma armIdle_inv: "deInv w \<Longrightarrow> deInv (armIdle sid w)"
proof (cases "pendingOf w sid")
  case (Some p)
  assume inv: "deInv w"
  then have ok: "pendOk (deNow w) p" using Some by (simp add: deInv_def)
  then obtain m where m: "maxTimer p = Some (startedAt p + m)" "minWaitMs p \<le> m" "m \<le> MAX_WAIT_MS"
      "\<not> fired p" "startedAt p \<le> deNow w" "0 \<le> minWaitMs p"
    by (auto simp: pendOk_def)
  have "pendOk (deNow w) (p\<lparr>idleTimer :=
      Some (deNow w + max IDLE_SETTLE_MS (minWaitMs p - (deNow w - startedAt p)))\<rparr>)"
    by (rule armIdle_pendOk [OF m(4,5,6,1,2,3)])
  with Some m(4) deInvD [OF inv] deInvD(3) [OF inv, of sid] nOpen_Some [OF Some] show ?thesis
    by (intro deInvI) (auto simp: armIdle_def Let_def split: if_splits)
next
  case None
  then show "deInv w \<Longrightarrow> deInv (armIdle sid w)" by (simp add: armIdle_def)
qed

lemma cancel_inv: "deInv w \<Longrightarrow> deInv (cancelDeferredEnter sid w)"
proof -
  assume inv: "deInv w"
  have "nActions s (trace w) \<le> nScheduled s (trace w)" for s
    using deInvD(3) [OF inv, of s] by simp
  with deInvD [OF inv] show ?thesis
    by (intro deInvI) (auto simp: cancelDeferredEnter_def split: if_splits)
qed

lemma fire_inv:
  assumes "deInv w" "idleDue sid w \<or> maxDue sid w"
  shows "deInv (fireEnter sid w)"
proof (cases "pendingOf w sid")
  case None
  with assms show ?thesis by (simp add: fireEnter_def)
next
  case (Some p)
  then have ok: "pendOk (deNow w) p" using assms(1) by (simp add: deInv_def)
  then obtain m d where p: "\<not> fired p" "maxTimer p = Some (startedAt p + m)" "minWaitMs p \<le> m"
      "m \<le> MAX_WAIT_MS" "idleTimer p = Some d" "startedAt p + minWaitMs p \<le> d"
    by (auto simp: pendOk_def)
  have cancelled: "deInv (cancelDeferredEnter sid w)" by (rule cancel_inv [OF assms(1)])
  show ?thesis
  proof (cases "sessionLive w sid")
    case False
    with cancelled Some p show ?thesis by (simp add: fireEnter_def cancelDeferredEnter_def)
  next
    case True
    let ?ev = "EvFired sid (deNow w) (startedAt p) (minWaitMs p) m"
    have "firedOk ?ev"
      using assms(2) Some p by (auto simp: firedOk_def idleDue_def maxDue_def)
    moreover have "nActions sid (trace w) + 1 \<le> nScheduled sid (trace w)"
      using deInvD(3) [OF assms(1), of sid] nOpen_Some [OF Some] by simp
    then have "nActions sid (trace w) + nActions sid (runAction sid p) \<le> nScheduled sid (trace w)"
      using runAction_counts(2) [of sid sid p] by simp
    moreover have "nActions s (runAction sid p) = 0" if "s \<noteq> sid" for s
      using runAction_counts(2) [of s sid p] that by simp
    moreover have "fireEnter sid w = (cancelDeferredEnter sid w)\<lparr>trace := trace w @ ?ev # runAction sid p\<rparr>"
      using Some p True by (simp add: fireEnter_def cancelDeferredEnter_def Let_def)
    moreover have "nActions s (trace w) + nOpen s w \<le> nScheduled s (trace w)" for s
      by (rule deInvD(3) [OF assms(1)])
    ultimately show ?thesis
      using deInvD(1,2) [OF cancelled] runAction_counts(1,3)
      by (intro deInvI) (auto simp: cancelDeferredEnter_def split: if_splits)
  qed
qed

lemma de_step_inv: "de_step w w' \<Longrightarrow> deInv w \<Longrightarrow> deInv w'"
proof (induction rule: de_step.induct)
  case (de_enter m w sid onInj ack)
  then show ?case
    unfolding scheduleDeferredEnter_def by (intro schedule_inv) simp_all
next
  case (de_settle w sid n c)
  then show ?case
    unfolding scheduleAfterOutputSettle_def
    by (intro schedule_inv) (simp_all add: MIN_WAIT_MS_def INJECT_SETTLE_MAX_WAIT_MS_def MAX_WAIT_MS_def)
next
  case (de_output w sid)
  then show ?case
    by (auto simp: notifyDeferredEnterOutput_def armIdle_inv split: option.split)
next
  case (de_time d w)
  note inv = deInvD [OF de_time(2)]
  have "pendOk (deNow w + d) p" if "pendingOf w s = Some p" for s p
    using pendOk_later [OF inv(1) [OF that], of "deNow w + d"] de_time(1) by simp
  with inv(2,3) show ?case by (intro deInvI) auto
next
  case (de_sessions w f)
  from deInvD [OF this] show ?case by (intro deInvI) auto
qed (auto intro: cancel_inv fire_inv)

lemma de_reach_inv: "de_reach w \<Longrightarrow> deInv w"
proof (induction rule: de_reach.induct)
  case (de_reach_init live t)
  show ?case by (rule deInvI) (simp_all add: deInit_def nOpen_def)
next
  case (de_reach_step w w')
  then show ?case by (blast intro: de_step_inv)
qed

section \<open>Properties\<close>

text \<open>
  C38: However calls, output, cancellations, timers and session ends interleave, a session's
  carriage return or action is sent at most once per reservation, and a reservation that is
  still open has not been sent.
\<close>

theorem deferred_enter_at_most_once:
  assumes "de_reach w"
  shows "nActions sid (trace w) + (if hasPendingDeferredEnter sid w then 1 else 0) \<le> nScheduled sid (trace w)"
  using deInvD(3) [OF de_reach_inv [OF assms], of sid]
  by (simp add: hasPendingDeferredEnter_def nOpen_def split: option.splits)

lemma deferred_enter_at_most_once_witness:
  "nActions 1 (trace (scheduleDeferredEnter 1 120 NoCallback NoCallback (deInit (\<lambda>_. True) 0)))
     + 1 \<le> nScheduled 1 (trace (scheduleDeferredEnter 1 120 NoCallback NoCallback (deInit (\<lambda>_. True) 0)))"
proof -
  let ?w = "scheduleDeferredEnter 1 120 NoCallback NoCallback (deInit (\<lambda>_. True) 0)"
  have "de_reach ?w"
    by (rule de_reach_step [OF de_reach_init de_enter]) (simp_all add: MAX_WAIT_MS_def)
  from deferred_enter_at_most_once [OF this, of 1] show ?thesis
    by (simp add: hasPendingDeferredEnter_def scheduleDeferredEnter_def scheduleEnter_def armIdle_def
        cancelDeferredEnter_def Let_def)
qed

text \<open>
  A reservation never fires before its minimum wait.
\<close>

theorem deferred_enter_not_early:
  assumes "de_reach w" "EvFired sid t start minWait maxWait \<in> set (trace w)"
  shows "start + minWait \<le> t \<and> minWait \<le> maxWait \<and> maxWait \<le> MAX_WAIT_MS"
  using deInvD(2) [OF de_reach_inv [OF assms(1)] assms(2)] by (simp add: firedOk_def)

text \<open>A run: a reservation, time passing, the idle timer.\<close>

definition quietRun :: deWorld where
  "quietRun = fireEnter 1 ((scheduleDeferredEnter 1 120 NoCallback NoCallback (deInit (\<lambda>_. True) 0))\<lparr>deNow := 120\<rparr>)"

lemma scheduled_state:
  "scheduleDeferredEnter 1 120 NoCallback NoCallback (deInit (\<lambda>_. True) 0)
     = \<lparr>deNow = 0, pendingOf = (\<lambda>_. None)(1 := Some \<lparr>startedAt = 0, idleTimer = Some 120, maxTimer = Some 30000,
          fired = False, minWaitMs = 120, action = SendEnter, onInjected = NoCallback, onAcked = NoCallback\<rparr>),
        sessionLive = (\<lambda>_. True), trace = [EvScheduled 1]\<rparr>"
  by (simp add: scheduleDeferredEnter_def scheduleEnter_def armIdle_def cancelDeferredEnter_def deInit_def
      Let_def IDLE_SETTLE_MS_def MAX_WAIT_MS_def)

lemma scheduled_reach: "de_reach (scheduleDeferredEnter 1 120 NoCallback NoCallback (deInit (\<lambda>_. True) 0))"
  by (rule de_reach_step [OF de_reach_init de_enter]) (simp_all add: MAX_WAIT_MS_def)

lemma quietRun_reach: "de_reach quietRun" "trace quietRun = [EvScheduled 1, EvFired 1 120 0 120 30000, EvEnter 1]"
proof -
  let ?w = "scheduleDeferredEnter 1 120 NoCallback NoCallback (deInit (\<lambda>_. True) 0)"
  have "de_reach (?w\<lparr>deNow := deNow ?w + 120\<rparr>)"
    by (rule de_reach_step [OF scheduled_reach de_time]) simp
  then have "de_reach (?w\<lparr>deNow := 120\<rparr>)" by (simp add: scheduled_state)
  then show "de_reach quietRun"
    unfolding quietRun_def
    by (rule de_reach_step) (rule de_idle, simp add: scheduled_state idleDue_def)
  show "trace quietRun = [EvScheduled 1, EvFired 1 120 0 120 30000, EvEnter 1]"
    by (simp add: quietRun_def scheduled_state fireEnter_def runAction_def)
qed

lemma deferred_enter_not_early_witness:
  "EvFired 1 120 0 120 30000 \<in> set (trace quietRun) \<and> (0 :: int) + 120 \<le> 120 \<and> 30000 \<le> MAX_WAIT_MS"
proof -
  have ev: "EvFired 1 120 0 120 30000 \<in> set (trace quietRun)" by (simp add: quietRun_reach(2))
  with deferred_enter_not_early [OF quietRun_reach(1) ev] show ?thesis by simp
qed

text \<open>
  A reservation cannot get stuck: as long as it is open both of its timers are armed, the
  safety timer at a fixed time after the start whatever the output does, and running the safety
  timer then sends the carriage return if the session still exists.
\<close>

theorem deferred_enter_fires:
  assumes "de_reach w" "pendingOf w sid = Some p"
  shows "\<exists>m d. maxTimer p = Some (startedAt p + m) \<and> m \<le> MAX_WAIT_MS \<and> idleTimer p = Some d \<and>
    d \<le> max (deNow w + IDLE_SETTLE_MS) (startedAt p + minWaitMs p) \<and>
    (action p = SendEnter \<and> onInjected p \<noteq> Throws \<and> sessionLive w sid \<longrightarrow>
       EvEnter sid \<in> set (drop (length (trace w)) (trace (fireEnter sid w)))
       \<and> \<not> hasPendingDeferredEnter sid (fireEnter sid w))"
proof -
  have ok: "pendOk (deNow w) p"
    using de_reach_inv [OF assms(1)] assms(2) by (simp add: deInv_def)
  moreover have "\<not> fired p" using ok by (simp add: pendOk_def)
  ultimately show ?thesis
    using assms(2)
    by (auto simp: pendOk_def fireEnter_def runAction_def hasPendingDeferredEnter_def Let_def)
qed

lemma deferred_enter_fires_witness:
  "EvEnter 1 \<in> set (drop 1 (trace (fireEnter 1
     (scheduleDeferredEnter 1 120 NoCallback NoCallback (deInit (\<lambda>_. True) 0)))))"
proof -
  let ?w = "scheduleDeferredEnter 1 120 NoCallback NoCallback (deInit (\<lambda>_. True) 0)"
  obtain p where p: "pendingOf ?w 1 = Some p" "action p = SendEnter" "onInjected p \<noteq> Throws" "sessionLive ?w 1"
      "length (trace ?w) = 1"
    by (simp add: scheduled_state)
  from deferred_enter_fires [OF scheduled_reach p(1)] p(2-5) show ?thesis by auto
qed

end
