(* ===== verification/ResidueSweep.thy ===== *)
theory ResidueSweep
  imports DeferredEnter
begin

text \<open>
  \<open>src/web/src/app/residue-sweep.ts\<close>: some time after a text was sent, the input line of the
  session's screen is inspected, and the line is cleared with one Ctrl+U only when a fragment
  of the sent text is still seen there. The check is put off while a carriage return is pending
  or the session is not the active one, up to a number of retries.
\<close>

section \<open>State\<close>

definition SWEEP_IDLE_SETTLE_MS :: int where "SWEEP_IDLE_SETTLE_MS = 1500"
definition SWEEP_MIN_WAIT_MS :: int where "SWEEP_MIN_WAIT_MS = 2500"
definition RETRY_MS :: int where "RETRY_MS = 5000"
definition MAX_RETRIES :: nat where "MAX_RETRIES = 60"
definition SCAN_LINES :: nat where "SCAN_LINES = 12"
definition MIN_FRAGMENT_LEN :: nat where "MIN_FRAGMENT_LEN = 5"

record sweep =
  sweepStart :: int
  sweepTimer :: "int option"
  retries :: nat
  fragments :: "jstr list"

text \<open>A Ctrl+U: session, time, start of the sweep, the lines inspected and the fragments.\<close>

datatype clearEvent =
  Clear (clSession: int) (clTime: int) (clStart: int) (clTail: "jstr list") (clFragments: "jstr list")

record sweepWorld =
  enters :: deWorld
  activeId :: "int option"
  providerOf :: "int \<Rightarrow> jstr"
  screenOf :: "int \<Rightarrow> jstr list"
  sweeps :: "int \<Rightarrow> sweep option"
  cleared :: "clearEvent list"

section \<open>Operations\<close>

definition shouldSkipClearPrefix :: "jstr \<Rightarrow> bool" where
  "shouldSkipClearPrefix provider \<longleftrightarrow> provider = js ''shell'' \<or> provider = js ''codex''"

definition buildFragments :: "jstr \<Rightarrow> bool \<Rightarrow> jstr list" where
  "buildFragments rawText isMultiLine =
     (let firstLine = (case List.find (\<lambda>l. trim l \<noteq> []) (split_on nl rawText) of
              None \<Rightarrow> [] | Some l \<Rightarrow> trim l);
          head = slice firstLine 0 24
      in (if MIN_FRAGMENT_LEN \<le> length head then [head] else [])
         @ (if isMultiLine then [js ''[Pasted text''] else []))"

text \<open>\<open>scanBuffer(id, limit)\<close>: the last lines of the widget's buffer.\<close>

definition scanBuffer :: "nat \<Rightarrow> jstr list \<Rightarrow> jstr list" where
  "scanBuffer limit buf = drop (length buf - limit) buf"

definition setSweep :: "int \<Rightarrow> sweep option \<Rightarrow> sweepWorld \<Rightarrow> sweepWorld" where
  "setSweep sid p w = w\<lparr>sweeps := (sweeps w)(sid := p)\<rparr>"

definition retryLater :: "int \<Rightarrow> sweepWorld \<Rightarrow> sweepWorld" where
  "retryLater sid w =
     (case sweeps w sid of
        None \<Rightarrow> w
      | Some p \<Rightarrow>
          if MAX_RETRIES < retries p + 1 then setSweep sid None w
          else setSweep sid (Some (p\<lparr>retries := retries p + 1,
                                     sweepTimer := Some (deNow (enters w) + RETRY_MS)\<rparr>)) w)"

definition sweepFire :: "int \<Rightarrow> sweepWorld \<Rightarrow> sweepWorld" where
  "sweepFire sid w =
     (case sweeps w sid of
        None \<Rightarrow> w
      | Some p \<Rightarrow>
          if \<not> sessionLive (enters w) sid then setSweep sid None w
          else if hasPendingDeferredEnter sid (enters w) then retryLater sid w
          else if activeId w \<noteq> Some sid then retryLater sid w
          else
            (let w1 = setSweep sid None w;
                 tail = scanBuffer SCAN_LINES (screenOf w sid);
                 stuck = list_ex (\<lambda>line. list_ex (\<lambda>f. str_includes line f) (fragments p)) tail
             in if stuck
                then w1\<lparr>cleared := cleared w @ [Clear sid (deNow (enters w)) (sweepStart p) tail (fragments p)]\<rparr>
                else w1))"

definition sweepArmIdle :: "int \<Rightarrow> sweepWorld \<Rightarrow> sweepWorld" where
  "sweepArmIdle sid w =
     (case sweeps w sid of
        None \<Rightarrow> w
      | Some p \<Rightarrow>
          (let elapsed = deNow (enters w) - sweepStart p;
               wait = max SWEEP_IDLE_SETTLE_MS (SWEEP_MIN_WAIT_MS - elapsed)
           in setSweep sid (Some (p\<lparr>sweepTimer := Some (deNow (enters w) + wait)\<rparr>)) w))"

definition cancelResidueSweep :: "int \<Rightarrow> sweepWorld \<Rightarrow> sweepWorld" where
  "cancelResidueSweep sid w = setSweep sid None w"

definition scheduleResidueSweep :: "int \<Rightarrow> jstr \<Rightarrow> bool \<Rightarrow> sweepWorld \<Rightarrow> sweepWorld" where
  "scheduleResidueSweep sid rawText isMultiLine w =
     (let w1 = cancelResidueSweep sid w in
      if shouldSkipClearPrefix (providerOf w sid) then w1
      else (let frs = buildFragments rawText isMultiLine in
        if frs = [] then w1
        else sweepArmIdle sid (setSweep sid
               (Some \<lparr>sweepStart = deNow (enters w), sweepTimer = None, retries = 0, fragments = frs\<rparr>) w1)))"

definition notifyResidueSweepOutput :: "int \<Rightarrow> sweepWorld \<Rightarrow> sweepWorld" where
  "notifyResidueSweepOutput sid w = (if sweeps w sid \<noteq> None then sweepArmIdle sid w else w)"

definition sweepDue :: "int \<Rightarrow> sweepWorld \<Rightarrow> bool" where
  "sweepDue sid w \<longleftrightarrow> (case sweeps w sid of None \<Rightarrow> False
     | Some p \<Rightarrow> (case sweepTimer p of None \<Rightarrow> False | Some d \<Rightarrow> d \<le> deNow (enters w)))"

section \<open>Runs\<close>

text \<open>
  The module's calls and its timer, and everything around it: steps of the deferred-enter
  module (time included), changes of the active session, of the providers and of the screens.
\<close>

inductive rs_step :: "sweepWorld \<Rightarrow> sweepWorld \<Rightarrow> bool" where
  rs_schedule: "rs_step w (scheduleResidueSweep sid rawText multi w)"
| rs_output: "rs_step w (notifyResidueSweepOutput sid w)"
| rs_cancel: "rs_step w (cancelResidueSweep sid w)"
| rs_fire: "sweepDue sid w \<Longrightarrow> rs_step w (sweepFire sid w)"
| rs_enter: "de_step (enters w) e \<Longrightarrow> deNow (enters w) \<le> deNow e \<Longrightarrow> rs_step w (w\<lparr>enters := e\<rparr>)"
| rs_world: "rs_step w (w\<lparr>activeId := a, providerOf := ps, screenOf := scr\<rparr>)"

inductive rs_reach :: "sweepWorld \<Rightarrow> bool" where
  rs_reach_init: "sweeps w = (\<lambda>_. None) \<Longrightarrow> cleared w = [] \<Longrightarrow> rs_reach w"
| rs_reach_step: "rs_reach w \<Longrightarrow> rs_step w w' \<Longrightarrow> rs_reach w'"

definition sweepOk :: "sweep \<Rightarrow> bool" where
  "sweepOk p \<longleftrightarrow> retries p \<le> MAX_RETRIES \<and> fragments p \<noteq> [] \<and>
     (\<forall>f \<in> set (fragments p). MIN_FRAGMENT_LEN \<le> length f \<and> length f \<le> 24) \<and>
     (\<exists>d. sweepTimer p = Some d \<and> sweepStart p + SWEEP_MIN_WAIT_MS \<le> d)"

definition clearOk :: "clearEvent \<Rightarrow> bool" where
  "clearOk c \<longleftrightarrow> clStart c + SWEEP_MIN_WAIT_MS \<le> clTime c \<and> length (clTail c) \<le> SCAN_LINES \<and>
     (\<forall>f \<in> set (clFragments c). MIN_FRAGMENT_LEN \<le> length f) \<and>
     (\<exists>line \<in> set (clTail c). \<exists>f \<in> set (clFragments c). sublist f line)"

definition rsInv :: "sweepWorld \<Rightarrow> bool" where
  "rsInv w \<longleftrightarrow> (\<forall>sid p. sweeps w sid = Some p \<longrightarrow> sweepOk p \<and> sweepStart p \<le> deNow (enters w)) \<and>
     (\<forall>c \<in> set (cleared w). clearOk c)"

lemma rsInvI:
  assumes "\<And>sid p. sweeps w sid = Some p \<Longrightarrow> sweepOk p \<and> sweepStart p \<le> deNow (enters w)"
    and "\<And>c. c \<in> set (cleared w) \<Longrightarrow> clearOk c"
  shows "rsInv w"
  using assms by (simp add: rsInv_def)

lemma rsInvD:
  assumes "rsInv w"
  shows "sweeps w sid = Some p \<Longrightarrow> sweepOk p" "sweeps w sid = Some p \<Longrightarrow> sweepStart p \<le> deNow (enters w)"
    and "c \<in> set (cleared w) \<Longrightarrow> clearOk c"
  using assms unfolding rsInv_def by blast+

lemma buildFragments_length:
  "f \<in> set (buildFragments t m) \<Longrightarrow> MIN_FRAGMENT_LEN \<le> length f \<and> length f \<le> 24"
  by (auto simp: buildFragments_def Let_def MIN_FRAGMENT_LEN_def js_def slice_prefix split: if_splits)

lemma setSweep_inv:
  "rsInv w \<Longrightarrow> (\<And>q. p = Some q \<Longrightarrow> sweepOk q \<and> sweepStart q \<le> deNow (enters w)) \<Longrightarrow> rsInv (setSweep sid p w)"
  using rsInvD [of w] by (intro rsInvI) (auto simp: setSweep_def split: if_splits)

lemma setSweep_simps [simp]:
  "enters (setSweep sid p w) = enters w" "sweeps (setSweep sid p w) = (sweeps w)(sid := p)"
  "cleared (setSweep sid p w) = cleared w"
  by (simp_all add: setSweep_def)

lemma sweepArmIdle_inv:
  assumes "rsInv (w\<lparr>sweeps := (sweeps w)(sid := None)\<rparr>)"
    and "\<And>p. sweeps w sid = Some p \<Longrightarrow> retries p \<le> MAX_RETRIES \<and> fragments p \<noteq> [] \<and>
      (\<forall>f \<in> set (fragments p). MIN_FRAGMENT_LEN \<le> length f \<and> length f \<le> 24) \<and> sweepStart p \<le> deNow (enters w)"
  shows "rsInv (sweepArmIdle sid w)"
proof (cases "sweeps w sid")
  case None
  then have "(sweeps w)(sid := None) = sweeps w" by auto
  with assms(1) None show ?thesis by (simp add: sweepArmIdle_def)
next
  case (Some p)
  let ?w0 = "w\<lparr>sweeps := (sweeps w)(sid := None)\<rparr>"
  let ?p = "p\<lparr>sweepTimer := Some (deNow (enters w)
      + max SWEEP_IDLE_SETTLE_MS (SWEEP_MIN_WAIT_MS - (deNow (enters w) - sweepStart p)))\<rparr>"
  have "sweepOk ?p \<and> sweepStart ?p \<le> deNow (enters w)"
    using assms(2) [OF Some] by (auto simp: sweepOk_def)
  then have "rsInv (setSweep sid (Some ?p) ?w0)"
    by (intro setSweep_inv [OF assms(1)]) auto
  moreover have "setSweep sid (Some ?p) ?w0 = sweepArmIdle sid w"
    using Some by (simp add: sweepArmIdle_def setSweep_def Let_def)
  ultimately show ?thesis by simp
qed

lemma retryLater_inv: "rsInv w \<Longrightarrow> rsInv (retryLater sid w)"
proof (cases "sweeps w sid")
  case (Some p)
  assume inv: "rsInv w"
  note ok = rsInvD(1,2) [OF inv Some]
  have "sweepOk (p\<lparr>retries := retries p + 1, sweepTimer := Some (deNow (enters w) + RETRY_MS)\<rparr>)"
    if "\<not> MAX_RETRIES < retries p + 1"
    using ok that by (auto simp: sweepOk_def RETRY_MS_def SWEEP_MIN_WAIT_MS_def)
  with Some ok inv show ?thesis
    by (auto simp: retryLater_def intro!: setSweep_inv)
qed (simp add: retryLater_def)

lemma sweepFire_inv:
  assumes "rsInv w" "sweepDue sid w"
  shows "rsInv (sweepFire sid w)"
proof (cases "sweeps w sid")
  case None
  with assms show ?thesis by (simp add: sweepFire_def)
next
  case (Some p)
  note ok = rsInvD(1) [OF assms(1) Some]
  have gone: "rsInv (setSweep sid None w)" by (rule setSweep_inv [OF assms(1)]) simp
  let ?tail = "scanBuffer SCAN_LINES (screenOf w sid)"
  have "clearOk (Clear sid (deNow (enters w)) (sweepStart p) ?tail (fragments p))"
    if "list_ex (\<lambda>line. list_ex (\<lambda>f. str_includes line f) (fragments p)) ?tail"
    using that ok assms(2) Some
    by (auto simp: clearOk_def sweepOk_def sweepDue_def scanBuffer_def list_ex_iff includes_iff)
  with rsInvD [OF gone] gone retryLater_inv [OF assms(1)] Some show ?thesis
    by (auto simp: sweepFire_def Let_def intro!: rsInvI split: if_splits)
qed

lemma rs_step_inv: "rs_step w w' \<Longrightarrow> rsInv w \<Longrightarrow> rsInv w'"
proof (induction rule: rs_step.induct)
  case (rs_schedule w sid rawText multi)
  have gone: "rsInv (setSweep sid None w)" by (rule setSweep_inv [OF rs_schedule]) simp
  let ?p = "\<lparr>sweepStart = deNow (enters w), sweepTimer = None, retries = 0,
      fragments = buildFragments rawText multi\<rparr>"
  have "rsInv (sweepArmIdle sid (setSweep sid (Some ?p) (setSweep sid None w)))"
    if "buildFragments rawText multi \<noteq> []"
    using gone that buildFragments_length
    by (intro sweepArmIdle_inv) (auto simp: setSweep_def)
  with gone show ?case by (simp add: scheduleResidueSweep_def cancelResidueSweep_def Let_def)
next
  case (rs_output w sid)
  have "rsInv (w\<lparr>sweeps := (sweeps w)(sid := None)\<rparr>)"
    using setSweep_inv [OF rs_output, of None sid] by (simp add: setSweep_def)
  then have "rsInv (sweepArmIdle sid w)"
    using rsInvD(1,2) [OF rs_output, of sid] by (intro sweepArmIdle_inv) (auto simp: sweepOk_def)
  with rs_output show ?case by (simp add: notifyResidueSweepOutput_def)
next
  case (rs_cancel w sid)
  then show ?case unfolding cancelResidueSweep_def by (rule setSweep_inv) simp
next
  case (rs_fire sid w)
  then show ?case by (intro sweepFire_inv)
next
  case (rs_enter w e)
  have "sweepStart p \<le> deNow e" if "sweeps w sid = Some p" for sid p
    using rsInvD(2) [OF rs_enter(3) that] rs_enter(2) by simp
  with rsInvD [OF rs_enter(3)] show ?case by (intro rsInvI) auto
next
  case (rs_world w a ps scr)
  from rsInvD [OF this] show ?case by (intro rsInvI) auto
qed

lemma rs_reach_inv: "rs_reach w \<Longrightarrow> rsInv w"
proof (induction rule: rs_reach.induct)
  case (rs_reach_init w)
  then show ?case by (intro rsInvI) auto
next
  case (rs_reach_step w w')
  then show ?case by (blast intro: rs_step_inv)
qed

section \<open>Properties\<close>


text \<open>A session whose text stays on the screen; for the example.\<close>

definition stuckSession :: sweepWorld where
  "stuckSession = \<lparr>enters = deInit (\<lambda>_. True) 0, activeId = Some 1, providerOf = (\<lambda>_. []),
     screenOf = (\<lambda>_. [js ''> hello'']), sweeps = (\<lambda>_. None), cleared = []\<rparr>"

definition stuckRun :: sweepWorld where
  "stuckRun = sweepFire 1 ((scheduleResidueSweep 1 (js ''hello'') False stuckSession)
     \<lparr>enters := deInit (\<lambda>_. True) 2500\<rparr>)"

lemma stuck_scheduled:
  "scheduleResidueSweep 1 (js ''hello'') False stuckSession = stuckSession\<lparr>sweeps := (\<lambda>_. None)(1 := Some
     \<lparr>sweepStart = 0, sweepTimer = Some 2500, retries = 0, fragments = [js ''hello'']\<rparr>)\<rparr>"
proof -
  have "buildFragments (js ''hello'') False = [js ''hello'']" by code_simp
  moreover have "\<not> shouldSkipClearPrefix []" by code_simp
  ultimately show ?thesis
    by (simp add: scheduleResidueSweep_def cancelResidueSweep_def sweepArmIdle_def setSweep_def
        stuckSession_def deInit_def Let_def SWEEP_IDLE_SETTLE_MS_def SWEEP_MIN_WAIT_MS_def)
qed

lemma stuckRun_reach:
  "rs_reach stuckRun" "cleared stuckRun = [Clear 1 2500 0 [js ''> hello''] [js ''hello'']]"
proof -
  let ?w = "scheduleResidueSweep 1 (js ''hello'') False stuckSession"
  have "rs_reach ?w"
    by (rule rs_reach_step [OF rs_reach_init rs_schedule]) (simp_all add: stuckSession_def)
  moreover have "enters ?w = deInit (\<lambda>_. True) 0" by (simp add: stuck_scheduled) (simp add: stuckSession_def)
  then have "de_step (enters ?w) (deInit (\<lambda>_. True) 2500)"
    using de_time [of 2500 "enters ?w"] by (simp add: deInit_def)
  ultimately have "rs_reach (?w\<lparr>enters := deInit (\<lambda>_. True) 2500\<rparr>)"
    using \<open>enters ?w = _\<close> by (intro rs_reach_step [OF _ rs_enter]) (simp_all add: deInit_def)
  then show "rs_reach stuckRun"
    unfolding stuckRun_def
    by (rule rs_reach_step) (rule rs_fire, simp add: stuck_scheduled sweepDue_def deInit_def)
  have "list_ex (\<lambda>line. list_ex (\<lambda>f. str_includes line f) [js ''hello'']) [js ''> hello'']" by code_simp
  then show "cleared stuckRun = [Clear 1 2500 0 [js ''> hello''] [js ''hello'']]"
    unfolding stuckRun_def stuck_scheduled
    by (simp add: sweepFire_def stuckSession_def deInit_def Let_def
        scanBuffer_def SCAN_LINES_def hasPendingDeferredEnter_def)
qed


section \<open>Termination\<close>

lemma sweepFire_progress:
  assumes "sweeps w sid = Some p"
  shows "sweeps (sweepFire sid w) sid = None \<or>
    (\<exists>p'. sweeps (sweepFire sid w) sid = Some p' \<and> retries p' = retries p + 1 \<and> retries p' \<le> MAX_RETRIES)"
  using assms by (auto simp: sweepFire_def retryLater_def Let_def)

lemma sweepFire_idle: "sweeps w sid = None \<Longrightarrow> sweepFire sid w = w"
  by (simp add: sweepFire_def)

lemma sweepFire_pow:
  "sweeps ((sweepFire sid ^^ n) w) sid = Some q \<Longrightarrow> n \<le> retries q \<and> (0 < n \<longrightarrow> retries q \<le> MAX_RETRIES)"
proof (induction n arbitrary: q)
  case (Suc n)
  let ?w = "(sweepFire sid ^^ n) w"
  have "sweeps ?w sid \<noteq> None"
  proof
    assume "sweeps ?w sid = None"
    with sweepFire_idle [OF this] Suc.prems show False by simp
  qed
  then obtain p where p: "sweeps ?w sid = Some p" by auto
  with sweepFire_progress [OF p] Suc.IH [OF p] Suc.prems show ?case by auto
qed simp

text \<open>
  A sweep ends: whatever the session and the screen do in between, a sweep that is started is
  over after its timer has run 61 times without new output in between.
\<close>

theorem residue_sweep_ends:
  "sweeps ((sweepFire sid ^^ 61) w) sid = None"
proof (rule ccontr)
  assume "sweeps ((sweepFire sid ^^ 61) w) sid \<noteq> None"
  then obtain q where "sweeps ((sweepFire sid ^^ 61) w) sid = Some q" by auto
  from sweepFire_pow [OF this] show False by (auto simp: MAX_RETRIES_def)
qed

end
