(* ===== verification/WorkflowProgress.thy ===== *)
theory WorkflowProgress
  imports JsRegex
begin

text \<open>
  \<open>src/web/src/app/workflow-progress.ts\<close>: the parser that turns the lines of a rendered workflow
  display into phases, agents, counts and a percentage. \<open>Math.round((done / total) * 100)\<close> is
  computed in IEEE double arithmetic, on mantissas and exponents.
\<close>

section \<open>Results\<close>

datatype wfAgentState = WRunning | WDone | WFailed | WPending

record wfAgent =
  agLabel :: jstr
  agState :: wfAgentState
  agGlyph :: cu

record wfPhase =
  phTitle :: jstr
  phAgents :: "wfAgent list"

record workflowProgress =
  wpDetected :: bool
  wpRunning :: bool
  wpLive :: bool
  wpWaitingDynamic :: int
  wpName :: jstr
  wpPhases :: "wfPhase list"
  wpRunningCount :: int
  wpDoneCount :: int
  wpFailedCount :: int
  wpTotalCount :: int
  wpPercent :: "int option"
  wpFrameSig :: jstr

definition emptyResult :: workflowProgress where
  "emptyResult = \<lparr>wpDetected = False, wpRunning = False, wpLive = False, wpWaitingDynamic = 0,
     wpName = [], wpPhases = [], wpRunningCount = 0, wpDoneCount = 0, wpFailedCount = 0,
     wpTotalCount = 0, wpPercent = None, wpFrameSig = []\<rparr>"

section \<open>Rounded percentages\<close>

text \<open>
  The exponent of \<open>a / b\<close> for \<open>0 < a \<le> b\<close>: the doublings that bring \<open>a\<close> to \<open>b\<close> or above. The
  quotient is the double \<open>m / 2^e\<close> with \<open>m\<close> rounded to even; the product with 100 is rounded to
  53 bits by \<open>dbl\<close>; \<open>Math.round\<close> rounds halves up.
\<close>

function doublings :: "int \<Rightarrow> int \<Rightarrow> nat" where
  "doublings a b = (if a \<le> 0 \<or> b \<le> a then 0 else Suc (doublings (2 * a) b))"
  by pat_completeness auto
termination by (relation "measure (\<lambda>(a, b). nat (b - a))") auto

declare doublings.simps [simp del]

definition round_percent :: "int \<Rightarrow> int \<Rightarrow> int" where
  "round_percent a b =
     (if a = 0 then 0
      else (let e = 52 + doublings a b;
                m = half_even (a * 2 ^ e) b
            in (2 * dbl (m * 100) + 2 ^ e) div 2 ^ (e + 1)))"

section \<open>Glyphs and expressions\<close>

definition SPINNER_GLYPHS :: jstr where
  "SPINNER_GLYPHS =
     [10251, 10265, 10297, 10296, 10300, 10292, 10278, 10279, 10247, 10255, 10494, 10493,
      10491, 10431, 10367, 10463, 10479, 10487, 9680, 9683, 9681, 9682, 9692, 9693, 9694,
      9695]"

definition DONE_GLYPHS :: jstr where "DONE_GLYPHS = [10003, 10004]"
definition FAILED_GLYPHS :: jstr where "FAILED_GLYPHS = [10007, 10008]"
definition PENDING_GLYPHS :: jstr where "PENDING_GLYPHS = [9675, 9676, 9711]"

definition TREE_PREFIX_RE :: rx where
  "TREE_PREFIX_RE = seqs [RBol, many1 (RCls (CC False (CWs # map (\<lambda>c. CRange c c)
     [9474, 9500, 9492, 9472, 9584, 9581, 9582, 9583, 9475, 9507, 9495, 9487, 9491, 9499,
       9475, 9478, 9482, 9621, 9615, 9656, 9657, 8227, 8226, 183])))]"

definition ANSI_RE :: rx where
  "ANSI_RE = seqs [chr 27, chr 91, many (RCls (CC False [CRange 48 57, CRange 59 59, CRange 63 63])),
     many (RCls (CC False [CRange 32 47])), RCls (CC False [CRange 64 126])]"

definition stripAnsi :: "jstr \<Rightarrow> jstr" where
  "stripAnsi s = replace_all False ANSI_RE (\<lambda>_. []) s"

definition stripTree :: "jstr \<Rightarrow> jstr" where
  "stripTree line = replace_first False TREE_PREFIX_RE (\<lambda>_. []) (stripAnsi line)"

definition cleanLabel :: "jstr \<Rightarrow> jstr" where
  "cleanLabel raw =
     trim (squash_ws (replace_first False (seqs [atLeast 2 wsCh, many dot, REol]) (\<lambda>_. []) raw))"

definition cleanTitle :: "jstr \<Rightarrow> jstr" where
  "cleanTitle raw =
     slice (trim (squash_ws (replace_first False TREE_PREFIX_RE (\<lambda>_. []) (stripAnsi raw)))) 0 80"

section \<open>Lines\<close>

definition glyphState :: "cu \<Rightarrow> wfAgentState option" where
  "glyphState c =
     (if List.member SPINNER_GLYPHS c \<or> c = 9679 then Some WRunning
      else if List.member DONE_GLYPHS c then Some WDone
      else if List.member FAILED_GLYPHS c then Some WFailed
      else if List.member PENDING_GLYPHS c then Some WPending
      else None)"

definition matchAgentRow :: "jstr \<Rightarrow> wfAgent option" where
  "matchAgentRow stripped =
     (case stripped of
        [] \<Rightarrow> None
      | c # txt \<Rightarrow>
          (case glyphState c of
             None \<Rightarrow> None
           | Some state \<Rightarrow>
               if txt \<noteq> [] \<and> \<not> is_ws (hd txt) then None
               else (let label = cleanLabel txt in
                 if label = [] \<or> 200 < length label then None
                 else Some \<lparr>agLabel = label, agState = state, agGlyph = c\<rparr>)))"

definition WORKFLOW_WORD_RE :: rx where
  "WORKFLOW_WORD_RE = seqs [RWordB, lit (js ''workflow''), RWordB]"

definition STATUS_NAME_RE :: rx where
  "STATUS_NAME_RE = seqs [RBol, RGrp 1 (alts (map (\<lambda>w. lit (js w))
     [''running'', ''done'', ''complete'', ''completed'', ''in progress''])), REol]"

definition matchHeader :: "jstr \<Rightarrow> jstr option" where
  "matchHeader stripped =
     (let hasGear = List.member stripped 9881;
          hasWord = test True WORKFLOW_WORD_RE stripped
      in if \<not> hasGear \<and> \<not> hasWord then None
         else (let n1 = replace_all False (chr 9881) (\<lambda>_. []) stripped;
                   n2 = replace_first True (seqs [RWordB, lit (js ''workflow''), RWordB, many wsCh,
                          opt (anyOf [58, 65306])]) (\<lambda>_. []) n1;
                   n3 = replace_all False (seqs [chr 40, manyLazy dot, chr 41]) (\<lambda>_. []) n2;
                   n4 = trim (squash_ws n3);
                   name = (if test True STATUS_NAME_RE n4 then [] else n4)
               in Some (slice name 0 60)))"

definition AGENTS_SUMMARY_RE :: rx where
  "AGENTS_SUMMARY_RE = seqs [RWordB, RGrp 1 (times 1 4 digit), many wsCh, chr 47, many wsCh,
     RGrp 2 (times 1 4 digit), many1 wsCh, lit (js ''agent''), opt (chr 115), RWordB]"

text \<open>Done and total of a summary line.\<close>

definition matchAgentsSummary :: "jstr \<Rightarrow> (int \<times> int) option" where
  "matchAgentsSummary stripped =
     (case exec True AGENTS_SUMMARY_RE stripped of
        None \<Rightarrow> None
      | Some m \<Rightarrow>
          (let dn = parse_int (grp m 1); total = parse_int (grp m 2) in
           if \<not> 0 < total \<or> dn < 0 \<or> total < dn then None else Some (dn, total)))"

definition WAITING_DYNAMIC_RE :: rx where
  "WAITING_DYNAMIC_RE = seqs [RWordB, lit (js ''waiting for''), many1 wsCh, RGrp 1 (times 1 3 digit),
     many1 wsCh, lit (js ''dynamic''), many1 wsCh, lit (js ''workflow''), opt (chr 115), many1 wsCh,
     lit (js ''to''), many1 wsCh, lit (js ''finish''), RWordB]"

definition matchWaitingDynamic :: "jstr \<Rightarrow> int option" where
  "matchWaitingDynamic stripped =
     (case exec True WAITING_DYNAMIC_RE stripped of
        None \<Rightarrow> None
      | Some m \<Rightarrow> (let n = parse_int (grp m 1) in Some (if 0 < n then n else 1)))"

definition PERCENT_RE :: rx where
  "PERCENT_RE = seqs [RGrp 1 (times 1 3 digit), many wsCh, chr 37]"

definition FRACTION_RE :: rx where
  "FRACTION_RE = seqs [RWordB, RGrp 1 (times 1 4 digit), many wsCh, chr 47, many wsCh,
     RGrp 2 (times 1 4 digit), RWordB]"

definition fractionPercent :: "jstr \<Rightarrow> int option" where
  "fractionPercent stripped =
     (case exec False FRACTION_RE stripped of
        None \<Rightarrow> None
      | Some m \<Rightarrow>
          (let dn = parse_int (grp m 1); total = parse_int (grp m 2) in
           if 0 < total \<and> 0 \<le> dn \<and> dn \<le> total then Some (round_percent dn total) else None))"

definition matchSummaryPercent :: "jstr \<Rightarrow> int option" where
  "matchSummaryPercent stripped =
     (case exec False PERCENT_RE stripped of
        None \<Rightarrow> fractionPercent stripped
      | Some m \<Rightarrow>
          (let v = parse_int (grp m 1) in
           if 0 \<le> v \<and> v \<le> 100 then Some v else fractionPercent stripped))"

section \<open>The parser\<close>

text \<open>The local variables of the loop over the block; \<open>current\<close> is the last of \<open>phases\<close>.\<close>

record wfScan =
  wsPhases :: "wfPhase list"
  wsPendingTitle :: "jstr option"
  wsPercent :: "int option"
  wsSummary :: "(int \<times> int) option"
  wsSummaryRaw :: jstr

definition wfScanInit :: wfScan where
  "wfScanInit = \<lparr>wsPhases = [], wsPendingTitle = None, wsPercent = None, wsSummary = None,
     wsSummaryRaw = []\<rparr>"

definition addAgent :: "wfAgent \<Rightarrow> wfScan \<Rightarrow> wfScan" where
  "addAgent a s =
     (if wsPhases s = [] \<or> wsPendingTitle s \<noteq> None then
        s\<lparr>wsPhases := wsPhases s @ [\<lparr>phTitle = (case wsPendingTitle s of None \<Rightarrow> [] | Some t \<Rightarrow> t),
                                     phAgents = [a]\<rparr>],
          wsPendingTitle := None\<rparr>
      else s\<lparr>wsPhases := butlast (wsPhases s) @
               [(last (wsPhases s))\<lparr>phAgents := phAgents (last (wsPhases s)) @ [a]\<rparr>]\<rparr>)"

definition scanLine :: "bool \<Rightarrow> jstr \<Rightarrow> wfScan \<Rightarrow> wfScan" where
  "scanLine isHeader line s =
     (let stripped = stripTree line in
      if stripped = [] then s
      else (case matchAgentsSummary stripped of
          Some sm \<Rightarrow> s\<lparr>wsSummary := Some sm, wsSummaryRaw := stripped\<rparr>
        | None \<Rightarrow>
            if isHeader then s
            else (case matchAgentRow stripped of
                Some a \<Rightarrow> addAgent a s
              | None \<Rightarrow>
                  (case matchSummaryPercent stripped of
                     Some p \<Rightarrow> s\<lparr>wsPercent := Some p\<rparr>
                   | None \<Rightarrow> s\<lparr>wsPendingTitle := Some (cleanTitle line)\<rparr>))))"

fun scanBlock :: "bool \<Rightarrow> jstr list \<Rightarrow> wfScan \<Rightarrow> wfScan" where
  "scanBlock isHeader [] s = s"
| "scanBlock isHeader (l # ls) s = scanBlock False ls (scanLine isHeader l s)"

text \<open>The search from the last line to the first: the value found and the lines from there on.\<close>

fun lastMatch :: "(jstr \<Rightarrow> 'a option) \<Rightarrow> jstr list \<Rightarrow> ('a \<times> jstr list) option" where
  "lastMatch f [] = None"
| "lastMatch f (l # ls) =
     (case lastMatch f ls of
        Some r \<Rightarrow> Some r
      | None \<Rightarrow> map_option (\<lambda>v. (v, l # ls)) (f l))"

definition findBlock :: "jstr list \<Rightarrow> (jstr \<times> jstr list) option" where
  "findBlock src =
     (case lastMatch (\<lambda>l. matchHeader (stripTree l)) src of
        Some r \<Rightarrow> Some r
      | None \<Rightarrow> map_option (\<lambda>(_, block). ([], block)) (lastMatch (\<lambda>l. matchAgentsSummary (stripTree l)) src))"

definition countState :: "wfAgentState \<Rightarrow> wfPhase list \<Rightarrow> int" where
  "countState st ps = int (length (filter (\<lambda>a. agState a = st) (concat (map phAgents ps))))"

definition frameSigOf :: "wfPhase list \<Rightarrow> jstr \<Rightarrow> jstr" where
  "frameSigOf ps raw =
     join [124] (map (\<lambda>p. phTitle p @ [58] @ join [44] (map (\<lambda>a. agGlyph a # agLabel a) (phAgents p))) ps)
     @ js ''||S:'' @ raw"

definition finishParse :: "jstr \<Rightarrow> int \<Rightarrow> wfScan \<Rightarrow> workflowProgress" where
  "finishParse name waiting s =
     (let ps = wsPhases s;
          agents = concat (map phAgents ps);
          (total, dn, runningN, failedN, running, live) =
            (case wsSummary s of
               Some (d, t) \<Rightarrow> (t, d, max 0 (t - d), 0, d < t, d < t)
             | None \<Rightarrow> (int (length agents), countState WDone ps, countState WRunning ps,
                        countState WFailed ps, 0 < countState WRunning ps, False))
      in if total = 0 then emptyResult\<lparr>wpWaitingDynamic := waiting\<rparr>
         else
           (let percent =
              (case wsSummary s of
                 Some (d, t) \<Rightarrow> Some (round_percent d t)
               | None \<Rightarrow>
                   (case wsPercent s of
                      Some p \<Rightarrow> Some p
                    | None \<Rightarrow> if 0 < total then Some (round_percent (dn + failedN) total) else None))
            in \<lparr>wpDetected = True, wpRunning = running, wpLive = live, wpWaitingDynamic = waiting,
                wpName = name, wpPhases = ps, wpRunningCount = runningN, wpDoneCount = dn,
                wpFailedCount = failedN, wpTotalCount = total, wpPercent = percent,
                wpFrameSig = frameSigOf ps (wsSummaryRaw s)\<rparr>))"

definition parseWorkflowProgress :: "jstr list \<Rightarrow> workflowProgress" where
  "parseWorkflowProgress lines =
     (let src = map stripAnsi lines;
          waiting = (case lastMatch matchWaitingDynamic src of None \<Rightarrow> 0 | Some (w, _) \<Rightarrow> w)
      in case findBlock src of
           None \<Rightarrow> emptyResult\<lparr>wpWaitingDynamic := waiting\<rparr>
         | Some (name, block) \<Rightarrow> finishParse name waiting (scanBlock True block wfScanInit))"

section \<open>The rounded percentage is between 0 and 100\<close>

lemma half_even_le: "0 < b \<Longrightarrow> x \<le> n * b \<Longrightarrow> half_even x b \<le> n"
proof -
  assume b: "0 < b" and x: "x \<le> n * b"
  have q: "x div b * b + x mod b = x" by simp
  have "x div b \<le> n"
    using x b by (metis div_le_mono less_imp_le nonzero_mult_div_cancel_right zdiv_mono1 less_irrefl)
  moreover have "x mod b = 0" if "x div b = n"
  proof -
    have "n * b + x mod b = x" using q that by simp
    with x pos_mod_sign [OF b, of x] show ?thesis by linarith
  qed
  ultimately show ?thesis
    using b by (cases "x div b = n") (auto simp: half_even_def Let_def)
qed

lemma int_div_less: "0 < d \<Longrightarrow> x < n * d \<Longrightarrow> x div d < n" for d n x :: int
proof (rule ccontr)
  assume d: "0 < d" and x: "x < n * d" and "\<not> x div d < n"
  then have "n * d \<le> x div d * d" by (intro mult_right_mono) simp_all
  moreover have "x div d * d + x mod d = x" "0 \<le> x mod d" using d by simp_all
  ultimately show False using x by linarith
qed

lemma excess_bits_bound: "9007199254740992 \<le> n \<Longrightarrow> 2 ^ (52 + excess_bits n) \<le> n"
proof (induction n rule: excess_bits.induct)
  case (1 n)
  show ?case
  proof (cases "n div 2 < 9007199254740992")
    case True
    with 1 show ?thesis by (simp add: excess_bits.simps [of n] excess_bits.simps [of "n div 2"])
  next
    case False
    with 1 have "2 ^ (52 + excess_bits (n div 2)) \<le> n div 2" by simp
    moreover have "2 * (n div 2) \<le> n" by simp
    moreover have "excess_bits n = Suc (excess_bits (n div 2))"
      using 1 by (simp add: excess_bits.simps [of n])
    moreover have "(2 :: int) ^ (52 + Suc (excess_bits (n div 2))) = 2 * 2 ^ (52 + excess_bits (n div 2))"
      by (simp flip: power_Suc)
    ultimately have "2 ^ (52 + Suc (excess_bits (n div 2))) \<le> n" by linarith
    with \<open>excess_bits n = _\<close> show ?thesis by simp
  qed
qed

text \<open>Rounding to 53 bits does not step over a number that ends in enough zero bits.\<close>

lemma dbl_le:
  assumes "0 \<le> n" "n \<le> c * 2 ^ e" "0 \<le> c" "c \<le> 2 ^ 52"
  shows "dbl n \<le> c * 2 ^ e"
proof (cases "n < 9007199254740992")
  case False
  let ?k = "excess_bits n"
  have "(2 :: int) ^ (52 + ?k) \<le> n" using False by (intro excess_bits_bound) simp
  also have "n \<le> 2 ^ 52 * 2 ^ e" using assms(2,4) by (meson mult_right_mono order_trans zero_le_numeral zero_le_power)
  finally have "(2 :: int) ^ (52 + ?k) \<le> 2 ^ (52 + e)" by (simp add: power_add)
  then have k: "?k \<le> e" by (metis add_le_cancel_left power_le_imp_le_exp one_less_numeral_iff semiring_norm(76))
  then have e: "(2 :: int) ^ e = 2 ^ (e - ?k) * 2 ^ ?k" by (simp flip: power_add)
  have "half_even n (2 ^ ?k) \<le> c * 2 ^ (e - ?k)"
    using assms(2) by (intro half_even_le) (simp_all add: e)
  then have "half_even n (2 ^ ?k) * 2 ^ ?k \<le> c * 2 ^ (e - ?k) * 2 ^ ?k"
    by (intro mult_right_mono) simp_all
  with False e show ?thesis by (simp add: dbl_def)
qed (use assms in simp)

lemma round_percent_bounds:
  assumes "0 \<le> a" "a \<le> b" "0 < b"
  shows "0 \<le> round_percent a b \<and> round_percent a b \<le> 100"
proof (cases "a = 0")
  case False
  define e where "e = 52 + doublings a b"
  define m where "m = half_even (a * 2 ^ e) b"
  have "a * 2 ^ e \<le> 2 ^ e * b" using assms by (simp add: mult.commute)
  then have m: "0 \<le> m" "m \<le> 2 ^ e"
    using assms by (simp_all add: m_def half_even_ge0 half_even_le)
  have d: "0 \<le> dbl (m * 100)" "dbl (m * 100) \<le> 100 * 2 ^ e"
    using m by (simp_all add: dbl_ge0 dbl_le)
  have "2 * dbl (m * 100) + 2 ^ e < 101 * 2 ^ (e + 1)"
  proof -
    have "(0 :: int) < 2 ^ e" "(2 :: int) ^ (e + 1) = 2 * 2 ^ e" by simp_all
    with d(2) show ?thesis by linarith
  qed
  then have "(2 * dbl (m * 100) + 2 ^ e) div 2 ^ (e + 1) < 101"
    by (intro int_div_less) simp_all
  moreover have "0 \<le> (2 * dbl (m * 100) + 2 ^ e) div 2 ^ (e + 1)"
    using d(1) by (simp add: pos_imp_zdiv_nonneg_iff)
  ultimately show ?thesis
    using False by (simp add: round_percent_def Let_def flip: e_def m_def)
qed (simp add: round_percent_def)

section \<open>Bounds of what is parsed\<close>

definition scanOk :: "wfScan \<Rightarrow> bool" where
  "scanOk s \<longleftrightarrow>
     (\<forall>p \<in> set (wsPhases s). phAgents p \<noteq> [] \<and>
        (\<forall>a \<in> set (phAgents p). agLabel a \<noteq> [] \<and> length (agLabel a) \<le> 200 \<and> glyphState (agGlyph a) = Some (agState a))) \<and>
     (\<forall>v. wsPercent s = Some v \<longrightarrow> 0 \<le> v \<and> v \<le> 100) \<and>
     (\<forall>d t. wsSummary s = Some (d, t) \<longrightarrow> 0 \<le> d \<and> d \<le> t \<and> 0 < t)"

lemma matchAgentRow_ok:
  "matchAgentRow l = Some a \<Longrightarrow>
     agLabel a \<noteq> [] \<and> length (agLabel a) \<le> 200 \<and> glyphState (agGlyph a) = Some (agState a)"
  by (auto simp: matchAgentRow_def Let_def split: list.splits option.splits if_splits)

lemma matchSummaryPercent_ok: "matchSummaryPercent l = Some v \<Longrightarrow> 0 \<le> v \<and> v \<le> 100"
  using round_percent_bounds
  by (auto simp: matchSummaryPercent_def fractionPercent_def Let_def split: option.splits if_splits)

lemma matchAgentsSummary_ok: "matchAgentsSummary l = Some (d, t) \<Longrightarrow> 0 \<le> d \<and> d \<le> t \<and> 0 < t"
  by (auto simp: matchAgentsSummary_def Let_def split: option.splits if_splits)

lemma addAgent_ok:
  assumes "scanOk s" "agLabel a \<noteq> [] \<and> length (agLabel a) \<le> 200 \<and> glyphState (agGlyph a) = Some (agState a)"
  shows "scanOk (addAgent a s)"
proof (cases "wsPhases s = [] \<or> wsPendingTitle s \<noteq> None")
  case True
  with assms show ?thesis by (auto simp: addAgent_def scanOk_def)
next
  case False
  then have "last (wsPhases s) \<in> set (wsPhases s)" by simp
  with False assms show ?thesis
    by (auto simp: addAgent_def scanOk_def dest: in_set_butlastD)
qed

lemma scanLine_ok: "scanOk s \<Longrightarrow> scanOk (scanLine h l s)"
proof -
  assume s: "scanOk s"
  show ?thesis
  proof (cases "matchAgentsSummary (stripTree l)")
    case (Some sm)
    with s matchAgentsSummary_ok show ?thesis
      by (cases sm) (auto simp: scanLine_def scanOk_def Let_def)
  next
    case None
    with s addAgent_ok [OF s matchAgentRow_ok] matchSummaryPercent_ok show ?thesis
      by (auto simp: scanLine_def Let_def scanOk_def [of "_\<lparr>wsPercent := _\<rparr>"]
          scanOk_def [of "_\<lparr>wsPendingTitle := _\<rparr>"] scanOk_def [of s] split: option.splits)
  qed
qed

lemma scanBlock_ok: "scanOk s \<Longrightarrow> scanOk (scanBlock h ls s)"
  by (induction h ls s rule: scanBlock.induct) (auto intro: scanLine_ok)

lemma scan_result_ok: "scanOk (scanBlock h ls wfScanInit)"
  by (rule scanBlock_ok) (simp add: scanOk_def wfScanInit_def)

section \<open>The last block\<close>

lemma lastMatch_append:
  "lastMatch f (xs @ ys) =
     (case lastMatch f ys of
        Some r \<Rightarrow> Some r
      | None \<Rightarrow> map_option (\<lambda>(v, b). (v, b @ ys)) (lastMatch f xs))"
  by (induction xs) (auto simp: option.map_comp comp_def split: option.splits)

lemma lastMatch_None_iff: "lastMatch f ls = None \<longleftrightarrow> (\<forall>l \<in> set ls. f l = None)"
  by (induction ls) (auto split: option.splits)

section \<open>Properties\<close>

text \<open>A heading and one finished agent, for examples; the parse is evaluated once.\<close>

definition demoLines :: "jstr list" where
  "demoLines = [[9881, 32, 120], [10003, 32, 97]]"

lemma demo_percent: "wpPercent (parseWorkflowProgress demoLines) = Some 100"
  by code_simp

lemma demo_detected: "wpDetected (parseWorkflowProgress demoLines)"
  by code_simp

text \<open>
  A reported percentage lies between 0 and 100, whether it was read from the screen or
  computed in floating point.
\<close>

theorem workflow_percent_bounds:
  assumes "wpPercent (parseWorkflowProgress lines) = Some p"
  shows "0 \<le> p \<and> p \<le> 100"
proof -
  have fin: "0 \<le> p \<and> p \<le> 100" if "wpPercent (finishParse n w s) = Some p" "scanOk s" for n w s
  proof (cases "wsSummary s")
    case (Some dt)
    obtain d t where "dt = (d, t)" by (cases dt)
    with Some that round_percent_bounds [of d t] show ?thesis
      by (auto simp: finishParse_def scanOk_def emptyResult_def Let_def split: if_splits)
  next
    case None
    let ?as = "concat (map phAgents (wsPhases s))"
    have "countState WDone (wsPhases s) + countState WFailed (wsPhases s) \<le> int (length ?as)"
    proof -
      have "length (filter (\<lambda>a. agState a = WDone) as) + length (filter (\<lambda>a. agState a = WFailed) as) \<le> length as"
        for as by (induction as) auto
      then show ?thesis unfolding countState_def by (metis of_nat_add of_nat_mono)
    qed
    moreover have "0 \<le> countState st (wsPhases s)" for st by (simp add: countState_def)
    ultimately show ?thesis
      using None that round_percent_bounds [of "countState WDone (wsPhases s) + countState WFailed (wsPhases s)"
          "int (length ?as)"]
      by (auto simp: finishParse_def scanOk_def emptyResult_def Let_def split: if_splits option.splits)
  qed
  from assms show ?thesis
    by (auto simp: parseWorkflowProgress_def Let_def emptyResult_def split: option.splits
        dest: fin [OF _ scan_result_ok])
qed

lemma workflow_percent_bounds_witness: "0 \<le> (100 :: int) \<and> the (wpPercent (parseWorkflowProgress demoLines)) \<le> 100"
  using workflow_percent_bounds [OF demo_percent] demo_percent by simp

text \<open>
  A recognised workflow has agents, none more than counted; it is running exactly when some
  agent runs, and a live summary implies running; in every phase there are agents, each with a
  label of at most 200 characters and the state its glyph shows.
\<close>

theorem workflow_counts_consistent:
  assumes "r = parseWorkflowProgress lines" "wpDetected r"
  shows "0 < wpTotalCount r \<and> (wpRunning r \<longleftrightarrow> 0 < wpRunningCount r) \<and> (wpLive r \<longrightarrow> wpRunning r) \<and>
    0 \<le> wpDoneCount r \<and> 0 \<le> wpFailedCount r \<and>
    wpRunningCount r + wpDoneCount r + wpFailedCount r \<le> wpTotalCount r \<and>
    (\<forall>p \<in> set (wpPhases r). phAgents p \<noteq> [] \<and>
       (\<forall>a \<in> set (phAgents p). length (agLabel a) \<le> 200 \<and> glyphState (agGlyph a) = Some (agState a)))"
proof -
  from assms obtain n b w where r: "r = finishParse n w (scanBlock True b wfScanInit)"
    by (auto simp: parseWorkflowProgress_def Let_def emptyResult_def split: option.splits)
  let ?s = "scanBlock True b wfScanInit"
  let ?as = "concat (map phAgents (wsPhases ?s))"
  have ok: "scanOk ?s" by (rule scan_result_ok)
  have sum: "countState WRunning (wsPhases ?s) + countState WDone (wsPhases ?s)
      + countState WFailed (wsPhases ?s) \<le> int (length ?as)"
  proof -
    have "length (filter (\<lambda>a. agState a = WRunning) as) + length (filter (\<lambda>a. agState a = WDone) as)
        + length (filter (\<lambda>a. agState a = WFailed) as) \<le> length as"
      for as by (induction as) auto
    then show ?thesis unfolding countState_def by (metis of_nat_add of_nat_mono)
  qed
  have ge0: "0 \<le> countState st (wsPhases ?s)" for st by (simp add: countState_def)
  show ?thesis
  proof (cases "wsSummary ?s")
    case (Some dt)
    obtain d t where dt: "dt = (d, t)" by (cases dt)
    with Some ok have "0 \<le> d" "d \<le> t" "0 < t" by (auto simp: scanOk_def)
    with Some dt ok show ?thesis by (auto simp: r finishParse_def scanOk_def Let_def)
  next
    case None
    with assms(2) have "length ?as \<noteq> 0"
      by (auto simp: r finishParse_def emptyResult_def Let_def split: if_splits)
    with None ok sum ge0 show ?thesis
      by (auto simp: r finishParse_def scanOk_def Let_def)
  qed
qed

lemma workflow_counts_consistent_witness:
  "0 < wpTotalCount (parseWorkflowProgress demoLines) \<and> \<not> (wpLive (parseWorkflowProgress demoLines) \<and> \<not> wpRunning (parseWorkflowProgress demoLines))"
  using workflow_counts_consistent [OF refl demo_detected] by blast

text \<open>
  What stands before the last workflow heading does not influence the result, apart from the
  count of workflows waited for: old blocks in the scrollback are ignored.
\<close>

theorem workflow_last_block_only:
  assumes "l \<in> set new" "matchHeader (stripTree (stripAnsi l)) \<noteq> None"
  shows "parseWorkflowProgress (old @ new)
    = (parseWorkflowProgress new)\<lparr>wpWaitingDynamic := wpWaitingDynamic (parseWorkflowProgress (old @ new))\<rparr>"
proof -
  have "lastMatch (\<lambda>l. matchHeader (stripTree l)) (map stripAnsi new) \<noteq> None"
    using assms by (auto simp: lastMatch_None_iff)
  then obtain n b where "lastMatch (\<lambda>l. matchHeader (stripTree l)) (map stripAnsi new) = Some (n, b)"
    by auto
  then have fb: "findBlock (map stripAnsi (old @ new)) = Some (n, b)" "findBlock (map stripAnsi new) = Some (n, b)"
    by (simp_all add: findBlock_def lastMatch_append)
  have "finishParse n w s = (finishParse n w' s)\<lparr>wpWaitingDynamic := wpWaitingDynamic (finishParse n w s)\<rparr>" for w w' s
    by (auto simp: finishParse_def emptyResult_def Let_def split: option.splits)
  then show ?thesis
    by (simp only: parseWorkflowProgress_def Let_def fb option.case prod.case)
qed

lemma workflow_last_block_only_witness:
  "wpPhases (parseWorkflowProgress ([[9881, 32, 121], [10003, 32, 98]] @ demoLines))
     = wpPhases (parseWorkflowProgress demoLines)"
proof -
  have "matchHeader (stripTree (stripAnsi [9881, 32, 120])) \<noteq> None" by code_simp
  moreover have "[9881, 32, 120] \<in> set demoLines" by (simp add: demoLines_def)
  ultimately have "wpPhases (parseWorkflowProgress ([[9881, 32, 121], [10003, 32, 98]] @ demoLines))
      = wpPhases ((parseWorkflowProgress demoLines)\<lparr>wpWaitingDynamic :=
          wpWaitingDynamic (parseWorkflowProgress ([[9881, 32, 121], [10003, 32, 98]] @ demoLines))\<rparr>)"
    using workflow_last_block_only by (intro arg_cong [of _ _ wpPhases]) blast
  also have "\<dots> = wpPhases (parseWorkflowProgress demoLines)" by simp
  finally show ?thesis .
qed

text \<open>
  The percentage is the floating-point one: 57 of 200 agents are shown as 28 percent, where
  exact arithmetic rounds 28.5 up to 29.
\<close>

theorem workflow_percent_is_double:
  "round_percent 57 200 = 28 \<and> round_percent 1 8 = 13 \<and> round_percent 1 3 = 33"
  by code_simp

end
