(* ===== verification/ApprovalText.thy ===== *)
theory ApprovalText
  imports JsRegex
begin

text \<open>
  \<open>src/web/src/app/approval-parser.ts\<close>, the part on text: the recognisers of questions and
  markers, the sequential \<open>Q1:\<close> prompts, the signatures of a set of options, and the yes/no
  marker \<open>(Y:1/N:0)\<close>.
\<close>

section \<open>Options and sections\<close>

text \<open>
  An option of an approval. The properties the code attaches only on some paths are optional;
  \<open>oCtx\<close> is the empty string where \<open>_ctx\<close> is missing (both are falsy where it is read).
\<close>

record approvalOption =
  oNum :: int
  oLabel :: jstr
  oCurrent :: bool
  oPreserve :: bool
  oCtx :: jstr
  oShort :: "jstr option"
  oMulti :: bool
  oQuestion :: "jstr option"
  oSendText :: "jstr option"
  oBlockSig :: "jstr option"

definition mkOption :: "int \<Rightarrow> jstr \<Rightarrow> bool \<Rightarrow> approvalOption" where
  "mkOption n l c = \<lparr>oNum = n, oLabel = l, oCurrent = c, oPreserve = False, oCtx = [],
     oShort = None, oMulti = False, oQuestion = None, oSendText = None, oBlockSig = None\<rparr>"

record approvalSection =
  sNum :: int
  sTitle :: jstr
  sOptions :: "approvalOption list"
  sFreeInput :: bool
  sBlockSig :: "jstr option"

text \<open>What the parsers return: the options of one question, or one section per question.\<close>

datatype approvalBody = Single "approvalOption list" | Batch "approvalSection list"

section \<open>Recognisers\<close>

definition jpOther :: jstr where "jpOther = [12381, 12398, 20182, 25351, 23450]"

definition reviewAnswersRe :: rx where "reviewAnswersRe = lit (js ''Review your answers'')"

definition readyToSubmitAnswersRe :: rx where
  "readyToSubmitAnswersRe = lit (js ''Ready to submit your answers'')"

definition tabBoxMarkerRe :: rx where
  "tabBoxMarkerRe = anyOf [9723, 9633, 9744, 10003, 9745]"

definition upperAZ :: rx where "upperAZ = RCls (CC False [CRange 65 90])"

definition sequentialQuestionHeaderRe :: rx where
  "sequentialQuestionHeaderRe = seqs [RBol, many wsCh,
     RGrp 1 (alts [RSeq (times 1 3 upperAZ) (times 1 3 digit), RSeq (chr 81) (times 1 3 digit),
                   RSeq (chr 21839) (times 1 3 digit)]),
     many wsCh, anyOf [58, 65306], many wsCh, RGrp 2 (many1Lazy dot), many wsCh, REol]"

definition userSpecifiesRe :: rx where
  "userSpecifiesRe = alts [lit (js ''user specifies''), lit jpOther]"

definition hubChoiceQuestionRe :: rx where
  "hubChoiceQuestionRe = alts
     [lit [12393, 12428, 12391, 36914, 12417, 12414, 12377, 12363],
      lit [12393, 12428, 12391, 36914, 12417, 12427],
      lit [12393, 12385, 12425, 12391, 36914, 12417],
      lit [12393, 12398, 36984, 25246, 32930],
      lit [36984, 25246, 12375, 12390, 12367, 12384, 12373, 12356],
      lit (js ''how would you like to proceed''), lit (js ''which option'')]"

definition recommendedChoiceRe :: rx where
  "recommendedChoiceRe = alts [lit (js ''(recommended)''),
     lit ([65288] @ js ''recommended'' @ [65289]), lit [25512, 22888]]"

definition approvalLabelRe :: rx where
  "approvalLabelRe = seqs [RWordB, alts [lit (js ''yes''), lit (js ''no''), lit (js ''allow''),
     lit (js ''deny''), lit (js ''proceed''), lit (js ''abort''),
     seqs [lit (js ''don''), anyOf [39], lit (js ''t ask'')], lit (js ''cancel''),
     lit (js ''once''), lit (js ''always''), lit (js ''permission''), lit (js ''confirm''),
     lit (js ''details'')], RWordB]"

definition yesNoApprovalMarkerRe :: rx where
  "yesNoApprovalMarkerRe = seqs [anyOf [65288, 40], many wsCh, anyOf [89, 65337], many wsCh,
     anyOf [58, 65306], many wsCh, chr 49, many wsCh, anyOf [47, 65295], many wsCh,
     anyOf [78, 65326], many wsCh, anyOf [58, 65306], many wsCh, chr 48, many wsCh,
     anyOf [65289, 41]]"

definition hubOpenTag :: jstr where "hubOpenTag = js ''[MANY-AI-CLI]''"
definition hubCloseTag :: jstr where "hubCloseTag = js ''[/MANY-AI-CLI]''"

definition hubTagRe :: rx where "hubTagRe = RAlt (lit hubOpenTag) (lit hubCloseTag)"

definition submitWordRe :: rx where "submitWordRe = seqs [RWordB, lit (js ''Submit''), RWordB]"

fun isMultiQuestionPrompt :: "jstr list \<Rightarrow> bool" where
  "isMultiQuestionPrompt [] = False"
| "isMultiQuestionPrompt (line # ls) =
     (if line = [] then isMultiQuestionPrompt ls
      else if test True reviewAnswersRe line then True
      else if test True readyToSubmitAnswersRe line then True
      else if 8592 \<in> set line \<and> 8594 \<in> set line
           \<and> (test False tabBoxMarkerRe line \<or> test False submitWordRe line) then True
      else isMultiQuestionPrompt ls)"

section \<open>Sequential prompts\<close>

record seqPrompt =
  pKey :: jstr
  pQuestion :: jstr
  pOptions :: "approvalOption list"

definition numberedLineRe :: rx where
  "numberedLineRe = seqs [RBol, many wsCh, RGrp 1 (times 1 2 digit), chr 46, many wsCh,
     RGrp 2 (many1Lazy dot), many wsCh, REol]"

definition seqUserSpecifiesRe :: rx where
  "seqUserSpecifiesRe = seqs [RBol, many wsCh, chr 78, chr 46, many wsCh,
     RGrp 1 (alts [lit (js ''User specifies''), lit jpOther])]"

definition indentedRe :: rx where "indentedRe = RSeq RBol (atLeast 2 wsCh)"

definition closePrompt :: "seqPrompt list \<Rightarrow> seqPrompt option \<Rightarrow> seqPrompt list" where
  "closePrompt ps cur =
     (case cur of None \<Rightarrow> ps
      | Some p \<Rightarrow> if 2 \<le> length (pOptions p) then ps @ [p] else ps)"

text \<open>The loop over the lines; the result is \<open>None\<close> when a marker line makes it return null.\<close>

fun seqScan :: "jstr list \<Rightarrow> seqPrompt list \<Rightarrow> seqPrompt option \<Rightarrow> seqPrompt list option" where
  "seqScan [] ps cur = Some (closePrompt ps cur)"
| "seqScan (rawLine # rls) ps cur =
     (let line = trim rawLine in
      if line = [] then seqScan rls ps cur
      else if test False hubTagRe line then None
      else
        (case exec True sequentialQuestionHeaderRe line of
           Some hm \<Rightarrow> seqScan rls (closePrompt ps cur)
             (Some \<lparr>pKey = trim (grp hm 1), pQuestion = trim (grp hm 2), pOptions = []\<rparr>)
         | None \<Rightarrow>
             (case cur of
                None \<Rightarrow> seqScan rls ps None
              | Some p \<Rightarrow>
                  (case exec False numberedLineRe line of
                     Some om \<Rightarrow> seqScan rls ps (Some (p\<lparr>pOptions := pOptions p @
                        [mkOption (parse_int (grp om 1)) (trim (grp om 2)) (pOptions p = [])]\<rparr>))
                   | None \<Rightarrow>
                       if test True seqUserSpecifiesRe line then seqScan rls ps cur
                       else if pOptions p \<noteq> [] \<and> \<not> test False indentedRe rawLine
                         then seqScan rls (closePrompt ps cur) None
                       else seqScan rls ps cur))))"

definition promptKey :: "seqPrompt \<Rightarrow> jstr" where
  "promptKey p = pKey p @ [58] @ pQuestion p"

definition sortOptions :: "seqPrompt \<Rightarrow> seqPrompt" where
  "sortOptions p = p\<lparr>pOptions := sort_key oNum (pOptions p)\<rparr>"

fun uniquePrompts :: "jstr list \<Rightarrow> seqPrompt list \<Rightarrow> seqPrompt list" where
  "uniquePrompts seen [] = []"
| "uniquePrompts seen (p # ps) =
     (if List.member seen (promptKey p) then uniquePrompts seen ps
      else sortOptions p # uniquePrompts (promptKey p # seen) ps)"

definition extractSequentialChoicePrompts :: "jstr list \<Rightarrow> seqPrompt list option" where
  "extractSequentialChoicePrompts lns =
     (case seqScan (map trimEnd (slice_from lns (- 80))) [] None of
        None \<Rightarrow> None
      | Some ps \<Rightarrow> (let u = uniquePrompts [] ps in if 2 \<le> length u then Some u else None))"

section \<open>Signatures\<close>

definition isBatchOptions :: "approvalBody \<Rightarrow> bool" where
  "isBatchOptions b = (case b of Batch ss \<Rightarrow> ss \<noteq> [] | Single os \<Rightarrow> False)"

definition isMultiSelectOptions :: "approvalBody \<Rightarrow> bool" where
  "isMultiSelectOptions b =
     (case b of Single (o' # os) \<Rightarrow> oMulti o' | _ \<Rightarrow> False)"

definition sigLabel :: "approvalOption \<Rightarrow> jstr" where
  "sigLabel a = slice (squash_ws (trim (oLabel a))) 0 80"

definition sectionSig :: "approvalSection \<Rightarrow> jstr" where
  "sectionSig s = js ''{\"n\":'' @ num_str (sNum s)
     @ js '',\"t\":'' @ json_string (slice (squash_ws (sTitle s)) 0 80)
     @ js '',\"o\":''
     @ json_array (map (\<lambda>a. json_string (num_str (oNum a) @ [58] @ sigLabel a)) (sOptions s))
     @ [125]"

definition optionSig :: "approvalOption \<Rightarrow> jstr" where
  "optionSig a = num_str (oNum a) @ [58] @ sigLabel a
     @ (if oCtx a = [] then [] else 124 # oCtx a)"

definition approvalSig :: "approvalBody \<Rightarrow> jstr" where
  "approvalSig b =
     (case b of
        Batch ss \<Rightarrow> json_array (map sectionSig ss)
      | Single os \<Rightarrow> json_array (map (\<lambda>a. json_string (optionSig a)) os))"

definition hashStep :: "32 word \<Rightarrow> cu \<Rightarrow> 32 word" where
  "hashStep h c = (push_bit 5 h + h) + word_of_int c"

definition approvalCtxHash :: "jstr \<Rightarrow> jstr" where
  "approvalCtxHash s = radix_digits 36 (uint (foldl hashStep 5381 (trim (squash_ws s))))"

definition sequentialChoiceSig :: "seqPrompt list \<Rightarrow> jstr" where
  "sequentialChoiceSig ps = approvalCtxHash (join [10] (map (\<lambda>p.
     pKey p @ [58] @ pQuestion p @ [58]
     @ join [124] (map (\<lambda>a. num_str (oNum a) @ [46] @ oLabel a) (pOptions p))) ps))"

section \<open>The yes/no marker\<close>

definition hasYesNoApprovalMarker :: "jstr \<Rightarrow> bool" where
  "hasYesNoApprovalMarker t = test True yesNoApprovalMarkerRe t"

definition lastYesNoApprovalMarkerIndex :: "jstr \<Rightarrow> int" where
  "lastYesNoApprovalMarkerIndex s =
     (case rev (exec_all True yesNoApprovalMarkerRe s) of [] \<Rightarrow> -1 | m # _ \<Rightarrow> m_index m)"

definition hubAnyTagRe :: rx where
  "hubAnyTagRe = seqs [chr 91, opt (chr 47), lit (js ''MANY-AI-CLI]'')]"

definition yesNoQuestionText :: "jstr \<Rightarrow> jstr" where
  "yesNoQuestionText s =
     (let idx = lastYesNoApprovalMarkerIndex s in
      if idx < 0 then []
      else trim (squash_ws (replace_all False hubAnyTagRe (\<lambda>_. []) (slice s 0 idx))))"

definition placeholderQuestionRe :: rx where
  "placeholderQuestionRe = seqs [RBol, lit (js ''question''), many wsCh, many digit, many wsCh,
     anyOf [63, 65311], REol]"

definition isPlaceholderYesNoQuestion :: "jstr \<Rightarrow> bool" where
  "isPlaceholderYesNoQuestion t = test True placeholderQuestionRe (yesNoQuestionText t)"

definition looksLikeYesNoQuestion :: "jstr \<Rightarrow> bool" where
  "looksLikeYesNoQuestion s =
     (if \<not> hasYesNoApprovalMarker s then False
      else if isPlaceholderYesNoQuestion s then False
      else (let bef = yesNoQuestionText s in
        test False (seqs [anyOf [63, 65311], many wsCh, REol]) (trim bef)
        \<or> test False (anyOf [63, 65311]) (slice_from bef (- 120))))"

definition yesNoCtxFromText :: "jstr \<Rightarrow> jstr" where
  "yesNoCtxFromText t = slice_from (yesNoQuestionText t) (- 200)"

definition yesNoApprovalOptions :: "jstr \<Rightarrow> approvalOption list" where
  "yesNoApprovalOptions ctxText =
     (let ctx = (if ctxText = [] then [] else approvalCtxHash ctxText) in
      [(mkOption 1 (js ''Yes (1)'') True)\<lparr>oPreserve := True, oCtx := ctx\<rparr>,
       (mkOption 0 (js ''No (0)'') False)\<lparr>oPreserve := True, oCtx := ctx\<rparr>])"


section \<open>Sequential prompts are well formed\<close>

text \<open>An open prompt numbers its options as they come: only the first one is current.\<close>

definition firstCurrent :: "approvalOption list \<Rightarrow> bool" where
  "firstCurrent os \<longleftrightarrow> (case os of [] \<Rightarrow> True | a # as \<Rightarrow> oCurrent a \<and> (\<forall>b \<in> set as. \<not> oCurrent b))"

lemma firstCurrent_snoc:
  "firstCurrent os \<Longrightarrow> firstCurrent (os @ [mkOption n l (os = [])])"
  by (cases os) (auto simp: firstCurrent_def mkOption_def)

lemma firstCurrent_count:
  "firstCurrent os \<Longrightarrow> os \<noteq> [] \<Longrightarrow> length (filter oCurrent os) = 1"
  by (cases os) (auto simp: firstCurrent_def filter_empty_conv)

definition closedPrompt :: "seqPrompt \<Rightarrow> bool" where
  "closedPrompt p \<longleftrightarrow> 2 \<le> length (pOptions p) \<and> firstCurrent (pOptions p)"

definition openPrompt :: "seqPrompt option \<Rightarrow> bool" where
  "openPrompt cur \<longleftrightarrow> (case cur of None \<Rightarrow> True | Some p \<Rightarrow> firstCurrent (pOptions p))"

lemma closePrompt_closed:
  "\<forall>p \<in> set ps. closedPrompt p \<Longrightarrow> openPrompt cur \<Longrightarrow> \<forall>p \<in> set (closePrompt ps cur). closedPrompt p"
  by (auto simp: closePrompt_def closedPrompt_def openPrompt_def split: option.splits)

lemma openPrompt_simps [simp]:
  "openPrompt None" "openPrompt (Some p) = firstCurrent (pOptions p)" "firstCurrent []"
  by (simp_all add: openPrompt_def firstCurrent_def)

lemma seqScan_closed:
  "seqScan ls ps cur = Some qs \<Longrightarrow> \<forall>p \<in> set ps. closedPrompt p \<Longrightarrow> openPrompt cur
     \<Longrightarrow> \<forall>p \<in> set qs. closedPrompt p"
proof (induction ls ps cur rule: seqScan.induct)
  case (1 ps cur)
  then show ?case using closePrompt_closed by simp
next
  case (2 rawLine rls ps cur)
  note IH = "2.IH" [OF refl]
  have c: "\<forall>p \<in> set (closePrompt ps cur). closedPrompt p"
    using closePrompt_closed "2.prems" by blast
  show ?case
  proof (cases "trim rawLine = [] \<or> test False hubTagRe (trim rawLine)")
    case True
    then show ?thesis using IH(1) "2.prems" by (auto simp: Let_def split: if_splits)
  next
    case line: False
    show ?thesis
    proof (cases "exec True sequentialQuestionHeaderRe (trim rawLine)")
      case (Some hm)
      have "\<forall>p \<in> set qs. closedPrompt p"
        by (rule IH(7)) (use line "2.prems" c Some in \<open>simp_all add: Let_def\<close>)
      then show ?thesis .
    next
      case hm: None
      show ?thesis
      proof (cases cur)
        case None
        with line hm "2.prems" IH(2) show ?thesis by (auto simp: Let_def)
      next
        case (Some p)
        with line hm "2.prems" IH(3-6) c show ?thesis
          by (auto simp: Let_def firstCurrent_snoc simp del: One_nat_def split: option.splits if_splits)
      qed
    qed
  qed
qed

lemma seqScan_no_tag:
  "seqScan ls ps cur = Some qs \<Longrightarrow> \<forall>l \<in> set ls. trim l = [] \<or> \<not> test False hubTagRe (trim l)"
  by (induction ls ps cur rule: seqScan.induct)
     (auto simp: Let_def split: if_splits option.splits)

lemma promptKey_sort [simp]: "promptKey (sortOptions p) = promptKey p"
  by (simp add: promptKey_def sortOptions_def)

lemma uniquePrompts_distinct:
  "distinct (map promptKey (uniquePrompts seen ps))
   \<and> set (map promptKey (uniquePrompts seen ps)) \<inter> set seen = {}"
  by (induction seen ps rule: uniquePrompts.induct) auto

lemma uniquePrompts_from:
  "p \<in> set (uniquePrompts seen ps) \<Longrightarrow> \<exists>q \<in> set ps. p = sortOptions q"
  by (induction seen ps rule: uniquePrompts.induct) (auto split: if_splits)

lemma length_filter_sort_key: "length (filter P (sort_key f xs)) = length (filter P xs)"
  by (simp add: filter_sort)

lemma trim_trimEnd: "trim (trimEnd l) = trim l"
proof (cases "trimStart l = []")
  case True
  then have "\<forall>c \<in> set l. is_ws c" by (simp add: trimStart_def dropWhile_eq_Nil_conv)
  then have "trimEnd l = []" by (simp add: trimEnd_def)
  with True show ?thesis by (simp add: trim_def)
next
  case False
  have "trimStart (trimEnd l) = trimEnd (trimStart l)"
  using False proof (induction l)
    case (Cons c l)
    then show ?case
    proof (cases "is_ws c")
      case True
      have "trimEnd l \<noteq> []"
      proof
        assume "trimEnd l = []"
        then have "ink l = []" using ink_trimEnd [of l] by simp
        with Cons.prems True show False
          by (auto simp: ink_def filter_empty_conv trimStart_def dropWhile_eq_Nil_conv)
      qed
      with Cons True show ?thesis by (simp add: trimEnd_Cons)
    next
      case False
      then show ?thesis by (simp add: trimEnd_Cons)
    qed
  qed simp
  then show ?thesis by (simp add: trim_def)
qed

text \<open>
  The sequential question recogniser returns null or at least two questions that differ in
  their \<open>key:question\<close>, each with at least two options in ascending order of number of which
  exactly one is marked as the current choice (the first one written), and it never reads a
  screen whose last 80 lines hold a \<open>[MANY-AI-CLI]\<close> marker.
\<close>

theorem sequential_prompts_well_formed:
  assumes "extractSequentialChoicePrompts ls = Some ps"
  shows "2 \<le> length ps \<and> distinct (map promptKey ps)
    \<and> (\<forall>p \<in> set ps. 2 \<le> length (pOptions p) \<and> sorted (map oNum (pOptions p))
          \<and> length (filter oCurrent (pOptions p)) = 1)
    \<and> (\<forall>l \<in> set (slice_from ls (- 80)). \<not> test False hubTagRe (trim l))"
proof -
  let ?r = "map trimEnd (slice_from ls (- 80))"
  from assms obtain qs where qs: "seqScan ?r [] None = Some qs"
      and ps: "ps = uniquePrompts [] qs" "2 \<le> length ps"
    by (auto simp: extractSequentialChoicePrompts_def Let_def split: option.splits if_splits)
  have closed: "\<forall>q \<in> set qs. closedPrompt q"
    using seqScan_closed [OF qs] by simp
  have "2 \<le> length (pOptions p) \<and> sorted (map oNum (pOptions p))
          \<and> length (filter oCurrent (pOptions p)) = 1" if p: "p \<in> set ps" for p
  proof -
    from p ps(1) obtain q where q: "q \<in> set qs" "p = sortOptions q"
      using uniquePrompts_from by blast
    with closed have "2 \<le> length (pOptions q)" "firstCurrent (pOptions q)"
      by (auto simp: closedPrompt_def)
    moreover from this have "length (filter oCurrent (pOptions q)) = 1"
      by (intro firstCurrent_count) auto
    ultimately show ?thesis
      using q(2) by (simp add: sortOptions_def length_filter_sort_key)
  qed
  moreover have "\<not> test False hubTagRe (trim l)" if l: "l \<in> set (slice_from ls (- 80))" for l
  proof -
    have "trim (trimEnd l) = trim l"
      by (rule trim_trimEnd)
    with seqScan_no_tag [OF qs] l have "trim l = [] \<or> \<not> test False hubTagRe (trim l)"
      by auto
    moreover have "\<not> test False hubTagRe []"
      by code_simp
    ultimately show ?thesis by auto
  qed
  ultimately show ?thesis
    using ps uniquePrompts_distinct [of "[]" qs] by auto
qed

definition seqExample :: "jstr list" where
  "seqExample = map js [''Q1: Color?'', ''2. Blue'', ''1. Red'', ''Q2: Size?'', ''1. S'', ''2. L'', ''N. User specifies'']"

lemma seqExample_parsed: "extractSequentialChoicePrompts seqExample = Some
  [\<lparr>pKey = js ''Q1'', pQuestion = js ''Color?'',
     pOptions = [mkOption 1 (js ''Red'') False, mkOption 2 (js ''Blue'') True]\<rparr>,
   \<lparr>pKey = js ''Q2'', pQuestion = js ''Size?'',
     pOptions = [mkOption 1 (js ''S'') True, mkOption 2 (js ''L'') False]\<rparr>]"
  by code_simp

theorem sequential_prompts_well_formed_witness:
  "\<exists>ps. extractSequentialChoicePrompts seqExample = Some ps \<and> 2 \<le> length ps
     \<and> (\<forall>p \<in> set ps. sorted (map oNum (pOptions p)))"
  using sequential_prompts_well_formed [OF seqExample_parsed] seqExample_parsed by blast

section \<open>The hash does not depend on how the text is wrapped\<close>

text \<open>The words of a text: what \<open>s.split(/\s+/)\<close> leaves without the empty strings.\<close>

fun words_from :: "jstr \<Rightarrow> jstr \<Rightarrow> jstr list" where
  "words_from w [] = (if w = [] then [] else [w])"
| "words_from w (c # cs) =
     (if is_ws c then (if w = [] then [] else [w]) @ words_from [] cs
      else words_from (w @ [c]) cs)"

lemma words_from_nonempty: "v \<in> set (words_from w s) \<Longrightarrow> v \<noteq> []"
  by (induction w s rule: words_from.induct) (auto split: if_splits)

lemma join_words_Nil: "join [32] (words_from w s) = [] \<longleftrightarrow> words_from w s = []"
  using words_from_nonempty [of _ w s]
  by (cases "words_from w s"; cases "tl (words_from w s)") auto

lemma squash_ws_head: "is_ws c \<Longrightarrow> squash_ws (c # s) = 32 # trimStart (squash_ws s)"
proof (induction s arbitrary: c)
  case (Cons d s)
  then show ?case by (cases "is_ws d") auto
qed simp

lemma trimEnd_append_nonws:
  "w \<noteq> [] \<Longrightarrow> \<forall>c \<in> set w. \<not> is_ws c \<Longrightarrow>
   trimEnd (w @ 32 # t) = (if trimEnd t = [] then w else w @ 32 # trimEnd t)"
proof (induction w)
  case (Cons c w)
  then show ?case
    by (cases "w = []") (auto simp: trimEnd_Cons)
qed simp

lemma trimEnd_nonws: "\<forall>c \<in> set w. \<not> is_ws c \<Longrightarrow> trimEnd w = w"
  by (induction w) (auto simp: trimEnd_Cons)

lemma squash_words:
  "(\<forall>w. w \<noteq> [] \<longrightarrow> (\<forall>c \<in> set w. \<not> is_ws c) \<longrightarrow>
      trimEnd (w @ squash_ws s) = join [32] (words_from w s))
   \<and> trim (squash_ws s) = join [32] (words_from [] s)"
proof (induction s)
  case Nil
  then show ?case by (auto simp: trimEnd_nonws trim_def)
next
  case (Cons c cs)
  show ?case
  proof (cases "is_ws c")
    case False
    have IH: "trimEnd (w @ squash_ws cs) = join [32] (words_from w cs)"
      if "w \<noteq> []" "\<forall>c \<in> set w. \<not> is_ws c" for w
      using Cons that by blast
    have "trimEnd (w @ squash_ws (c # cs)) = join [32] (words_from w (c # cs))"
      if "\<forall>c \<in> set w. \<not> is_ws c" for w
      using IH [of "w @ [c]"] that False by simp
    from this [of "[]"] this show ?thesis
      using False by (simp add: trim_def)
  next
    case True
    have t: "trimEnd (trimStart (squash_ws cs)) = join [32] (words_from [] cs)"
      using Cons by (simp add: trim_def)
    have "trimEnd (w @ squash_ws (c # cs)) = join [32] (words_from w (c # cs))"
      if w: "w \<noteq> []" "\<forall>c \<in> set w. \<not> is_ws c" for w
    proof -
      have "trimEnd (w @ squash_ws (c # cs)) =
          (if words_from [] cs = [] then w else w @ 32 # join [32] (words_from [] cs))"
        unfolding squash_ws_head [OF True] trimEnd_append_nonws [OF w] t join_words_Nil ..
      with True w(1) show ?thesis by (simp add: join_Cons)
    qed
    moreover have "trim (squash_ws (c # cs)) = join [32] (words_from [] (c # cs))"
      using t True by (simp add: squash_ws_head trim_def del: squash_ws.simps)
    ultimately show ?thesis by blast
  qed
qed

lemma words_word: "v \<in> set (words_from w s) \<Longrightarrow> \<forall>c \<in> set w. \<not> is_ws c \<Longrightarrow> v \<noteq> [] \<and> (\<forall>c \<in> set v. \<not> is_ws c)"
  by (induction w s rule: words_from.induct) (auto split: if_splits)

lemma words_from_append: "\<forall>c \<in> set v. \<not> is_ws c \<Longrightarrow> words_from w (v @ s) = words_from (w @ v) s"
  by (induction v arbitrary: w) auto

lemma words_join:
  "\<forall>v \<in> set vs. v \<noteq> [] \<and> (\<forall>c \<in> set v. \<not> is_ws c) \<Longrightarrow> words_from [] (join [32] vs) = vs"
proof (induction vs)
  case (Cons w ws)
  then show ?case
    using words_from_append [of w "[]" "[]"] by (cases ws) (auto simp: words_from_append)
qed simp

lemma words_of_join: "words_from [] (join [32] (words_from [] s)) = words_from [] s"
  by (rule words_join) (use words_word in force)

text \<open>
  The hash that identifies an answered question depends only on the words of the text:
  wrapping it at another width, indenting it or re-joining its lines with other white space
  gives the same key, computed with 32-bit wrap-around and printed in base 36.
\<close>

theorem ctx_hash_of_words:
  "approvalCtxHash s = approvalCtxHash (join [32] (words_from [] s))
   \<and> approvalCtxHash s = radix_digits 36 (uint (foldl hashStep 5381 (join [32] (words_from [] s))))
   \<and> (\<forall>h c. hashStep h c = word_of_int (33 * uint h + c))"
proof -
  have w: "trim (squash_ws s) = join [32] (words_from [] s)" for s
    using squash_words by blast
  have "trim (squash_ws (trim (squash_ws s))) = trim (squash_ws s)"
    unfolding w using words_of_join by simp
  moreover have "hashStep h c = word_of_int (33 * uint h + c)" for h c
  proof -
    have "push_bit 5 h = h * 32" by (simp add: push_bit_eq_mult)
    then show ?thesis by (simp add: hashStep_def)
  qed
  ultimately show ?thesis
    by (simp add: approvalCtxHash_def w)
qed

end
