(* ===== verification/RegexLang.thy ===== *)
theory RegexLang
  imports JsRegex
begin

text \<open>
  What a match of a regular expression looks like: the strings an expression can consume (its
  language, with assertions ignored), and where its captures lie. Proofs that a splitting
  routine loses no text, or that a loop makes progress, need only these facts.
\<close>

section \<open>Languages\<close>

primrec lang :: "bool \<Rightarrow> rx \<Rightarrow> jstr set" where
  "lang ic REps = {[]}"
| "lang ic (RCls C) = {[c] | c. in_class ic C c}"
| "lang ic (RSeq a b) = {u @ v | u v. u \<in> lang ic a \<and> v \<in> lang ic b}"
| "lang ic (RAlt a b) = lang ic a \<union> lang ic b"
| "lang ic (RRep g mn mx r) = {concat us | us. set us \<subseteq> lang ic r \<and> mn \<le> length us}"
| "lang ic (RGrp n r) = lang ic r"
| "lang ic RBol = {[]}"
| "lang ic REol = {[]}"
| "lang ic RWordB = {[]}"
| "lang ic (RLook neg r) = {[]}"

definition consumes :: "st \<Rightarrow> jstr \<Rightarrow> st \<Rightarrow> bool" where
  "consumes x u y \<longleftrightarrow> rest x = u @ rest y \<and> pos y = pos x + int (length u)"

lemma consumes_Nil [simp]: "consumes x [] x"
  by (simp add: consumes_def)

lemma consumes_trans: "consumes x u y \<Longrightarrow> consumes y v z \<Longrightarrow> consumes x (u @ v) z"
  by (simp add: consumes_def)

lemma consumes_forget [simp]: "consumes (forget gs x) u y = consumes x u y"
  by (simp add: consumes_def)

lemma must_lang:
  assumes "\<And>x y. y \<in> R x \<Longrightarrow> \<exists>u \<in> L. consumes x u y"
  shows "y \<in> must_den n R gs x \<Longrightarrow> \<exists>us. set us \<subseteq> L \<and> length us = n \<and> consumes x (concat us) y"
proof (induction n arbitrary: x)
  case (Suc n)
  then obtain z where z: "z \<in> R (forget gs x)" "y \<in> must_den n R gs z" by auto
  from assms [OF z(1)] obtain u where u: "u \<in> L" "consumes x u z" by auto
  from Suc.IH [OF z(2)] obtain us where "set us \<subseteq> L" "length us = n" "consumes z (concat us) y" by blast
  with u show ?case
    by (intro exI [of _ "u # us"]) (auto intro: consumes_trans)
qed auto

lemma iter1_lang:
  assumes "\<And>x y. y \<in> R x \<Longrightarrow> \<exists>u \<in> L. consumes x u y"
  shows "(x, y) \<in> iter1 R gs ^^ j \<Longrightarrow> \<exists>us. set us \<subseteq> L \<and> consumes x (concat us) y"
proof (induction j arbitrary: y)
  case 0
  then show ?case by (intro exI [of _ "[]"]) simp
next
  case (Suc j)
  then obtain z where z: "(x, z) \<in> iter1 R gs ^^ j" "(z, y) \<in> iter1 R gs" by auto
  from Suc.IH [OF z(1)] obtain us where us: "set us \<subseteq> L" "consumes x (concat us) z" by blast
  from z(2) assms [of y "forget gs z"] obtain u where "u \<in> L" "consumes z u y"
    by (auto simp: iter1_def)
  with us show ?case
    by (intro exI [of _ "us @ [u]"]) (auto intro: consumes_trans)
qed

lemma den_lang: "y \<in> den ic r x \<Longrightarrow> \<exists>u \<in> lang ic r. consumes x u y"
proof (induction r arbitrary: x y)
  case (RCls C)
  then show ?case by (auto simp: consumes_def split: list.splits if_splits)
next
  case (RSeq a b)
  then obtain z where "z \<in> den ic a x" "y \<in> den ic b z" by auto
  then obtain u v where "u \<in> lang ic a" "consumes x u z" "v \<in> lang ic b" "consumes z v y"
    using RSeq.IH by blast
  then show ?case by (auto intro: consumes_trans)
next
  case (RAlt a b)
  then show ?case by simp blast
next
  case (RRep g mn mx r)
  then obtain z j where z: "z \<in> must_den mn (den ic r) (groups r) x"
      "(z, y) \<in> iter1 (den ic r) (groups r) ^^ j"
    by (auto simp: loop_den_def)
  from must_lang [OF RRep.IH z(1)] obtain us where us: "set us \<subseteq> lang ic r" "length us = mn" "consumes x (concat us) z"
    by blast
  from iter1_lang [OF RRep.IH z(2)] obtain vs where vs: "set vs \<subseteq> lang ic r" "consumes z (concat vs) y"
    by blast
  have "concat (us @ vs) \<in> lang ic (RRep g mn mx r)"
    unfolding lang.simps mem_Collect_eq
    by (rule exI [of _ "us @ vs"]) (use us vs in auto)
  moreover have "consumes x (concat (us @ vs)) y"
    using us(3) vs(2) by (simp add: consumes_trans)
  ultimately show ?case by blast
next
  case (RGrp n r)
  then show ?case by (force simp: consumes_def)
next
  case (RLook neg r)
  then show ?case by (auto simp: consumes_def split: option.splits if_splits)
qed (auto simp: consumes_def split: if_splits)

lemma lang_seqs:
  "lang ic (seqs []) = {[]}"
  "lang ic (seqs (r # rs)) = {u @ v | u v. u \<in> lang ic r \<and> v \<in> lang ic (seqs rs)}"
  by simp (cases rs; simp)

lemma lang_many_class:
  "u \<in> lang ic (RRep g mn mx (RCls C)) \<Longrightarrow> (\<forall>c \<in> set u. in_class ic C c) \<and> mn \<le> length u"
proof -
  assume "u \<in> lang ic (RRep g mn mx (RCls C))"
  then obtain us where us: "u = concat us" "set us \<subseteq> {[c] | c. in_class ic C c}" "mn \<le> length us"
    by auto
  then have "\<forall>v \<in> set us. length v = 1" by auto
  then have "length (concat us) = length us"
    by (induction us) auto
  moreover have "\<forall>c \<in> set u. in_class ic C c" using us by auto
  ultimately show ?thesis using us by simp
qed

lemma lang_lit: "u \<in> lang ic (lit s) \<Longrightarrow> list_all2 (lit_match ic) s u"
proof (induction s arbitrary: u)
  case (Cons c s)
  then obtain v w where "u = v @ w" "v \<in> lang ic (chr c)" "w \<in> lang ic (lit s)"
    by (auto simp: lit_def lang_seqs simp del: seqs.simps)
  with Cons.IH [of w] show ?case
    by (auto simp: chr_def lit_match_def simp del: in_class.simps)
qed (simp add: lit_def)

text \<open>A match with the text it consumed.\<close>

lemma find_all_den:
  "(i, y) \<in> set (find_all ic re x) \<Longrightarrow> st_of s x
    \<Longrightarrow> \<exists>z. st_of s z \<and> caps z = [] \<and> pos z = i \<and> y \<in> den ic re z"
proof (induction ic re x rule: find_all.induct)
  case (1 ic re x)
  show ?case
  proof (cases "find_at ic re x")
    case None
    with 1 show ?thesis by (simp add: find_all.simps)
  next
    case (Some jw)
    obtain j w where jw: "jw = (j, w)" by (cases jw)
    from find_at_Some [OF Some [unfolded jw]] obtain u r' q' where
      u: "rest x = u @ r'" "j = pos x + int (length u)" "w \<in> den ic re (St j q' r' [])"
      by blast
    let ?z = "St j q' r' []"
    have z: "st_of s ?z"
    proof -
      from \<open>st_of s x\<close> obtain t where "s = t @ rest x" "pos x = int (length t)"
        by (auto simp: st_of_def)
      with u show ?thesis by (auto simp: st_of_def intro!: exI [of _ "t @ u"])
    qed
    have w: "st_of s w" by (rule along_substring(1) [OF z den_along [OF u(3)]])
    have w': "st_of s (skip1 w)" by (rule along_substring(1) [OF w skip1_along])
    from "1.prems"(1) have "(i, y) = (j, w) \<or> (pos w \<noteq> j \<and> (i, y) \<in> set (find_all ic re w))
        \<or> (pos w = j \<and> rest w \<noteq> [] \<and> (i, y) \<in> set (find_all ic re (skip1 w)))"
      by (subst (asm) find_all.simps) (auto simp: Some jw split: if_splits)
    then consider "(i, y) = (j, w)" | "pos w \<noteq> j" "(i, y) \<in> set (find_all ic re w)"
      | "pos w = j" "rest w \<noteq> []" "(i, y) \<in> set (find_all ic re (skip1 w))"
      by blast
    then show ?thesis
    proof cases
      case 1
      with z u show ?thesis by (intro exI [of _ ?z]) auto
    next
      case 2
      then show ?thesis using "1.IH"(1) [OF Some jw [symmetric]] w by blast
    next
      case 3
      then show ?thesis using "1.IH"(2) [OF Some jw [symmetric]] w' by blast
    qed
  qed
qed

lemma exec_all_den:
  assumes "m \<in> set (exec_all ic re s)"
  obtains x y where "st_of s x" "y \<in> den ic re x" "caps x = []" "m = RM (pos x) (pos y) (caps y) s"
proof -
  from assms obtain i y where "(i, y) \<in> set (find_all ic re (start s))" "m = RM i (pos y) (caps y) s"
    by (auto simp: exec_all_def)
  with find_all_den [of i y ic re "start s" s] st_of_start show thesis
    by (auto intro: that)
qed

section \<open>Captures\<close>

text \<open>Expressions without a group inside a lookahead, whose captures lie inside the match.\<close>

primrec plain_look :: "rx \<Rightarrow> bool" where
  "plain_look REps = True"
| "plain_look (RCls C) = True"
| "plain_look (RSeq a b) = (plain_look a \<and> plain_look b)"
| "plain_look (RAlt a b) = (plain_look a \<and> plain_look b)"
| "plain_look (RRep g mn mx r) = plain_look r"
| "plain_look (RGrp n r) = plain_look r"
| "plain_look RBol = True"
| "plain_look REol = True"
| "plain_look RWordB = True"
| "plain_look (RLook neg r) = (groups r = [] \<and> plain_look r)"

lemma must_same:
  assumes "\<And>x y. y \<in> R x \<Longrightarrow> caps y = caps x"
  shows "y \<in> must_den n R [] x \<Longrightarrow> caps y = caps x"
  by (induction n arbitrary: x) (auto simp: forget_def assms)

lemma iter1_same:
  assumes "\<And>x y. y \<in> R x \<Longrightarrow> caps y = caps x"
  shows "(x, y) \<in> iter1 R [] ^^ j \<Longrightarrow> caps y = caps x"
  by (induction j arbitrary: y) (auto simp: iter1_def forget_def assms)

lemma den_no_groups: "y \<in> den ic r x \<Longrightarrow> groups r = [] \<Longrightarrow> caps y = caps x"
proof (induction r arbitrary: x y)
  case (RRep g mn mx r)
  then have g: "groups r = []" by simp
  note IH = RRep.IH [OF _ g]
  from RRep.prems g obtain z j where z: "z \<in> must_den mn (den ic r) [] x"
      "(z, y) \<in> iter1 (den ic r) [] ^^ j"
    by (auto simp: loop_den_def)
  then show ?case using must_same [of "den ic r", OF IH] iter1_same [of "den ic r", OF IH] by metis
next
  case (RLook neg r)
  show ?case
  proof (cases "run ic r Some x")
    case None
    with RLook.prems show ?thesis by (auto split: if_splits)
  next
    case (Some w)
    then have "w \<in> den ic r x" using run_sound [of ic r Some x w] by auto
    with RLook Some show ?thesis by (auto split: if_splits)
  qed
qed (auto split: list.splits if_splits)

definition caps_in :: "int \<Rightarrow> st \<Rightarrow> bool" where
  "caps_in lo x \<longleftrightarrow> lo \<le> pos x \<and> (\<forall>(n, a, b) \<in> set (caps x). lo \<le> a \<and> a \<le> b \<and> b \<le> pos x)"

lemma caps_in_forget: "caps_in lo x \<Longrightarrow> caps_in lo (forget gs x)"
  by (auto simp: caps_in_def forget_def)

lemma must_caps_in:
  assumes "\<And>x y. y \<in> R x \<Longrightarrow> caps_in lo x \<Longrightarrow> caps_in lo y"
  shows "y \<in> must_den n R gs x \<Longrightarrow> caps_in lo x \<Longrightarrow> caps_in lo y"
  by (induction n arbitrary: x) (auto dest: assms caps_in_forget)

lemma iter1_caps_in:
  assumes "\<And>x y. y \<in> R x \<Longrightarrow> caps_in lo x \<Longrightarrow> caps_in lo y"
  shows "(x, y) \<in> iter1 R gs ^^ j \<Longrightarrow> caps_in lo x \<Longrightarrow> caps_in lo y"
  by (induction j arbitrary: y) (auto simp: iter1_def dest: assms caps_in_forget)

lemma den_caps_in: "y \<in> den ic r x \<Longrightarrow> plain_look r \<Longrightarrow> caps_in lo x \<Longrightarrow> caps_in lo y"
proof (induction r arbitrary: x y)
  case (RCls C)
  then show ?case by (auto simp: caps_in_def split: list.splits if_splits)
next
  case (RSeq a b)
  then show ?case by auto
next
  case (RRep g mn mx r)
  then have p: "plain_look r" by simp
  have IH: "\<And>x y. y \<in> den ic r x \<Longrightarrow> caps_in lo x \<Longrightarrow> caps_in lo y"
    using RRep.IH p by blast
  from RRep.prems obtain z j where z: "z \<in> must_den mn (den ic r) (groups r) x"
      "(z, y) \<in> iter1 (den ic r) (groups r) ^^ j"
    by (auto simp: loop_den_def)
  have "caps_in lo z"
    by (rule must_caps_in [OF _ z(1) RRep.prems(3)]) (rule IH)
  then show ?case
    by (rule iter1_caps_in [OF _ z(2), rotated]) (rule IH)
next
  case (RGrp n r)
  then obtain w where w: "w \<in> den ic r x" "y = St (pos w) (prev w) (rest w) ((n, pos x, pos w) # caps w)"
    by auto
  with RGrp have "caps_in lo w" by simp
  moreover have "pos x \<le> pos w" by (rule along_pos_le [OF den_along [OF w(1)]])
  ultimately show ?case using w(2) RGrp.prems(3) by (auto simp: caps_in_def)
next
  case (RLook neg r)
  show ?case
  proof (cases "run ic r Some x")
    case None
    with RLook.prems show ?thesis by (auto split: if_splits)
  next
    case (Some w)
    then have "w \<in> den ic r x" using run_sound [of ic r Some x w] by auto
    then have "caps w = caps x" using RLook.prems(2) den_no_groups by auto
    with RLook.prems Some show ?thesis by (auto simp: caps_in_def split: if_splits)
  qed
qed (auto split: if_splits)

text \<open>A captured text is no longer than the match.\<close>

lemma length_substring_le: "int (length (substring s a b)) \<le> max 0 (b - a)"
  by (auto simp: substring_def)

lemma grp_length:
  assumes "m \<in> set (exec_all ic re s)" "plain_look re"
  shows "m_index m + int (length (grp m n)) \<le> m_end m"
proof -
  from exec_all_den [OF assms(1)] obtain x y where xy: "st_of s x" "y \<in> den ic re x" "caps x = []"
      "m = RM (pos x) (pos y) (caps y) s" .
  have "caps_in (pos x) y"
    by (rule den_caps_in [OF xy(2) assms(2)]) (simp add: caps_in_def xy(3))
  then have c: "pos x \<le> pos y" "\<And>n a b. map_of (caps y) n = Some (a, b) \<Longrightarrow> pos x \<le> a \<and> a \<le> b \<and> b \<le> pos y"
    using map_of_SomeD by (fastforce simp: caps_in_def)+
  show ?thesis
  proof (cases "map_of (caps y) n")
    case None
    with xy(4) c(1) show ?thesis by (simp add: grp_def m_group_def)
  next
    case (Some ab)
    obtain a b where ab: "ab = (a, b)" by (cases ab)
    have "int (length (substring s a b)) \<le> b - a"
      using length_substring_le [of s a b] c(2) [OF Some [unfolded ab]] by simp
    with Some ab xy(4) c(2) [OF Some [unfolded ab]] show ?thesis
      by (simp add: grp_def m_group_def)
  qed
qed


section \<open>Matches and the text around them\<close>

lemma exec_split:
  assumes "exec ic re s = Some m"
  shows "s = slice s 0 (m_index m) @ m_text m @ slice_from s (m_index m + int (length (m_text m)))"
proof -
  let ?i = "nat (m_index m)" and ?e = "nat (m_end m)"
  note b = exec_bounds [OF assms]
  have l: "m_text m = take (?e - ?i) (drop ?i s)"
    using b by (simp add: m_text_def substring_def nat_diff_distrib)
  then have n: "int (length (m_text m)) = m_end m - m_index m"
    using b by auto
  have le: "nat (m_end m) \<le> length s" using b by simp
  have "slice s 0 (m_index m) = take ?i s"
    using b by (simp add: slice_prefix)
  moreover have "slice_from s (m_index m + int (length (m_text m))) = drop ?e s"
    using b le by (simp add: n slice_from_def slice_pos_def min_def)
  moreover have "take ?i s @ take (?e - ?i) (drop ?i s) @ drop ?e s = s"
  proof -
    have "?i + (?e - ?i) = ?e" using b by simp
    then have "drop ?e s = drop (?e - ?i) (drop ?i s)" by (simp add: add.commute)
    then show ?thesis by (simp only: append_take_drop_id)
  qed
  ultimately show ?thesis using l by simp
qed

text \<open>An expression with one capture in its middle, and the three texts a match consumes.\<close>

lemma exec_capture:
  assumes "exec ic (RSeq a (RSeq (RGrp n g) b)) s = Some m" "groups b = []"
  obtains u v w where "m_text m = u @ v @ w" "grp m n = v"
    "u \<in> lang ic a" "v \<in> lang ic g" "w \<in> lang ic b"
proof -
  from exec_den [OF assms(1)] obtain x y where xy: "st_of s x"
      "y \<in> den ic (RSeq a (RSeq (RGrp n g) b)) x" "m = RM (pos x) (pos y) (caps y) s"
    by metis
  from xy(2) obtain x1 x2 where d: "x1 \<in> den ic a x" "x2 \<in> den ic g x1"
      "y \<in> den ic b (St (pos x2) (prev x2) (rest x2) ((n, pos x1, pos x2) # caps x2))"
    by auto
  let ?x3 = "St (pos x2) (prev x2) (rest x2) ((n, pos x1, pos x2) # caps x2)"
  from den_lang [OF d(1)] obtain u where u: "u \<in> lang ic a" "consumes x u x1" by blast
  from den_lang [OF d(2)] obtain v where v: "v \<in> lang ic g" "consumes x1 v x2" by blast
  from den_lang [OF d(3)] obtain w where w: "w \<in> lang ic b" "consumes ?x3 w y" by blast
  from xy(1) obtain t where t: "s = t @ rest x" "pos x = int (length t)"
    by (auto simp: st_of_def)
  have s: "s = t @ u @ v @ w @ rest y"
    using t u v w by (simp add: consumes_def)
  have p: "pos x1 = int (length (t @ u))" "pos x2 = int (length (t @ u @ v))"
      "pos y = int (length (t @ u @ v @ w))"
    using t u v w by (simp_all add: consumes_def)
  have "m_text m = u @ v @ w"
    using xy(3) p t(2) by (simp add: m_text_def substring_def s nat_diff_distrib nat_add_distrib)
  moreover have "caps y = (n, pos x1, pos x2) # caps x2"
    using den_no_groups [OF d(3) assms(2)] by simp
  then have "grp m n = v"
    using xy(3) p by (simp add: grp_def m_group_def substring_def s nat_add_distrib)
  ultimately show thesis using that u v w by blast
qed

text \<open>Letters matched under the \<open>i\<close> flag have the same lower case.\<close>

lemma other_case_lower: "lower_cu (other_case d) = lower_cu d"
  unfolding other_case_def by (simp add: lower_cu_def)

lemma lit_match_lower: "lit_match True c d \<Longrightarrow> lower_cu d = lower_cu c"
  using other_case_lower [of d] by (auto simp: lit_match_def split: if_splits)

lemma is_ws_letter: "65 \<le> d \<Longrightarrow> d \<le> 122 \<Longrightarrow> \<not> is_ws d" "65313 \<le> d \<Longrightarrow> d \<le> 65370 \<Longrightarrow> \<not> is_ws d"
  by (simp_all add: is_ws_def)

lemma other_case_ws: "is_ws (other_case d) = is_ws d"
  unfolding other_case_def by (simp add: is_ws_letter)

lemma lit_match_ws: "lit_match ic c d \<Longrightarrow> is_ws d = is_ws c"
  using other_case_ws [of d] by (auto simp: lit_match_def split: if_splits)

lemma toLowerCase_append [simp]: "toLowerCase (s @ t) = toLowerCase s @ toLowerCase t"
  by (induction s) auto

lemma lit_match_fold: "list_all2 (lit_match True) s u \<Longrightarrow> toLowerCase (ink u) = toLowerCase (ink s)"
  by (induction rule: list_all2_induct) (simp_all add: lit_match_lower lit_match_ws)

lemma lit_match_exact: "lit_match False c d \<longleftrightarrow> d = c"
  by (auto simp: lit_match_def)

lemma ink_ws: "\<forall>c \<in> set u. is_ws c \<Longrightarrow> ink u = []"
  by (simp add: ink_def filter_empty_conv)

end
