(* ===== verification/ApprovalUnglue.thy ===== *)
theory ApprovalUnglue
  imports ApprovalText RegexLang
begin

text \<open>
  \<open>src/web/src/app/approval-parser.ts\<close>, the restoration of lines: terminal interfaces redraw
  choices without line breaks, and these routines cut the glued lines again, at \<open>Q1\<close> headings,
  at the \<open>N. User specifies\<close> anchor and at the numbers of consecutive choices. The main result
  is that cutting loses no text.
\<close>

definition pushText :: "jstr \<Rightarrow> jstr list" where
  "pushText t = (if t = [] then [] else [t])"

section \<open>The anchor of a question\<close>

definition anchorWord :: rx where
  "anchorWord = RAlt (seqs [lit (js ''User''), many wsCh, lit (js ''specifies'')]) (lit jpOther)"

definition anchorHead :: rx where
  "anchorHead = seqs [many wsCh, RWordB, chr 78, chr 46, many (anyOf [32, 9])]"

definition splitAnchorRe :: rx where
  "splitAnchorRe = RSeq anchorHead (RSeq (RGrp 1 anchorWord) (seqs [RWordB, many wsCh]))"

lemma lang_many_ws: "u \<in> lang ic (many wsCh) \<Longrightarrow> \<forall>c \<in> set u. is_ws c"
proof -
  have c: "in_class ic (CC False [CWs]) c = is_ws c" for c
    using other_case_ws [of c] by simp
  show "u \<in> lang ic (many wsCh) \<Longrightarrow> \<forall>c \<in> set u. is_ws c"
    using lang_many_class [of u ic True 0 None "CC False [CWs]"]
    by (simp add: many_def wsCh_def c del: lang.simps in_class.simps)
qed

lemma anchorHead_lang:
  "u \<in> lang True anchorHead \<Longrightarrow> toLowerCase (ink u) = js ''n.'' \<and> u \<noteq> []"
proof -
  assume "u \<in> lang True anchorHead"
  then obtain a n p b where u: "u = a @ n @ p @ b" "a \<in> lang True (many wsCh)"
      "n \<in> lang True (chr 78)" "p \<in> lang True (chr 46)" "b \<in> lang True (many (anyOf [32, 9]))"
    by (auto simp: anchorHead_def lang_seqs simp del: seqs.simps)
  have "n = [78] \<or> n = [110]" "p = [46]"
    using u(3,4) by (auto simp: chr_def other_case_def split: if_splits)
  moreover have "ink a = []" using lang_many_ws [OF u(2)] by (rule ink_ws)
  moreover have "\<forall>c \<in> set b. in_class True (CC False [CRange 32 32, CRange 9 9]) c"
    using lang_many_class [of b True True 0 None "CC False [CRange 32 32, CRange 9 9]"] u(5)
    by (simp add: many_def anyOf_def del: lang.simps in_class.simps)
  then have "\<forall>c \<in> set b. is_ws c"
    by (auto simp: other_case_def split: if_splits)
  then have "ink b = []" by (rule ink_ws)
  ultimately show ?thesis
    using u(1) by (auto simp: js_def is_ws_def lower_cu_def)
qed

lemma lit_match_set:
  "list_all2 (lit_match True) s u \<Longrightarrow> other_case d = d \<Longrightarrow> d \<notin> set s \<Longrightarrow> d \<notin> set u"
  by (induction rule: list_all2_induct) (auto simp: lit_match_def split: if_splits)

lemma other_case_invol: "other_case (other_case d) = d"
  unfolding other_case_def by simp

lemma lit_match_caseless: "lit_match True c d \<Longrightarrow> other_case c = c \<Longrightarrow> d = c"
  using other_case_invol [of d] by (auto simp: lit_match_def split: if_splits)

lemma lit_caseless:
  "list_all2 (lit_match True) s u \<Longrightarrow> \<forall>c \<in> set s. other_case c = c \<Longrightarrow> u = s"
  by (induction rule: list_all2_induct) (auto dest: lit_match_caseless)

lemma anchorWord_lang:
  assumes "v \<in> lang True anchorWord"
  shows "toLowerCase (ink v) =
    (if test False (lit jpOther) v then jpOther else js ''userspecifies'')"
proof -
  from assms consider "v \<in> lang True (lit jpOther)"
    | "v \<in> lang True (seqs [lit (js ''User''), many wsCh, lit (js ''specifies'')])"
    by (auto simp: anchorWord_def simp del: seqs.simps)
  then show ?thesis
  proof cases
    case 1
    then have l: "list_all2 (lit_match True) jpOther v" by (rule lang_lit)
    then have v: "v = jpOther"
      by (rule lit_caseless) (simp add: jpOther_def other_case_def)
    have "list_all2 (lit_match False) jpOther jpOther"
      by (simp add: list_all2_refl lit_match_exact)
    then have "test False (lit jpOther) v"
      unfolding test_lit v by blast
    moreover have "toLowerCase (ink jpOther) = jpOther" by code_simp
    ultimately show ?thesis using v by simp
  next
    case 2
    then obtain a b c where v: "v = a @ b @ c" "a \<in> lang True (lit (js ''User''))"
        "b \<in> lang True (many wsCh)" "c \<in> lang True (lit (js ''specifies''))"
      by (auto simp: lang_seqs simp del: seqs.simps)
    note la = lang_lit [OF v(2)] and lc = lang_lit [OF v(4)]
    have "\<not> test False (lit jpOther) v"
    proof
      assume "test False (lit jpOther) v"
      then obtain w where "sublist w v" "list_all2 (lit_match False) jpOther w"
        unfolding test_lit by blast
      then have "12381 \<in> set v"
        by (auto simp: jpOther_def list_all2_Cons1 lit_match_exact sublist_def)
      moreover have "12381 \<notin> set a" "12381 \<notin> set c"
        by (rule lit_match_set [OF la] lit_match_set [OF lc]; simp add: js_def other_case_def)+
      moreover have "12381 \<notin> set b" using lang_many_ws [OF v(3)] by (auto simp: is_ws_def)
      ultimately show False using v(1) by simp
    qed
    moreover have "toLowerCase (ink a) = js ''user''" "toLowerCase (ink c) = js ''specifies''"
      unfolding lit_match_fold [OF la] lit_match_fold [OF lc] by code_simp+
    moreover have "ink b = []" using lang_many_ws [OF v(3)] by (rule ink_ws)
    ultimately show ?thesis using v(1) by (simp add: js_def)
  qed
qed

definition anchorKind :: "rmatch \<Rightarrow> jstr" where
  "anchorKind m = (if test False (lit jpOther) (grp m 1) then jpOther else js ''User specifies'')"

text \<open>A match of the anchor is the normalised anchor up to white space and case.\<close>

lemma anchor_match:
  assumes "exec True splitAnchorRe s = Some m"
  shows "toLowerCase (ink (m_text m)) = toLowerCase (ink (js ''N. '' @ anchorKind m))"
    and "m_text m \<noteq> []"
proof -
  have "groups (seqs [RWordB, many wsCh]) = []" by (simp add: many_def wsCh_def)
  from exec_capture [OF assms [unfolded splitAnchorRe_def] this] obtain u v w where
    t: "m_text m = u @ v @ w" "grp m 1 = v" "u \<in> lang True anchorHead" "v \<in> lang True anchorWord"
      "w \<in> lang True (seqs [RWordB, many wsCh])" .
  from t(5) have "w \<in> lang True (many wsCh)" by simp
  then have w: "ink w = []" using lang_many_ws ink_ws by blast
  note u = anchorHead_lang [OF t(3)]
  have k: "toLowerCase (ink (js ''N. '' @ anchorKind m)) = js ''n.'' @
      (if test False (lit jpOther) v then jpOther else js ''userspecifies'')"
  proof -
    have "toLowerCase (ink (js ''N. '')) = js ''n.''" "toLowerCase (ink jpOther) = jpOther"
      "toLowerCase (ink (js ''User specifies'')) = js ''userspecifies''"
      by code_simp+
    then show ?thesis by (simp add: anchorKind_def t(2) [simplified])
  qed
  show "toLowerCase (ink (m_text m)) = toLowerCase (ink (js ''N. '' @ anchorKind m))"
    unfolding k using u w anchorWord_lang [OF t(4)] by (simp add: t(1))
  show "m_text m \<noteq> []" using u t(1) by simp
qed

lemma length_trim_le: "length (trim s) \<le> length s"
  by (simp add: trim_def trimEnd_def trimStart_def)
     (metis length_dropWhile_le length_rev order_trans)

function expandAnchor :: "jstr \<Rightarrow> jstr list" where
  "expandAnchor line =
     (case exec True splitAnchorRe line of
        None \<Rightarrow> [line]
      | Some m \<Rightarrow>
          (let bef = trim (slice line 0 (m_index m));
               aft = trim (slice_from line (m_index m + int (length (m_text m))))
           in pushText bef @ [js ''N. '' @ anchorKind m]
              @ (if aft = [] then [] else expandAnchor aft)))"
  by pat_completeness auto

termination
proof (relation "measure length", goal_cases)
  case (2 line m bef aft)
  have "length line = length (slice line 0 (m_index m)) + length (m_text m)
      + length (slice_from line (m_index m + int (length (m_text m))))"
    using arg_cong [OF exec_split [OF 2(1)], of length] by simp
  moreover have "0 < length (m_text m)"
    using anchor_match(2) [OF 2(1)] by simp
  moreover note length_trim_le [of "slice_from line (m_index m + int (length (m_text m)))"]
  ultimately have "length aft < length line" unfolding 2(3) by linarith
  then show ?case by simp
qed simp

declare expandAnchor.simps [simp del]

definition splitUserSpecifiesAnchor :: "jstr list \<Rightarrow> jstr list" where
  "splitUserSpecifiesAnchor ls = concat (map expandAnchor ls)"

section \<open>Headings inside a line\<close>

definition inlineHeadRe :: rx where
  "inlineHeadRe = seqs [anyOf [81, 65329], times 1 2 digit,
     RLook True (RCls (CC False [CRange 65 90, CRange 97 122, CDigit]))]"

definition openBracket :: "cu \<Rightarrow> bool" where
  "openBracket c = List.member [91, 12300, 12302, 12304, 65288, 40] c"

function inlineHeads :: "jstr \<Rightarrow> jstr list" where
  "inlineHeads r =
     (if length r \<le> 1 then (if trim r = [] then [] else [r])
      else (case exec False inlineHeadRe (slice_from r 1) of
              None \<Rightarrow> (if trim r = [] then [] else [r])
            | Some m \<Rightarrow>
                (let k = m_index m + 1 in
                 if openBracket (r ! nat (k - 1)) then (if trim r = [] then [] else [r])
                 else pushText (trim (slice r 0 k)) @ inlineHeads (slice_from r k))))"
  by pat_completeness auto
termination
proof (relation "measure length", goal_cases)
  case (2 r m k)
  have "0 \<le> m_index m" using exec_bounds [OF 2(2)] by simp
  with 2 show ?case by (auto simp: slice_from_def slice_pos_def min_def)
qed simp

declare inlineHeads.simps [simp del]

definition splitInlineQuestionHeading :: "jstr list \<Rightarrow> jstr list" where
  "splitInlineQuestionHeading ls = concat (map inlineHeads ls)"

section \<open>Glued numbered choices\<close>

definition strongRe :: rx where
  "strongRe = seqs [RGrp 1 (times 1 2 digit), chr 46, many wsCh, chr 91,
     RGrp 2 (times 1 16 (RCls (CC True [CRange 93 93, CRange 91 91, CRange 10 10]))), chr 93]"

definition weakRe :: rx where
  "weakRe = seqs [RGrp 1 (RAlt RBol (RCls (CC False (CWs # map (\<lambda>c. CRange c c)
       [41, 65289, 12301, 12303, 12305, 12290, 65294, 65311, 63, 65281, 33, 8230])))),
     RGrp 2 (times 1 2 digit), chr 46,
     RAlt (many1 wsCh) (RLook False (RCls (CC False [CNonDigit])))]"

text \<open>The loop over the strong marks stops at the first number that does not grow.\<close>

fun strongScan :: "rmatch list \<Rightarrow> (int \<times> int) list \<Rightarrow> (int \<times> int) list \<times> bool" where
  "strongScan [] acc = (acc, True)"
| "strongScan (sm # ms) acc =
     (let num = parse_int (grp sm 1) in
      if acc \<noteq> [] \<and> num \<le> snd (last acc) then (acc, False)
      else strongScan ms (acc @ [(m_index sm, num)]))"

fun cutSegs :: "jstr \<Rightarrow> (int \<times> int) list \<Rightarrow> jstr list" where
  "cutSegs line [] = []"
| "cutSegs line [(a, n)] = pushText (trim (slice line a (int (length line))))"
| "cutSegs line ((a, n) # (b, k) # ms) =
     pushText (trim (slice line a b)) @ cutSegs line ((b, k) # ms)"

definition cutAtMarks :: "jstr \<Rightarrow> (int \<times> int) list \<Rightarrow> jstr list" where
  "cutAtMarks line ms = pushText (trim (slice line 0 (fst (hd ms)))) @ cutSegs line ms"

definition weakMarks :: "jstr \<Rightarrow> (int \<times> int) list" where
  "weakMarks line = map (\<lambda>m. (m_index m + int (length (grp m 1)), parse_int (grp m 2)))
     (exec_all False weakRe line)"

fun consecutive :: "(int \<times> int) list \<Rightarrow> bool" where
  "consecutive ((a, n) # (b, k) # ms) = (if k = n + 1 then consecutive ((b, k) # ms) else False)"
| "consecutive ms = True"

definition glyphsOnlyRe :: rx where
  "glyphsOnlyRe = seqs [RBol, many1 (anyOf [62, 10095, 8250, 10097, 42, 45, 8226, 12539]), REol]"

definition splitWeak :: "jstr \<Rightarrow> jstr list" where
  "splitWeak line =
     (let ms = weakMarks line in
      if length ms < 2 then
        (if length ms = 1 \<and> snd (hd ms) = 1 then
           (let head = trim (slice line 0 (fst (hd ms))) in
            if head \<noteq> [] \<and> \<not> test False glyphsOnlyRe head
            then head # pushText (trim (slice_from line (fst (hd ms))))
            else [line])
         else [line])
      else if \<not> consecutive ms then [line]
      else cutAtMarks line ms)"

definition splitGluedNumberedLine :: "jstr \<Rightarrow> jstr list" where
  "splitGluedNumberedLine line =
     (let (ms, smOk) = strongScan (exec_all False strongRe line) [] in
      if smOk \<and> 2 \<le> length ms then cutAtMarks line ms
      else if length ms = 1 then
        (let head = trim (slice line 0 (fst (hd ms)));
             seg = trim (slice_from line (fst (hd ms)))
         in if head \<noteq> [] \<and> seg \<noteq> [] \<and> \<not> test False (RSeq RBol digit) head
            then [head, seg] else splitWeak line)
      else splitWeak line)"

section \<open>Terminal cursor operations\<close>

definition vtRowMoveRe :: rx where
  "vtRowMoveRe = seqs [chr 27, chr 91, many (RCls (CC False [CRange 48 57, CRange 59 59])),
     anyOf [72, 69, 70, 100]]"

definition vtForwardRe :: rx where
  "vtForwardRe = seqs [chr 27, chr 91, RGrp 1 (many (RCls (CC False [CRange 48 57]))), chr 67]"

definition vtEraseRe :: rx where
  "vtEraseRe = seqs [chr 27, chr 91, many (RCls (CC False [CRange 48 57])), chr 88]"

definition forwardBlanks :: "rmatch \<Rightarrow> jstr" where
  "forwardBlanks m =
     (let n = grp m 1; k = parse_int (if n = [] then [49] else n) in
      replicate (nat (min (if k = 0 then 1 else k) 200)) 32)"

definition normalizeVtCursorOps :: "jstr \<Rightarrow> jstr" where
  "normalizeVtCursorOps t =
     replace_all False vtEraseRe (\<lambda>_. [32])
       (replace_all False vtForwardRe forwardBlanks
         (replace_all False vtRowMoveRe (\<lambda>_. [10]) t))"

definition ungluedApprovalLines :: "jstr list \<Rightarrow> jstr list" where
  "ungluedApprovalLines ls =
     concat (map splitGluedNumberedLine
       (splitUserSpecifiesAnchor (splitInlineQuestionHeading ls)))"


section \<open>No text is lost\<close>

definition inkOf :: "jstr list \<Rightarrow> jstr" where
  "inkOf ls = concat (map ink ls)"

lemma inkOf_simps [simp]:
  "inkOf [] = []" "inkOf (l # ls) = ink l @ inkOf ls" "inkOf (ls @ ks) = inkOf ls @ inkOf ks"
  by (simp_all add: inkOf_def)

lemma inkOf_pushText [simp]: "inkOf (pushText (trim t)) = ink t"
  using ink_eq_Nil_iff [of t] by (auto simp: pushText_def)

lemma inkOf_concat: "inkOf (concat lss) = concat (map inkOf lss)"
  by (induction lss) auto

lemma toLowerCase_concat: "toLowerCase (concat us) = concat (map toLowerCase us)"
  by (induction us) auto

lemma cut_in_two: "0 \<le> k \<Longrightarrow> s = slice s 0 k @ slice_from s k"
  by (auto simp: slice_prefix slice_from_def slice_pos_def min_def)

lemma ink_cut: "0 \<le> k \<Longrightarrow> ink (slice s 0 k) @ ink (slice_from s k) = ink s"
  by (metis cut_in_two ink_simps(3))

lemma ink_expandAnchor: "toLowerCase (inkOf (expandAnchor l)) = toLowerCase (ink l)"
proof (induction l rule: expandAnchor.induct)
  case (1 line)
  show ?case
  proof (cases "exec True splitAnchorRe line")
    case None
    then show ?thesis by (simp add: expandAnchor.simps)
  next
    case (Some m)
    let ?a = "slice_from line (m_index m + int (length (m_text m)))"
    have split: "ink line = ink (slice line 0 (m_index m)) @ ink (m_text m) @ ink ?a"
      by (metis exec_split [OF Some] ink_simps(3))
    have "toLowerCase (inkOf (if trim ?a = [] then [] else expandAnchor (trim ?a))) = toLowerCase (ink ?a)"
      using "1.IH" [OF Some refl refl] ink_trim [of ?a] by (cases "trim ?a = []") auto
    with Some show ?thesis
      by (subst expandAnchor.simps) (simp add: Let_def split anchor_match(1) [OF Some])
  qed
qed

lemma ink_inlineHeads: "inkOf (inlineHeads r) = ink r"
proof (induction r rule: inlineHeads.induct)
  case (1 r)
  have blank: "trim r = [] \<Longrightarrow> ink r = []"
    using ink_trim [of r] by simp
  show ?case
  proof (cases "length r \<le> 1")
    case True
    with blank show ?thesis by (subst inlineHeads.simps) auto
  next
    case False
    show ?thesis
    proof (cases "exec False inlineHeadRe (slice_from r 1)")
      case None
      with False blank show ?thesis by (subst inlineHeads.simps) auto
    next
      case (Some m)
      have "0 \<le> m_index m" using exec_bounds [OF Some] by simp
      with False Some blank "1.IH" [OF False Some refl] ink_cut [of "m_index m + 1" r]
      show ?thesis by (subst inlineHeads.simps) (auto simp: Let_def)
    qed
  qed
qed

definition marksIn :: "int \<Rightarrow> (int \<times> int) list \<Rightarrow> jstr \<Rightarrow> bool" where
  "marksIn lo ms line \<longleftrightarrow> ordered lo (map (\<lambda>(a, n). (a, a)) ms) (int (length line))"

lemma marks_of_matches:
  assumes "\<And>m. m \<in> set ms \<Longrightarrow> m_index m \<le> f m \<and> f m \<le> m_end m"
  shows "ordered lo (map (\<lambda>m. (m_index m, m_end m)) ms) hi
    \<Longrightarrow> ordered lo (map (\<lambda>(a, n). (a, a)) (map (\<lambda>m. (f m, g m)) ms)) hi"
  using assms
proof (induction ms arbitrary: lo)
  case (Cons m ms)
  then have "ordered (m_end m) (map (\<lambda>(a, n). (a, a)) (map (\<lambda>m. (f m, g m)) ms)) hi"
    by simp
  moreover have "m_index m \<le> f m" "f m \<le> m_end m" using Cons.prems(2) [of m] by auto
  moreover have "m_end m \<le> hi" "lo \<le> m_index m" using Cons.prems(1) by auto
  ultimately show ?case by (auto intro: ordered_mono)
qed simp

lemma weakMarks_in: "marksIn 0 (weakMarks line) line"
  unfolding marksIn_def weakMarks_def
proof (rule marks_of_matches)
  fix m assume m: "m \<in> set (exec_all False weakRe line)"
  have "plain_look weakRe" by (simp add: weakRe_def rx_abbrevs)
  from grp_length [OF m this, of 1]
  show "m_index m \<le> m_index m + int (length (grp m 1)) \<and> m_index m + int (length (grp m 1)) \<le> m_end m"
    by simp
qed (rule exec_all_ordered)

lemma ordered_take: "ordered lo ms hi \<Longrightarrow> lo \<le> hi \<Longrightarrow> ordered lo (take k ms) hi"
  by (induction ms arbitrary: lo k) (auto simp: take_Cons split: nat.splits)

lemma strongScan_take:
  "\<exists>k. fst (strongScan ms acc) = acc @ map (\<lambda>m. (m_index m, parse_int (grp m 1))) (take k ms)"
proof (induction ms acc rule: strongScan.induct)
  case (2 sm ms acc)
  show ?case
  proof (cases "acc \<noteq> [] \<and> parse_int (grp sm 1) \<le> snd (last acc)")
    case True
    then show ?thesis by (intro exI [of _ 0]) simp
  next
    case False
    from "2.IH" [OF refl False] obtain k where "fst (strongScan ms (acc @ [(m_index sm, parse_int (grp sm 1))]))
        = (acc @ [(m_index sm, parse_int (grp sm 1))]) @ map (\<lambda>m. (m_index m, parse_int (grp m 1))) (take k ms)"
      by blast
    with False show ?thesis
      by (intro exI [of _ "Suc k"]) (auto simp: Let_def)
  qed
qed simp

lemma strongMarks_in: "marksIn 0 (fst (strongScan (exec_all False strongRe line) [])) line"
proof -
  let ?ms = "exec_all False strongRe line"
  obtain k where k: "fst (strongScan ?ms []) = map (\<lambda>m. (m_index m, parse_int (grp m 1))) (take k ?ms)"
    using strongScan_take [of ?ms "[]"] by auto
  have "ordered 0 (map (\<lambda>m. (m_index m, m_end m)) (take k ?ms)) (int (length line))"
    using ordered_take [OF exec_all_ordered [of False strongRe line], of k] by (simp add: take_map)
  moreover have "m_index m \<le> m_end m" if m: "m \<in> set (take k ?ms)" for m
  proof -
    have "m \<in> set ?ms" using m by (rule in_set_takeD)
    moreover have "plain_look strongRe" by (simp add: strongRe_def rx_abbrevs)
    ultimately show ?thesis using grp_length [of m False strongRe line 1] by simp
  qed
  ultimately show ?thesis
    unfolding k marksIn_def by (intro marks_of_matches) auto
qed

lemma ink_cutSegs:
  "marksIn lo ms line \<Longrightarrow> 0 \<le> lo \<Longrightarrow> ms \<noteq> [] \<Longrightarrow> inkOf (cutSegs line ms) = ink (slice_from line (fst (hd ms)))"
proof (induction line ms arbitrary: lo rule: cutSegs.induct)
  case (2 line a n)
  then show ?case
    by (simp add: marksIn_def slice_def slice_from_def slice_pos_def)
next
  case (3 line a n b k ms)
  then have ab: "0 \<le> a" "a \<le> b" "b \<le> int (length line)" "marksIn b ((b, k) # ms) line"
    by (auto simp: marksIn_def)
  have "marksIn a ((b, k) # ms) line" "0 \<le> a"
    using ab by (auto simp: marksIn_def)
  from "3.IH" [OF this] have IH: "inkOf (cutSegs line ((b, k) # ms)) = ink (slice_from line b)"
    by simp
  have "slice_from line a = slice line a b @ slice_from line b"
  proof -
    have "nat b \<le> length line" "nat a \<le> nat b" using ab by auto
    then have "drop (nat a) line = drop (nat a) (take (nat b) line) @ drop (nat b) line"
      by (metis append_take_drop_id drop_append drop_take length_take min.absorb2 diff_is_0_eq drop0)
    moreover have "nat a \<le> length line" using ab by simp
    ultimately show ?thesis
      using ab \<open>nat b \<le> length line\<close> by (simp add: slice_def slice_from_def slice_pos_def min_def)
  qed
  with IH show ?case by simp
qed simp

lemma ink_cutAtMarks: "marksIn 0 ms line \<Longrightarrow> ms \<noteq> [] \<Longrightarrow> inkOf (cutAtMarks line ms) = ink line"
proof -
  assume a: "marksIn 0 ms line" "ms \<noteq> []"
  then have "0 \<le> fst (hd ms)" by (cases ms) (auto simp: marksIn_def)
  with ink_cutSegs [OF a(1) _ a(2)] ink_cut [of "fst (hd ms)" line] show ?thesis
    by (simp add: cutAtMarks_def)
qed

lemma marksIn_hd: "marksIn 0 ms line \<Longrightarrow> ms \<noteq> [] \<Longrightarrow> 0 \<le> fst (hd ms)"
  by (cases ms) (auto simp: marksIn_def)

lemma ink_splitWeak: "inkOf (splitWeak line) = ink line"
proof (cases "weakMarks line = []")
  case False
  note h = marksIn_hd [OF weakMarks_in False]
  show ?thesis
    using ink_cut [OF h, of line] ink_cutAtMarks [OF weakMarks_in False]
    by (auto simp: splitWeak_def Let_def)
qed (simp add: splitWeak_def)

lemma ink_splitGlued: "inkOf (splitGluedNumberedLine line) = ink line"
proof -
  obtain ms ok where ms: "strongScan (exec_all False strongRe line) [] = (ms, ok)"
    by (cases "strongScan (exec_all False strongRe line) []")
  have m: "marksIn 0 ms line" using strongMarks_in [of line] ms by simp
  show ?thesis
  proof (cases "ms = []")
    case False
    show ?thesis
      using ink_cut [OF marksIn_hd [OF m False], of line] ink_cutAtMarks [OF m False]
      by (auto simp: splitGluedNumberedLine_def ms Let_def ink_splitWeak)
  qed (simp add: splitGluedNumberedLine_def ms ink_splitWeak)
qed

text \<open>
  C40: Restoring glued lines loses and invents no text: apart from white space (and the case of
  an anchor, which is rewritten as \<open>N. User specifies\<close>), the lines that come out of
  \<open>ungluedApprovalLines\<close> spell exactly what went in, in the same order, and cutting at \<open>Q1\<close>
  headings or at numbered choices is exact.
\<close>

theorem ungluing_keeps_text:
  "toLowerCase (inkOf (ungluedApprovalLines ls)) = toLowerCase (inkOf ls)
   \<and> inkOf (splitInlineQuestionHeading ls) = inkOf ls
   \<and> inkOf (concat (map splitGluedNumberedLine ls)) = inkOf ls"
proof -
  have head: "inkOf (splitInlineQuestionHeading ls) = inkOf ls" for ls
    by (induction ls) (simp_all add: splitInlineQuestionHeading_def ink_inlineHeads)
  have num: "inkOf (concat (map splitGluedNumberedLine ls)) = inkOf ls" for ls
    by (induction ls) (simp_all add: ink_splitGlued)
  have anchor: "toLowerCase (inkOf (splitUserSpecifiesAnchor ls)) = toLowerCase (inkOf ls)" for ls
    by (induction ls) (simp_all add: splitUserSpecifiesAnchor_def ink_expandAnchor)
  show ?thesis
    by (simp add: ungluedApprovalLines_def head num anchor)
qed

text \<open>Examples: headings and choices that a redraw has glued to one line.\<close>

lemma unglue_example:
  "ungluedApprovalLines [js ''Pick one?1. Red 2. Blue N.Userspecifies Q2 Size? 1.[S] small 2.[L] large'']
   = [js ''Pick one?'', js ''1. Red'', js ''2. Blue'', js ''N. User specifies'', js ''Q2 Size?'',
      js ''1.[S] small'', js ''2.[L] large'']"
  by code_simp

text \<open>
  The word boundary after the anchor makes the Japanese form unreachable at the end of a line:
  the last character of the word is not a word character and neither is the end.
\<close>

lemma japanese_anchor_missed:
  "splitUserSpecifiesAnchor [js ''2. Blue N. '' @ jpOther] = [js ''2. Blue N. '' @ jpOther]
   \<and> splitUserSpecifiesAnchor [js ''2. Blue N. User specifies''] = [js ''2. Blue'', js ''N. User specifies'']"
  by code_simp

end
