(* ===== verification/HubBlock.thy ===== *)
theory HubBlock
  imports ApprovalUnglue
begin

text \<open>
  \<open>src/web/src/app/approval-parser.ts\<close>, the marker path: the grammar inside a
  \<open>[MANY-AI-CLI]\<close> block (\<open>parseHubBlock\<close>), the choice of the block
  (\<open>extractHubMarkerApproval\<close>) and the plain yes/no question. A mutable reference to the last
  option or section is an update of the last element of its list.
\<close>

section \<open>Results and line forms\<close>

text \<open>
  The array that \<open>parseHubBlock\<close> returns, with the properties attached to the array itself; the
  empty string where \<open>_preamble\<close> or \<open>_question\<close> is missing.
\<close>

record hubParsed =
  hpBody :: approvalBody
  hpPreamble :: jstr
  hpQuestion :: jstr
  hpFreeInput :: bool

definition blank :: rx where "blank = anyOf [32, 9]"

definition multiSelectDirectiveRe :: rx where
  "multiSelectDirectiveRe =
     seqs [RBol, lit (js ''#multi''), RWordB, many blank, RGrp 1 (many dot), REol]"

definition userSpecifiesLineRe :: rx where
  "userSpecifiesLineRe = seqs [RBol, chr 78, chr 46, many wsCh,
     RAlt (lit (js ''user specifies'')) (lit jpOther)]"

definition shortLabelRe :: rx where
  "shortLabelRe = seqs [RBol, chr 91,
     RGrp 1 (times 1 12 (RCls (CC True [CRange 93 93, CRange 91 91]))), chr 93, many wsCh,
     RGrp 2 (RSeq nonWs (many dot)), REol]"

definition splitShortLabel :: "jstr \<Rightarrow> jstr option \<times> jstr" where
  "splitShortLabel label =
     (case exec False shortLabelRe label of
        None \<Rightarrow> (None, trim label)
      | Some m \<Rightarrow> (Some (trim (grp m 1)), trim (grp m 2)))"

definition optionRe :: rx where
  "optionRe = seqs [RBol, RGrp 1 (many1 digit), chr 46, many wsCh, RGrp 2 (many1Lazy dot),
     many wsCh, REol]"

definition dotlessOptionRe :: rx where
  "dotlessOptionRe = seqs [RBol, RGrp 1 (times 1 2 digit), atLeast 2 blank,
     RGrp 2 (RSeq nonWs (manyLazy dot)), many wsCh, REol]"

definition headingRe :: rx where
  "headingRe = seqs [RBol,
     RAlt (seqs [anyOf [81, 65329], many blank, RGrp 1 (many1 digit), many blank,
                 opt (anyOf [46, 58, 65306]), many blank, RGrp 2 (RSeq nonWs (manyLazy dot))])
          (seqs [RGrp 3 (many1 digit), many blank, opt (anyOf [46, 58, 65306]), many1 blank,
                 RGrp 4 (many1Lazy dot)]),
     many wsCh, REol]"

definition matchOption :: "jstr \<Rightarrow> rmatch option" where
  "matchOption line =
     (case exec False optionRe line of
        Some m \<Rightarrow> Some m | None \<Rightarrow> exec False dotlessOptionRe line)"

definition startsQuestion :: "jstr \<Rightarrow> bool" where
  "startsQuestion line \<longleftrightarrow> test False optionRe line \<or> test False dotlessOptionRe line
     \<or> test True headingRe line \<or> test True multiSelectDirectiveRe line
     \<or> hasYesNoApprovalMarker line"

text \<open>The lines before the first question, and the index where the questions start.\<close>

fun preambleScan :: "jstr list \<Rightarrow> nat \<Rightarrow> nat \<Rightarrow> jstr list \<Rightarrow> jstr list \<times> nat" where
  "preambleScan [] i fin pre = (pre, fin)"
| "preambleScan (raw # rs) i fin pre =
     (let line = trim raw in
      if line = [] then preambleScan rs (Suc i) (Suc i) pre
      else if startsQuestion line then (pre, i)
      else preambleScan rs (Suc i) (Suc i) (pre @ [line]))"

fun mapLast :: "('a \<Rightarrow> 'a) \<Rightarrow> 'a list \<Rightarrow> 'a list" where
  "mapLast f [] = []"
| "mapLast f [x] = [f x]"
| "mapLast f (x # y # ys) = x # mapLast f (y # ys)"

definition glue :: "jstr \<Rightarrow> jstr \<Rightarrow> jstr" where
  "glue a b = trim (squash_ws (a @ b))"

definition glueLabel :: "jstr \<Rightarrow> approvalOption \<Rightarrow> approvalOption" where
  "glueLabel line a = a\<lparr>oLabel := glue (oLabel a) line\<rparr>"

section \<open>Multiple selection\<close>

record multiScan =
  msMulti :: bool
  msQuestion :: jstr
  msOpts :: "approvalOption list"
  msLast :: bool

definition multiLine :: "jstr \<Rightarrow> multiScan \<Rightarrow> multiScan" where
  "multiLine raw S =
     (let line = trim raw in
      if line = [] then S
      else
        (case exec True multiSelectDirectiveRe line of
           Some dm \<Rightarrow> S\<lparr>msMulti := True, msQuestion := trim (grp dm 1), msLast := False\<rparr>
         | None \<Rightarrow>
             (case matchOption line of
                Some om \<Rightarrow>
                  S\<lparr>msOpts := msOpts S @ [mkOption (parse_int (grp om 1)) (trim (grp om 2)) False],
                    msLast := True\<rparr>
              | None \<Rightarrow>
                  if test True userSpecifiesLineRe line then S\<lparr>msLast := False\<rparr>
                  else if msLast S then S\<lparr>msOpts := mapLast (glueLabel line) (msOpts S)\<rparr>
                  else S)))"

fun multiLines :: "jstr list \<Rightarrow> multiScan \<Rightarrow> multiScan" where
  "multiLines [] S = S"
| "multiLines (raw # rs) S = multiLines rs (multiLine raw S)"

definition multiInit :: multiScan where
  "multiInit = \<lparr>msMulti = False, msQuestion = [], msOpts = [], msLast = False\<rparr>"

section \<open>Sections and loose options\<close>

text \<open>
  \<open>cur\<close> is the last element of \<open>hsSections\<close>, when there is one; \<open>lastOpt\<close> is then the last option
  of that section, and the last loose option otherwise.
\<close>

record hubScan =
  hsSections :: "approvalSection list"
  hsLoose :: "approvalOption list"
  hsLast :: bool
  hsFree :: bool
  hsQuestion :: "jstr list"

definition hubInit :: hubScan where
  "hubInit = \<lparr>hsSections = [], hsLoose = [], hsLast = False, hsFree = False, hsQuestion = []\<rparr>"

definition onOptions :: "(approvalOption list \<Rightarrow> approvalOption list) \<Rightarrow> approvalSection \<Rightarrow> approvalSection" where
  "onOptions f s = s\<lparr>sOptions := f (sOptions s)\<rparr>"

definition hubOption :: "rmatch \<Rightarrow> approvalOption" where
  "hubOption om =
     (let (sl, lab) = splitShortLabel (trim (grp om 2)) in
      (mkOption (parse_int (grp om 1)) lab False)
        \<lparr>oShort := (case sl of None \<Rightarrow> None | Some t \<Rightarrow> if t = [] then None else Some t)\<rparr>)"

definition addOption :: "approvalOption \<Rightarrow> hubScan \<Rightarrow> hubScan" where
  "addOption a S =
     (if hsSections S \<noteq> []
      then S\<lparr>hsSections := mapLast (onOptions (\<lambda>os. os @ [a])) (hsSections S), hsLast := True\<rparr>
      else S\<lparr>hsLoose := hsLoose S @ [a], hsLast := True\<rparr>)"

definition headingSection :: "rmatch \<Rightarrow> approvalSection" where
  "headingSection hm =
     \<lparr>sNum = parse_int (case m_group hm 1 of Some t \<Rightarrow> t | None \<Rightarrow> grp hm 3),
      sTitle = trim (case m_group hm 2 of Some t \<Rightarrow> t | None \<Rightarrow> grp hm 4),
      sOptions = [], sFreeInput = False, sBlockSig = None\<rparr>"

definition continueLine :: "jstr \<Rightarrow> hubScan \<Rightarrow> hubScan" where
  "continueLine line S =
     (if hsLast S then
        (if hsSections S \<noteq> []
         then S\<lparr>hsSections := mapLast (onOptions (mapLast (glueLabel line))) (hsSections S)\<rparr>
         else S\<lparr>hsLoose := mapLast (glueLabel line) (hsLoose S)\<rparr>)
      else if hsSections S \<noteq> []
        then S\<lparr>hsSections := mapLast (\<lambda>s. s\<lparr>sTitle := glue (sTitle s) line\<rparr>) (hsSections S)\<rparr>
      else S\<lparr>hsQuestion := hsQuestion S @ [line]\<rparr>)"

definition freeLine :: "hubScan \<Rightarrow> hubScan" where
  "freeLine S =
     (if hsSections S \<noteq> []
      then S\<lparr>hsSections := mapLast (\<lambda>s. s\<lparr>sFreeInput := True\<rparr>) (hsSections S), hsLast := False\<rparr>
      else S\<lparr>hsFree := True, hsLast := False\<rparr>)"

definition hubLine :: "jstr \<Rightarrow> hubScan \<Rightarrow> hubScan" where
  "hubLine raw S =
     (let line = trim raw in
      if line = [] then S
      else
        (case matchOption line of
           Some om \<Rightarrow> addOption (hubOption om) S
         | None \<Rightarrow>
             (case exec True headingRe line of
                Some hm \<Rightarrow> S\<lparr>hsSections := hsSections S @ [headingSection hm], hsLast := False\<rparr>
              | None \<Rightarrow>
                  if test True userSpecifiesLineRe line then freeLine S
                  else continueLine line S)))"

fun hubLines :: "jstr list \<Rightarrow> hubScan \<Rightarrow> hubScan" where
  "hubLines [] S = S"
| "hubLines (raw # rs) S = hubLines rs (hubLine raw S)"

definition hubResult :: "jstr \<Rightarrow> hubScan \<Rightarrow> hubParsed option" where
  "hubResult preamble S =
     (let filled = filter (\<lambda>s. sOptions s \<noteq> []) (hsSections S);
          ret = (\<lambda>b q f. Some \<lparr>hpBody = b, hpPreamble = preamble, hpQuestion = q, hpFreeInput = f\<rparr>)
      in if 2 \<le> length filled then ret (Batch filled) [] False
         else if length filled = 1 then ret (Single (sOptions (hd filled))) [] False
         else if hsLoose S \<noteq> [] then
           ret (Single (hsLoose S)) (trim (squash_ws (join [32] (hsQuestion S)))) (hsFree S)
         else None)"

definition parseHubBlock :: "jstr list \<Rightarrow> hubParsed option" where
  "parseHubBlock rawLines =
     (let lns = ungluedApprovalLines rawLines;
          (pre, fin) = preambleScan lns 0 0 [];
          preamble = trim (join [10] pre);
          text = join [10] (if pre \<noteq> [] then drop fin lns else lns)
      in if hasYesNoApprovalMarker text then
           (if isPlaceholderYesNoQuestion text then None
            else Some \<lparr>hpBody = Single (yesNoApprovalOptions (yesNoCtxFromText text)),
                       hpPreamble = preamble, hpQuestion = yesNoQuestionText text,
                       hpFreeInput = False\<rparr>)
         else
           (let M = multiLines lns multiInit in
            if msMulti M \<and> msOpts M \<noteq> [] then
              Some \<lparr>hpBody = Single (map (\<lambda>a. a\<lparr>oMulti := True, oQuestion := Some (msQuestion M)\<rparr>)
                      (msOpts M)),
                    hpPreamble = preamble, hpQuestion = [], hpFreeInput = False\<rparr>
            else hubResult preamble (hubLines lns hubInit)))"

section \<open>The block\<close>

definition setSig :: "jstr \<Rightarrow> approvalBody \<Rightarrow> approvalBody" where
  "setSig sig b =
     (case b of
        Single os \<Rightarrow> Single (map (\<lambda>a. a\<lparr>oBlockSig := Some sig\<rparr>) os)
      | Batch ss \<Rightarrow> Batch (map (\<lambda>s. s\<lparr>sBlockSig := Some sig\<rparr>) ss))"

definition withBlockSig :: "hubParsed option \<Rightarrow> jstr list \<Rightarrow> hubParsed option" where
  "withBlockSig parsed inner =
     map_option (\<lambda>p. p\<lparr>hpBody := setSig (approvalCtxHash (join [10] inner)) (hpBody p)\<rparr>) parsed"

definition blockRe :: rx where
  "blockRe = seqs [lit hubOpenTag, RGrp 1 (manyLazy anyChar), lit hubCloseTag]"

definition trimmedLines :: "jstr list \<Rightarrow> jstr list" where
  "trimmedLines ls = filter (\<lambda>l. l \<noteq> []) (map trim ls)"

text \<open>
  The fallback: the lines from the last to the first, with the position of the closing marker
  once it is seen. \<open>FbLine l\<close> is the early return on a line with both markers.
\<close>

datatype fallback = FbNone | FbLine jstr | FbRange nat nat

fun fallbackScan :: "(nat \<times> jstr) list \<Rightarrow> nat option \<Rightarrow> fallback" where
  "fallbackScan [] closeIdx = FbNone"
| "fallbackScan ((i, line) # ls) closeIdx =
     (let hasOpen = test False (lit hubOpenTag) line; hasClose = test False (lit hubCloseTag) line in
      if hasOpen \<and> hasClose then FbLine line
      else if hasClose \<and> closeIdx = None then fallbackScan ls (Some i)
      else (case closeIdx of
              Some c \<Rightarrow> if hasOpen then FbRange i c else fallbackScan ls closeIdx
            | None \<Rightarrow> fallbackScan ls closeIdx))"

definition stripToOpenRe :: rx where
  "stripToOpenRe = seqs [RBol, manyLazy anyChar, lit hubOpenTag]"

definition stripFromCloseRe :: rx where
  "stripFromCloseRe = seqs [lit hubCloseTag, many anyChar, REol]"

definition extractHubMarkerApproval :: "jstr list \<Rightarrow> hubParsed option" where
  "extractHubMarkerApproval source =
     (case rev (exec_all False blockRe (join [10] source)) of
        m # _ \<Rightarrow>
          (let inner = trimmedLines (split_on 10 (grp m 1))
           in withBlockSig (parseHubBlock inner) inner)
      | [] \<Rightarrow>
          (case fallbackScan (rev (enumerate 0 source)) None of
             FbLine line \<Rightarrow>
               (let inner = trim (replace_first False stripFromCloseRe (\<lambda>_. [])
                              (replace_first False stripToOpenRe (\<lambda>_. []) line))
                in withBlockSig (parseHubBlock [inner]) [inner])
           | FbRange a c \<Rightarrow>
               (let inner = trimmedLines (drop (Suc a) (take c source))
                in withBlockSig (parseHubBlock inner) inner)
           | FbNone \<Rightarrow> None))"

section \<open>Plain yes/no questions\<close>

text \<open>The options and the question text attached to them (empty when there is none).\<close>

definition yesNoResult :: "jstr \<Rightarrow> approvalOption list \<times> jstr" where
  "yesNoResult t = (yesNoApprovalOptions (yesNoCtxFromText t), yesNoQuestionText t)"

fun yesNoLine :: "jstr list \<Rightarrow> (approvalOption list \<times> jstr) option" where
  "yesNoLine [] = None"
| "yesNoLine (raw # ls) =
     (let line = trim raw in
      if line = [] then yesNoLine ls
      else if test False hubTagRe line then yesNoLine ls
      else if looksLikeYesNoQuestion line then Some (yesNoResult line)
      else yesNoLine ls)"

definition extractPlainYesNoApproval ::
  "jstr list \<Rightarrow> (approvalOption list \<times> jstr) option" where
  "extractPlainYesNoApproval source =
     (let recent = drop (length source - 20) source;
          recentText = join [10] (trimmedLines recent)
      in case yesNoLine (rev recent) of
           Some r \<Rightarrow> Some r
         | None \<Rightarrow>
             if \<not> test False hubTagRe recentText \<and> looksLikeYesNoQuestion recentText
             then Some (yesNoResult recentText) else None)"


section \<open>Well-formed results\<close>

definition plainOption :: "approvalOption \<Rightarrow> bool" where
  "plainOption a \<longleftrightarrow> \<not> oCurrent a \<and> \<not> oMulti a \<and> oQuestion a = None \<and> oSendText a = None"

lemma set_mapLast: "x \<in> set (mapLast f xs) \<Longrightarrow> x \<in> set xs \<or> (\<exists>y \<in> set xs. x = f y)"
  by (induction f xs rule: mapLast.induct) auto

lemma mapLast_all: "\<forall>x \<in> set xs. P x \<Longrightarrow> (\<And>x. P x \<Longrightarrow> P (f x)) \<Longrightarrow> \<forall>x \<in> set (mapLast f xs). P x"
  using set_mapLast by metis

lemma plainOption_mk [simp]: "plainOption (mkOption n l False)"
  by (simp add: plainOption_def mkOption_def)

lemma plainOption_upd [simp]:
  "plainOption (a\<lparr>oLabel := l\<rparr>) = plainOption a" "plainOption (a\<lparr>oShort := t\<rparr>) = plainOption a"
  "plainOption (a\<lparr>oBlockSig := g\<rparr>) = plainOption a"
  by (simp_all add: plainOption_def)

lemma plainOption_hub [simp]: "plainOption (hubOption om)"
  by (simp add: hubOption_def split: prod.splits)

lemma plainOption_glue: "plainOption a \<Longrightarrow> plainOption (glueLabel line a)"
  by (simp add: glueLabel_def)

definition plainSection :: "approvalSection \<Rightarrow> bool" where
  "plainSection s \<longleftrightarrow> (\<forall>a \<in> set (sOptions s). plainOption a)"

lemma plainSection_simps [simp]:
  "plainSection (headingSection hm)"
  "plainSection (s\<lparr>sTitle := t\<rparr>) = plainSection s"
  "plainSection (s\<lparr>sFreeInput := b\<rparr>) = plainSection s"
  "plainSection (onOptions f s) = (\<forall>a \<in> set (f (sOptions s)). plainOption a)"
  by (simp_all add: plainSection_def headingSection_def onOptions_def)

definition hubScanOk :: "hubScan \<Rightarrow> bool" where
  "hubScanOk S \<longleftrightarrow> (\<forall>s \<in> set (hsSections S). plainSection s) \<and> (\<forall>a \<in> set (hsLoose S). plainOption a)"

lemma hubScanOk_simps [simp]:
  "hubScanOk (S\<lparr>hsLast := b\<rparr>) = hubScanOk S"
  "hubScanOk (S\<lparr>hsFree := b\<rparr>) = hubScanOk S"
  "hubScanOk (S\<lparr>hsQuestion := q\<rparr>) = hubScanOk S"
  by (simp_all add: hubScanOk_def)

lemma hubScanOk_sections:
  assumes "hubScanOk S" "\<And>s. plainSection s \<Longrightarrow> plainSection (f s)"
  shows "hubScanOk (S\<lparr>hsSections := mapLast f (hsSections S)\<rparr>)"
  using assms mapLast_all [of "hsSections S" plainSection f] by (simp add: hubScanOk_def)

lemma hubScanOk_loose:
  assumes "hubScanOk S" "\<And>a. plainOption a \<Longrightarrow> plainOption (f a)"
  shows "hubScanOk (S\<lparr>hsLoose := mapLast f (hsLoose S)\<rparr>)"
  using assms mapLast_all [of "hsLoose S" plainOption f] by (simp add: hubScanOk_def)

lemma addOption_ok:
  assumes "hubScanOk S" "plainOption a"
  shows "hubScanOk (addOption a S)"
proof (cases "hsSections S = []")
  case True
  with assms show ?thesis by (simp add: addOption_def hubScanOk_def)
next
  case False
  have "hubScanOk (S\<lparr>hsSections := mapLast (onOptions (\<lambda>os. os @ [a])) (hsSections S)\<rparr>)"
    by (rule hubScanOk_sections [OF assms(1)])
       (use assms(2) in \<open>auto simp: plainSection_def onOptions_def\<close>)
  with False hubScanOk_simps(1) show ?thesis by (simp add: addOption_def)
qed

lemma continueLine_ok: "hubScanOk S \<Longrightarrow> hubScanOk (continueLine line S)"
proof -
  assume ok: "hubScanOk S"
  have "hubScanOk (S\<lparr>hsSections := mapLast (onOptions (mapLast (glueLabel line))) (hsSections S)\<rparr>)"
  proof (rule hubScanOk_sections [OF ok])
    fix s assume "plainSection s"
    then have "\<forall>a \<in> set (sOptions s). plainOption a" by (simp add: plainSection_def)
    from mapLast_all [OF this plainOption_glue] show "plainSection (onOptions (mapLast (glueLabel line)) s)"
      by simp
  qed
  moreover have "hubScanOk (S\<lparr>hsLoose := mapLast (glueLabel line) (hsLoose S)\<rparr>)"
    by (rule hubScanOk_loose [OF ok plainOption_glue])
  moreover have "hubScanOk (S\<lparr>hsSections := mapLast (\<lambda>s. s\<lparr>sTitle := glue (sTitle s) line\<rparr>) (hsSections S)\<rparr>)"
    by (rule hubScanOk_sections [OF ok]) simp
  ultimately show ?thesis using ok by (simp add: continueLine_def)
qed

lemma freeLine_ok: "hubScanOk S \<Longrightarrow> hubScanOk (freeLine S)"
proof -
  assume ok: "hubScanOk S"
  have "hubScanOk (S\<lparr>hsSections := mapLast (\<lambda>s. s\<lparr>sFreeInput := True\<rparr>) (hsSections S)\<rparr>)"
    by (rule hubScanOk_sections [OF ok]) simp
  with ok show ?thesis
    using hubScanOk_simps(1) by (simp add: freeLine_def)
qed

lemma hubLine_ok: "hubScanOk S \<Longrightarrow> hubScanOk (hubLine raw S)"
proof -
  assume ok: "hubScanOk S"
  have "hubScanOk (S\<lparr>hsSections := hsSections S @ [headingSection hm], hsLast := False\<rparr>)" for hm
    using ok by (auto simp: hubScanOk_def)
  with ok show ?thesis
    by (auto simp: hubLine_def Let_def addOption_ok continueLine_ok freeLine_ok split: option.splits)
qed

lemma hubLines_ok: "hubScanOk (hubLines ls hubInit)"
proof -
  have "hubScanOk S \<Longrightarrow> hubScanOk (hubLines ls S)" for S
    by (induction ls arbitrary: S) (auto intro: hubLine_ok)
  from this [of hubInit] show ?thesis by (simp add: hubScanOk_def hubInit_def)
qed

lemma multiLines_plain: "\<forall>a \<in> set (msOpts (multiLines ls multiInit)). plainOption a"
proof -
  have step: "\<forall>a \<in> set (msOpts S). plainOption a \<Longrightarrow> \<forall>a \<in> set (msOpts (multiLine raw S)). plainOption a"
    for raw S
    using mapLast_all [of "msOpts S" plainOption, OF _ plainOption_glue]
    by (auto simp: multiLine_def Let_def split: option.splits)
  have "\<forall>a \<in> set (msOpts S). plainOption a \<Longrightarrow> \<forall>a \<in> set (msOpts (multiLines ls S)). plainOption a" for S
  proof (induction ls arbitrary: S)
    case (Cons l ls)
    from Cons.IH [OF step [OF Cons.prems]] show ?case by simp
  qed simp
  from this [of multiInit] show ?thesis by (simp add: multiInit_def)
qed

text \<open>
  The three shapes of one question's options: yes/no, a multiple selection with its question on
  every option, and a plain list without a preselected option.
\<close>

definition goodSingle :: "approvalOption list \<Rightarrow> bool" where
  "goodSingle os \<longleftrightarrow> os \<noteq> [] \<and>
     ((map oNum os = [1, 0] \<and> map oCurrent os = [True, False] \<and> (\<forall>a \<in> set os. \<not> oMulti a))
      \<or> (\<exists>q. \<forall>a \<in> set os. oMulti a \<and> oQuestion a = Some q \<and> \<not> oCurrent a)
      \<or> (\<forall>a \<in> set os. plainOption a))"

definition goodBody :: "approvalBody \<Rightarrow> bool" where
  "goodBody b \<longleftrightarrow> (case b of
      Single os \<Rightarrow> goodSingle os
    | Batch ss \<Rightarrow> 2 \<le> length ss \<and> (\<forall>s \<in> set ss. sOptions s \<noteq> [] \<and> plainSection s))"

lemma hubResult_cases:
  assumes "hubResult pre S = Some p" "F = filter (\<lambda>s. sOptions s \<noteq> []) (hsSections S)"
  shows "2 \<le> length F \<and> hpBody p = Batch F
    \<or> length F = 1 \<and> hpBody p = Single (sOptions (hd F))
    \<or> hsLoose S \<noteq> [] \<and> hpBody p = Single (hsLoose S)"
proof -
  have eq: "hubResult pre S =
      (if 2 \<le> length F then Some \<lparr>hpBody = Batch F, hpPreamble = pre, hpQuestion = [], hpFreeInput = False\<rparr>
       else if length F = 1 then
         Some \<lparr>hpBody = Single (sOptions (hd F)), hpPreamble = pre, hpQuestion = [], hpFreeInput = False\<rparr>
       else if hsLoose S \<noteq> [] then
         Some \<lparr>hpBody = Single (hsLoose S), hpPreamble = pre,
               hpQuestion = trim (squash_ws (join [32] (hsQuestion S))), hpFreeInput = hsFree S\<rparr>
       else None)"
    unfolding hubResult_def Let_def assms(2) ..
  show ?thesis
    using assms(1) unfolding eq by (auto split: if_split_asm)
qed

lemma hubResult_good:
  assumes "hubResult pre S = Some p" "hubScanOk S"
  shows "goodBody (hpBody p)"
proof -
  obtain F where F: "F = filter (\<lambda>s. sOptions s \<noteq> []) (hsSections S)" by blast
  then have ok: "\<forall>s \<in> set F. sOptions s \<noteq> [] \<and> plainSection s"
    using assms(2) by (auto simp: hubScanOk_def)
  from hubResult_cases [OF assms(1) F] consider "2 \<le> length F" "hpBody p = Batch F"
    | "length F = 1" "hpBody p = Single (sOptions (hd F))"
    | "hsLoose S \<noteq> []" "hpBody p = Single (hsLoose S)"
    by blast
  then show ?thesis
  proof cases
    case 1
    then show ?thesis using ok by (simp add: goodBody_def)
  next
    case 2
    then have "hd F \<in> set F" by (intro hd_in_set) auto
    with ok 2(2) show ?thesis by (simp add: goodBody_def goodSingle_def plainSection_def)
  next
    case 3
    with assms(2) show ?thesis by (simp add: goodBody_def goodSingle_def hubScanOk_def)
  qed
qed

lemma parseHubBlock_good:
  assumes "parseHubBlock ls = Some p"
  shows "goodBody (hpBody p)"
proof -
  obtain pre fin where pf: "preambleScan (ungluedApprovalLines ls) 0 0 [] = (pre, fin)"
    by fastforce
  let ?M = "multiLines (ungluedApprovalLines ls) multiInit"
  have yn: "goodBody (Single (yesNoApprovalOptions c))" for c
    by (simp add: goodBody_def goodSingle_def yesNoApprovalOptions_def mkOption_def Let_def)
  have mu: "msOpts ?M \<noteq> [] \<Longrightarrow>
      goodBody (Single (map (\<lambda>a. a\<lparr>oMulti := True, oQuestion := Some q\<rparr>) (msOpts ?M)))" for q
    using multiLines_plain [of "ungluedApprovalLines ls"]
    by (auto simp: goodBody_def goodSingle_def plainOption_def)
  let ?text = "join [10] (if pre \<noteq> [] then drop fin (ungluedApprovalLines ls) else ungluedApprovalLines ls)"
  let ?pre = "trim (join [10] pre)"
  have eq: "parseHubBlock ls =
      (if hasYesNoApprovalMarker ?text then
         (if isPlaceholderYesNoQuestion ?text then None
          else Some \<lparr>hpBody = Single (yesNoApprovalOptions (yesNoCtxFromText ?text)),
                     hpPreamble = ?pre, hpQuestion = yesNoQuestionText ?text, hpFreeInput = False\<rparr>)
       else if msMulti ?M \<and> msOpts ?M \<noteq> [] then
         Some \<lparr>hpBody = Single (map (\<lambda>a. a\<lparr>oMulti := True, oQuestion := Some (msQuestion ?M)\<rparr>) (msOpts ?M)),
               hpPreamble = ?pre, hpQuestion = [], hpFreeInput = False\<rparr>
       else hubResult ?pre (hubLines (ungluedApprovalLines ls) hubInit))"
    unfolding parseHubBlock_def Let_def pf prod.case ..
  from assms [unfolded eq] consider
      "hpBody p = Single (yesNoApprovalOptions (yesNoCtxFromText ?text))"
    | "msOpts ?M \<noteq> []"
      "hpBody p = Single (map (\<lambda>a. a\<lparr>oMulti := True, oQuestion := Some (msQuestion ?M)\<rparr>) (msOpts ?M))"
    | "hubResult ?pre (hubLines (ungluedApprovalLines ls) hubInit) = Some p"
    by (metis hubParsed.select_convs(1) option.distinct(1) option.inject)
  then show ?thesis
  proof cases
    case 1
    then show ?thesis using yn by metis
  next
    case 2
    then show ?thesis using mu by metis
  next
    case 3
    then show ?thesis by (rule hubResult_good) (rule hubLines_ok)
  qed
qed

definition signedBy :: "jstr \<Rightarrow> approvalBody \<Rightarrow> bool" where
  "signedBy sig b \<longleftrightarrow> (case b of
      Single os \<Rightarrow> \<forall>a \<in> set os. oBlockSig a = Some sig
    | Batch ss \<Rightarrow> \<forall>s \<in> set ss. sBlockSig s = Some sig)"

lemma signedBy_setSig: "signedBy sig (setSig sig b)"
  by (simp add: signedBy_def setSig_def split: approvalBody.splits)

lemma goodSingle_sig: "goodSingle os \<Longrightarrow> goodSingle (map (\<lambda>a. a\<lparr>oBlockSig := g\<rparr>) os)"
  by (auto simp: goodSingle_def comp_def)

lemma goodBody_setSig: "goodBody b \<Longrightarrow> goodBody (setSig sig b)"
  by (auto simp: goodBody_def setSig_def goodSingle_sig plainSection_def split: approvalBody.splits)

lemma radix_digits_nonempty: "radix_digits b n \<noteq> []"
  by (subst radix_digits.simps) auto

lemma ctx_hash_nonempty: "approvalCtxHash s \<noteq> []"
  by (simp add: approvalCtxHash_def radix_digits_nonempty)

definition signedBody :: "approvalBody \<Rightarrow> bool" where
  "signedBody b \<longleftrightarrow> (\<exists>sig. sig \<noteq> [] \<and> signedBy sig b)"

lemma withBlockSig_good:
  assumes "withBlockSig (parseHubBlock ls) inner = Some p"
  shows "goodBody (hpBody p) \<and> signedBody (hpBody p)"
  using assms parseHubBlock_good goodBody_setSig signedBy_setSig ctx_hash_nonempty
  by (fastforce simp: withBlockSig_def signedBody_def)

lemma extractHub_good:
  assumes "extractHubMarkerApproval source = Some p"
  shows "goodBody (hpBody p) \<and> signedBody (hpBody p)"
proof (cases "rev (exec_all False blockRe (join [10] source))")
  case Nil
  with assms show ?thesis
    by (auto simp: extractHubMarkerApproval_def Let_def dest: withBlockSig_good split: fallback.splits)
next
  case (Cons m ms)
  with assms show ?thesis
    by (auto simp: extractHubMarkerApproval_def Let_def dest: withBlockSig_good)
qed

text \<open>
  C2: Whatever the text, a marker block yields null or a usable question set: at least two
  sections, each with at least one option, or one non-empty list of options that is either the
  yes/no pair (1 preselected, 0), a multiple selection whose options all carry the flag and the
  same question with none preselected, or a plain list with none preselected; and every section
  or option carries the same block signature, which is not empty.
\<close>

theorem hub_marker_well_formed:
  assumes "extractHubMarkerApproval source = Some p"
  shows "goodBody (hpBody p) \<and> (\<exists>sig. sig \<noteq> [] \<and> signedBy sig (hpBody p))"
  using extractHub_good [OF assms] by (simp add: signedBody_def)

definition hubExample :: "jstr list" where
  "hubExample = map js [''[MANY-AI-CLI]'', ''Q1 Color?'', ''1. [R] Red'', ''2. Blue'',
     ''and green'', ''N. User specifies'', ''Q2 Size?'', ''1. S'', ''[/MANY-AI-CLI]'']"

lemma hubExample_parsed: "extractHubMarkerApproval hubExample \<noteq> None
  \<and> map_option (\<lambda>p. case hpBody p of Batch ss \<Rightarrow> map (\<lambda>s. (sTitle s, map oLabel (sOptions s), sFreeInput s)) ss
       | Single os \<Rightarrow> []) (extractHubMarkerApproval hubExample)
   = Some [(js ''Color?'', [js ''Red'', js ''Blueand green''], True), (js ''Size?'', [js ''S''], False)]"
  by code_simp

theorem hub_marker_well_formed_witness:
  "\<exists>p. extractHubMarkerApproval hubExample = Some p \<and> goodBody (hpBody p)"
  using hub_marker_well_formed [of hubExample] hubExample_parsed by auto

text \<open>A block with a single heading returns neither the question nor the free-input flag.\<close>

lemma single_heading_loses_question:
  "map_option (\<lambda>p. (hpQuestion p, hpFreeInput p)) (parseHubBlock
     (map js [''Q1 Color?'', ''1. Red'', ''2. Blue'', ''N. User specifies''])) = Some ([], False)
   \<and> map_option (\<lambda>p. (hpQuestion p, hpFreeInput p)) (parseHubBlock
     (map js [''Color?'', ''1. Red'', ''2. Blue'', ''N. User specifies''])) = Some (js ''Color?'', True)"
  by code_simp

end
