(* ===== verification/HubBlockSpec.thy ===== *)
theory HubBlockSpec
  imports HubBlock
begin

text \<open>
  A reference description of how the marker path chooses its block: a plain search for the two
  tags. The global regular-expression loop of \<open>extractHubMarkerApproval\<close> is proved to compute it,
  and with it what the fallback after the loop can still find.
\<close>

section \<open>The reference scanner\<close>

fun findSub :: "'a list \<Rightarrow> 'a list \<Rightarrow> nat option" where
  "findSub p [] = (if p = [] then Some 0 else None)"
| "findSub p (x # xs) = (if starts_with p (x # xs) then Some 0 else map_option Suc (findSub p xs))"

function hubBlocks :: "jstr \<Rightarrow> jstr list" where
  "hubBlocks s =
     (case findSub hubOpenTag s of
        None \<Rightarrow> []
      | Some i \<Rightarrow>
          (let r = drop (i + length hubOpenTag) s in
           case findSub hubCloseTag r of
             None \<Rightarrow> []
           | Some j \<Rightarrow> take j r # (if s = [] then [] else hubBlocks (drop (j + length hubCloseTag) r))))"
  by pat_completeness auto
termination
  by (relation "measure length") (auto simp: hubOpenTag_def js_def)

declare hubBlocks.simps [simp del]

lemma findSub_None: "findSub p s = None \<longleftrightarrow> \<not> sublist p s"
  by (induction p s rule: findSub.induct)
     (auto simp: starts_with_iff sublist_Cons_right)

lemma findSub_drop: "findSub p s = None \<Longrightarrow> findSub p (drop k s) = None"
  unfolding findSub_None by (meson sublist_drop sublist_order.order_trans)

lemma findSub_le: "findSub p s = Some n \<Longrightarrow> n + length p \<le> length s"
proof (induction p s arbitrary: n rule: findSub.induct)
  case (2 p x xs)
  then show ?case
    by (auto simp: starts_with_iff split: if_splits dest: prefix_length_le)
qed (auto split: if_splits)

lemma findSub_starts: "findSub p s = Some n \<Longrightarrow> starts_with p (drop n s)"
  by (induction p s arbitrary: n rule: findSub.induct) (auto split: if_splits)

section \<open>The expression, computed\<close>

fun adv :: "nat \<Rightarrow> st \<Rightarrow> st" where
  "adv 0 x = x"
| "adv (Suc n) x = (case rest x of [] \<Rightarrow> x | c # r \<Rightarrow> adv n (St (pos x + 1) (Some c) r (caps x)))"

lemma adv_sel:
  "n \<le> length (rest x) \<Longrightarrow>
    pos (adv n x) = pos x + int n \<and> rest (adv n x) = drop n (rest x) \<and> caps (adv n x) = caps x"
proof (induction n arbitrary: x)
  case (Suc n)
  then obtain c r where r: "rest x = c # r" by (cases "rest x") auto
  with Suc.prems Suc.IH [of "St (pos x + 1) (Some c) r (caps x)"] show ?case by simp
qed simp

lemma run_REps: "run ic REps k = k"
  by (rule ext) simp

lemma run_seqs_Cons: "run ic (seqs (r # rs)) k x = run ic r (run ic (seqs rs) k) x"
  by (cases rs) (simp_all add: run_REps)

lemma run_lit:
  "run False (lit s) k x = (if starts_with s (rest x) then k (adv (length s) x) else None)"
proof (induction s arbitrary: x)
  case (Cons c s)
  have "run False (lit (c # s)) k x = run False (chr c) (run False (lit s) k) x"
    by (simp add: lit_def run_seqs_Cons del: seqs.simps)
  with Cons show ?case
    by (cases "rest x") (auto simp: chr_def)
qed (simp add: lit_def)

lemma loop_lazy_any:
  assumes "\<And>y. k y \<noteq> None \<longleftrightarrow> starts_with p (rest y)"
  shows "loop (length (rest x)) (run ic anyChar) False [] None k x =
    (case findSub p (rest x) of None \<Rightarrow> None | Some n \<Rightarrow> k (adv n x))"
proof (induction "rest x" arbitrary: x)
  case Nil
  then have "rest x = []" by simp
  with assms [of x] show ?case by (cases p) auto
next
  case (Cons c r)
  then have x: "rest x = c # r" by simp
  let ?y = "St (pos x + 1) (Some c) r (caps x)"
  show ?case
  proof (cases "k x")
    case (Some z)
    with assms [of x] x show ?thesis by auto
  next
    case None
    with assms [of x] x have "\<not> starts_with p (c # r)" by auto
    with None x Cons.hyps(1) [of ?y] show ?thesis
      by (auto simp: anyChar_def forget_def split: option.splits)
  qed
qed

definition blockMatch :: "st \<Rightarrow> st option" where
  "blockMatch x =
     (if starts_with hubOpenTag (rest x) then
        (let x1 = adv (length hubOpenTag) x in
         case findSub hubCloseTag (rest x1) of
           None \<Rightarrow> None
         | Some n \<Rightarrow>
             (let x2 = adv n x1 in
              Some (adv (length hubCloseTag)
                (St (pos x2) (prev x2) (rest x2) ((1, pos x1, pos x2) # caps x2)))))
      else None)"

lemma run_blockRe: "run False blockRe Some x = blockMatch x"
proof -
  let ?close = "run False (lit hubCloseTag) Some"
  let ?k = "\<lambda>x1 y. ?close (St (pos y) (prev y) (rest y) ((1, pos x1, pos y) # caps y))"
  have k: "?k x1 y \<noteq> None \<longleftrightarrow> starts_with hubCloseTag (rest y)" for x1 y
    by (simp add: run_lit)
  have inner: "run False (RGrp 1 (manyLazy anyChar)) ?close x1 =
      (case findSub hubCloseTag (rest x1) of None \<Rightarrow> None | Some n \<Rightarrow> ?k x1 (adv n x1))" for x1
  proof -
    have "run False (RGrp 1 (manyLazy anyChar)) ?close x1 =
        loop (length (rest x1)) (run False anyChar) False [] None (?k x1) x1"
      by (simp add: manyLazy_def anyChar_def forget_def)
    also have "\<dots> = (case findSub hubCloseTag (rest x1) of None \<Rightarrow> None | Some n \<Rightarrow> ?k x1 (adv n x1))"
      by (rule loop_lazy_any [OF k])
    finally show ?thesis .
  qed
  have close: "?k x1 (adv n x1) = Some (adv (length hubCloseTag)
      (St (pos (adv n x1)) (prev (adv n x1)) (rest (adv n x1)) ((1, pos x1, pos (adv n x1)) # caps (adv n x1))))"
    if n: "findSub hubCloseTag (rest x1) = Some n" for x1 n
    using findSub_starts [OF n] findSub_le [OF n] adv_sel [of n x1] by (simp add: run_lit)
  have "run False blockRe Some x = (if starts_with hubOpenTag (rest x)
      then run False (RGrp 1 (manyLazy anyChar)) ?close (adv (length hubOpenTag) x) else None)"
    by (simp add: blockRe_def run_seqs_Cons run_lit del: run.simps)
       (simp add: run_lit)
  then show ?thesis
    unfolding inner
    by (auto simp: blockMatch_def Let_def close simp del: One_nat_def split: option.splits)
qed

text \<open>The state after a match, without the code unit before it.\<close>

definition matchedAt :: "int \<Rightarrow> jstr \<Rightarrow> nat \<Rightarrow> nat \<Rightarrow> st \<Rightarrow> bool" where
  "matchedAt p r i n y \<longleftrightarrow>
     (let o' = i + length hubOpenTag in
      pos y = p + int (o' + n + length hubCloseTag) \<and>
      rest y = drop (o' + n + length hubCloseTag) r \<and>
      caps y = [(1, p + int o', p + int (o' + n))])"

lemma blockMatch_Some:
  assumes "starts_with hubOpenTag r" "findSub hubCloseTag (drop (length hubOpenTag) r) = Some n"
  shows "\<exists>y. blockMatch (St p q r []) = Some y \<and> matchedAt p r 0 n y"
proof -
  let ?o = "length hubOpenTag" and ?c = "length hubCloseTag"
  let ?x = "St p q r []"
  have "?o \<le> length r" using assms(1) prefix_length_le by (auto simp: starts_with_iff)
  then have x1: "pos (adv ?o ?x) = p + int ?o" "rest (adv ?o ?x) = drop ?o r" "caps (adv ?o ?x) = []"
    using adv_sel [of ?o ?x] by auto
  have n: "n + ?c \<le> length (drop ?o r)" using findSub_le [OF assms(2)] .
  let ?x2 = "adv n (adv ?o ?x)"
  have x2: "pos ?x2 = p + int ?o + int n" "rest ?x2 = drop (n + ?o) r" "caps ?x2 = []"
    using adv_sel [of n "adv ?o ?x"] n x1 by auto
  let ?x3 = "St (pos ?x2) (prev ?x2) (rest ?x2) ((1, p + int ?o, pos ?x2) # caps ?x2)"
  have x3: "pos (adv ?c ?x3) = p + int ?o + int n + int ?c"
    "rest (adv ?c ?x3) = drop (?o + n + ?c) r" "caps (adv ?c ?x3) = [(1, p + int ?o, p + int ?o + int n)]"
    using adv_sel [of ?c ?x3] n x2 by (auto simp: add.commute add.left_commute)
  have "blockMatch ?x = Some (adv ?c ?x3)"
    using assms x1 by (simp add: blockMatch_def Let_def)
  then show ?thesis
    using x3 by (simp add: matchedAt_def Let_def add.assoc)
qed

lemma blockMatch_None:
  "\<not> (starts_with hubOpenTag r \<and> findSub hubCloseTag (drop (length hubOpenTag) r) \<noteq> None)
    \<Longrightarrow> blockMatch (St p q r []) = None"
proof -
  assume a: "\<not> (starts_with hubOpenTag r \<and> findSub hubCloseTag (drop (length hubOpenTag) r) \<noteq> None)"
  show ?thesis
  proof (cases "starts_with hubOpenTag r")
    case True
    then have "length hubOpenTag \<le> length r" using prefix_length_le by (auto simp: starts_with_iff)
    with True a adv_sel [of "length hubOpenTag" "St p q r []"] show ?thesis
      by (simp add: blockMatch_def Let_def)
  qed (simp add: blockMatch_def)
qed

lemma seek_blockRe:
  "(case findSub hubOpenTag r of
      None \<Rightarrow> seek False blockRe p q r = None
    | Some i \<Rightarrow>
        (case findSub hubCloseTag (drop (i + length hubOpenTag) r) of
           None \<Rightarrow> seek False blockRe p q r = None
         | Some n \<Rightarrow> \<exists>y. seek False blockRe p q r = Some (p + int i, y) \<and> matchedAt p r i n y))"
proof (induction r arbitrary: p q)
  case Nil
  have "\<not> starts_with hubOpenTag []" by (simp add: hubOpenTag_def js_def)
  with blockMatch_None [of "[]"] show ?case
    by (simp add: run_blockRe hubOpenTag_def js_def)
next
  case (Cons c r)
  let ?o = "length hubOpenTag"
  show ?case
  proof (cases "starts_with hubOpenTag (c # r)")
    case True
    then have f: "findSub hubOpenTag (c # r) = Some 0" by simp
    show ?thesis
    proof (cases "findSub hubCloseTag (drop ?o (c # r))")
      case (Some n)
      from blockMatch_Some [OF True Some, of p q] show ?thesis
        using f Some by (auto simp: run_blockRe)
    next
      case None
      have later: "findSub hubCloseTag (drop (i + ?o) r) = None" for i
      proof -
        have "drop (i + ?o) r = drop (Suc i) (drop ?o (c # r))" by (simp add: add.commute)
        with findSub_drop [OF None] show ?thesis by metis
      qed
      have "run False blockRe Some (St p q (c # r) []) = None"
        using blockMatch_None [of "c # r" p q] None by (simp add: run_blockRe)
      moreover have "seek False blockRe (p + 1) (Some c) r = None"
        using Cons.IH [of "p + 1" "Some c"] later by (auto split: option.splits)
      ultimately show ?thesis using f None by simp
    qed
  next
    case False
    then have "run False blockRe Some (St p q (c # r) []) = None"
      using blockMatch_None [of "c # r" p q] by (simp add: run_blockRe)
    then have "seek False blockRe p q (c # r) = seek False blockRe (p + 1) (Some c) r" by simp
    moreover have "matchedAt (p + 1) r i n y = matchedAt p (c # r) (Suc i) n y" for i n y
      by (simp add: matchedAt_def Let_def algebra_simps)
    ultimately show ?thesis
      using False Cons.IH [of "p + 1" "Some c"]
      by (auto split: option.splits simp: algebra_simps)
  qed
qed


section \<open>Refinement\<close>

lemma st_of_pos: "st_of s x \<Longrightarrow> rest x = drop (nat (pos x)) s \<and> 0 \<le> pos x \<and> nat (pos x) \<le> length s"
  by (auto simp: st_of_def)

lemma matched_group:
  assumes "st_of s x" "matchedAt (pos x) (rest x) i n y"
  shows "grp (RM a b (caps y) s) 1 = take n (drop (i + length hubOpenTag) (rest x))"
proof -
  obtain u where u: "s = u @ rest x" "pos x = int (length u)"
    using assms(1) by (auto simp: st_of_def)
  then have "nat (pos x + int (i + length hubOpenTag)) = length u + (i + length hubOpenTag)"
    by simp
  then have "drop (nat (pos x + int (i + length hubOpenTag))) s = drop (i + length hubOpenTag) (rest x)"
    using u(1) by simp
  then show ?thesis
    using assms(2) by (simp add: matchedAt_def Let_def grp_def m_group_def substring_def)
qed

lemma find_all_blockRe:
  "st_of s x \<Longrightarrow> map (\<lambda>(i, y). grp (RM i (pos y) (caps y) s) 1) (find_all False blockRe x) = hubBlocks (rest x)"
proof (induction "length (rest x)" arbitrary: x rule: less_induct)
  case less
  let ?r = "rest x" and ?o = "length hubOpenTag" and ?c = "length hubCloseTag"
  have fa: "find_at False blockRe x = seek False blockRe (pos x) (prev x) ?r"
    by (simp add: find_at_def)
  note sk = seek_blockRe [where r = ?r and p = "pos x" and q = "prev x"]
  show ?case
  proof (cases "findSub hubOpenTag ?r")
    case None
    with sk show ?thesis by (simp add: find_all.simps fa hubBlocks.simps)
  next
    case (Some i)
    show ?thesis
    proof (cases "findSub hubCloseTag (drop (i + ?o) ?r)")
      case None
      with Some sk show ?thesis by (simp add: find_all.simps fa hubBlocks.simps Let_def)
    next
      case n: (Some n)
      from sk Some n obtain y where y: "find_at False blockRe x = Some (pos x + int i, y)"
          "matchedAt (pos x) ?r i n y"
        by (auto simp: fa)
      have pos: "pos y \<noteq> pos x + int i" and rest: "rest y = drop (i + ?o + n + ?c) ?r"
        using y(2) by (auto simp: matchedAt_def Let_def hubOpenTag_def js_def)
      have ne: "?r \<noteq> []"
        using findSub_le [OF Some] by (auto simp: hubOpenTag_def js_def)
      have "length (rest y) < length ?r" by (rule find_at_progress [OF y(1) pos])
      moreover have "st_of s y"
        by (rule along_substring(1) [OF less.prems find_at_bounds(3) [OF y(1)]])
      ultimately have IH: "map (\<lambda>(i, y). grp (RM i (pos y) (caps y) s) 1) (find_all False blockRe y)
          = hubBlocks (drop (n + ?c) (drop (i + ?o) ?r))"
        using less.hyps [of y] rest by (simp add: add.commute add.left_commute)
      have "find_all False blockRe x = (pos x + int i, y) # find_all False blockRe y"
        by (subst find_all.simps) (simp add: y(1) pos)
      with IH show ?thesis
        by (subst hubBlocks.simps)
           (simp add: Some n Let_def ne matched_group [OF less.prems y(2), simplified])
    qed
  qed
qed

lemma exec_all_blockRe: "map (\<lambda>m. grp m 1) (exec_all False blockRe s) = hubBlocks s"
  using find_all_blockRe [OF st_of_start [of s]]
  by (simp add: exec_all_def comp_def case_prod_unfold start_def)

text \<open>
  C5: The global loop over \<open>/\[MANY-AI-CLI\]([\s\S]*?)\[\/MANY-AI-CLI\]/g\<close> is the plain scanner:
  from the left, the text between an opening tag and the next closing tag, then again after it;
  so the block that \<open>extractHubMarkerApproval\<close> parses is the last one the scanner yields.
\<close>

theorem hub_block_loop_refines_scanner:
  "map (\<lambda>m. grp m 1) (exec_all False blockRe s) = hubBlocks s
   \<and> extractHubMarkerApproval ls =
       (if hubBlocks (join [10] ls) \<noteq> []
        then (let inner = trimmedLines (split_on 10 (last (hubBlocks (join [10] ls))))
              in withBlockSig (parseHubBlock inner) inner)
        else (case fallbackScan (rev (enumerate 0 ls)) None of
             FbLine line \<Rightarrow>
               (let inner = trim (replace_first False stripFromCloseRe (\<lambda>_. [])
                              (replace_first False stripToOpenRe (\<lambda>_. []) line))
                in withBlockSig (parseHubBlock [inner]) [inner])
           | FbRange a c \<Rightarrow>
               (let inner = trimmedLines (drop (Suc a) (take c ls))
                in withBlockSig (parseHubBlock inner) inner)
           | FbNone \<Rightarrow> None))"
proof -
  let ?t = "join [10] ls"
  show ?thesis
  proof (cases "rev (exec_all False blockRe ?t)")
    case Nil
    then have "hubBlocks ?t = []" using exec_all_blockRe [of ?t] by simp
    with Nil exec_all_blockRe [of s] show ?thesis by (simp add: extractHubMarkerApproval_def)
  next
    case (Cons m ms)
    then have "exec_all False blockRe ?t = rev ms @ [m]" by (metis rev_rev_ident rev.simps(2))
    with exec_all_blockRe [of ?t] have "hubBlocks ?t = map (\<lambda>m. grp m 1) (rev ms) @ [grp m 1]" by simp
    with Cons exec_all_blockRe [of s] show ?thesis by (simp add: extractHubMarkerApproval_def)
  qed
qed

section \<open>What the fallback can find\<close>

text \<open>A text has a block exactly when an opening tag is followed by a closing tag.\<close>

lemma findSub_Some_split: "findSub p s = Some n \<Longrightarrow> s = take n s @ p @ drop (n + length p) s"
proof -
  assume f: "findSub p s = Some n"
  obtain w where "drop n s = p @ w"
    using findSub_starts [OF f] by (auto simp: starts_with_iff prefix_def)
  then show ?thesis
    by (metis append_eq_conv_conj append_take_drop_id drop_drop add.commute)
qed

lemma findSub_least: "s = u @ p @ w \<Longrightarrow> \<exists>n \<le> length u. findSub p s = Some n"
proof (induction u arbitrary: s)
  case Nil
  then have "starts_with p s" by (simp add: starts_with_iff)
  then show ?case by (cases s; cases p) auto
next
  case (Cons c u)
  from Cons.IH [of "u @ p @ w"] obtain n where "n \<le> length u" "findSub p (u @ p @ w) = Some n" by blast
  with Cons.prems show ?case
    by (cases "starts_with p s") (auto intro: exI [of _ 0] exI [of _ "Suc n"])
qed

lemma hubBlocks_ex: "s = u @ hubOpenTag @ v @ hubCloseTag @ w \<Longrightarrow> hubBlocks s \<noteq> []"
proof -
  assume s: "s = u @ hubOpenTag @ v @ hubCloseTag @ w"
  then obtain n where n: "n \<le> length u" "findSub hubOpenTag s = Some n"
    using findSub_least by blast
  have "drop (n + length hubOpenTag) s = drop (n + length hubOpenTag) (u @ hubOpenTag) @ v @ hubCloseTag @ w"
    using s n(1) by simp
  then obtain j where "findSub hubCloseTag (drop (n + length hubOpenTag) s) = Some j"
    using findSub_least [of _ "drop (n + length hubOpenTag) (u @ hubOpenTag) @ v" hubCloseTag w]
    by fastforce
  with n show ?thesis by (subst hubBlocks.simps) (simp add: Let_def)
qed

lemma test_tag: "test False (lit p) s \<longleftrightarrow> sublist p s"
proof -
  have "lit_match False = (=)"
    by (intro ext) (auto simp: lit_match_exact)
  then have "list_all2 (lit_match False) p v \<longleftrightarrow> v = p" for v
    by (simp add: list.rel_eq eq_commute [of v])
  then show ?thesis by (auto simp: test_lit)
qed

text \<open>The lines as the loop sees them: indices below \<open>n\<close>, from the last to the first.\<close>

lemma fallback_range:
  "fallbackScan (rev (enumerate 0 ls)) c = FbRange a b \<Longrightarrow>
     a < length ls \<and> sublist hubOpenTag (ls ! a) \<and>
     (c = Some b \<or> (c = None \<and> a < b \<and> b < length ls \<and> sublist hubCloseTag (ls ! b)))"
proof (induction ls arbitrary: c rule: rev_induct)
  case (snoc l ls)
  have e: "rev (enumerate 0 (ls @ [l])) = (length ls, l) # rev (enumerate 0 ls)"
    by (simp add: enumerate_append_eq)
  let ?o = "sublist hubOpenTag l" and ?c = "sublist hubCloseTag l"
  have keep: "a < length (ls @ [l]) \<and> sublist hubOpenTag ((ls @ [l]) ! a) \<and>
      (c' = Some b \<or> (c' = None \<and> a < b \<and> b < length (ls @ [l]) \<and> sublist hubCloseTag ((ls @ [l]) ! b)))"
    if "fallbackScan (rev (enumerate 0 ls)) c' = FbRange a b" for c'
    using snoc.IH [OF that] by (auto simp: nth_append)
  from snoc.prems show ?case
    unfolding e fallbackScan.simps Let_def test_tag
    using keep [of c] keep [of "Some (length ls)"] snoc.IH [of "Some (length ls)"]
    by (auto simp: nth_append split: if_splits option.splits)
qed simp

lemma join_at: "i < length ls \<Longrightarrow> \<exists>u v. join [10] ls = u @ ls ! i @ v"
proof (induction ls arbitrary: i)
  case (Cons w ws)
  show ?case
  proof (cases i)
    case 0
    then show ?thesis by (cases ws) (auto intro: exI [of _ "[]"])
  next
    case (Suc k)
    with Cons.prems have k: "k < length ws" "ws \<noteq> []" by auto
    from Cons.IH [OF k(1)] obtain u x where "join [10] ws = u @ ws ! k @ x" by blast
    with k Suc have "join [10] (w # ws) = (w @ [10] @ u) @ (w # ws) ! i @ x" by (simp add: join_Cons)
    then show ?thesis by blast
  qed
qed simp

lemma join_two: "i < j \<Longrightarrow> j < length ls \<Longrightarrow> \<exists>u v x. join [10] ls = u @ ls ! i @ v @ ls ! j @ x"
proof (induction ls arbitrary: i j)
  case (Cons w ws)
  from Cons.prems obtain k where k: "j = Suc k" "k < length ws" by (cases j) auto
  then have ne: "ws \<noteq> []" by auto
  show ?case
  proof (cases i)
    case 0
    from join_at [OF k(2)] obtain u x where "join [10] ws = u @ ws ! k @ x" by blast
    with 0 k ne have "join [10] (w # ws) = [] @ (w # ws) ! i @ (10 # u) @ (w # ws) ! j @ x"
      by (simp add: join_Cons)
    then show ?thesis by blast
  next
    case (Suc h)
    with Cons.IH [of h k] Cons.prems k obtain u y x
      where "join [10] ws = u @ ws ! h @ y @ ws ! k @ x" by auto
    with Suc k ne have "join [10] (w # ws) = (w @ [10] @ u) @ (w # ws) ! i @ y @ (w # ws) ! j @ x"
      by (simp add: join_Cons)
    then show ?thesis by blast
  qed
qed simp

lemma fallback_line:
  "fallbackScan ps c = FbLine line \<Longrightarrow> line \<in> set (map snd ps) \<and> sublist hubOpenTag line \<and> sublist hubCloseTag line"
  by (induction ps c rule: fallbackScan.induct)
     (auto simp: Let_def test_tag split: if_splits option.splits)

text \<open>
  The second half of the fallback, the search for an opening line above a closing line, is
  never reached with a result: whenever it would find such a pair the first search has already
  found a block; so without a complete block only a single line holding both tags, the closing
  one first, still produces options.
\<close>

theorem hub_fallback_range_unreachable:
  assumes "hubBlocks (join [10] ls) = []" "extractHubMarkerApproval ls \<noteq> None"
  shows "\<exists>line \<in> set ls. fallbackScan (rev (enumerate 0 ls)) None = FbLine line
    \<and> sublist hubOpenTag line \<and> sublist hubCloseTag line
    \<and> (\<forall>u v w. line \<noteq> u @ hubOpenTag @ v @ hubCloseTag @ w)"
proof (cases "fallbackScan (rev (enumerate 0 ls)) None")
  have loop_Nil: "exec_all False blockRe (join [10] ls) = []"
    using exec_all_blockRe [of "join [10] ls"] assms(1) by simp
  case FbNone
  with assms loop_Nil show ?thesis by (simp add: extractHubMarkerApproval_def)
next
  case (FbLine line)
  have line: "line \<in> set ls \<and> sublist hubOpenTag line \<and> sublist hubCloseTag line"
    using fallback_line [OF FbLine] by (auto simp: in_set_enumerate_eq)
  then obtain i where i: "i < length ls" "ls ! i = line" by (metis in_set_conv_nth)
  from join_at [OF i(1)] obtain u v where uv: "join [10] ls = u @ line @ v" using i(2) by blast
  have "line \<noteq> a @ hubOpenTag @ b @ hubCloseTag @ d" for a b d
    using hubBlocks_ex [of "join [10] ls" "u @ a" b "d @ v"] uv assms(1) by auto
  with line FbLine show ?thesis by blast
next
  case (FbRange a b)
  from fallback_range [OF this] have ab: "a < b" "b < length ls"
      "sublist hubOpenTag (ls ! a)" "sublist hubCloseTag (ls ! b)" by auto
  from join_two [OF ab(1,2)] obtain u v x where "join [10] ls = u @ ls ! a @ v @ ls ! b @ x" by blast
  moreover from ab(3,4) obtain a1 a2 b1 b2 where
    "ls ! a = a1 @ hubOpenTag @ a2" "ls ! b = b1 @ hubCloseTag @ b2"
    by (auto simp: sublist_def)
  ultimately have "hubBlocks (join [10] ls) \<noteq> []"
    by (intro hubBlocks_ex [of _ "u @ a1" "a2 @ v @ b1" "b2 @ x"]) simp
  with assms(1) show ?thesis by blast
qed

theorem hub_fallback_range_unreachable_witness:
  "\<exists>line \<in> set [js ''[/MANY-AI-CLI] [MANY-AI-CLI]1. a''].
     sublist hubOpenTag line \<and> sublist hubCloseTag line"
proof -
  let ?ls = "[js ''[/MANY-AI-CLI] [MANY-AI-CLI]1. a'']"
  have "hubBlocks (join [10] ?ls) = []" by code_simp
  moreover have "extractHubMarkerApproval ?ls \<noteq> None" by code_simp
  ultimately show ?thesis
    using hub_fallback_range_unreachable [of ?ls] by blast
qed

end
