(* ===== verification/AppState.thy ===== *)
theory AppState
  imports ApprovalText
begin

text \<open>
  \<open>src/web/src/app/state.ts\<close>: the shared state of the web client that has operations of its own:
  the memory of answered marker questions, the order of the sessions, and the queue of sessions
  to switch to when the active one has no approval pending.
\<close>

section \<open>State\<close>

record session =
  ssId :: int
  ssPinned :: bool
  ssState :: jstr

text \<open>
  A \<open>Map\<close> with insertion order is an association list with distinct keys. \<open>asSaved\<close> is what
  \<open>setUserPref\<close> was last given, \<open>asBadges\<close> the calls of \<open>updateSlotBadge\<close>, newest last. The
  switch in \<open>localStorage\<close>, the visibility of the action bar and of the settings panel, and the
  presence of the multi-pane manager are read from the environment.
\<close>

record appState =
  asSessions :: "(int \<times> session) list"
  asOrder :: "int list"
  asSaved :: "int list option"
  asAnswered :: "int \<Rightarrow> jstr list option"
  asVisible :: "int \<Rightarrow> bool"
  asQueue :: "int list"
  asActive :: "int option"
  asInProgress :: bool
  asAutoSwitch :: bool
  asBarVisible :: bool
  asPanelOpen :: bool
  asManager :: bool
  asBadges :: "(int \<times> jstr) list"

definition hasSession :: "appState \<Rightarrow> int \<Rightarrow> bool" where
  "hasSession S i \<longleftrightarrow> List.member (map fst (asSessions S)) i"

section \<open>Answered marker questions\<close>

definition ANSWERED_MARKER_SIG_LIMIT :: nat where "ANSWERED_MARKER_SIG_LIMIT = 200"

text \<open>\<open>opts[0]._blockSig\<close> of the cached options, when it is a non-empty string.\<close>

definition firstBlockSig :: "approvalBody \<Rightarrow> jstr option" where
  "firstBlockSig b =
     (let sig = (case b of
          Single (a # as) \<Rightarrow> oBlockSig a
        | Batch (s # ss) \<Rightarrow> sBlockSig s
        | _ \<Rightarrow> None)
      in if sig = Some [] then None else sig)"

text \<open>A \<open>Set\<close> keeps insertion order; the oldest entry goes first.\<close>

function trimOldest :: "jstr list \<Rightarrow> jstr list" where
  "trimOldest xs =
     (if ANSWERED_MARKER_SIG_LIMIT < length xs then trimOldest (drop 1 xs) else xs)"
  by pat_completeness auto
termination
  by (relation "measure length") (auto simp: ANSWERED_MARKER_SIG_LIMIT_def)

declare trimOldest.simps [simp del]

definition addSig :: "jstr \<Rightarrow> jstr list \<Rightarrow> jstr list" where
  "addSig sig xs = trimOldest (if List.member xs sig then xs else xs @ [sig])"

definition recordAnsweredMarkerSig :: "int \<Rightarrow> approvalBody \<Rightarrow> appState \<Rightarrow> appState" where
  "recordAnsweredMarkerSig i b S =
     (case firstBlockSig b of
        None \<Rightarrow> S
      | Some sig \<Rightarrow>
          S\<lparr>asAnswered := (asAnswered S)(i :=
              Some (addSig sig (case asAnswered S i of None \<Rightarrow> [] | Some xs \<Rightarrow> xs)))\<rparr>)"

definition isAnsweredMarkerSig :: "int \<Rightarrow> approvalBody \<Rightarrow> appState \<Rightarrow> bool" where
  "isAnsweredMarkerSig i b S =
     (case firstBlockSig b of
        None \<Rightarrow> False
      | Some sig \<Rightarrow> (case asAnswered S i of None \<Rightarrow> False | Some xs \<Rightarrow> List.member xs sig))"

section \<open>The order of the sessions\<close>

definition saveSessionOrder :: "appState \<Rightarrow> appState" where
  "saveSessionOrder S = S\<lparr>asSaved := Some (asOrder S)\<rparr>"

definition addToSessionOrder :: "int \<Rightarrow> bool \<Rightarrow> appState \<Rightarrow> appState" where
  "addToSessionOrder i forceToFront S =
     (if List.member (asOrder S) i then
        (if forceToFront then S\<lparr>asOrder := i # remove1 i (asOrder S)\<rparr> else S)
      else if forceToFront then S\<lparr>asOrder := i # asOrder S\<rparr>
      else S\<lparr>asOrder := asOrder S @ [i]\<rparr>)"

definition removeFromSessionOrder :: "int \<Rightarrow> appState \<Rightarrow> appState" where
  "removeFromSessionOrder i S =
     (if List.member (asOrder S) i
      then saveSessionOrder (S\<lparr>asOrder := remove1 i (asOrder S)\<rparr>) else S)"

fun addMissing :: "int list \<Rightarrow> session list \<Rightarrow> int list" where
  "addMissing ids [] = ids"
| "addMissing ids (s # ss) =
     addMissing (if List.member ids (ssId s) then ids else ids @ [ssId s]) ss"

definition orderSessions :: "appState \<Rightarrow> session list" where
  "orderSessions S =
     (let orderedIds = addMissing (filter (hasSession S) (asOrder S)) (map snd (asSessions S));
          ordered = concat (map (\<lambda>i. case map_of (asSessions S) i of None \<Rightarrow> [] | Some s \<Rightarrow> [s]) orderedIds)
      in filter ssPinned ordered @ filter (\<lambda>s. \<not> ssPinned s) ordered)"

definition deriveProjectKeyFromCwd :: "jstr \<Rightarrow> jstr" where
  "deriveProjectKeyFromCwd cwd =
     (case rev (filter (\<lambda>p. p \<noteq> []) (split_on 47 (map (\<lambda>c. if c = 92 then 47 else c) cwd))) of
        [] \<Rightarrow> [] | p # _ \<Rightarrow> p)"

section \<open>Automatic switching\<close>

definition isCurrentSessionHoldingApprovalFocus :: "appState \<Rightarrow> bool" where
  "isCurrentSessionHoldingApprovalFocus S =
     (case asActive S of None \<Rightarrow> False | Some a \<Rightarrow> asVisible S a)"

definition badge :: "int \<Rightarrow> jstr \<Rightarrow> appState \<Rightarrow> appState" where
  "badge i st S = (if asManager S then S\<lparr>asBadges := asBadges S @ [(i, st)]\<rparr> else S)"

definition removeApprovalAutoSwitchTarget :: "int \<Rightarrow> appState \<Rightarrow> appState" where
  "removeApprovalAutoSwitchTarget i S =
     badge i (case map_of (asSessions S) i of
                Some s \<Rightarrow> if ssState s = js ''running'' then js ''running'' else js ''standby''
              | None \<Rightarrow> js ''standby'')
       (S\<lparr>asQueue := filter (\<lambda>j. j \<noteq> i) (asQueue S)\<rparr>)"

definition stale :: "appState \<Rightarrow> int \<Rightarrow> bool" where
  "stale S n \<longleftrightarrow> \<not> hasSession S n \<or> \<not> asVisible S n \<or> asActive S = Some n"

text \<open>\<open>act\<close> is \<open>activateSession\<close>, which changes far more of the client than this state.\<close>

fun autoSwitchLoop :: "(int \<Rightarrow> appState \<Rightarrow> appState) \<Rightarrow> int list \<Rightarrow> appState \<Rightarrow> appState" where
  "autoSwitchLoop act [] S = S\<lparr>asQueue := []\<rparr>"
| "autoSwitchLoop act (n # q) S =
     (if stale S n then autoSwitchLoop act q S
      else (act n (S\<lparr>asQueue := q, asInProgress := True\<rparr>))\<lparr>asInProgress := False\<rparr>)"

definition mayAutoSwitch :: "appState \<Rightarrow> bool" where
  "mayAutoSwitch S \<longleftrightarrow> asAutoSwitch S \<and> \<not> asInProgress S \<and> asActive S \<noteq> None
     \<and> \<not> isCurrentSessionHoldingApprovalFocus S \<and> \<not> asBarVisible S \<and> \<not> asPanelOpen S"

definition maybeAutoSwitchToNextApproval :: "(int \<Rightarrow> appState \<Rightarrow> appState) \<Rightarrow> appState \<Rightarrow> appState" where
  "maybeAutoSwitchToNextApproval act S =
     (if mayAutoSwitch S then autoSwitchLoop act (asQueue S) S else S)"

definition enqueueApprovalAutoSwitch ::
  "(int \<Rightarrow> appState \<Rightarrow> appState) \<Rightarrow> int \<Rightarrow> appState \<Rightarrow> appState" where
  "enqueueApprovalAutoSwitch act i S =
     (if \<not> asAutoSwitch S then S
      else if asActive S = Some i then S
      else if \<not> hasSession S i then S
      else maybeAutoSwitchToNextApproval act (badge i (js ''waiting'')
             (if List.member (asQueue S) i then S else S\<lparr>asQueue := asQueue S @ [i]\<rparr>)))"

section \<open>An answered question stays answered\<close>

lemma trimOldest_drop: "trimOldest xs = drop (length xs - ANSWERED_MARKER_SIG_LIMIT) xs"
proof (induction xs rule: trimOldest.induct)
  case (1 xs)
  show ?case
  proof (cases "ANSWERED_MARKER_SIG_LIMIT < length xs")
    case True
    with 1 show ?thesis
      by (subst trimOldest.simps) (simp add: Suc_diff_Suc)
  next
    case False
    then show ?thesis by (subst trimOldest.simps) simp
  qed
qed

lemma addSig_distinct: "distinct xs \<Longrightarrow> distinct (addSig sig xs)"
  by (auto simp: addSig_def trimOldest_drop)

lemma addSig_bound: "length (addSig sig xs) \<le> ANSWERED_MARKER_SIG_LIMIT"
  by (simp add: addSig_def trimOldest_drop)

text \<open>\<open>newer k sig xs\<close>: the entry is there and at most \<open>k\<close> entries came after it.\<close>

definition newer :: "nat \<Rightarrow> jstr \<Rightarrow> jstr list \<Rightarrow> bool" where
  "newer k sig xs \<longleftrightarrow> (\<exists>u v. xs = u @ sig # v \<and> length v \<le> k)"

lemma newerI: "length v \<le> k \<Longrightarrow> newer k sig (u @ sig # v)"
  by (auto simp: newer_def)

lemma newer_trim: "newer k sig xs \<Longrightarrow> k < ANSWERED_MARKER_SIG_LIMIT \<Longrightarrow> newer k sig (trimOldest xs)"
proof -
  assume "newer k sig xs" "k < ANSWERED_MARKER_SIG_LIMIT"
  then obtain u v where uv: "xs = u @ sig # v" "length v \<le> k" by (auto simp: newer_def)
  then have "length xs - ANSWERED_MARKER_SIG_LIMIT \<le> length u"
    using \<open>k < _\<close> by simp
  then have "trimOldest xs = drop (length xs - ANSWERED_MARKER_SIG_LIMIT) u @ sig # v"
    by (simp add: trimOldest_drop uv(1))
  with uv(2) show ?thesis by (auto simp: newer_def)
qed

lemma newer_add:
  assumes "newer k sig xs" "Suc k < ANSWERED_MARKER_SIG_LIMIT"
  shows "newer (Suc k) sig (addSig t xs)"
proof -
  from assms(1) obtain u v where uv: "xs = u @ sig # v" "length v \<le> k" by (auto simp: newer_def)
  have "newer (Suc k) sig (if List.member xs t then xs else xs @ [t])"
  proof (cases "List.member xs t")
    case True
    then have "(if List.member xs t then xs else xs @ [t]) = u @ sig # v" using uv(1) by simp
    moreover have "length v \<le> Suc k" using uv(2) by simp
    ultimately show ?thesis unfolding newer_def by blast
  next
    case False
    have "xs @ [t] = u @ sig # (v @ [t])" using uv(1) by simp
    moreover have "length (v @ [t]) \<le> Suc k" using uv(2) by simp
    ultimately show ?thesis using False newerI by metis
  qed
  from newer_trim [OF this assms(2)] show ?thesis by (simp add: addSig_def)
qed

lemma newer_first: "\<not> List.member xs sig \<Longrightarrow> newer 0 sig (addSig sig xs)"
proof -
  assume "\<not> List.member xs sig"
  then have "newer 0 sig (if List.member xs sig then xs else xs @ [sig])"
    by (auto simp: newer_def)
  from newer_trim [OF this] show ?thesis by (simp add: addSig_def ANSWERED_MARKER_SIG_LIMIT_def)
qed

definition answeredOk :: "appState \<Rightarrow> bool" where
  "answeredOk S \<longleftrightarrow> (\<forall>i xs. asAnswered S i = Some xs \<longrightarrow> distinct xs \<and> length xs \<le> ANSWERED_MARKER_SIG_LIMIT)"

lemma record_answered_ok: "answeredOk S \<Longrightarrow> answeredOk (recordAnsweredMarkerSig i b S)"
  using addSig_distinct addSig_bound
  by (auto simp: answeredOk_def recordAnsweredMarkerSig_def split: option.splits)

text \<open>Answers given one after the other, in any session.\<close>

fun recordAll :: "(int \<times> approvalBody) list \<Rightarrow> appState \<Rightarrow> appState" where
  "recordAll [] S = S"
| "recordAll ((i, b) # rs) S = recordAll rs (recordAnsweredMarkerSig i b S)"


definition newerIn :: "nat \<Rightarrow> jstr \<Rightarrow> int \<Rightarrow> appState \<Rightarrow> bool" where
  "newerIn k sig i S \<longleftrightarrow> (\<exists>xs. asAnswered S i = Some xs \<and> newer k sig xs)"

lemma newerIn_record:
  "newerIn k sig i S \<Longrightarrow> Suc k < ANSWERED_MARKER_SIG_LIMIT
    \<Longrightarrow> newerIn (Suc k) sig i (recordAnsweredMarkerSig j b S)"
proof -
  assume a: "newerIn k sig i S" "Suc k < ANSWERED_MARKER_SIG_LIMIT"
  then obtain xs where xs: "asAnswered S i = Some xs" "newer k sig xs" by (auto simp: newerIn_def)
  have "newer (Suc k) sig xs" using xs(2) newerI [of _ "Suc k" sig] unfolding newer_def by (metis le_SucI)
  with xs newer_add [OF xs(2) a(2)] show ?thesis
    by (auto simp: newerIn_def recordAnsweredMarkerSig_def split: option.splits)
qed

lemma newerIn_all:
  "newerIn k sig i S \<Longrightarrow> k + length rs < ANSWERED_MARKER_SIG_LIMIT
    \<Longrightarrow> newerIn (k + length rs) sig i (recordAll rs S)"
proof (induction rs arbitrary: k S)
  case (Cons r rs)
  obtain j b where r: "r = (j, b)" by (cases r)
  from Cons.prems have "newerIn (Suc k) sig i (recordAnsweredMarkerSig j b S)"
    by (intro newerIn_record) auto
  from Cons.IH [OF this] Cons.prems(2) show ?case by (simp add: r)
qed simp

text \<open>
  C29: A marker question that has just been answered for the first time stays suppressed while
  fewer than 200 further answers are recorded, whatever they are and in whichever session, and
  every memory stays a set of at most 200 signatures.
\<close>

theorem answered_question_stays_answered:
  assumes "firstBlockSig b = Some sig" "\<not> isAnsweredMarkerSig i b S"
    and "length rs < ANSWERED_MARKER_SIG_LIMIT" "answeredOk S"
  shows "isAnsweredMarkerSig i b (recordAll rs (recordAnsweredMarkerSig i b S))
    \<and> answeredOk (recordAll rs (recordAnsweredMarkerSig i b S))"
proof -
  let ?S = "recordAnsweredMarkerSig i b S"
  have "newerIn 0 sig i ?S"
    using assms(1,2) newer_first [of _ sig]
    by (auto simp: newerIn_def recordAnsweredMarkerSig_def isAnsweredMarkerSig_def split: option.splits)
  from newerIn_all [OF this, of rs] assms(3)
  have "newerIn (length rs) sig i (recordAll rs ?S)" by simp
  then have "isAnsweredMarkerSig i b (recordAll rs ?S)"
    using assms(1) by (auto simp: newerIn_def newer_def isAnsweredMarkerSig_def)
  moreover have "answeredOk T \<Longrightarrow> answeredOk (recordAll rs T)" for T
    by (induction rs T rule: recordAll.induct) (auto intro: record_answered_ok)
  ultimately show ?thesis
    using record_answered_ok [OF assms(4)] by blast
qed

definition emptyApp :: appState where
  "emptyApp = \<lparr>asSessions = [], asOrder = [], asSaved = None, asAnswered = (\<lambda>_. None),
     asVisible = (\<lambda>_. False), asQueue = [], asActive = None, asInProgress = False,
     asAutoSwitch = True, asBarVisible = False, asPanelOpen = False, asManager = True, asBadges = []\<rparr>"

definition sigBody :: "jstr \<Rightarrow> approvalBody" where
  "sigBody g = Single [(mkOption 1 (js ''Yes'') False)\<lparr>oBlockSig := Some g\<rparr>]"

theorem answered_question_stays_answered_witness:
  "isAnsweredMarkerSig 1 (sigBody (js ''a''))
     (recordAll [(1, sigBody (js ''b'')), (2, sigBody (js ''c''))]
       (recordAnsweredMarkerSig 1 (sigBody (js ''a'')) emptyApp))"
  using answered_question_stays_answered [of "sigBody (js ''a'')" "js ''a''" 1 emptyApp
      "[(1, sigBody (js ''b'')), (2, sigBody (js ''c''))]"]
  by (simp add: firstBlockSig_def sigBody_def mkOption_def js_def isAnsweredMarkerSig_def emptyApp_def
      answeredOk_def ANSWERED_MARKER_SIG_LIMIT_def)

section \<open>The list of sessions\<close>

definition sessionsOk :: "appState \<Rightarrow> bool" where
  "sessionsOk S \<longleftrightarrow> distinct (map fst (asSessions S)) \<and> (\<forall>(i, s) \<in> set (asSessions S). ssId s = i)"

lemma addMissing_set: "set (addMissing ids ss) = set ids \<union> ssId ` set ss"
  by (induction ids ss rule: addMissing.induct) auto

lemma addMissing_distinct: "distinct ids \<Longrightarrow> distinct (addMissing ids ss)"
  by (induction ids ss rule: addMissing.induct) auto

lemma addMissing_prefix: "\<exists>v. addMissing ids ss = ids @ v"
proof (induction ids ss rule: addMissing.induct)
  case (2 ids s ss)
  then obtain v where "addMissing (if List.member ids (ssId s) then ids else ids @ [ssId s]) ss
      = (if List.member ids (ssId s) then ids else ids @ [ssId s]) @ v" by blast
  then show ?case by (auto split: if_splits)
qed simp

lemma lookup_ids:
  assumes "sessionsOk S" "\<forall>i \<in> set ids. hasSession S i"
  shows "map ssId (concat (map (\<lambda>i. case map_of (asSessions S) i of None \<Rightarrow> [] | Some s \<Rightarrow> [s]) ids)) = ids"
  using assms(2)
proof (induction ids)
  case (Cons i ids)
  then have "i \<in> fst ` set (asSessions S)" by (simp add: hasSession_def)
  then obtain s where s: "map_of (asSessions S) i = Some s"
    by (cases "map_of (asSessions S) i") (auto simp: map_of_eq_None_iff)
  then have "ssId s = i" using assms(1) by (auto simp: sessionsOk_def dest: map_of_SomeD)
  with s Cons show ?case by simp
qed simp

lemma lookup_set:
  assumes "sessionsOk S" "\<forall>i \<in> set ids. hasSession S i"
  shows "set (concat (map (\<lambda>i. case map_of (asSessions S) i of None \<Rightarrow> [] | Some s \<Rightarrow> [s]) ids))
    = {s \<in> snd ` set (asSessions S). ssId s \<in> set ids}"
proof (intro set_eqI iffI)
  fix s assume "s \<in> set (concat (map (\<lambda>i. case map_of (asSessions S) i of None \<Rightarrow> [] | Some s \<Rightarrow> [s]) ids))"
  then obtain i where i: "i \<in> set ids" "map_of (asSessions S) i = Some s"
    by (auto split: option.splits)
  then have "(i, s) \<in> set (asSessions S)" by (simp add: map_of_SomeD)
  with i assms(1) show "s \<in> {s \<in> snd ` set (asSessions S). ssId s \<in> set ids}"
    by (force simp: sessionsOk_def)
next
  fix s assume "s \<in> {s \<in> snd ` set (asSessions S). ssId s \<in> set ids}"
  then obtain i where i: "(i, s) \<in> set (asSessions S)" "ssId s \<in> set ids" by auto
  with assms(1) have "ssId s = i" "map_of (asSessions S) i = Some s"
    by (auto simp: sessionsOk_def)
  with i(2) show "s \<in> set (concat (map (\<lambda>i. case map_of (asSessions S) i of None \<Rightarrow> [] | Some s \<Rightarrow> [s]) ids))"
    by (auto intro!: bexI [of _ i])
qed

text \<open>
  The common ordering lists every session exactly once, whatever the saved order holds (ids of
  closed sessions, missing ids): first the pinned ones, then the others, and inside each group the
  saved order decides, with unregistered sessions last.
\<close>

theorem order_sessions_complete:
  assumes "sessionsOk S" "distinct (asOrder S)"
  shows "\<exists>all. orderSessions S = filter ssPinned all @ filter (\<lambda>s. \<not> ssPinned s) all
    \<and> distinct all \<and> set all = snd ` set (asSessions S)
    \<and> prefix (filter (hasSession S) (asOrder S)) (map ssId all)"
proof -
  let ?ids = "addMissing (filter (hasSession S) (asOrder S)) (map snd (asSessions S))"
  let ?o = "concat (map (\<lambda>i. case map_of (asSessions S) i of None \<Rightarrow> [] | Some s \<Rightarrow> [s]) ?ids)"
  have id_set: "ssId ` snd ` set (asSessions S) = fst ` set (asSessions S)"
    using assms(1) by (force simp: sessionsOk_def image_image)
  have has: "\<forall>i \<in> set ?ids. hasSession S i"
    using id_set by (auto simp: addMissing_set hasSession_def image_image)
  have ids: "map ssId ?o = ?ids" by (rule lookup_ids [OF assms(1) has])
  have "set ?o = snd ` set (asSessions S)"
  proof -
    have "ssId s \<in> set ?ids" if "s \<in> snd ` set (asSessions S)" for s
      using that by (auto simp: addMissing_set)
    then show ?thesis unfolding lookup_set [OF assms(1) has] by auto
  qed
  moreover have "distinct ?o"
  proof -
    have "distinct (map ssId ?o)" unfolding ids by (rule addMissing_distinct) (use assms(2) in simp)
    then show ?thesis by (simp add: distinct_map)
  qed
  moreover have "prefix (filter (hasSession S) (asOrder S)) (map ssId ?o)"
    unfolding ids using addMissing_prefix [of "filter (hasSession S) (asOrder S)" "map snd (asSessions S)"]
    by (auto simp: prefix_def)
  moreover have "orderSessions S = filter ssPinned ?o @ filter (\<lambda>s. \<not> ssPinned s) ?o"
    by (simp add: orderSessions_def Let_def)
  ultimately show ?thesis by blast
qed

definition twoSessions :: appState where
  "twoSessions = emptyApp\<lparr>asSessions := [(1, \<lparr>ssId = 1, ssPinned = False, ssState = []\<rparr>),
     (2, \<lparr>ssId = 2, ssPinned = True, ssState = []\<rparr>)], asOrder := [7, 1]\<rparr>"

theorem order_sessions_complete_witness:
  "(\<exists>all. orderSessions twoSessions = filter ssPinned all @ filter (\<lambda>s. \<not> ssPinned s) all
      \<and> distinct all) \<and> map ssId (orderSessions twoSessions) = [2, 1]"
proof -
  have "sessionsOk twoSessions" "distinct (asOrder twoSessions)"
    by (simp_all add: sessionsOk_def twoSessions_def emptyApp_def)
  moreover have "map ssId (orderSessions twoSessions) = [2, 1]"
    by (simp add: orderSessions_def twoSessions_def emptyApp_def hasSession_def)
  ultimately show ?thesis using order_sessions_complete [of twoSessions] by blast
qed

section \<open>Automatic switching is safe\<close>

lemma autoSwitchLoop_dropWhile:
  "autoSwitchLoop act q S = (case dropWhile (stale S) q of
     [] \<Rightarrow> S\<lparr>asQueue := []\<rparr>
   | n # r \<Rightarrow> (act n (S\<lparr>asQueue := r, asInProgress := True\<rparr>))\<lparr>asInProgress := False\<rparr>)"
  by (induction act q S rule: autoSwitchLoop.induct) auto

text \<open>
  The automatic switch never leaves a session whose approval is pending, never happens while
  another switch, the action bar or the settings panel is in the way, and otherwise goes to the
  first queued session that still exists, still waits for an approval and is not the active one;
  the queue loses exactly the entries up to that one, and the re-entrancy flag is down again.
\<close>

theorem auto_switch_safe:
  "maybeAutoSwitchToNextApproval act S =
     (if \<not> mayAutoSwitch S then S
      else (case dropWhile (stale S) (asQueue S) of
              [] \<Rightarrow> S\<lparr>asQueue := []\<rparr>
            | n # r \<Rightarrow> (act n (S\<lparr>asQueue := r, asInProgress := True\<rparr>))\<lparr>asInProgress := False\<rparr>))
   \<and> (mayAutoSwitch S \<longrightarrow> (\<forall>a. asActive S = Some a \<longrightarrow> \<not> asVisible S a))
   \<and> (\<forall>n r. dropWhile (stale S) (asQueue S) = n # r \<longrightarrow>
        hasSession S n \<and> asVisible S n \<and> asActive S \<noteq> Some n)
   \<and> maybeAutoSwitchToNextApproval act (S\<lparr>asInProgress := True\<rparr>) = S\<lparr>asInProgress := True\<rparr>"
proof (intro conjI)
  show "maybeAutoSwitchToNextApproval act S =
     (if \<not> mayAutoSwitch S then S
      else (case dropWhile (stale S) (asQueue S) of
              [] \<Rightarrow> S\<lparr>asQueue := []\<rparr>
            | n # r \<Rightarrow> (act n (S\<lparr>asQueue := r, asInProgress := True\<rparr>))\<lparr>asInProgress := False\<rparr>))"
    by (simp add: maybeAutoSwitchToNextApproval_def autoSwitchLoop_dropWhile)
  show "mayAutoSwitch S \<longrightarrow> (\<forall>a. asActive S = Some a \<longrightarrow> \<not> asVisible S a)"
    by (auto simp: mayAutoSwitch_def isCurrentSessionHoldingApprovalFocus_def)
  show "\<forall>n r. dropWhile (stale S) (asQueue S) = n # r \<longrightarrow>
        hasSession S n \<and> asVisible S n \<and> asActive S \<noteq> Some n"
  proof (intro allI impI)
    fix n r assume "dropWhile (stale S) (asQueue S) = n # r"
    then have "\<not> stale S n" by (metis hd_dropWhile list.distinct(1) list.sel(1))
    then show "hasSession S n \<and> asVisible S n \<and> asActive S \<noteq> Some n" by (simp add: stale_def)
  qed
  show "maybeAutoSwitchToNextApproval act (S\<lparr>asInProgress := True\<rparr>) = S\<lparr>asInProgress := True\<rparr>"
    by (simp add: maybeAutoSwitchToNextApproval_def mayAutoSwitch_def)
qed

definition waitingApp :: appState where
  "waitingApp = twoSessions\<lparr>asActive := Some 1, asQueue := [9, 1, 2], asVisible := (\<lambda>i. i = 2)\<rparr>"

theorem auto_switch_safe_witness:
  "mayAutoSwitch waitingApp \<and> dropWhile (stale waitingApp) (asQueue waitingApp) = [2]
   \<and> hasSession waitingApp 2 \<and> \<not> asVisible waitingApp 1"
proof -
  have m: "mayAutoSwitch waitingApp" "asActive waitingApp = Some 1"
    by (simp_all add: waitingApp_def twoSessions_def emptyApp_def mayAutoSwitch_def
        isCurrentSessionHoldingApprovalFocus_def)
  have d: "dropWhile (stale waitingApp) (asQueue waitingApp) = [2]"
    by (simp add: waitingApp_def twoSessions_def emptyApp_def stale_def hasSession_def)
  from auto_switch_safe [of "\<lambda>_ S. S" waitingApp] m d show ?thesis by blast
qed

end
