(* ===== verification/ApprovalStore.thy ===== *)
theory ApprovalStore
  imports AppState HubBlock
begin

text \<open>
  The caches and timers behind the approval action bar: \<open>src/web/src/app/approval-ui.ts\<close> (the
  adapter) and the bookkeeping functions of \<open>src/web/src/app/approval.ts\<close>. Timers are flags of
  the state whose callbacks are operations; what leaves the client is a log.
\<close>

section \<open>State\<close>

text \<open>
  A cached option array: the body, the risk of its summary, and the key and question of a
  sequential prompt (\<open>_sequentialKey\<close>, \<open>_sequentialQuestion\<close>, the same on every option).
\<close>

record cached =
  coBody :: approvalBody
  coRisk :: "jstr option"
  coSource :: jstr
  coSeq :: "(jstr \<times> jstr) option"
  coMenu :: bool

definition plainCache :: "approvalBody \<Rightarrow> cached" where
  "plainCache b = \<lparr>coBody = b, coRisk = None, coSource = [], coSeq = None, coMenu = False\<rparr>"

record source =
  srcSource :: jstr
  srcSig :: jstr
  srcKind :: jstr
  srcAt :: jstr

record seqState =
  sqSig :: jstr
  sqPrompts :: "seqPrompt list"
  sqAnswers :: "(jstr \<times> int) list"
  sqIndex :: nat

text \<open>What the client sends or schedules: the log of a run.\<close>

datatype event =
    EvHint int bool               \<comment> \<open>\<open>session_hint\<close> to the Hub\<close>
  | EvConsumed int jstr jstr      \<comment> \<open>\<open>approval_consumed\<close>: signature and text\<close>
  | EvText int jstr               \<comment> \<open>\<open>sendSubmittedText\<close>\<close>
  | EvBody int jstr               \<comment> \<open>\<open>sendSubmittedBody\<close>\<close>
  | EvHistory int jstr            \<comment> \<open>\<open>pushMessage\<close>: the raw text\<close>
  | EvDetect int                  \<comment> \<open>\<open>detectApproval\<close>, called or scheduled\<close>
  | EvDialog int int              \<comment> \<open>\<open>requestHighRiskConfirmation\<close>\<close>
  | EvQueue                       \<comment> \<open>\<open>approval-queue-updated\<close>\<close>

record store =
  stApp :: appState
  stRaw :: "int \<Rightarrow> cached option"
  stSource :: "int \<Rightarrow> source option"
  stConsumed :: "int \<Rightarrow> jstr option"
  stConsumedTimer :: "int \<Rightarrow> bool"
  stSel :: "int \<Rightarrow> int option list option"
  stFree :: "int \<Rightarrow> jstr list option"
  stActiveQ :: "int \<Rightarrow> int option"
  stMulti :: "int \<Rightarrow> int list option"
  stMultiFocus :: int
  stBatchFocus :: int
  stBarFocus :: int
  stSeq :: "int \<Rightarrow> seqState option"
  stManualHide :: "int \<Rightarrow> jstr option"
  stSingleText :: "int \<Rightarrow> jstr option"
  stSingleOpen :: "int \<Rightarrow> bool"
  stShownAt :: "int \<Rightarrow> bool"
  stSwitchCand :: "int \<Rightarrow> (jstr \<times> int) option"
  stH9Misses :: "int \<Rightarrow> nat"
  stH9Timer :: "int \<Rightarrow> bool"
  stBgMisses :: "int \<Rightarrow> nat"
  stBgTimer :: "int \<Rightarrow> bool"
  stHintTimer :: "int \<Rightarrow> jstr option"
  stHintTrusted :: "int \<Rightarrow> bool"
  stSuppress :: "int \<Rightarrow> int option"
  stDismissed :: "int \<Rightarrow> bool"
  stLatch :: "int \<Rightarrow> int option"
  stTail :: "int \<Rightarrow> jstr option"
  stRendered :: "int option"
  stMultiQ :: "int \<Rightarrow> bool"
  stBanner :: bool
  stRescan :: "int \<Rightarrow> bool"
  stHasBar :: bool
  stWsOpen :: bool
  stLog :: "event list"

definition emit :: "event \<Rightarrow> store \<Rightarrow> store" where
  "emit e S = S\<lparr>stLog := stLog S @ [e]\<rparr>"

definition onApp :: "(appState \<Rightarrow> appState) \<Rightarrow> store \<Rightarrow> store" where
  "onApp f S = S\<lparr>stApp := f (stApp S)\<rparr>"

definition visibleOf :: "store \<Rightarrow> int \<Rightarrow> bool" where
  "visibleOf S i = asVisible (stApp S) i"

definition activeOf :: "store \<Rightarrow> int option" where
  "activeOf S = asActive (stApp S)"

section \<open>The adapter\<close>

definition sendSessionHint :: "int \<Rightarrow> bool \<Rightarrow> store \<Rightarrow> store" where
  "sendSessionHint i v S = emit (EvHint i v) S"

definition notifyApprovalQueue :: "store \<Rightarrow> store" where
  "notifyApprovalQueue S = emit EvQueue S"

text \<open>\<open>act\<close> is \<open>activateSession\<close>; \<open>autoSwitch\<close> and \<open>forceNotify\<close> are the options.\<close>

definition setApprovalVisible ::
  "(int \<Rightarrow> appState \<Rightarrow> appState) \<Rightarrow> int \<Rightarrow> bool \<Rightarrow> bool \<Rightarrow> bool \<Rightarrow> store \<Rightarrow> store" where
  "setApprovalVisible act i v autoSwitch forceNotify S =
     (if visibleOf S i = v \<and> \<not> forceNotify then S
      else
        (let S1 = onApp (\<lambda>A. A\<lparr>asVisible := (asVisible A)(i := v)\<rparr>) S;
             S2 = (if v then (if autoSwitch then onApp (enqueueApprovalAutoSwitch act i) S1 else S1)
                   else onApp (removeApprovalAutoSwitchTarget i) S1)
         in notifyApprovalQueue (sendSessionHint i v S2)))"

definition cacheApprovalOptions :: "int \<Rightarrow> cached \<Rightarrow> store \<Rightarrow> store" where
  "cacheApprovalOptions i c S =
     notifyApprovalQueue
       (S\<lparr>stRaw := (stRaw S)(i := Some c),
          stSource := (if coSource c = js ''go_vt'' then stSource S else (stSource S)(i := None))\<rparr>)"

definition clearApprovalOptions :: "int \<Rightarrow> store \<Rightarrow> store" where
  "clearApprovalOptions i S =
     notifyApprovalQueue (S\<lparr>stRaw := (stRaw S)(i := None), stSource := (stSource S)(i := None)\<rparr>)"

definition clearActionBarDom :: "store \<Rightarrow> store" where
  "clearActionBarDom S =
     (let S1 = (onApp (\<lambda>A. A\<lparr>asBarVisible := False\<rparr>) S)
                 \<lparr>stRendered := None, stBarFocus := -1, stBatchFocus := -1, stMultiFocus := -1\<rparr>
      in notifyApprovalQueue
           (case activeOf S1 of
              None \<Rightarrow> S1
            | Some a \<Rightarrow> S1\<lparr>stShownAt := (stShownAt S1)(a := False), stMulti := (stMulti S1)(a := None)\<rparr>))"

text \<open>The periodic reassertion: every visible session of the given list of known ids.\<close>

definition reassertApprovalHints :: "int list \<Rightarrow> store \<Rightarrow> store" where
  "reassertApprovalHints ids S =
     (if stWsOpen S then fold (\<lambda>i T. if visibleOf T i then sendSessionHint i True T else T) ids S else S)"

section \<open>Timers and counters\<close>

definition cancelH9Revalidate :: "int \<Rightarrow> store \<Rightarrow> store" where
  "cancelH9Revalidate i S = S\<lparr>stH9Timer := (stH9Timer S)(i := False)\<rparr>"

definition scheduleH9Revalidate :: "int \<Rightarrow> store \<Rightarrow> store" where
  "scheduleH9Revalidate i S = S\<lparr>stH9Timer := (stH9Timer S)(i := True)\<rparr>"

definition fireH9Revalidate :: "int \<Rightarrow> store \<Rightarrow> store" where
  "fireH9Revalidate i S =
     (let S1 = S\<lparr>stH9Timer := (stH9Timer S)(i := False)\<rparr> in
      if activeOf S1 = Some i then emit (EvDetect i) S1 else S1)"

definition resetBgApprovalMisses :: "int \<Rightarrow> store \<Rightarrow> store" where
  "resetBgApprovalMisses i S =
     S\<lparr>stBgMisses := (stBgMisses S)(i := 0), stBgTimer := (stBgTimer S)(i := False)\<rparr>"

definition BG_APPROVAL_MISS_LIMIT :: nat where "BG_APPROVAL_MISS_LIMIT = 8"

definition bodyOptions :: "approvalBody \<Rightarrow> approvalOption list" where
  "bodyOptions b = (case b of Single os \<Rightarrow> os | Batch ss \<Rightarrow> concat (map sOptions ss))"

definition cachedOptionsOnScreen :: "jstr list \<Rightarrow> approvalBody \<Rightarrow> bool" where
  "cachedOptionsOnScreen lns b =
     list_ex (\<lambda>a. let frag = trim (slice (oLabel a) 0 12) in
        if frag = [] then False
        else list_ex (\<lambda>l. str_includes l (num_str (oNum a) @ [46]) \<and> str_includes l frag) lns)
       (bodyOptions b)"

definition emptyBody :: "approvalBody \<Rightarrow> bool" where
  "emptyBody b = (case b of Single os \<Rightarrow> os = [] | Batch ss \<Rightarrow> ss = [])"

definition trackBgApprovalMiss :: "int \<Rightarrow> jstr list \<Rightarrow> store \<Rightarrow> store" where
  "trackBgApprovalMiss i tailLines S =
     (case stRaw S i of
        None \<Rightarrow> S
      | Some c \<Rightarrow>
          if emptyBody (coBody c) then S
          else if cachedOptionsOnScreen tailLines (coBody c) then resetBgApprovalMisses i S
          else
            (let misses = Suc (stBgMisses S i); S1 = S\<lparr>stBgMisses := (stBgMisses S)(i := misses)\<rparr> in
             if misses < BG_APPROVAL_MISS_LIMIT then S1
             else if stBgTimer S1 i then S1
             else S1\<lparr>stBgTimer := (stBgTimer S1)(i := True)\<rparr>))"

definition fireBgClear :: "(int \<Rightarrow> appState \<Rightarrow> appState) \<Rightarrow> int \<Rightarrow> store \<Rightarrow> store" where
  "fireBgClear act i S =
     (let S1 = S\<lparr>stBgTimer := (stBgTimer S)(i := False), stBgMisses := (stBgMisses S)(i := 0)\<rparr> in
      if \<not> visibleOf S1 i \<or> activeOf S1 = Some i then S1
      else setApprovalVisible act i False True False
             ((clearApprovalOptions i S1)
                \<lparr>stSource := (stSource (clearApprovalOptions i S1))(i := None)\<rparr>))"

definition cancelApprovalHintConfirm :: "int \<Rightarrow> store \<Rightarrow> store" where
  "cancelApprovalHintConfirm i S =
     (if stHintTimer S i \<noteq> None
      then S\<lparr>stHintTimer := (stHintTimer S)(i := None), stHintTrusted := (stHintTrusted S)(i := False)\<rparr>
      else S)"

text \<open>The confirmation timer remembers the signature it was scheduled for.\<close>

definition scheduleApprovalHintConfirm :: "int \<Rightarrow> approvalBody \<Rightarrow> store \<Rightarrow> store" where
  "scheduleApprovalHintConfirm i b S =
     (if emptyBody b then S
      else
        (let S1 = cancelApprovalHintConfirm i (resetBgApprovalMisses i S) in
         S1\<lparr>stHintTimer := (stHintTimer S1)(i := Some (approvalSig b))\<rparr>))"

definition setConsumedTimer :: "int \<Rightarrow> store \<Rightarrow> store" where
  "setConsumedTimer i S = S\<lparr>stConsumedTimer := (stConsumedTimer S)(i := True)\<rparr>"

definition fireConsumedTimer :: "int \<Rightarrow> store \<Rightarrow> store" where
  "fireConsumedTimer i S =
     S\<lparr>stConsumed := (stConsumed S)(i := None), stConsumedTimer := (stConsumedTimer S)(i := False)\<rparr>"

definition clearSequentialChoiceState :: "int \<Rightarrow> store \<Rightarrow> store" where
  "clearSequentialChoiceState i S = S\<lparr>stSeq := (stSeq S)(i := None)\<rparr>"

definition clearSingleTabState :: "int \<Rightarrow> store \<Rightarrow> store" where
  "clearSingleTabState i S =
     S\<lparr>stSingleText := (stSingleText S)(i := None), stSingleOpen := (stSingleOpen S)(i := False)\<rparr>"

section \<open>Options as they are shown\<close>

text \<open>\<open>byNum\<close>: the first option of a number keeps its place; later ones improve it.\<close>

definition mergeOption :: "approvalOption \<Rightarrow> approvalOption \<Rightarrow> approvalOption" where
  "mergeOption p q =
     p\<lparr>oCurrent := oCurrent p \<or> oCurrent q, oPreserve := oPreserve p \<or> oPreserve q,
       oLabel := (if length (oLabel p) < length (oLabel q) then oLabel q else oLabel p)\<rparr>"

fun upsertOption :: "approvalOption list \<Rightarrow> approvalOption \<Rightarrow> approvalOption list" where
  "upsertOption [] q = [q]"
| "upsertOption (p # ps) q = (if oNum p = oNum q then mergeOption p q # ps else p # upsertOption ps q)"

definition normalizeActionOptions :: "approvalOption list \<Rightarrow> approvalOption list" where
  "normalizeActionOptions os =
     (let n = foldl upsertOption [] os in
      if list_ex oPreserve n then n else sort_key oNum n)"

text \<open>
  The part of the rendering that changes selections. The DOM itself is not modelled, nor is the
  skip of a rendering that would build the same DOM again. A single question is shown as one
  section, which drops the selections of the other two modes.
\<close>

definition getBatchActiveQ :: "int \<Rightarrow> int \<Rightarrow> store \<Rightarrow> int \<times> store" where
  "getBatchActiveQ i n S =
     (case stActiveQ S i of
        Some k \<Rightarrow> if k < 0 \<or> n \<le> k then (0, S\<lparr>stActiveQ := (stActiveQ S)(i := Some 0)\<rparr>) else (k, S)
      | None \<Rightarrow> (0, S\<lparr>stActiveQ := (stActiveQ S)(i := Some 0)\<rparr>))"

definition showBatchActionBar :: "int \<Rightarrow> approvalSection list \<Rightarrow> store \<Rightarrow> store" where
  "showBatchActionBar i ss S =
     (let n = length ss;
          S1 = (case stSel S i of
                  Some sel \<Rightarrow> if length sel = n then S
                    else S\<lparr>stSel := (stSel S)(i := Some (replicate n None))\<rparr>
                | None \<Rightarrow> S\<lparr>stSel := (stSel S)(i := Some (replicate n None))\<rparr>);
          S2 = (case stFree S1 i of
                  Some fr \<Rightarrow> if length fr = n then S1
                    else S1\<lparr>stFree := (stFree S1)(i := Some (replicate n []))\<rparr>
                | None \<Rightarrow> S1\<lparr>stFree := (stFree S1)(i := Some (replicate n []))\<rparr>)
      in snd (getBatchActiveQ i (int n) S2))"

definition showMultiSelectActionBar :: "int \<Rightarrow> approvalOption list \<Rightarrow> store \<Rightarrow> store" where
  "showMultiSelectActionBar i os S =
     (case stMulti S i of
        Some sel \<Rightarrow> S
      | None \<Rightarrow>
          S\<lparr>stMulti := (stMulti S)(i := Some []),
            stMultiFocus := (if stMultiFocus S < 0 \<or> int (length os) \<le> stMultiFocus S then 0
                             else stMultiFocus S)\<rparr>)"

definition showSingleSectionBar :: "int \<Rightarrow> store \<Rightarrow> store" where
  "showSingleSectionBar i S = S\<lparr>stSel := (stSel S)(i := None), stMulti := (stMulti S)(i := None)\<rparr>"

definition barShown :: "int \<Rightarrow> store \<Rightarrow> store" where
  "barShown i S =
     onApp (\<lambda>A. A\<lparr>asBarVisible := True\<rparr>) (S\<lparr>stShownAt := (stShownAt S)(i := True), stRendered := Some i\<rparr>)"

definition renderBody :: "int \<Rightarrow> approvalBody \<Rightarrow> store \<Rightarrow> store" where
  "renderBody i b S =
     (if emptyBody b then showSingleSectionBar i S
      else barShown i
        (case b of
           Batch ss \<Rightarrow> showBatchActionBar i ss S
         | Single os \<Rightarrow> if isMultiSelectOptions b then showMultiSelectActionBar i os S
                         else showSingleSectionBar i S))"

definition showActionBar :: "int \<Rightarrow> cached \<Rightarrow> store \<Rightarrow> store" where
  "showActionBar i c S =
     (if stManualHide S i = Some (approvalSig (coBody c)) then S
      else renderBody i (coBody c) (S\<lparr>stManualHide := (stManualHide S)(i := None)\<rparr>))"

definition showOptions :: "int \<Rightarrow> cached \<Rightarrow> store \<Rightarrow> store" where
  "showOptions i c S = showActionBar i c (cacheApprovalOptions i c S)"

section \<open>Closing the bar\<close>

definition hideActionBar :: "(int \<Rightarrow> appState \<Rightarrow> appState) \<Rightarrow> int \<Rightarrow> store \<Rightarrow> store" where
  "hideActionBar act i S =
     (let S1 = (onApp (\<lambda>A. A\<lparr>asBarVisible := False\<rparr>) S)
                 \<lparr>stRendered := None, stBarFocus := -1, stBatchFocus := -1, stMultiFocus := -1,
                  stShownAt := (stShownAt S)(i := False), stSel := (stSel S)(i := None),
                  stFree := (stFree S)(i := None), stActiveQ := (stActiveQ S)(i := None),
                  stMulti := (stMulti S)(i := None), stManualHide := (stManualHide S)(i := None)\<rparr>;
          S2 = (cancelApprovalHintConfirm i S1)\<lparr>stSwitchCand := (stSwitchCand S1)(i := None),
                  stH9Misses := (stH9Misses S1)(i := 0)\<rparr>;
          S3 = clearSingleTabState i (clearSequentialChoiceState i
                 (resetBgApprovalMisses i (cancelH9Revalidate i S2)));
          was = visibleOf S3 i;
          S4 = (if was then
                  (let T = clearApprovalOptions i (setApprovalVisible act i False True False S3) in
                   T\<lparr>stSource := (stSource T)(i := None),
                     stTail := (stTail T)(i := map_option (\<lambda>_. []) (stTail T i))\<rparr>)
                else S3)
      in onApp (maybeAutoSwitchToNextApproval act) (setConsumedTimer i S4))"

definition manuallyHideActionBar :: "int \<Rightarrow> store \<Rightarrow> store" where
  "manuallyHideActionBar i S =
     (let S1 = (case stRaw S i of
                  Some c \<Rightarrow> if emptyBody (coBody c) then S
                    else S\<lparr>stManualHide := (stManualHide S)(i := Some (approvalSig (coBody c)))\<rparr>
                | None \<Rightarrow> S)
      in (onApp (\<lambda>A. A\<lparr>asBarVisible := False\<rparr>) S1)
           \<lparr>stRendered := None, stBarFocus := -1, stBatchFocus := -1, stMultiFocus := -1\<rparr>)"

definition reshowActionBar :: "int \<Rightarrow> store \<Rightarrow> store" where
  "reshowActionBar i S = emit (EvDetect i) (S\<lparr>stManualHide := (stManualHide S)(i := None)\<rparr>)"

definition fireHintConfirm :: "(int \<Rightarrow> appState \<Rightarrow> appState) \<Rightarrow> int \<Rightarrow> store \<Rightarrow> store" where
  "fireHintConfirm act i S =
     (case stHintTimer S i of
        None \<Rightarrow> S
      | Some sig \<Rightarrow>
          (let S1 = S\<lparr>stHintTimer := (stHintTimer S)(i := None), stHintTrusted := (stHintTrusted S)(i := False)\<rparr> in
           case stRaw S1 i of
             None \<Rightarrow> S1
           | Some c \<Rightarrow>
               if emptyBody (coBody c) then S1
               else if approvalSig (coBody c) \<noteq> sig then S1
               else
                 (let S2 = (if visibleOf S1 i then S1 else setApprovalVisible act i True True False S1) in
                  if activeOf S2 = Some i \<and> stHasBar S2 then showOptions i c S2 else S2)))"

end
