(* ===== verification/ApprovalAnswer.thy ===== *)
theory ApprovalAnswer
  imports ApprovalStore "HOL-Library.AList"
begin

text \<open>
  \<open>src/web/src/app/approval.ts\<close>: detection messages from the Hub, the sequential prompts, and
  everything that answers an approval: one choice, free text, the tabs of a batch, and the
  check boxes of a multiple selection. Each operation changes the caches of \<open>ApprovalStore\<close> and
  logs what it sends.
\<close>

section \<open>Sequential prompts\<close>

definition answered :: "(jstr \<times> int) list \<Rightarrow> seqPrompt \<Rightarrow> bool" where
  "answered ans p \<longleftrightarrow> map_of ans (pKey p) \<noteq> None"

text \<open>\<open>while (index < length && answers.has(prompts[index].key)) index++\<close>\<close>

fun skipAnswered :: "seqPrompt list \<Rightarrow> (jstr \<times> int) list \<Rightarrow> nat \<Rightarrow> nat" where
  "skipAnswered [] ans i = i"
| "skipAnswered (p # ps) ans i = (if answered ans p then skipAnswered ps ans (Suc i) else i)"

definition advance :: "seqState \<Rightarrow> seqState" where
  "advance Q = Q\<lparr>sqIndex := skipAnswered (drop (sqIndex Q) (sqPrompts Q)) (sqAnswers Q) (sqIndex Q)\<rparr>"

definition getSequentialChoiceState ::
  "int \<Rightarrow> seqPrompt list option \<Rightarrow> store \<Rightarrow> seqState option \<times> store" where
  "getSequentialChoiceState i prompts S =
     (case prompts of
        None \<Rightarrow> (None, S)
      | Some ps \<Rightarrow>
          if length ps < 2 then (None, S)
          else
            (let sig = sequentialChoiceSig ps;
                 fresh = \<lparr>sqSig = sig, sqPrompts = ps, sqAnswers = [], sqIndex = 0\<rparr>;
                 Q = (case stSeq S i of
                        None \<Rightarrow> fresh
                      | Some Q0 \<Rightarrow> if sqSig Q0 \<noteq> sig then fresh else Q0\<lparr>sqPrompts := ps\<rparr>);
                 Q1 = advance Q;
                 S1 = S\<lparr>stSeq := (stSeq S)(i := Some Q1)\<rparr>
             in (if sqIndex Q1 < length (sqPrompts Q1) then Some Q1 else None, S1)))"

definition sequentialChoiceOptionsForState :: "seqState \<Rightarrow> cached" where
  "sequentialChoiceOptionsForState Q =
     (let p = sqPrompts Q ! sqIndex Q in
      \<lparr>coBody = Single (map (\<lambda>(k, a). a\<lparr>oCurrent := (k = 0)\<rparr>) (enumerate 0 (pOptions p))),
       coRisk = None, coSource = [],
       coSeq = Some (pKey p, pKey p @ js '': '' @ pQuestion p), coMenu = False\<rparr>)"

section \<open>Messages from the Hub\<close>

text \<open>An option of the message: number (when finite), label, flags and text to send.\<close>

type_synonym goOption = "int option \<times> jstr \<times> bool \<times> bool \<times> jstr"

definition goOption :: "goOption \<Rightarrow> approvalOption list" where
  "goOption r =
     (case r of (n, l, cur, pres, snd') \<Rightarrow>
        (case n of
           None \<Rightarrow> []
         | Some k \<Rightarrow>
             if trim l = [] then []
             else [(mkOption k (trim l) cur)\<lparr>oPreserve := pres,
                     oSendText := (if snd' = [] then None else Some snd')\<rparr>]))"

definition normalizeGoApprovalOptions :: "goOption list \<Rightarrow> approvalOption list" where
  "normalizeGoApprovalOptions raw = concat (map goOption raw)"

definition isGoNativeApprovalActive :: "int \<Rightarrow> store \<Rightarrow> bool" where
  "isGoNativeApprovalActive i S =
     (case stSource S i of None \<Rightarrow> False
      | Some src \<Rightarrow> srcSource src = js ''go_vt'' \<and> visibleOf S i)"

text \<open>The summary of a command: risk, command, paths and raw text, each possibly missing or wrong.\<close>

record rawSummary =
  rwRisk :: jstr
  rwCommand :: jstr
  rwPaths :: "jstr list"
  rwRaw :: jstr

record summary =
  smCommand :: jstr
  smPaths :: "jstr list"
  smRisk :: jstr
  smRaw :: jstr

definition normalizeApprovalSummary :: "rawSummary option \<Rightarrow> jstr \<Rightarrow> jstr \<Rightarrow> summary option" where
  "normalizeApprovalSummary raw fallbackRaw fallbackQuestion =
     (case raw of
        None \<Rightarrow> None
      | Some r \<Rightarrow>
          (let risk = (if rwRisk r = js ''low'' \<or> rwRisk r = js ''high'' then rwRisk r else js ''mid'');
               command = trim (if rwCommand r = [] then fallbackQuestion else rwCommand r);
               paths = take 4 (filter (\<lambda>p. p \<noteq> []) (map trim (rwPaths r)));
               context = trim (if rwRaw r = [] then fallbackRaw else rwRaw r)
           in if command = [] \<and> context = [] then None
              else Some \<lparr>smCommand = command, smPaths = paths, smRisk = risk, smRaw = context\<rparr>))"

record goMessage =
  gmSession :: int
  gmOptions :: "goOption list"
  gmSig :: jstr
  gmKind :: jstr
  gmAt :: jstr
  gmSummary :: "rawSummary option"
  gmContext :: jstr
  gmQuestion :: jstr

definition showDetected :: "(int \<Rightarrow> appState \<Rightarrow> appState) \<Rightarrow> int \<Rightarrow> cached \<Rightarrow> store \<Rightarrow> store" where
  "showDetected act i c S =
     (let S1 = setApprovalVisible act i True True False S in
      if activeOf S1 = Some i \<and> stHasBar S1 then showOptions i c S1 else S1)"

definition handleGoApprovalDetected :: "(int \<Rightarrow> appState \<Rightarrow> appState) \<Rightarrow> goMessage \<Rightarrow> store \<Rightarrow> store" where
  "handleGoApprovalDetected act m S =
     (let i = gmSession m; os = normalizeGoApprovalOptions (gmOptions m) in
      if i = 0 then S
      else if os = [] then S
      else
        (let sig = (if gmSig m = [] then approvalSig (Single os) else gmSig m);
             c = (plainCache (Single os))\<lparr>coRisk := map_option smRisk
                     (normalizeApprovalSummary (gmSummary m) (gmContext m) (gmQuestion m)),
                    coSource := js ''go_vt''\<rparr>;
             S1 = cancelApprovalHintConfirm i S;
             S2 = resetBgApprovalMisses i (S1\<lparr>stSwitchCand := (stSwitchCand S1)(i := None),
                    stConsumed := (stConsumed S1)(i := None)\<rparr>);
             S3 = cacheApprovalOptions i c S2;
             S4 = S3\<lparr>stSource := (stSource S3)(i := Some \<lparr>srcSource = js ''go_vt'', srcSig = sig,
                    srcKind = (if gmKind m = [] then js ''native'' else gmKind m), srcAt = gmAt m\<rparr>)\<rparr>
         in showDetected act i c S4))"

text \<open>\<open>stripAnsi\<close> of \<open>settings.ts\<close>, and the lines of a marker block or of the text tail.\<close>

definition ansiSteps :: "rx list" where
  "ansiSteps =
     [seqs [chr 27, chr 91, many (RCls (CC False [CRange 48 57, CRange 59 59, CRange 63 63])),
            many (RCls (CC False [CRange 32 47])), RCls (CC False [CRange 64 126])],
      seqs [chr 27, chr 93, many (RCls (CC True [CRange 7 7, CRange 27 27])),
            RAlt (chr 7) (lit [27, 92])],
      seqs [chr 27, anyOf [80, 88, 94, 95], many (RCls (CC True [CRange 27 27])), lit [27, 92]],
      seqs [chr 27, anyOf [40, 41], RCls (CC False [CRange 48 57, CRange 65 90, CRange 97 122])],
      seqs [chr 27, anyOf [61, 62]],
      seqs [chr 27, RCls (CC True [CRange 91 91])],
      RCls (CC False [CRange 0 8, CRange 11 11, CRange 12 12, CRange 14 31, CRange 127 127])]"

fun deleteEach :: "rx list \<Rightarrow> jstr \<Rightarrow> jstr" where
  "deleteEach [] s = s"
| "deleteEach (r # rs) s = deleteEach rs (replace_all False r (\<lambda>_. []) s)"

definition stripAnsiAll :: "jstr \<Rightarrow> jstr" where
  "stripAnsiAll s = deleteEach ansiSteps s"

fun splitLines :: "jstr \<Rightarrow> jstr list" where
  "splitLines [] = [[]]"
| "splitLines (c # cs) =
     (if c = 13 \<and> cs \<noteq> [] \<and> hd cs = 10 then [] # splitLines (tl cs)
      else if c = 13 \<or> c = 10 then [] # splitLines cs
      else (case splitLines cs of [] \<Rightarrow> [[c]] | w # ws \<Rightarrow> (c # w) # ws))"

definition markerLinesFromTail :: "jstr \<Rightarrow> jstr list" where
  "markerLinesFromTail t = map stripAnsiAll (splitLines (normalizeVtCursorOps t))"

text \<open>A marker block sent by the Hub, with the time of the message.\<close>

definition handleHubApprovalMarker ::
  "(int \<Rightarrow> appState \<Rightarrow> appState) \<Rightarrow> int \<Rightarrow> jstr \<Rightarrow> jstr \<Rightarrow> store \<Rightarrow> store" where
  "handleHubApprovalMarker act i block at S =
     (if i = 0 \<or> block = [] then S
      else
        (case extractHubMarkerApproval (markerLinesFromTail block) of
           None \<Rightarrow> S
         | Some p \<Rightarrow>
             (let b = hpBody p; sig = approvalSig b in
              if isAnsweredMarkerSig i b (stApp S) then S
              else if stConsumed S i = Some sig then S
              else
                (let S1 = S\<lparr>stConsumedTimer := (stConsumedTimer S)(i := False),
                            stConsumed := (stConsumed S)(i := None)\<rparr>;
                     S2 = cancelApprovalHintConfirm i S1;
                     S3 = resetBgApprovalMisses i (S2\<lparr>stSwitchCand := (stSwitchCand S2)(i := None)\<rparr>);
                     S4 = cacheApprovalOptions i (plainCache b) S3;
                     S5 = S4\<lparr>stSource := (stSource S4)(i := Some \<lparr>srcSource = js ''hub_marker'',
                            srcSig = sig, srcKind = js ''marker'', srcAt = at\<rparr>)\<rparr>
                 in showDetected act i (plainCache b) S5))))"

definition handleGoApprovalCleared ::
  "(int \<Rightarrow> appState \<Rightarrow> appState) \<Rightarrow> int \<Rightarrow> jstr \<Rightarrow> store \<Rightarrow> store" where
  "handleGoApprovalCleared act i msgSig S =
     (if i = 0 then S
      else
        (case stSource S i of
           None \<Rightarrow> S
         | Some src \<Rightarrow>
             if srcSource src \<noteq> js ''go_vt'' then S
             else if msgSig \<noteq> [] \<and> srcSig src \<noteq> [] \<and> msgSig \<noteq> srcSig src then S
             else
               (let S1 = clearApprovalOptions i (S\<lparr>stSource := (stSource S)(i := None)\<rparr>);
                    S2 = resetBgApprovalMisses i (cancelApprovalHintConfirm i
                           (S1\<lparr>stSwitchCand := (stSwitchCand S1)(i := None)\<rparr>));
                    S3 = (if visibleOf S2 i then setApprovalVisible act i False True False S2 else S2)
                in if activeOf S3 = Some i then hideActionBar act i S3 else S3)))"

definition sendApprovalConsumed :: "int \<Rightarrow> cached option \<Rightarrow> jstr \<Rightarrow> store \<Rightarrow> store" where
  "sendApprovalConsumed i c txt S =
     (case stSource S i of
        None \<Rightarrow> S
      | Some src \<Rightarrow>
          if srcSource src \<noteq> js ''go_vt'' \<or> srcSig src = [] then S
          else if \<not> stWsOpen S then S
          else
            (let S1 = emit (EvConsumed i (srcSig src) txt) S in
             (case c of None \<Rightarrow> S1
              | Some cc \<Rightarrow> S1\<lparr>stConsumed := (stConsumed S1)(i := Some (approvalSig (coBody cc)))\<rparr>)))"

definition maybeSendDirectApprovalConsumed :: "int \<Rightarrow> jstr \<Rightarrow> jstr \<Rightarrow> store \<Rightarrow> store" where
  "maybeSendDirectApprovalConsumed i rawText sentText S =
     (case (stSource S i, stRaw S i) of
        (Some src, Some c) \<Rightarrow>
          if srcSource src \<noteq> js ''go_vt'' then S
          else
            (case coBody c of
               Batch ss \<Rightarrow> S
             | Single os \<Rightarrow>
                 (let t = trim rawText in
                  if list_ex (\<lambda>a. t = num_str (oNum a) \<or>
                       t = trim (case oSendText a of None \<Rightarrow> num_str (oNum a) | Some s \<Rightarrow> s)) os
                  then sendApprovalConsumed i (Some c) sentText S else S))
      | _ \<Rightarrow> S)"

section \<open>One choice\<close>

definition denyLabelRe :: rx where
  "denyLabelRe = RAlt
     (seqs [RWordB, alts (map (\<lambda>w. lit (js w))
        [''no'', ''deny'', ''reject'', ''skip'', ''cancel'', ''abort'', ''decline'']), RWordB])
     (seqs [lit (js ''don''), chr 39, chr 116, many1 wsCh, lit (js ''allow'')])"

definition findNum :: "int \<Rightarrow> approvalOption list \<Rightarrow> approvalOption option" where
  "findNum n os = List.find (\<lambda>a. oNum a = n) os"

definition isHighRiskApprovalSelection :: "int \<Rightarrow> int \<Rightarrow> store \<Rightarrow> bool" where
  "isHighRiskApprovalSelection i n S =
     (case stRaw S i of
        None \<Rightarrow> False
      | Some c \<Rightarrow>
          (case coBody c of
             Batch ss \<Rightarrow> False
           | Single os \<Rightarrow>
               if isMultiSelectOptions (Single os) then False
               else if coRisk c \<noteq> Some (js ''high'') then False
               else (case findNum n os of
                       None \<Rightarrow> False
                     | Some a \<Rightarrow> \<not> test True denyLabelRe (oLabel a))))"

text \<open>What every answer records: the consumed signature and the answered marker signature.\<close>

definition recordAnswer :: "int \<Rightarrow> store \<Rightarrow> store" where
  "recordAnswer i S =
     (case stRaw S i of
        None \<Rightarrow> S
      | Some c \<Rightarrow>
          onApp (recordAnsweredMarkerSig i (coBody c))
            (S\<lparr>stConsumed := (stConsumed S)(i := Some (approvalSig (coBody c)))\<rparr>))"

definition setSuppress :: "int \<Rightarrow> int \<Rightarrow> store \<Rightarrow> store" where
  "setSuppress now i S = S\<lparr>stSuppress := (stSuppress S)(i := Some (now + 400))\<rparr>"

definition forgetMultiQuestion :: "int \<Rightarrow> store \<Rightarrow> store" where
  "forgetMultiQuestion i S =
     S\<lparr>stDismissed := (stDismissed S)(i := False), stLatch := (stLatch S)(i := None)\<rparr>"

text \<open>The end of an answer: hide the bar, suppress for 400 ms, schedule the next detection.\<close>

definition closeAnswer :: "(int \<Rightarrow> appState \<Rightarrow> appState) \<Rightarrow> int \<Rightarrow> int \<Rightarrow> store \<Rightarrow> store" where
  "closeAnswer act now i S = emit (EvDetect i) (setSuppress now i (hideActionBar act i S))"

definition answerText :: "seqState \<Rightarrow> jstr" where
  "answerText Q = join [10] (map (\<lambda>p. pKey p @ js '': '' @
     (case map_of (sqAnswers Q) (pKey p) of None \<Rightarrow> js ''undefined'' | Some n \<Rightarrow> num_str n)) (sqPrompts Q))"

definition answerPrompt :: "int \<Rightarrow> seqState \<Rightarrow> seqState" where
  "answerPrompt n Q =
     advance (Q\<lparr>sqAnswers := AList.update (pKey (sqPrompts Q ! sqIndex Q)) n (sqAnswers Q),
                sqIndex := Suc (sqIndex Q)\<rparr>)"

definition sendSequential :: "(int \<Rightarrow> appState \<Rightarrow> appState) \<Rightarrow> int \<Rightarrow> int \<Rightarrow> int \<Rightarrow> seqState \<Rightarrow> store \<Rightarrow> store" where
  "sendSequential act now i n Q S =
     (let Q1 = answerPrompt n Q; S1 = S\<lparr>stSeq := (stSeq S)(i := Some Q1)\<rparr> in
      if sqIndex Q1 < length (sqPrompts Q1) \<and> stHasBar S1 then
        (let c = sequentialChoiceOptionsForState Q1 in
         showOptions i c (cacheApprovalOptions i c S1))
      else
        (let S2 = emit (EvHistory i (answerText Q1)) S1;
             S3 = recordAnswer i (clearSequentialChoiceState i S2);
             S4 = emit (EvBody i (answerText Q1)) (forgetMultiQuestion i S3)
         in closeAnswer act now i S4))"

definition sendSingle :: "(int \<Rightarrow> appState \<Rightarrow> appState) \<Rightarrow> int \<Rightarrow> int \<Rightarrow> int \<Rightarrow> store \<Rightarrow> store" where
  "sendSingle act now i n S =
     (let c = stRaw S i;
          target = (case c of
                      Some cc \<Rightarrow> (case coBody cc of Single os \<Rightarrow> findNum n os | Batch ss \<Rightarrow> None)
                    | None \<Rightarrow> None);
          dflt = num_str n @ [13];
          choice = (case target of
                      Some a \<Rightarrow> (case oSendText a of Some s \<Rightarrow> s | None \<Rightarrow> dflt)
                    | None \<Rightarrow> dflt);
          label = (case target of
                      Some a \<Rightarrow> if oLabel a = [] then 35 # num_str n else oLabel a
                    | None \<Rightarrow> 35 # num_str n);
          S1 = recordAnswer i (emit (EvHistory i label) S);
          S2 = emit (EvText i choice) (sendApprovalConsumed i c choice S1)
      in closeAnswer act now i S2)"

text \<open>\<open>dialog\<close>: the confirmation mode is a dialog; otherwise the button must be held.\<close>

definition sendChoice ::
  "(int \<Rightarrow> appState \<Rightarrow> appState) \<Rightarrow> int \<Rightarrow> bool \<Rightarrow> int \<Rightarrow> int \<Rightarrow> bool \<Rightarrow> store \<Rightarrow> store" where
  "sendChoice act now dialog i n confirmed S =
     (if \<not> confirmed \<and> isHighRiskApprovalSelection i n S then
        (if dialog then emit (EvDialog i n) S else S)
      else
        (case stSeq S i of
           Some Q \<Rightarrow> if sqIndex Q < length (sqPrompts Q) then sendSequential act now i n Q S
                     else sendSingle act now i n S
         | None \<Rightarrow> sendSingle act now i n S))"

definition sendSingleFreeText :: "(int \<Rightarrow> appState \<Rightarrow> appState) \<Rightarrow> int \<Rightarrow> int \<Rightarrow> store \<Rightarrow> store" where
  "sendSingleFreeText act now i S =
     (let txt = trim (case stSingleText S i of None \<Rightarrow> [] | Some t \<Rightarrow> t) in
      if txt = [] then S
      else
        (let c = stRaw S i;
             S1 = recordAnswer i (emit (EvHistory i txt) S);
             S2 = emit (EvBody i txt) (sendApprovalConsumed i c (txt @ [13]) S1);
             S3 = setSuppress now i (hideActionBar act i S2)
         in emit (EvDetect i) (S3\<lparr>stDismissed := (stDismissed S3)(i := False)\<rparr>)))"

definition activateSingleFree :: "int \<Rightarrow> store \<Rightarrow> store" where
  "activateSingleFree i S =
     (let S1 = S\<lparr>stSingleOpen := (stSingleOpen S)(i := True)\<rparr> in
      case stRaw S1 i of
        None \<Rightarrow> S1
      | Some c \<Rightarrow>
          if isBatchOptions (coBody c) \<or> isMultiSelectOptions (coBody c) then S1
          else if stHasBar S1 then showActionBar i c S1 else S1)"

definition getSingleFreeText :: "int \<Rightarrow> store \<Rightarrow> jstr" where
  "getSingleFreeText i S = (case stSingleText S i of None \<Rightarrow> [] | Some t \<Rightarrow> t)"

definition setSingleFreeText :: "int \<Rightarrow> jstr \<Rightarrow> store \<Rightarrow> store" where
  "setSingleFreeText i t S = S\<lparr>stSingleText := (stSingleText S)(i := Some t)\<rparr>"

section \<open>A batch of questions\<close>

definition BATCH_FREE :: int where "BATCH_FREE = -1"

definition batchShortText :: "approvalOption \<Rightarrow> jstr" where
  "batchShortText a =
     (case oShort a of
        Some s \<Rightarrow> s
      | None \<Rightarrow> (let t = trim (oLabel a) in if 8 < length t then take 8 t @ [8230] else t))"

definition cachedSections :: "int \<Rightarrow> store \<Rightarrow> approvalSection list" where
  "cachedSections i S =
     (case stRaw S i of Some c \<Rightarrow> (case coBody c of Batch ss \<Rightarrow> ss | Single os \<Rightarrow> []) | None \<Rightarrow> [])"

definition freeAt :: "int \<Rightarrow> nat \<Rightarrow> store \<Rightarrow> jstr" where
  "freeAt i k S = (case stFree S i of None \<Rightarrow> [] | Some fs \<Rightarrow> if k < length fs then fs ! k else [])"

definition batchSectionAnswered :: "int \<Rightarrow> nat \<Rightarrow> store \<Rightarrow> bool" where
  "batchSectionAnswered i k S =
     (case stSel S i of
        None \<Rightarrow> False
      | Some sel \<Rightarrow>
          (case (if k < length sel then sel ! k else None) of
             None \<Rightarrow> False
           | Some n \<Rightarrow> if n = BATCH_FREE then trim (freeAt i k S) \<noteq> [] else True))"

definition batchAllAnswered :: "int \<Rightarrow> approvalSection list \<Rightarrow> store \<Rightarrow> bool" where
  "batchAllAnswered i ss S \<longleftrightarrow>
     ss \<noteq> [] \<and> list_all (\<lambda>k. batchSectionAnswered i k S) [0..<length ss]"

definition rerenderBatch :: "int \<Rightarrow> store \<Rightarrow> store" where
  "rerenderBatch i S =
     (if cachedSections i S \<noteq> [] \<and> stHasBar S then showBatchActionBar i (cachedSections i S) S else S)"

definition setBatchActiveQ :: "int \<Rightarrow> int \<Rightarrow> store \<Rightarrow> store" where
  "setBatchActiveQ i k S = rerenderBatch i (S\<lparr>stActiveQ := (stActiveQ S)(i := Some k)\<rparr>)"

definition selectBatchOption :: "int \<Rightarrow> nat \<Rightarrow> int \<Rightarrow> store \<Rightarrow> store" where
  "selectBatchOption i k n S =
     (case stSel S i of
        None \<Rightarrow> S
      | Some sel \<Rightarrow>
          setBatchActiveQ i (int k)
            (S\<lparr>stSel := (stSel S)(i := Some
               ((sel @ replicate (Suc k - length sel) None)[k := Some n]))\<rparr>))"

definition clearBatchSelections :: "int \<Rightarrow> store \<Rightarrow> store" where
  "clearBatchSelections i S =
     (let ss = cachedSections i S; n = length ss in
      if ss = [] then S
      else rerenderBatch i
        (S\<lparr>stSel := (stSel S)(i := Some (replicate n None)),
           stFree := (stFree S)(i := Some (replicate n [])),
           stActiveQ := (stActiveQ S)(i := Some 0)\<rparr>))"

definition payloadLine :: "int \<Rightarrow> store \<Rightarrow> nat \<Rightarrow> int option \<Rightarrow> jstr" where
  "payloadLine i S k sel =
     num_str (int k + 1) @ [32] @
     (case sel of
        None \<Rightarrow> js ''null''
      | Some n \<Rightarrow> if n = BATCH_FREE then trim (freeAt i k S) else num_str n)"

definition buildBatchPayload :: "int \<Rightarrow> store \<Rightarrow> jstr" where
  "buildBatchPayload i S =
     join [10] (map (\<lambda>(k, sel). payloadLine i S k sel)
       (enumerate 0 (case stSel S i of None \<Rightarrow> [] | Some sel \<Rightarrow> sel)))"

definition sendBatchChoices :: "(int \<Rightarrow> appState \<Rightarrow> appState) \<Rightarrow> int \<Rightarrow> int \<Rightarrow> store \<Rightarrow> store" where
  "sendBatchChoices act now i S =
     (let ss = cachedSections i S in
      if ss = [] then S
      else if \<not> batchAllAnswered i ss S then S
      else
        (let txt = buildBatchPayload i S;
             S1 = sendApprovalConsumed i (stRaw S i) txt (recordAnswer i S);
             S2 = setSuppress now i (hideActionBar act i (emit (EvBody i txt) S1))
         in emit (EvDetect i)
              (S2\<lparr>stSel := (stSel S2)(i := None), stFree := (stFree S2)(i := None),
                 stActiveQ := (stActiveQ S2)(i := None), stDismissed := (stDismissed S2)(i := False)\<rparr>)))"

definition moveBatchFocus :: "int \<Rightarrow> store \<Rightarrow> bool \<times> store" where
  "moveBatchFocus delta S =
     (case activeOf S of
        None \<Rightarrow> (False, S)
      | Some i \<Rightarrow>
          (let n = int (length (cachedSections i S)) in
           if n = 0 then (False, S)
           else (let (cur, S1) = getBatchActiveQ i n S in
                 (True, setBatchActiveQ i ((cur + delta) mod n) S1))))"

definition handleBatchNumberKey :: "int \<Rightarrow> int \<Rightarrow> store \<Rightarrow> bool \<times> store" where
  "handleBatchNumberKey i n S =
     (let ss = cachedSections i S in
      if ss = [] then (False, S)
      else
        (let (k, S1) = getBatchActiveQ i (int (length ss)) S in
         if findNum n (sOptions (ss ! nat k)) = None then (False, S1)
         else (True, selectBatchOption i (nat k) n S1)))"

section \<open>A multiple selection\<close>

definition multiOptions :: "int \<Rightarrow> store \<Rightarrow> approvalOption list" where
  "multiOptions i S =
     (case stRaw S i of
        Some c \<Rightarrow> (case coBody c of
                     Single os \<Rightarrow> if isMultiSelectOptions (Single os) then os else []
                   | Batch ss \<Rightarrow> [])
      | None \<Rightarrow> [])"

definition rerenderMulti :: "int \<Rightarrow> store \<Rightarrow> store" where
  "rerenderMulti i S = (if stHasBar S then showMultiSelectActionBar i (multiOptions i S) S else S)"

definition selectedOf :: "int \<Rightarrow> store \<Rightarrow> int list" where
  "selectedOf i S = (case stMulti S i of None \<Rightarrow> [] | Some sel \<Rightarrow> sel)"

definition toggleMultiSelectOption :: "int \<Rightarrow> int \<Rightarrow> store \<Rightarrow> bool \<times> store" where
  "toggleMultiSelectOption i n S =
     (if multiOptions i S = [] then (False, S)
      else if \<not> list_ex (\<lambda>a. oNum a = n) (multiOptions i S) then (False, S)
      else
        (let sel = selectedOf i S;
             sel' = (if List.member sel n then filter (\<lambda>k. k \<noteq> n) sel else sel @ [n])
         in (True, rerenderMulti i (S\<lparr>stMulti := (stMulti S)(i := Some sel')\<rparr>))))"

definition clearMultiSelectSelections :: "int \<Rightarrow> store \<Rightarrow> store" where
  "clearMultiSelectSelections i S =
     (if multiOptions i S = [] then S
      else rerenderMulti i (S\<lparr>stMulti := (stMulti S)(i := Some []), stMultiFocus := 0\<rparr>))"

definition selectAllMultiSelectOptions :: "int \<Rightarrow> store \<Rightarrow> store" where
  "selectAllMultiSelectOptions i S =
     (if multiOptions i S = [] then S
      else rerenderMulti i (S\<lparr>stMulti := (stMulti S)(i := Some
             (rev (remdups (rev (map oNum (multiOptions i S))))))\<rparr>))"

definition moveMultiSelectFocus :: "int \<Rightarrow> store \<Rightarrow> bool \<times> store" where
  "moveMultiSelectFocus delta S =
     (case activeOf S of
        None \<Rightarrow> (False, S)
      | Some i \<Rightarrow>
          (let n = int (length (multiOptions i S)) in
           if n = 0 then (False, S)
           else
             (let from' = (if stMultiFocus S < 0 then (if 0 < delta then -1 else 0) else stMultiFocus S)
              in (True, rerenderMulti i (S\<lparr>stMultiFocus := (from' + delta) mod n\<rparr>)))))"

definition toggleMultiSelectFocused :: "int \<Rightarrow> store \<Rightarrow> bool \<times> store" where
  "toggleMultiSelectFocused i S =
     (let os = multiOptions i S; k = stMultiFocus S in
      if os = [] \<or> k < 0 \<or> int (length os) \<le> k then (False, S)
      else toggleMultiSelectOption i (oNum (os ! nat k)) S)"

fun indexOfNum :: "int \<Rightarrow> approvalOption list \<Rightarrow> nat \<Rightarrow> nat option" where
  "indexOfNum n [] k = None"
| "indexOfNum n (a # as) k = (if oNum a = n then Some k else indexOfNum n as (Suc k))"

definition handleMultiSelectNumberKey :: "int \<Rightarrow> int \<Rightarrow> store \<Rightarrow> bool \<times> store" where
  "handleMultiSelectNumberKey i n S =
     (case indexOfNum n (multiOptions i S) 0 of
        None \<Rightarrow> (False, S)
      | Some k \<Rightarrow> toggleMultiSelectOption i n (S\<lparr>stMultiFocus := int k\<rparr>))"

definition multiText :: "int \<Rightarrow> store \<Rightarrow> jstr" where
  "multiText i S = join [44] (map num_str (sort (selectedOf i S)))"

definition multiLabel :: "approvalOption list \<Rightarrow> int \<Rightarrow> jstr" where
  "multiLabel os n =
     (case map_of (rev (map (\<lambda>a. (oNum a, oLabel a)) os)) n of
        None \<Rightarrow> 35 # num_str n | Some l \<Rightarrow> if l = [] then 35 # num_str n else l)"

definition sendMultiSelectChoices :: "(int \<Rightarrow> appState \<Rightarrow> appState) \<Rightarrow> int \<Rightarrow> int \<Rightarrow> store \<Rightarrow> store" where
  "sendMultiSelectChoices act now i S =
     (if selectedOf i S = [] then S
      else
        (let txt = multiText i S;
             hist = join (js '', '') (map (multiLabel (multiOptions i S)) (sort (selectedOf i S)));
             S1 = recordAnswer i (emit (EvHistory i hist) S);
             S2 = forgetMultiQuestion i (sendApprovalConsumed i (stRaw S i) txt S1);
             S3 = setSuppress now i (hideActionBar act i (emit (EvText i (txt @ [13])) S2))
         in emit (EvDetect i) (S3\<lparr>stMulti := (stMulti S3)(i := None)\<rparr>)))"


section \<open>An answered marker question is not asked again\<close>

text \<open>The ways to answer, and what counts as having answered: text went out to the session.\<close>

datatype answer = Choice int bool | FreeText | BatchAnswer | MultiAnswer

fun giveAnswer ::
  "(int \<Rightarrow> appState \<Rightarrow> appState) \<Rightarrow> int \<Rightarrow> bool \<Rightarrow> int \<Rightarrow> answer \<Rightarrow> store \<Rightarrow> store" where
  "giveAnswer act now dialog i (Choice n ok) S = sendChoice act now dialog i n ok S"
| "giveAnswer act now dialog i FreeText S = sendSingleFreeText act now i S"
| "giveAnswer act now dialog i BatchAnswer S = sendBatchChoices act now i S"
| "giveAnswer act now dialog i MultiAnswer S = sendMultiSelectChoices act now i S"

fun isSent :: "int \<Rightarrow> event \<Rightarrow> bool" where
  "isSent i (EvText j t) \<longleftrightarrow> i = j"
| "isSent i (EvBody j t) \<longleftrightarrow> i = j"
| "isSent i _ \<longleftrightarrow> False"

definition sent :: "int \<Rightarrow> store \<Rightarrow> event list" where
  "sent i S = filter (isSent i) (stLog S)"

text \<open>\<open>activateSession\<close> does not touch the memory of answered questions.\<close>

definition keepsAnswers :: "(int \<Rightarrow> appState \<Rightarrow> appState) \<Rightarrow> bool" where
  "keepsAnswers act \<longleftrightarrow> (\<forall>j A. asAnswered (act j A) = asAnswered A)"

lemma answered_switch: "keepsAnswers act \<Longrightarrow>
    asAnswered (maybeAutoSwitchToNextApproval act A) = asAnswered A"
  by (auto simp: maybeAutoSwitchToNextApproval_def autoSwitchLoop_dropWhile keepsAnswers_def
      split: list.splits)

lemma answered_badge [simp]: "asAnswered (badge i st A) = asAnswered A"
  by (simp add: badge_def)

lemma answered_remove [simp]: "asAnswered (removeApprovalAutoSwitchTarget i A) = asAnswered A"
  by (simp add: removeApprovalAutoSwitchTarget_def)

lemma app_simps [simp]:
  "stApp (emit e S) = stApp S" "stApp (onApp f S) = f (stApp S)"
  "stApp (sendSessionHint i v S) = stApp S" "stApp (notifyApprovalQueue S) = stApp S"
  "stApp (cacheApprovalOptions i c S) = stApp S" "stApp (clearApprovalOptions i S) = stApp S"
  "stApp (resetBgApprovalMisses i S) = stApp S" "stApp (cancelH9Revalidate i S) = stApp S"
  "stApp (clearSequentialChoiceState i S) = stApp S" "stApp (clearSingleTabState i S) = stApp S"
  "stApp (setConsumedTimer i S) = stApp S" "stApp (setSuppress now i S) = stApp S"
  "stApp (forgetMultiQuestion i S) = stApp S" "stApp (cancelApprovalHintConfirm i S) = stApp S"
  by (simp_all add: emit_def onApp_def sendSessionHint_def notifyApprovalQueue_def
      cacheApprovalOptions_def clearApprovalOptions_def resetBgApprovalMisses_def
      cancelH9Revalidate_def clearSequentialChoiceState_def clearSingleTabState_def
      setConsumedTimer_def setSuppress_def forgetMultiQuestion_def cancelApprovalHintConfirm_def)

lemma app_consumed [simp]: "stApp (sendApprovalConsumed i c t S) = stApp S"
  by (simp add: sendApprovalConsumed_def Let_def split: option.splits)

lemma raw_simps [simp]: "stRaw (emit e S) = stRaw S" "stRaw (clearSequentialChoiceState i S) = stRaw S"
  by (simp_all add: emit_def clearSequentialChoiceState_def)

lemma answered_hide:
  assumes "keepsAnswers act"
  shows "asAnswered (stApp (hideActionBar act i S)) = asAnswered (stApp S)"
  by (simp add: hideActionBar_def Let_def answered_switch [OF assms] setApprovalVisible_def)

lemma addSig_member: "length xs \<le> ANSWERED_MARKER_SIG_LIMIT \<Longrightarrow> sig \<in> set (addSig sig xs)"
  by (auto simp: addSig_def trimOldest_drop ANSWERED_MARKER_SIG_LIMIT_def)

lemma answered_after_record:
  assumes "answeredOk (stApp S)" "stRaw S i = Some c" "firstBlockSig (coBody c) \<noteq> None"
  shows "isAnsweredMarkerSig i (coBody c) (stApp (recordAnswer i S))"
proof -
  obtain sig where sig: "firstBlockSig (coBody c) = Some sig" using assms(3) by blast
  have "length (case asAnswered (stApp S) i of None \<Rightarrow> [] | Some xs \<Rightarrow> xs) \<le> ANSWERED_MARKER_SIG_LIMIT"
    using assms(1) by (auto simp: answeredOk_def split: option.splits)
  from addSig_member [OF this, of sig] sig assms(2) show ?thesis
    by (simp add: recordAnswer_def isAnsweredMarkerSig_def recordAnsweredMarkerSig_def)
qed

lemma answered_cong: "asAnswered A = asAnswered B \<Longrightarrow> isAnsweredMarkerSig i b A = isAnsweredMarkerSig i b B"
  by (simp add: isAnsweredMarkerSig_def split: option.splits)

lemma answered_closed:
  "keepsAnswers act \<Longrightarrow> isAnsweredMarkerSig i b (stApp (hideActionBar act i S)) = isAnsweredMarkerSig i b (stApp S)"
  by (intro answered_cong answered_hide)

lemma answered_closeAnswer:
  "keepsAnswers act \<Longrightarrow> isAnsweredMarkerSig i b (stApp (closeAnswer act now i S)) = isAnsweredMarkerSig i b (stApp S)"
  by (simp add: closeAnswer_def answered_closed)

text \<open>The log of what is sent, through the operations that send nothing.\<close>

lemma sent_emit [simp]: "sent i (emit e S) = sent i S @ (if isSent i e then [e] else [])"
  by (simp add: sent_def emit_def)

lemma sent_cong: "stLog S = stLog T \<Longrightarrow> sent i S = sent i T"
  by (simp add: sent_def)

lemma log_simps [simp]:
  "stLog (onApp f S) = stLog S" "stLog (resetBgApprovalMisses i S) = stLog S"
  "stLog (cancelH9Revalidate i S) = stLog S" "stLog (clearSequentialChoiceState i S) = stLog S"
  "stLog (clearSingleTabState i S) = stLog S" "stLog (setConsumedTimer i S) = stLog S"
  "stLog (setSuppress now i S) = stLog S" "stLog (forgetMultiQuestion i S) = stLog S"
  "stLog (cancelApprovalHintConfirm i S) = stLog S"
  "stLog (recordAnswer i S) = stLog S" "stLog (snd (getBatchActiveQ i k S)) = stLog S"
  "stLog (showMultiSelectActionBar i os S) = stLog S"
  by (simp_all add: onApp_def resetBgApprovalMisses_def recordAnswer_def getBatchActiveQ_def
      cancelH9Revalidate_def clearSequentialChoiceState_def clearSingleTabState_def
      setConsumedTimer_def setSuppress_def forgetMultiQuestion_def cancelApprovalHintConfirm_def
      showMultiSelectActionBar_def split: option.splits)

lemma log_batch [simp]: "stLog (showBatchActionBar i ss S) = stLog S"
  by (simp add: showBatchActionBar_def Let_def split: option.splits)

lemma log_show [simp]: "stLog (showActionBar i c S) = stLog S"
  by (simp add: showActionBar_def renderBody_def showSingleSectionBar_def barShown_def split: approvalBody.splits)

lemmas sent_logs [simp] = log_simps [THEN sent_cong] log_batch [THEN sent_cong] log_show [THEN sent_cong]

lemma sent_update [simp]:
  "sent i (S\<lparr>stSource := f1\<rparr>) = sent i S" "sent i (S\<lparr>stRaw := f2\<rparr>) = sent i S"
  "sent i (S\<lparr>stSeq := f3\<rparr>) = sent i S" "sent i (S\<lparr>stTail := f4\<rparr>) = sent i S"
  "sent i (S\<lparr>stSwitchCand := f5\<rparr>) = sent i S" "sent i (S\<lparr>stH9Misses := f6\<rparr>) = sent i S"
  "sent i (S\<lparr>stMulti := f7\<rparr>) = sent i S" "sent i (S\<lparr>stDismissed := f8\<rparr>) = sent i S"
  "sent i (S\<lparr>stConsumed := f9\<rparr>) = sent i S" "sent i (S\<lparr>stSel := f10\<rparr>) = sent i S"
  "sent i (S\<lparr>stFree := f11\<rparr>) = sent i S" "sent i (S\<lparr>stActiveQ := f12\<rparr>) = sent i S"
  "sent i (S\<lparr>stRendered := f13\<rparr>) = sent i S" "sent i (S\<lparr>stShownAt := f14\<rparr>) = sent i S"
  "sent i (S\<lparr>stBarFocus := f15\<rparr>) = sent i S" "sent i (S\<lparr>stBatchFocus := f16\<rparr>) = sent i S"
  "sent i (S\<lparr>stMultiFocus := f17\<rparr>) = sent i S" "sent i (S\<lparr>stManualHide := f18\<rparr>) = sent i S"
  "sent i (S\<lparr>stMultiQ := f19\<rparr>) = sent i S" "sent i (S\<lparr>stBanner := f20\<rparr>) = sent i S"
  by (simp_all add: sent_def)

lemma sent_store [simp]:
  "sent i (cacheApprovalOptions j c S) = sent i S" "sent i (clearApprovalOptions j S) = sent i S"
  "sent i (sendSessionHint j v S) = sent i S" "sent i (notifyApprovalQueue S) = sent i S"
  by (simp_all add: cacheApprovalOptions_def clearApprovalOptions_def sendSessionHint_def
      notifyApprovalQueue_def)

lemma sent_visible [simp]: "sent i (setApprovalVisible act j v a f S) = sent i S"
  by (simp add: setApprovalVisible_def Let_def)

lemma sent_hide [simp]: "sent i (hideActionBar act j S) = sent i S"
  by (simp add: hideActionBar_def Let_def)

lemma sent_consumed [simp]: "sent i (sendApprovalConsumed j c t S) = sent i S"
  by (simp add: sendApprovalConsumed_def Let_def split: option.splits)

lemma sent_close [simp]: "sent i (closeAnswer act now j S) = sent i S"
  by (simp add: closeAnswer_def)

lemma sent_options [simp]: "sent i (showOptions j c S) = sent i S"
  by (simp add: showOptions_def)

text \<open>Answering sends something only after recording the answer.\<close>

lemma sequential_sent_answered:
  assumes "keepsAnswers act" "answeredOk (stApp S)" "stRaw S i = Some c"
    "firstBlockSig (coBody c) \<noteq> None" "sent i (sendSequential act now i n Q S) \<noteq> sent i S"
  shows "isAnsweredMarkerSig i (coBody c) (stApp (sendSequential act now i n Q S))"
proof -
  let ?S1 = "S\<lparr>stSeq := (stSeq S)(i := Some (answerPrompt n Q))\<rparr>"
  let ?S2 = "clearSequentialChoiceState i (emit (EvHistory i (answerText (answerPrompt n Q))) ?S1)"
  have eq: "\<not> (sqIndex (answerPrompt n Q) < length (sqPrompts (answerPrompt n Q)) \<and> stHasBar S)"
    using assms(5) by (auto simp: sendSequential_def Let_def)
  have "isAnsweredMarkerSig i (coBody c) (stApp (recordAnswer i ?S2))"
    by (rule answered_after_record) (use assms(2-4) in simp_all)
  with eq show ?thesis
    by (auto simp: sendSequential_def Let_def answered_closeAnswer [OF assms(1)])
qed

lemma single_sent_answered:
  assumes "keepsAnswers act" "answeredOk (stApp S)" "stRaw S i = Some c" "firstBlockSig (coBody c) \<noteq> None"
  shows "isAnsweredMarkerSig i (coBody c) (stApp (sendSingle act now i n S))"
  using answered_after_record [of "emit e S" i c for e] assms
  by (simp add: sendSingle_def Let_def answered_closeAnswer)

lemma answer_sent_answered:
  assumes "keepsAnswers act" "answeredOk (stApp S)" "stRaw S i = Some c"
    "firstBlockSig (coBody c) \<noteq> None" "sent i (giveAnswer act now dialog i a S) \<noteq> sent i S"
  shows "isAnsweredMarkerSig i (coBody c) (stApp (giveAnswer act now dialog i a S))"
proof (cases a)
  case (Choice n ok)
  then show ?thesis
    using assms sequential_sent_answered [OF assms(1-4)] single_sent_answered [OF assms(1-4)]
    by (auto simp: sendChoice_def split: option.splits if_splits)
next
  case FreeText
  then show ?thesis
    using assms answered_after_record [of "emit e S" i c for e]
    by (auto simp: sendSingleFreeText_def Let_def answered_closed)
next
  case BatchAnswer
  then show ?thesis
    using assms answered_after_record [OF assms(2-4)]
    by (auto simp: sendBatchChoices_def Let_def answered_closed split: if_split_asm)
next
  case MultiAnswer
  then show ?thesis
    using assms answered_after_record [of "emit e S" i c for e]
    by (auto simp: sendMultiSelectChoices_def Let_def answered_closed)
qed

lemma signed_first: "goodBody b \<Longrightarrow> signedBody b \<Longrightarrow> firstBlockSig b \<noteq> None"
  by (auto simp: goodBody_def goodSingle_def signedBody_def signedBy_def firstBlockSig_def Let_def
      Suc_le_length_iff numeral_2_eq_2 neq_Nil_conv split: approvalBody.splits list.splits)


definition emptyStore :: store where
  "emptyStore = \<lparr>stApp = emptyApp, stRaw = \<lambda>_. None, stSource = \<lambda>_. None, stConsumed = \<lambda>_. None,
     stConsumedTimer = \<lambda>_. False, stSel = \<lambda>_. None, stFree = \<lambda>_. None, stActiveQ = \<lambda>_. None,
     stMulti = \<lambda>_. None, stMultiFocus = -1, stBatchFocus = -1, stBarFocus = -1, stSeq = \<lambda>_. None,
     stManualHide = \<lambda>_. None, stSingleText = \<lambda>_. None, stSingleOpen = \<lambda>_. False,
     stShownAt = \<lambda>_. False, stSwitchCand = \<lambda>_. None, stH9Misses = \<lambda>_. 0, stH9Timer = \<lambda>_. False,
     stBgMisses = \<lambda>_. 0, stBgTimer = \<lambda>_. False, stHintTimer = \<lambda>_. None, stHintTrusted = \<lambda>_. False,
     stSuppress = \<lambda>_. None, stDismissed = \<lambda>_. False, stLatch = \<lambda>_. None, stTail = \<lambda>_. None,
     stRendered = None, stMultiQ = \<lambda>_. False, stBanner = False, stRescan = \<lambda>_. False, stHasBar = True, stWsOpen = True, stLog = []\<rparr>"

definition hubExampleBlock :: jstr where
  "hubExampleBlock = join [10] hubExample"

lemma hubExample_lines: "markerLinesFromTail hubExampleBlock = hubExample"
  by code_simp

definition askedStore :: "hubParsed \<Rightarrow> store" where
  "askedStore p = emptyStore\<lparr>stRaw := (\<lambda>_. None)(1 := Some (plainCache (hpBody p)))\<rparr>"


end
