(* ===== verification/ApprovalOptions.thy ===== *)
theory ApprovalOptions
  imports ApprovalUnglue
begin

text \<open>
  \<open>src/web/src/app/approval-parser.ts\<close>, the heuristic path (\<open>extractApprovalOptions\<close> and the
  recognisers around it), and the provider classification, triggers and select-menu helpers of
  \<open>src/web/src/app/approval.ts\<close> that are used with it.
\<close>

section \<open>One option\<close>

definition shortcutRe :: rx where
  "shortcutRe = seqs [chr 40,
     RGrp 1 (alts [chr 121, chr 112, chr 110, chr 33, chr 35, chr 63, lit (js ''esc''),
                   lit (js ''escape'')]),
     chr 41, many wsCh, REol]"

definition shortcutSendText :: "jstr \<Rightarrow> jstr option" where
  "shortcutSendText label =
     (case exec True shortcutRe label of
        None \<Rightarrow> None
      | Some m \<Rightarrow>
          (let key = toLowerCase (grp m 1) in
           if key = js ''esc'' \<or> key = js ''escape'' then Some [27] else Some key))"

definition wideGapRe :: rx where "wideGapRe = seqs [atLeast 2 wsCh, many dot, REol]"

definition gluedNextRe :: rx where
  "gluedNextRe = seqs [many wsCh, many1 digit, chr 46, many wsCh,
     RCls (CC False [CRange 65 90, CRange 97 122]), many dot, REol]"

definition buildApprovalOption :: "jstr \<Rightarrow> jstr \<Rightarrow> bool \<Rightarrow> approvalOption" where
  "buildApprovalOption numText labelText isCurrent =
     (let label = trim (replace_first False gluedNextRe (\<lambda>_. [])
            (replace_first False wideGapRe (\<lambda>_. []) (trim labelText)))
      in (mkOption (parse_int numText) label isCurrent)\<lparr>oSendText := shortcutSendText label\<rparr>)"

section \<open>The cluster at the end of the screen\<close>

definition cursorOptionRe :: rx where
  "cursorOptionRe = seqs [RBol, many wsCh, anyOf [62, 10095, 8250, 10097], many wsCh,
     RGrp 1 (times 1 2 digit), chr 46, many wsCh, RGrp 2 (many1Lazy dot), many wsCh, REol]"

record exScan =
  exOpts :: "approvalOption list"
  exStart :: int
  exEnd :: int
  exSeen :: bool
  exGap :: nat
  exPend :: "jstr list"

definition exInit :: exScan where
  "exInit = \<lparr>exOpts = [], exStart = -1, exEnd = -1, exSeen = False, exGap = 0, exPend = []\<rparr>"

definition consumeContinuations :: "exScan \<Rightarrow> jstr \<Rightarrow> jstr" where
  "consumeContinuations S label =
     (if exPend S = [] then label
      else trim (squash_ws (label @ [32] @ join [32] (rev (exPend S)))))"

definition takeOption :: "int \<Rightarrow> rmatch \<Rightarrow> bool \<Rightarrow> exScan \<Rightarrow> exScan" where
  "takeOption i m cur S =
     S\<lparr>exOpts := buildApprovalOption (grp m 1) (consumeContinuations S (grp m 2)) cur # exOpts S,
       exPend := [], exEnd := (if exEnd S = -1 then i else exEnd S), exStart := i,
       exSeen := True, exGap := 0\<rparr>"

definition maxBlankGap :: nat where "maxBlankGap = 4"

text \<open>The loop from the last line to the first; a \<open>break\<close> returns the state.\<close>

fun exLoop :: "(nat \<times> jstr) list \<Rightarrow> exScan \<Rightarrow> exScan" where
  "exLoop [] S = S"
| "exLoop ((i, line) # ls) S =
     (case exec False cursorOptionRe line of
        Some cm \<Rightarrow> exLoop ls (takeOption (int i) cm True S)
      | None \<Rightarrow>
          (case exec False numberedLineRe line of
             Some om \<Rightarrow> exLoop ls (takeOption (int i) om False S)
           | None \<Rightarrow>
               if \<not> exSeen S then exLoop ls S
               else if trim line = [] then
                 (if maxBlankGap < Suc (exGap S) then S\<lparr>exGap := Suc (exGap S)\<rparr>
                  else exLoop ls (S\<lparr>exGap := Suc (exGap S), exPend := []\<rparr>))
               else if exGap S = 0 then exLoop ls (S\<lparr>exPend := exPend S @ [trim line]\<rparr>)
               else S))"

definition optionKey :: "approvalOption \<Rightarrow> jstr" where
  "optionKey a = num_str (oNum a) @ [58] @ oLabel a"

fun uniqueOptions :: "jstr list \<Rightarrow> approvalOption list \<Rightarrow> approvalOption list" where
  "uniqueOptions seen [] = []"
| "uniqueOptions seen (a # as) =
     (if List.member seen (optionKey a) then uniqueOptions seen as
      else a # uniqueOptions (optionKey a # seen) as)"

definition freePickerRe :: rx where
  "freePickerRe = seqs [RBol, many wsCh, RAlt (lit (js ''type something'')) (lit (js ''chat about''))]"

record extracted =
  exOptions :: "approvalOption list"
  exCluster :: "(int \<times> int) option"
  exLines :: "jstr list"

definition extractApprovalOptions :: "jstr list \<Rightarrow> extracted" where
  "extractApprovalOptions rawTail =
     (let tl' = ungluedApprovalLines rawTail;
          none = \<lparr>exOptions = [], exCluster = None, exLines = tl'\<rparr>;
          S = exLoop (rev (enumerate 0 tl')) exInit;
          nums = map oNum (exOpts S)
      in if exOpts S = [] then none
         else (let numMin = foldr min nums (hd nums); numMax = foldr max nums (hd nums) in
           if 20 < numMax \<or> 15 < numMax - numMin \<or> 12 < length (exOpts S) then none
           else (let u = uniqueOptions [] (exOpts S) in
             if length u < 2 then none
             else if list_ex (\<lambda>a. test True freePickerRe (oLabel a)) u then none
             else \<lparr>exOptions = u, exCluster = Some (exStart S, exEnd S), exLines = tl'\<rparr>)))"

definition approvalContextLines :: "jstr list \<Rightarrow> (int \<times> int) option \<Rightarrow> int \<Rightarrow> jstr list" where
  "approvalContextLines lns cluster margin =
     (case cluster of
        None \<Rightarrow> lns
      | Some (a, b) \<Rightarrow> slice lns (max 0 (a - margin)) (min (int (length lns)) (b + margin + 1)))"

section \<open>Hints\<close>

definition nativeTriggers :: "string list" where
  "nativeTriggers = [''requires approval'', ''would you like to run the following command'',
     ''would you like to run'', ''do you want to proceed?'', ''this command requires approval'',
     ''permission required'', ''permissions required'', ''requires permission'',
     ''requires confirmation'', ''prompts for user confirmation'', ''allow all similar'',
     ''deny all similar'']"

definition matchNativeApprovalTrigger :: "jstr \<Rightarrow> bool" where
  "matchNativeApprovalTrigger line =
     (let lower = toLowerCase line; has = (\<lambda>s. str_includes lower (js s)) in
      line \<noteq> [] \<and>
      (list_ex has nativeTriggers
       \<or> (has ''press enter to confirm'' \<and> \<not> has ''esc to go back'')
       \<or> has ''enter to select''
       \<or> str_includes lower ([8593, 47, 8595] @ js '' to navigate'')
       \<or> has ''esc to cancel''))"

definition approvalLineHasHint :: "('p \<Rightarrow> jstr \<Rightarrow> bool) \<Rightarrow> 'p \<Rightarrow> jstr \<Rightarrow> bool" where
  "approvalLineHasHint matchProvider provider line \<longleftrightarrow>
     test True userSpecifiesRe line \<or> test True recommendedChoiceRe line
     \<or> matchProvider provider line \<or> matchNativeApprovalTrigger line"

definition approvalLinesHaveHint :: "('p \<Rightarrow> jstr \<Rightarrow> bool) \<Rightarrow> 'p \<Rightarrow> jstr list \<Rightarrow> bool" where
  "approvalLinesHaveHint matchProvider provider lns =
     list_ex (approvalLineHasHint matchProvider provider) lns"

definition isHubChoicePrompt :: "jstr list \<Rightarrow> approvalOption list \<Rightarrow> bool" where
  "isHubChoicePrompt contextLines os =
     (if os = [] then False
      else list_ex (test True hubChoiceQuestionRe) contextLines
        \<and> (list_ex (test True userSpecifiesRe) contextLines
           \<or> list_ex (\<lambda>a. test True userSpecifiesRe (oLabel a) \<or> test True recommendedChoiceRe (oLabel a)) os))"

text \<open>The index of the option that \<open>markHubChoiceDefault\<close> marks, and the options after it.\<close>

fun findIndex :: "('a \<Rightarrow> bool) \<Rightarrow> 'a list \<Rightarrow> nat option" where
  "findIndex P [] = None"
| "findIndex P (x # xs) = (if P x then Some 0 else map_option Suc (findIndex P xs))"

definition hubDefault :: "approvalOption list \<Rightarrow> nat" where
  "hubDefault os =
     (case findIndex (\<lambda>a. test True recommendedChoiceRe (oLabel a)) os of
        Some i \<Rightarrow> i
      | None \<Rightarrow> (case findIndex (\<lambda>a. oNum a = 1) os of Some i \<Rightarrow> i | None \<Rightarrow> 0))"

definition markHubChoiceDefault :: "approvalOption list \<Rightarrow> jstr list \<Rightarrow> approvalOption list" where
  "markHubChoiceDefault os contextLines =
     (if list_ex oCurrent os \<or> \<not> isHubChoicePrompt contextLines os then os
      else os[hubDefault os := (os ! hubDefault os)\<lparr>oCurrent := True\<rparr>])"

definition hasApprovalLikeLabel :: "approvalOption list \<Rightarrow> bool" where
  "hasApprovalLikeLabel os = list_ex (\<lambda>a. test True approvalLabelRe (oLabel a)) os"

section \<open>Providers and their triggers\<close>

text \<open>
  The trigger table is loaded over HTTP from files of the user: it is a parameter of the model.
  \<open>common\<close> and the table of the provider are lists of lower-case strings.
\<close>

definition isAIProvider :: "jstr \<Rightarrow> bool" where
  "isAIProvider provider = list_ex (\<lambda>s. provider = js s)
     [''claude'', ''codex'', ''copilot'', ''cursor-agent'', ''opencode'', ''grok'']"

definition isShellProvider :: "jstr \<Rightarrow> bool" where
  "isShellProvider provider \<longleftrightarrow> provider = js ''shell''"

definition shouldSkipClearPrefix :: "jstr \<Rightarrow> bool" where
  "shouldSkipClearPrefix provider \<longleftrightarrow> provider = js ''shell'' \<or> provider = js ''codex''"

definition isCodexModelSelectorHint :: "jstr \<Rightarrow> bool" where
  "isCodexModelSelectorHint lower \<longleftrightarrow>
     list_ex (\<lambda>s. str_includes lower (js s))
       [''select model'', ''select effort'', ''model and effort'', ''reasoning effort'', ''esc to go back'']
     \<or> str_includes lower ([8593, 47, 8595] @ js '' to change'') \<or> str_includes lower (js ''arrow keys'')"

definition isOpenCodeModelSelectorHint :: "jstr \<Rightarrow> bool" where
  "isOpenCodeModelSelectorHint lower = list_ex (\<lambda>s. str_includes lower (js s))
     [''select model'', ''connect provider'', ''favorite ctrl+f'', ''opencode zen'', ''ollama (local)'']"

definition isModelSelectorHint :: "jstr \<Rightarrow> jstr \<Rightarrow> bool" where
  "isModelSelectorHint provider lower =
     (if provider = js ''codex'' then isCodexModelSelectorHint lower
      else if provider = js ''opencode'' then isOpenCodeModelSelectorHint lower
      else False)"

definition matchProviderApprovalTrigger ::
  "(jstr \<Rightarrow> jstr list) \<Rightarrow> jstr list \<Rightarrow> jstr \<Rightarrow> jstr \<Rightarrow> bool" where
  "matchProviderApprovalTrigger triggers common provider line =
     (let lower = toLowerCase line in
      if line = [] then False
      else if isModelSelectorHint provider lower then False
      else list_ex (str_includes lower) (triggers provider) \<or> list_ex (str_includes lower) common)"

definition isModelSelectorContext :: "jstr \<Rightarrow> jstr list \<Rightarrow> bool" where
  "isModelSelectorContext provider lns =
     (let text = join [10] (map toLowerCase lns); has = (\<lambda>s. str_includes text (js s)) in
      if provider = js ''codex'' then
        has ''select model'' \<or> has ''select effort'' \<or> has ''model and effort''
        \<or> has ''reasoning effort''
        \<or> ((has ''gpt-'' \<or> has ''effort'') \<and> (has ''esc to go back'' \<or> has ''press enter to confirm''))
      else if provider = js ''opencode'' then
        has ''select model''
        \<and> (has ''connect provider'' \<or> has ''favorite'' \<or> has ''opencode zen''
           \<or> has ''ollama (local)'' \<or> has ''recent'')
      else False)"

section \<open>Select menus\<close>

definition menuOptionRe :: rx where
  "menuOptionRe = seqs [RBol, opt (anyOf [62, 10095, 8250, 10097]), many wsCh, times 1 2 digit,
     chr 46, wsCh]"

definition sentenceEndRe :: rx where
  "sentenceEndRe = seqs [anyOf [46, 12290], many wsCh, REol]"

text \<open>The lines above the cluster, nearest first.\<close>

fun menuTitle :: "jstr list \<Rightarrow> jstr option" where
  "menuTitle [] = None"
| "menuTitle (l # ls) =
     (let ln = trim l in
      if ln = [] then menuTitle ls
      else if test False menuOptionRe ln then menuTitle ls
      else if matchNativeApprovalTrigger ln then menuTitle ls
      else if 40 < length ln \<and> test False sentenceEndRe ln then menuTitle ls
      else Some (slice (replace_first False wideGapRe (\<lambda>_. []) ln) 0 60))"

definition extractSelectMenuTitle :: "jstr list \<Rightarrow> (int \<times> int) option \<Rightarrow> jstr option" where
  "extractSelectMenuTitle lns cluster =
     (case cluster of
        None \<Rightarrow> None
      | Some (a, b) \<Rightarrow> menuTitle (rev (slice lns (max 0 (a - 8)) (max 0 a))))"

section \<open>What the heuristic path returns\<close>

definition exInv :: "nat \<Rightarrow> nat \<Rightarrow> exScan \<Rightarrow> bool" where
  "exInv n N S \<longleftrightarrow>
     (if exOpts S = [] then exEnd S = -1
      else int n \<le> exStart S \<and> exStart S \<le> exEnd S \<and> exEnd S < int N)"

lemma exInv_take: "exInv (Suc n) N S \<Longrightarrow> n < N \<Longrightarrow> exInv n N (takeOption (int n) m c S)"
  by (auto simp: exInv_def takeOption_def split: if_splits)

lemma exInv_skip:
  "exInv (Suc n) N S \<Longrightarrow> exInv n N S"
  "exInv n N (S\<lparr>exGap := g\<rparr>) = exInv n N S"
  "exInv n N (S\<lparr>exPend := q\<rparr>) = exInv n N S"
  by (auto simp: exInv_def)

lemma exInv_0: "exInv n N S \<Longrightarrow> exInv 0 N S"
  by (auto simp: exInv_def)

lemma exLoop_inv:
  "exInv (length ls) N S \<Longrightarrow> length ls \<le> N \<Longrightarrow> exInv 0 N (exLoop (rev (enumerate 0 ls)) S)"
proof (induction ls arbitrary: S rule: rev_induct)
  case (snoc l ls)
  let ?n = "length ls"
  have e: "rev (enumerate 0 (ls @ [l])) = (?n, l) # rev (enumerate 0 ls)"
    by (simp add: enumerate_append_eq)
  have inv: "exInv (Suc ?n) N S" "?n < N" "?n \<le> N" using snoc.prems by auto
  note IH = snoc.IH [OF _ inv(3)]
  have S: "exInv ?n N S" by (rule exInv_skip(1) [OF inv(1)])
  have T: "exInv ?n N (takeOption (int ?n) m c S)" for m c
    by (rule exInv_take [OF inv(1,2)])
  have G: "exInv 0 N (exLoop (rev (enumerate 0 ls)) (S\<lparr>exGap := g, exPend := q\<rparr>))" for g q
    by (rule IH) (simp add: exInv_skip S)
  have P: "exInv 0 N (exLoop (rev (enumerate 0 ls)) (S\<lparr>exPend := q\<rparr>))" for q
    by (rule IH) (simp add: exInv_skip S)
  have Z: "exInv 0 N S" "exInv 0 N (S\<lparr>exGap := g\<rparr>)" for g
    using exInv_0 [OF S] by (simp_all add: exInv_skip)
  show ?case
  proof (cases "exec False cursorOptionRe l")
    case (Some m)
    then show ?thesis unfolding e exLoop.simps using IH [OF T] by simp
  next
    case c: None
    show ?thesis
    proof (cases "exec False numberedLineRe l")
      case (Some m)
      with c show ?thesis unfolding e exLoop.simps using IH [OF T] by simp
    next
      case None
      with c show ?thesis
        unfolding e exLoop.simps
        by (simp only: option.case if_split) (intro conjI impI IH [OF S] G P Z)
    qed
  qed
qed simp

lemma uniqueOptions_keys:
  "distinct (map optionKey (uniqueOptions seen as))
   \<and> optionKey ` set (uniqueOptions seen as) \<inter> set seen = {}"
  by (induction seen as rule: uniqueOptions.induct) auto

lemma uniqueOptions_sub: "set (uniqueOptions seen as) \<subseteq> set as"
  by (induction seen as rule: uniqueOptions.induct) auto

lemma uniqueOptions_length: "length (uniqueOptions seen as) \<le> length as"
  by (induction seen as rule: uniqueOptions.induct) auto

lemma foldr_max: "x \<in> set ns \<Longrightarrow> x \<le> foldr max ns (a :: int)"
  by (induction ns) auto

lemma foldr_min: "x \<in> set ns \<Longrightarrow> foldr min ns (a :: int) \<le> x"
  by (induction ns) auto

definition usableOptions :: "extracted \<Rightarrow> bool" where
  "usableOptions r \<longleftrightarrow>
     2 \<le> length (exOptions r) \<and> length (exOptions r) \<le> 12
     \<and> distinct (map optionKey (exOptions r))
     \<and> (\<forall>a \<in> set (exOptions r). oNum a \<le> 20 \<and> \<not> test True freePickerRe (oLabel a))
     \<and> (\<forall>a \<in> set (exOptions r). \<forall>b \<in> set (exOptions r). oNum a - oNum b \<le> 15)
     \<and> (\<exists>i j. exCluster r = Some (i, j) \<and> 0 \<le> i \<and> i \<le> j \<and> j < int (length (exLines r)))"

text \<open>
  C35: Whatever the screen holds, the heuristic recogniser returns either no option and no cluster,
  or 2 to 12 options that differ in number or label, with numbers at most 20 and at most 15
  apart, none of them a free-text entry of a native picker, together with the range of lines they
  were found in, which lies inside the lines it returns; those are always the restored lines.
\<close>

theorem extracted_options_usable:
  "exLines (extractApprovalOptions t) = ungluedApprovalLines t
   \<and> ((exOptions (extractApprovalOptions t) = [] \<and> exCluster (extractApprovalOptions t) = None)
      \<or> usableOptions (extractApprovalOptions t))"
proof -
  define ls where "ls = ungluedApprovalLines t"
  define S where "S = exLoop (rev (enumerate 0 ls)) exInit"
  define nums where "nums = map oNum (exOpts S)"
  define u where "u = uniqueOptions [] (exOpts S)"
  let ?none = "\<lparr>exOptions = [], exCluster = None, exLines = ls\<rparr>"
  let ?some = "\<lparr>exOptions = u, exCluster = Some (exStart S, exEnd S), exLines = ls\<rparr>"
  have inv: "exInv 0 (length ls) S"
    unfolding S_def by (rule exLoop_inv) (simp_all add: exInv_def exInit_def)
  have eq: "extractApprovalOptions t =
      (if exOpts S = [] \<or> 20 < foldr max nums (hd nums)
          \<or> 15 < foldr max nums (hd nums) - foldr min nums (hd nums) \<or> 12 < length (exOpts S)
          \<or> length u < 2 \<or> list_ex (\<lambda>a. test True freePickerRe (oLabel a)) u
       then ?none else ?some)"
    unfolding extractApprovalOptions_def Let_def ls_def S_def nums_def u_def by simp
  have n: "oNum a \<in> set nums" if "a \<in> set u" for a
    using that uniqueOptions_sub [of "[]" "exOpts S"] by (auto simp: u_def nums_def)
  have ok: "usableOptions ?some"
    if c: "exOpts S \<noteq> []" "foldr max nums (hd nums) \<le> 20"
      "foldr max nums (hd nums) - foldr min nums (hd nums) \<le> 15" "length (exOpts S) \<le> 12"
      "2 \<le> length u" "\<not> list_ex (\<lambda>a. test True freePickerRe (oLabel a)) u"
  proof -
    have "length u \<le> 12" using uniqueOptions_length [of "[]" "exOpts S"] c(4) by (simp add: u_def)
    moreover have "oNum a \<le> 20" if "a \<in> set u" for a
      using foldr_max [OF n [OF that], of "hd nums"] c(2) by simp
    moreover have "oNum a - oNum b \<le> 15" if "a \<in> set u" "b \<in> set u" for a b
      using foldr_max [OF n [OF that(1)], of "hd nums"] foldr_min [OF n [OF that(2)], of "hd nums"] c(3)
      by simp
    moreover have "0 \<le> exStart S \<and> exStart S \<le> exEnd S \<and> exEnd S < int (length ls)"
      using inv c(1) by (simp add: exInv_def)
    ultimately show ?thesis
      using c(5,6) uniqueOptions_keys [of "[]" "exOpts S"]
      by (auto simp: usableOptions_def u_def list_ex_iff)
  qed
  show ?thesis
    unfolding eq using ok by (auto simp: ls_def not_less)
qed

text \<open>
  A wrapped label is joined again, except that of the last option: the lines below it come first
  in the backward loop and are skipped before any option has been seen.
\<close>

lemma extracted_example:
  "map (\<lambda>a. (oNum a, oLabel a, oCurrent a)) (exOptions (extractApprovalOptions
     (map js [''Do you want to proceed?'', ''> 1. Yes, and do'', ''not ask'', ''  2. No, and tell'', ''me why''])))
   = [(1, js ''Yes, and do not ask'', True), (2, js ''No, and tell'', False)]"
  by code_simp

section \<open>The default of a hub choice\<close>

lemma findIndex_less: "findIndex P xs = Some i \<Longrightarrow> i < length xs"
  by (induction xs arbitrary: i) (auto split: if_splits)

lemma hubDefault_less: "os \<noteq> [] \<Longrightarrow> hubDefault os < length os"
  by (auto simp: hubDefault_def split: option.splits dest: findIndex_less)

lemma count_update:
  "\<forall>a \<in> set os. \<not> P a \<Longrightarrow> i < length os \<Longrightarrow> P b \<Longrightarrow> length (filter P (os[i := b])) = 1"
proof (induction os arbitrary: i)
  case (Cons a os)
  then show ?case by (cases i) (auto simp: filter_empty_conv)
qed simp

text \<open>
  Choosing a default touches only the flag of one option: it never adds, drops, reorders or
  relabels options, leaves the flags alone when one is already set or the context is not a hub
  choice, and otherwise leaves exactly one option preselected.
\<close>

theorem hub_default_unique:
  "map (\<lambda>a. a\<lparr>oCurrent := False\<rparr>) (markHubChoiceDefault os ctx) = map (\<lambda>a. a\<lparr>oCurrent := False\<rparr>) os
   \<and> length (filter oCurrent (markHubChoiceDefault os ctx)) =
       (if list_ex oCurrent os then length (filter oCurrent os)
        else if isHubChoicePrompt ctx os then 1 else 0)"
proof (cases "list_ex oCurrent os \<or> \<not> isHubChoicePrompt ctx os")
  case True
  then show ?thesis by (auto simp: markHubChoiceDefault_def list_ex_iff filter_empty_conv)
next
  case False
  then have ne: "os \<noteq> []" by (auto simp: isHubChoicePrompt_def)
  note i = hubDefault_less [OF ne]
  have "length (filter oCurrent (os[hubDefault os := (os ! hubDefault os)\<lparr>oCurrent := True\<rparr>])) = 1"
    using False i by (intro count_update) (auto simp: list_ex_iff)
  moreover have "map (\<lambda>a. a\<lparr>oCurrent := False\<rparr>) (os[hubDefault os := (os ! hubDefault os)\<lparr>oCurrent := True\<rparr>])
      = map (\<lambda>a. a\<lparr>oCurrent := False\<rparr>) os"
    using i by (simp add: map_update list_update_same_conv)
  ultimately show ?thesis using False by (simp add: markHubChoiceDefault_def)
qed

end
