(* ===== verification/ApprovalDetect.thy ===== *)
theory ApprovalDetect
  imports ApprovalAnswer ApprovalOptions
begin

text \<open>
  \<open>src/web/src/app/approval.ts\<close>: the two detectors. \<open>trackApprovalHintFromChunk\<close> runs for every
  chunk of output of any session, \<open>detectApproval\<close> for the active session. Each is a chain of
  recognisers (multiple-question screens, marker blocks, yes/no lines, sequential prompts, the
  heuristic options); every stage of the chain is a definition of its own.
\<close>

section \<open>What the detectors read\<close>

text \<open>
  The session and its terminal widget as they are read: provider, whether the widget was attached,
  its rows (0 when unknown), the lines of its buffer, the clock, and the trigger tables.
\<close>

record env =
  enProvider :: jstr
  enAttached :: bool
  enRows :: nat
  enScreen :: "jstr list"
  enNow :: int
  enTriggers :: "jstr \<Rightarrow> jstr list"
  enCommon :: "jstr list"

definition lastN :: "nat \<Rightarrow> 'a list \<Rightarrow> 'a list" where
  "lastN n xs = drop (length xs - n) xs"

definition APPROVAL_PENDING_TEXT_TAIL_LIMIT :: nat where
  "APPROVAL_PENDING_TEXT_TAIL_LIMIT = 12000"

definition tailOf :: "int \<Rightarrow> store \<Rightarrow> jstr" where
  "tailOf i S = (case stTail S i of None \<Rightarrow> [] | Some t \<Rightarrow> t)"

definition tailLines :: "nat \<Rightarrow> jstr \<Rightarrow> jstr list" where
  "tailLines n t = map stripAnsiAll (lastN n (splitLines t))"

definition multiQuestionScanCount :: "env \<Rightarrow> nat" where
  "multiQuestionScanCount E = max 40 (enRows E)"

definition bufferCount :: "env \<Rightarrow> nat" where
  "bufferCount E = max 120 ((if enRows E = 0 then 40 else enRows E) + 60)"

definition MULTIQ_GRACE_MS :: int where "MULTIQ_GRACE_MS = 2000"

definition multiQuestionRecentlyLive :: "env \<Rightarrow> int \<Rightarrow> store \<Rightarrow> bool" where
  "multiQuestionRecentlyLive E i S \<longleftrightarrow>
     enNow E - (case stLatch S i of None \<Rightarrow> 0 | Some t \<Rightarrow> t) < MULTIQ_GRACE_MS"

definition providerTrigger :: "env \<Rightarrow> jstr \<Rightarrow> bool" where
  "providerTrigger E line = matchProviderApprovalTrigger (enTriggers E) (enCommon E) (enProvider E) line"

definition linesHaveHint :: "env \<Rightarrow> jstr list \<Rightarrow> bool" where
  "linesHaveHint E lns = approvalLinesHaveHint (matchProviderApprovalTrigger (enTriggers E) (enCommon E))
     (enProvider E) lns"

definition hasCachedApproval :: "int \<Rightarrow> store \<Rightarrow> bool" where
  "hasCachedApproval i S \<longleftrightarrow> visibleOf S i
     \<and> (case stRaw S i of None \<Rightarrow> False | Some c \<Rightarrow> \<not> emptyBody (coBody c))"

definition suppressed :: "env \<Rightarrow> int \<Rightarrow> store \<Rightarrow> bool" where
  "suppressed E i S = (case stSuppress S i of None \<Rightarrow> False | Some u \<Rightarrow> u \<noteq> 0 \<and> enNow E < u)"

definition scheduleApprovalSuppressRescan :: "int \<Rightarrow> store \<Rightarrow> store" where
  "scheduleApprovalSuppressRescan i S = S\<lparr>stRescan := (stRescan S)(i := True)\<rparr>"

definition setMultiQuestionBannerVisible :: "bool \<Rightarrow> store \<Rightarrow> store" where
  "setMultiQuestionBannerVisible v S = S\<lparr>stBanner := v\<rparr>"

definition showBanner :: "int \<Rightarrow> bool \<Rightarrow> store \<Rightarrow> store" where
  "showBanner i v S = (if activeOf S = Some i then setMultiQuestionBannerVisible v S else S)"

text \<open>The close button of the banner.\<close>

definition dismissMultiQuestion :: "(int \<Rightarrow> appState \<Rightarrow> appState) \<Rightarrow> store \<Rightarrow> store" where
  "dismissMultiQuestion act S =
     (case activeOf S of
        None \<Rightarrow> setMultiQuestionBannerVisible False S
      | Some i \<Rightarrow>
          (let S1 = setMultiQuestionBannerVisible False
                 (S\<lparr>stDismissed := (stDismissed S)(i := True), stMultiQ := (stMultiQ S)(i := False),
                    stLatch := (stLatch S)(i := None)\<rparr>)
           in if visibleOf S1 i \<and> \<not> hasCachedApproval i S1
              then setApprovalVisible act i False True False S1 else S1))"

section \<open>Options of the heuristic path\<close>

text \<open>Options, the lines they were found in, and their cluster.\<close>

record found =
  fdOptions :: "approvalOption list"
  fdLines :: "jstr list"
  fdCluster :: "(int \<times> int) option"

definition extractIn :: "jstr list \<Rightarrow> found" where
  "extractIn lns = (let x = extractApprovalOptions lns in
     \<lparr>fdOptions = exOptions x, fdLines = exLines x, fdCluster = exCluster x\<rparr>)"

definition bufferIsBetter :: "approvalOption list \<Rightarrow> approvalOption list \<Rightarrow> bool" where
  "bufferIsBetter os bufOpts \<longleftrightarrow> length os < length bufOpts
     \<or> (\<not> list_ex oCurrent os \<and> list_ex oCurrent bufOpts \<and> length os \<le> length bufOpts)"

definition maxNum :: "approvalOption list \<Rightarrow> int" where
  "maxNum os = foldr max (map oNum os) (oNum (hd os))"

definition addMissingOptions :: "approvalOption list \<Rightarrow> approvalOption list \<Rightarrow> approvalOption list" where
  "addMissingOptions os bufOpts =
     sort_key oNum (foldl (\<lambda>acc b. if list_ex (\<lambda>a. oNum a = oNum b) acc then acc else acc @ [b]) os bufOpts)"

definition completeFromBuffer :: "found \<Rightarrow> found \<Rightarrow> found" where
  "completeFromBuffer F B =
     (let os = fdOptions F; bo = fdOptions B in
      if os \<noteq> [] \<and> \<not> list_ex (\<lambda>a. oNum a = 1) os \<and> bo \<noteq> [] \<and> maxNum bo = maxNum os
      then B\<lparr>fdOptions := addMissingOptions os bo\<rparr> else F)"

definition trackOptions :: "env \<Rightarrow> int \<Rightarrow> jstr list \<Rightarrow> store \<Rightarrow> found" where
  "trackOptions E i lns S =
     (let F = extractIn lns;
          allow = visibleOf S i \<or> fdOptions F \<noteq> [] \<or> linesHaveHint E lns
      in if \<not> (enAttached E \<and> allow) then F
         else
           (let B = extractIn (lastN (bufferCount E) (enScreen E));
                F1 = (if bufferIsBetter (fdOptions F) (fdOptions B) then B else F)
            in completeFromBuffer F1 B))"

definition detectBuffer :: "env \<Rightarrow> int \<Rightarrow> jstr list \<Rightarrow> store \<Rightarrow> jstr list" where
  "detectBuffer E i tl' S =
     (if stTail S i \<noteq> None \<and> (visibleOf S i \<or> fdOptions (extractIn tl') \<noteq> [] \<or> linesHaveHint E tl')
         \<and> activeOf S = Some i
      then lastN (bufferCount E) (enScreen E) else [])"

definition detectOptions :: "env \<Rightarrow> int \<Rightarrow> jstr list \<Rightarrow> store \<Rightarrow> found" where
  "detectOptions E i tl' S =
     (let F = extractIn tl'; buf = detectBuffer E i tl' S; B = extractIn buf;
          F1 = (if buf \<noteq> [] \<and> bufferIsBetter (fdOptions F) (fdOptions B)
                then B\<lparr>fdOptions := sort_key oNum (fdOptions B)\<rparr> else F)
      in if stTail S i \<noteq> None then completeFromBuffer F1 B else F1)"

text \<open>The shorter label expression of \<open>detectApproval\<close>.\<close>

definition detectLabelRe :: rx where
  "detectLabelRe = seqs [RWordB, alts [lit (js ''yes''), lit (js ''no''), lit (js ''allow''),
     lit (js ''deny''), lit (js ''proceed''), lit (js ''abort''),
     seqs [lit (js ''don''), anyOf [39], lit (js ''t ask'')], lit (js ''cancel'')], RWordB]"

definition nativePromptHint :: "env \<Rightarrow> jstr list \<Rightarrow> bool" where
  "nativePromptHint E ctx \<longleftrightarrow> \<not> isModelSelectorContext (enProvider E) ctx
     \<and> list_ex (\<lambda>l. \<not> str_includes (toLowerCase l) (js ''esc to go back'')
          \<and> (providerTrigger E l \<or> matchNativeApprovalTrigger l)) ctx"

definition shortcutMenu :: "env \<Rightarrow> approvalOption list \<Rightarrow> bool \<Rightarrow> bool" where
  "shortcutMenu E os native \<longleftrightarrow>
     list_ex (\<lambda>p. enProvider E = js p) [''codex'', ''copilot'', ''cursor-agent'', ''opencode'', ''grok'']
     \<and> list_ex (\<lambda>a. oSendText a \<noteq> None) os \<and> native"

definition userSpecifies :: "approvalOption list \<Rightarrow> jstr list \<Rightarrow> bool" where
  "userSpecifies os ctx \<longleftrightarrow> (os \<noteq> [] \<and> test True userSpecifiesRe (oLabel (last os)))
     \<or> list_ex (test True userSpecifiesRe) ctx"

section \<open>Chunks of output\<close>

text \<open>A trusted detection: remember the options, mark the confirmation as trusted, schedule it.\<close>

definition trustedFound :: "int \<Rightarrow> approvalBody \<Rightarrow> store \<Rightarrow> store" where
  "trustedFound i b S =
     (if stConsumed S i = Some (approvalSig b) then setConsumedTimer i S
      else
        (let S1 = S\<lparr>stConsumedTimer := (stConsumedTimer S)(i := False), stConsumed := (stConsumed S)(i := None)\<rparr>;
             S2 = cacheApprovalOptions i (plainCache b) S1
         in scheduleApprovalHintConfirm i b (S2\<lparr>stHintTrusted := (stHintTrusted S2)(i := True)\<rparr>)))"

definition fromHubMarker :: "int \<Rightarrow> approvalBody \<Rightarrow> store \<Rightarrow> bool" where
  "fromHubMarker i b S \<longleftrightarrow>
     (case stSource S i of None \<Rightarrow> False
      | Some src \<Rightarrow> srcSource src = js ''hub_marker'' \<and> srcSig src = approvalSig b)"

text \<open>What the fallback decided: whether a prompt is there, and the options to cache.\<close>

record prompt =
  prOptions :: "approvalOption list"
  prVisible :: bool
  prSelectMenu :: bool

definition trackPrompt :: "env \<Rightarrow> int \<Rightarrow> jstr list \<Rightarrow> store \<Rightarrow> prompt" where
  "trackPrompt E i lns S =
     (let F = trackOptions E i lns S;
          ctx = approvalContextLines (fdLines F) (fdCluster F) 10;
          os = markHubChoiceDefault (fdOptions F) ctx;
          cursor = list_ex oCurrent os;
          native = nativePromptHint E ctx;
          shortcut = shortcutMenu E os native;
          near = (cursor \<or> shortcut) \<and>
            ((hasApprovalLikeLabel os \<and> (userSpecifies os ctx
                \<or> list_ex (\<lambda>l. providerTrigger E l \<or> matchNativeApprovalTrigger l) ctx))
             \<or> isHubChoicePrompt ctx os);
          menuHint = (cursor \<or> shortcut) \<and> os \<noteq> [] \<and> native;
          selectMenu = menuHint \<and> \<not> near \<and> cursor \<and> \<not> shortcut
      in \<lparr>prOptions = os, prVisible = ((os \<noteq> [] \<and> near) \<or> menuHint) \<and> \<not> selectMenu, prSelectMenu = selectMenu\<rparr>)"

text \<open>\<open>tagSelectMenuOptions\<close>: the flag of a select menu, as part of what would be cached.\<close>

definition tagSelectMenuOptions :: "prompt \<Rightarrow> cached" where
  "tagSelectMenuOptions P = (plainCache (Single (prOptions P)))\<lparr>coMenu := prSelectMenu P \<and> prOptions P \<noteq> []\<rparr>"

definition differsFromCached :: "int \<Rightarrow> approvalOption list \<Rightarrow> store \<Rightarrow> bool" where
  "differsFromCached i os S \<longleftrightarrow>
     (case stRaw S i of None \<Rightarrow> False
      | Some c \<Rightarrow> \<not> emptyBody (coBody c) \<and> \<not> isBatchOptions (coBody c)
          \<and> approvalSig (coBody c) \<noteq> approvalSig (Single os))"

definition trackHidden :: "int \<Rightarrow> store \<Rightarrow> store" where
  "trackHidden i S =
     (let trusted = stHintTrusted S i;
          S1 = (if \<not> trusted then cancelApprovalHintConfirm i S else S);
          S2 = (if \<not> visibleOf S1 i \<and> \<not> trusted then clearApprovalOptions i S1 else S1)
      in if activeOf S2 \<noteq> Some i \<and> visibleOf S2 i \<and> \<not> trusted
         then trackBgApprovalMiss i (tailLines 80 (tailOf i S2)) S2 else S2)"

definition trackFallback :: "env \<Rightarrow> int \<Rightarrow> jstr list \<Rightarrow> store \<Rightarrow> store" where
  "trackFallback E i lns S =
     (let P = trackPrompt E i lns S; os = prOptions P in
      if \<not> prVisible P then trackHidden i S
      else if stConsumed S i = Some (approvalSig (Single os)) then setConsumedTimer i S
      else
        (let S1 = resetBgApprovalMisses i S;
             S2 = (if visibleOf S1 i \<and> differsFromCached i os S1 then S1
                   else cacheApprovalOptions i (tagSelectMenuOptions P) S1)
         in if \<not> visibleOf S2 i then scheduleApprovalHintConfirm i (Single os) S2 else S2))"

definition trackSequential :: "env \<Rightarrow> int \<Rightarrow> jstr list \<Rightarrow> jstr list \<Rightarrow> store \<Rightarrow> store" where
  "trackSequential E i lns ctx S =
     (let prompts = extractSequentialChoicePrompts ctx;
          (Q, S1) = getSequentialChoiceState i prompts S
      in case Q of
           Some q \<Rightarrow>
             (let c = sequentialChoiceOptionsForState q in
              scheduleApprovalHintConfirm i (coBody c) (cacheApprovalOptions i c S1))
         | None \<Rightarrow>
             (let S2 = (if prompts = None then clearSequentialChoiceState i S1 else S1) in
              if isGoNativeApprovalActive i S2 then S2 else trackFallback E i lns S2))"

definition trackMarked :: "env \<Rightarrow> int \<Rightarrow> jstr list \<Rightarrow> jstr list \<Rightarrow> store \<Rightarrow> store" where
  "trackMarked E i lns ctx S =
     (case extractHubMarkerApproval (markerLinesFromTail (tailOf i S)) of
        Some p \<Rightarrow>
          if isAnsweredMarkerSig i (hpBody p) (stApp S) then S
          else if fromHubMarker i (hpBody p) S then S
          else trustedFound i (hpBody p) S
      | None \<Rightarrow>
          (case extractPlainYesNoApproval lns of
             Some yn \<Rightarrow> trustedFound i (Single (fst yn)) S
           | None \<Rightarrow> trackSequential E i lns ctx S))"

definition trackMultiQuestion :: "(int \<Rightarrow> appState \<Rightarrow> appState) \<Rightarrow> int \<Rightarrow> store \<Rightarrow> store" where
  "trackMultiQuestion act i S =
     (let S1 = clearApprovalOptions i (cancelApprovalHintConfirm i S) in
      if stMultiQ S1 i then showBanner i True S1
      else
        (let S2 = showBanner i True (S1\<lparr>stMultiQ := (stMultiQ S1)(i := True)\<rparr>) in
         if visibleOf S2 i then S2 else setApprovalVisible act i True True False S2))"

definition trackScan :: "(int \<Rightarrow> appState \<Rightarrow> appState) \<Rightarrow> env \<Rightarrow> int \<Rightarrow> store \<Rightarrow> store" where
  "trackScan act E i S =
     (let lns = tailLines 40 (tailOf i S);
          hint = isMultiQuestionPrompt lns \<or> linesHaveHint E lns;
          ctx = (if enAttached E \<and> (activeOf S = Some i \<or> hint)
                 then lns @ lastN (multiQuestionScanCount E) (enScreen E) else lns)
      in if isMultiQuestionPrompt ctx then
           (let S1 = S\<lparr>stLatch := (stLatch S)(i := Some (enNow E))\<rparr> in
            if \<not> stDismissed S1 i \<and> \<not> hasCachedApproval i S1 then trackMultiQuestion act i S1
            else trackMarked E i lns ctx S1)
         else if stMultiQ S i \<and> multiQuestionRecentlyLive E i S then S
         else trackMarked E i lns ctx S)"

definition trackApprovalHintFromChunk ::
  "(int \<Rightarrow> appState \<Rightarrow> appState) \<Rightarrow> env \<Rightarrow> int \<Rightarrow> jstr \<Rightarrow> store \<Rightarrow> store" where
  "trackApprovalHintFromChunk act E i txt S =
     (if stTail S i = None then S
      else if \<not> isAIProvider (enProvider E) then S
      else
        (let S1 = S\<lparr>stTail := (stTail S)(i := Some (lastN APPROVAL_PENDING_TEXT_TAIL_LIMIT (tailOf i S @ txt)))\<rparr> in
         if suppressed E i S1 then scheduleApprovalSuppressRescan i S1
         else trackScan act E i (S1\<lparr>stSuppress := (stSuppress S1)(i := None)\<rparr>)))"

section \<open>The active session\<close>

definition foundNow :: "(int \<Rightarrow> appState \<Rightarrow> appState) \<Rightarrow> int \<Rightarrow> cached \<Rightarrow> store \<Rightarrow> store" where
  "foundNow act i c S =
     (let S1 = cacheApprovalOptions i c S; was = visibleOf S1 i; S2 = showOptions i c S1 in
      if was then S2 else setApprovalVisible act i True True False (cancelApprovalHintConfirm i S2))"

definition detectTrusted :: "(int \<Rightarrow> appState \<Rightarrow> appState) \<Rightarrow> int \<Rightarrow> approvalBody \<Rightarrow> store \<Rightarrow> store" where
  "detectTrusted act i b S =
     (if stConsumed S i = Some (approvalSig b) then S
      else foundNow act i (plainCache b)
        (S\<lparr>stConsumedTimer := (stConsumedTimer S)(i := False), stConsumed := (stConsumed S)(i := None)\<rparr>))"

definition detectPrompt :: "env \<Rightarrow> int \<Rightarrow> jstr list \<Rightarrow> store \<Rightarrow> prompt" where
  "detectPrompt E i tl' S =
     (let F = detectOptions E i tl' S;
          ctx = approvalContextLines (fdLines F) (fdCluster F) 10;
          os = markHubChoiceDefault (fdOptions F) ctx;
          cursor = list_ex oCurrent os;
          native = nativePromptHint E ctx;
          shortcut = shortcutMenu E os native;
          near = (list_ex (\<lambda>a. test True detectLabelRe (oLabel a)) os \<and> (userSpecifies os ctx \<or> native))
            \<or> isHubChoicePrompt ctx os \<or> shortcut;
          approval = os \<noteq> [] \<and> near \<and> (cursor \<or> shortcut);
          menu = (cursor \<or> shortcut) \<and> os \<noteq> [] \<and> native;
          selectMenu = menu \<and> \<not> approval \<and> cursor \<and> \<not> shortcut
      in \<lparr>prOptions = os, prVisible = approval \<or> (menu \<and> \<not> selectMenu), prSelectMenu = selectMenu\<rparr>)"

definition H9_RESTORE_MISS_LIMIT :: nat where "H9_RESTORE_MISS_LIMIT = 3"

text \<open>No prompt: the cached options are restored while they are on the screen, or twice more.\<close>

definition stillOnScreen :: "env \<Rightarrow> int \<Rightarrow> jstr list \<Rightarrow> cached \<Rightarrow> store \<Rightarrow> bool" where
  "stillOnScreen E i tl' c S \<longleftrightarrow>
     (if activeOf S = Some i \<and> stTail S i \<noteq> None \<and> enAttached E then
        cachedOptionsOnScreen
          (if detectBuffer E i tl' S \<noteq> [] then detectBuffer E i tl' S else lastN (bufferCount E) (enScreen E))
          (coBody c)
      else True)"

definition h9Reset :: "int \<Rightarrow> store \<Rightarrow> store" where
  "h9Reset i S = cancelH9Revalidate i (S\<lparr>stH9Misses := (stH9Misses S)(i := 0)\<rparr>)"

definition detectNothing :: "(int \<Rightarrow> appState \<Rightarrow> appState) \<Rightarrow> env \<Rightarrow> int \<Rightarrow> jstr list \<Rightarrow> store \<Rightarrow> store" where
  "detectNothing act E i tl' S =
     (case (if visibleOf S i then stRaw S i else None) of
        None \<Rightarrow> hideActionBar act i S
      | Some c \<Rightarrow>
          if emptyBody (coBody c) then hideActionBar act i S
          else if stillOnScreen E i tl' c S then showOptions i c (h9Reset i S)
          else
            (let misses = Suc (stH9Misses S i) in
             if misses < H9_RESTORE_MISS_LIMIT
             then showOptions i c (scheduleH9Revalidate i (S\<lparr>stH9Misses := (stH9Misses S)(i := misses)\<rparr>))
             else hideActionBar act i (h9Reset i S)))"

definition SWITCH_STABLE_MS :: int where "SWITCH_STABLE_MS = 700"

definition detectShow :: "(int \<Rightarrow> appState \<Rightarrow> appState) \<Rightarrow> int \<Rightarrow> cached \<Rightarrow> store \<Rightarrow> store" where
  "detectShow act i c S =
     (let S1 = showActionBar i c (h9Reset i S) in
      if visibleOf S1 i then S1
      else setApprovalVisible act i True True False (cancelApprovalHintConfirm i S1))"

definition clearCandidate :: "int \<Rightarrow> store \<Rightarrow> store" where
  "clearCandidate i S = S\<lparr>stSwitchCand := (stSwitchCand S)(i := None)\<rparr>"

text \<open>Another prompt than the cached one must be seen for 700 ms before it replaces it.\<close>

definition detectSwitch ::
  "(int \<Rightarrow> appState \<Rightarrow> appState) \<Rightarrow> env \<Rightarrow> int \<Rightarrow> cached \<Rightarrow> cached \<Rightarrow> store \<Rightarrow> store" where
  "detectSwitch act E i new old S =
     (let newSig = approvalSig (coBody new);
          keep = (\<lambda>T. showActionBar i old T);
          wait = keep (S\<lparr>stSwitchCand := (stSwitchCand S)(i := Some (newSig, enNow E))\<rparr>)
      in if newSig = approvalSig (coBody old) then detectShow act i new (clearCandidate i S)
         else (case stSwitchCand S i of
                 None \<Rightarrow> wait
               | Some (sig, since) \<Rightarrow>
                   if sig \<noteq> newSig then wait
                   else if enNow E - since < SWITCH_STABLE_MS then keep S
                   else detectShow act i new (cacheApprovalOptions i new (clearCandidate i S))))"

definition detectFallback :: "(int \<Rightarrow> appState \<Rightarrow> appState) \<Rightarrow> env \<Rightarrow> int \<Rightarrow> store \<Rightarrow> store" where
  "detectFallback act E i S =
     (let tl' = tailLines 120 (tailOf i S);
          P = detectPrompt E i tl' S;
          new = tagSelectMenuOptions P
      in if \<not> prVisible P then detectNothing act E i tl' S
         else if stConsumed S i = Some (approvalSig (coBody new))
           then hideActionBar act i (setConsumedTimer i S)
         else if \<not> visibleOf S i then detectShow act i new S
         else (case stRaw S i of
                 None \<Rightarrow> detectShow act i new (clearCandidate i S)
               | Some old \<Rightarrow>
                   if emptyBody (coBody old) \<or> isBatchOptions (coBody old)
                   then detectShow act i new (clearCandidate i S)
                   else detectSwitch act E i new old S))"

definition detectSequential :: "(int \<Rightarrow> appState \<Rightarrow> appState) \<Rightarrow> env \<Rightarrow> int \<Rightarrow> store \<Rightarrow> store" where
  "detectSequential act E i S =
     (let pending = tailLines 80 (tailOf i S);
          ctx = (if stTail S i \<noteq> None \<and> enAttached E \<and> activeOf S = Some i
                 then pending @ lastN 80 (enScreen E) else pending);
          prompts = extractSequentialChoicePrompts ctx;
          (Q, S1) = getSequentialChoiceState i prompts S
      in case Q of
           Some q \<Rightarrow> foundNow act i (sequentialChoiceOptionsForState q) S1
         | None \<Rightarrow>
             (let S2 = (if prompts = None then clearSequentialChoiceState i S1 else S1) in
              case (if isGoNativeApprovalActive i S2 then stRaw S2 i else None) of
                None \<Rightarrow> detectFallback act E i S2
              | Some c \<Rightarrow> if emptyBody (coBody c) then detectFallback act E i S2 else showOptions i c S2))"

definition detectMarked :: "(int \<Rightarrow> appState \<Rightarrow> appState) \<Rightarrow> env \<Rightarrow> int \<Rightarrow> store \<Rightarrow> store" where
  "detectMarked act E i S =
     (case stTail S i of
        None \<Rightarrow> detectSequential act E i S
      | Some tl' \<Rightarrow>
          (case extractHubMarkerApproval (markerLinesFromTail tl') of
             Some p \<Rightarrow>
               if isAnsweredMarkerSig i (hpBody p) (stApp S) then S
               else if fromHubMarker i (hpBody p) S then S
               else detectTrusted act i (hpBody p) S
           | None \<Rightarrow>
               (case extractPlainYesNoApproval (markerLinesFromTail tl') of
                  Some yn \<Rightarrow> detectTrusted act i (Single (fst yn)) S
                | None \<Rightarrow> detectSequential act E i S)))"

definition detectMultiQuestion :: "(int \<Rightarrow> appState \<Rightarrow> appState) \<Rightarrow> int \<Rightarrow> store \<Rightarrow> store" where
  "detectMultiQuestion act i S =
     (let S1 = clearActionBarDom S;
          S2 = (if stMultiQ S1 i then S1
                else (let T = S1\<lparr>stMultiQ := (stMultiQ S1)(i := True)\<rparr> in
                  if visibleOf T i then T else setApprovalVisible act i True True False T))
      in showBanner i True S2)"

definition endMultiQuestion :: "(int \<Rightarrow> appState \<Rightarrow> appState) \<Rightarrow> int \<Rightarrow> store \<Rightarrow> store" where
  "endMultiQuestion act i S =
     (let S1 = showBanner i False
                 (S\<lparr>stMultiQ := (stMultiQ S)(i := False), stDismissed := (stDismissed S)(i := False),
                    stLatch := (stLatch S)(i := None)\<rparr>)
      in if visibleOf S1 i then setApprovalVisible act i False True False S1 else S1)"

definition detectScan :: "(int \<Rightarrow> appState \<Rightarrow> appState) \<Rightarrow> env \<Rightarrow> int \<Rightarrow> store \<Rightarrow> store" where
  "detectScan act E i S =
     (let n = multiQuestionScanCount E;
          pending = tailLines n (tailOf i S);
          lns = (if stTail S i \<noteq> None \<and> enAttached E \<and> activeOf S = Some i
                 then pending @ lastN n (enScreen E) else pending)
      in if isMultiQuestionPrompt lns then
           (let S1 = S\<lparr>stLatch := (stLatch S)(i := Some (enNow E))\<rparr> in
            if \<not> hasCachedApproval i S1 \<and> \<not> stDismissed S1 i then detectMultiQuestion act i S1
            else detectMarked act E i
              (if stMultiQ S1 i then showBanner i False (S1\<lparr>stMultiQ := (stMultiQ S1)(i := False)\<rparr>) else S1))
         else if stMultiQ S i then
           (if multiQuestionRecentlyLive E i S then showBanner i True S
            else detectMarked act E i (endMultiQuestion act i S))
         else detectMarked act E i S)"

definition detectApproval :: "(int \<Rightarrow> appState \<Rightarrow> appState) \<Rightarrow> env \<Rightarrow> int \<Rightarrow> store \<Rightarrow> store" where
  "detectApproval act E i S =
     (if activeOf S \<noteq> Some i then S
      else if \<not> isAIProvider (enProvider E) then S
      else if suppressed E i S then scheduleApprovalSuppressRescan i S
      else
        (let S1 = S\<lparr>stSuppress := (stSuppress S)(i := None)\<rparr> in
         if \<not> stHasBar S1 then S1 else detectScan act E i S1))"

definition fireSuppressRescan :: "(int \<Rightarrow> appState \<Rightarrow> appState) \<Rightarrow> env \<Rightarrow> int \<Rightarrow> store \<Rightarrow> store" where
  "fireSuppressRescan act E i S =
     onApp (maybeAutoSwitchToNextApproval act)
       (detectApproval act E i (S\<lparr>stRescan := (stRescan S)(i := False)\<rparr>))"

definition isSelectMenuActive :: "int \<Rightarrow> store \<Rightarrow> bool" where
  "isSelectMenuActive i S \<longleftrightarrow> visibleOf S i \<and> (case stRaw S i of None \<Rightarrow> False | Some c \<Rightarrow> coMenu c)"

end
