(* ===== verification/ApprovalSending.thy ===== *)
theory ApprovalSending
  imports ApprovalAnswer
begin

text \<open>
  What reaches the session when the user answers with several gestures: the choices of a sequence
  of prompts, the tabs of a batch, the check boxes of a multiple selection. The definitions are
  those of \<open>ApprovalAnswer\<close>; runs of gestures are recursions over a list of them.
\<close>

section \<open>A sequence of prompts\<close>

fun chooseAll :: "(int \<Rightarrow> appState \<Rightarrow> appState) \<Rightarrow> int \<Rightarrow> bool \<Rightarrow> int \<Rightarrow> int list \<Rightarrow> store \<Rightarrow> store" where
  "chooseAll act now dialog i [] S = S"
| "chooseAll act now dialog i (n # ns) S =
     chooseAll act now dialog i ns (sendChoice act now dialog i n True S)"

text \<open>The state of the sequence when the first \<open>k\<close> prompts are answered by \<open>ns\<close>.\<close>

definition partAnswered :: "seqState \<Rightarrow> int list \<Rightarrow> bool" where
  "partAnswered Q ns \<longleftrightarrow> sqIndex Q = length ns \<and> length ns \<le> length (sqPrompts Q)
     \<and> distinct (map pKey (sqPrompts Q))
     \<and> sqAnswers Q = zip (map pKey (take (length ns) (sqPrompts Q))) ns"

lemma skip_unanswered:
  "(ps \<noteq> [] \<Longrightarrow> map_of ans (pKey (hd ps)) = None) \<Longrightarrow> skipAnswered ps ans i = i"
  by (cases ps) (simp_all add: answered_def)

lemma update_fresh: "map_of ans k = None \<Longrightarrow> AList.update k v ans = ans @ [(k, v)]"
  by (induction ans) auto

lemma map_of_zip_notin: "k \<notin> set ks \<Longrightarrow> map_of (zip ks vs) k = None"
  by (auto simp: map_of_eq_None_iff dest: set_zip_leftD)

lemma answerPrompt_part:
  assumes "partAnswered Q ns" "length ns < length (sqPrompts Q)"
  shows "partAnswered (answerPrompt n Q) (ns @ [n])" "sqPrompts (answerPrompt n Q) = sqPrompts Q"
proof -
  let ?k = "length ns" and ?ks = "map pKey (sqPrompts Q)"
  have d: "distinct ?ks" and ans: "sqAnswers Q = zip (take ?k ?ks) ns" and ix: "sqIndex Q = ?k"
    using assms(1) by (simp_all add: partAnswered_def take_map)
  have key: "pKey (sqPrompts Q ! ?k) = ?ks ! ?k" using assms(2) by simp
  have fresh: "?ks ! j \<notin> set (take ?k ?ks)" if "?k \<le> j" "j < length ?ks" for j
    using d that by (auto simp: in_set_conv_nth distinct_conv_nth)
  have upd: "AList.update (?ks ! ?k) n (sqAnswers Q) = zip (take (Suc ?k) ?ks) (ns @ [n])"
  proof -
    have "map_of (zip (take ?k ?ks) ns) (?ks ! ?k) = None"
      by (rule map_of_zip_notin) (use fresh [of ?k] assms(2) in simp)
    from update_fresh [OF this] assms(2) show ?thesis
      by (simp add: ans take_Suc_conv_app_nth)
  qed
  have next_free: "map_of (zip (take (Suc ?k) ?ks) (ns @ [n])) (pKey (hd (drop (Suc ?k) (sqPrompts Q)))) = None"
    if "drop (Suc ?k) (sqPrompts Q) \<noteq> []"
  proof -
    have lt: "Suc ?k < length (sqPrompts Q)" using that by simp
    then have "?ks ! Suc ?k \<notin> set (take (Suc ?k) ?ks)"
      using d by (auto simp: in_set_conv_nth distinct_conv_nth)
    with lt show ?thesis by (simp add: hd_drop_conv_nth map_of_zip_notin)
  qed
  then have "skipAnswered (drop (Suc ?k) (sqPrompts Q)) (zip (take (Suc ?k) ?ks) (ns @ [n])) (Suc ?k) = Suc ?k"
    by (rule skip_unanswered)
  then have "answerPrompt n Q = Q\<lparr>sqAnswers := zip (take (Suc ?k) ?ks) (ns @ [n]), sqIndex := Suc ?k\<rparr>"
    unfolding answerPrompt_def advance_def ix key upd by simp
  then show "partAnswered (answerPrompt n Q) (ns @ [n])" "sqPrompts (answerPrompt n Q) = sqPrompts Q"
    using assms(2) d by (simp_all add: partAnswered_def take_map)
qed

lemma seq_simps [simp]:
  "stSeq (emit e S) = stSeq S" "stHasBar (emit e S) = stHasBar S"
  "stSeq (onApp f S) = stSeq S" "stHasBar (onApp f S) = stHasBar S"
  "stSeq (notifyApprovalQueue S) = stSeq S" "stHasBar (notifyApprovalQueue S) = stHasBar S"
  "stSeq (cacheApprovalOptions j c S) = stSeq S" "stHasBar (cacheApprovalOptions j c S) = stHasBar S"
  by (simp_all add: emit_def onApp_def notifyApprovalQueue_def cacheApprovalOptions_def)

lemma seq_batch [simp]:
  "stSeq (showBatchActionBar j ss S) = stSeq S" "stHasBar (showBatchActionBar j ss S) = stHasBar S"
  "stSeq (showMultiSelectActionBar j os S) = stSeq S"
  "stHasBar (showMultiSelectActionBar j os S) = stHasBar S"
  by (simp_all add: showBatchActionBar_def showMultiSelectActionBar_def getBatchActiveQ_def Let_def
      split: option.splits)

lemma seq_show [simp]:
  "stSeq (showOptions j c S) = stSeq S" "stHasBar (showOptions j c S) = stHasBar S"
  by (simp_all add: showOptions_def showActionBar_def renderBody_def showSingleSectionBar_def barShown_def
      split: approvalBody.splits)

definition promptLine :: "seqPrompt \<Rightarrow> int \<Rightarrow> jstr" where
  "promptLine p n = pKey p @ js '': '' @ num_str n"

lemma answerText_complete:
  assumes "partAnswered Q ns" "length ns = length (sqPrompts Q)"
  shows "answerText Q = join [10] (map2 promptLine (sqPrompts Q) ns)"
proof -
  have "map (\<lambda>p. pKey p @ js '': '' @ (case map_of (sqAnswers Q) (pKey p) of
          None \<Rightarrow> js ''undefined'' | Some n \<Rightarrow> num_str n)) (sqPrompts Q)
      = map2 promptLine (sqPrompts Q) ns"
  proof (rule nth_equalityI)
    fix k assume "k < length (map (\<lambda>p. pKey p @ js '': '' @ (case map_of (sqAnswers Q) (pKey p) of
          None \<Rightarrow> js ''undefined'' | Some n \<Rightarrow> num_str n)) (sqPrompts Q))"
    then have k: "k < length (sqPrompts Q)" by simp
    have "map_of (zip (map pKey (sqPrompts Q)) ns) (map pKey (sqPrompts Q) ! k) = Some (ns ! k)"
      by (rule map_of_zip_nth) (use assms k in \<open>simp_all add: partAnswered_def\<close>)
    then show "map (\<lambda>p. pKey p @ js '': '' @ (case map_of (sqAnswers Q) (pKey p) of
          None \<Rightarrow> js ''undefined'' | Some n \<Rightarrow> num_str n)) (sqPrompts Q) ! k
      = map2 promptLine (sqPrompts Q) ns ! k"
      using assms k by (simp add: partAnswered_def promptLine_def)
  qed (use assms in simp)
  then show ?thesis by (simp add: answerText_def)
qed

lemma choose_step:
  assumes "stSeq S i = Some Q" "partAnswered Q before" "stHasBar S"
    and "Suc (length before) < length (sqPrompts Q)"
  obtains Q' where "stSeq (sendChoice act now dialog i n True S) i = Some Q'"
    "partAnswered Q' (before @ [n])" "sqPrompts Q' = sqPrompts Q"
    "stHasBar (sendChoice act now dialog i n True S)" "sent i (sendChoice act now dialog i n True S) = sent i S"
proof
  have lt: "length before < length (sqPrompts Q)" using assms(4) by simp
  note part = answerPrompt_part [OF assms(2) lt, of n]
  show "partAnswered (answerPrompt n Q) (before @ [n])" "sqPrompts (answerPrompt n Q) = sqPrompts Q"
    by (fact part)+
  have "sendChoice act now dialog i n True S = sendSequential act now i n Q S"
    using assms(1,2) lt by (simp add: sendChoice_def partAnswered_def)
  moreover have "sqIndex (answerPrompt n Q) < length (sqPrompts (answerPrompt n Q))"
    using part assms(4) by (simp add: partAnswered_def)
  ultimately show "stSeq (sendChoice act now dialog i n True S) i = Some (answerPrompt n Q)"
    "stHasBar (sendChoice act now dialog i n True S)" "sent i (sendChoice act now dialog i n True S) = sent i S"
    using assms(3) by (simp_all add: sendSequential_def Let_def)
qed

lemma choose_part:
  assumes "stSeq S i = Some Q" "partAnswered Q before" "stHasBar S"
    and "length before + length ns < length (sqPrompts Q)"
  shows "sent i (chooseAll act now dialog i ns S) = sent i S"
  using assms
proof (induction ns arbitrary: S Q before)
  case (Cons n ns)
  have less: "Suc (length before) < length (sqPrompts Q)" using Cons.prems(4) by simp
  obtain Q' where "stSeq (sendChoice act now dialog i n True S) i = Some Q'"
    "partAnswered Q' (before @ [n])" "sqPrompts Q' = sqPrompts Q"
    "stHasBar (sendChoice act now dialog i n True S)" "sent i (sendChoice act now dialog i n True S) = sent i S"
    by (rule choose_step [OF Cons.prems(1-3) less])
  with Cons.IH [of "sendChoice act now dialog i n True S" Q' "before @ [n]"] Cons.prems(4)
  show ?case by simp
qed simp

lemma choose_sequence:
  assumes "stSeq S i = Some Q" "partAnswered Q before" "stHasBar S" "ns \<noteq> []"
    and "length before + length ns = length (sqPrompts Q)"
  shows "sent i (chooseAll act now dialog i ns S)
    = sent i S @ [EvBody i (join [10] (map2 promptLine (sqPrompts Q) (before @ ns)))]"
  using assms
proof (induction ns arbitrary: S Q before)
  case (Cons n ns)
  show ?case
  proof (cases ns)
    case Nil
    have lt: "length before < length (sqPrompts Q)" using Cons.prems(5) by simp
    note part = answerPrompt_part [OF Cons.prems(2) lt, of n]
    have full: "length (before @ [n]) = length (sqPrompts (answerPrompt n Q))"
      using Nil Cons.prems(5) part(2) by simp
    have "sendChoice act now dialog i n True S = sendSequential act now i n Q S"
      using Cons.prems(1,2) lt by (simp add: sendChoice_def partAnswered_def)
    moreover have "sqIndex (answerPrompt n Q) = length (sqPrompts (answerPrompt n Q))"
      using part(1) full by (simp add: partAnswered_def)
    ultimately have "sent i (sendChoice act now dialog i n True S)
        = sent i S @ [EvBody i (answerText (answerPrompt n Q))]"
      by (simp add: sendSequential_def Let_def)
    then show ?thesis
      using Nil answerText_complete [OF part(1) full] part(2) by simp
  next
    case more: (Cons m ms)
    have less: "Suc (length before) < length (sqPrompts Q)" using more Cons.prems(5) by simp
    obtain Q' where "stSeq (sendChoice act now dialog i n True S) i = Some Q'"
      "partAnswered Q' (before @ [n])" "sqPrompts Q' = sqPrompts Q"
      "stHasBar (sendChoice act now dialog i n True S)" "sent i (sendChoice act now dialog i n True S) = sent i S"
      by (rule choose_step [OF Cons.prems(1-3) less])
    with Cons.IH [of "sendChoice act now dialog i n True S" Q' "before @ [n]"] more Cons.prems(5)
    show ?thesis by simp
  qed
qed simp


definition twoPrompts :: "seqPrompt list" where
  "twoPrompts = map (\<lambda>k. \<lparr>pKey = k, pQuestion = js ''Go?'', pOptions = [mkOption 1 (js ''Yes'') False,
     mkOption 2 (js ''No'') False]\<rparr>) [js ''Q1'', js ''Q2'']"


section \<open>A multiple selection\<close>

fun toggleAll :: "int \<Rightarrow> int list \<Rightarrow> store \<Rightarrow> store" where
  "toggleAll i [] S = S"
| "toggleAll i (n # ns) S = toggleAll i ns (snd (toggleMultiSelectOption i n S))"

lemma multi_show [simp]:
  "stRaw (showMultiSelectActionBar j os S) = stRaw S"
  "stMulti S j \<noteq> None \<Longrightarrow> showMultiSelectActionBar j os S = S"
  by (auto simp: showMultiSelectActionBar_def split: option.splits)

lemma toggle_effect:
  assumes "S' = snd (toggleMultiSelectOption i n S)"
  shows "multiOptions i S' = multiOptions i S" "sent j S' = sent j S"
    and "selectedOf i S' = (if n \<notin> oNum ` set (multiOptions i S) then selectedOf i S
           else if n \<in> set (selectedOf i S) then filter (\<lambda>k. k \<noteq> n) (selectedOf i S)
           else selectedOf i S @ [n])"
proof -
  have raw: "multiOptions i (rerenderMulti i (S\<lparr>stMulti := (stMulti S)(i := Some x)\<rparr>)) = multiOptions i S" for x
    by (simp add: multiOptions_def rerenderMulti_def)
  show "multiOptions i S' = multiOptions i S"
    by (simp add: assms toggleMultiSelectOption_def Let_def raw)
  show "sent j S' = sent j S"
    by (simp add: assms toggleMultiSelectOption_def Let_def rerenderMulti_def)
  have "selectedOf i (rerenderMulti i (S\<lparr>stMulti := (stMulti S)(i := Some x)\<rparr>)) = x" for x
    by (simp add: selectedOf_def rerenderMulti_def)
  then show "selectedOf i S' = (if n \<notin> oNum ` set (multiOptions i S) then selectedOf i S
           else if n \<in> set (selectedOf i S) then filter (\<lambda>k. k \<noteq> n) (selectedOf i S)
           else selectedOf i S @ [n])"
    by (auto simp: assms toggleMultiSelectOption_def Let_def list_ex_iff split: if_split_asm)
qed

lemma toggleAll_effect:
  "multiOptions i (toggleAll i ns S) = multiOptions i S \<and> sent j (toggleAll i ns S) = sent j S
   \<and> (distinct (selectedOf i S) \<longrightarrow> distinct (selectedOf i (toggleAll i ns S)))
   \<and> set (selectedOf i (toggleAll i ns S)) =
       {n. (n \<in> set (selectedOf i S)) \<noteq> (n \<in> oNum ` set (multiOptions i S) \<and> odd (count_list ns n))}"
proof (induction ns arbitrary: S)
  case (Cons n ns)
  define T where "T = snd (toggleMultiSelectOption i n S)"
  note eff = toggle_effect [OF T_def]
  have sel: "set (selectedOf i T) =
      {k. (k \<in> set (selectedOf i S)) \<noteq> (k \<in> oNum ` set (multiOptions i S) \<and> k = n)}"
    by (auto simp: eff(3))
  have "distinct (selectedOf i S) \<Longrightarrow> distinct (selectedOf i T)"
    by (auto simp: eff(3))
  moreover have "set (selectedOf i (toggleAll i ns T)) =
      {k. (k \<in> set (selectedOf i S)) \<noteq> (k \<in> oNum ` set (multiOptions i S) \<and> odd (count_list (n # ns) k))}"
    using Cons.IH [of T] unfolding eff(1) sel by auto
  ultimately show ?case
    using Cons.IH [of T] eff(1,2) by (simp add: T_def)
qed auto

lemma sort_distinct: "distinct xs \<Longrightarrow> sort xs = sorted_list_of_set (set xs)" for xs :: "int list"
  by (metis sorted_list_of_set_sort_remdups remdups_id_iff_distinct)

text \<open>
  After any number of clicks on the check boxes of a multiple selection, what is sent is one
  line with the numbers clicked an odd number of times, each once, in ascending order and separated
  by commas; nothing is sent before, and nothing at all when no box is left checked.
\<close>

theorem multi_select_sent:
  assumes "selectedOf i S = []"
    and "N = {n \<in> oNum ` set (multiOptions i S). odd (count_list clicks n)}"
  shows "sent i (toggleAll i clicks S) = sent i S
    \<and> sent i (sendMultiSelectChoices act now i (toggleAll i clicks S))
      = sent i S @ (if N = {} then []
          else [EvText i (join [44] (map num_str (sorted_list_of_set N)) @ [13])])"
proof
  let ?T = "toggleAll i clicks S"
  show same: "sent i ?T = sent i S" using toggleAll_effect by blast
  have sel: "set (selectedOf i ?T) = N" "distinct (selectedOf i ?T)"
    using toggleAll_effect [of i clicks S i] assms by auto
  then show "sent i (sendMultiSelectChoices act now i ?T) = sent i S @ (if N = {} then []
      else [EvText i (join [44] (map num_str (sorted_list_of_set N)) @ [13])])"
    using same by (auto simp: sendMultiSelectChoices_def Let_def multiText_def sort_distinct)
qed

definition threeBoxes :: cached where
  "threeBoxes = plainCache (Single (map (\<lambda>n. (mkOption n (js ''box'') False)\<lparr>oMulti := True\<rparr>) [1, 2, 3]))"

theorem multi_select_sent_witness:
  "sent 1 (sendMultiSelectChoices (\<lambda>_ A. A) 0 1
     (toggleAll 1 [3, 1, 2, 3, 3, 2] (emptyStore\<lparr>stRaw := (\<lambda>_. None)(1 := Some threeBoxes)\<rparr>)))
   = [EvText 1 (js ''1,3'' @ [13])]"
proof -
  let ?S = "emptyStore\<lparr>stRaw := (\<lambda>_. None)(1 := Some threeBoxes)\<rparr>"
  have "multiOptions 1 ?S = map (\<lambda>n. (mkOption n (js ''box'') False)\<lparr>oMulti := True\<rparr>) [1, 2, 3]"
    by (simp add: multiOptions_def threeBoxes_def plainCache_def isMultiSelectOptions_def mkOption_def)
  then have N: "{n \<in> oNum ` set (multiOptions 1 ?S). odd (count_list [3, 1, 2, 3, 3, 2] n)} = {1, 3}"
    by (auto simp: mkOption_def)
  have e: "selectedOf 1 ?S = []" "sent 1 ?S = []" by (simp_all add: selectedOf_def emptyStore_def sent_def)
  from multi_select_sent [OF e(1) refl, of "[3, 1, 2, 3, 3, 2]" "\<lambda>_ A. A" 0] show ?thesis
    unfolding N e(2) by (simp add: num_str_def radix_digits.simps digit_cu_def js_def)
qed

section \<open>A batch of questions\<close>

fun pickAll :: "int \<Rightarrow> (nat \<times> int) list \<Rightarrow> store \<Rightarrow> store" where
  "pickAll i [] S = S"
| "pickAll i ((k, n) # ps) S = pickAll i ps (selectBatchOption i k n S)"

text \<open>The answer to question \<open>k\<close>: the last pick for it, else what was selected before.\<close>

definition lastPick :: "(nat \<times> int) list \<Rightarrow> int option list \<Rightarrow> nat \<Rightarrow> int option" where
  "lastPick ps sel k = (case map_of (rev ps) k of None \<Rightarrow> sel ! k | Some n \<Rightarrow> Some n)"

lemma batch_show:
  assumes "stSel S i = Some sel" "length sel = length ss"
  shows "stSel (showBatchActionBar i ss S) i = Some sel" "stRaw (showBatchActionBar i ss S) = stRaw S"
  using assms by (auto simp: showBatchActionBar_def getBatchActiveQ_def Let_def split: option.splits)

lemma pick_effect:
  assumes "S' = selectBatchOption i k n S" "stSel S i = Some sel"
    and "length sel = length (cachedSections i S)" "k < length sel"
  shows "stSel S' i = Some (sel[k := Some n])" "cachedSections i S' = cachedSections i S"
    "sent j S' = sent j S"
proof -
  let ?T = "S\<lparr>stSel := (stSel S)(i := Some (sel[k := Some n])), stActiveQ := (stActiveQ S)(i := Some (int k))\<rparr>"
  have S': "S' = rerenderBatch i ?T"
    using assms(1,2,4) by (simp add: selectBatchOption_def setBatchActiveQ_def)
  have T: "stSel ?T i = Some (sel[k := Some n])" "length (sel[k := Some n]) = length (cachedSections i ?T)"
    using assms(3) by (simp_all add: cachedSections_def)
  note shown = batch_show [OF T]
  show "stSel S' i = Some (sel[k := Some n])" "sent j S' = sent j S"
    using shown(1) by (simp_all add: S' rerenderBatch_def)
  show "cachedSections i S' = cachedSections i S"
    using shown(2) by (simp add: S' rerenderBatch_def cachedSections_def)
qed

lemma pickAll_effect:
  assumes "stSel S i = Some sel" "length sel = length (cachedSections i S)" "\<forall>(k, n) \<in> set ps. k < length sel"
  shows "cachedSections i (pickAll i ps S) = cachedSections i S \<and> sent j (pickAll i ps S) = sent j S
    \<and> stSel (pickAll i ps S) i = Some (map (lastPick ps sel) [0..<length sel])"
  using assms
proof (induction ps arbitrary: S sel)
  case Nil
  have "sel = map (lastPick [] sel) [0..<length sel]"
    unfolding lastPick_def by (simp add: map_nth)
  with Nil show ?case by simp
next
  case (Cons p ps)
  obtain k n where p: "p = (k, n)" by (cases p)
  have k: "k < length sel" using Cons.prems(3) p by simp
  note eff = pick_effect [OF refl Cons.prems(1,2) k, where n = n]
  have "lastPick ps (sel[k := Some n]) q = lastPick (p # ps) sel q" if "q < length sel" for q
    using k that by (simp add: lastPick_def p map_add_def nth_list_update split: option.splits)
  then have lst: "map (lastPick ps (sel[k := Some n])) [0..<length sel] = map (lastPick (p # ps) sel) [0..<length sel]"
    by simp
  have "length (sel[k := Some n]) = length (cachedSections i (selectBatchOption i k n S))"
    "\<forall>(k', n') \<in> set ps. k' < length (sel[k := Some n])"
    using Cons.prems(2,3) eff(2) by auto
  from Cons.IH [OF eff(1) this] show ?case
    by (simp add: p eff(2,3) lst [unfolded p])
qed

lemma num_line: "n \<noteq> BATCH_FREE \<Longrightarrow> payloadLine i S k (Some n) = num_str (int k + 1) @ [32] @ num_str n"
  by (simp add: payloadLine_def)

text \<open>
  C4: However the options of a batch are picked (any order, any question as often as wanted), the
  batch is sent only when every question has been picked, and then as one message with a line
  \<open>question number\<close> per question in the order of the questions, each with the last option picked
  for it; until then nothing reaches the session and no line can hold a missing answer.
\<close>

theorem batch_sent_when_complete:
  assumes "stSel S i = Some (replicate (length ss) None)" "cachedSections i S = ss" "ss \<noteq> []"
    and "\<forall>(k, n) \<in> set picks. k < length ss \<and> n \<noteq> BATCH_FREE"
  shows "sent i (pickAll i picks S) = sent i S
    \<and> sent i (sendBatchChoices act now i (pickAll i picks S)) = sent i S
      @ (if \<forall>k < length ss. k \<in> fst ` set picks
         then [EvBody i (join [10] (map (\<lambda>k. num_str (int k + 1) @ [32]
                  @ num_str (the (map_of (rev picks) k))) [0..<length ss]))]
         else [])"
proof
  let ?T = "pickAll i picks S" and ?sel = "replicate (length ss) None :: int option list"
  have "length ?sel = length (cachedSections i S)" "\<forall>(k, n) \<in> set picks. k < length ?sel"
    using assms(2,4) by auto
  note eff = pickAll_effect [OF assms(1) this, of i]
  show sm: "sent i ?T = sent i S" using eff by blast
  have secs: "cachedSections i ?T = ss" using eff assms(2) by simp
  have sel: "stSel ?T i = Some (map (\<lambda>k. map_of (rev picks) k) [0..<length ss])"
    using eff by (auto simp: lastPick_def split: option.splits)
  have free: "n \<noteq> BATCH_FREE" if "map_of (rev picks) k = Some n" for k n
    using map_of_SomeD [OF that] assms(4) by auto
  have "batchSectionAnswered i k ?T = (k \<in> fst ` set picks)" if "k < length ss" for k
  proof (cases "map_of (rev picks) k")
    case None
    then have "k \<notin> fst ` set picks" by (simp add: map_of_eq_None_iff)
    then show ?thesis by (simp add: batchSectionAnswered_def sel that None)
  next
    case (Some n)
    then have "k \<in> fst ` set picks" by (force dest: map_of_SomeD)
    then show ?thesis using free [OF Some] by (simp add: batchSectionAnswered_def sel that Some)
  qed
  then have all: "batchAllAnswered i ss ?T = (\<forall>k < length ss. k \<in> fst ` set picks)"
    using assms(3) by (auto simp: batchAllAnswered_def list_all_iff)
  have "buildBatchPayload i ?T = join [10] (map (\<lambda>k. num_str (int k + 1) @ [32]
      @ num_str (the (map_of (rev picks) k))) [0..<length ss])" if ok: "\<forall>k < length ss. k \<in> fst ` set picks"
  proof -
    have "payloadLine i ?T k (map_of (rev picks) k) = num_str (int k + 1) @ [32]
        @ num_str (the (map_of (rev picks) k))" if "k < length ss" for k
    proof -
      have "map_of (rev picks) k \<noteq> None" using ok that by (simp add: map_of_eq_None_iff)
      then obtain n where "map_of (rev picks) k = Some n" by blast
      with free [OF this] show ?thesis by (simp add: num_line)
    qed
    then show ?thesis
      by (auto simp: buildBatchPayload_def sel enumerate_eq_zip zip_map2 zip_same_conv_map
          intro!: arg_cong [where f = "join [10]"])
  qed
  then show "sent i (sendBatchChoices act now i ?T) = sent i S
      @ (if \<forall>k < length ss. k \<in> fst ` set picks
         then [EvBody i (join [10] (map (\<lambda>k. num_str (int k + 1) @ [32]
                  @ num_str (the (map_of (rev picks) k))) [0..<length ss]))]
         else [])"
    using sm assms(3) by (auto simp: sendBatchChoices_def Let_def secs all)
qed

definition twoQuestions :: "approvalSection list" where
  "twoQuestions = map (\<lambda>k. \<lparr>sNum = k, sTitle = js ''Q'', sOptions = [mkOption 1 (js ''a'') False,
     mkOption 2 (js ''b'') False], sFreeInput = False, sBlockSig = None\<rparr>) [1, 2]"

theorem batch_sent_when_complete_witness:
  "sent 1 (sendBatchChoices (\<lambda>_ A. A) 0 1 (pickAll 1 [(1, 2), (0, 2), (0, 1)]
     (emptyStore\<lparr>stRaw := (\<lambda>_. None)(1 := Some (plainCache (Batch twoQuestions))),
        stSel := (\<lambda>_. None)(1 := Some [None, None])\<rparr>)))
   = [EvBody 1 (js ''1 1'' @ [10] @ js ''2 2'')]"
proof -
  let ?S = "emptyStore\<lparr>stRaw := (\<lambda>_. None)(1 := Some (plainCache (Batch twoQuestions))),
        stSel := (\<lambda>_. None)(1 := Some [None, None])\<rparr>"
  have len: "length twoQuestions = 2" "twoQuestions \<noteq> []" by (simp_all add: twoQuestions_def)
  have e: "stSel ?S 1 = Some (replicate (length twoQuestions) None)" "cachedSections 1 ?S = twoQuestions"
    "sent 1 emptyStore = []"
    by (simp_all add: cachedSections_def plainCache_def sent_def emptyStore_def len numeral_2_eq_2)
  have "\<forall>k < length twoQuestions. k \<in> fst ` set [(1, 2), (0, 2), (0, 1 :: int)]"
    by (auto simp: len)
  with batch_sent_when_complete [OF e(1,2) len(2), of "[(1, 2), (0, 2), (0, 1)]" "\<lambda>_ A. A" 0]
  show ?thesis
    by (simp add: e(3) len BATCH_FREE_def upt_rec num_str_def radix_digits.simps digit_cu_def js_def)
qed

text \<open>
  The other side of keeping the picks while the bar is redrawn: the picks are tied to the number
  of questions only, so a new block with as many questions inherits the picks made for the old one.
\<close>

lemma old_picks_kept:
  assumes "stSel S i = Some sel" "stFree S i = Some free" "length sel = length ss" "length free = length ss" "ss \<noteq> []"
  shows "stSel (showOptions i (plainCache (Batch ss)) S) i = Some sel"
    "stFree (showOptions i (plainCache (Batch ss)) S) i = Some free"
  using assms
  by (auto simp: showOptions_def showActionBar_def renderBody_def barShown_def cacheApprovalOptions_def
      plainCache_def emptyBody_def notifyApprovalQueue_def emit_def onApp_def showBatchActionBar_def
      showSingleSectionBar_def getBatchActiveQ_def Let_def split: option.splits)

end
