(* ===== verification/ApprovalRuns.thy ===== *)
theory ApprovalRuns
  imports ApprovalDetect ApprovalSending
begin

text \<open>
  Runs of the approval client: every operation of the previous theories as a step for one session,
  and what holds whatever the order in which chunks, messages, timers and answers come.
\<close>

section \<open>Steps\<close>

datatype op =
    Chunk env jstr | Detect env | Rescan env
  | HubMarker jstr jstr | GoDetected goMessage | GoCleared jstr
  | HintTimer | ConsumedTimer | BgTimer | H9Timer
  | Hide | ManualHide | Reshow
  | Answer int bool answer | SingleOpen | SingleText jstr
  | Pick nat int | ClearPicks | BatchKey int
  | Toggle int | ClearBoxes | AllBoxes | BoxKey int

fun opStep :: "(int \<Rightarrow> appState \<Rightarrow> appState) \<Rightarrow> int \<Rightarrow> op \<Rightarrow> store \<Rightarrow> store" where
  "opStep act i (Chunk E t) S = trackApprovalHintFromChunk act E i t S"
| "opStep act i (Detect E) S = detectApproval act E i S"
| "opStep act i (Rescan E) S = fireSuppressRescan act E i S"
| "opStep act i (HubMarker b t) S = handleHubApprovalMarker act i b t S"
| "opStep act i (GoDetected m) S = handleGoApprovalDetected act (m\<lparr>gmSession := i\<rparr>) S"
| "opStep act i (GoCleared sig) S = handleGoApprovalCleared act i sig S"
| "opStep act i HintTimer S = fireHintConfirm act i S"
| "opStep act i ConsumedTimer S = fireConsumedTimer i S"
| "opStep act i BgTimer S = fireBgClear act i S"
| "opStep act i H9Timer S = fireH9Revalidate i S"
| "opStep act i Hide S = hideActionBar act i S"
| "opStep act i ManualHide S = manuallyHideActionBar i S"
| "opStep act i Reshow S = reshowActionBar i S"
| "opStep act i (Answer now dialog a) S = giveAnswer act now dialog i a S"
| "opStep act i SingleOpen S = activateSingleFree i S"
| "opStep act i (SingleText t) S = setSingleFreeText i t S"
| "opStep act i (Pick k n) S = selectBatchOption i k n S"
| "opStep act i ClearPicks S = clearBatchSelections i S"
| "opStep act i (BatchKey n) S = snd (handleBatchNumberKey i n S)"
| "opStep act i (Toggle n) S = snd (toggleMultiSelectOption i n S)"
| "opStep act i ClearBoxes S = clearMultiSelectSelections i S"
| "opStep act i AllBoxes S = selectAllMultiSelectOptions i S"
| "opStep act i (BoxKey n) S = snd (handleMultiSelectNumberKey i n S)"

fun opRun :: "(int \<Rightarrow> appState \<Rightarrow> appState) \<Rightarrow> (int \<times> op) list \<Rightarrow> store \<Rightarrow> store" where
  "opRun act [] S = S"
| "opRun act ((i, op) # ops) S = opRun act ops (opStep act i op S)"

section \<open>Sessions do not touch each other\<close>

text \<open>Everything the store keeps for one session.\<close>

definition own :: "int \<Rightarrow> store \<Rightarrow> _" where
  "own j S = ((stRaw S j, stSource S j, stConsumed S j, stConsumedTimer S j),
     (stSel S j, stFree S j, stActiveQ S j, stMulti S j, stSeq S j),
     (stManualHide S j, stSingleText S j, stSingleOpen S j, stShownAt S j, stSwitchCand S j),
     (stH9Misses S j, stH9Timer S j, stBgMisses S j, stBgTimer S j, stHintTimer S j, stHintTrusted S j),
     (stSuppress S j, stDismissed S j, stLatch S j, stTail S j, stMultiQ S j, stRescan S j))"

lemma own_update:
  "f1 j = stRaw S j \<Longrightarrow> own j (S\<lparr>stRaw := f1\<rparr>) = own j S"
  "f2 j = stSource S j \<Longrightarrow> own j (S\<lparr>stSource := f2\<rparr>) = own j S"
  "f3 j = stConsumed S j \<Longrightarrow> own j (S\<lparr>stConsumed := f3\<rparr>) = own j S"
  "f4 j = stConsumedTimer S j \<Longrightarrow> own j (S\<lparr>stConsumedTimer := f4\<rparr>) = own j S"
  "f5 j = stSel S j \<Longrightarrow> own j (S\<lparr>stSel := f5\<rparr>) = own j S"
  "f6 j = stFree S j \<Longrightarrow> own j (S\<lparr>stFree := f6\<rparr>) = own j S"
  "f7 j = stActiveQ S j \<Longrightarrow> own j (S\<lparr>stActiveQ := f7\<rparr>) = own j S"
  "f8 j = stMulti S j \<Longrightarrow> own j (S\<lparr>stMulti := f8\<rparr>) = own j S"
  "f9 j = stSeq S j \<Longrightarrow> own j (S\<lparr>stSeq := f9\<rparr>) = own j S"
  "g1 j = stManualHide S j \<Longrightarrow> own j (S\<lparr>stManualHide := g1\<rparr>) = own j S"
  "g2 j = stSingleText S j \<Longrightarrow> own j (S\<lparr>stSingleText := g2\<rparr>) = own j S"
  "g3 j = stSingleOpen S j \<Longrightarrow> own j (S\<lparr>stSingleOpen := g3\<rparr>) = own j S"
  "g4 j = stShownAt S j \<Longrightarrow> own j (S\<lparr>stShownAt := g4\<rparr>) = own j S"
  "g5 j = stSwitchCand S j \<Longrightarrow> own j (S\<lparr>stSwitchCand := g5\<rparr>) = own j S"
  "h1 j = stH9Misses S j \<Longrightarrow> own j (S\<lparr>stH9Misses := h1\<rparr>) = own j S"
  "h2 j = stH9Timer S j \<Longrightarrow> own j (S\<lparr>stH9Timer := h2\<rparr>) = own j S"
  "h3 j = stBgMisses S j \<Longrightarrow> own j (S\<lparr>stBgMisses := h3\<rparr>) = own j S"
  "h4 j = stBgTimer S j \<Longrightarrow> own j (S\<lparr>stBgTimer := h4\<rparr>) = own j S"
  "h5 j = stHintTimer S j \<Longrightarrow> own j (S\<lparr>stHintTimer := h5\<rparr>) = own j S"
  "h6 j = stHintTrusted S j \<Longrightarrow> own j (S\<lparr>stHintTrusted := h6\<rparr>) = own j S"
  "k1 j = stSuppress S j \<Longrightarrow> own j (S\<lparr>stSuppress := k1\<rparr>) = own j S"
  "k2 j = stDismissed S j \<Longrightarrow> own j (S\<lparr>stDismissed := k2\<rparr>) = own j S"
  "k3 j = stLatch S j \<Longrightarrow> own j (S\<lparr>stLatch := k3\<rparr>) = own j S"
  "k4 j = stTail S j \<Longrightarrow> own j (S\<lparr>stTail := k4\<rparr>) = own j S"
  "k5 j = stMultiQ S j \<Longrightarrow> own j (S\<lparr>stMultiQ := k5\<rparr>) = own j S"
  "k6 j = stRescan S j \<Longrightarrow> own j (S\<lparr>stRescan := k6\<rparr>) = own j S"
  by (simp_all add: own_def)

lemma own_shared [simp]:
  "own j (S\<lparr>stApp := a\<rparr>) = own j S" "own j (S\<lparr>stMultiFocus := b\<rparr>) = own j S"
  "own j (S\<lparr>stBatchFocus := c\<rparr>) = own j S" "own j (S\<lparr>stBarFocus := d\<rparr>) = own j S"
  "own j (S\<lparr>stRendered := e\<rparr>) = own j S" "own j (S\<lparr>stBanner := f\<rparr>) = own j S"
  "own j (S\<lparr>stLog := g\<rparr>) = own j S"
  by (simp_all add: own_def)

lemma own_emit [simp]: "own j (emit e S) = own j S" "own j (onApp f S) = own j S"
  "own j (sendSessionHint i v S) = own j S" "own j (notifyApprovalQueue S) = own j S"
  "own j (setApprovalVisible act i v a fn S) = own j S" "own j (setMultiQuestionBannerVisible v S) = own j S"
  "own j (showBanner i v S) = own j S"
  by (simp_all add: emit_def onApp_def sendSessionHint_def notifyApprovalQueue_def setApprovalVisible_def
      setMultiQuestionBannerVisible_def showBanner_def Let_def)

lemma own_basic [simp]:
  assumes "j \<noteq> i"
  shows "own j (cacheApprovalOptions i c S) = own j S" "own j (clearApprovalOptions i S) = own j S"
    "own j (cancelH9Revalidate i S) = own j S" "own j (scheduleH9Revalidate i S) = own j S"
    "own j (resetBgApprovalMisses i S) = own j S" "own j (cancelApprovalHintConfirm i S) = own j S"
    "own j (setConsumedTimer i S) = own j S" "own j (fireConsumedTimer i S) = own j S"
    "own j (clearSequentialChoiceState i S) = own j S" "own j (clearSingleTabState i S) = own j S"
    "own j (setSuppress now i S) = own j S" "own j (forgetMultiQuestion i S) = own j S"
    "own j (recordAnswer i S) = own j S" "own j (clearCandidate i S) = own j S"
    "own j (scheduleApprovalSuppressRescan i S) = own j S" "own j (snd (getBatchActiveQ i n S)) = own j S"
    "own j (showSingleSectionBar i S) = own j S" "own j (barShown i S) = own j S"
    "own j (showMultiSelectActionBar i os S) = own j S"
  using assms
  by (simp_all add: cacheApprovalOptions_def clearApprovalOptions_def cancelH9Revalidate_def
      scheduleH9Revalidate_def resetBgApprovalMisses_def cancelApprovalHintConfirm_def
      setConsumedTimer_def fireConsumedTimer_def clearSequentialChoiceState_def clearSingleTabState_def
      setSuppress_def forgetMultiQuestion_def recordAnswer_def clearCandidate_def
      scheduleApprovalSuppressRescan_def getBatchActiveQ_def showSingleSectionBar_def barShown_def
      showMultiSelectActionBar_def own_update split: option.splits)

lemma own_show [simp]:
  assumes "j \<noteq> i"
  shows "own j (showBatchActionBar i ss S) = own j S" "own j (showActionBar i c S) = own j S"
    "own j (showOptions i c S) = own j S" "own j (h9Reset i S) = own j S"
proof -
  show b: "own j (showBatchActionBar i ss S) = own j S" for ss S
    using assms by (simp add: showBatchActionBar_def Let_def own_update split: option.splits)
  show a: "own j (showActionBar i c S) = own j S" for S
    using assms b by (simp add: showActionBar_def renderBody_def own_update split: approvalBody.splits)
  show "own j (showOptions i c S) = own j S"
    using assms a by (simp add: showOptions_def)
  show "own j (h9Reset i S) = own j S"
    using assms by (simp add: h9Reset_def own_update)
qed

lemma own_hide [simp]: "j \<noteq> i \<Longrightarrow> own j (hideActionBar act i S) = own j S"
  by (simp add: hideActionBar_def Let_def own_update cancelApprovalHintConfirm_def onApp_def)

lemma own_bg [simp]: "j \<noteq> i \<Longrightarrow> own j (trackBgApprovalMiss i ls S) = own j S"
  by (simp add: trackBgApprovalMiss_def Let_def own_update split: option.splits)

lemma own_schedule [simp]: "j \<noteq> i \<Longrightarrow> own j (scheduleApprovalHintConfirm i b S) = own j S"
  by (simp add: scheduleApprovalHintConfirm_def Let_def own_update)

lemma own_consumed [simp]: "j \<noteq> i \<Longrightarrow> own j (sendApprovalConsumed i c t S) = own j S"
  by (simp add: sendApprovalConsumed_def Let_def own_update split: option.splits)

lemma own_sequence [simp]: "j \<noteq> i \<Longrightarrow> own j (snd (getSequentialChoiceState i ps S)) = own j S"
  by (simp add: getSequentialChoiceState_def Let_def own_update split: option.splits)

lemma own_sequential [simp]: "j \<noteq> i \<Longrightarrow> own j (sendSequential act now i n Q S) = own j S"
  by (simp add: sendSequential_def closeAnswer_def Let_def own_update)

lemma own_answer: "j \<noteq> i \<Longrightarrow> own j (giveAnswer act now dialog i a S) = own j S"
  by (cases a) (simp_all add: sendChoice_def sendSingle_def closeAnswer_def sendSingleFreeText_def
      sendBatchChoices_def sendMultiSelectChoices_def Let_def own_update split: option.splits)

lemma own_messages:
  assumes "j \<noteq> i"
  shows "own j (handleHubApprovalMarker act i b t S) = own j S"
    "own j (handleGoApprovalDetected act (m\<lparr>gmSession := i\<rparr>) S) = own j S"
    "own j (handleGoApprovalCleared act i sig S) = own j S"
    "own j (fireHintConfirm act i S) = own j S" "own j (fireBgClear act i S) = own j S"
    "own j (fireH9Revalidate i S) = own j S"
    "own j (manuallyHideActionBar i S) = own j S" "own j (reshowActionBar i S) = own j S"
  using assms
  by (simp_all add: handleHubApprovalMarker_def handleGoApprovalDetected_def handleGoApprovalCleared_def
      showDetected_def fireHintConfirm_def fireBgClear_def fireH9Revalidate_def manuallyHideActionBar_def
      reshowActionBar_def Let_def own_update split: option.splits)

lemma own_picks:
  assumes "j \<noteq> i"
  shows "own j (activateSingleFree i S) = own j S" "own j (setSingleFreeText i t S) = own j S"
    "own j (selectBatchOption i k n S) = own j S" "own j (clearBatchSelections i S) = own j S"
    "own j (snd (toggleMultiSelectOption i n S)) = own j S"
    "own j (clearMultiSelectSelections i S) = own j S" "own j (selectAllMultiSelectOptions i S) = own j S"
  using assms
  by (simp_all add: activateSingleFree_def setSingleFreeText_def selectBatchOption_def setBatchActiveQ_def
      rerenderBatch_def clearBatchSelections_def toggleMultiSelectOption_def rerenderMulti_def
      clearMultiSelectSelections_def selectAllMultiSelectOptions_def Let_def own_update split: option.splits)

lemma own_keys:
  assumes "j \<noteq> i"
  shows "own j (snd (handleBatchNumberKey i n S)) = own j S"
    "own j (snd (handleMultiSelectNumberKey i n S)) = own j S"
  using assms own_picks [OF assms] own_basic [OF assms]
  by (simp_all add: handleBatchNumberKey_def handleMultiSelectNumberKey_def Let_def case_prod_beta
      own_update split: option.splits)

lemma own_track:
  assumes "j \<noteq> i"
  shows "own j (trustedFound i b S) = own j S" "own j (trackHidden i S) = own j S"
    "own j (trackFallback E i lns S) = own j S" "own j (trackSequential E i lns ctx S) = own j S"
    "own j (trackMarked E i lns ctx S) = own j S" "own j (trackMultiQuestion act i S) = own j S"
    "own j (trackApprovalHintFromChunk act E i txt S) = own j S"
proof -
  show t: "own j (trustedFound i b S) = own j S" for b S
    using assms by (simp add: trustedFound_def Let_def own_update)
  have h: "own j (trackHidden i S) = own j S" for S
    using assms by (simp add: trackHidden_def Let_def)
  then show "own j (trackHidden i S) = own j S" .
  have f: "own j (trackFallback E i lns S) = own j S" for lns S
    using assms h by (simp add: trackFallback_def Let_def)
  then show "own j (trackFallback E i lns S) = own j S" .
  have q: "own j (trackSequential E i lns ctx S) = own j S" for lns ctx S
    using assms f by (simp add: trackSequential_def Let_def case_prod_beta split: option.splits)
  then show "own j (trackSequential E i lns ctx S) = own j S" .
  have m: "own j (trackMarked E i lns ctx S) = own j S" for lns ctx S
    using assms t q by (simp add: trackMarked_def split: option.splits)
  then show "own j (trackMarked E i lns ctx S) = own j S" .
  have mq: "own j (trackMultiQuestion act i S) = own j S" for S
    using assms by (simp add: trackMultiQuestion_def Let_def own_update)
  then show "own j (trackMultiQuestion act i S) = own j S" .
  have "own j (trackScan act E i S) = own j S" for S
    using assms m mq by (simp add: trackScan_def Let_def own_update)
  then show "own j (trackApprovalHintFromChunk act E i txt S) = own j S"
    using assms by (simp add: trackApprovalHintFromChunk_def Let_def own_update)
qed

lemma own_found [simp]: "j \<noteq> i \<Longrightarrow> own j (foundNow act i c S) = own j S"
  by (simp add: foundNow_def Let_def)

lemma own_clear_bar [simp]: "activeOf S = Some i \<Longrightarrow> j \<noteq> i \<Longrightarrow> own j (clearActionBarDom S) = own j S"
  by (simp add: clearActionBarDom_def Let_def own_update activeOf_def onApp_def)

lemma own_detect:
  assumes "j \<noteq> i"
  shows "own j (detectApproval act E i S) = own j S"
proof -
  have tr: "own j (detectTrusted act i b S) = own j S" for b S
    using assms by (simp add: detectTrusted_def own_update)
  have sh: "own j (detectShow act i c S) = own j S" for c S
    using assms by (simp add: detectShow_def Let_def)
  have no: "own j (detectNothing act E i tl' S) = own j S" for tl' S
    using assms by (simp add: detectNothing_def Let_def own_update split: option.splits)
  have sw: "own j (detectSwitch act E i new old S) = own j S" for new old S
    using assms sh by (simp add: detectSwitch_def Let_def own_update split: option.splits prod.splits)
  have fb: "own j (detectFallback act E i S) = own j S" for S
    using assms sh no sw by (simp add: detectFallback_def Let_def split: option.splits)
  have sq: "own j (detectSequential act E i S) = own j S" for S
    using assms fb by (simp add: detectSequential_def Let_def case_prod_beta split: option.splits)
  have mk: "own j (detectMarked act E i S) = own j S" for S
    using assms tr sq by (simp add: detectMarked_def split: option.splits)
  have en: "own j (endMultiQuestion act i S) = own j S" for S
    using assms by (simp add: endMultiQuestion_def Let_def own_update)
  have mq: "activeOf S = Some i \<Longrightarrow> own j (detectMultiQuestion act i S) = own j S" for S
    using assms by (simp add: detectMultiQuestion_def Let_def own_update)
  have "activeOf S = Some i \<Longrightarrow> own j (detectScan act E i S) = own j S" for S
    using assms mk en mq by (simp add: detectScan_def Let_def own_update activeOf_def)
  then show ?thesis
    using assms by (simp add: detectApproval_def Let_def own_update activeOf_def)
qed

lemma own_step: "j \<noteq> i \<Longrightarrow> own j (opStep act i op S) = own j S"
  by (cases op) (simp_all add: own_track own_detect own_messages own_picks own_keys own_answer
      fireSuppressRescan_def own_update)



section \<open>The bar shows the active session\<close>

text \<open>The session whose options the bar shows changes only to none or to the active one.\<close>

definition rendersActive :: "int \<Rightarrow> store \<Rightarrow> store \<Rightarrow> bool" where
  "rendersActive i S S' \<longleftrightarrow> stRendered S' = stRendered S \<or> stRendered S' = None
     \<or> (stRendered S' = Some i \<and> activeOf S' = Some i)"

lemma rendered_basic [simp]:
  "stRendered (emit e S) = stRendered S" "stRendered (onApp f S) = stRendered S"
  "stRendered (sendSessionHint i v S) = stRendered S" "stRendered (notifyApprovalQueue S) = stRendered S"
  "stRendered (setApprovalVisible act i v a fn S) = stRendered S"
  "stRendered (setMultiQuestionBannerVisible v S) = stRendered S" "stRendered (showBanner i v S) = stRendered S"
  "stRendered (cacheApprovalOptions i c S) = stRendered S" "stRendered (clearApprovalOptions i S) = stRendered S"
  "stRendered (cancelH9Revalidate i S) = stRendered S" "stRendered (scheduleH9Revalidate i S) = stRendered S"
  "stRendered (resetBgApprovalMisses i S) = stRendered S" "stRendered (cancelApprovalHintConfirm i S) = stRendered S"
  "stRendered (setConsumedTimer i S) = stRendered S" "stRendered (clearSequentialChoiceState i S) = stRendered S"
  "stRendered (clearSingleTabState i S) = stRendered S" "stRendered (clearCandidate i S) = stRendered S"
  "stRendered (scheduleApprovalSuppressRescan i S) = stRendered S" "stRendered (h9Reset i S) = stRendered S"
  "stRendered (trackBgApprovalMiss i ls S) = stRendered S" "stRendered (scheduleApprovalHintConfirm i b S) = stRendered S"
  "stRendered (snd (getSequentialChoiceState i ps S)) = stRendered S"
  by (simp_all add: emit_def onApp_def sendSessionHint_def notifyApprovalQueue_def setApprovalVisible_def
      setMultiQuestionBannerVisible_def showBanner_def cacheApprovalOptions_def clearApprovalOptions_def
      cancelH9Revalidate_def scheduleH9Revalidate_def resetBgApprovalMisses_def cancelApprovalHintConfirm_def
      setConsumedTimer_def clearSequentialChoiceState_def clearSingleTabState_def clearCandidate_def
      scheduleApprovalSuppressRescan_def h9Reset_def trackBgApprovalMiss_def scheduleApprovalHintConfirm_def
      getSequentialChoiceState_def Let_def split: option.splits)

lemma active_basic [simp]:
  "activeOf (emit e S) = activeOf S" "activeOf (sendSessionHint j v S) = activeOf S"
  "activeOf (notifyApprovalQueue S) = activeOf S" "activeOf (setMultiQuestionBannerVisible v S) = activeOf S"
  "activeOf (showBanner j v S) = activeOf S"
  "activeOf (cacheApprovalOptions j c S) = activeOf S" "activeOf (clearApprovalOptions j S) = activeOf S"
  "activeOf (cancelH9Revalidate j S) = activeOf S" "activeOf (scheduleH9Revalidate j S) = activeOf S"
  "activeOf (resetBgApprovalMisses j S) = activeOf S" "activeOf (cancelApprovalHintConfirm j S) = activeOf S"
  "activeOf (setConsumedTimer j S) = activeOf S" "activeOf (clearSequentialChoiceState j S) = activeOf S"
  "activeOf (clearSingleTabState j S) = activeOf S" "activeOf (clearCandidate j S) = activeOf S"
  "activeOf (h9Reset j S) = activeOf S" "activeOf (snd (getSequentialChoiceState j ps S)) = activeOf S"
  by (simp_all add: activeOf_def emit_def onApp_def sendSessionHint_def notifyApprovalQueue_def
      setMultiQuestionBannerVisible_def showBanner_def cacheApprovalOptions_def clearApprovalOptions_def
      cancelH9Revalidate_def scheduleH9Revalidate_def resetBgApprovalMisses_def cancelApprovalHintConfirm_def
      setConsumedTimer_def clearSequentialChoiceState_def clearSingleTabState_def clearCandidate_def
      h9Reset_def getSequentialChoiceState_def Let_def split: option.splits)

lemma active_update [simp]:
  "activeOf (S\<lparr>stH9Misses := f1\<rparr>) = activeOf S" "activeOf (S\<lparr>stH9Timer := f2\<rparr>) = activeOf S"
  "activeOf (S\<lparr>stSwitchCand := f3\<rparr>) = activeOf S" "activeOf (S\<lparr>stConsumed := f4\<rparr>) = activeOf S"
  "activeOf (S\<lparr>stConsumedTimer := f5\<rparr>) = activeOf S" "activeOf (S\<lparr>stMultiQ := f6\<rparr>) = activeOf S"
  "activeOf (S\<lparr>stDismissed := f7\<rparr>) = activeOf S" "activeOf (S\<lparr>stLatch := f8\<rparr>) = activeOf S"
  "activeOf (S\<lparr>stSuppress := f9\<rparr>) = activeOf S" "activeOf (scheduleH9Revalidate j S) = activeOf S"
  by (simp_all add: activeOf_def scheduleH9Revalidate_def)

lemma active_show [simp]:
  "activeOf (showActionBar i c S) = activeOf S" "activeOf (showOptions i c S) = activeOf S"
  by (simp_all add: activeOf_def showOptions_def showActionBar_def renderBody_def showSingleSectionBar_def
      barShown_def showBatchActionBar_def showMultiSelectActionBar_def getBatchActiveQ_def onApp_def
      cacheApprovalOptions_def notifyApprovalQueue_def emit_def Let_def
      split: option.splits approvalBody.splits)

lemma rendered_show:
  "stRendered (showActionBar i c S) \<in> {stRendered S, Some i}"
  "stRendered (showOptions i c S) \<in> {stRendered S, Some i}"
  by (simp_all add: showOptions_def showActionBar_def renderBody_def showSingleSectionBar_def
      barShown_def showBatchActionBar_def showMultiSelectActionBar_def getBatchActiveQ_def onApp_def
      cacheApprovalOptions_def notifyApprovalQueue_def emit_def Let_def
      split: option.splits approvalBody.splits)

lemma rendered_hide [simp]: "stRendered (hideActionBar act i S) = None"
  by (simp add: hideActionBar_def Let_def cancelApprovalHintConfirm_def)

lemma active_visible: "activeOf S = Some i \<Longrightarrow> activeOf (setApprovalVisible act i v a fn S) = Some i"
  by (simp add: setApprovalVisible_def Let_def activeOf_def onApp_def sendSessionHint_def emit_def
      notifyApprovalQueue_def enqueueApprovalAutoSwitch_def removeApprovalAutoSwitchTarget_def badge_def)

lemma rendersI:
  "stRendered S' = stRendered S \<Longrightarrow> rendersActive i S S'"
  "stRendered S' = None \<Longrightarrow> rendersActive i S S'"
  "stRendered S' \<in> {stRendered S, Some i} \<Longrightarrow> activeOf S' = Some i \<Longrightarrow> rendersActive i S S'"
  by (auto simp: rendersActive_def)

lemma renders_trans:
  "stRendered T = stRendered S \<Longrightarrow> rendersActive i T S' \<Longrightarrow> rendersActive i S S'"
  by (simp add: rendersActive_def)

lemma renders_show:
  "activeOf S = Some i \<Longrightarrow> rendersActive i S (showActionBar i c S)"
  "activeOf S = Some i \<Longrightarrow> rendersActive i S (showOptions i c S)"
  using rendered_show [of i c S] by (auto simp: rendersActive_def)

lemma renders_show_later:
  "activeOf T = Some i \<Longrightarrow> stRendered T = stRendered S \<Longrightarrow> rendersActive i S (showActionBar i c T)"
  "activeOf T = Some i \<Longrightarrow> stRendered T = stRendered S \<Longrightarrow> rendersActive i S (showOptions i c T)"
  by (rule renders_trans [OF _ renders_show(1)], simp_all) (rule renders_trans [OF _ renders_show(2)], simp_all)

lemma renders_messages:
  "rendersActive i S (showDetected act i c S)" "rendersActive i S (handleHubApprovalMarker act i b t S)"
  "rendersActive i S (handleGoApprovalDetected act (m\<lparr>gmSession := i\<rparr>) S)"
  "rendersActive i S (handleGoApprovalCleared act i sig S)" "rendersActive i S (fireHintConfirm act i S)"
proof -
  show d: "rendersActive i S (showDetected act i c S)" for c S
    by (auto simp: showDetected_def Let_def intro!: renders_show_later intro: rendersI(1))
  show "rendersActive i S (handleHubApprovalMarker act i b t S)"
    by (auto simp: handleHubApprovalMarker_def Let_def intro: rendersI(1) intro!: renders_trans [OF _ d]
        split: option.splits)
  show "rendersActive i S (handleGoApprovalDetected act (m\<lparr>gmSession := i\<rparr>) S)"
    by (auto simp: handleGoApprovalDetected_def Let_def intro: rendersI(1) intro!: renders_trans [OF _ d])
  show "rendersActive i S (handleGoApprovalCleared act i sig S)"
    by (auto simp: handleGoApprovalCleared_def Let_def intro: rendersI(1,2) split: option.splits)
  show "rendersActive i S (fireHintConfirm act i S)"
    by (auto simp: fireHintConfirm_def Let_def intro!: renders_show_later intro: rendersI(1) split: option.splits)
qed

lemma renders_track: "stRendered (trackApprovalHintFromChunk act E i txt S) = stRendered S"
proof -
  have h: "stRendered (trackHidden i S) = stRendered S" for S
    by (simp add: trackHidden_def Let_def)
  have t: "stRendered (trustedFound i b S) = stRendered S" for b S
    by (simp add: trustedFound_def Let_def)
  have f: "stRendered (trackFallback E i lns S) = stRendered S" for lns S
    using h by (simp add: trackFallback_def Let_def)
  have q: "stRendered (trackSequential E i lns ctx S) = stRendered S" for lns ctx S
    using f by (simp add: trackSequential_def Let_def case_prod_beta split: option.splits)
  have m: "stRendered (trackMarked E i lns ctx S) = stRendered S" for lns ctx S
    using t q by (simp add: trackMarked_def split: option.splits)
  have mq: "stRendered (trackMultiQuestion act i S) = stRendered S" for S
    by (simp add: trackMultiQuestion_def Let_def)
  have "stRendered (trackScan act E i S) = stRendered S" for S
    using m mq by (simp add: trackScan_def Let_def)
  then show ?thesis by (simp add: trackApprovalHintFromChunk_def Let_def)
qed

lemma renders_shown_visible:
  "activeOf S = Some i \<Longrightarrow> rendersActive i S T \<Longrightarrow> activeOf T = Some i
    \<Longrightarrow> rendersActive i S (setApprovalVisible act i v a fn (cancelApprovalHintConfirm i T))"
  using active_visible [of "cancelApprovalHintConfirm i T" i act v a fn] by (simp add: rendersActive_def)

lemma renders_found:
  assumes "activeOf S = Some i"
  shows "rendersActive i S (foundNow act i c S)" "rendersActive i S (detectShow act i c S)"
proof -
  have "rendersActive i S (showOptions i c (cacheApprovalOptions i c S))"
    using assms by (intro renders_show_later) simp_all
  with assms show "rendersActive i S (foundNow act i c S)"
    by (simp add: foundNow_def Let_def renders_shown_visible)
  have "rendersActive i S (showActionBar i c (h9Reset i S))"
    using assms by (intro renders_show_later) simp_all
  with assms show "rendersActive i S (detectShow act i c S)"
    by (simp add: detectShow_def Let_def renders_shown_visible)
qed

lemma renders_found_later:
  "activeOf T = Some i \<Longrightarrow> stRendered T = stRendered S \<Longrightarrow> rendersActive i S (foundNow act i c T)"
  "activeOf T = Some i \<Longrightarrow> stRendered T = stRendered S \<Longrightarrow> rendersActive i S (detectShow act i c T)"
  using renders_found renders_trans by blast+

lemma renders_none:
  "activeOf T = Some i \<Longrightarrow> rendersActive i T (detectNothing act E i tl' T)"
  by (simp add: detectNothing_def Let_def renders_show_later rendersI(2) split: option.splits)

lemma renders_switch:
  "activeOf T = Some i \<Longrightarrow> rendersActive i T (detectSwitch act E i new old T)"
  by (simp add: detectSwitch_def Let_def renders_show_later renders_found_later
      split: option.splits prod.splits)

lemma renders_fallback:
  assumes "activeOf T = Some i" "stRendered T = stRendered S"
  shows "rendersActive i S (detectFallback act E i T)"
proof (rule renders_trans [OF assms(2)])
  show "rendersActive i T (detectFallback act E i T)"
    using assms(1)
    by (cases "stRaw T i")
       (simp_all add: detectFallback_def Let_def renders_none renders_switch renders_found_later rendersI(2))
qed

lemma renders_sequential:
  assumes "activeOf T = Some i"
  shows "rendersActive i T (detectSequential act E i T)"
  using assms
  by (simp add: detectSequential_def Let_def case_prod_beta renders_found_later renders_fallback
      renders_show_later split: option.splits)

lemma renders_marked:
  assumes "activeOf T = Some i" "stRendered T = stRendered S"
  shows "rendersActive i S (detectMarked act E i T)"
proof (rule renders_trans [OF assms(2)])
  show "rendersActive i T (detectMarked act E i T)"
    using assms(1) renders_sequential [OF assms(1)]
    by (simp add: detectMarked_def detectTrusted_def renders_found_later rendersI(1) split: option.splits)
qed

lemma end_question:
  "activeOf T = Some i \<Longrightarrow> activeOf (endMultiQuestion act i T) = Some i"
  "stRendered (endMultiQuestion act i T) = stRendered T"
  "stRendered (detectMultiQuestion act i T) = None"
  by (simp_all add: endMultiQuestion_def detectMultiQuestion_def clearActionBarDom_def Let_def active_visible
      split: option.splits)

lemma renders_detect: "rendersActive i S (detectApproval act E i S)"
proof (cases "activeOf S = Some i")
  case True
  have "rendersActive i S (detectScan act E i T)" if "activeOf T = Some i" "stRendered T = stRendered S" for T
    using that by (simp add: detectScan_def Let_def renders_marked end_question rendersI(1,2))
  with True show ?thesis
    by (simp add: detectApproval_def Let_def rendersI(1) scheduleApprovalSuppressRescan_def)
qed (simp add: detectApproval_def rendersActive_def)

definition isDetection :: "op \<Rightarrow> bool" where
  "isDetection op = (case op of Chunk E t \<Rightarrow> True | Detect E \<Rightarrow> True | HubMarker b t \<Rightarrow> True
     | GoDetected m \<Rightarrow> True | GoCleared s \<Rightarrow> True | HintTimer \<Rightarrow> True | ConsumedTimer \<Rightarrow> True
     | BgTimer \<Rightarrow> True | H9Timer \<Rightarrow> True | Hide \<Rightarrow> True | ManualHide \<Rightarrow> True | _ \<Rightarrow> False)"


definition oneBox :: cached where
  "oneBox = plainCache (Single [mkOption 1 (js ''Yes'') False])"

definition confirming :: store where
  "confirming = emptyStore\<lparr>stApp := emptyApp\<lparr>asActive := Some 1\<rparr>,
     stRaw := (\<lambda>_. None)(1 := Some oneBox), stHintTimer := (\<lambda>_. None)(1 := Some (approvalSig (coBody oneBox)))\<rparr>"


end
