(* ===== verification/ApprovalStability.thy ===== *)
theory ApprovalStability
  imports ApprovalRuns
begin

text \<open>
  What the detectors promise over time: a shown prompt is replaced only by one that is seen for
  700 ms, an approval that has left the screen is closed at the third detection and not before,
  and the select-menu guard of the input line is never active.
\<close>

section \<open>Invariants of runs\<close>

text \<open>A system of steps for an actor, and a property that every step keeps.\<close>

locale step_invariant =
  fixes step :: "'i \<Rightarrow> 'o \<Rightarrow> 's \<Rightarrow> 's"
    and keeps :: "'s \<Rightarrow> bool"
  assumes step_keeps: "keeps s \<Longrightarrow> keeps (step i x s)"
begin

lemma run_keeps: "keeps s \<Longrightarrow> keeps (foldl (\<lambda>s (i, x). step i x s) s ops)"
  by (induction ops arbitrary: s) (auto simp: step_keeps)

end

lemma opRun_foldl: "opRun act ops S = foldl (\<lambda>S (i, op). opStep act i op S) S ops"
  by (induction act ops S rule: opRun.induct) simp_all

section \<open>Nothing cached is a select menu\<close>

definition menuFree :: "(int \<Rightarrow> cached option) \<Rightarrow> bool" where
  "menuFree f \<longleftrightarrow> (\<forall>i c. f i = Some c \<longrightarrow> \<not> coMenu c)"

definition noMenu :: "store \<Rightarrow> bool" where
  "noMenu S \<longleftrightarrow> menuFree (stRaw S)"

lemma menuFree_upd [simp]:
  "menuFree f \<Longrightarrow> menuFree (f(i := None))"
  "menuFree f \<Longrightarrow> \<not> coMenu c \<Longrightarrow> menuFree (f(i := Some c))"
  by (simp_all add: menuFree_def)

lemma menuFreeD: "noMenu S \<Longrightarrow> stRaw S i = Some c \<Longrightarrow> \<not> coMenu c"
  by (auto simp: noMenu_def menuFree_def)

lemma raw_basic [simp]:
  "stRaw (onApp f S) = stRaw S" "stRaw (sendSessionHint j v S) = stRaw S"
  "stRaw (notifyApprovalQueue S) = stRaw S" "stRaw (setApprovalVisible act j v a fn S) = stRaw S"
  "stRaw (setMultiQuestionBannerVisible v S) = stRaw S" "stRaw (showBanner j v S) = stRaw S"
  "stRaw (cacheApprovalOptions j c S) = (stRaw S)(j := Some c)"
  "stRaw (clearApprovalOptions j S) = (stRaw S)(j := None)"
  "stRaw (cancelH9Revalidate j S) = stRaw S" "stRaw (scheduleH9Revalidate j S) = stRaw S"
  "stRaw (resetBgApprovalMisses j S) = stRaw S" "stRaw (cancelApprovalHintConfirm j S) = stRaw S"
  "stRaw (setConsumedTimer j S) = stRaw S" "stRaw (clearSingleTabState j S) = stRaw S"
  "stRaw (clearCandidate j S) = stRaw S" "stRaw (scheduleApprovalSuppressRescan j S) = stRaw S"
  "stRaw (h9Reset j S) = stRaw S" "stRaw (trackBgApprovalMiss j ls S) = stRaw S"
  "stRaw (scheduleApprovalHintConfirm j b S) = stRaw S" "stRaw (snd (getSequentialChoiceState j ps S)) = stRaw S"
  "stRaw (setSuppress now j S) = stRaw S" "stRaw (forgetMultiQuestion j S) = stRaw S"
  "stRaw (recordAnswer j S) = stRaw S" "stRaw (sendApprovalConsumed j co t S) = stRaw S"
  by (simp_all add: onApp_def sendSessionHint_def notifyApprovalQueue_def setApprovalVisible_def
      setMultiQuestionBannerVisible_def showBanner_def cacheApprovalOptions_def clearApprovalOptions_def
      cancelH9Revalidate_def scheduleH9Revalidate_def resetBgApprovalMisses_def cancelApprovalHintConfirm_def
      setConsumedTimer_def clearSingleTabState_def clearCandidate_def scheduleApprovalSuppressRescan_def
      h9Reset_def trackBgApprovalMiss_def scheduleApprovalHintConfirm_def getSequentialChoiceState_def
      setSuppress_def forgetMultiQuestion_def recordAnswer_def sendApprovalConsumed_def emit_def Let_def
      split: option.splits)

lemma raw_show [simp]:
  "stRaw (showBatchActionBar j ss S) = stRaw S" "stRaw (showActionBar j c S) = stRaw S"
  "stRaw (showOptions j c S) = (stRaw S)(j := Some c)" "stRaw (snd (getBatchActiveQ j n S)) = stRaw S"
proof -
  show q: "stRaw (snd (getBatchActiveQ j n S)) = stRaw S" for n S
    by (simp add: getBatchActiveQ_def split: option.splits)
  show b: "stRaw (showBatchActionBar j ss S) = stRaw S" for ss S
    by (simp add: showBatchActionBar_def q Let_def split: option.splits)
  show a: "stRaw (showActionBar j c S) = stRaw S" for S
    by (simp add: showActionBar_def renderBody_def barShown_def showSingleSectionBar_def b split: approvalBody.splits)
  show "stRaw (showOptions j c S) = (stRaw S)(j := Some c)"
    by (simp add: showOptions_def a)
qed

lemma noMenu_hide [simp]: "noMenu S \<Longrightarrow> noMenu (hideActionBar act j S)"
  by (simp add: hideActionBar_def noMenu_def Let_def cancelApprovalHintConfirm_def)

lemma plain_no_menu [simp]: "\<not> coMenu (plainCache b)" "\<not> coMenu (sequentialChoiceOptionsForState Q)"
  by (simp_all add: plainCache_def sequentialChoiceOptionsForState_def Let_def)

lemma tag_no_menu: "\<not> prSelectMenu P \<Longrightarrow> \<not> coMenu (tagSelectMenuOptions P)"
  by (simp add: tagSelectMenuOptions_def)

lemma shown_is_no_menu:
  "prVisible (trackPrompt E i lns S) \<Longrightarrow> \<not> prSelectMenu (trackPrompt E i lns S)"
  "prVisible (detectPrompt E i tl' S) \<Longrightarrow> \<not> prSelectMenu (detectPrompt E i tl' S)"
  by (auto simp: trackPrompt_def detectPrompt_def Let_def)

lemma noMenu_track:
  assumes "noMenu S"
  shows "noMenu (trackApprovalHintFromChunk act E i txt S)"
proof -
  have h: "noMenu T \<Longrightarrow> noMenu (trackHidden i T)" for T
    by (simp add: trackHidden_def noMenu_def Let_def)
  have t: "noMenu T \<Longrightarrow> noMenu (trustedFound i b T)" for b T
    by (simp add: trustedFound_def noMenu_def Let_def)
  have f: "noMenu T \<Longrightarrow> noMenu (trackFallback E i lns T)" for lns T
    using h [of T] tag_no_menu [OF shown_is_no_menu(1)]
    by (simp add: trackFallback_def noMenu_def Let_def)
  have q: "noMenu T \<Longrightarrow> noMenu (trackSequential E i lns ctx T)" for lns ctx T
    using f [of "snd (getSequentialChoiceState i ps T)" lns for ps]
      f [of "clearSequentialChoiceState i (snd (getSequentialChoiceState i None T))" lns]
    by (simp add: trackSequential_def Let_def case_prod_beta noMenu_def split: option.splits)
  have m: "noMenu T \<Longrightarrow> noMenu (trackMarked E i lns ctx T)" for lns ctx T
    using t q by (simp add: trackMarked_def split: option.splits)
  have mq: "noMenu T \<Longrightarrow> noMenu (trackMultiQuestion act i T)" for T
    by (simp add: trackMultiQuestion_def noMenu_def Let_def)
  have "noMenu T \<Longrightarrow> noMenu (trackScan act E i T)" for T
    using m [of "T\<lparr>stLatch := l\<rparr>" for l] m [of T] mq [of "T\<lparr>stLatch := l\<rparr>" for l]
    by (simp add: trackScan_def Let_def noMenu_def)
  from this [of "S\<lparr>stTail := t, stSuppress := u\<rparr>" for t u] assms show ?thesis
    by (simp add: trackApprovalHintFromChunk_def Let_def noMenu_def)
qed

lemma noMenu_found:
  "noMenu S \<Longrightarrow> \<not> coMenu c \<Longrightarrow> noMenu (foundNow act i c S)"
  "noMenu S \<Longrightarrow> noMenu (detectShow act i c S)"
  by (simp_all add: foundNow_def detectShow_def noMenu_def Let_def)

lemma noMenu_none: "noMenu S \<Longrightarrow> noMenu (detectNothing act E i tl' S)"
  using menuFreeD [of S i] noMenu_hide [of "h9Reset i S"] noMenu_hide [of S]
  by (simp add: detectNothing_def Let_def noMenu_def split: option.splits)

lemma noMenu_switch:
  "noMenu S \<Longrightarrow> \<not> coMenu new \<Longrightarrow> noMenu (detectSwitch act E i new old S)"
  using noMenu_found(2) [of "clearCandidate i S"] noMenu_found(2) [of "cacheApprovalOptions i new (clearCandidate i S)"]
  by (simp add: detectSwitch_def Let_def noMenu_def split: option.splits prod.splits)

lemma noMenu_fallback: "noMenu S \<Longrightarrow> noMenu (detectFallback act E i S)"
  using noMenu_none [of S] noMenu_switch [of S] noMenu_found(2) [of S] noMenu_found(2) [of "clearCandidate i S"]
    noMenu_hide [of "setConsumedTimer i S"] tag_no_menu [OF shown_is_no_menu(2)]
  by (simp add: detectFallback_def Let_def noMenu_def split: option.splits)

lemma noMenu_marked: "noMenu S \<Longrightarrow> noMenu (detectMarked act E i S)"
proof -
  assume a: "noMenu S"
  have n: "noMenu T \<Longrightarrow> stRaw T i = Some c \<Longrightarrow> noMenu (showOptions i c T)" for T c
    using menuFreeD [of T i c] by (simp add: noMenu_def)
  have s: "noMenu (snd (getSequentialChoiceState i ps S))"
    "noMenu (clearSequentialChoiceState i (snd (getSequentialChoiceState i ps S)))" for ps
    using a by (simp_all add: noMenu_def)
  have q: "noMenu (detectSequential act E i S)"
    using s [THEN noMenu_fallback] s [THEN noMenu_found(1), OF plain_no_menu(2)] s [THEN n]
    by (simp add: detectSequential_def Let_def case_prod_beta split: option.splits)
  have "noMenu (foundNow act i (plainCache b) (S\<lparr>stConsumedTimer := x, stConsumed := y\<rparr>))" for b x y
    using a by (intro noMenu_found) (simp_all add: noMenu_def)
  with a q show ?thesis
    by (simp add: detectMarked_def detectTrusted_def split: option.splits)
qed

lemma noMenu_detect: "noMenu S \<Longrightarrow> noMenu (detectApproval act E i S)"
proof -
  have q: "noMenu T \<Longrightarrow> noMenu (detectMultiQuestion act i T)" "noMenu T \<Longrightarrow> noMenu (endMultiQuestion act i T)" for T
    by (simp_all add: detectMultiQuestion_def endMultiQuestion_def clearActionBarDom_def noMenu_def Let_def
        split: option.splits)
  have sc: "noMenu T \<Longrightarrow> noMenu (detectScan act E i T)" for T
    using noMenu_marked [OF q(2), of T] noMenu_marked [of T]
      noMenu_marked [of "T\<lparr>stLatch := l\<rparr>" for l] q(1) [of "T\<lparr>stLatch := l\<rparr>" for l]
      noMenu_marked [of "showBanner i False (T\<lparr>stLatch := l, stMultiQ := m\<rparr>)" for l m]
    by (simp add: detectScan_def Let_def noMenu_def)
  assume "noMenu S"
  then show ?thesis
    using sc [of "S\<lparr>stSuppress := u\<rparr>" for u] by (simp add: detectApproval_def Let_def noMenu_def)
qed

lemma noMenu_messages:
  assumes "noMenu S"
  shows "noMenu (handleHubApprovalMarker act i b t S)" "noMenu (handleGoApprovalDetected act m S)"
    "noMenu (handleGoApprovalCleared act i sig S)" "noMenu (fireHintConfirm act i S)"
    "noMenu (fireBgClear act i S)" "noMenu (fireH9Revalidate i S)"
proof -
  have g: "\<not> coMenu ((plainCache b)\<lparr>coRisk := r, coSource := s\<rparr>)" for b r s by (simp add: plainCache_def)
  have d: "noMenu T \<Longrightarrow> \<not> coMenu c \<Longrightarrow> noMenu (showDetected act i c T)" for i c T
    by (simp add: showDetected_def Let_def noMenu_def)
  show "noMenu (handleHubApprovalMarker act i b t S)"
    using assms by (auto simp: handleHubApprovalMarker_def Let_def intro!: d split: option.splits) (simp add: noMenu_def)
  show "noMenu (handleGoApprovalDetected act m S)"
    using assms g by (auto simp: handleGoApprovalDetected_def Let_def intro!: d) (simp_all add: noMenu_def)
  show "noMenu (handleGoApprovalCleared act i sig S)"
    using assms
    by (auto simp: handleGoApprovalCleared_def Let_def intro!: noMenu_hide split: option.splits) (simp_all add: noMenu_def)
  show "noMenu (fireHintConfirm act i S)"
    using assms menuFreeD [OF assms, of i] by (simp add: fireHintConfirm_def Let_def noMenu_def split: option.splits)
  show "noMenu (fireBgClear act i S)" "noMenu (fireH9Revalidate i S)"
    using assms by (simp_all add: fireBgClear_def fireH9Revalidate_def noMenu_def Let_def)
qed

lemma noMenu_answer: "noMenu S \<Longrightarrow> noMenu (giveAnswer act now dialog i a S)"
proof -
  assume a: "noMenu S"
  have c: "noMenu T \<Longrightarrow> noMenu (closeAnswer act now i T)" for T
    using noMenu_hide [of T act i] by (simp add: closeAnswer_def noMenu_def)
  have q: "noMenu (sendSequential act now i n Q S)" for n Q
    using a by (auto simp: sendSequential_def Let_def noMenu_def [symmetric] intro!: c)
      (simp_all add: noMenu_def)
  have g: "noMenu (sendSingle act now i n S)" for n
    using a by (simp add: sendSingle_def Let_def) (rule c, simp add: noMenu_def)
  have e: "noMenu (setSuppress now i (hideActionBar act i T))" if "stRaw T = stRaw S" for T
    using noMenu_hide [of T act i] a that by (simp add: noMenu_def)
  show ?thesis
  proof (cases a)
    case (Choice n ok)
    then show ?thesis using a q g by (simp add: sendChoice_def noMenu_def split: option.splits)
  next
    case FreeText
    have "noMenu (emit ev (T\<lparr>stDismissed := d\<rparr>)) = noMenu T" for ev T d by (simp add: noMenu_def)
    then show ?thesis using a FreeText by (simp add: sendSingleFreeText_def Let_def e)
  next
    case BatchAnswer
    have "noMenu (emit ev (T\<lparr>stSel := x, stFree := y, stActiveQ := z, stDismissed := d\<rparr>)) = noMenu T" for ev T x y z d
      by (simp add: noMenu_def)
    then show ?thesis using a BatchAnswer by (simp add: sendBatchChoices_def Let_def e)
  next
    case MultiAnswer
    have "noMenu (emit ev (T\<lparr>stMulti := d\<rparr>)) = noMenu T" for ev T d by (simp add: noMenu_def)
    then show ?thesis using a MultiAnswer by (simp add: sendMultiSelectChoices_def Let_def e)
  qed
qed

lemma raw_picks:
  "stRaw (activateSingleFree i S) = stRaw S" "stRaw (setSingleFreeText i t S) = stRaw S"
  "stRaw (selectBatchOption i k n S) = stRaw S" "stRaw (clearBatchSelections i S) = stRaw S"
  "stRaw (snd (toggleMultiSelectOption i n S)) = stRaw S"
  "stRaw (clearMultiSelectSelections i S) = stRaw S" "stRaw (selectAllMultiSelectOptions i S) = stRaw S"
  by (simp_all add: activateSingleFree_def setSingleFreeText_def selectBatchOption_def setBatchActiveQ_def
      rerenderBatch_def clearBatchSelections_def toggleMultiSelectOption_def rerenderMulti_def
      clearMultiSelectSelections_def selectAllMultiSelectOptions_def Let_def split: option.splits)

lemma raw_keys:
  "stRaw (snd (handleBatchNumberKey i n S)) = stRaw S"
  "stRaw (snd (handleMultiSelectNumberKey i n S)) = stRaw S"
  "stRaw (fireConsumedTimer i S) = stRaw S" "stRaw (manuallyHideActionBar i S) = stRaw S"
  "stRaw (reshowActionBar i S) = stRaw S"
  by (simp_all add: handleBatchNumberKey_def handleMultiSelectNumberKey_def fireConsumedTimer_def
      manuallyHideActionBar_def reshowActionBar_def raw_picks Let_def case_prod_beta split: option.splits)

interpretation menu: step_invariant "opStep act" noMenu for act
proof
  fix S i op assume "noMenu S"
  moreover have "noMenu (fireSuppressRescan act E i S)" for E
    using noMenu_detect [of "S\<lparr>stRescan := r\<rparr>" for r] \<open>noMenu S\<close>
    by (simp add: fireSuppressRescan_def noMenu_def)
  ultimately show "noMenu (opStep act i op S)"
    by (cases op) (simp_all add: noMenu_track noMenu_detect noMenu_messages noMenu_answer,
        simp_all add: noMenu_def raw_picks raw_keys)
qed

text \<open>
  The guard that holds back typed text while a select menu is shown never fires: whatever
  chunks, detections, messages, timers and answers run, from an empty store no session is ever in
  the state the guard asks for, because options tagged as a select menu are never cached.
\<close>

theorem select_menu_guard_never_fires:
  "\<not> isSelectMenuActive i (opRun act ops emptyStore)"
proof -
  have "noMenu emptyStore" by (simp add: noMenu_def menuFree_def emptyStore_def)
  from menu.run_keeps [OF this, of act ops] have "noMenu (opRun act ops emptyStore)"
    by (simp add: opRun_foldl)
  from menuFreeD [OF this] show ?thesis
    by (auto simp: isSelectMenuActive_def split: option.splits)
qed

section \<open>A shown prompt is not replaced by a flicker\<close>

lemma raw_hide: "visibleOf S i \<Longrightarrow> stRaw (hideActionBar act i S) i = None"
  by (simp add: hideActionBar_def Let_def cancelApprovalHintConfirm_def visibleOf_def onApp_def
      cancelH9Revalidate_def resetBgApprovalMisses_def clearSequentialChoiceState_def clearSingleTabState_def)

lemma raw_shown: "stRaw (detectShow act i c S) = stRaw S"
  by (simp add: detectShow_def Let_def)

lemma visible_basic [simp]:
  "visibleOf (h9Reset i S) j = visibleOf S j" "visibleOf (setConsumedTimer i S) j = visibleOf S j"
  "visibleOf (S\<lparr>stH9Misses := f\<rparr>) j = visibleOf S j" "visibleOf (scheduleH9Revalidate i S) j = visibleOf S j"
  by (simp_all add: visibleOf_def h9Reset_def cancelH9Revalidate_def setConsumedTimer_def scheduleH9Revalidate_def)

lemma none_keeps_raw:
  assumes "visibleOf S i" "stRaw S i = Some old" "stRaw (detectNothing act E i tl' S) i = Some new"
  shows "new = old"
  using assms by (auto simp: detectNothing_def Let_def raw_hide split: if_split_asm)

text \<open>
  C21: The options shown for an approval are replaced by a differently signed heuristic detection
  only when the same signature was already the candidate at least 700 ms earlier: a redraw that
  mixes two screens, or alternates between them, never changes what the user is about to answer.
\<close>

theorem prompt_switch_is_stable:
  assumes "visibleOf S i" "stRaw S i = Some old" "\<not> emptyBody (coBody old)" "\<not> isBatchOptions (coBody old)"
    and "stRaw (detectFallback act E i S) i = Some new" "approvalSig (coBody new) \<noteq> approvalSig (coBody old)"
  shows "\<exists>since. stSwitchCand S i = Some (approvalSig (coBody new), since) \<and> since + 700 \<le> enNow E"
proof -
  let ?tl = "tailLines 120 (tailOf i S)"
  let ?new = "tagSelectMenuOptions (detectPrompt E i ?tl S)"
  have no: "stRaw (detectNothing act E i ?tl S) i \<noteq> Some new"
    using none_keeps_raw [OF assms(1,2)] assms(6) by blast
  have hid: "stRaw (hideActionBar act i (setConsumedTimer i S)) i \<noteq> Some new"
    using assms(1) by (simp add: raw_hide)
  have "detectFallback act E i S = detectSwitch act E i ?new old S"
    using assms(1-5) no hid by (auto simp: detectFallback_def Let_def split: if_split_asm)
  with assms(5) have "stRaw (detectSwitch act E i ?new old S) i = Some new" by simp
  with assms(2,6) show ?thesis
    by (auto simp: detectSwitch_def Let_def raw_shown SWITCH_STABLE_MS_def
        split: if_split_asm option.splits prod.splits)
qed

section \<open>A solved approval closes at the third miss\<close>

definition offScreen :: "env \<Rightarrow> cached \<Rightarrow> bool" where
  "offScreen E c \<longleftrightarrow> enAttached E \<and> \<not> cachedOptionsOnScreen (lastN (bufferCount E) (enScreen E)) (coBody c)"

definition showing :: "int \<Rightarrow> cached \<Rightarrow> nat \<Rightarrow> store \<Rightarrow> bool" where
  "showing i c k S \<longleftrightarrow> activeOf S = Some i \<and> visibleOf S i \<and> stTail S i \<noteq> None
     \<and> stRaw S i = Some c \<and> stH9Misses S i = k"

lemma off_screen:
  assumes "showing i c k S" "offScreen E c"
  shows "\<not> stillOnScreen E i tl' c S"
  using assms by (auto simp: stillOnScreen_def detectBuffer_def showing_def offScreen_def)

lemma shown_keeps:
  "stTail (showOptions i c S) = stTail S" "stH9Misses (showOptions i c S) = stH9Misses S"
  "stH9Timer (showOptions i c S) = stH9Timer S" "visibleOf (showOptions i c S) j = visibleOf S j"
  by (simp_all add: visibleOf_def showOptions_def showActionBar_def renderBody_def showSingleSectionBar_def
      barShown_def showBatchActionBar_def showMultiSelectActionBar_def getBatchActiveQ_def onApp_def
      cacheApprovalOptions_def notifyApprovalQueue_def emit_def Let_def
      split: option.splits approvalBody.splits)

lemma miss_step:
  assumes "showing i c k S" "offScreen E c" "\<not> emptyBody (coBody c)" "Suc k < 3"
  shows "showing i c (Suc k) (detectNothing act E i tl' S)" "stH9Timer (detectNothing act E i tl' S) i"
proof -
  have "detectNothing act E i tl' S =
      showOptions i c (scheduleH9Revalidate i (S\<lparr>stH9Misses := (stH9Misses S)(i := Suc k)\<rparr>))"
    using off_screen [OF assms(1,2)] assms(1,3,4)
    by (simp add: detectNothing_def showing_def H9_RESTORE_MISS_LIMIT_def Let_def)
  with assms(1) show "showing i c (Suc k) (detectNothing act E i tl' S)"
    "stH9Timer (detectNothing act E i tl' S) i"
    by (simp_all add: showing_def shown_keeps) (simp_all add: scheduleH9Revalidate_def)
qed

text \<open>
  When an approval was answered in the terminal itself, the three next detections that find
  neither a prompt nor the cached options on the screen close it, and not an earlier one: the first
  two keep the bar and schedule another detection, so that the third comes even if the session
  stays silent; the third forgets the options, empties the bar and forgets the pending text.
\<close>

theorem closes_at_third_miss:
  assumes "activeOf S = Some i" "visibleOf S i" "stTail S i \<noteq> None" "stRaw S i = Some c"
    and "stH9Misses S i = 0" "\<not> emptyBody (coBody c)"
    and "\<forall>E \<in> {E1, E2, E3}. enAttached E
           \<and> \<not> cachedOptionsOnScreen (lastN (bufferCount E) (enScreen E)) (coBody c)"
    and "T1 = detectNothing act E1 i l1 S" "T2 = detectNothing act E2 i l2 T1"
    and "T3 = detectNothing act E3 i l3 T2"
  shows "stRaw T1 i = Some c \<and> stH9Timer T1 i \<and> stRaw T2 i = Some c \<and> stH9Timer T2 i
    \<and> stRaw T3 i = None \<and> stRendered T3 = None \<and> stTail T3 i = Some []"
proof -
  have off: "offScreen E1 c" "offScreen E2 c" "offScreen E3 c"
    using assms(7) by (simp_all add: offScreen_def)
  have s0: "showing i c 0 S" using assms(1-5) by (simp add: showing_def)
  have s1: "showing i c 1 T1" "stH9Timer T1 i"
    using miss_step [OF s0 off(1) assms(6)] by (simp_all add: assms(8))
  have s2: "showing i c 2 T2" "stH9Timer T2 i"
    using miss_step [OF s1(1) off(2) assms(6)] by (simp_all add: assms(9) numeral_2_eq_2)
  have T3: "T3 = hideActionBar act i (h9Reset i T2)"
    using off_screen [OF s2(1) off(3)] s2(1) assms(6)
    by (simp add: assms(10) detectNothing_def showing_def H9_RESTORE_MISS_LIMIT_def Let_def)
  have tail: "stTail (hideActionBar act i U) i = Some []" if "visibleOf U i" "stTail U i \<noteq> None" for U
    using that
    by (auto simp: hideActionBar_def Let_def cancelApprovalHintConfirm_def visibleOf_def onApp_def
        cancelH9Revalidate_def resetBgApprovalMisses_def clearSequentialChoiceState_def
        clearSingleTabState_def setConsumedTimer_def clearApprovalOptions_def setApprovalVisible_def
        notifyApprovalQueue_def sendSessionHint_def emit_def)
  have v: "visibleOf (h9Reset i T2) i" "stTail (h9Reset i T2) i \<noteq> None"
    using s2(1) by (simp add: showing_def, simp add: showing_def h9Reset_def cancelH9Revalidate_def)
  show ?thesis
    using s1 s2 raw_hide [OF v(1)] tail [OF v] by (simp add: showing_def T3)
qed

definition blankScreen :: env where
  "blankScreen = \<lparr>enProvider = js ''claude'', enAttached = True, enRows = 24, enScreen = [], enNow = 1000,
     enTriggers = \<lambda>_. [], enCommon = []\<rparr>"

definition asking :: store where
  "asking = emptyStore\<lparr>stApp := emptyApp\<lparr>asActive := Some 1, asVisible := (\<lambda>_. False)(1 := True)\<rparr>,
     stRaw := (\<lambda>_. None)(1 := Some oneBox),
     stTail := (\<lambda>_. None)(1 := Some (join [10] (map js
       [''Do you want to proceed?'', ''> 1. Go'', ''  2. No''])))\<rparr>"

theorem closes_at_third_miss_witness:
  "let step = detectNothing (\<lambda>_ A. A) blankScreen 1 [] in
   stRaw (step (step asking)) 1 = Some oneBox \<and> stRaw (step (step (step asking))) 1 = None"
proof -
  have s: "activeOf asking = Some 1" "visibleOf asking 1" "stTail asking 1 \<noteq> None"
    "stRaw asking 1 = Some oneBox" "stH9Misses asking 1 = 0" "\<not> emptyBody (coBody oneBox)"
    by (simp_all add: asking_def emptyStore_def emptyApp_def activeOf_def visibleOf_def oneBox_def
        plainCache_def emptyBody_def)
  have "\<not> cachedOptionsOnScreen (lastN (bufferCount blankScreen) (enScreen blankScreen)) (coBody oneBox)"
    by (simp add: cachedOptionsOnScreen_def blankScreen_def lastN_def oneBox_def plainCache_def bodyOptions_def Let_def)
  then show ?thesis
    using closes_at_third_miss [OF s, of blankScreen blankScreen blankScreen _ "\<lambda>_ A. A" "[]" _ "[]" _ "[]", OF _ refl refl refl]
    by (simp add: blankScreen_def Let_def)
qed

definition laterAsking :: store where
  "laterAsking = asking\<lparr>stSwitchCand := (\<lambda>_. None)(1 := Some
     (approvalSig (Single [mkOption 1 (js ''Go'') True, mkOption 2 (js ''No'') False]), 300))\<rparr>"

lemma laterAsking_prompt:
  "detectPrompt blankScreen 1 (tailLines 120 (tailOf 1 laterAsking)) laterAsking
    = \<lparr>prOptions = [mkOption 1 (js ''Go'') True, mkOption 2 (js ''No'') False], prVisible = True,
       prSelectMenu = False\<rparr>"
  by code_simp

lemma laterAsking_shown:
  "prVisible (detectPrompt blankScreen 1 (tailLines 120 (tailOf 1 laterAsking)) laterAsking)"
  "prOptions (detectPrompt blankScreen 1 (tailLines 120 (tailOf 1 laterAsking)) laterAsking)
    = [mkOption 1 (js ''Go'') True, mkOption 2 (js ''No'') False]"
  by (simp_all add: laterAsking_prompt)

theorem prompt_switch_is_stable_witness:
  "\<exists>new. stRaw (detectFallback (\<lambda>_ A. A) blankScreen 1 laterAsking) 1 = Some new
     \<and> approvalSig (coBody new) \<noteq> approvalSig (coBody oneBox)
     \<and> (\<exists>since. stSwitchCand laterAsking 1 = Some (approvalSig (coBody new), since) \<and> since + 700 \<le> 1000)"
proof -
  let ?os = "[mkOption 1 (js ''Go'') True, mkOption 2 (js ''No'') False]"
  let ?new = "tagSelectMenuOptions (detectPrompt blankScreen 1 (tailLines 120 (tailOf 1 laterAsking)) laterAsking)"
  have body: "coBody ?new = Single ?os"
    by (simp add: tagSelectMenuOptions_def laterAsking_shown plainCache_def)
  have sigs: "approvalSig (Single ?os) \<noteq> approvalSig (coBody oneBox)" by code_simp
  have st: "visibleOf laterAsking 1" "stRaw laterAsking 1 = Some oneBox" "stConsumed laterAsking 1 = None"
    "stSwitchCand laterAsking 1 = Some (approvalSig (Single ?os), 300)"
    "\<not> emptyBody (coBody oneBox)" "\<not> isBatchOptions (coBody oneBox)" "enNow blankScreen = 1000"
    by (simp_all add: laterAsking_def asking_def emptyStore_def emptyApp_def visibleOf_def oneBox_def
        plainCache_def emptyBody_def isBatchOptions_def blankScreen_def)
  have new: "stRaw (detectFallback (\<lambda>_ A. A) blankScreen 1 laterAsking) 1 = Some ?new"
    using sigs by (simp add: detectFallback_def Let_def laterAsking_shown st detectSwitch_def body raw_shown
        SWITCH_STABLE_MS_def)
  from prompt_switch_is_stable [OF st(1,2,5,6) new] sigs st(7)
  show ?thesis using new by (simp add: body st(4))
qed

section \<open>Trust is lost when a block is seen twice\<close>

text \<open>
  \<open>trackApprovalHintFromChunk\<close> marks a detection as trusted and then schedules its confirmation,
  which cancels a pending one together with the mark. A block that is still in the tail when the next
  chunk comes is therefore no longer protected against the fallback.
\<close>

lemma trust_lost_on_redetection:
  assumes "\<not> emptyBody b" "stConsumed S i \<noteq> Some (approvalSig b)"
  shows "stHintTrusted (trustedFound i b S) i = (stHintTimer S i = None)"
    "stHintTimer (trustedFound i b S) i = Some (approvalSig b)"
  using assms
  by (auto simp: trustedFound_def scheduleApprovalHintConfirm_def cancelApprovalHintConfirm_def
      resetBgApprovalMisses_def cacheApprovalOptions_def notifyApprovalQueue_def emit_def Let_def)

end
