(* ===== verification/RegexFacts.thy ===== *)
theory RegexFacts
  imports RegexLang
begin

text \<open>
  More facts about matches: the text a global match consumes, a capture in the middle of a global
  match, expressions anchored at the beginning of the input, expressions without assertions on
  longer inputs, and the pieces of a string between its matches.
\<close>

section \<open>Texts of matches\<close>

lemma state_text:
  assumes "st_of s x" "consumes x u y"
  shows "substring s (pos x) (pos y) = u" "st_of s y"
proof -
  from assms(1) obtain t where t: "s = t @ rest x" "pos x = int (length t)"
    by (auto simp: st_of_def)
  show "substring s (pos x) (pos y) = u"
    using t assms(2) by (simp add: consumes_def substring_def)
  show "st_of s y"
    using t assms(2) by (auto simp: consumes_def st_of_def intro: exI [of _ "t @ u"])
qed

lemma exec_all_text:
  assumes "m \<in> set (exec_all ic re s)"
  shows "m_text m \<in> lang ic re" "m_end m = m_index m + int (length (m_text m))"
proof -
  from exec_all_den [OF assms] obtain x y where x: "st_of s x" "y \<in> den ic re x"
      "m = RM (pos x) (pos y) (caps y) s" by metis
  from den_lang [OF x(2)] obtain u where u: "u \<in> lang ic re" "consumes x u y" by blast
  have "m_text m = u"
    using state_text(1) [OF x(1) u(2)] x(3) by (simp add: m_text_def)
  with u x(3) show "m_text m \<in> lang ic re" "m_end m = m_index m + int (length (m_text m))"
    by (simp_all add: consumes_def)
qed

lemma exec_all_capture:
  assumes "m \<in> set (exec_all ic (RSeq a (RSeq (RGrp n g) b)) s)" "groups b = []"
  obtains u v w where "m_text m = u @ v @ w" "grp m n = v"
    "u \<in> lang ic a" "v \<in> lang ic g" "w \<in> lang ic b"
proof -
  from exec_all_den [OF assms(1)] obtain x y where xy: "st_of s x"
      "y \<in> den ic (RSeq a (RSeq (RGrp n g) b)) x" "m = RM (pos x) (pos y) (caps y) s"
    by metis
  from xy(2) obtain x1 x2 where d: "x1 \<in> den ic a x" "x2 \<in> den ic g x1"
      "y \<in> den ic b (St (pos x2) (prev x2) (rest x2) ((n, pos x1, pos x2) # caps x2))"
    by auto
  from den_lang [OF d(1)] obtain u where u: "u \<in> lang ic a" "consumes x u x1" by blast
  from den_lang [OF d(2)] obtain v where v: "v \<in> lang ic g" "consumes x1 v x2" by blast
  from den_lang [OF d(3)] obtain w where w: "w \<in> lang ic b"
      "consumes (St (pos x2) (prev x2) (rest x2) ((n, pos x1, pos x2) # caps x2)) w y" by blast
  have "consumes x (u @ v @ w) y"
    using u(2) v(2) w(2) by (simp add: consumes_def)
  from state_text(1) [OF xy(1) this] have "m_text m = u @ v @ w"
    using xy(3) by (simp add: m_text_def)
  moreover have "caps y = (n, pos x1, pos x2) # caps x2"
    using den_no_groups [OF d(3) assms(2)] by simp
  then have "grp m n = v"
    using xy(3) state_text(1) [OF state_text(2) [OF xy(1) u(2)] v(2)]
    by (simp add: grp_def m_group_def)
  ultimately show thesis using that u v w by blast
qed

section \<open>Anchored expressions\<close>

lemma seek_bol: "seek ic (RSeq RBol r) p (Some c) s = None"
  by (induction s arbitrary: p c) auto

lemma exec_bol: "exec ic (RSeq RBol r) s = Some m \<Longrightarrow> m_index m = 0"
  by (cases s) (auto simp: exec_def find_at_def start_def seek_bol split: option.splits if_splits)

lemma replace_first_bol:
  "\<exists>n. replace_first ic (RSeq RBol r) (\<lambda>_. []) s = drop n s"
proof (cases "exec ic (RSeq RBol r) s")
  case None
  then show ?thesis by (auto simp: replace_first_def intro: exI [of _ 0])
next
  case (Some m)
  with exec_bol [OF Some] show ?thesis
    by (auto simp: replace_first_def)
qed

section \<open>Expressions without assertions\<close>

primrec no_assertion :: "rx \<Rightarrow> bool" where
  "no_assertion REps = True"
| "no_assertion (RCls C) = True"
| "no_assertion (RSeq a b) = (no_assertion a \<and> no_assertion b)"
| "no_assertion (RAlt a b) = (no_assertion a \<and> no_assertion b)"
| "no_assertion (RRep g mn mx r) = no_assertion r"
| "no_assertion (RGrp n r) = no_assertion r"
| "no_assertion RBol = False"
| "no_assertion REol = False"
| "no_assertion RWordB = False"
| "no_assertion (RLook neg r) = False"

text \<open>A relation that depends only on what is left of the input.\<close>

definition moves :: "(st \<Rightarrow> st set) \<Rightarrow> bool" where
  "moves R \<longleftrightarrow> (\<forall>x y x'. y \<in> R x \<longrightarrow> rest x' = rest x \<longrightarrow> (\<exists>y' \<in> R x'. rest y' = rest y))"

lemma movesD: "moves R \<Longrightarrow> y \<in> R x \<Longrightarrow> rest x' = rest x \<Longrightarrow> \<exists>y' \<in> R x'. rest y' = rest y"
  by (auto simp: moves_def)

lemma must_den_moved:
  assumes "moves R"
  shows "y \<in> must_den n R gs x \<Longrightarrow> rest x' = rest x \<Longrightarrow> \<exists>y' \<in> must_den n R gs x'. rest y' = rest y"
proof (induction n arbitrary: x x')
  case (Suc n)
  then obtain z where z: "z \<in> R (forget gs x)" "y \<in> must_den n R gs z" by auto
  with movesD [OF assms, of z "forget gs x" "forget gs x'"] Suc.prems obtain z' where
    z': "z' \<in> R (forget gs x')" "rest z' = rest z" by auto
  from Suc.IH [OF z(2) z'(2)] z'(1) show ?case by auto
qed simp

lemma iter1_moved:
  assumes m: "moves R"
    and a: "\<And>x y. y \<in> R x \<Longrightarrow> along x y"
  shows "(x, y) \<in> iter1 R gs ^^ j \<Longrightarrow> rest x' = rest x
    \<Longrightarrow> \<exists>y'. (x', y') \<in> iter1 R gs ^^ j \<and> rest y' = rest y"
proof (induction j arbitrary: y)
  case (Suc j)
  then obtain z where z: "(x, z) \<in> iter1 R gs ^^ j" "(z, y) \<in> iter1 R gs" by auto
  from Suc.IH [OF z(1) Suc.prems(2)] obtain z' where
    z': "(x', z') \<in> iter1 R gs ^^ j" "rest z' = rest z" by blast
  from z(2) have y: "y \<in> R (forget gs z)" "pos y \<noteq> pos z" by (auto simp: iter1_def)
  from movesD [OF m y(1), of "forget gs z'"] z' obtain y' where
    y': "y' \<in> R (forget gs z')" "rest y' = rest y" by auto
  have "along z y" "along z' y'"
    using a [OF y(1)] a [OF y'(1)] by simp_all
  from this [THEN along_length] have "pos y' \<noteq> pos z'"
    using y(2) y'(2) z'(2) by simp
  with z'(1) y' show ?case by (auto simp: iter1_def)
qed auto

lemma den_moved:
  "y \<in> den ic r x \<Longrightarrow> rest x' = rest x \<Longrightarrow> no_assertion r \<Longrightarrow> \<exists>y' \<in> den ic r x'. rest y' = rest y"
proof (induction r arbitrary: x y x')
  case (RCls C)
  then show ?case by (auto split: list.splits if_splits)
next
  case (RSeq a b)
  then obtain z where z: "z \<in> den ic a x" "y \<in> den ic b z" "no_assertion a" "no_assertion b" by auto
  from RSeq.IH(1) [OF z(1) RSeq.prems(2) z(3)] obtain z' where
    z': "z' \<in> den ic a x'" "rest z' = rest z" by blast
  from RSeq.IH(2) [OF z(2) z'(2) z(4)] z'(1) show ?case by auto
next
  case (RAlt a b)
  from RAlt.prems have r: "rest x' = rest x" "no_assertion a" "no_assertion b" by auto
  from RAlt.prems(1) have "y \<in> den ic a x \<or> y \<in> den ic b x" by auto
  then show ?case
    using RAlt.IH(1) [OF _ r(1,2)] RAlt.IH(2) [OF _ r(1,3)] by (simp add: bex_Un) blast
next
  case (RRep g mn mx r)
  then obtain z j where z: "z \<in> must_den mn (den ic r) (groups r) x"
      "within (map_option (\<lambda>n. n - mn) mx) j" "(z, y) \<in> iter1 (den ic r) (groups r) ^^ j"
    by (auto simp: loop_den_def)
  have m: "moves (den ic r)"
    using RRep.IH RRep.prems(3) by (simp add: moves_def)
  from must_den_moved [OF m z(1) RRep.prems(2)] obtain z' where
    z': "z' \<in> must_den mn (den ic r) (groups r) x'" "rest z' = rest z" by blast
  obtain y' where
    "(z', y') \<in> iter1 (den ic r) (groups r) ^^ j" "rest y' = rest y"
    using iter1_moved [OF m _ z(3) z'(2)] by (blast intro: den_along)
  with z'(1) z(2) show ?case by (auto simp: loop_den_def)
next
  case (RGrp n r)
  then show ?case by fastforce
qed auto

lemma run_moved:
  "no_assertion r \<Longrightarrow> rest x' = rest x \<Longrightarrow> run ic r Some x \<noteq> None \<Longrightarrow> run ic r Some x' \<noteq> None"
  unfolding run_Some_iff using den_moved [of _ ic r x x'] by blast

lemma seek_moved:
  "no_assertion r \<Longrightarrow> seek ic r p q s \<noteq> None \<Longrightarrow> seek ic r p' q' (u @ s) \<noteq> None"
proof (induction u arbitrary: p' q')
  case Nil
  then show ?case
  proof (induction s arbitrary: p q p' q')
    case Nil
    then show ?case using run_moved [of r "St p' q' [] []" "St p q [] []" ic] by simp
  next
    case (Cons c s)
    show ?case
    proof (cases "run ic r Some (St p q (c # s) [])")
      case None
      with Cons show ?thesis by (auto split: option.splits)
    next
      case (Some y)
      then show ?thesis
        using run_moved [of r "St p' q' (c # s) []" "St p q (c # s) []" ic] Cons.prems(1)
        by (auto split: option.splits)
    qed
  qed
next
  case (Cons c u)
  then show ?case by (auto split: option.splits)
qed

lemma test_suffix: "no_assertion r \<Longrightarrow> test ic r s \<Longrightarrow> test ic r (u @ s)"
  using seek_moved [of r ic 0 None s 0 None u]
  by (auto simp: test_def find_at_def start_def split: option.splits)

text \<open>The number of matches of one class.\<close>

lemma length_find_all_class:
  "length (find_all ic (RCls C) (St p q r cs)) = length (filter (in_class ic C) r)"
  by (induction r arbitrary: p q cs) (simp_all add: find_all_class)

lemma length_exec_all_class: "length (exec_all ic (RCls C) s) = length (filter (in_class ic C) s)"
  by (simp add: exec_all_def start_def length_find_all_class)

lemma test_class: "test ic (RCls C) s \<longleftrightarrow> (\<exists>c \<in> set s. in_class ic C c)"
proof -
  have "test ic (RCls C) s \<longleftrightarrow> length (exec_all ic (RCls C) s) \<noteq> 0"
    by (simp add: test_exec exec_all_Nil_iff)
  then show ?thesis by (auto simp: length_exec_all_class filter_empty_conv)
qed

section \<open>Pieces of a string\<close>

lemma drop_substring:
  assumes "0 \<le> a" "a \<le> b" "b \<le> int (length s)"
  shows "drop (nat a) s = substring s a b @ drop (nat b) s"
proof -
  have "drop (nat b) s = drop (nat (b - a)) (drop (nat a) s)"
    using assms by (simp add: nat_diff_distrib)
  then show ?thesis by (metis append_take_drop_id substring_def)
qed

lemma slice_substring:
  assumes "0 \<le> a" "a \<le> b" "b \<le> int (length s)"
  shows "slice s a b = substring s a b"
proof -
  have "min (nat b) (length s) = nat b" "min (nat a) (length s) = nat a"
    using assms by simp_all
  with assms show ?thesis
    by (simp add: slice_def slice_pos_def substring_def drop_take nat_diff_distrib)
qed

lemma slice_from_drop: "0 \<le> a \<Longrightarrow> slice_from s a = drop (nat a) s"
  by (auto simp: slice_from_def slice_pos_def min_def)

end
