(* ===== verification/ChatText.thy ===== *)
theory ChatText
  imports RegexFacts ApprovalAnswer
begin

text \<open>
  \<open>src/web/src/app/chat-history.ts\<close>, the functions on text: escape sequences are removed from
  terminal output, redraw frames of spinners and hub markers are dropped, and a message is cut
  into text, code, links and paths for display. Page elements are values of a data type. The
  lemmas say that displaying loses no text, that a link always points to a web address, and that
  what the history stores is free of control characters, of spinner lines and of blank runs.
\<close>

section \<open>Escape sequences\<close>

definition stripAnsiBasicSteps :: "rx list" where
  "stripAnsiBasicSteps =
     [seqs [chr 27, chr 91, many (RCls (CC False [CRange 48 57, CRange 59 59, CRange 63 63])),
            many (RCls (CC False [CRange 32 47])), RCls (CC False [CRange 64 126])],
      seqs [chr 27, chr 93, many (RCls (CC True [CRange 7 7, CRange 27 27])),
            RAlt (chr 7) (lit [27, 92])],
      seqs [chr 27, anyOf [80, 88, 94, 95], many (RCls (CC True [CRange 27 27])), lit [27, 92]],
      seqs [chr 27, anyOf [40, 41], RCls (CC False [CRange 48 57, CRange 65 90, CRange 97 122])],
      seqs [chr 27, anyOf [61, 62]],
      RCls (CC False [CRange 0 8, CRange 11 11, CRange 12 12, CRange 14 31, CRange 127 127])]"

definition stripAnsiBasic :: "jstr \<Rightarrow> jstr" where
  "stripAnsiBasic s = deleteEach stripAnsiBasicSteps s"

section \<open>Spinner lines\<close>

definition spinnerClass :: cclass where
  "spinnerClass = CC False [CRange 10018 10047, CRange 10240 10495]"

definition cycleHintRe :: rx where
  "cycleHintRe = seqs [lit (js ''shift''), many wsCh, chr 43, many wsCh, lit (js ''tab to cycle'')]"

definition isThinkingNoiseLine :: "jstr \<Rightarrow> bool" where
  "isThinkingNoiseLine line =
     (let t = trim line; lower = toLowerCase t in
      if t = [] then False
      else if str_includes lower (js ''esc to interrupt'') then True
      else if test True cycleHintRe t then True
      else if str_includes t [8593] \<and> str_includes t [8595] then True
      else if str_includes lower (js ''thinking'') \<and> test False (RCls spinnerClass) t then True
      else 2 \<le> length (exec_all False (RCls spinnerClass) t))"

section \<open>Normalisation of a message\<close>

definition doneBlockRe :: rx where
  "doneBlockRe = seqs [lit (js ''[MANY-AI-CLI-DONE]''), manyLazy anyChar, lit (js ''[/MANY-AI-CLI-DONE]'')]"

definition hubBlockRe :: rx where
  "hubBlockRe = seqs [lit (js ''[MANY-AI-CLI]''), manyLazy anyChar, lit (js ''[/MANY-AI-CLI]'')]"

definition fenceRe :: rx where
  "fenceRe = seqs [RBol, many wsCh, lit [96, 96, 96]]"

definition promptRe :: rx where
  "promptRe = seqs [RBol, many wsCh, anyOf [9612, 62, 36, 35], opt wsCh]"

text \<open>\<open>s.split(/\r?\n/)\<close>.\<close>

fun splitCrLf :: "jstr \<Rightarrow> jstr list" where
  "splitCrLf [] = [[]]"
| "splitCrLf (c # cs) =
     (if c = 10 then [] # splitCrLf cs
      else if c = 13 \<and> cs \<noteq> [] \<and> hd cs = 10 then [] # splitCrLf (tl cs)
      else (case splitCrLf cs of [] \<Rightarrow> [[c]] | w # ws \<Rightarrow> (c # w) # ws))"

text \<open>
  The loop over the lines: whether a code fence is open, the length of the current run of blank
  lines. The replacement of \<open>/\s+$/\<close> by nothing is \<open>trimEnd\<close>.
\<close>

definition cleanLine :: "jstr \<Rightarrow> jstr" where
  "cleanLine line = trimEnd (replace_first False promptRe (\<lambda>_. []) line)"

fun chatLines :: "bool \<Rightarrow> nat \<Rightarrow> jstr list \<Rightarrow> jstr list" where
  "chatLines inFence blankRun [] = []"
| "chatLines inFence blankRun (line # lines) =
     (let isFenceMarker = test False fenceRe line;
          inFence' = (if isFenceMarker then \<not> inFence else inFence);
          line' = (if inFence' then line else cleanLine line)
      in if \<not> inFence' \<and> \<not> isFenceMarker \<and> isThinkingNoiseLine line then chatLines inFence' blankRun lines
         else if \<not> inFence' \<and> trim line' = [] then
           (if blankRun + 1 \<le> 1 then [[]] else []) @ chatLines inFence' (blankRun + 1) lines
         else line' # chatLines inFence' 0 lines)"

text \<open>\<open>s.replace(/^\n+|\n+$/g, '')\<close>.\<close>

definition stripNewlines :: "jstr \<Rightarrow> jstr" where
  "stripNewlines s = rev (dropWhile (\<lambda>c. c = 10) (rev (dropWhile (\<lambda>c. c = 10) s)))"

definition dropBlocks :: "jstr \<Rightarrow> jstr" where
  "dropBlocks raw =
     replace_all False hubBlockRe (\<lambda>_. []) (replace_all False doneBlockRe (\<lambda>_. []) raw)"

definition normalizeChatText :: "jstr \<Rightarrow> jstr" where
  "normalizeChatText raw =
     (if raw = [] then []
      else stripNewlines (join [10] (chatLines False 0 (splitCrLf (dropBlocks raw)))))"

section \<open>Inline rendering\<close>

text \<open>
  What is appended to the fragment: a text node, a code span, a link (its target and its text
  are the same string) or a path (its data attribute and its text are the same string).
\<close>

datatype inlineNode = TextNode jstr | CodeSpan jstr | UrlLink jstr | PathLink jstr

definition urlStop :: "citem list" where
  "urlStop = [CWs, CRange 60 60, CRange 62 62, CRange 34 34, CRange 39 39, CRange 96 96]"

definition linkRe :: rx where
  "linkRe = alts
     [RGrp 1 (seqs [lit (js ''http''), opt (chr 115), lit (js ''://''),
                    many1 (RCls (CC True (urlStop @ [CRange 41 41, CRange 93 93])))]),
      RGrp 2 (RSeq (alts [seqs [RCls (CC False [CRange 97 122, CRange 65 90]), chr 58, anyOf [92, 47]],
                          seqs [times 1 2 (chr 46), anyOf [92, 47]], chr 47])
                   (many1 (RCls (CC True (urlStop @ [CRange 40 40, CRange 93 93]))))),
      RGrp 3 (seqs [RCls (CC False [CWordCh]),
                    many (RCls (CC False [CWordCh, CRange 45 45, CRange 47 47, CRange 92 92, CRange 46 46])),
                    chr 46, times 1 8 (RCls (CC False [CRange 97 122, CRange 65 90])), RWordB])]"

text \<open>The loop that moves punctuation from the end of a token to \<open>trail\<close>: \<open>(token, trail)\<close>.\<close>

definition isTrail :: "cu \<Rightarrow> bool" where
  "isTrail c = List.member (js ''.,;:!?)]}>'') c"

definition splitTrail :: "jstr \<Rightarrow> jstr \<times> jstr" where
  "splitTrail token =
     (rev (dropWhile isTrail (rev token)), rev (takeWhile isTrail (rev token)))"

definition linkNodes :: "rmatch \<Rightarrow> inlineNode list" where
  "linkNodes m =
     (let (token, trail) = splitTrail (m_text m) in
      if token = [] then [TextNode (m_text m)]
      else (if grp m 1 \<noteq> [] then UrlLink token else PathLink token)
           # (if trail = [] then [] else [TextNode trail]))"

fun linkLoop :: "jstr \<Rightarrow> int \<Rightarrow> rmatch list \<Rightarrow> inlineNode list" where
  "linkLoop text from0 [] = (if from0 < int (length text) then [TextNode (slice_from text from0)] else [])"
| "linkLoop text from0 (m # ms) =
     (if from0 < m_index m then [TextNode (slice text from0 (m_index m))] else [])
     @ linkNodes m @ linkLoop text (m_end m) ms"

definition appendPlainWithLinks :: "jstr \<Rightarrow> inlineNode list" where
  "appendPlainWithLinks text = (if text = [] then [] else linkLoop text 0 (exec_all False linkRe text))"

definition codeRe :: rx where
  "codeRe = RSeq (chr 96) (RSeq (RGrp 1 (many1Lazy (RCls (CC True [CRange 96 96, CRange 10 10])))) (chr 96))"

datatype inlineToken = CodeTok jstr | PlainTok jstr

fun codeLoop :: "jstr \<Rightarrow> int \<Rightarrow> rmatch list \<Rightarrow> inlineToken list" where
  "codeLoop src idx [] = (if idx < int (length src) then [PlainTok (slice_from src idx)] else [])"
| "codeLoop src idx (m # ms) =
     (if idx < m_index m then [PlainTok (slice src idx (m_index m))] else [])
     @ CodeTok (grp m 1) # codeLoop src (m_index m + int (length (m_text m))) ms"

fun tokenNodes :: "inlineToken \<Rightarrow> inlineNode list" where
  "tokenNodes (CodeTok t) = [CodeSpan t]"
| "tokenNodes (PlainTok t) = appendPlainWithLinks t"

definition renderInlineText :: "jstr \<Rightarrow> inlineNode list" where
  "renderInlineText text =
     (if text = [] then [] else concat (map tokenNodes (codeLoop text 0 (exec_all False codeRe text))))"

section \<open>Tool calls\<close>

record toolCall =
  tcName :: jstr
  tcArgs :: jstr
  tcBody :: jstr

definition toolHead :: rx where
  "toolHead = seqs [RBol, many (RCls (CC False [CWs, CRange 8226 8226, CRange 9679 9679, CRange 9675 9675])),
     chr 9679, many1 wsCh,
     RGrp 1 (RSeq (RCls (CC False [CRange 65 90]))
                  (many (RCls (CC False [CRange 65 90, CRange 97 122, CRange 48 57, CRange 95 95])))),
     many wsCh, chr 40]"

definition toolCallRe :: rx where
  "toolCallRe = seqs [toolHead, RGrp 2 (many (RCls (CC True [CRange 10 10]))), chr 41, many wsCh, REol]"

definition toolLineRe :: rx where
  "toolLineRe = seqs [toolHead, many (RCls (CC True [CRange 10 10])), chr 41, many wsCh, REol]"

fun toolLoop :: "toolCall option \<Rightarrow> jstr list \<Rightarrow> toolCall list" where
  "toolLoop cur [] = (case cur of None \<Rightarrow> [] | Some c \<Rightarrow> [c])"
| "toolLoop cur (line # lines) =
     (case exec False toolCallRe line of
        Some m \<Rightarrow> (case cur of None \<Rightarrow> [] | Some c \<Rightarrow> [c])
          @ toolLoop (Some \<lparr>tcName = grp m 1, tcArgs = grp m 2, tcBody = []\<rparr>) lines
      | None \<Rightarrow>
          (case cur of
             None \<Rightarrow> toolLoop None lines
           | Some c \<Rightarrow>
               (let bodyLines = (if tcBody c = [] then [] else split_on 10 (tcBody c)) in
                if length bodyLines < 12
                then toolLoop (Some (c\<lparr>tcBody := (if tcBody c = [] then line else tcBody c @ 10 # line)\<rparr>)) lines
                else toolLoop (Some c) lines)))"

definition parseToolCallsFromOutput :: "jstr \<Rightarrow> toolCall list" where
  "parseToolCallsFromOutput text = (if text = [] then [] else toolLoop None (splitCrLf text))"

definition resultLineRe :: rx where
  "resultLineRe = seqs [RBol, many wsCh, chr 9151]"

fun stripToolLoop :: "bool \<Rightarrow> jstr list \<Rightarrow> jstr list" where
  "stripToolLoop skipping [] = []"
| "stripToolLoop skipping (line # lines) =
     (if test False toolLineRe line then stripToolLoop True lines
      else if skipping \<and> test False resultLineRe line then stripToolLoop True lines
      else line # stripToolLoop False lines)"

definition stripToolCallLines :: "jstr \<Rightarrow> jstr" where
  "stripToolCallLines text =
     (if text = [] then []
      else trim (replace_all False (atLeast 3 (chr 10)) (\<lambda>_. [10, 10]) (join [10] (stripToolLoop False (splitCrLf text)))))"

text \<open>\<open>'#' + String(n).padStart(3, '0')\<close>, for the whole numbers that message ids are.\<close>

definition padStart :: "nat \<Rightarrow> cu \<Rightarrow> jstr \<Rightarrow> jstr" where
  "padStart n c s = replicate (n - length s) c @ s"

definition formatMsgNumber :: "int \<Rightarrow> jstr" where
  "formatMsgNumber i = 35 # padStart 3 48 (num_str (max 1 (if i = 0 then 1 else i)))"

section \<open>Escape sequences are removed\<close>

lemma deleteEach_append: "deleteEach (rs @ rs') s = deleteEach rs' (deleteEach rs s)"
  by (induction rs arbitrary: s) simp_all

lemma stripAnsiBasic_last:
  "stripAnsiBasic s = filter (\<lambda>c. \<not> in_class False
     (CC False [CRange 0 8, CRange 11 11, CRange 12 12, CRange 14 31, CRange 127 127]) c)
     (deleteEach (butlast stripAnsiBasicSteps) s)"
proof -
  have "stripAnsiBasicSteps = butlast stripAnsiBasicSteps @
      [RCls (CC False [CRange 0 8, CRange 11 11, CRange 12 12, CRange 14 31, CRange 127 127])]"
    by (simp add: stripAnsiBasicSteps_def)
  then show ?thesis
    unfolding stripAnsiBasic_def
    by (metis deleteEach.simps deleteEach_append replace_all_class)
qed

text \<open>The control characters of a chat text: all but tab, line feed and carriage return.\<close>

definition printable :: "jstr \<Rightarrow> bool" where
  "printable s \<longleftrightarrow> (\<forall>c \<in> set s. (c = 9 \<or> c = 10 \<or> c = 13 \<or> c < 0 \<or> 32 \<le> c) \<and> c \<noteq> 127)"

lemma stripAnsiBasic_printable: "printable (stripAnsiBasic s)"
  unfolding stripAnsiBasic_last printable_def by (auto split: if_splits)

section \<open>Rendering loses no text\<close>

fun nodeSource :: "inlineNode \<Rightarrow> jstr" where
  "nodeSource (TextNode t) = t"
| "nodeSource (CodeSpan t) = 96 # t @ [96]"
| "nodeSource (UrlLink t) = t"
| "nodeSource (PathLink t) = t"

definition sourceOf :: "inlineNode list \<Rightarrow> jstr" where
  "sourceOf ns = concat (map nodeSource ns)"

lemma sourceOf_simps [simp]:
  "sourceOf [] = []" "sourceOf (n # ns) = nodeSource n @ sourceOf ns"
  "sourceOf (ns @ ns') = sourceOf ns @ sourceOf ns'"
  by (simp_all add: sourceOf_def)

lemma splitTrail_append: "splitTrail t = (a, b) \<Longrightarrow> a @ b = t"
  by (auto simp: splitTrail_def simp flip: rev_append)

lemma linkNodes_source: "sourceOf (linkNodes m) = m_text m"
  by (auto simp: linkNodes_def split: prod.splits dest: splitTrail_append)

lemma ordered_le: "ordered lo ps hi \<Longrightarrow> lo \<le> hi"
  by (induction lo ps hi rule: ordered.induct) auto

lemma linkLoop_source:
  assumes "ordered lo (map (\<lambda>m. (m_index m, m_end m)) ms) (int (length t))" "0 \<le> lo"
    and "\<forall>m \<in> set ms. m_input m = t"
  shows "sourceOf (linkLoop t lo ms) = drop (nat lo) t"
  using assms
proof (induction ms arbitrary: lo)
  case (Cons m ms)
  from Cons.prems have o: "lo \<le> m_index m" "m_index m \<le> m_end m"
    and o': "ordered (m_end m) (map (\<lambda>m. (m_index m, m_end m)) ms) (int (length t))"
    by auto
  have e: "m_end m \<le> int (length t)"
    using ordered_le [OF o'] .
  have "sourceOf (linkLoop t (m_end m) ms) = drop (nat (m_end m)) t"
    using Cons.IH [OF o'] Cons.prems o by simp
  moreover have "drop (nat (m_index m)) t = m_text m @ drop (nat (m_end m)) t"
    using drop_substring [of "m_index m" "m_end m" t] o e Cons.prems by (simp add: m_text_def)
  moreover have "drop (nat lo) t = substring t lo (m_index m) @ drop (nat (m_index m)) t"
    using drop_substring [of lo "m_index m" t] o e Cons.prems by simp
  moreover have "slice t lo (m_index m) = substring t lo (m_index m)"
    using slice_substring [of lo "m_index m" t] o e Cons.prems by simp
  moreover have "lo = m_index m \<or> lo < m_index m" using o by auto
  ultimately show ?case
    by (auto simp: linkNodes_source)
qed (simp add: slice_from_drop)

lemma appendPlain_source: "sourceOf (appendPlainWithLinks t) = t"
  using linkLoop_source [OF exec_all_ordered, of False linkRe t] exec_all_input
  by (auto simp: appendPlainWithLinks_def)

lemma tokenNodes_source:
  "sourceOf (tokenNodes tok) = (case tok of CodeTok t \<Rightarrow> 96 # t @ [96] | PlainTok t \<Rightarrow> t)"
  by (cases tok) (simp_all add: appendPlain_source)

lemma code_text:
  assumes "m \<in> set (exec_all False codeRe s)"
  shows "m_text m = 96 # grp m 1 @ [96]"
proof -
  obtain u v w where
    "m_text m = u @ v @ w" "grp m 1 = v" "u \<in> lang False (chr 96)" "w \<in> lang False (chr 96)"
    by (rule exec_all_capture [OF assms [unfolded codeRe_def]]) (simp add: chr_def)
  then show ?thesis by (auto simp: chr_def split: if_splits)
qed

lemma codeLoop_source:
  assumes "ordered lo (map (\<lambda>m. (m_index m, m_end m)) ms) (int (length t))" "0 \<le> lo"
    and "set ms \<subseteq> set (exec_all False codeRe t)"
  shows "sourceOf (concat (map tokenNodes (codeLoop t lo ms))) = drop (nat lo) t"
  using assms
proof (induction ms arbitrary: lo)
  case (Cons m ms)
  from Cons.prems have o: "lo \<le> m_index m" "m_index m \<le> m_end m"
    and o': "ordered (m_end m) (map (\<lambda>m. (m_index m, m_end m)) ms) (int (length t))"
    and m: "m \<in> set (exec_all False codeRe t)"
    by auto
  have e: "m_end m \<le> int (length t)"
    using ordered_le [OF o'] .
  have i: "m_input m = t" using exec_all_input [OF m] .
  have "sourceOf (concat (map tokenNodes (codeLoop t (m_end m) ms))) = drop (nat (m_end m)) t"
    using Cons.IH [OF o'] Cons.prems o by simp
  moreover have "drop (nat (m_index m)) t = m_text m @ drop (nat (m_end m)) t"
    using drop_substring [of "m_index m" "m_end m" t] o e Cons.prems i by (simp add: m_text_def)
  moreover have "drop (nat lo) t = substring t lo (m_index m) @ drop (nat (m_index m)) t"
    using drop_substring [of lo "m_index m" t] o e Cons.prems by simp
  moreover have "slice t lo (m_index m) = substring t lo (m_index m)"
    using slice_substring [of lo "m_index m" t] o e Cons.prems by simp
  moreover have "lo = m_index m \<or> lo < m_index m" using o by auto
  ultimately show ?case
    using code_text [OF m] exec_all_text(2) [OF m]
    by (auto simp: appendPlain_source)
qed (simp add: slice_from_drop appendPlain_source)


section \<open>Links point to web addresses\<close>

lemma dropWhile_stop: "\<not> P (last pre) \<Longrightarrow> pre \<noteq> [] \<Longrightarrow> prefix pre (rev (dropWhile P (rev (pre @ w))))"
proof (induction w rule: rev_induct)
  case Nil
  then have "dropWhile P (rev pre) = rev pre"
    by (subst dropWhile_eq_self_iff) (simp add: hd_rev)
  then show ?case by simp
qed auto

lemma lang_exact: "u \<in> lang False (lit s) \<Longrightarrow> u = s"
  using lang_lit [of u False s] by (auto simp: lit_match_exact list_all2_conv_all_nth intro: nth_equalityI)

lemma den_opt_class:
  assumes "y \<in> den ic (opt (RCls C)) x"
  obtains u where "consumes x u y" "u = [] \<or> (\<exists>c. u = [c] \<and> in_class ic C c)"
proof -
  from assms obtain j where j: "j \<le> 1" "(x, y) \<in> iter1 (den ic (RCls C)) [] ^^ j"
    by (auto simp: opt_def loop_den_def simp del: den.simps(2))
  show thesis
  proof (cases "j = 0")
    case True
    with j that [of "[]"] show ?thesis by simp
  next
    case False
    with j have "y \<in> den ic (RCls C) x"
      by (auto simp: iter1_def forget_def le_Suc_eq simp del: den.simps(2))
    from den_lang [OF this] that show ?thesis by auto
  qed
qed
lemma url_start:
  assumes "m \<in> set (exec_all False linkRe t)" "grp m 1 \<noteq> []"
  shows "\<exists>pre \<in> {js ''http://'', js ''https://''}. prefix pre (m_text m)"
proof -
  let ?A = "seqs [lit (js ''http''), opt (chr 115), lit (js ''://''),
    many1 (RCls (CC True (urlStop @ [CRange 41 41, CRange 93 93])))]"
  from exec_all_den [OF assms(1)] obtain x y where xy: "st_of t x" "y \<in> den False linkRe x"
      "caps x = []" "m = RM (pos x) (pos y) (caps y) t" by metis
  have "y \<in> den False (RGrp 1 ?A) x"
  proof (rule ccontr)
    assume "\<not> ?thesis"
    with xy(2) obtain n r where "y \<in> den False (RGrp n r) x" "n \<noteq> 1" "groups r = []"
      by (auto simp: linkRe_def rx_abbrevs simp del: den.simps(6) den.simps(2))
    then have "map_of (caps y) 1 = None"
      using den_no_groups [of _ False r x] xy(3) by auto
    with assms(2) xy(4) show False by (simp add: grp_def m_group_def)
  qed
  then obtain x1 x2 x3 z where d: "x1 \<in> den False (lit (js ''http'')) x"
      "x2 \<in> den False (opt (chr 115)) x1" "x3 \<in> den False (lit (js ''://'')) x2"
      "z \<in> den False (many1 (RCls (CC True (urlStop @ [CRange 41 41, CRange 93 93])))) x3"
      "pos y = pos z" "rest y = rest z"
    by auto
  from den_lang [OF d(1)] lang_exact have c1: "consumes x (js ''http'') x1" by auto
  from d(2) obtain b where b: "consumes x1 b x2" "b = [] \<or> b = [115]"
    unfolding chr_def by (rule den_opt_class) (auto split: if_splits)
  from den_lang [OF d(3)] lang_exact have c3: "consumes x2 (js ''://'') x3" by auto
  from den_lang [OF d(4)] obtain w where w: "consumes x3 w z" by auto
  have "consumes x (js ''http'' @ b @ js ''://'' @ w) y"
    using c1 b(1) c3 w d(5,6) by (simp add: consumes_def)
  from state_text(1) [OF xy(1) this] have "m_text m = js ''http'' @ b @ js ''://'' @ w"
    using xy(4) by (simp add: m_text_def)
  with b(2) show ?thesis by (auto simp: js_def prefix_def)
qed

lemma linkNodes_url:
  assumes "m \<in> set (exec_all False linkRe t)" "UrlLink u \<in> set (linkNodes m)"
  shows "prefix (js ''http://'') u \<or> prefix (js ''https://'') u"
proof -
  from assms(2) have g: "grp m 1 \<noteq> []" and u: "u = fst (splitTrail (m_text m))"
    by (cases "splitTrail (m_text m)"; auto simp: linkNodes_def split: if_splits)+
  from url_start [OF assms(1) g] obtain pre w where
    p: "pre \<in> {js ''http://'', js ''https://''}" "m_text m = pre @ w"
    by (auto simp: prefix_def)
  then have "pre \<noteq> []" "\<not> isTrail (last pre)"
    by (auto simp: js_def isTrail_def)
  with dropWhile_stop [of isTrail pre w] p u show ?thesis
    by (auto simp: splitTrail_def)
qed

lemma linkLoop_url:
  "UrlLink u \<in> set (linkLoop t lo ms) \<Longrightarrow> \<exists>m \<in> set ms. UrlLink u \<in> set (linkNodes m)"
  by (induction ms arbitrary: lo) (auto split: if_splits)

lemma tokenNodes_url: "UrlLink u \<in> set (tokenNodes tok) \<Longrightarrow> \<exists>t. UrlLink u \<in> set (appendPlainWithLinks t)"
  by (cases tok) auto

text \<open>
  A link in a rendered chat message always leads to a web address: its target starts with
  http:// or https://, so no text an agent prints becomes a link that runs a script or opens a
  local file.
\<close>

theorem links_are_web_addresses:
  assumes "UrlLink u \<in> set (renderInlineText msg)"
  shows "prefix (js ''http://'') u \<or> prefix (js ''https://'') u"
proof -
  from assms obtain t where "UrlLink u \<in> set (appendPlainWithLinks t)"
    by (auto simp: renderInlineText_def split: if_splits dest!: tokenNodes_url)
  then show ?thesis
    by (auto simp: appendPlainWithLinks_def split: if_splits dest!: linkLoop_url linkNodes_url)
qed

theorem links_are_web_addresses_witness:
  "renderInlineText (js ''see http://a.b/c.'') = [TextNode (js ''see ''), UrlLink (js ''http://a.b/c''), TextNode (js ''.'')]
   \<and> prefix (js ''http://'') (js ''http://a.b/c'')"
proof
  show r: "renderInlineText (js ''see http://a.b/c.'') =
      [TextNode (js ''see ''), UrlLink (js ''http://a.b/c''), TextNode (js ''.'')]"
    by code_simp
  then have "UrlLink (js ''http://a.b/c'') \<in> set (renderInlineText (js ''see http://a.b/c.''))"
    by simp
  from links_are_web_addresses [OF this] show "prefix (js ''http://'') (js ''http://a.b/c'')"
    by (simp add: js_def)
qed

section \<open>What the history keeps of a text\<close>

lemma trimStart_append: "trimStart (p @ s) = (if \<forall>c \<in> set p. is_ws c then trimStart s else trimStart p @ s)"
  by (induction p) auto

lemma trim_drop: "trim (drop n l) = [] \<or> suffix (trim (drop n l)) (trim l)"
proof (cases "trim (drop n l) = []")
  case False
  define s where "s = drop n l"
  obtain q where l: "l = q @ s" by (metis s_def append_take_drop_id)
  have s: "trimStart s \<noteq> []" "trimEnd (trimStart s) = trim s"
    using False by (auto simp: trim_def s_def)
  have "trimStart l = trimStart s \<or> (\<exists>q'. trimStart l = q' @ s)"
    unfolding l trimStart_append by auto
  moreover have "suffix (trimStart s) s"
    unfolding trimStart_def by (simp add: suffix_dropWhile)
  ultimately obtain q' where q': "trimStart l = q' @ trimStart s"
    by (metis append_Nil append_assoc suffix_def)
  have "trimEnd (q' @ trimStart s) = q' @ trimEnd (trimStart s)"
    using False unfolding trim_def s_def [symmetric]
    by (induction q') (auto simp: trimEnd_Cons)
  then show ?thesis
    using q' s(2) by (auto simp: trim_def s_def suffix_def)
qed simp

lemma noise_suffix:
  assumes "isThinkingNoiseLine (drop n l)"
  shows "isThinkingNoiseLine l"
proof -
  have ne: "trim (drop n l) \<noteq> []"
    using assms by (auto simp: isThinkingNoiseLine_def)
  then obtain p where t: "trim l = p @ trim (drop n l)"
    using trim_drop [of n l] by (auto simp: suffix_def)
  have i: "str_includes (trim (drop n l)) w \<Longrightarrow> str_includes (trim l) w"
    and j: "str_includes (toLowerCase (trim (drop n l))) w \<Longrightarrow> str_includes (toLowerCase (trim l)) w" for w
    unfolding t includes_iff by (simp_all add: sublist_append)
  have k: "test True cycleHintRe (trim (drop n l)) \<Longrightarrow> test True cycleHintRe (trim l)"
    unfolding t by (rule test_suffix) (simp_all add: cycleHintRe_def rx_abbrevs js_def)
  have c: "length (exec_all False (RCls C) (trim (drop n l))) \<le> length (exec_all False (RCls C) (trim l))"
    and d: "test False (RCls C) (trim (drop n l)) \<Longrightarrow> test False (RCls C) (trim l)" for C
    unfolding t length_exec_all_class test_class by (auto simp del: in_class.simps)
  have "trim l \<noteq> []" using ne t by simp
  with assms c [of spinnerClass] show ?thesis
    unfolding isThinkingNoiseLine_def Let_def
    by (simp add: ne i j k d split: if_split_asm)
qed

lemma noise_trimEnd: "isThinkingNoiseLine (trimEnd l) = isThinkingNoiseLine l"
proof -
  have "trim (trimEnd l) = trim l"
  proof (induction l)
    case (Cons c l)
    then show ?case
      by (auto simp: trim_def trimEnd_Cons)
  qed (simp add: trim_def)
  then show ?thesis by (simp add: isThinkingNoiseLine_def)
qed

lemma cleanLine_quiet: "\<not> isThinkingNoiseLine l \<Longrightarrow> \<not> isThinkingNoiseLine (cleanLine l)"
proof -
  have "\<exists>n. replace_first False promptRe (\<lambda>_. []) l = drop n l"
    unfolding promptRe_def by (simp add: replace_first_bol)
  then obtain n where "cleanLine l = trimEnd (drop n l)"
    by (auto simp: cleanLine_def)
  then show "\<not> isThinkingNoiseLine l \<Longrightarrow> \<not> isThinkingNoiseLine (cleanLine l)"
    using noise_suffix [of n l] by (auto simp: noise_trimEnd)
qed

fun noBlankPair :: "jstr list \<Rightarrow> bool" where
  "noBlankPair (a # b # ls) = (\<not> (a = [] \<and> b = []) \<and> noBlankPair (b # ls))"
| "noBlankPair ls = True"

definition quietLine :: "jstr \<Rightarrow> bool" where
  "quietLine l \<longleftrightarrow> \<not> isThinkingNoiseLine l \<and> trimEnd l = l \<and> 10 \<notin> set l"

lemma quiet_Nil [simp]: "quietLine []"
  by (simp add: quietLine_def isThinkingNoiseLine_def trim_def Let_def)

lemma splitCrLf_no_nl: "l \<in> set (splitCrLf s) \<Longrightarrow> 10 \<notin> set l"
proof (induction s arbitrary: l rule: splitCrLf.induct)
  case (2 c cs)
  then show ?case by (auto split: if_split_asm list.split_asm)
qed simp

lemma set_cleanLine: "set (cleanLine l) \<subseteq> set l"
proof -
  obtain n where "replace_first False promptRe (\<lambda>_. []) l = drop n l"
    unfolding promptRe_def by (metis replace_first_bol seqs.simps(3))
  then have "set (replace_first False promptRe (\<lambda>_. []) l) \<subseteq> set l"
    by (simp add: set_drop_subset)
  then show ?thesis
    by (auto simp: cleanLine_def trimEnd_def dest!: set_dropWhileD)
qed

lemma chatLines_quiet:
  assumes "\<forall>l \<in> set ls. \<not> test False fenceRe l \<and> 10 \<notin> set l"
  shows "(\<forall>l \<in> set (chatLines False b ls). quietLine l) \<and> noBlankPair (chatLines False b ls)
    \<and> (0 < b \<longrightarrow> (case chatLines False b ls of [] \<Rightarrow> True | l # _ \<Rightarrow> l \<noteq> []))"
  using assms
proof (induction ls arbitrary: b)
  case (Cons l ls)
  have c: "\<not> isThinkingNoiseLine l \<Longrightarrow> quietLine (cleanLine l)"
    using cleanLine_quiet [of l] set_cleanLine [of l] Cons.prems
    by (auto simp: quietLine_def) (simp add: cleanLine_def)
  have n: "noBlankPair (w # ws)" if "noBlankPair ws" "w \<noteq> [] \<or> (case ws of [] \<Rightarrow> True | l # _ \<Rightarrow> l \<noteq> [])"
    for w :: jstr and ws
    using that by (cases ws) auto
  have "trim (cleanLine l) \<noteq> [] \<Longrightarrow> cleanLine l \<noteq> []"
    by (auto simp: trim_def)
  then show ?case
    using Cons.IH [of b] Cons.IH [of "Suc b"] Cons.IH [of 0] Cons.prems c
    by (auto simp: Let_def intro!: n)
qed simp

section \<open>Lines of the stored text\<close>

lemma split_on_snoc: "split_on d (s @ [d]) = split_on d s @ [[]]"
  by (induction s) (auto split: list.splits)

lemma split_on_dropWhile: "set (split_on d (dropWhile (\<lambda>c. c = d) s)) \<subseteq> set (split_on d s)"
  by (induction s) auto

lemma split_on_strip_end: "set (split_on d (rev (dropWhile (\<lambda>c. c = d) (rev s)))) \<subseteq> set (split_on d s)"
  by (induction s rule: rev_induct) (auto simp: split_on_snoc)

lemma split_on_join:
  assumes "\<forall>l \<in> set ls. d \<notin> set l" "ls \<noteq> []"
  shows "split_on d (join [d] ls) = ls"
  using assms
proof (induction "[d]" ls rule: join.induct)
  case (2 w)
  then show ?case by (induction w) auto
next
  case (3 w v ws)
  then have IH: "split_on d (join [d] (v # ws)) = v # ws" by simp
  have "split_on d (w @ d # t) = w # split_on d t" if "d \<notin> set w" for t
    using that by (induction w) auto
  with 3 IH show ?case by simp
qed simp

lemma triple_newline:
  assumes "\<forall>l \<in> set ls. d \<notin> set l" "noBlankPair ls"
  shows "\<not> sublist [d, d, d] (join [d] ls)"
  using assms
proof (induction "[d]" ls rule: join.induct)
  case (2 w)
  then show ?case by (auto dest!: set_mono_sublist)
next
  case (3 w v ws)
  let ?r = "join [d] (v # ws)"
  have v: "d \<notin> set v" "\<forall>x \<in> set ws. d \<notin> set x" using 3 by auto
  have two: "\<not> prefix [d, d] ?r"
  proof (cases v)
    case Nil
    then show ?thesis
    proof (cases ws)
      case (Cons x xs)
      with Nil 3 v have "x \<noteq> []" "d \<notin> set x" by auto
      with Nil Cons show ?thesis by (cases x; cases xs) auto
    qed simp
  next
    case (Cons c v')
    with v show ?thesis by (cases ws) auto
  qed
  have "\<not> sublist [d, d, d] (u @ d # ?r)" if "d \<notin> set u" "suffix u w" for u
    using that
  proof (induction u)
    case Nil
    then show ?case using two 3 by (simp add: sublist_Cons_right)
  qed (auto simp: sublist_Cons_right dest: suffix_ConsD)
  from this [of w] 3 show ?case by simp
qed simp

lemma stripNewlines_infix: "sublist (stripNewlines s) s"
proof -
  have "sublist (rev (dropWhile P (rev t))) t" for P and t :: jstr
    by (metis sublist_rev_left suffix_dropWhile suffix_imp_sublist rev_rev_ident sublist_rev)
  moreover have "sublist (dropWhile P s) s" for P
    by (simp add: suffix_dropWhile suffix_imp_sublist)
  ultimately show ?thesis
    unfolding stripNewlines_def using sublist_order.order.trans by blast
qed

lemma stripNewlines_lines: "set (split_on 10 (stripNewlines s)) \<subseteq> set (split_on 10 s)"
  unfolding stripNewlines_def using split_on_dropWhile split_on_strip_end by blast

text \<open>
  What the chat history shows of an agent's output is readable text: when the output holds no
  code fence, no line of the stored text is a redraw frame of a spinner or a status footer, no
  line ends in white space, there are never two blank lines in a row, and the text does not
  start or end with a newline.
\<close>

theorem chat_text_is_quiet:
  assumes "\<forall>l \<in> set (splitCrLf (dropBlocks raw)). \<not> test False fenceRe l"
  shows "(\<forall>l \<in> set (split_on 10 (normalizeChatText raw)). \<not> isThinkingNoiseLine l \<and> trimEnd l = l)
    \<and> \<not> sublist [10, 10, 10] (normalizeChatText raw)
    \<and> (normalizeChatText raw \<noteq> [] \<longrightarrow> hd (normalizeChatText raw) \<noteq> 10 \<and> last (normalizeChatText raw) \<noteq> 10)"
proof (cases "raw = []")
  case True
  then show ?thesis
    using quiet_Nil by (simp add: normalizeChatText_def quietLine_def)
next
  case False
  define ls where "ls = chatLines False 0 (splitCrLf (dropBlocks raw))"
  have n: "normalizeChatText raw = stripNewlines (join [10] ls)"
    using False by (simp add: normalizeChatText_def ls_def)
  have q: "\<forall>l \<in> set ls. quietLine l" "noBlankPair ls"
    using chatLines_quiet [of "splitCrLf (dropBlocks raw)" 0] assms splitCrLf_no_nl
    unfolding ls_def by blast+
  have "split_on 10 (join [10] ls) = (if ls = [] then [[]] else ls)"
    using split_on_join [of ls 10] q(1) by (simp add: quietLine_def)
  then have "\<forall>l \<in> set (split_on 10 (normalizeChatText raw)). quietLine l"
    using stripNewlines_lines [of "join [10] ls"] q(1) by (auto simp: n split: if_split_asm)
  moreover have "\<not> sublist [10, 10, 10] (normalizeChatText raw)"
    using triple_newline [of ls 10] q stripNewlines_infix [of "join [10] ls"]
    unfolding n quietLine_def by (meson sublist_order.order.trans)
  moreover have "stripNewlines t \<noteq> [] \<Longrightarrow> hd (stripNewlines t) \<noteq> 10 \<and> last (stripNewlines t) \<noteq> 10" for t
  proof -
    assume ne: "stripNewlines t \<noteq> []"
    define u where "u = dropWhile (\<lambda>c. c = 10) t"
    have e: "stripNewlines t = rev (dropWhile (\<lambda>c. c = 10) (rev u))"
      by (simp add: stripNewlines_def u_def)
    with ne have d: "dropWhile (\<lambda>c. c = 10) (rev u) \<noteq> []" by auto
    then have "last (stripNewlines t) \<noteq> 10"
      unfolding e last_rev by (rule hd_dropWhile)
    moreover obtain w where w: "u = stripNewlines t @ w"
      unfolding e by (metis rev_append rev_rev_ident takeWhile_dropWhile_id)
    then have "hd (stripNewlines t) = hd u" using ne by simp
    moreover have "hd u \<noteq> 10"
      using w ne hd_dropWhile [of "\<lambda>c. c = 10" t] unfolding u_def by auto
    ultimately show ?thesis by simp
  qed
  ultimately show ?thesis
    by (simp add: n quietLine_def)
qed

definition noisyOutput :: jstr where
  "noisyOutput = js ''> hello  '' @ [13, 10] @ [10018] @ js '' thinking'' @ [10, 10, 10] @ js ''bye'' @ [10]"

theorem chat_text_is_quiet_witness:
  "normalizeChatText noisyOutput = js ''hello'' @ [10, 10] @ js ''bye''
   \<and> (\<forall>l \<in> set (split_on 10 (normalizeChatText noisyOutput)). \<not> isThinkingNoiseLine l)"
proof -
  have "\<forall>l \<in> set (splitCrLf (dropBlocks noisyOutput)). \<not> test False fenceRe l"
    by code_simp
  from chat_text_is_quiet [OF this]
  have "\<forall>l \<in> set (split_on 10 (normalizeChatText noisyOutput)). \<not> isThinkingNoiseLine l"
    by blast
  moreover have "normalizeChatText noisyOutput = js ''hello'' @ [10, 10] @ js ''bye''"
    by code_simp
  ultimately show ?thesis by blast
qed

end
