(* ===== verification/ChatHistory.thy ===== *)
theory ChatHistory
  imports ChatText
begin

text \<open>
  \<open>src/web/src/app/chat-history.ts\<close>, the store: per session the list of messages with their
  running numbers, the buffer of terminal output that becomes a message when the output pauses,
  the timers, the subscription of the chat pane and what the pane shows, and the restoration from
  the Hub's database (a request that begins and ends as two operations). Timers are due times.
\<close>

section \<open>State\<close>

record chatAttach =
  atUrl :: "jstr option"
  atRevoked :: bool

record chatMsg =
  cmId :: int
  cmTs :: int
  cmRole :: jstr
  cmKind :: jstr
  cmRaw :: jstr
  cmNorm :: jstr
  cmAttach :: "chatAttach list option"
  cmMeta :: "jstr option"  \<comment> \<open>\<open>tool\<close> and \<open>meta\<close>, which the store only keeps\<close>

text \<open>What a caller of \<open>pushMessage\<close> passes, absent properties as \<open>None\<close>.\<close>

record msgIn =
  miTs :: "int option"
  miRole :: "jstr option"
  miKind :: "jstr option"
  miRaw :: "jstr option"
  miText :: "jstr option"
  miNorm :: "jstr option"
  miAttach :: "chatAttach list option"
  miMeta :: "jstr option"

definition userText :: "jstr \<Rightarrow> msgIn" where
  "userText raw = \<lparr>miTs = None, miRole = Some (js ''user''), miKind = Some (js ''text''), miRaw = Some raw,
     miText = None, miNorm = None, miAttach = None, miMeta = None\<rparr>"

record outBuf =
  obChunks :: "jstr list"
  obLast :: int

text \<open>
  \<open>chSubs\<close>: the subscribed callbacks of a session, the number 0 is the pane's own one;
  \<open>chNotes\<close>: the calls of the others. \<open>chShown\<close>: the numbers of the bubbles in the timeline,
  \<open>chRendered\<close>: the set \<open>_chatPaneRenderedMessageIds\<close>.
\<close>

record chatState =
  chNow :: int
  chHistory :: "int \<Rightarrow> chatMsg list option"
  chSeq :: "int \<Rightarrow> int option"
  chBuf :: "int \<Rightarrow> outBuf option"
  chTimer :: "int \<Rightarrow> int option"
  chSubs :: "int \<Rightarrow> nat list option"
  chNotes :: "(int \<times> nat \<times> int option) list"
  chRestored :: "int set"
  chInflight :: "int set"
  chActive :: "int option"
  chChatMode :: bool  \<comment> \<open>\<open>isChatViewModeActive\<close>\<close>
  chMounted :: "int option"
  chShown :: "int list"
  chRendered :: "int set"
  chPaneSub :: "int option"  \<comment> \<open>the session of \<open>_activeChatSubUnsub\<close>\<close>

section \<open>Messages\<close>

definition getMessages :: "int \<Rightarrow> chatState \<Rightarrow> chatMsg list" where
  "getMessages sid S = (case chHistory S sid of None \<Rightarrow> [] | Some ms \<Rightarrow> ms)"

definition hasMeaningfulLocalChat :: "int \<Rightarrow> chatState \<Rightarrow> bool" where
  "hasMeaningfulLocalChat sid S =
     (case getMessages sid S of
        [] \<Rightarrow> False
      | [m] \<Rightarrow> \<not> (cmRole m = js ''user'' \<and> trim (if cmRaw m \<noteq> [] then cmRaw m else cmNorm m) = [])
      | _ \<Rightarrow> True)"

text \<open>The guards of \<open>restoreChatHistoryFromStore\<close> up to the request.\<close>

definition restoreBegin :: "int \<Rightarrow> bool \<Rightarrow> chatState \<Rightarrow> chatState" where
  "restoreBegin sid force S =
     (if sid \<in> chInflight S then S
      else if \<not> force \<and> sid \<in> chRestored S then S
      else if \<not> force \<and> hasMeaningfulLocalChat sid S then S
      else S\<lparr>chInflight := insert sid (chInflight S)\<rparr>)"

text \<open>\<open>mountChatPaneForSession\<close>: the timeline is rebuilt from the store.\<close>

definition mountChatPane :: "int option \<Rightarrow> chatState \<Rightarrow> chatState" where
  "mountChatPane sid S =
     (let S1 = S\<lparr>chMounted := sid, chShown := [], chRendered := {}\<rparr> in
      case sid of
        None \<Rightarrow> S1
      | Some i \<Rightarrow>
          (let S2 = (if i \<notin> chRestored S1 \<and> \<not> hasMeaningfulLocalChat i S1 then restoreBegin i False S1 else S1);
               ids = map cmId (getMessages i S2)
           in S2\<lparr>chShown := ids, chRendered := set ids\<rparr>))"

definition appendMessage :: "int \<Rightarrow> chatMsg \<Rightarrow> chatState \<Rightarrow> chatState" where
  "appendMessage sid m S =
     (if Some sid \<noteq> chMounted S then
        (if Some sid = chActive S \<and> chChatMode S then mountChatPane (Some sid) S else S)
      else if cmId m \<in> chRendered S then S
      else S\<lparr>chRendered := insert (cmId m) (chRendered S), chShown := chShown S @ [cmId m]\<rparr>)"

text \<open>One subscriber: the pane's callback of \<open>rewireChatHistorySub\<close>, or another one.\<close>

definition callback :: "int \<Rightarrow> chatMsg option \<Rightarrow> nat \<Rightarrow> chatState \<Rightarrow> chatState" where
  "callback sid m cb S =
     (if cb = 0 then
        (if Some sid \<noteq> chActive S then S
         else (case m of None \<Rightarrow> S | Some x \<Rightarrow> appendMessage sid x S))
      else S\<lparr>chNotes := chNotes S @ [(sid, cb, map_option cmId m)]\<rparr>)"

definition chatHistoryNotify :: "int \<Rightarrow> chatMsg option \<Rightarrow> chatState \<Rightarrow> chatState" where
  "chatHistoryNotify sid m S =
     (case chSubs S sid of None \<Rightarrow> S | Some cbs \<Rightarrow> fold (callback sid m) cbs S)"

definition chatHistoryNextId :: "int \<Rightarrow> chatState \<Rightarrow> int \<times> chatState" where
  "chatHistoryNextId sid S =
     (let n = (case chSeq S sid of None \<Rightarrow> 0 | Some k \<Rightarrow> k) + 1
      in (n, S\<lparr>chSeq := (chSeq S)(sid := Some n)\<rparr>))"

definition orElse :: "jstr option \<Rightarrow> jstr \<Rightarrow> jstr" where
  "orElse x d = (case x of None \<Rightarrow> d | Some s \<Rightarrow> if s = [] then d else s)"

definition entryOf :: "int \<Rightarrow> int \<Rightarrow> msgIn \<Rightarrow> chatMsg" where
  "entryOf now i m =
     (let raw = (case miRaw m of Some r \<Rightarrow> r | None \<Rightarrow> (case miText m of Some t \<Rightarrow> t | None \<Rightarrow> []));
          normalized = (case miNorm m of Some n \<Rightarrow> n | None \<Rightarrow> normalizeChatText raw)
      in \<lparr>cmId = i, cmTs = (case miTs m of None \<Rightarrow> now | Some t \<Rightarrow> if t = 0 then now else t),
          cmRole = orElse (miRole m) (js ''system''), cmKind = orElse (miKind m) (js ''text''),
          cmRaw = raw, cmNorm = normalized, cmAttach = miAttach m, cmMeta = miMeta m\<rparr>)"

definition pushMessage :: "int \<Rightarrow> msgIn \<Rightarrow> chatState \<Rightarrow> chatState" where
  "pushMessage sid m S =
     (let (i, S1) = chatHistoryNextId sid S; entry = entryOf (chNow S) i m in
      chatHistoryNotify sid (Some entry)
        (S1\<lparr>chHistory := (chHistory S1)(sid := Some (getMessages sid S1 @ [entry]))\<rparr>))"

section \<open>Terminal output\<close>

definition chatHistoryAppendOutput :: "int \<Rightarrow> jstr \<Rightarrow> chatState \<Rightarrow> chatState" where
  "chatHistoryAppendOutput sid raw S =
     (if raw = [] then S
      else S\<lparr>chBuf := (chBuf S)(sid := Some \<lparr>obChunks =
               (case chBuf S sid of None \<Rightarrow> [] | Some b \<Rightarrow> obChunks b) @ [raw], obLast = chNow S\<rparr>),
             chTimer := (chTimer S)(sid := Some (chNow S + 1500))\<rparr>)"

definition spinnerOnlyRe :: rx where
  "spinnerOnlyRe = seqs [RBol, many1 (anyOf [8226, 9702, 10251, 10265, 10297, 10296, 10300, 10292, 10278,
     10279, 10247, 10255, 13, 10]), REol]"

definition dropTimer :: "int \<Rightarrow> chatState \<Rightarrow> chatState" where
  "dropTimer sid S = S\<lparr>chTimer := (chTimer S)(sid := None)\<rparr>"

definition aiText :: "jstr \<Rightarrow> jstr \<Rightarrow> msgIn" where
  "aiText stripped normalized = \<lparr>miTs = None, miRole = Some (js ''ai''), miKind = Some (js ''text''),
     miRaw = Some stripped, miText = None, miNorm = Some normalized, miAttach = None, miMeta = None\<rparr>"

definition emptyBuf :: "int \<Rightarrow> chatState \<Rightarrow> chatState" where
  "emptyBuf sid S = S\<lparr>chBuf := (chBuf S)(sid := map_option (\<lambda>b. b\<lparr>obChunks := []\<rparr>) (chBuf S sid))\<rparr>"

definition chatHistoryCommitOutput :: "int \<Rightarrow> chatState \<Rightarrow> chatState" where
  "chatHistoryCommitOutput sid S0 =
     (let S = dropTimer sid S0 in
      case chBuf S sid of
        None \<Rightarrow> S
      | Some b \<Rightarrow>
          if obChunks b = [] then S
          else (let stripped = stripAnsiBasic (concat (obChunks b)); S1 = emptyBuf sid S;
                    normalized = normalizeChatText stripped
                in if trim stripped = [] then S1
                   else if test False spinnerOnlyRe (trim stripped) then S1
                   else if getMessages sid S1 = [] then S1
                   else if trim normalized = [] then S1
                   else pushMessage sid (aiText stripped normalized) S1))"

definition fireAutoCommit :: "int \<Rightarrow> chatState \<Rightarrow> chatState" where
  "fireAutoCommit sid S = chatHistoryCommitOutput sid (dropTimer sid S)"

definition autoCommitDue :: "int \<Rightarrow> chatState \<Rightarrow> bool" where
  "autoCommitDue sid S = (case chTimer S sid of None \<Rightarrow> False | Some d \<Rightarrow> d \<le> chNow S)"

definition chatHistoryCommitOutputOrSeed :: "int \<Rightarrow> chatState \<Rightarrow> chatState" where
  "chatHistoryCommitOutputOrSeed sid S =
     (if getMessages sid S = [] then pushMessage sid (userText []) (emptyBuf sid S)
      else chatHistoryCommitOutput sid S)"

text \<open>
  The part of the output handler of \<open>ws-client.ts\<close> that feeds the history: a chunk is cut at the
  Hub's user-turn markers, each of which ends a turn.
\<close>

fun feedParts :: "int \<Rightarrow> jstr list \<Rightarrow> chatState \<Rightarrow> chatState" where
  "feedParts sid [] S = S"
| "feedParts sid [p] S = (if p = [] then S else chatHistoryAppendOutput sid p S)"
| "feedParts sid (p # q # ps) S =
     feedParts sid (q # ps)
       (chatHistoryCommitOutputOrSeed sid (if p = [] then S else chatHistoryAppendOutput sid p S))"

section \<open>Removal and restoration\<close>

definition revokeUrl :: "chatAttach \<Rightarrow> chatAttach" where
  "revokeUrl a =
     (case atUrl a of
        None \<Rightarrow> a
      | Some u \<Rightarrow> if u \<noteq> [] \<and> starts_with (js ''blob:'') u then \<lparr>atUrl = None, atRevoked = True\<rparr> else a)"

definition revokeMsg :: "chatMsg \<Rightarrow> chatMsg" where
  "revokeMsg m = (if cmKind m = js ''attach'' then m\<lparr>cmAttach := map_option (map revokeUrl) (cmAttach m)\<rparr> else m)"

definition revokeChatHistoryAttachmentURLs :: "int \<Rightarrow> chatState \<Rightarrow> chatState" where
  "revokeChatHistoryAttachmentURLs sid S =
     S\<lparr>chHistory := (chHistory S)(sid := map_option (map revokeMsg) (chHistory S sid))\<rparr>"

text \<open>What the three deleting functions share: timer, buffer, messages and numbering of a session.\<close>

definition forgetSession :: "int \<Rightarrow> chatState \<Rightarrow> chatState" where
  "forgetSession sid S =
     (let S1 = dropTimer sid S; S2 = S1\<lparr>chBuf := (chBuf S1)(sid := None)\<rparr>;
          S3 = revokeChatHistoryAttachmentURLs sid S2
      in S3\<lparr>chHistory := (chHistory S3)(sid := None), chSeq := (chSeq S3)(sid := None)\<rparr>)"

definition onChatHistorySessionRemoved :: "int \<Rightarrow> chatState \<Rightarrow> chatState" where
  "onChatHistorySessionRemoved sid S =
     (let S1 = forgetSession sid S;
          S2 = S1\<lparr>chSubs := (chSubs S1)(sid := None), chRestored := chRestored S1 - {sid}\<rparr>
      in if chMounted S2 = Some sid then S2\<lparr>chMounted := None, chRendered := {}\<rparr> else S2)"

definition resetChatHistoryForSession :: "int \<Rightarrow> chatState \<Rightarrow> chatState" where
  "resetChatHistoryForSession sid S = chatHistoryNotify sid None (forgetSession sid S)"

text \<open>\<open>ids\<close> lists the sessions that have a history, a buffer, a timer or are known.\<close>

definition resetAllChatHistory :: "int list \<Rightarrow> chatState \<Rightarrow> chatState" where
  "resetAllChatHistory ids S = fold resetChatHistoryForSession ids S"

record storedMsg =
  smTs :: int
  smRole :: jstr
  smKind :: jstr
  smRaw :: jstr
  smAttach :: "chatAttach list option"
  smMeta :: "jstr option"

definition restoreOne :: "int \<Rightarrow> storedMsg \<Rightarrow> chatState \<Rightarrow> chatState" where
  "restoreOne sid m S =
     (let role = orElse (Some (smRole m)) (js ''system''); kind = orElse (Some (smKind m)) (js ''text'');
          normalized = (if role = js ''ai'' \<and> kind = js ''text'' then Some (normalizeChatText (smRaw m)) else None)
      in if normalized \<noteq> None \<and> trim (the normalized) = [] then S
         else pushMessage sid \<lparr>miTs = Some (if smTs m = 0 then chNow S else smTs m), miRole = Some role,
                miKind = Some kind, miRaw = Some (smRaw m), miText = None, miNorm = normalized,
                miAttach = smAttach m, miMeta = smMeta m\<rparr> S)"

text \<open>
  The answer of the request: \<open>None\<close> when it failed or was not understood. Afterwards the pane is
  rebuilt when it still shows the session.
\<close>

definition restoreEnd :: "int \<Rightarrow> storedMsg list option \<Rightarrow> chatState \<Rightarrow> chatState" where
  "restoreEnd sid resp S =
     (let fin = (\<lambda>T. T\<lparr>chInflight := chInflight T - {sid}\<rparr>) in
      if sid \<notin> chInflight S then S
      else case resp of
        None \<Rightarrow> fin S
      | Some [] \<Rightarrow> fin S
      | Some (m # ms) \<Rightarrow>
          (let S1 = fold (restoreOne sid) (m # ms) (forgetSession sid S);
               S2 = fin (S1\<lparr>chRestored := insert sid (chRestored S1)\<rparr>)
           in if chMounted S2 = Some sid then mountChatPane (Some sid) S2 else S2))"

section \<open>Subscription and view\<close>

definition subscribe :: "int \<Rightarrow> nat \<Rightarrow> chatState \<Rightarrow> chatState" where
  "subscribe sid cb S =
     (let cbs = (case chSubs S sid of None \<Rightarrow> [] | Some c \<Rightarrow> c)
      in S\<lparr>chSubs := (chSubs S)(sid := Some (if List.member cbs cb then cbs else cbs @ [cb]))\<rparr>)"

definition unsubscribe :: "int \<Rightarrow> nat \<Rightarrow> chatState \<Rightarrow> chatState" where
  "unsubscribe sid cb S =
     (case chSubs S sid of
        None \<Rightarrow> S
      | Some cbs \<Rightarrow>
          (let cbs' = filter (\<lambda>c. c \<noteq> cb) cbs
           in S\<lparr>chSubs := (chSubs S)(sid := (if cbs' = [] then None else Some cbs'))\<rparr>))"

definition rewireChatHistorySub :: "int option \<Rightarrow> chatState \<Rightarrow> chatState" where
  "rewireChatHistorySub sid S =
     (let S1 = (case chPaneSub S of None \<Rightarrow> S | Some i \<Rightarrow> (unsubscribe i 0 S)\<lparr>chPaneSub := None\<rparr>) in
      case sid of None \<Rightarrow> S1 | Some i \<Rightarrow> (subscribe i 0 S1)\<lparr>chPaneSub := Some i\<rparr>)"

text \<open>The listener of \<open>session-view-mode-changed\<close>, for the views that show the chat.\<close>

definition viewModeChanged :: "int \<Rightarrow> bool \<Rightarrow> chatState \<Rightarrow> chatState" where
  "viewModeChanged sid chat S =
     (let S1 = S\<lparr>chChatMode := chat\<rparr> in
      if Some sid \<noteq> chActive S1 then S1
      else if \<not> chat then S1
      else if chMounted S1 \<noteq> Some sid then mountChatPane (Some sid) S1 else S1)"

section \<open>Runs\<close>

datatype chatOp =
    Tick nat
  | AutoCommit int
  | Feed int "jstr list"
  | Commit int
  | Seed int
  | Push int msgIn
  | Reset int
  | ResetAll "int list"
  | Removed int
  | RestoreBegin int bool
  | RestoreEnd int "storedMsg list option"
  | Mount "int option"
  | Rewire "int option"
  | Subscribe int nat
  | Unsubscribe int nat
  | Activate int
  | ViewMode int bool

fun chatStep :: "chatOp \<Rightarrow> chatState \<Rightarrow> chatState" where
  "chatStep (Tick n) S = S\<lparr>chNow := chNow S + int n\<rparr>"
| "chatStep (AutoCommit sid) S = (if autoCommitDue sid S then fireAutoCommit sid S else S)"
| "chatStep (Feed sid parts) S = feedParts sid parts S"
| "chatStep (Commit sid) S = chatHistoryCommitOutput sid S"
| "chatStep (Seed sid) S = chatHistoryCommitOutputOrSeed sid S"
| "chatStep (Push sid m) S = pushMessage sid m S"
| "chatStep (Reset sid) S = resetChatHistoryForSession sid S"
| "chatStep (ResetAll ids) S = resetAllChatHistory ids S"
| "chatStep (Removed sid) S = onChatHistorySessionRemoved sid S"
| "chatStep (RestoreBegin sid force) S = restoreBegin sid force S"
| "chatStep (RestoreEnd sid resp) S = restoreEnd sid resp S"
| "chatStep (Mount sid) S = mountChatPane sid S"
| "chatStep (Rewire sid) S = rewireChatHistorySub sid S"
| "chatStep (Subscribe sid cb) S = subscribe sid cb S"
| "chatStep (Unsubscribe sid cb) S = unsubscribe sid cb S"
| "chatStep (Activate sid) S = S\<lparr>chActive := Some sid\<rparr>"
| "chatStep (ViewMode sid chat) S = viewModeChanged sid chat S"

definition chatRun :: "chatOp list \<Rightarrow> chatState \<Rightarrow> chatState" where
  "chatRun ops S = fold chatStep ops S"

definition chatInit :: chatState where
  "chatInit = \<lparr>chNow = 0, chHistory = (\<lambda>_. None), chSeq = (\<lambda>_. None), chBuf = (\<lambda>_. None),
     chTimer = (\<lambda>_. None), chSubs = (\<lambda>_. None), chNotes = [], chRestored = {}, chInflight = {},
     chActive = None, chChatMode = False, chMounted = None, chShown = [], chRendered = {}, chPaneSub = None\<rparr>"

lemma chatRun_simps [simp]:
  "chatRun [] S = S" "chatRun (op # ops) S = chatRun ops (chatStep op S)"
  by (simp_all add: chatRun_def)

section \<open>What the parts of the state depend on\<close>

text \<open>Mounting, notifying and subscribing change neither messages, numbers, buffers nor timers.\<close>

definition sameStore :: "chatState \<Rightarrow> chatState \<Rightarrow> bool" where
  "sameStore S T \<longleftrightarrow> chHistory T = chHistory S \<and> chSeq T = chSeq S \<and> chBuf T = chBuf S
     \<and> chTimer T = chTimer S \<and> chNow T = chNow S"

lemma sameStore_refl [simp]: "sameStore S S"
  by (simp add: sameStore_def)

lemma sameStore_trans: "sameStore S T \<Longrightarrow> sameStore T U \<Longrightarrow> sameStore S U"
  by (simp add: sameStore_def)

lemma same_restoreBegin [simp]: "sameStore S (restoreBegin sid f S)"
  by (simp add: restoreBegin_def sameStore_def)

lemma same_mount [simp]: "sameStore S (mountChatPane sid S)"
  by (simp add: mountChatPane_def restoreBegin_def sameStore_def Let_def split: option.split)

lemma same_callback [simp]: "sameStore S (callback sid m cb S)"
  using same_mount [of S "Some sid"]
  by (auto simp: callback_def appendMessage_def sameStore_def split: option.split)

lemma same_notify [simp]: "sameStore S (chatHistoryNotify sid m S)"
proof -
  have "sameStore S (fold (callback sid m) cbs S)" for cbs
    by (induction cbs arbitrary: S) (auto intro: sameStore_trans [OF same_callback])
  then show ?thesis by (simp add: chatHistoryNotify_def split: option.split)
qed

lemma same_subscribe [simp]: "sameStore S (subscribe sid cb S)" "sameStore S (unsubscribe sid cb S)"
  by (simp_all add: subscribe_def unsubscribe_def sameStore_def Let_def split: option.split)

lemma same_rewire [simp]: "sameStore S (rewireChatHistorySub sid S)"
  by (simp add: rewireChatHistorySub_def subscribe_def unsubscribe_def sameStore_def Let_def split: option.split)

lemma same_view [simp]: "sameStore S (viewModeChanged sid c S)"
  using same_mount [of "S\<lparr>chChatMode := c\<rparr>" "Some sid"]
  by (cases c; cases "Some sid = chActive S") (simp_all add: viewModeChanged_def sameStore_def Let_def)

text \<open>The store part of a push.\<close>

definition pushed :: "int \<Rightarrow> chatMsg \<Rightarrow> chatState \<Rightarrow> chatState" where
  "pushed sid e S = S\<lparr>chSeq := (chSeq S)(sid := Some (cmId e)),
     chHistory := (chHistory S)(sid := Some (getMessages sid S @ [e]))\<rparr>"

definition nextEntry :: "int \<Rightarrow> msgIn \<Rightarrow> chatState \<Rightarrow> chatMsg" where
  "nextEntry sid m S = entryOf (chNow S) ((case chSeq S sid of None \<Rightarrow> 0 | Some k \<Rightarrow> k) + 1) m"

lemma entryOf_id [simp]: "cmId (entryOf now i m) = i"
  by (simp add: entryOf_def Let_def)

lemma pushMessage_pushed: "pushMessage sid m S = chatHistoryNotify sid (Some (nextEntry sid m S)) (pushed sid (nextEntry sid m S) S)"
  by (simp add: pushMessage_def chatHistoryNextId_def nextEntry_def pushed_def getMessages_def Let_def)

text \<open>
  An invariant of the store that the six basic changes keep holds throughout every run. A push
  has a condition on the message, which depends on where it comes from.
\<close>

locale store_invariant =
  fixes Q :: "chatState \<Rightarrow> bool" and ok :: "msgIn \<Rightarrow> bool"
  assumes same: "sameStore S T \<Longrightarrow> Q S \<Longrightarrow> Q T"
    and tick: "Q S \<Longrightarrow> Q (S\<lparr>chNow := chNow S + int n\<rparr>)"
    and push: "ok m \<Longrightarrow> Q S \<Longrightarrow> Q (pushed sid (nextEntry sid m S) S)"
    and append: "Q S \<Longrightarrow> Q (chatHistoryAppendOutput sid raw S)"
    and forget: "Q S \<Longrightarrow> Q (forgetSession sid S)"
    and quiet: "Q S \<Longrightarrow> Q (dropTimer sid (emptyBuf sid S))"
    and emptied: "Q S \<Longrightarrow> Q (emptyBuf sid S)"
    and idle: "Q S \<Longrightarrow> chBuf S sid = None \<or> obChunks (the (chBuf S sid)) = [] \<Longrightarrow> Q (dropTimer sid S)"
    and ok_user: "ok (userText [])"
    and ok_ai: "trim norm \<noteq> [] \<Longrightarrow> ok (aiText (stripAnsiBasic r) norm)"
    and ok_stored: "miNorm m = None \<longrightarrow> miRole m \<noteq> Some (js ''ai'') \<or> miKind m \<noteq> Some (js ''text'')
      \<Longrightarrow> miNorm m \<noteq> None \<longrightarrow> trim (the (miNorm m)) \<noteq> [] \<Longrightarrow> miRole m \<noteq> Some [] \<Longrightarrow> miKind m \<noteq> Some []
      \<Longrightarrow> miRole m \<noteq> None \<Longrightarrow> miKind m \<noteq> None \<Longrightarrow> ok m"
begin

lemma pushMessage: "ok m \<Longrightarrow> Q S \<Longrightarrow> Q (pushMessage sid m S)"
  unfolding pushMessage_pushed by (rule same [OF same_notify]) (rule push)

lemma commit:
  assumes "Q S"
  shows "Q (chatHistoryCommitOutput sid S)"
proof (cases "chBuf S sid = None \<or> obChunks (the (chBuf S sid)) = []")
  case True
  then have "chatHistoryCommitOutput sid S = dropTimer sid S"
    by (auto simp: chatHistoryCommitOutput_def dropTimer_def Let_def split: option.split)
  with idle [OF assms True] show ?thesis by simp
next
  case False
  then obtain b where b: "chBuf S sid = Some b" "obChunks b \<noteq> []" by auto
  have "emptyBuf sid (dropTimer sid S) = dropTimer sid (emptyBuf sid S)"
    by (simp add: emptyBuf_def dropTimer_def)
  then have Q1: "Q (emptyBuf sid (dropTimer sid S))"
    using quiet [OF assms] by simp
  have "chBuf (dropTimer sid S) sid = Some b"
    using b by (simp add: dropTimer_def)
  then show ?thesis
    using b(2) Q1 pushMessage [OF ok_ai Q1, of "normalizeChatText (stripAnsiBasic (concat (obChunks b)))"]
    by (simp add: chatHistoryCommitOutput_def Let_def)
qed

lemma fire: "Q S \<Longrightarrow> Q (fireAutoCommit sid S)"
proof -
  assume Q: "Q S"
  have "fireAutoCommit sid S = chatHistoryCommitOutput sid S"
    by (simp add: fireAutoCommit_def chatHistoryCommitOutput_def dropTimer_def)
  with commit [OF Q] show ?thesis by simp
qed

lemma seed: "Q S \<Longrightarrow> Q (chatHistoryCommitOutputOrSeed sid S)"
  by (simp add: chatHistoryCommitOutputOrSeed_def commit emptied pushMessage ok_user)

lemma feed: "Q S \<Longrightarrow> Q (feedParts sid parts S)"
  by (induction sid parts S rule: feedParts.induct) (simp_all add: append seed)

lemma reset: "Q S \<Longrightarrow> Q (resetChatHistoryForSession sid S)"
  unfolding resetChatHistoryForSession_def by (rule same [OF same_notify]) (rule forget)

lemma resetAll: "Q S \<Longrightarrow> Q (resetAllChatHistory ids S)"
  unfolding resetAllChatHistory_def by (induction ids arbitrary: S) (simp_all add: reset)

lemma removed: "Q S \<Longrightarrow> Q (onChatHistorySessionRemoved sid S)"
  by (rule same [OF _ forget [of S sid]]) (auto simp: onChatHistorySessionRemoved_def sameStore_def Let_def)

lemma restoreOne: "Q S \<Longrightarrow> Q (restoreOne sid m S)"
  unfolding restoreOne_def Let_def
  by (auto simp: orElse_def js_def intro!: pushMessage ok_stored)

lemma restoreEnd:
  assumes "Q S"
  shows "Q (restoreEnd sid resp S)"
proof -
  have f: "Q (fold (restoreOne sid) ms T)" if "Q T" for ms T
    using that by (induction ms arbitrary: T) (simp_all add: restoreOne)
  have s: "Q (T\<lparr>chInflight := I\<rparr>)" "Q (T\<lparr>chRestored := R\<rparr>)" "Q (mountChatPane x T)" if "Q T" for T I R x
    using that by (auto intro: same [of T] simp: sameStore_def same_mount [unfolded sameStore_def])
  show ?thesis
  proof (cases "sid \<in> chInflight S \<and> resp \<noteq> None \<and> resp \<noteq> Some []")
    case True
    then obtain m ms where "resp = Some (m # ms)" by (cases resp; cases "the resp") auto
    with True show ?thesis
      using f [OF forget [OF assms], of "m # ms"] by (simp add: restoreEnd_def Let_def s)
  next
    case False
    then show ?thesis
      by (auto simp: restoreEnd_def Let_def s assms split: option.split list.split)
  qed
qed

lemma step: "Q S \<Longrightarrow> (\<And>sid m. op = Push sid m \<Longrightarrow> ok m) \<Longrightarrow> Q (chatStep op S)"
  by (cases op)
     (auto simp: tick fire feed commit seed pushMessage reset resetAll removed restoreEnd
       intro: same [of S] simp: sameStore_def [of S "S\<lparr>chActive := _\<rparr>"])

lemma run: "Q S \<Longrightarrow> \<forall>sid m. Push sid m \<in> set ops \<longrightarrow> ok m \<Longrightarrow> Q (chatRun ops S)"
proof (induction ops arbitrary: S)
  case (Cons op ops)
  then have "Q (chatStep op S)" by (intro step) auto
  with Cons show ?case by simp
qed simp

end

section \<open>Numbers\<close>

fun numberedAt :: "chatMsg list option \<Rightarrow> int option \<Rightarrow> bool" where
  "numberedAt None q = (q = None)"
| "numberedAt (Some ms) q = (map cmId ms = [1..int (length ms)] \<and> q = Some (int (length ms)))"

definition numbered :: "chatState \<Rightarrow> bool" where
  "numbered S \<longleftrightarrow> (\<forall>sid. numberedAt (chHistory S sid) (chSeq S sid))"

lemma numbered_push:
  assumes "numbered S"
  shows "numbered (pushed sid (nextEntry sid m S) S)"
proof -
  have "numberedAt (chHistory S sid) (chSeq S sid)"
    using assms by (simp add: numbered_def)
  then have "numberedAt (Some (getMessages sid S @ [nextEntry sid m S])) (Some (cmId (nextEntry sid m S)))"
    by (cases "chHistory S sid") (auto simp: getMessages_def nextEntry_def upto_rec2)
  with assms show ?thesis
    unfolding numbered_def pushed_def by (simp del: numberedAt.simps)
qed

lemma revoke_id [simp]: "cmId (revokeMsg m) = cmId m"
  by (simp add: revokeMsg_def)

lemma forget_parts:
  "chHistory (forgetSession sid S) = (chHistory S)(sid := None)" "chSeq (forgetSession sid S) = (chSeq S)(sid := None)"
  "chBuf (forgetSession sid S) = (chBuf S)(sid := None)" "chTimer (forgetSession sid S) = (chTimer S)(sid := None)"
  "chNow (forgetSession sid S) = chNow S"
  by (simp_all add: forgetSession_def dropTimer_def revokeChatHistoryAttachmentURLs_def Let_def)

lemma numbered_cong:
  "chHistory T = chHistory S \<Longrightarrow> chSeq T = chSeq S \<Longrightarrow> numbered S \<Longrightarrow> numbered T"
  by (simp add: numbered_def)

lemma numbered_init: "numbered chatInit"
  by (simp add: numbered_def chatInit_def)

interpretation num: store_invariant numbered "\<lambda>_. True"
proof unfold_locales
  fix S sid
  show "numbered S \<Longrightarrow> numbered (forgetSession sid S)"
    unfolding numbered_def forget_parts by simp
next
  fix m sid S
  show "numbered S \<Longrightarrow> numbered (pushed sid (nextEntry sid m S) S)" by (rule numbered_push)
qed (auto elim!: numbered_cong [rotated 2]
      simp: sameStore_def chatHistoryAppendOutput_def dropTimer_def emptyBuf_def)

text \<open>
  The numbers of a session's chat messages are 1, 2, 3 and so on without gaps or repetitions,
  in the order of the messages, whatever happens: output, turns of the user, resets, restorations
  from the database, removed sessions. The next message gets the next number.
\<close>

theorem message_numbers_consecutive:
  "case chHistory (chatRun ops chatInit) sid of
     None \<Rightarrow> chSeq (chatRun ops chatInit) sid = None
   | Some ms \<Rightarrow> map cmId ms = [1..int (length ms)] \<and> chSeq (chatRun ops chatInit) sid = Some (int (length ms))"
  using num.run [OF numbered_init, of ops] unfolding numbered_def
  by (auto split: option.split dest: spec [of _ sid])

section \<open>Output is not forgotten\<close>

definition timed :: "chatState \<Rightarrow> bool" where
  "timed S \<longleftrightarrow> (\<forall>sid b. chBuf S sid = Some b \<longrightarrow> obChunks b \<noteq> [] \<longrightarrow>
     chTimer S sid = Some (obLast b + 1500) \<and> obLast b \<le> chNow S)"

interpretation tim: store_invariant timed "\<lambda>_. True"
proof unfold_locales
  fix S T :: chatState
  show "sameStore S T \<Longrightarrow> timed S \<Longrightarrow> timed T" by (simp add: timed_def sameStore_def)
next
  fix S k
  show "timed S \<Longrightarrow> timed (S\<lparr>chNow := chNow S + int k\<rparr>)" by (force simp: timed_def)
next
  fix m sid S
  show "timed S \<Longrightarrow> timed (pushed sid (nextEntry sid m S) S)" by (simp add: timed_def pushed_def)
next
  fix S sid raw
  show "timed S \<Longrightarrow> timed (chatHistoryAppendOutput sid raw S)"
    by (simp add: timed_def chatHistoryAppendOutput_def)
next
  fix S sid
  show "timed S \<Longrightarrow> timed (forgetSession sid S)" by (simp add: timed_def forget_parts)
  show "timed S \<Longrightarrow> timed (dropTimer sid (emptyBuf sid S))"
    by (auto simp: timed_def dropTimer_def emptyBuf_def)
  show "timed S \<Longrightarrow> timed (emptyBuf sid S)" by (auto simp: timed_def emptyBuf_def)
  show "timed S \<Longrightarrow> chBuf S sid = None \<or> obChunks (the (chBuf S sid)) = [] \<Longrightarrow> timed (dropTimer sid S)"
    by (auto simp: timed_def dropTimer_def)
qed simp_all

definition recordable :: "jstr \<Rightarrow> bool" where
  "recordable t \<longleftrightarrow> trim t \<noteq> [] \<and> \<not> test False spinnerOnlyRe (trim t) \<and> trim (normalizeChatText t) \<noteq> []"

lemma commit_records:
  assumes "chBuf S sid = Some b" "obChunks b \<noteq> []" "getMessages sid S \<noteq> []"
    and "recordable (stripAnsiBasic (concat (obChunks b)))"
  shows "getMessages sid (chatHistoryCommitOutput sid S) = getMessages sid S @
    [nextEntry sid (aiText (stripAnsiBasic (concat (obChunks b)))
       (normalizeChatText (stripAnsiBasic (concat (obChunks b))))) S]"
proof -
  let ?t = "stripAnsiBasic (concat (obChunks b))"
  let ?S = "emptyBuf sid (dropTimer sid S)"
  let ?m = "aiText ?t (normalizeChatText ?t)"
  have "chatHistoryCommitOutput sid S = pushMessage sid ?m ?S"
    using assms by (simp add: chatHistoryCommitOutput_def Let_def dropTimer_def emptyBuf_def getMessages_def recordable_def)
  moreover have "getMessages sid (pushMessage sid ?m ?S) = getMessages sid ?S @ [nextEntry sid ?m ?S]"
    using same_notify [of "pushed sid (nextEntry sid ?m ?S) ?S" sid "Some (nextEntry sid ?m ?S)"]
    unfolding pushMessage_pushed by (simp add: sameStore_def getMessages_def pushed_def)
  ultimately show ?thesis
    by (simp add: getMessages_def nextEntry_def emptyBuf_def dropTimer_def)
qed

text \<open>
  C24: No terminal output is left waiting: in every reachable state, output that is buffered for a
  session's chat has a running timer, due 1.5 seconds after the last chunk; when it fires and the
  session has a conversation, exactly one message is added and it holds the text of all buffered
  chunks, escape sequences removed, unless that text is blank, a spinner or noise only.
\<close>

theorem buffered_output_is_recorded:
  assumes "S = chatRun ops chatInit" "chBuf S sid = Some b" "obChunks b \<noteq> []"
  shows "chTimer S sid = Some (obLast b + 1500) \<and>
    (getMessages sid S \<noteq> [] \<longrightarrow> recordable (stripAnsiBasic (concat (obChunks b))) \<longrightarrow>
      (\<exists>m. getMessages sid (fireAutoCommit sid S) = getMessages sid S @ [m] \<and> cmRole m = js ''ai''
         \<and> cmRaw m = stripAnsiBasic (concat (obChunks b)) \<and> cmNorm m = normalizeChatText (cmRaw m)))"
proof (intro conjI impI)
  have "timed chatInit" by (simp add: timed_def chatInit_def)
  with tim.run [of chatInit ops] assms(1) have "timed S" by simp
  with assms show "chTimer S sid = Some (obLast b + 1500)" by (simp add: timed_def)
next
  assume a: "getMessages sid S \<noteq> []" "recordable (stripAnsiBasic (concat (obChunks b)))"
  have "fireAutoCommit sid S = chatHistoryCommitOutput sid S"
    by (simp add: fireAutoCommit_def chatHistoryCommitOutput_def dropTimer_def)
  with commit_records [OF assms(2,3) a]
  show "\<exists>m. getMessages sid (fireAutoCommit sid S) = getMessages sid S @ [m] \<and> cmRole m = js ''ai''
      \<and> cmRaw m = stripAnsiBasic (concat (obChunks b)) \<and> cmNorm m = normalizeChatText (cmRaw m)"
    by (simp add: nextEntry_def entryOf_def aiText_def orElse_def js_def)
qed

section \<open>Messages of the agent show text\<close>

definition okMsg :: "msgIn \<Rightarrow> bool" where
  "okMsg m \<longleftrightarrow> (orElse (miRole m) (js ''system'') = js ''ai'' \<and> orElse (miKind m) (js ''text'') = js ''text''
     \<longrightarrow> (\<exists>n. miNorm m = Some n \<and> trim n \<noteq> []))"

definition agentTextVisible :: "chatMsg \<Rightarrow> bool" where
  "agentTextVisible m \<longleftrightarrow> (cmRole m = js ''ai'' \<and> cmKind m = js ''text'' \<longrightarrow> trim (cmNorm m) \<noteq> [])"

definition visible :: "chatState \<Rightarrow> bool" where
  "visible S \<longleftrightarrow> (\<forall>sid. \<forall>m \<in> set (getMessages sid S). agentTextVisible m)"

lemma entry_visible: "okMsg m \<Longrightarrow> agentTextVisible (entryOf now i m)"
  by (auto simp: okMsg_def agentTextVisible_def entryOf_def Let_def)

interpretation vis: store_invariant visible okMsg
proof unfold_locales
  fix m sid S
  show "okMsg m \<Longrightarrow> visible S \<Longrightarrow> visible (pushed sid (nextEntry sid m S) S)"
    by (auto simp: visible_def pushed_def getMessages_def nextEntry_def entry_visible)
next
  fix m
  show "miNorm m = None \<longrightarrow> miRole m \<noteq> Some (js ''ai'') \<or> miKind m \<noteq> Some (js ''text'')
      \<Longrightarrow> miNorm m \<noteq> None \<longrightarrow> trim (the (miNorm m)) \<noteq> [] \<Longrightarrow> miRole m \<noteq> Some [] \<Longrightarrow> miKind m \<noteq> Some []
      \<Longrightarrow> miRole m \<noteq> None \<Longrightarrow> miKind m \<noteq> None \<Longrightarrow> okMsg m"
    by (auto simp: okMsg_def orElse_def split: option.splits)
qed (auto simp: visible_def sameStore_def getMessages_def chatHistoryAppendOutput_def forget_parts
      dropTimer_def emptyBuf_def okMsg_def userText_def aiText_def orElse_def js_def)

text \<open>
  Every text message of an agent in the chat history has something to show: as long as callers
  do not push such messages themselves, output that is blank after normalisation (spinner frames,
  hub blocks) never becomes a message, neither when output is committed nor when a session is
  restored from the database.
\<close>

theorem agent_messages_show_text:
  assumes "\<forall>sid m. Push sid m \<in> set ops \<longrightarrow> okMsg m"
  shows "\<forall>m \<in> set (getMessages sid (chatRun ops chatInit)). agentTextVisible m"
proof -
  have "visible chatInit" by (simp add: visible_def chatInit_def getMessages_def)
  from vis.run [OF this assms] show ?thesis by (simp add: visible_def)
qed

section \<open>The banner\<close>

text \<open>Output, its pauses and its turns of other sessions, but no message for this one.\<close>

fun onlyOutput :: "int \<Rightarrow> chatOp \<Rightarrow> bool" where
  "onlyOutput sid (Feed i parts) = (length parts \<le> 1 \<or> i \<noteq> sid)"
| "onlyOutput sid (Seed i) = (i \<noteq> sid)"
| "onlyOutput sid (Push i m) = (i \<noteq> sid)"
| "onlyOutput sid (RestoreEnd i resp) = (i \<noteq> sid)"
| "onlyOutput sid op = True"

lemma history_push: "chHistory (pushMessage i m S) = (chHistory S)(i := Some (getMessages i S @ [nextEntry i m S]))"
  using same_notify [of "pushed i (nextEntry i m S) S" i "Some (nextEntry i m S)"]
  unfolding pushMessage_pushed sameStore_def by (simp add: pushed_def)

lemma history_commit_other: "i \<noteq> sid \<Longrightarrow> chHistory (chatHistoryCommitOutput i S) sid = chHistory S sid"
  by (simp add: chatHistoryCommitOutput_def Let_def history_push emptyBuf_def dropTimer_def split: option.split)

lemma history_commit_None: "chHistory S sid = None \<Longrightarrow> chHistory (chatHistoryCommitOutput i S) sid = None"
  by (cases "i = sid") (simp_all add: history_commit_other, simp add: chatHistoryCommitOutput_def Let_def
      emptyBuf_def dropTimer_def getMessages_def split: option.split)

lemma history_fire: "fireAutoCommit i S = chatHistoryCommitOutput i S"
  by (simp add: fireAutoCommit_def chatHistoryCommitOutput_def dropTimer_def)

lemma history_feed:
  "length parts \<le> 1 \<or> i \<noteq> sid \<Longrightarrow> chHistory (feedParts i parts S) sid = chHistory S sid"
  by (induction i parts S rule: feedParts.induct)
     (simp_all add: chatHistoryAppendOutput_def chatHistoryCommitOutputOrSeed_def history_push emptyBuf_def
       history_commit_other)

lemma history_notify: "chHistory (chatHistoryNotify i m S) = chHistory S"
  using same_notify [of S i m] by (simp add: sameStore_def)

lemma history_reset: "chHistory (resetChatHistoryForSession i S) = (chHistory S)(i := None)"
  by (simp add: resetChatHistoryForSession_def history_notify forget_parts)

lemma history_resetAll: "chHistory S sid = None \<Longrightarrow> chHistory (resetAllChatHistory ids S) sid = None"
  unfolding resetAllChatHistory_def by (induction ids arbitrary: S) (simp_all add: history_reset)

lemma history_restoreOne: "i \<noteq> sid \<Longrightarrow> chHistory (restoreOne i m S) sid = chHistory S sid"
  by (simp add: restoreOne_def Let_def history_push)

lemma history_restoreEnd: "i \<noteq> sid \<Longrightarrow> chHistory (restoreEnd i resp S) sid = chHistory S sid"
proof -
  assume i: "i \<noteq> sid"
  have f: "chHistory (fold (restoreOne i) ms T) sid = chHistory T sid" for ms T
    using i by (induction ms arbitrary: T) (simp_all add: history_restoreOne)
  have m: "chHistory (mountChatPane x T) = chHistory T" for x T
    using same_mount [of T x] by (simp add: sameStore_def)
  show ?thesis
    using i by (simp add: restoreEnd_def Let_def f m history_restoreOne forget_parts split: option.split list.split)
qed

lemma history_view:
  "chHistory (mountChatPane x S) = chHistory S" "chHistory (restoreBegin i f S) = chHistory S"
  "chHistory (rewireChatHistorySub x S) = chHistory S" "chHistory (subscribe i cb S) = chHistory S"
  "chHistory (unsubscribe i cb S) = chHistory S" "chHistory (viewModeChanged i c S) = chHistory S"
  using same_mount [of S x] same_restoreBegin [of S i f] same_rewire [of S x] same_subscribe [of S i cb]
    same_view [of S i c] by (simp_all add: sameStore_def)

lemma history_removed: "chHistory (onChatHistorySessionRemoved i S) = (chHistory S)(i := None)"
  by (simp add: onChatHistorySessionRemoved_def Let_def forget_parts)

text \<open>
  The start-up banner of an agent is not recorded: as long as a session gets output only, with
  any pauses and resets, and no turn of the user, marker or answer, its history stays empty.
\<close>

theorem banner_is_not_recorded:
  assumes "\<forall>op \<in> set ops. onlyOutput sid op"
  shows "chHistory (chatRun ops chatInit) sid = None"
proof -
  have "chHistory S sid = None \<Longrightarrow> \<forall>op \<in> set ops. onlyOutput sid op \<Longrightarrow> chHistory (chatRun ops S) sid = None" for S
  proof (induction ops arbitrary: S)
    case (Cons op ops)
    then have "onlyOutput sid op" by simp
    then have "chHistory (chatStep op S) sid = None"
      using Cons.prems(1)
      by (cases op)
         (simp_all add: history_commit_None history_fire history_feed history_resetAll history_reset history_view
           history_removed history_push history_restoreEnd chatHistoryCommitOutputOrSeed_def emptyBuf_def
           history_commit_other)
    with Cons show ?case by simp
  qed simp
  with assms show ?thesis by (simp add: chatInit_def)
qed

section \<open>Examples\<close>

text \<open>The user writes to session 1, the agent answers.\<close>

definition talk :: "chatOp list" where
  "talk = [Push 1 (userText (js ''hi'')), Feed 1 [js ''hello'' @ [27, 91, 109] @ [10] @ js ''you''], Tick 1500]"

theorem agent_messages_show_text_witness:
  "\<forall>m \<in> set (getMessages 1 (chatRun (talk @ [AutoCommit 1]) chatInit)). agentTextVisible m"
  by (rule agent_messages_show_text) (auto simp: talk_def okMsg_def userText_def orElse_def js_def)

theorem banner_is_not_recorded_witness:
  "chHistory (chatRun [Feed 1 [js ''Welcome''], Tick 1500, AutoCommit 1] chatInit) 1 = None"
  by (rule banner_is_not_recorded) simp

theorem buffered_output_is_recorded_witness:
  "chTimer (chatRun talk chatInit) 1 = Some 1500
   \<and> (\<exists>m. getMessages 1 (fireAutoCommit 1 (chatRun talk chatInit)) = getMessages 1 (chatRun talk chatInit) @ [m]
        \<and> cmRaw m = js ''hello'' @ [10] @ js ''you'')"
proof -
  define b where "b = \<lparr>obChunks = [js ''hello'' @ [27, 91, 109] @ [10] @ js ''you''], obLast = 0\<rparr>"
  have b: "chBuf (chatRun talk chatInit) 1 = Some b"
    unfolding b_def by code_simp
  have g: "getMessages 1 (chatRun talk chatInit) \<noteq> []"
    by code_simp
  have t: "stripAnsiBasic (concat (obChunks b)) = js ''hello'' @ [10] @ js ''you''"
    unfolding b_def by code_simp
  have r: "recordable (js ''hello'' @ [10] @ js ''you'')"
    by code_simp
  have n: "obChunks b \<noteq> []" by (simp add: b_def)
  from buffered_output_is_recorded [OF refl b n] g r [folded t]
  obtain m where "chTimer (chatRun talk chatInit) 1 = Some (obLast b + 1500)"
    "getMessages 1 (fireAutoCommit 1 (chatRun talk chatInit)) = getMessages 1 (chatRun talk chatInit) @ [m]"
    "cmRaw m = stripAnsiBasic (concat (obChunks b))"
    by blast
  then show ?thesis unfolding t by (simp add: b_def)
qed

end
