(* ===== verification/ChatPane.thy ===== *)
theory ChatPane
  imports ChatHistory
begin

text \<open>
  What the chat pane of \<open>chat-history.ts\<close> shows: while the page stays with a session, its pane and
  its stored messages agree, whatever happens in it and in other sessions; a run that leaves the
  session and comes back shows where they do not.
\<close>

section \<open>The chat pane\<close>

definition viewing :: "int \<Rightarrow> chatState \<Rightarrow> bool" where
  "viewing sid S \<longleftrightarrow> chActive S = Some sid \<and> chMounted S = Some sid \<and>
     (case chSubs S sid of None \<Rightarrow> False | Some cbs \<Rightarrow> 0 \<in> set cbs)"

definition paneShowsAll :: "int \<Rightarrow> chatState \<Rightarrow> bool" where
  "paneShowsAll sid S \<longleftrightarrow> chShown S = map cmId (getMessages sid S) \<and> chRendered S = set (chShown S)"

definition sameView :: "chatState \<Rightarrow> chatState \<Rightarrow> bool" where
  "sameView S T \<longleftrightarrow> chActive T = chActive S \<and> chMounted T = chMounted S \<and> chSubs T = chSubs S"

definition sameShown :: "chatState \<Rightarrow> chatState \<Rightarrow> bool" where
  "sameShown S T \<longleftrightarrow> chShown T = chShown S \<and> chRendered T = chRendered S"

lemma viewing_same: "sameView S T \<Longrightarrow> viewing sid T = viewing sid S"
  by (simp add: sameView_def viewing_def)

lemma callback_viewing:
  assumes "viewing sid S"
  shows "callback i m cb S =
     (if cb \<noteq> 0 then S\<lparr>chNotes := chNotes S @ [(i, cb, map_option cmId m)]\<rparr>
      else if i \<noteq> sid then S
      else case m of None \<Rightarrow> S
        | Some e \<Rightarrow> if cmId e \<in> chRendered S then S
            else S\<lparr>chRendered := insert (cmId e) (chRendered S), chShown := chShown S @ [cmId e]\<rparr>)"
  using assms by (auto simp: callback_def appendMessage_def viewing_def split: option.split)

lemma fold_callback_view: "viewing sid S \<Longrightarrow> sameView S (fold (callback i m) cbs S)"
proof (induction cbs arbitrary: S)
  case (Cons cb cbs)
  have "sameView S (callback i m cb S)"
    by (simp add: callback_viewing [OF Cons.prems] sameView_def split: option.split)
  with Cons show ?case
    using viewing_same [of S "callback i m cb S" sid] by (simp add: sameView_def)
qed (simp add: sameView_def)

lemma fold_callback_other:
  "viewing sid S \<Longrightarrow> i \<noteq> sid \<or> m = None \<Longrightarrow> sameShown S (fold (callback i m) cbs S)"
proof (induction cbs arbitrary: S)
  case (Cons cb cbs)
  have "sameView S (callback i m cb S)" "sameShown S (callback i m cb S)"
    using Cons.prems(2) by (auto simp: callback_viewing [OF Cons.prems(1)] sameView_def sameShown_def)
  with Cons show ?case
    using viewing_same [of S "callback i m cb S" sid] by (simp add: sameShown_def)
qed (simp add: sameShown_def)

lemma fold_callback_seen:
  "viewing sid S \<Longrightarrow> cmId e \<in> chRendered S \<Longrightarrow> sameShown S (fold (callback sid (Some e)) cbs S)"
proof (induction cbs arbitrary: S)
  case (Cons cb cbs)
  have "sameView S (callback sid (Some e) cb S)" "sameShown S (callback sid (Some e) cb S)"
    using Cons.prems(2) by (auto simp: callback_viewing [OF Cons.prems(1)] sameView_def sameShown_def)
  with Cons show ?case
    using viewing_same [of S "callback sid (Some e) cb S" sid] by (simp add: sameShown_def)
qed (simp add: sameShown_def)

lemma fold_callback_new:
  "viewing sid S \<Longrightarrow> cmId e \<notin> chRendered S \<Longrightarrow> 0 \<in> set cbs \<Longrightarrow>
     chShown (fold (callback sid (Some e)) cbs S) = chShown S @ [cmId e] \<and>
     chRendered (fold (callback sid (Some e)) cbs S) = insert (cmId e) (chRendered S)"
proof (induction cbs arbitrary: S)
  case (Cons cb cbs)
  let ?T = "callback sid (Some e) cb S"
  have v: "viewing sid ?T"
    using Cons.prems(1) by (auto simp: callback_viewing [OF Cons.prems(1)] viewing_def)
  show ?case
  proof (cases "cb = 0")
    case True
    then have "?T = S\<lparr>chRendered := insert (cmId e) (chRendered S), chShown := chShown S @ [cmId e]\<rparr>"
      using Cons.prems(2) by (simp add: callback_viewing [OF Cons.prems(1)])
    then show ?thesis
      using fold_callback_seen [OF v, of e cbs] by (simp add: sameShown_def)
  next
    case False
    then have "?T = S\<lparr>chNotes := chNotes S @ [(sid, cb, Some (cmId e))]\<rparr>"
      by (simp add: callback_viewing [OF Cons.prems(1)])
    with Cons.IH [OF v] Cons.prems False show ?thesis by simp
  qed
qed simp

lemma viewing_push: "viewing sid S \<Longrightarrow> viewing sid (pushMessage i m S)"
proof -
  assume v: "viewing sid S"
  let ?P = "pushed i (nextEntry i m S) S"
  have "viewing sid ?P" using v by (simp add: viewing_def pushed_def)
  then show ?thesis
    unfolding pushMessage_pushed chatHistoryNotify_def
    using viewing_same [OF fold_callback_view] by (simp split: option.split)
qed

lemma getMessages_push: "getMessages sid (pushMessage i m S) = (if i = sid then getMessages sid S @ [nextEntry sid m S] else getMessages sid S)"
  by (simp add: getMessages_def history_push)

definition inSync :: "int \<Rightarrow> chatState \<Rightarrow> bool" where
  "inSync sid S \<longleftrightarrow> viewing sid S \<and> paneShowsAll sid S \<and> numbered S"

lemma numbered_seq: "numbered S \<Longrightarrow> map cmId (getMessages sid S) = [1..int (length (getMessages sid S))]
    \<and> (case chSeq S sid of None \<Rightarrow> 0 | Some k \<Rightarrow> k) = int (length (getMessages sid S))"
  by (cases "chHistory S sid") (auto simp: numbered_def getMessages_def dest: spec [of _ sid])

lemma inSync_push: "inSync sid S \<Longrightarrow> inSync sid (pushMessage i m S)"
proof -
  assume s: "inSync sid S"
  then have v: "viewing sid S" and p: "paneShowsAll sid S" and n: "numbered S"
    by (auto simp: inSync_def)
  let ?e = "nextEntry i m S"
  let ?P = "pushed i ?e S"
  have vP: "viewing sid ?P" using v by (simp add: viewing_def pushed_def)
  have shown: "chShown ?P = chShown S" "chRendered ?P = chRendered S" "chSubs ?P = chSubs S"
    by (simp_all add: pushed_def)
  have "paneShowsAll sid (pushMessage i m S)"
  proof (cases "i = sid")
    case False
    then have "sameShown ?P (chatHistoryNotify i (Some ?e) ?P)"
      unfolding chatHistoryNotify_def using fold_callback_other [OF vP]
      by (simp add: sameShown_def split: option.split)
    then show ?thesis
      using p False by (simp add: paneShowsAll_def getMessages_push sameShown_def shown) (simp add: pushMessage_pushed)
  next
    case True
    have "cmId ?e = int (length (getMessages sid S)) + 1"
      using numbered_seq [OF n, of sid] True by (simp add: nextEntry_def)
    then have new: "cmId ?e \<notin> chRendered ?P"
      using p numbered_seq [OF n, of sid] by (simp add: shown paneShowsAll_def)
    from v obtain cbs where cbs: "chSubs S sid = Some cbs" "0 \<in> set cbs"
      by (auto simp: viewing_def split: option.splits)
    have "chShown (pushMessage i m S) = chShown S @ [cmId ?e]"
      "chRendered (pushMessage i m S) = insert (cmId ?e) (chRendered S)"
      using fold_callback_new [OF vP new cbs(2)] cbs(1) True shown
      by (simp_all add: pushMessage_pushed chatHistoryNotify_def)
    with p True show ?thesis by (simp add: paneShowsAll_def getMessages_push)
  qed
  with viewing_push [OF v] num.pushMessage [OF _ n] show ?thesis by (simp add: inSync_def)
qed

text \<open>Changes of buffers, timers and requests do not concern the pane.\<close>

definition sidePane :: "chatState \<Rightarrow> chatState \<Rightarrow> bool" where
  "sidePane S T \<longleftrightarrow> sameView S T \<and> sameShown S T \<and> chHistory T = chHistory S \<and> chSeq T = chSeq S"

lemma inSync_side: "sidePane S T \<Longrightarrow> inSync sid S \<Longrightarrow> inSync sid T"
  by (simp add: sidePane_def inSync_def viewing_def paneShowsAll_def numbered_def sameView_def sameShown_def
      getMessages_def)

lemma side_buffers [simp]:
  "sidePane S (emptyBuf i S)" "sidePane S (dropTimer i S)" "sidePane S (chatHistoryAppendOutput i raw S)"
  "sidePane S (restoreBegin i f S)" "sidePane S (S\<lparr>chNow := t\<rparr>)" "sidePane S (S\<lparr>chInflight := I\<rparr>)"
  "sidePane S (S\<lparr>chRestored := R\<rparr>)" "sidePane S (S\<lparr>chNotes := N\<rparr>)"
  by (simp_all add: sidePane_def sameView_def sameShown_def emptyBuf_def dropTimer_def
      chatHistoryAppendOutput_def restoreBegin_def)

lemma inSync_commit: "inSync sid S \<Longrightarrow> inSync sid (chatHistoryCommitOutput i S)"
proof -
  assume "inSync sid S"
  then have "inSync sid (dropTimer i S)" by (rule inSync_side [rotated]) simp
  moreover then have "inSync sid (emptyBuf i (dropTimer i S))" by (rule inSync_side [rotated]) simp
  ultimately show ?thesis
    using inSync_push by (simp add: chatHistoryCommitOutput_def Let_def split: option.split)
qed

lemma inSync_seed: "inSync sid S \<Longrightarrow> inSync sid (chatHistoryCommitOutputOrSeed i S)"
  using inSync_side [OF side_buffers(1)]
  by (simp add: chatHistoryCommitOutputOrSeed_def inSync_commit inSync_push)

lemma inSync_feed: "inSync sid S \<Longrightarrow> inSync sid (feedParts i parts S)"
  by (induction i parts S rule: feedParts.induct)
     (simp_all add: inSync_side [OF side_buffers(3)] inSync_seed)

lemma inSync_forget: "i \<noteq> sid \<Longrightarrow> inSync sid S \<Longrightarrow> inSync sid (forgetSession i S)"
  using num.forget [of S i]
  by (simp add: inSync_def viewing_def paneShowsAll_def getMessages_def forget_parts)
     (simp add: forgetSession_def dropTimer_def revokeChatHistoryAttachmentURLs_def Let_def)

lemma inSync_notify_None: "inSync sid S \<Longrightarrow> inSync sid (chatHistoryNotify i None S)"
proof -
  assume s: "inSync sid S"
  then have v: "viewing sid S" by (simp add: inSync_def)
  have "sidePane S (chatHistoryNotify i None S)"
    using fold_callback_view [OF v] fold_callback_other [OF v, of i None] same_notify [of S i None]
    by (simp add: sidePane_def sameStore_def) (simp add: chatHistoryNotify_def sameView_def sameShown_def split: option.split)
  from inSync_side [OF this s] show ?thesis .
qed

lemma inSync_mount:
  assumes "viewing sid S" "numbered S"
  shows "inSync sid (mountChatPane (Some sid) S)"
proof -
  have "sameStore S (mountChatPane (Some sid) S)" by simp
  with assms show ?thesis
    by (simp add: inSync_def viewing_def paneShowsAll_def numbered_def sameStore_def getMessages_def)
       (simp add: mountChatPane_def restoreBegin_def getMessages_def Let_def)
qed

lemma inSync_restoreEnd: "inSync sid S \<Longrightarrow> inSync sid (restoreEnd i resp S)"
proof -
  assume s: "inSync sid S"
  then have v: "viewing sid S" and n: "numbered S" by (auto simp: inSync_def)
  have vf: "viewing sid (fold (restoreOne i) ms T)" if "viewing sid T" for ms T
    using that by (induction ms arbitrary: T) (simp_all add: restoreOne_def Let_def viewing_push)
  have nf: "numbered (fold (restoreOne i) ms T)" if "numbered T" for ms T
    using that by (induction ms arbitrary: T) (simp_all add: num.restoreOne)
  have sf: "inSync sid (fold (restoreOne i) ms T)" if "inSync sid T" for ms T
    using that by (induction ms arbitrary: T) (simp_all add: restoreOne_def Let_def inSync_push)
  have vF: "viewing sid (forgetSession i S)"
    using v by (simp add: viewing_def forgetSession_def dropTimer_def revokeChatHistoryAttachmentURLs_def Let_def)
  have side: "sidePane T (T\<lparr>chRestored := R, chInflight := I\<rparr>)" for T R I
    by (simp add: sidePane_def sameView_def sameShown_def)
  show ?thesis
  proof (cases "i \<in> chInflight S \<and> resp \<noteq> None \<and> resp \<noteq> Some []")
    case False
    then show ?thesis
      using s inSync_side [OF side_buffers(6) s]
      by (auto simp: restoreEnd_def Let_def split: option.split list.split)
  next
    case True
    then obtain m ms where r: "resp = Some (m # ms)" by (cases resp; cases "the resp") auto
    define T where "T = fold (restoreOne i) (m # ms) (forgetSession i S)"
    define U where "U = T\<lparr>chRestored := insert i (chRestored T), chInflight := chInflight T - {i}\<rparr>"
    have e: "restoreEnd i resp S = (if chMounted U = Some i then mountChatPane (Some i) U else U)"
      using True r by (simp add: restoreEnd_def Let_def T_def U_def)
    have vU: "viewing sid U" and nU: "numbered U"
      using vf [OF vF, of "m # ms"] nf [OF num.forget [OF n], of "m # ms" i]
      unfolding U_def T_def [symmetric] by (simp_all add: viewing_def numbered_def)
    show ?thesis
    proof (cases "i = sid")
      case True
      then show ?thesis
        using e inSync_mount [OF vU nU] vU by (simp add: viewing_def)
    next
      case False
      have "inSync sid U"
        using inSync_side [OF side sf [OF inSync_forget [OF False s], of "m # ms"]]
        unfolding U_def T_def [symmetric] by simp
      with e vU False show ?thesis by (simp add: viewing_def)
    qed
  qed
qed

text \<open>The operations that leave the session in view: none of them resets it or turns to another one.\<close>

fun keepsInView :: "int \<Rightarrow> chatOp \<Rightarrow> bool" where
  "keepsInView sid (Reset i) = (i \<noteq> sid)"
| "keepsInView sid (ResetAll ids) = (sid \<notin> set ids)"
| "keepsInView sid (Removed i) = (i \<noteq> sid)"
| "keepsInView sid (Mount x) = (x = Some sid)"
| "keepsInView sid (Rewire x) = (x = Some sid)"
| "keepsInView sid (Activate i) = (i = sid)"
| "keepsInView sid (Unsubscribe i cb) = (cb \<noteq> 0)"
| "keepsInView sid op = True"

lemma viewing_subs: "viewing sid S \<longleftrightarrow> chActive S = Some sid \<and> chMounted S = Some sid \<and>
    (\<exists>cbs. chSubs S sid = Some cbs \<and> 0 \<in> set cbs)"
  by (auto simp: viewing_def split: option.split)

lemma inSync_subs:
  assumes "inSync sid S" "0 \<in> set cbs" "T = S\<lparr>chSubs := subs, chPaneSub := ps\<rparr>" "subs sid = Some cbs"
  shows "inSync sid T"
  using assms by (simp add: inSync_def viewing_subs paneShowsAll_def numbered_def getMessages_def)

lemma inSync_subscribe: "inSync sid S \<Longrightarrow> inSync sid (subscribe i cb S)"
proof -
  assume s: "inSync sid S"
  then obtain cbs where c: "chSubs S sid = Some cbs" "0 \<in> set cbs" by (auto simp: inSync_def viewing_subs)
  have "\<exists>cbs'. 0 \<in> set cbs' \<and> chSubs (subscribe i cb S) sid = Some cbs'"
    using c by (auto simp: subscribe_def Let_def)
  moreover have "subscribe i cb S = S\<lparr>chSubs := chSubs (subscribe i cb S), chPaneSub := chPaneSub S\<rparr>"
    by (simp add: subscribe_def Let_def)
  ultimately show ?thesis using inSync_subs [OF s] by blast
qed

lemma inSync_unsubscribe: "cb \<noteq> 0 \<Longrightarrow> inSync sid S \<Longrightarrow> inSync sid (unsubscribe i cb S)"
proof -
  assume n: "cb \<noteq> 0" and s: "inSync sid S"
  then obtain cbs where c: "chSubs S sid = Some cbs" "0 \<in> set cbs" by (auto simp: inSync_def viewing_subs)
  have "filter (\<lambda>x. x \<noteq> cb) cbs \<noteq> []" using c(2) n by (auto simp: filter_empty_conv)
  then have "\<exists>cbs'. 0 \<in> set cbs' \<and> chSubs (unsubscribe i cb S) sid = Some cbs'"
    using c n by (auto simp: unsubscribe_def Let_def split: option.split)
  moreover have "unsubscribe i cb S = S\<lparr>chSubs := chSubs (unsubscribe i cb S), chPaneSub := chPaneSub S\<rparr>"
    by (simp add: unsubscribe_def Let_def split: option.split)
  ultimately show ?thesis using inSync_subs [OF s] by blast
qed

lemma inSync_rewire: "inSync sid S \<Longrightarrow> inSync sid (rewireChatHistorySub (Some sid) S)"
proof -
  assume s: "inSync sid S"
  have "\<exists>cbs'. 0 \<in> set cbs' \<and> chSubs (rewireChatHistorySub (Some sid) S) sid = Some cbs'"
    by (auto simp: rewireChatHistorySub_def subscribe_def Let_def)
  moreover have "rewireChatHistorySub (Some sid) S =
      S\<lparr>chSubs := chSubs (rewireChatHistorySub (Some sid) S), chPaneSub := chPaneSub (rewireChatHistorySub (Some sid) S)\<rparr>"
    by (simp add: rewireChatHistorySub_def subscribe_def unsubscribe_def Let_def split: option.split)
  ultimately show ?thesis using inSync_subs [OF s] by blast
qed

lemma inSync_reset: "i \<noteq> sid \<Longrightarrow> inSync sid S \<Longrightarrow> inSync sid (resetChatHistoryForSession i S)"
  by (simp add: resetChatHistoryForSession_def inSync_forget inSync_notify_None)

lemma inSync_resetAll: "sid \<notin> set ids \<Longrightarrow> inSync sid S \<Longrightarrow> inSync sid (resetAllChatHistory ids S)"
  unfolding resetAllChatHistory_def by (induction ids arbitrary: S) (simp_all add: inSync_reset)

lemma inSync_removed: "i \<noteq> sid \<Longrightarrow> inSync sid S \<Longrightarrow> inSync sid (onChatHistorySessionRemoved i S)"
proof -
  assume i: "i \<noteq> sid" and s: "inSync sid S"
  let ?F = "forgetSession i S"
  have f: "inSync sid ?F" using inSync_forget [OF i s] .
  then have "chMounted ?F = Some sid" by (simp add: inSync_def viewing_def)
  then have "onChatHistorySessionRemoved i S = ?F\<lparr>chSubs := (chSubs ?F)(i := None), chRestored := chRestored ?F - {i}\<rparr>"
    using i by (simp add: onChatHistorySessionRemoved_def Let_def)
  with f i show ?thesis
    by (simp add: inSync_def viewing_subs paneShowsAll_def numbered_def getMessages_def)
qed

lemma inSync_step: "keepsInView sid op \<Longrightarrow> inSync sid S \<Longrightarrow> inSync sid (chatStep op S)"
proof (cases op)
  case (Mount x)
  assume "keepsInView sid op" "inSync sid S"
  with Mount show ?thesis by (simp add: inSync_mount) (simp add: inSync_def inSync_mount [unfolded inSync_def])
next
  case (ViewMode i c)
  assume s: "inSync sid S"
  then have "inSync sid (S\<lparr>chChatMode := c\<rparr>)"
    by (simp add: inSync_def viewing_def paneShowsAll_def numbered_def getMessages_def)
  with s ViewMode show ?thesis
    by (auto simp: viewModeChanged_def Let_def inSync_def viewing_def)
next
  case (Activate i)
  assume "keepsInView sid op" "inSync sid S"
  with Activate show ?thesis
    by (simp add: inSync_def viewing_def paneShowsAll_def numbered_def getMessages_def)
qed (simp_all add: inSync_commit history_fire inSync_feed inSync_seed inSync_push inSync_reset inSync_resetAll
      inSync_removed inSync_restoreEnd inSync_rewire inSync_subscribe inSync_unsubscribe
      inSync_side [OF side_buffers(4)] inSync_side [OF side_buffers(5)])

text \<open>
  C25: The chat pane shows the conversation: once a session's pane has been built while the session
  is active and subscribed, then through any further run in which the page stays with that session
  (output, commits, turns, restorations, anything in other sessions) the pane shows exactly the
  stored messages of the session, each once, in their order.
\<close>

theorem pane_shows_conversation:
  assumes "S = chatRun ops chatInit" "viewing sid S" "\<forall>op \<in> set ops'. keepsInView sid op"
  shows "chShown (chatRun ops' (mountChatPane (Some sid) S)) =
      map cmId (getMessages sid (chatRun ops' (mountChatPane (Some sid) S)))
    \<and> distinct (chShown (chatRun ops' (mountChatPane (Some sid) S)))"
proof -
  have "numbered S" using num.run [OF numbered_init, of ops] assms(1) by simp
  from inSync_mount [OF assms(2) this]
  have "inSync sid (mountChatPane (Some sid) S)" .
  moreover have "inSync sid T \<Longrightarrow> \<forall>op \<in> set os. keepsInView sid op \<Longrightarrow> inSync sid (chatRun os T)" for os T
    by (induction os arbitrary: T) (simp_all add: inSync_step)
  ultimately have i: "inSync sid (chatRun ops' (mountChatPane (Some sid) S))"
    using assms(3) by blast
  then have "map cmId (getMessages sid (chatRun ops' (mountChatPane (Some sid) S))) =
      [1..int (length (getMessages sid (chatRun ops' (mountChatPane (Some sid) S))))]"
    using numbered_seq by (simp add: inSync_def)
  with i show ?thesis by (simp add: inSync_def paneShowsAll_def)
qed

section \<open>Examples\<close>

text \<open>Session 1 is opened in the chat view.\<close>

definition openChat :: "chatOp list" where
  "openChat = [Activate 1, ViewMode 1 True, Rewire (Some 1)]"

theorem pane_shows_conversation_witness:
  "chShown (chatRun [Push 1 (userText (js ''hi''))] (mountChatPane (Some 1) (chatRun openChat chatInit))) = [1]"
proof -
  have v: "viewing 1 (chatRun openChat chatInit)"
    by (simp add: openChat_def chatInit_def viewing_def viewModeChanged_def mountChatPane_def restoreBegin_def
        hasMeaningfulLocalChat_def getMessages_def rewireChatHistorySub_def subscribe_def)
  have k: "\<forall>op \<in> set [Push 1 (userText (js ''hi''))]. keepsInView 1 op" by simp
  have "chHistory (mountChatPane (Some 1) (chatRun openChat chatInit)) = (\<lambda>_. None)"
    by (simp add: openChat_def chatInit_def history_view)
  moreover have "numbered (mountChatPane (Some 1) (chatRun openChat chatInit))"
    using num.run [OF numbered_init, of "openChat @ [Mount (Some 1)]"] by (simp add: chatRun_def)
  ultimately have "getMessages 1 (pushMessage 1 (userText (js ''hi'')) (mountChatPane (Some 1) (chatRun openChat chatInit)))
      = [nextEntry 1 (userText (js ''hi'')) (mountChatPane (Some 1) (chatRun openChat chatInit))]"
    "cmId (nextEntry 1 (userText (js ''hi'')) (mountChatPane (Some 1) (chatRun openChat chatInit))) = 1"
    using numbered_seq [of "mountChatPane (Some 1) (chatRun openChat chatInit)" 1]
    by (simp_all add: getMessages_def history_push nextEntry_def)
  with pane_shows_conversation [OF refl v k] show ?thesis by simp
qed

text \<open>
  The pane goes stale when the page leaves the session for one whose view is the terminal and
  comes back: the pane is still mounted for the session, so the listener does not rebuild it, and
  what the agent wrote in between is in the store but not in the pane.
\<close>

definition leaveAndReturn :: "chatOp list" where
  "leaveAndReturn = openChat @ [Push 1 (userText (js ''hi'')), Activate 2, ViewMode 2 False, Rewire (Some 2),
     Feed 1 [js ''hello''], Tick 1500, AutoCommit 1, Activate 1, ViewMode 1 True, Rewire (Some 1)]"

lemma pane_goes_stale:
  "viewing 1 (chatRun leaveAndReturn chatInit)" "chChatMode (chatRun leaveAndReturn chatInit)"
  "chShown (chatRun leaveAndReturn chatInit) = [1]"
  "map cmId (getMessages 1 (chatRun leaveAndReturn chatInit)) = [1, 2]"
  by code_simp+

end
