(* ===== verification/InputLine.thy ===== *)
theory InputLine
  imports Utf8 JsRegex "HOL-Library.Multiset"
begin

text \<open>
  The input line of the page (\<open>src/web/src/app.ts\<close>): the text being typed, the chips of long
  pastes, the staged attachments, and the drafts that are put away when the page turns to another
  session. There is one line for all sessions; \<open>saveInputStateFor\<close> and \<open>restoreInputStateFor\<close>
  exchange its contents. Page elements (thumbnails, chips) are rebuilt from this state and left out.
\<close>

section \<open>State\<close>

record paste =
  ptId :: int
  ptText :: jstr
  ptLines :: nat

record attachFile =
  afName :: jstr
  afBytes :: "byte list"

record draft =
  drValue :: jstr
  drPastes :: "paste list"
  drAttach :: "attachFile list"

record inputLine =
  ilValue :: jstr
  ilPastes :: "paste list"
  ilAttach :: "attachFile list"
  ilCounter :: int
  ilSaved :: "int \<Rightarrow> draft option"

section \<open>Pastes\<close>

definition PASTE_FILE_MIN_LINES :: nat where "PASTE_FILE_MIN_LINES = 10"
definition PASTE_FILE_MIN_CHARS :: nat where "PASTE_FILE_MIN_CHARS = 1500"
definition MAX_ATTACH_BYTES :: nat where "MAX_ATTACH_BYTES = 8 * 1024 * 1024"

definition stagePastedText :: "jstr \<Rightarrow> bool \<Rightarrow> inputLine \<Rightarrow> bool \<times> inputLine" where
  "stagePastedText t force L =
     (let lines = split_on 10 t in
      if t = [] then (False, L)
      else if \<not> force \<and> length lines \<le> 4 \<and> length t \<le> 300 then (False, L)
      else (let kept = (if 3 \<le> length (ilPastes L) then tl (ilPastes L) else ilPastes L);
                n = ilCounter L + 1
            in (True, L\<lparr>ilCounter := n, ilPastes := kept @ [\<lparr>ptId = n, ptText = t, ptLines = length lines\<rparr>]\<rparr>)))"

text \<open>\<open>xs.splice(i, 1)\<close> for an index that is not negative.\<close>

definition spliceOut :: "nat \<Rightarrow> 'a list \<Rightarrow> 'a list" where
  "spliceOut i xs = take i xs @ drop (Suc i) xs"

definition expandPasteChip :: "nat \<Rightarrow> inputLine \<Rightarrow> inputLine" where
  "expandPasteChip idx L =
     (if length (ilPastes L) \<le> idx then L
      else L\<lparr>ilValue := ptText (ilPastes L ! idx) @ (if ilValue L = [] then [] else 10 # ilValue L),
             ilPastes := spliceOut idx (ilPastes L)\<rparr>)"

definition removePasteChip :: "nat \<Rightarrow> inputLine \<Rightarrow> inputLine" where
  "removePasteChip idx L = L\<lparr>ilPastes := spliceOut idx (ilPastes L)\<rparr>"

definition clearAllPastes :: "inputLine \<Rightarrow> inputLine" where
  "clearAllPastes L = L\<lparr>ilPastes := []\<rparr>"

definition buildSendText :: "inputLine \<Rightarrow> jstr" where
  "buildSendText L = join [10] (map ptText (ilPastes L) @ (if ilValue L = [] then [] else [ilValue L]))"

definition clearInput :: "inputLine \<Rightarrow> inputLine" where
  "clearInput L = clearAllPastes (L\<lparr>ilValue := []\<rparr>)"

text \<open>
  \<open>stageLongPastesAsFiles\<close>: the chips from the last to the first; a long one that fits becomes a
  text file at the end of the attachments and leaves the line.
\<close>

definition pasteFile :: "paste \<Rightarrow> attachFile" where
  "pasteFile p = \<lparr>afName = js ''paste-'' @ num_str (ptId p) @ js ''.txt'', afBytes = utf8_encode (ptText p)\<rparr>"

definition becomesFile :: "paste \<Rightarrow> bool" where
  "becomesFile p \<longleftrightarrow> \<not> (ptLines p < PASTE_FILE_MIN_LINES \<and> length (ptText p) < PASTE_FILE_MIN_CHARS)
     \<and> length (utf8_encode (ptText p)) \<le> MAX_ATTACH_BYTES"

primrec stageLoop :: "nat \<Rightarrow> inputLine \<Rightarrow> inputLine" where
  "stageLoop 0 L = L"
| "stageLoop (Suc i) L =
     (let p = ilPastes L ! i in
      stageLoop i
        (if becomesFile p
         then L\<lparr>ilAttach := ilAttach L @ [pasteFile p], ilPastes := spliceOut i (ilPastes L)\<rparr> else L))"

definition stageLongPastesAsFiles :: "inputLine \<Rightarrow> inputLine" where
  "stageLongPastesAsFiles L = stageLoop (length (ilPastes L)) L"

text \<open>\<open>stageAttach\<close> and \<open>stageFileAttach\<close>, once the file is read.\<close>

definition stageFile :: "attachFile \<Rightarrow> inputLine \<Rightarrow> inputLine" where
  "stageFile f L = (if MAX_ATTACH_BYTES < length (afBytes f) then L else L\<lparr>ilAttach := ilAttach L @ [f]\<rparr>)"

section \<open>Drafts\<close>

definition saveInputStateFor :: "int \<Rightarrow> inputLine \<Rightarrow> inputLine" where
  "saveInputStateFor i L =
     L\<lparr>ilSaved := (ilSaved L)(i := Some \<lparr>drValue = ilValue L, drPastes = ilPastes L, drAttach = ilAttach L\<rparr>),
       ilValue := [], ilPastes := [], ilAttach := []\<rparr>"

definition restoreInputStateFor :: "int \<Rightarrow> inputLine \<Rightarrow> inputLine" where
  "restoreInputStateFor i L =
     (case ilSaved L i of
        None \<Rightarrow> L\<lparr>ilValue := [], ilPastes := [], ilAttach := []\<rparr>
      | Some d \<Rightarrow> L\<lparr>ilValue := drValue d, ilPastes := drPastes d, ilAttach := drAttach d\<rparr>)"

definition cleanupSessionInputState :: "int \<Rightarrow> inputLine \<Rightarrow> inputLine" where
  "cleanupSessionInputState i L = L\<lparr>ilSaved := (ilSaved L)(i := None)\<rparr>"

text \<open>The part of \<open>activateSession\<close> (\<open>session-list.ts\<close>) that concerns the line.\<close>

definition turnTo :: "int \<Rightarrow> int option \<times> inputLine \<Rightarrow> int option \<times> inputLine" where
  "turnTo i P =
     (let L = (case fst P of None \<Rightarrow> snd P | Some a \<Rightarrow> if a \<noteq> i then saveInputStateFor a (snd P) else snd P)
      in (Some i, restoreInputStateFor i L))"

section \<open>Runs\<close>

datatype lineOp =
    TypeText jstr
  | PasteText jstr bool
  | ExpandChip nat
  | RemoveChip nat
  | ClearLine
  | StageLong
  | StageFile attachFile
  | TakeFiles
  | TurnTo int
  | ForgetDraft int

fun lineStep :: "lineOp \<Rightarrow> int option \<times> inputLine \<Rightarrow> int option \<times> inputLine" where
  "lineStep (TypeText v) (a, L) = (a, L\<lparr>ilValue := v\<rparr>)"
| "lineStep (PasteText t force) (a, L) = (a, snd (stagePastedText t force L))"
| "lineStep (ExpandChip i) (a, L) = (a, expandPasteChip i L)"
| "lineStep (RemoveChip i) (a, L) = (a, removePasteChip i L)"
| "lineStep ClearLine (a, L) = (a, clearInput L)"
| "lineStep StageLong (a, L) = (a, stageLongPastesAsFiles L)"
| "lineStep (StageFile f) (a, L) = (a, stageFile f L)"
| "lineStep TakeFiles (a, L) = (a, L\<lparr>ilAttach := []\<rparr>)"
| "lineStep (TurnTo i) P = turnTo i P"
| "lineStep (ForgetDraft i) (a, L) = (a, cleanupSessionInputState i L)"

definition lineRun :: "lineOp list \<Rightarrow> int option \<times> inputLine \<Rightarrow> int option \<times> inputLine" where
  "lineRun ops P = fold lineStep ops P"

definition emptyLine :: inputLine where
  "emptyLine = \<lparr>ilValue = [], ilPastes = [], ilAttach = [], ilCounter = 0, ilSaved = (\<lambda>_. None)\<rparr>"

definition contents :: "inputLine \<Rightarrow> draft" where
  "contents L = \<lparr>drValue = ilValue L, drPastes = ilPastes L, drAttach = ilAttach L\<rparr>"

section \<open>Drafts come back\<close>

text \<open>No operation but turning away from a session, or forgetting it, touches its saved draft.\<close>

lemma stageLoop_saved: "ilSaved (stageLoop n L) = ilSaved L"
  by (induction n arbitrary: L) (simp_all add: Let_def)

lemma step_saved:
  assumes "op \<noteq> TurnTo i" "op \<noteq> ForgetDraft i" "a \<noteq> Some i"
  shows "ilSaved (snd (lineStep op (a, L))) i = ilSaved L i \<and> fst (lineStep op (a, L)) \<noteq> Some i"
  using assms
  by (cases op)
     (auto simp: stagePastedText_def expandPasteChip_def removePasteChip_def clearInput_def clearAllPastes_def
       stageLongPastesAsFiles_def stageLoop_saved stageFile_def turnTo_def saveInputStateFor_def
       restoreInputStateFor_def cleanupSessionInputState_def Let_def split: option.split)

lemma run_saved:
  "TurnTo i \<notin> set ops \<Longrightarrow> ForgetDraft i \<notin> set ops \<Longrightarrow> fst P \<noteq> Some i \<Longrightarrow>
     ilSaved (snd (lineRun ops P)) i = ilSaved (snd P) i \<and> fst (lineRun ops P) \<noteq> Some i"
proof (induction ops arbitrary: P)
  case (Cons op ops)
  obtain a L where P: "P = (a, L)" by (cases P)
  with Cons.prems step_saved [of op i a L] have
    "ilSaved (snd (lineStep op P)) i = ilSaved (snd P) i" "fst (lineStep op P) \<noteq> Some i" by auto
  with Cons show ?case by (simp add: lineRun_def)
qed (simp add: lineRun_def)

text \<open>
  C19: A draft survives a visit to other sessions: whatever the user does in other sessions after
  turning away from one (typing, pasting, sending, clearing, attaching, turning on), turning back
  brings back exactly the text, the paste chips and the attachments that were there.
\<close>

theorem draft_round_trip:
  assumes "j \<noteq> i" "TurnTo i \<notin> set ops" "ForgetDraft i \<notin> set ops"
  shows "contents (snd (lineRun (TurnTo j # ops @ [TurnTo i]) (Some i, L))) = contents L"
proof -
  let ?P = "lineStep (TurnTo j) (Some i, L)"
  have p: "fst ?P \<noteq> Some i" "ilSaved (snd ?P) i = Some (contents L)"
    using assms(1) by (auto simp: turnTo_def saveInputStateFor_def restoreInputStateFor_def contents_def
        Let_def split: option.split)
  let ?Q = "lineRun ops ?P"
  obtain a K where K: "?Q = (a, K)" by (cases ?Q)
  have q: "ilSaved K i = Some (contents L)" "a \<noteq> Some i"
    using run_saved [OF assms(2,3) p(1)] p(2) K by auto
  have "lineRun (TurnTo j # ops @ [TurnTo i]) (Some i, L) = turnTo i (a, K)"
    using K by (simp add: lineRun_def)
  then show ?thesis
    using q by (simp add: turnTo_def saveInputStateFor_def restoreInputStateFor_def contents_def Let_def
        split: option.split)
qed

theorem draft_round_trip_witness:
  "contents (snd (lineRun [TurnTo 2, TypeText (js ''for two''), ClearLine, TurnTo 1]
     (Some 1, emptyLine\<lparr>ilValue := js ''for one''\<rparr>))) = contents (emptyLine\<lparr>ilValue := js ''for one''\<rparr>)"
  using draft_round_trip [of 2 1 "[TypeText (js ''for two''), ClearLine]" "emptyLine\<lparr>ilValue := js ''for one''\<rparr>"]
  by simp

text \<open>
  Turning to the session that is already active is different: nothing is put away, but the draft
  of the last visit is brought back, so what has been typed since is gone.
\<close>

lemma activating_again_loses_text:
  "ilValue (snd (lineRun [TurnTo 1, TypeText (js ''hello''), TurnTo 1] (None, emptyLine))) = []"
  by (simp add: lineRun_def turnTo_def restoreInputStateFor_def emptyLine_def)

section \<open>Chips\<close>

definition pastesOk :: "int \<Rightarrow> paste list \<Rightarrow> bool" where
  "pastesOk c ps \<longleftrightarrow> length ps \<le> 3 \<and> sorted_wrt (<) (map ptId ps)
     \<and> (\<forall>p \<in> set ps. ptId p \<le> c \<and> ptText p \<noteq> [] \<and> ptLines p = length (split_on 10 (ptText p)))"

definition chipsOk :: "inputLine \<Rightarrow> bool" where
  "chipsOk L \<longleftrightarrow> pastesOk (ilCounter L) (ilPastes L)
     \<and> (\<forall>i d. ilSaved L i = Some d \<longrightarrow> pastesOk (ilCounter L) (drPastes d))"

lemma pastesOk_Nil [simp]: "pastesOk c []"
  by (simp add: pastesOk_def)

lemma pastesOk_mono: "pastesOk c ps \<Longrightarrow> c \<le> c' \<Longrightarrow> pastesOk c' ps"
  by (auto simp: pastesOk_def)

lemma sorted_spliceOut: "sorted_wrt R xs \<Longrightarrow> sorted_wrt R (spliceOut i xs)"
proof -
  assume s: "sorted_wrt R xs"
  have "xs = take i xs @ drop i xs" by simp
  with s have "sorted_wrt R (take i xs @ drop i xs)" by simp
  moreover have "drop (Suc i) xs = tl (drop i xs)" by (simp add: drop_Suc tl_drop)
  ultimately show ?thesis
    by (cases "drop i xs") (auto simp: spliceOut_def sorted_wrt_append)
qed

lemma map_spliceOut: "map f (spliceOut i xs) = spliceOut i (map f xs)"
  by (simp add: spliceOut_def take_map drop_map)

lemma set_spliceOut: "set (spliceOut i xs) \<subseteq> set xs"
  by (auto simp: spliceOut_def dest: in_set_takeD in_set_dropD)

lemma length_spliceOut: "length (spliceOut i xs) \<le> length xs"
  by (simp add: spliceOut_def)

lemma pastesOk_spliceOut: "pastesOk c ps \<Longrightarrow> pastesOk c (spliceOut i ps)"
  using set_spliceOut [of i ps] length_spliceOut [of i ps] sorted_spliceOut [of "(<)" "map ptId ps" i]
  by (auto simp: pastesOk_def map_spliceOut)

lemma pastesOk_more:
  assumes "pastesOk c ps" "t \<noteq> []"
  shows "pastesOk (c + 1) ((if 3 \<le> length ps then tl ps else ps) @ [\<lparr>ptId = c + 1, ptText = t, ptLines = length (split_on 10 t)\<rparr>])"
proof -
  define kept where "kept = (if 3 \<le> length ps then tl ps else ps)"
  have "length kept \<le> 2" "sorted_wrt (<) (map ptId kept)" "set kept \<subseteq> set ps"
    using assms(1) by (cases ps; auto simp: kept_def pastesOk_def)+
  with assms show ?thesis
    unfolding kept_def [symmetric] by (force simp: pastesOk_def sorted_wrt_append)
qed

lemma chips_loop: "chipsOk L \<Longrightarrow> chipsOk (stageLoop n L)"
proof (induction n arbitrary: L)
  case (Suc n)
  have "chipsOk (L\<lparr>ilAttach := f, ilPastes := spliceOut n (ilPastes L)\<rparr>)" for f
    using Suc.prems by (simp add: chipsOk_def pastesOk_spliceOut)
  with Suc show ?case by (simp add: Let_def)
qed simp

lemma chips_turn: "chipsOk (snd P) \<Longrightarrow> chipsOk (snd (turnTo i P))"
proof -
  have s: "chipsOk L \<Longrightarrow> chipsOk (saveInputStateFor a L)" for a L
    by (simp add: chipsOk_def saveInputStateFor_def)
  have r: "chipsOk L \<Longrightarrow> chipsOk (restoreInputStateFor a L)" for a L
    by (simp add: chipsOk_def restoreInputStateFor_def split: option.split)
  show "chipsOk (snd P) \<Longrightarrow> chipsOk (snd (turnTo i P))"
    by (simp add: turnTo_def Let_def s r split: option.split)
qed

lemma chips_step: "chipsOk L \<Longrightarrow> chipsOk (snd (lineStep op (a, L)))"
proof (cases op)
  case (PasteText t force)
  assume "chipsOk L"
  with PasteText pastesOk_more [of "ilCounter L" "ilPastes L" t] pastesOk_mono [of "ilCounter L" _ "ilCounter L + 1"]
  show ?thesis by (auto simp: stagePastedText_def chipsOk_def Let_def)
next
  case (TurnTo i)
  assume "chipsOk L"
  with TurnTo chips_turn [of "(a, L)" i] show ?thesis by simp
next
  case StageLong
  assume "chipsOk L"
  with StageLong show ?thesis by (simp add: stageLongPastesAsFiles_def chips_loop)
qed (auto simp: expandPasteChip_def removePasteChip_def clearInput_def clearAllPastes_def
      stageFile_def cleanupSessionInputState_def chipsOk_def pastesOk_spliceOut split: if_splits)

text \<open>
  The line never holds more than three paste chips, their numbers increase without repetition
  and no chip is empty: after any run of typing, pasting, expanding, removing, staging and turning
  between sessions, in the line as in every saved draft.
\<close>

theorem chips_bounded:
  assumes "(a, L) = lineRun ops (None, emptyLine)"
  shows "length (ilPastes L) \<le> 3 \<and> sorted_wrt (<) (map ptId (ilPastes L)) \<and> (\<forall>p \<in> set (ilPastes L). ptText p \<noteq> [])
    \<and> (\<forall>i d. ilSaved L i = Some d \<longrightarrow> length (drPastes d) \<le> 3 \<and> sorted_wrt (<) (map ptId (drPastes d)))"
proof -
  have "chipsOk (snd P) \<Longrightarrow> chipsOk (snd (lineRun os P))" for os P
  proof (induction os arbitrary: P)
    case (Cons op os)
    then have "chipsOk (snd (lineStep op P))" by (cases P) (simp add: chips_step)
    with Cons show ?case by (simp add: lineRun_def)
  qed (simp add: lineRun_def)
  moreover have "chipsOk (snd (None :: int option, emptyLine))"
    by (simp add: chipsOk_def emptyLine_def)
  ultimately have "chipsOk (snd (lineRun ops (None, emptyLine)))" by blast
  then have "chipsOk L" by (simp flip: assms)
  then show ?thesis by (auto simp: chipsOk_def pastesOk_def)
qed

theorem chips_bounded_witness:
  "\<exists>a L. (a, L) = lineRun (replicate 5 (PasteText (js ''x'') True)) (None, emptyLine) \<and> length (ilPastes L) \<le> 3"
proof -
  obtain a L where "(a, L) = lineRun (replicate 5 (PasteText (js ''x'') True)) (None, emptyLine)"
    by (metis surj_pair)
  with chips_bounded [OF this] show ?thesis by blast
qed

section \<open>Long pastes become files\<close>

definition allTexts :: "inputLine \<Rightarrow> byte list multiset" where
  "allTexts L = image_mset (utf8_encode \<circ> ptText) (mset (ilPastes L)) + image_mset afBytes (mset (ilAttach L))"

lemma mset_spliceOut: "i < length xs \<Longrightarrow> mset xs = add_mset (xs ! i) (mset (spliceOut i xs))"
  by (subst id_take_nth_drop [of i xs]) (simp_all add: spliceOut_def)

lemma stageLoop_texts: "n \<le> length (ilPastes L) \<Longrightarrow> allTexts (stageLoop n L) = allTexts L"
proof (induction n arbitrary: L)
  case (Suc n)
  let ?L = "L\<lparr>ilAttach := ilAttach L @ [pasteFile (ilPastes L ! n)], ilPastes := spliceOut n (ilPastes L)\<rparr>"
  have "n \<le> length (ilPastes ?L)" using Suc.prems by (simp add: spliceOut_def)
  moreover have "allTexts ?L = allTexts L"
    using mset_spliceOut [of n "ilPastes L"] Suc.prems by (simp add: allTexts_def pasteFile_def)
  ultimately show ?case using Suc by (simp add: Let_def)
qed simp

lemma stageLoop_short:
  "n \<le> length (ilPastes L) \<Longrightarrow> \<forall>p \<in> set (drop n (ilPastes L)). \<not> becomesFile p \<Longrightarrow>
     \<forall>p \<in> set (ilPastes (stageLoop n L)). \<not> becomesFile p"
proof (induction n arbitrary: L)
  case (Suc n)
  have d: "drop n (ilPastes L) = ilPastes L ! n # drop (Suc n) (ilPastes L)"
    using Suc.prems(1) by (simp add: Cons_nth_drop_Suc)
  show ?case
  proof (cases "becomesFile (ilPastes L ! n)")
    case False
    have "\<forall>p \<in> set (drop n (ilPastes L)). \<not> becomesFile p"
      unfolding d using False Suc.prems(2) by simp
    with Suc.IH [of L] Suc.prems(1) False show ?thesis by (simp add: Let_def)
  next
    case True
    let ?L = "L\<lparr>ilAttach := ilAttach L @ [pasteFile (ilPastes L ! n)], ilPastes := spliceOut n (ilPastes L)\<rparr>"
    have "drop n (ilPastes ?L) = drop (Suc n) (ilPastes L)" "n \<le> length (ilPastes ?L)"
      using Suc.prems(1) by (simp_all add: spliceOut_def)
    with Suc.IH [of ?L] Suc.prems True show ?thesis by (simp add: Let_def)
  qed
qed simp

text \<open>
  Turning long pastes into files loses and duplicates nothing: the texts of the chips and of
  the attachments together are the same before and after as UTF-8 bytes, and no chip that is long
  enough and fits is left in the line.
\<close>

theorem long_pastes_become_files:
  "allTexts (stageLongPastesAsFiles L) = allTexts L
   \<and> (\<forall>p \<in> set (ilPastes (stageLongPastesAsFiles L)). \<not> becomesFile p)"
  using stageLoop_short [of "length (ilPastes L)" L]
  by (simp add: stageLongPastesAsFiles_def stageLoop_texts)

end
