(* ===== verification/Overlap.thy ===== *)
theory Overlap
  imports Prelude "HOL-Library.Monad_Syntax"
begin

text \<open>
  \<open>suffixPrefixOverlap\<close> of \<open>src/web/src/app/mobile-transcript.ts\<close>: the length of the longest text
  that one buffer ends with and the next one starts with, computed with the failure table of
  Knuth, Morris and Pratt over the two texts with a NUL between them. The inner loop may not end
  on an arbitrary table, so it is a partial function; on the tables the outer loop builds it ends,
  and the result is the longest overlap.
\<close>

section \<open>The code\<close>

definition MAX_OVERLAP_CHARS :: nat where "MAX_OVERLAP_CHARS = 2000"

text \<open>\<open>while (j > 0 && combined[i] !== combined[j]) j = table[j - 1]\<close>.\<close>

partial_function (option) fallBack :: "jstr \<Rightarrow> nat list \<Rightarrow> nat \<Rightarrow> nat \<Rightarrow> nat option" where
  "fallBack s table i j =
     (if 0 < j \<and> s ! i \<noteq> s ! j then fallBack s table i (table ! (j - 1)) else Some j)"

declare fallBack.simps [code]

text \<open>The outer loop, from \<open>i\<close> on; \<open>n\<close> iterations are left.\<close>

primrec fillTable :: "jstr \<Rightarrow> nat \<Rightarrow> nat \<Rightarrow> nat list \<Rightarrow> nat list option" where
  "fillTable s 0 i table = Some table"
| "fillTable s (Suc n) i table =
     Option.bind (fallBack s table i (table ! (i - 1)))
       (\<lambda>j. fillTable s n (i + 1) (table[i := (if s ! i = s ! j then j + 1 else j)]))"

definition suffixPrefixOverlap :: "jstr \<Rightarrow> jstr \<Rightarrow> nat option" where
  "suffixPrefixOverlap prev0 next0 =
     (let mx = min (length prev0) (min (length next0) MAX_OVERLAP_CHARS) in
      if mx = 0 then Some 0
      else (let nextHead = take mx next0; prevTail = drop (length prev0 - mx) prev0;
                combined = nextHead @ 0 # prevTail
            in Option.bind (fillTable combined (length combined - 1) 1 (replicate (length combined) 0))
                 (\<lambda>table. Some (min (table ! (length combined - 1)) mx))))"

section \<open>Borders\<close>

text \<open>A border of \<open>t\<close>: the length of a proper prefix that is also a suffix.\<close>

definition border :: "jstr \<Rightarrow> nat \<Rightarrow> bool" where
  "border t k \<longleftrightarrow> k < length t \<and> take k t = drop (length t - k) t"

definition maxBorder :: "jstr \<Rightarrow> nat" where
  "maxBorder t = Max {k. border t k}"

lemma border_0: "t \<noteq> [] \<Longrightarrow> border t 0"
  by (simp add: border_def)

lemma finite_border: "finite {k. border t k}"
  by (rule finite_subset [of _ "{..<length t}"]) (auto simp: border_def)

lemma border_max: "t \<noteq> [] \<Longrightarrow> border t (maxBorder t)"
  using Max_in [OF finite_border, of t] border_0 [of t] unfolding maxBorder_def by blast

lemma max_border: "border t k \<Longrightarrow> k \<le> maxBorder t"
  unfolding maxBorder_def by (rule Max_ge [OF finite_border]) simp

lemma border_less: "border t k \<Longrightarrow> k < length t"
  by (simp add: border_def)

lemma maxBorder_unique: "border t k \<Longrightarrow> (\<And>k'. border t k' \<Longrightarrow> k' \<le> k) \<Longrightarrow> maxBorder t = k"
  unfolding maxBorder_def by (rule Max_eqI [OF finite_border]) auto

text \<open>The borders of a border are the shorter borders.\<close>

lemma border_nth: "border t k \<longleftrightarrow> k < length t \<and> (\<forall>x < k. t ! x = t ! (length t - k + x))"
  unfolding border_def by (auto simp: list_eq_iff_nth_eq)

lemma border_of_border:
  assumes "border t j"
  shows "border (take j t) k \<longleftrightarrow> border t k \<and> k < j"
proof -
  have j: "j < length t" "\<And>x. x < j \<Longrightarrow> t ! x = t ! (length t - j + x)"
    using assms by (auto simp: border_nth)
  show ?thesis
  proof (cases "k < j")
    case True
    have "t ! (j - k + x) = t ! (length t - k + x)" if "x < k" for x
    proof -
      have "length t - j + (j - k + x) = length t - k + x" using j(1) True by simp
      then show ?thesis using j(2) [of "j - k + x"] that True by simp
    qed
    with j(1) True show ?thesis by (simp add: border_nth)
  qed (simp add: border_nth)
qed

lemma border_snoc:
  assumes "i < length s"
  shows "border (take (Suc i) s) (Suc k) \<longleftrightarrow> border (take i s) k \<and> s ! i = s ! k"
proof -
  have "(\<forall>x < Suc k. s ! x = s ! (Suc i - Suc k + x)) \<longleftrightarrow> (\<forall>x < k. s ! x = s ! (i - k + x)) \<and> s ! k = s ! i"
    if "k < i" using that by (auto simp: less_Suc_eq)
  with assms show ?thesis by (auto simp: border_nth)
qed

section \<open>The table\<close>

definition filled :: "jstr \<Rightarrow> nat \<Rightarrow> nat list \<Rightarrow> bool" where
  "filled s i table \<longleftrightarrow> length table = length s \<and> 0 < i \<and> (\<forall>k < i. k < length s \<longrightarrow> table ! k = maxBorder (take (Suc k) s))"

lemma fallBack_best:
  assumes "filled s i table" "i < length s" "border (take i s) j"
    and "\<And>k. border (take i s) k \<Longrightarrow> s ! k = s ! i \<Longrightarrow> k \<le> j"
  shows "\<exists>j'. fallBack s table i j = Some j' \<and> border (take i s) j' \<and> (j' = 0 \<or> s ! i = s ! j')
    \<and> (\<forall>k. border (take i s) k \<longrightarrow> s ! k = s ! i \<longrightarrow> k \<le> j')"
  using assms(3,4)
proof (induction j rule: less_induct)
  case (less j)
  show ?case
  proof (cases "0 < j \<and> s ! i \<noteq> s ! j")
    case False
    with less.prems show ?thesis by (subst fallBack.simps) auto
  next
    case True
    let ?j = "table ! (j - 1)"
    have ji: "j < i" using border_less [OF less.prems(1)] assms(2) by simp
    then have t: "take j (take i s) = take j s" by (simp add: min_def)
    have e: "?j = maxBorder (take j s)"
      using assms(1,2) True ji by (simp add: filled_def)
    have "take j s \<noteq> []" using True ji assms(2) by auto
    then have b: "border (take j s) ?j"
      unfolding e by (rule border_max)
    then have bi: "border (take i s) ?j" "?j < j"
      using border_of_border [OF less.prems(1), of ?j] unfolding t by simp_all
    have "k \<le> ?j" if k: "border (take i s) k" "s ! k = s ! i" for k
    proof -
      have "k < j" using less.prems(2) [OF k] k(2) True by (cases "k = j") auto
      then have "border (take j s) k"
        using border_of_border [OF less.prems(1), of k] k(1) unfolding t by simp
      then show ?thesis unfolding e by (rule max_border)
    qed
    from less.IH [OF bi(2) bi(1) this] True show ?thesis
      by (subst fallBack.simps) simp
  qed
qed

lemma fill_step:
  assumes "filled s i table" "i < length s"
  obtains j where "fallBack s table i (table ! (i - 1)) = Some j"
    "filled s (Suc i) (table[i := (if s ! i = s ! j then j + 1 else j)])"
proof -
  have ne: "take i s \<noteq> []" using assms by (auto simp: filled_def)
  have e: "table ! (i - 1) = maxBorder (take i s)"
    using assms by (simp add: filled_def)
  obtain j where j: "fallBack s table i (table ! (i - 1)) = Some j" "border (take i s) j"
      "j = 0 \<or> s ! i = s ! j" "\<And>k. border (take i s) k \<Longrightarrow> s ! k = s ! i \<Longrightarrow> k \<le> j"
    using fallBack_best [OF assms, of "table ! (i - 1)"] border_max [OF ne] max_border e by auto
  have "maxBorder (take (Suc i) s) = (if s ! i = s ! j then j + 1 else j)"
  proof (rule maxBorder_unique)
    have "border (take (Suc i) s) 0" using assms(2) by (auto intro: border_0)
    then show "border (take (Suc i) s) (if s ! i = s ! j then j + 1 else j)"
      using border_snoc [OF assms(2), of j] j(2,3) by auto
  next
    fix k
    assume k: "border (take (Suc i) s) k"
    show "k \<le> (if s ! i = s ! j then j + 1 else j)"
    proof (cases k)
      case (Suc k')
      then have "border (take i s) k'" "s ! k' = s ! i"
        using border_snoc [OF assms(2), of k'] k by auto
      with j(4) [OF this] j(3) Suc show ?thesis by auto
    qed simp
  qed
  then have "filled s (Suc i) (table[i := (if s ! i = s ! j then j + 1 else j)])"
    using assms by (auto simp: filled_def nth_list_update less_Suc_eq)
  with j(1) show thesis by (rule that)
qed

lemma fillTable_filled:
  "filled s i table \<Longrightarrow> i + n = length s \<Longrightarrow>
     \<exists>t. fillTable s n i table = Some t \<and> filled s (length s) t"
proof (induction n arbitrary: i table)
  case (Suc n)
  then obtain j where "fallBack s table i (table ! (i - 1)) = Some j"
      "filled s (Suc i) (table[i := (if s ! i = s ! j then j + 1 else j)])"
    using fill_step [of s i table] by auto
  with Suc show ?case by simp
qed simp

lemma table_correct:
  assumes "s \<noteq> []"
  shows "\<exists>t. fillTable s (length s - 1) 1 (replicate (length s) 0) = Some t \<and> t ! (length s - 1) = maxBorder s"
proof -
  have "maxBorder (take (Suc 0) s) = 0"
    using assms by (intro maxBorder_unique) (auto simp: border_def)
  then have "filled s 1 (replicate (length s) 0)"
    using assms by (simp add: filled_def)
  from fillTable_filled [OF this, of "length s - 1"] assms show ?thesis
    by (auto simp: filled_def)
qed

section \<open>The overlap\<close>

definition overlaps :: "jstr \<Rightarrow> jstr \<Rightarrow> nat \<Rightarrow> bool" where
  "overlaps prev0 next0 k \<longleftrightarrow> k \<le> length prev0 \<and> k \<le> length next0 \<and> k \<le> MAX_OVERLAP_CHARS
     \<and> take k next0 = drop (length prev0 - k) prev0"

lemma border_separated:
  assumes "length h = length t" "0 \<notin> set h" "0 \<notin> set t"
  shows "border (h @ 0 # t) k \<longleftrightarrow> k \<le> length t \<and> take k h = drop (length t - k) t"
proof (cases "k \<le> length t")
  case True
  with assms show ?thesis by (simp add: border_def Suc_diff_le)
next
  case False
  have "\<not> border (h @ 0 # t) k"
  proof
    assume b: "border (h @ 0 # t) k"
    then have k: "k < length (h @ 0 # t)"
      "\<And>x. x < k \<Longrightarrow> (h @ 0 # t) ! x = (h @ 0 # t) ! (length (h @ 0 # t) - k + x)"
      by (auto simp: border_nth)
    have "(h @ 0 # t) ! (length (h @ 0 # t) - k + length h) = 0"
      using k(2) [of "length h"] False assms(1) by (simp add: nth_append)
    moreover have "(h @ 0 # t) ! (length (h @ 0 # t) - k + length h) = t ! (length t - (k - length t))"
    proof -
      have "length (h @ 0 # t) - k + length h = length h + Suc (length t - (k - length t))"
        using k(1) False assms(1) by simp
      then show ?thesis by (simp only: nth_append_length_plus nth_Cons_Suc)
    qed
    moreover have "length t - (k - length t) < length t"
      using k(1) False assms(1) by simp
    ultimately have "(0 :: cu) \<in> set t" by (metis nth_mem)
    with assms(3) show False by simp
  qed
  with False show ?thesis by simp
qed

lemma overlap_total: "\<exists>k. suffixPrefixOverlap prev0 next0 = Some k"
proof -
  have "\<exists>k. Option.bind (fillTable (h @ 0 # u) (length (h @ 0 # u) - 1) 1 (replicate (length (h @ 0 # u)) 0))
      (\<lambda>table. Some (g table)) = Some k" for h u and g :: "nat list \<Rightarrow> nat"
    using table_correct [of "h @ 0 # u"] by auto
  then show ?thesis
    unfolding suffixPrefixOverlap_def Let_def by (simp only: split: if_split) blast
qed

text \<open>
  C34: The overlap of two buffers is computed right: the loops of the failure table end, and for
  texts without NUL characters the result is the length of the longest text, of at most 2000 code
  units, that the first buffer ends with and the second starts with.
\<close>

theorem overlap_is_longest:
  assumes "0 \<notin> set prev0" "0 \<notin> set next0"
  shows "\<exists>k. suffixPrefixOverlap prev0 next0 = Some k \<and> overlaps prev0 next0 k
    \<and> (\<forall>k'. overlaps prev0 next0 k' \<longrightarrow> k' \<le> k)"
proof -
  define mx where "mx = min (length prev0) (min (length next0) MAX_OVERLAP_CHARS)"
  show ?thesis
  proof (cases "mx = 0")
    case True
    then show ?thesis
      by (auto simp: suffixPrefixOverlap_def overlaps_def mx_def)
  next
    case False
    let ?h = "take mx next0" and ?t = "drop (length prev0 - mx) prev0"
    let ?c = "?h @ 0 # ?t"
    have l: "length ?h = mx" "length ?t = mx" by (auto simp: mx_def)
    have b: "border ?c k \<longleftrightarrow> overlaps prev0 next0 k" for k
    proof -
      have "border ?c k \<longleftrightarrow> k \<le> mx \<and> take k ?h = drop (mx - k) ?t"
        using border_separated [of ?h ?t k] l assms by (auto dest: in_set_takeD in_set_dropD)
      moreover have "k \<le> mx \<Longrightarrow> drop (mx - k) ?t = drop (length prev0 - k) prev0 \<and> take k ?h = take k next0"
        by (simp add: mx_def min_def)
      moreover have "k \<le> mx \<longleftrightarrow> k \<le> length prev0 \<and> k \<le> length next0 \<and> k \<le> MAX_OVERLAP_CHARS"
        by (auto simp: mx_def)
      ultimately show ?thesis unfolding overlaps_def by auto
    qed
    have m: "overlaps prev0 next0 (maxBorder ?c)" "\<And>k. overlaps prev0 next0 k \<Longrightarrow> k \<le> maxBorder ?c"
      using border_max [of ?c] max_border [of ?c] b by auto
    then have "maxBorder ?c \<le> mx" by (auto simp: overlaps_def mx_def)
    moreover obtain t where "fillTable ?c (length ?c - 1) 1 (replicate (length ?c) 0) = Some t"
        "t ! (length ?c - 1) = maxBorder ?c"
      using table_correct [of ?c] by auto
    ultimately have "suffixPrefixOverlap prev0 next0 = Some (maxBorder ?c)"
      using False unfolding suffixPrefixOverlap_def mx_def [symmetric] Let_def by simp
    with m show ?thesis by blast
  qed
qed

theorem overlap_is_longest_witness:
  "suffixPrefixOverlap (js ''one two two'') (js ''two two three'') = Some 7
   \<and> overlaps (js ''one two two'') (js ''two two three'') 7
   \<and> \<not> overlaps (js ''one two two'') (js ''two two three'') 8"
proof -
  have e: "suffixPrefixOverlap (js ''one two two'') (js ''two two three'') = Some 7"
    by code_simp
  have "0 \<notin> set (js ''one two two'')" "0 \<notin> set (js ''two two three'')"
    by (simp_all add: js_def)
  from overlap_is_longest [OF this] e show ?thesis by auto
qed

end
