(* ===== verification/MobileTranscript.thy ===== *)
theory MobileTranscript
  imports Overlap JsRegex ResidueSweep
begin

text \<open>
  \<open>src/web/src/app/mobile-transcript.ts\<close>: the chat-like transcript that a phone shows instead of
  the terminal. The screen is read again and again; what is new on it is found by comparing it
  with the last reading, the echo of the user's own text is cut off, and the rest becomes or
  replaces a message of the agent. The screen's lines, the clock and the viewport are arguments.
\<close>

section \<open>Readings of the screen\<close>

definition MAX_MESSAGES_PER_SESSION :: nat where "MAX_MESSAGES_PER_SESSION = 200"
definition MAX_SCAN_LINES :: nat where "MAX_SCAN_LINES = 800"

definition ruleRe :: rx where
  "ruleRe = seqs [RBol, many1 (RCls (CC False [CWs, CRange 95 95, CRange 45 45, CRange 9472 9472,
     CRange 61 61, CRange 42 42])), REol]"

definition isRuleLine :: "jstr \<Rightarrow> bool" where
  "isRuleLine s = (let trimmed = trim s in if 3 \<le> length trimmed then test False ruleRe trimmed else False)"

fun collapseLoop :: "nat \<Rightarrow> bool \<Rightarrow> jstr list \<Rightarrow> jstr list" where
  "collapseLoop blankRun prevRule [] = []"
| "collapseLoop blankRun prevRule (raw # lines) =
     (if trim raw = [] then
        (if blankRun + 1 = 1 then [raw] else []) @ collapseLoop (blankRun + 1) False lines
      else if isRuleLine raw then
        (if prevRule then collapseLoop 0 True lines else raw # collapseLoop 0 True lines)
      else raw # collapseLoop 0 False lines)"

definition collapseDecorations :: "jstr list \<Rightarrow> jstr list" where
  "collapseDecorations lines = collapseLoop 0 False lines"

definition cleanBufferText :: "jstr list \<Rightarrow> jstr" where
  "cleanBufferText buf =
     (let lines = scanBuffer MAX_SCAN_LINES buf;
          kept = rev (dropWhile (\<lambda>l. trim l = []) (rev lines))
      in trim (join [10] (collapseDecorations kept)))"

section \<open>State\<close>

datatype transcriptRole = UserRole | AiRole

record transcriptMsg =
  tmId :: int
  tmRole :: transcriptRole
  tmText :: jstr
  tmAt :: int
  tmPending :: bool

record transcript =
  trMessages :: "transcriptMsg list"
  trNextId :: int
  trLastBuffer :: jstr
  trPendingEcho :: jstr
  trSubmittedAt :: int

definition stateFor :: transcript where
  "stateFor = \<lparr>trMessages = [], trNextId = 1, trLastBuffer = [], trPendingEcho = [], trSubmittedAt = 0\<rparr>"

section \<open>New text\<close>

definition trimPendingEcho :: "transcript \<Rightarrow> jstr \<Rightarrow> jstr \<times> transcript" where
  "trimPendingEcho S t =
     (let echo = trim (trPendingEcho S) in
      if echo = [] then (t, S)
      else (let trimmed = trimStart t in
        if starts_with echo trimmed
        then (trimStart (drop (length echo) trimmed), S\<lparr>trPendingEcho := []\<rparr>)
        else (t, S)))"

definition existingTranscriptText :: "transcript \<Rightarrow> jstr" where
  "existingTranscriptText S = trim (join [10] (map tmText (trMessages S)))"

definition trimExistingTranscriptPrefix :: "transcript \<Rightarrow> jstr \<Rightarrow> jstr option" where
  "trimExistingTranscriptPrefix S t =
     (let existing = existingTranscriptText S in
      if existing = [] then Some t
      else Option.bind (suffixPrefixOverlap existing t) (\<lambda>ov. Some (if 0 < ov then drop ov t else t)))"

definition appendTranscript :: "transcriptRole \<Rightarrow> jstr \<Rightarrow> bool \<Rightarrow> int \<Rightarrow> transcript \<Rightarrow> transcript" where
  "appendTranscript role t pending now S =
     (let clean = trim t; ms = trMessages S in
      if clean = [] then S
      else (let S1 =
              (if role = AiRole \<and> ms \<noteq> [] \<and> tmRole (last ms) = AiRole \<and> tmPending (last ms)
               then S\<lparr>trMessages := butlast ms @ [(last ms)\<lparr>tmText := clean, tmPending := pending, tmAt := now\<rparr>]\<rparr>
               else S\<lparr>trMessages := ms @ [\<lparr>tmId = trNextId S, tmRole = role, tmText = clean, tmAt = now,
                        tmPending = pending\<rparr>], trNextId := trNextId S + 1\<rparr>)
            in S1\<lparr>trMessages := drop (length (trMessages S1) - MAX_MESSAGES_PER_SESSION) (trMessages S1)\<rparr>))"

definition sanitizeSubmittedText :: "jstr \<Rightarrow> jstr" where
  "sanitizeSubmittedText t =
     (let a = replace_all False (lit [27, 91, 50, 48, 48, 126]) (\<lambda>_. []) t;
          b = replace_all False (lit [27, 91, 50, 48, 49, 126]) (\<lambda>_. []) a;
          c = replace_all False (RCls (CC False [CRange 0 9, CRange 11 31, CRange 127 127])) (\<lambda>_. []) b
      in trim (replace_all False (chr 13) (\<lambda>_. [10]) c))"

section \<open>Operations\<close>

definition confirmLast :: "transcript \<Rightarrow> transcript" where
  "confirmLast S =
     (let ms = trMessages S in
      if ms \<noteq> [] \<and> tmRole (last ms) = AiRole
      then S\<lparr>trMessages := butlast ms @ [(last ms)\<lparr>tmPending := False\<rparr>]\<rparr> else S)"

text \<open>The text that is new in \<open>current\<close>.\<close>

definition newText :: "transcript \<Rightarrow> jstr \<Rightarrow> jstr option" where
  "newText S current =
     (if starts_with (trLastBuffer S) current then Some (drop (length (trLastBuffer S)) current)
      else Option.bind (suffixPrefixOverlap (trLastBuffer S) current)
             (\<lambda>ov. trimExistingTranscriptPrefix S (if 0 < ov then drop ov current else current)))"

definition syncMobileTranscript :: "bool \<Rightarrow> bool \<Rightarrow> jstr list \<Rightarrow> int \<Rightarrow> transcript \<Rightarrow> transcript option" where
  "syncMobileTranscript mobile commitPending buf now S =
     (if \<not> mobile then Some S
      else (let current = cleanBufferText buf in
        if trLastBuffer S = [] then
          (let S1 = S\<lparr>trLastBuffer := current\<rparr>
           in Some (if trMessages S1 = [] \<and> current \<noteq> [] then appendTranscript AiRole current (\<not> commitPending) now S1
                    else S1))
        else if current = trLastBuffer S then Some (if commitPending then confirmLast S else S)
        else Option.bind (newText S current) (\<lambda>d0.
          let (delta, S1) = trimPendingEcho S d0
          in Some ((appendTranscript AiRole delta (\<not> commitPending) now S1)\<lparr>trLastBuffer := current\<rparr>))))"

definition recordMobileTranscriptUserSubmission ::
  "bool \<Rightarrow> jstr \<Rightarrow> jstr list \<Rightarrow> int \<Rightarrow> transcript \<Rightarrow> transcript option" where
  "recordMobileTranscriptUserSubmission mobile t buf now S =
     (if \<not> mobile then Some S
      else (let submitted = sanitizeSubmittedText t in
        if submitted = [] then Some S
        else Option.bind (syncMobileTranscript mobile True buf now S) (\<lambda>S1.
          let S2 = appendTranscript UserRole submitted False now S1
          in Some (S2\<lparr>trPendingEcho := submitted, trSubmittedAt := now, trLastBuffer := cleanBufferText buf\<rparr>))))"

section \<open>Runs\<close>

datatype transcriptOp =
    Sync bool bool "jstr list" int
  | Submit bool jstr "jstr list" int

fun transcriptStep :: "transcriptOp \<Rightarrow> transcript \<Rightarrow> transcript option" where
  "transcriptStep (Sync mobile cp buf now) S = syncMobileTranscript mobile cp buf now S"
| "transcriptStep (Submit mobile t buf now) S = recordMobileTranscriptUserSubmission mobile t buf now S"

primrec transcriptRun :: "transcriptOp list \<Rightarrow> transcript \<Rightarrow> transcript option" where
  "transcriptRun [] S = Some S"
| "transcriptRun (op # ops) S = Option.bind (transcriptStep op S) (transcriptRun ops)"

section \<open>Every operation returns\<close>

lemma bind_total: "\<exists>k. m = Some k \<Longrightarrow> (\<And>k. \<exists>y. f k = Some y) \<Longrightarrow> \<exists>y. Option.bind m f = Some y"
  by auto

lemma existing_total: "\<exists>t'. trimExistingTranscriptPrefix S t = Some t'"
  unfolding trimExistingTranscriptPrefix_def Let_def
  by (simp only: split: if_split) (auto intro!: bind_total overlap_total)

lemma newText_total: "\<exists>t. newText S current = Some t"
  unfolding newText_def
  by (simp only: split: if_split) (auto intro!: bind_total overlap_total existing_total)

lemma sync_total: "\<exists>T. syncMobileTranscript mobile cp buf now S = Some T"
  using newText_total [of S "cleanBufferText buf"]
  by (auto simp: syncMobileTranscript_def Let_def split: prod.split)

lemma step_total: "\<exists>T. transcriptStep op S = Some T"
proof (cases op)
  case (Submit mobile t buf now)
  then show ?thesis
    using sync_total [of mobile True buf now S]
    by (auto simp: recordMobileTranscriptUserSubmission_def Let_def)
qed (simp add: sync_total)

section \<open>Well-formed transcripts\<close>

definition shownText :: "jstr \<Rightarrow> bool" where
  "shownText t \<longleftrightarrow> t \<noteq> [] \<and> trim t = t"

definition wfTranscript :: "transcript \<Rightarrow> bool" where
  "wfTranscript S \<longleftrightarrow> length (trMessages S) \<le> MAX_MESSAGES_PER_SESSION
     \<and> sorted_wrt (<) (map tmId (trMessages S)) \<and> (\<forall>m \<in> set (trMessages S). tmId m < trNextId S)
     \<and> (\<forall>m \<in> set (trMessages S). shownText (tmText m))"

lemma wf_fields: "trMessages T = trMessages S \<Longrightarrow> trNextId T = trNextId S \<Longrightarrow> wfTranscript S \<Longrightarrow> wfTranscript T"
  by (simp add: wfTranscript_def)

lemma wf_append: "wfTranscript S \<Longrightarrow> wfTranscript (appendTranscript role t p now S)"
proof -
  assume w: "wfTranscript S"
  obtain ms where ms: "trMessages S = ms" by simp
  have sorted_drop: "sorted_wrt (<) (map tmId xs) \<Longrightarrow> sorted_wrt (<) (map tmId (drop n xs))" for n xs
    by (simp add: drop_map [symmetric] sorted_wrt_drop)
  show ?thesis
  proof (cases "trim t = []")
    case True
    with w show ?thesis by (simp add: appendTranscript_def)
  next
    case False
    then have s: "shownText (trim t)" by (simp add: shownText_def)
    show ?thesis
    proof (cases "role = AiRole \<and> ms \<noteq> [] \<and> tmRole (last ms) = AiRole \<and> tmPending (last ms)")
      case True
      then have e: "ms = butlast ms @ [last ms]" by simp
      have l: "length ms \<le> 200" using w ms by (simp add: wfTranscript_def MAX_MESSAGES_PER_SESSION_def)
      have i: "map tmId (butlast ms @ [(last ms)\<lparr>tmText := trim t, tmPending := p, tmAt := now\<rparr>]) = map tmId ms"
        using arg_cong [OF e, of "map tmId"] by simp
      have sub: "set (butlast ms) \<subseteq> set ms" "last ms \<in> set ms" using True by (auto dest: in_set_butlastD)
      with True False w l i s ms show ?thesis
        by (auto simp: appendTranscript_def wfTranscript_def Let_def MAX_MESSAGES_PER_SESSION_def)
    next
      case f: False
      let ?n = "\<lparr>tmId = trNextId S, tmRole = role, tmText = trim t, tmAt = now, tmPending = p\<rparr>"
      define ms' where "ms' = ms @ [?n]"
      have "appendTranscript role t p now S = S\<lparr>trNextId := trNextId S + 1,
          trMessages := drop (length ms' - MAX_MESSAGES_PER_SESSION) ms'\<rparr>"
        using f False ms by (auto simp: appendTranscript_def Let_def ms'_def)
      moreover have "sorted_wrt (<) (map tmId ms')"
        using w ms by (auto simp: wfTranscript_def sorted_wrt_append ms'_def)
      moreover have "\<forall>m \<in> set ms'. tmId m < trNextId S + 1 \<and> shownText (tmText m)"
        using w ms s by (force simp: wfTranscript_def ms'_def)
      ultimately show ?thesis
        using sorted_drop [of ms'] by (auto simp: wfTranscript_def dest: in_set_dropD)
    qed
  qed
qed

lemma wf_confirm: "wfTranscript S \<Longrightarrow> wfTranscript (confirmLast S)"
proof (cases "trMessages S = []")
  case False
  assume w: "wfTranscript S"
  let ?ms = "trMessages S"
  have e: "butlast ?ms @ [last ?ms] = ?ms" using False by simp
  have i: "map tmId (butlast ?ms @ [(last ?ms)\<lparr>tmPending := False\<rparr>]) = map tmId ?ms"
    using arg_cong [OF e, of "map tmId"] by simp
  have sub: "set (butlast ?ms) \<subseteq> set ?ms" "last ?ms \<in> set ?ms" using False by (auto dest: in_set_butlastD)
  have "length (butlast ?ms @ [(last ?ms)\<lparr>tmPending := False\<rparr>]) = length ?ms" using False by simp
  with w i sub False show ?thesis
    unfolding confirmLast_def wfTranscript_def Let_def by auto
qed (simp add: confirmLast_def)

lemma wf_sync: "wfTranscript S \<Longrightarrow> syncMobileTranscript mobile cp buf now S = Some T \<Longrightarrow> wfTranscript T"
proof -
  assume w: "wfTranscript S" and e: "syncMobileTranscript mobile cp buf now S = Some T"
  have u: "wfTranscript (U\<lparr>trLastBuffer := c\<rparr>)" if "wfTranscript U" for U c
    using that by (simp add: wfTranscript_def)
  have t: "wfTranscript U" if "trimPendingEcho S d = (d', U)" for d d' U
    using that w by (auto simp: trimPendingEcho_def Let_def wfTranscript_def split: if_splits)
  show ?thesis
  proof (cases "\<not> mobile \<or> trLastBuffer S = [] \<or> cleanBufferText buf = trLastBuffer S")
    case True
    with e w show ?thesis
      by (auto simp: syncMobileTranscript_def Let_def wf_append u wf_confirm split: if_splits)
  next
    case False
    obtain d0 where "newText S (cleanBufferText buf) = Some d0"
      using newText_total by blast
    moreover obtain d U where dU: "trimPendingEcho S d0 = (d, U)" by fastforce
    ultimately have "T = (appendTranscript AiRole d (\<not> cp) now U)\<lparr>trLastBuffer := cleanBufferText buf\<rparr>"
      using e False by (simp add: syncMobileTranscript_def Let_def)
    with t [OF dU] show ?thesis by (auto intro!: u wf_append)
  qed
qed

lemma wf_step: "wfTranscript S \<Longrightarrow> transcriptStep op S = Some T \<Longrightarrow> wfTranscript T"
proof (cases op)
  case (Submit mobile t buf now)
  assume w: "wfTranscript S" and e: "transcriptStep op S = Some T"
  show ?thesis
  proof (cases "\<not> mobile \<or> sanitizeSubmittedText t = []")
    case True
    with e w Submit show ?thesis
      by (auto simp: recordMobileTranscriptUserSubmission_def Let_def split: if_splits)
  next
    case False
    with e Submit obtain S1 where "syncMobileTranscript mobile True buf now S = Some S1"
        "T = (appendTranscript UserRole (sanitizeSubmittedText t) False now S1)\<lparr>
          trPendingEcho := sanitizeSubmittedText t, trSubmittedAt := now, trLastBuffer := cleanBufferText buf\<rparr>"
      by (auto simp: recordMobileTranscriptUserSubmission_def Let_def bind_eq_Some_conv)
    with wf_sync [OF w] wf_append show ?thesis by (auto intro: wf_fields)
  qed
qed (auto dest: wf_sync)

text \<open>
  The phone's transcript is well formed and every operation on it returns: after any run of
  readings and submissions there are at most 200 messages, their numbers increase and stay below
  the next number, and every message shows text that neither starts nor ends with white space.
\<close>

theorem transcript_well_formed:
  "\<exists>S. transcriptRun ops stateFor = Some S \<and> length (trMessages S) \<le> 200
    \<and> sorted_wrt (<) (map tmId (trMessages S)) \<and> (\<forall>m \<in> set (trMessages S). tmId m < trNextId S)
    \<and> (\<forall>m \<in> set (trMessages S). tmText m \<noteq> [] \<and> trim (tmText m) = tmText m)"
proof -
  have "wfTranscript S \<Longrightarrow> \<exists>T. transcriptRun ops S = Some T \<and> wfTranscript T" for S
  proof (induction ops arbitrary: S)
    case (Cons op ops)
    obtain T where "transcriptStep op S = Some T" using step_total by blast
    with Cons wf_step show ?case by auto
  qed simp
  moreover have "wfTranscript stateFor"
    by (simp add: wfTranscript_def stateFor_def)
  ultimately show ?thesis
    by (auto simp: wfTranscript_def MAX_MESSAGES_PER_SESSION_def shownText_def)
qed

section \<open>Text that grows\<close>

text \<open>
  While a session's screen only grows, nothing is shown twice and nothing is left out: after
  the user's submission has been recorded and its echo has passed, a reading that extends the last
  one adds exactly the text that is new, as one message of the agent.
\<close>

theorem growing_screen_adds_new_text:
  assumes "trLastBuffer S \<noteq> []" "cleanBufferText buf = trLastBuffer S @ d" "trim d \<noteq> []"
    and "trim (trPendingEcho S) = []" "trMessages S \<noteq> []" "tmRole (last (trMessages S)) = UserRole"
    and "length (trMessages S) < 200"
  shows "\<exists>T. syncMobileTranscript True cp buf now S = Some T \<and> trMessages T = trMessages S @
     [\<lparr>tmId = trNextId S, tmRole = AiRole, tmText = trim d, tmAt = now, tmPending = (\<not> cp)\<rparr>]
     \<and> trLastBuffer T = cleanBufferText buf"
proof -
  have "d \<noteq> []" using assms(3) by (auto simp: trim_def)
  moreover have "newText S (cleanBufferText buf) = Some d"
    by (simp add: newText_def assms(2) starts_with_iff)
  moreover have "trimPendingEcho S d = (d, S)"
    using assms(4) by (simp add: trimPendingEcho_def Let_def)
  ultimately show ?thesis
    using assms by (simp add: syncMobileTranscript_def appendTranscript_def Let_def MAX_MESSAGES_PER_SESSION_def)
qed

definition afterSubmit :: transcript where
  "afterSubmit = \<lparr>trMessages = [\<lparr>tmId = 1, tmRole = UserRole, tmText = js ''hi'', tmAt = 5, tmPending = False\<rparr>],
     trNextId = 2, trLastBuffer = js ''> hi'', trPendingEcho = [], trSubmittedAt = 5\<rparr>"

theorem growing_screen_adds_new_text_witness:
  "\<exists>T. syncMobileTranscript True False [js ''> hi'', js ''there'', []] 9 afterSubmit = Some T
     \<and> map tmText (trMessages T) = [js ''hi'', js ''there'']"
proof -
  have "cleanBufferText [js ''> hi'', js ''there'', []] = trLastBuffer afterSubmit @ (10 # js ''there'')"
    by code_simp
  moreover have "trim (10 # js ''there'') = js ''there''" by code_simp
  ultimately show ?thesis
    using growing_screen_adds_new_text [of afterSubmit "[js ''> hi'', js ''there'', []]" "10 # js ''there''" False 9]
    by (auto simp: afterSubmit_def js_def trim_def)
qed

text \<open>
  Between submissions it is different: a message of the agent that is still pending is replaced
  by the new text alone, so what it showed before is gone from the transcript.
\<close>

lemma pending_text_is_overwritten:
  "map_option (\<lambda>S. map tmText (trMessages S))
     (transcriptRun [Sync True False [js ''alpha''] 1, Sync True False [js ''alpha'', js ''beta''] 2] stateFor)
   = Some [js ''beta'']"
  by code_simp

end
