(* ===== verification/SendInput.thy ===== *)
theory SendInput
  imports InputLine MobileTranscript ChatHistory ApprovalDetect
begin

text \<open>
  Sending from the input line: \<open>doSend\<close>, the quick commands and the shared body path of
  \<open>src/web/src/app.ts\<close>, with the trigger phrases of \<open>settings.ts\<close>. The page's state is put
  together from the components: the approval store, the chat history, the timers of the deferred
  enter and of the residue sweep, the input line and the phone transcripts. \<open>doSend\<close> waits for
  the upload of attachments in its middle, so it is two operations, \<open>doSendStart\<close> and
  \<open>doSendFinish\<close>, between which others may run. Unicode normalisation (\<open>NFKC\<close>) is a parameter.
\<close>

section \<open>The page\<close>

record page =
  pgStore :: store
  pgChat :: chatState
  pgSweep :: sweepWorld
  pgLine :: inputLine
  pgTrans :: "int \<Rightarrow> transcript option"
  pgLastSend :: int
  pgInFlight :: "int set"
  pgNudgeOff :: "int set"
  pgOverride :: int
  pgJobs :: "(int \<times> jstr) list"  \<comment> \<open>the texts that wait for an image to settle\<close>
  pgWire :: "(int \<times> jstr) list"  \<comment> \<open>\<open>pty_input\<close> messages to the Hub\<close>

record sendEnv =
  seRoute :: "int \<Rightarrow> jstr"
  seKnown :: "int \<Rightarrow> bool"
  seMobile :: bool
  seTrigger :: jstr
  seNfkc :: "jstr \<Rightarrow> jstr"

definition nowOf :: "page \<Rightarrow> int" where
  "nowOf P = deNow (enters (pgSweep P))"

definition providerOn :: "page \<Rightarrow> int \<Rightarrow> jstr" where
  "providerOn P sid = providerOf (pgSweep P) sid"

definition onEnters :: "(deWorld \<Rightarrow> deWorld) \<Rightarrow> page \<Rightarrow> page" where
  "onEnters f P = P\<lparr>pgSweep := (pgSweep P)\<lparr>enters := f (enters (pgSweep P))\<rparr>\<rparr>"

section \<open>Guards\<close>

definition leadRe :: rx where
  "leadRe = seqs [RBol, many1 (RCls (CC False [CWs, CRange 0 31]))]"

definition modelRe :: rx where
  "modelRe = seqs [RBol, lit (js ''/model''), alts [RWordB, wsCh, REol]]"

definition isOllamaModelCommandBlocked :: "sendEnv \<Rightarrow> int \<Rightarrow> jstr \<Rightarrow> bool" where
  "isOllamaModelCommandBlocked E sid t =
     (if \<not> seKnown E sid \<or> (seRoute E sid \<noteq> js ''ollama'' \<and> seRoute E sid \<noteq> js ''lm-studio'') then False
      else test True modelRe (replace_first False leadRe (\<lambda>_. []) t))"

definition AI_CLI_LAUNCH_RE :: rx where
  "AI_CLI_LAUNCH_RE = seqs [RBol, opt (RSeq (many nonWs) (anyOf [92, 47])),
     RGrp 1 (alts (map (\<lambda>w. lit (js w)) [''claude'', ''codex'', ''copilot'', ''cursor-agent'', ''grok''])),
     opt (RSeq (chr 46) (alts (map (\<lambda>w. lit (js w)) [''cmd'', ''exe'', ''bat'', ''ps1'']))),
     RLook False (RAlt wsCh REol)]"

definition detectAiCliLaunchInShell :: "sendEnv \<Rightarrow> page \<Rightarrow> int \<Rightarrow> jstr \<Rightarrow> jstr option" where
  "detectAiCliLaunchInShell E P sid t =
     (if \<not> seKnown E sid \<or> \<not> isShellProvider (providerOn P sid) then None
      else if sid \<in> pgNudgeOff P then None
      else map_option (\<lambda>m. toLowerCase (grp m 1))
             (exec True AI_CLI_LAUNCH_RE (replace_first False leadRe (\<lambda>_. []) t)))"

text \<open>
  \<open>maybeNudgeAiCliLaunchInShell\<close>, with the answer the user gives in the dialog: the text is
  handled elsewhere, or the session is not asked again.
\<close>

definition maybeNudge :: "sendEnv \<Rightarrow> int \<Rightarrow> jstr \<Rightarrow> bool \<Rightarrow> page \<Rightarrow> bool \<times> page" where
  "maybeNudge E sid t accept P =
     (case detectAiCliLaunchInShell E P sid t of
        None \<Rightarrow> (False, P)
      | Some _ \<Rightarrow> if accept then (True, P) else (False, P\<lparr>pgNudgeOff := insert sid (pgNudgeOff P)\<rparr>))"

section \<open>Trigger phrases\<close>

definition triggerStop :: "cu \<Rightarrow> bool" where
  "triggerStop c = List.member [12290, 65294, 46, 33, 65281, 63, 65311, 12289, 44, 65292] c"

definition normalizeTriggerMatchText :: "(jstr \<Rightarrow> jstr) \<Rightarrow> jstr \<Rightarrow> jstr" where
  "normalizeTriggerMatchText nfkc t =
     rev (dropWhile triggerStop (rev (filter (\<lambda>c. \<not> is_ws c) (toLowerCase (nfkc t)))))"

definition ends_with :: "jstr \<Rightarrow> jstr \<Rightarrow> bool" where
  "ends_with s t = starts_with (rev t) (rev s)"

definition textEndsWithTriggerPhrase :: "(jstr \<Rightarrow> jstr) \<Rightarrow> jstr \<Rightarrow> jstr \<Rightarrow> bool" where
  "textEndsWithTriggerPhrase nfkc t phrase =
     (let tp = normalizeTriggerMatchText nfkc phrase in
      if tp = [] then False else ends_with (normalizeTriggerMatchText nfkc t) tp)"

definition stripTrailingTriggerPhrase :: "(jstr \<Rightarrow> jstr) \<Rightarrow> jstr \<Rightarrow> jstr \<Rightarrow> jstr" where
  "stripTrailingTriggerPhrase nfkc t phrase =
     (let tp = normalizeTriggerMatchText nfkc phrase in
      if tp = [] then t
      else if \<not> ends_with (normalizeTriggerMatchText nfkc t) tp then t
      else (case List.find (\<lambda>i. normalizeTriggerMatchText nfkc (drop i t) = tp) [0..<length t + 1] of
              None \<Rightarrow> t | Some i \<Rightarrow> trimEnd (take i t)))"

section \<open>The body of a message\<close>

definition pasteStart :: jstr where "pasteStart = [27, 91, 50, 48, 48, 126]"
definition pasteEnd :: jstr where "pasteEnd = [27, 91, 50, 48, 49, 126]"

definition bracketed :: "jstr \<Rightarrow> jstr" where
  "bracketed t = pasteStart @ t @ pasteEnd"

definition keyLike :: "jstr \<Rightarrow> bool" where
  "keyLike t \<longleftrightarrow> t = [] \<or> length t = 1 \<or> test False (seqs [RBol, many1 (RCls (CC False [CRange 48 57])), REol]) t
     \<or> starts_with (js ''/'') t"

definition buildBodySubmitPart :: "jstr \<Rightarrow> jstr \<Rightarrow> jstr \<times> bool" where
  "buildBodySubmitPart provider rawText =
     (if str_includes rawText [10] then (bracketed rawText, True)
      else if isShellProvider provider \<or> keyLike rawText then (rawText @ [13], False)
      else (bracketed rawText, True))"

text \<open>\<open>s.replace(/\r\n?/g, '\n')\<close>.\<close>

fun normCr :: "jstr \<Rightarrow> jstr" where
  "normCr [] = []"
| "normCr (c # cs) =
     (if c = 13 then 10 # normCr (if cs \<noteq> [] \<and> hd cs = 10 then tl cs else cs) else c # normCr cs)"

section \<open>Sending\<close>

definition sendText :: "int \<Rightarrow> jstr \<Rightarrow> page \<Rightarrow> page" where
  "sendText sid t P = (if stWsOpen (pgStore P) then P\<lparr>pgWire := pgWire P @ [(sid, t)]\<rparr> else P)"

definition recordTranscript :: "sendEnv \<Rightarrow> int \<Rightarrow> jstr \<Rightarrow> page \<Rightarrow> page" where
  "recordTranscript E sid t P =
     (if \<not> seMobile E \<or> sanitizeSubmittedText t = [] then P
      else (let S = (case pgTrans P sid of None \<Rightarrow> stateFor | Some x \<Rightarrow> x) in
        P\<lparr>pgTrans := (pgTrans P)(sid :=
          recordMobileTranscriptUserSubmission True t (screenOf (pgSweep P) sid) (nowOf P) S)\<rparr>))"

definition sendSubmittedText :: "sendEnv \<Rightarrow> int \<Rightarrow> jstr \<Rightarrow> page \<Rightarrow> page" where
  "sendSubmittedText E sid t P = sendText sid t (recordTranscript E sid t P)"

definition effectiveDeferredEnterWait :: "page \<Rightarrow> int \<Rightarrow> int" where
  "effectiveDeferredEnterWait P sid =
     (if 0 < pgOverride P then pgOverride P else deferredEnterMinWaitFor (providerOn P sid))"

definition sendSubmittedBody :: "sendEnv \<Rightarrow> int \<Rightarrow> jstr \<Rightarrow> page \<Rightarrow> page" where
  "sendSubmittedBody E sid body P =
     (let P1 = onEnters (cancelDeferredEnter sid) P;
          (part, deferEnter) = buildBodySubmitPart (providerOn P1 sid) body;
          P2 = sendSubmittedText E sid part P1;
          P3 = (if deferEnter
                then onEnters (scheduleDeferredEnter sid (effectiveDeferredEnterWait P2 sid) NoCallback NoCallback) P2
                else P2)
      in P3\<lparr>pgSweep := scheduleResidueSweep sid body deferEnter (pgSweep P3)\<rparr>)"

text \<open>What \<open>doSend\<close> and the quick commands do with the approval shown for the session.\<close>

definition bypassApproval :: "(int \<Rightarrow> appState \<Rightarrow> appState) \<Rightarrow> int \<Rightarrow> int \<Rightarrow> store \<Rightarrow> store" where
  "bypassApproval act now sid S =
     (let S1 = hideActionBar act sid S
      in emit (EvDetect sid) (S1\<lparr>stSuppress := (stSuppress S1)(sid := Some (now + 2000))\<rparr>))"

definition consumePrevious :: "int \<Rightarrow> store \<Rightarrow> store" where
  "consumePrevious sid S =
     (case stRaw S sid of
        None \<Rightarrow> S
      | Some c \<Rightarrow> S\<lparr>stConsumed := (stConsumed S)(sid := Some (approvalSig (coBody c)))\<rparr>)"

definition doSendQuickCommand :: "(int \<Rightarrow> appState \<Rightarrow> appState) \<Rightarrow> sendEnv \<Rightarrow> int \<Rightarrow> jstr \<Rightarrow> page \<Rightarrow> page" where
  "doSendQuickCommand act E sid cmd P =
     sendSubmittedBody E sid cmd
       (P\<lparr>pgStore := bypassApproval act (nowOf P) sid (consumePrevious sid (pgStore P))\<rparr>)"

definition sendQuickCommand ::
  "(int \<Rightarrow> appState \<Rightarrow> appState) \<Rightarrow> sendEnv \<Rightarrow> int \<Rightarrow> jstr \<Rightarrow> bool \<Rightarrow> page \<Rightarrow> page" where
  "sendQuickCommand act E sid cmd accept P =
     (if trim cmd = [] then P
      else if isOllamaModelCommandBlocked E sid cmd then P
      else (let (handled, P1) = maybeNudge E sid cmd accept P
            in if handled then P1 else doSendQuickCommand act E sid cmd P1))"

section \<open>doSend\<close>

definition DOUBLE_SEND_GUARD_MS :: int where "DOUBLE_SEND_GUARD_MS = 100"

text \<open>Up to the upload: \<open>None\<close> when a guard returned, else the files to upload.\<close>

definition doSendStart :: "sendEnv \<Rightarrow> int \<Rightarrow> bool \<Rightarrow> page \<Rightarrow> attachFile list option \<times> page" where
  "doSendStart E sid accept P =
     (if nowOf P - pgLastSend P < DOUBLE_SEND_GUARD_MS then (None, P)
      else if sid \<in> pgInFlight P then (None, P)
      else (let P1 = onEnters (cancelDeferredEnter sid) P in
        if isOllamaModelCommandBlocked E sid (buildSendText (pgLine P1)) then (None, P1)
        else if isSelectMenuActive sid (pgStore P1) then (None, P1)
        else (let (handled, P2) = maybeNudge E sid (buildSendText (pgLine P1)) accept P1 in
          if handled then (None, P2)
          else (let P3 = P2\<lparr>pgInFlight := insert sid (pgInFlight P2), pgLastSend := nowOf P2,
                           pgLine := stageLongPastesAsFiles (pgLine P2)\<rparr>
                in (Some (ilAttach (pgLine P3)), P3\<lparr>pgLine := (pgLine P3)\<lparr>ilAttach := []\<rparr>\<rparr>)))))"

text \<open>The Hub's answer for one file: failed, or stored with the text to inject.\<close>

datatype upload = UploadFailed | Stored "jstr option" chatAttach

fun injectsOf :: "upload list \<Rightarrow> jstr list" where
  "injectsOf [] = []"
| "injectsOf (UploadFailed # us) = injectsOf us"
| "injectsOf (Stored i a # us) = (case i of None \<Rightarrow> [] | Some t \<Rightarrow> if t = [] then [] else [t]) @ injectsOf us"

fun storedOf :: "upload list \<Rightarrow> chatAttach list" where
  "storedOf [] = []"
| "storedOf (UploadFailed # us) = storedOf us"
| "storedOf (Stored i a # us) = a # storedOf us"

definition attachMsg :: "chatAttach list \<Rightarrow> msgIn" where
  "attachMsg as = \<lparr>miTs = None, miRole = Some (js ''user''), miKind = Some (js ''attach''), miRaw = Some [],
     miText = None, miNorm = None, miAttach = Some as, miMeta = None\<rparr>"

definition flushed :: "int \<Rightarrow> upload list \<Rightarrow> page \<Rightarrow> page" where
  "flushed sid us P =
     (if storedOf us = [] then P else P\<lparr>pgChat := pushMessage sid (attachMsg (storedOf us)) (pgChat P)\<rparr>)"

definition outgoingText :: "sendEnv \<Rightarrow> page \<Rightarrow> jstr" where
  "outgoingText E P =
     (let t = buildSendText (pgLine P);
          t1 = (if seTrigger E \<noteq> [] \<and> textEndsWithTriggerPhrase (seNfkc E) t (seTrigger E)
                then stripTrailingTriggerPhrase (seNfkc E) t (seTrigger E) else t)
      in normCr t1)"

definition closeApproval ::
  "(int \<Rightarrow> appState \<Rightarrow> appState) \<Rightarrow> int \<Rightarrow> int \<Rightarrow> jstr \<Rightarrow> jstr \<Rightarrow> store \<Rightarrow> store" where
  "closeApproval act now sid rawText textToSend S =
     (let S1 = S\<lparr>stDismissed := (stDismissed S)(sid := False), stLatch := (stLatch S)(sid := None)\<rparr>;
          S2 = consumePrevious sid S1;
          S3 = (case stRaw S2 sid of None \<Rightarrow> S2 | Some c \<Rightarrow> onApp (recordAnsweredMarkerSig sid (coBody c)) S2);
          S4 = maybeSendDirectApprovalConsumed sid rawText textToSend S3
      in bypassApproval act now sid S4)"

text \<open>\<open>chatHistoryCommitOutput\<close>, then the user's message.\<close>

definition recordTurn :: "int \<Rightarrow> jstr \<Rightarrow> chatState \<Rightarrow> chatState" where
  "recordTurn sid rawText C =
     (let C1 = chatHistoryCommitOutput sid C
      in if rawText = [] then C1 else pushMessage sid (userText rawText) C1)"

text \<open>The part of the message that is the text, and whether its Enter is sent separately.\<close>

definition bodyPart :: "sendEnv \<Rightarrow> int \<Rightarrow> jstr \<Rightarrow> page \<Rightarrow> jstr \<times> bool" where
  "bodyPart E sid injectPrefix P =
     (if outgoingText E P = [] \<and> injectPrefix \<noteq> [] then ([13], False)
      else buildBodySubmitPart (providerOn P sid) (outgoingText E P))"

text \<open>The rest of \<open>doSend\<close> once text, prefix and part are known.\<close>

definition dispatchSend ::
  "(int \<Rightarrow> appState \<Rightarrow> appState) \<Rightarrow> sendEnv \<Rightarrow> int \<Rightarrow> jstr \<Rightarrow> jstr \<Rightarrow> jstr \<Rightarrow> bool \<Rightarrow> page \<Rightarrow> page" where
  "dispatchSend act E sid rawText injectPrefix part deferEnter P =
     (let needSplit = (deferEnter \<and> injectPrefix \<noteq> []);
          textToSend = (if needSplit then injectPrefix else injectPrefix @ part);
          P1 = P\<lparr>pgLine := clearInput (pgLine P),
                 pgStore := closeApproval act (nowOf P) sid rawText textToSend (pgStore P),
                 pgChat := recordTurn sid rawText (pgChat P)\<rparr>;
          P2 = sendSubmittedText E sid textToSend P1;
          wait = effectiveDeferredEnterWait P2 sid;
          P3 = (if needSplit
                then onEnters (scheduleAfterOutputSettle sid (length (pgJobs P2)) Returns)
                       (P2\<lparr>pgJobs := pgJobs P2 @ [(sid, part)]\<rparr>)
                else if deferEnter then onEnters (scheduleDeferredEnter sid wait Returns Returns) P2
                else P2)
      in P3\<lparr>pgSweep := scheduleResidueSweep sid rawText deferEnter (pgSweep P3),
            pgInFlight := pgInFlight P3 - {sid}\<rparr>)"

definition doSendFinish ::
  "(int \<Rightarrow> appState \<Rightarrow> appState) \<Rightarrow> sendEnv \<Rightarrow> int \<Rightarrow> upload list \<Rightarrow> page \<Rightarrow> page" where
  "doSendFinish act E sid us P0 =
     (let P = flushed sid us P0; injectPrefix = concat (injectsOf us);
          (part, deferEnter) = bodyPart E sid injectPrefix P
      in dispatchSend act E sid (outgoingText E P) injectPrefix part deferEnter P)"

section \<open>Timers\<close>

text \<open>
  What a fired reservation does to the page: the guarded carriage return, or the second stage of
  a split paste (the text, then the reservation of its carriage return).
\<close>

fun runEvent :: "deEvent \<Rightarrow> page \<Rightarrow> page" where
  "runEvent (EvEnter sid) P = sendText sid [13] P"
| "runEvent (EvAction sid n) P =
     (if length (pgJobs P) \<le> n then P
      else (let P1 = sendText (fst (pgJobs P ! n)) (snd (pgJobs P ! n)) P
            in onEnters (scheduleDeferredEnter sid (effectiveDeferredEnterWait P1 sid) Returns Returns) P1))"
| "runEvent e P = P"

definition firePage :: "int \<Rightarrow> page \<Rightarrow> page" where
  "firePage sid P =
     (let P1 = onEnters (fireEnter sid) P;
          new = drop (length (trace (enters (pgSweep P)))) (trace (enters (pgSweep P1)))
      in fold runEvent new P1)"

text \<open>The page turns to another session: the active session and the input line.\<close>

definition turnPage :: "int \<Rightarrow> page \<Rightarrow> page" where
  "turnPage i P =
     (let (a, L) = turnTo i (activeId (pgSweep P), pgLine P)
      in P\<lparr>pgLine := L, pgSweep := (pgSweep P)\<lparr>activeId := a\<rparr>\<rparr>)"

section \<open>The shape of what is sent\<close>

lemma normCr_no_cr: "13 \<notin> set (normCr s)"
proof (induction s rule: normCr.induct)
  case (2 c cs)
  then show ?case by simp
qed simp

definition crs :: "jstr \<Rightarrow> jstr" where
  "crs t = filter (\<lambda>c. c = 13) t"

lemma crs_simps [simp]: "crs [] = []" "crs (c # t) = (if c = 13 then 13 # crs t else crs t)"
  "crs (s @ t) = crs s @ crs t"
  by (simp_all add: crs_def)

lemma crs_none: "13 \<notin> set t \<Longrightarrow> crs t = []"
  by (auto simp: crs_def filter_empty_conv)

text \<open>
  A message is submitted exactly once and never in its middle: the body that is sent holds no
  carriage return when its Enter is sent separately, and exactly one, at its end, when it is sent
  as keys; a body with line breaks is never sent as keys.
\<close>

theorem one_carriage_return:
  assumes "buildBodySubmitPart provider (normCr t) = (part, deferEnter)"
  shows "if deferEnter then part = bracketed (normCr t) \<and> crs part = []
    else part = normCr t @ [13] \<and> crs part = [13] \<and> 10 \<notin> set (normCr t)"
proof -
  have n: "crs (normCr t) = []" by (rule crs_none) (rule normCr_no_cr)
  have "\<not> str_includes (normCr t) [10] \<Longrightarrow> 10 \<notin> set (normCr t)"
    unfolding includes_iff by (metis append_Cons append_Nil split_list sublist_appendI)
  with assms n show ?thesis
    by (auto simp: buildBodySubmitPart_def bracketed_def pasteStart_def pasteEnd_def split: if_splits)
qed

theorem one_carriage_return_witness:
  "crs (fst (buildBodySubmitPart (js ''claude'') (normCr [97, 13, 10, 98]))) = []"
proof -
  have e: "buildBodySubmitPart (js ''claude'') (normCr [97, 13, 10, 98]) = (bracketed [97, 10, 98], True)"
    by (simp add: buildBodySubmitPart_def)
  from one_carriage_return [OF e] e show ?thesis by simp
qed

text \<open>
  The body itself is not looked at: a pasted text that contains the end mark of a bracketed paste
  ends it early, and what follows reaches the terminal as keys.
\<close>

lemma paste_end_is_not_escaped:
  "fst (buildBodySubmitPart (js ''claude'') (js ''a'' @ pasteEnd @ [10] @ js ''rm''))
     = pasteStart @ js ''a'' @ pasteEnd @ [10] @ js ''rm'' @ pasteEnd"
  by (simp add: buildBodySubmitPart_def bracketed_def pasteEnd_def js_def)

section \<open>doSend delivers the line\<close>

lemma ws_open_hide: "stWsOpen (hideActionBar act i S) = stWsOpen S"
  by (simp add: hideActionBar_def Let_def setConsumedTimer_def onApp_def clearSingleTabState_def
      clearSequentialChoiceState_def resetBgApprovalMisses_def cancelH9Revalidate_def cancelApprovalHintConfirm_def
      clearApprovalOptions_def setApprovalVisible_def sendSessionHint_def notifyApprovalQueue_def emit_def
      cong: if_cong)

lemma ws_open [simp]: "stWsOpen (closeApproval act now sid raw t S) = stWsOpen S"
  by (simp add: closeApproval_def Let_def bypassApproval_def ws_open_hide consumePrevious_def onApp_def emit_def
      maybeSendDirectApprovalConsumed_def sendApprovalConsumed_def split: option.split approvalBody.split)

lemma send_parts [simp]:
  "pgWire (onEnters f P) = pgWire P" "pgLine (onEnters f P) = pgLine P" "pgStore (onEnters f P) = pgStore P"
  "pgJobs (onEnters f P) = pgJobs P" "pgInFlight (onEnters f P) = pgInFlight P" "pgChat (onEnters f P) = pgChat P"
  "pgOverride (onEnters f P) = pgOverride P" "enters (pgSweep (onEnters f P)) = f (enters (pgSweep P))"
  "providerOf (pgSweep (onEnters f P)) = providerOf (pgSweep P)" "pgLastSend (onEnters f P) = pgLastSend P"
  by (simp_all add: onEnters_def)

lemma recordTranscript_parts [simp]:
  "pgWire (recordTranscript E sid t P) = pgWire P" "pgStore (recordTranscript E sid t P) = pgStore P"
  "pgSweep (recordTranscript E sid t P) = pgSweep P" "pgJobs (recordTranscript E sid t P) = pgJobs P"
  "pgLine (recordTranscript E sid t P) = pgLine P" "pgInFlight (recordTranscript E sid t P) = pgInFlight P"
  "pgOverride (recordTranscript E sid t P) = pgOverride P" "pgChat (recordTranscript E sid t P) = pgChat P"
  by (simp_all add: recordTranscript_def Let_def)

lemma sendText_parts [simp]:
  "pgWire (sendText sid t P) = (if stWsOpen (pgStore P) then pgWire P @ [(sid, t)] else pgWire P)"
  "pgStore (sendText sid t P) = pgStore P" "pgSweep (sendText sid t P) = pgSweep P" "pgJobs (sendText sid t P) = pgJobs P"
  "pgLine (sendText sid t P) = pgLine P" "pgInFlight (sendText sid t P) = pgInFlight P"
  "pgOverride (sendText sid t P) = pgOverride P" "pgChat (sendText sid t P) = pgChat P"
  by (simp_all add: sendText_def)

lemma flushed_parts [simp]:
  "pgWire (flushed sid us P) = pgWire P" "pgLine (flushed sid us P) = pgLine P" "pgStore (flushed sid us P) = pgStore P"
  "pgSweep (flushed sid us P) = pgSweep P" "pgJobs (flushed sid us P) = pgJobs P"
  "pgInFlight (flushed sid us P) = pgInFlight P" "pgOverride (flushed sid us P) = pgOverride P"
  by (simp_all add: flushed_def)

lemma sweep_enters [simp]: "enters (scheduleResidueSweep sid t d w) = enters w"
  by (simp add: scheduleResidueSweep_def cancelResidueSweep_def setSweep_def sweepArmIdle_def Let_def)

lemma flushed_text [simp]: "outgoingText E (flushed sid us P) = outgoingText E P"
  "bodyPart E sid x (flushed sid us P) = bodyPart E sid x P"
  by (simp_all add: outgoingText_def bodyPart_def providerOn_def)

lemma dispatch_parts:
  "pgLine (dispatchSend act E sid t x part d P) = clearInput (pgLine P)"
  "pgInFlight (dispatchSend act E sid t x part d P) = pgInFlight P - {sid}"
  "stWsOpen (pgStore (dispatchSend act E sid t x part d P)) = stWsOpen (pgStore P)"
  "pgWire (dispatchSend act E sid t x part d P) =
     (if stWsOpen (pgStore P) then pgWire P @ [(sid, if d \<and> x \<noteq> [] then x else x @ part)] else pgWire P)"
  "pgJobs (dispatchSend act E sid t x part d P) = (if d \<and> x \<noteq> [] then pgJobs P @ [(sid, part)] else pgJobs P)"
  "enters (pgSweep (dispatchSend act E sid t x part d P)) =
     (if d \<and> x \<noteq> [] then scheduleAfterOutputSettle sid (length (pgJobs P)) Returns (enters (pgSweep P))
      else if d then scheduleDeferredEnter sid (effectiveDeferredEnterWait P sid) Returns Returns (enters (pgSweep P))
      else enters (pgSweep P))"
  by (simp_all add: dispatchSend_def Let_def sendSubmittedText_def effectiveDeferredEnterWait_def providerOn_def)

lemma finish_dispatch:
  assumes "bodyPart E sid (concat (injectsOf us)) P = (part, d)"
  shows "doSendFinish act E sid us P = dispatchSend act E sid (outgoingText E P) (concat (injectsOf us)) part d (flushed sid us P)"
  using assms by (simp add: doSendFinish_def Let_def)


text \<open>
  No message is sent twice by a second key press: after a send has started, every further start
  within 100 milliseconds, and for the same session every further start until the send has
  finished, is refused without any effect.
\<close>

theorem send_not_repeated:
  assumes "doSendStart E sid accept P = (Some fs, P1)"
  shows "(\<forall>E' sid' a Q. pgLastSend Q = pgLastSend P1 \<longrightarrow> nowOf Q < nowOf P + 100 \<longrightarrow> doSendStart E' sid' a Q = (None, Q))
    \<and> (\<forall>E' a Q. pgInFlight Q = pgInFlight P1 \<longrightarrow> doSendStart E' sid a Q = (None, Q))"
proof -
  have "pgLastSend P1 = nowOf P" "sid \<in> pgInFlight P1"
    using assms by (auto simp: doSendStart_def Let_def maybeNudge_def nowOf_def onEnters_def cancelDeferredEnter_def
        split: if_splits prod.splits option.splits)
  then show ?thesis by (simp add: doSendStart_def DOUBLE_SEND_GUARD_MS_def)
qed

section \<open>Images before text\<close>



section \<open>Examples\<close>

definition examplePage :: "inputLine \<Rightarrow> page" where
  "examplePage L = \<lparr>pgStore = emptyStore, pgChat = chatInit,
     pgSweep = \<lparr>enters = deInit (\<lambda>_. True) 1000, activeId = Some 1, providerOf = (\<lambda>_. js ''claude''),
       screenOf = (\<lambda>_. []), sweeps = (\<lambda>_. None), cleared = []\<rparr>,
     pgLine = L, pgTrans = (\<lambda>_. None), pgLastSend = 0, pgInFlight = {}, pgNudgeOff = {}, pgOverride = 0,
     pgJobs = [], pgWire = []\<rparr>"

definition exampleEnv :: sendEnv where
  "exampleEnv = \<lparr>seRoute = (\<lambda>_. []), seKnown = (\<lambda>_. True), seMobile = False, seTrigger = [], seNfkc = (\<lambda>t. t)\<rparr>"

definition exampleLine :: inputLine where
  "exampleLine = emptyLine\<lparr>ilValue := js ''fix it'', ilSaved := (\<lambda>_. None)(2 := Some \<lparr>drValue = js ''secret'',
     drPastes = [], drAttach = []\<rparr>)\<rparr>"

definition startedPage :: page where
  "startedPage = snd (doSendStart exampleEnv 1 False (examplePage exampleLine))"

lemmas example_defs = examplePage_def exampleEnv_def exampleLine_def emptyLine_def emptyStore_def emptyApp_def
  deInit_def chatInit_def

lemma started: "doSendStart exampleEnv 1 False (examplePage exampleLine) = (Some [], startedPage)"
  "outgoingText exampleEnv startedPage = js ''fix it''" "stWsOpen (pgStore startedPage)"
  "pgWire startedPage = []" "providerOn startedPage 1 = js ''claude''"
  unfolding startedPage_def
  by (simp_all add: doSendStart_def example_defs nowOf_def DOUBLE_SEND_GUARD_MS_def onEnters_def cancelDeferredEnter_def
      isOllamaModelCommandBlocked_def isSelectMenuActive_def visibleOf_def maybeNudge_def detectAiCliLaunchInShell_def
      isShellProvider_def providerOn_def stageLongPastesAsFiles_def outgoingText_def buildSendText_def js_def Let_def)

lemma fixit: "buildBodySubmitPart (js ''claude'') (js ''fix it'') = (bracketed (js ''fix it''), True)"
  by code_simp


theorem send_not_repeated_witness:
  "doSendStart exampleEnv 1 False startedPage = (None, startedPage)"
  using send_not_repeated [OF started(1)] by blast

text \<open>
  The user sends a text with an image from session 1 and turns to session 2, which has a draft,
  while the image is uploaded. What is sent to session 1 is the draft of session 2, and the text
  of session 1 is not sent.
\<close>

definition withImage :: inputLine where
  "withImage = exampleLine\<lparr>ilAttach := [\<lparr>afName = js ''a.png'', afBytes = [1]\<rparr>]\<rparr>"

definition imageUploaded :: upload where
  "imageUploaded = Stored (Some (js ''@a.png '')) \<lparr>atUrl = None, atRevoked = False\<rparr>"

definition turnedPage :: page where
  "turnedPage = turnPage 2 (snd (doSendStart exampleEnv 1 False (examplePage withImage)))"

lemma turned: "outgoingText exampleEnv turnedPage = js ''secret''" "stWsOpen (pgStore turnedPage)"
  "sessionLive (enters (pgSweep turnedPage)) 1" "pgWire turnedPage = []" "providerOn turnedPage 1 = js ''claude''"
  unfolding turnedPage_def
  by (simp_all add: doSendStart_def withImage_def example_defs nowOf_def DOUBLE_SEND_GUARD_MS_def onEnters_def
      cancelDeferredEnter_def isOllamaModelCommandBlocked_def isSelectMenuActive_def visibleOf_def maybeNudge_def
      detectAiCliLaunchInShell_def isShellProvider_def providerOn_def stageLongPastesAsFiles_def outgoingText_def
      buildSendText_def js_def Let_def turnPage_def turnTo_def saveInputStateFor_def restoreInputStateFor_def)

lemma secret: "buildBodySubmitPart (js ''claude'') (js ''secret'') = (bracketed (js ''secret''), True)"
  by code_simp

lemma turned_part: "bodyPart exampleEnv 1 (js ''@a.png '') turnedPage = (bracketed (js ''secret''), True)"
  using turned secret by (simp add: bodyPart_def js_def)

lemma uploaded: "js ''@a.png '' = concat (injectsOf [imageUploaded])"
  by (simp add: imageUploaded_def js_def)


lemma turning_away_sends_other_draft:
  "pgWire (doSendFinish (\<lambda>_ A. A) exampleEnv 1 [UploadFailed] turnedPage) = [(1, bracketed (js ''secret''))]"
proof -
  have b: "bodyPart exampleEnv 1 (concat (injectsOf [UploadFailed])) turnedPage = (bracketed (js ''secret''), True)"
    using turned secret by (simp add: bodyPart_def)
  show ?thesis by (simp add: finish_dispatch [OF b] dispatch_parts turned)
qed

text \<open>With the connection down the line is cleared although nothing is sent.\<close>

lemma line_lost_when_disconnected:
  assumes "\<not> stWsOpen (pgStore P)"
  shows "pgWire (doSendFinish act E sid us P) = pgWire P" "ilValue (pgLine (doSendFinish act E sid us P)) = []"
proof -
  obtain part d where b: "bodyPart E sid (concat (injectsOf us)) P = (part, d)" by fastforce
  show "pgWire (doSendFinish act E sid us P) = pgWire P" "ilValue (pgLine (doSendFinish act E sid us P)) = []"
    using assms by (simp_all add: finish_dispatch [OF b] dispatch_parts clearInput_def clearAllPastes_def)
qed

end
