(* ===== verification/TermQueue.thy ===== *)
theory TermQueue
  imports DisplayFilters
begin

text \<open>
  The backlog of one terminal (\<open>src/web/src/app/terminal.ts\<close>, \<open>ws-client.ts\<close>): output of a
  session that is not shown, or that follows a resize, waits in \<open>pendingChunks\<close> and is written in
  one piece by \<open>flushPending\<close>; output of a shown session is written at once. The widget calls a
  write's callback later, so a flush is a begin and an end, with a watchdog between them; timers
  and animation frames are events. The theory states what the widget gets: which bytes wait, what
  is dropped, when the order of the stream is kept and when it is not.
\<close>

section \<open>State\<close>

text \<open>
  A \<open>finish\<close> closure is known by its sequence number and by whether it attaches the terminal when
  it is done (\<open>onDrained\<close>).
  \<open>tqDone\<close> are those whose \<open>finished\<close> flag is set, \<open>tqWrites\<close> the writes whose callback is still to
  come, \<open>tqFrames\<close> the requested animation frames. \<open>tqFed\<close> is the log of what was given to
  \<open>writePTYChunk\<close>, \<open>tqShown\<close> what the widget was given, \<open>tqChecks\<close> the calls of
  \<open>scheduleApprovalCheck\<close>.
\<close>

type_synonym closure = "nat \<times> bool"

record termQueue =
  tqNow :: int
  tqPending :: "byte list list"
  tqTotal :: int
  tqFlushing :: bool
  tqSeq :: nat
  tqWatchdog :: "(int \<times> closure) option"
  tqBatchUntil :: int
  tqBatchTimer :: "int option"
  tqFrames :: "bool list"
  tqWrites :: "closure list"
  tqDone :: "nat list"
  tqDisplay :: displayState
  tqFed :: "byte list list"
  tqShown :: "byte list"
  tqChecks :: nat
  tqAttached :: bool

definition TERMINAL_PENDING_MAX_BYTES :: int where "TERMINAL_PENDING_MAX_BYTES = 100 * 1024"
definition TERMINAL_WRITE_FLUSH_WATCHDOG_MS :: int where "TERMINAL_WRITE_FLUSH_WATCHDOG_MS = 5000"
definition LIVE_BATCH_AFTER_RESIZE_MS :: int where "LIVE_BATCH_AFTER_RESIZE_MS = 400"
definition LIVE_BATCH_MAX_BYTES :: int where "LIVE_BATCH_MAX_BYTES = 4 * 1024 * 1024"

definition tqInit :: termQueue where
  "tqInit = \<lparr>tqNow = 0, tqPending = [], tqTotal = 0, tqFlushing = False, tqSeq = 0, tqWatchdog = None,
     tqBatchUntil = 0, tqBatchTimer = None, tqFrames = [], tqWrites = [], tqDone = [],
     tqDisplay = displayInit, tqFed = [], tqShown = [], tqChecks = 0, tqAttached = False\<rparr>"

section \<open>Operations\<close>

definition isLiveOutputBatching :: "termQueue \<Rightarrow> bool" where
  "isLiveOutputBatching T \<longleftrightarrow> tqNow T < tqBatchUntil T"

definition endLiveOutputBatch :: "termQueue \<Rightarrow> termQueue" where
  "endLiveOutputBatch T = T\<lparr>tqBatchTimer := None, tqBatchUntil := 0\<rparr>"

definition beginLiveOutputBatchForResize :: "termQueue \<Rightarrow> termQueue" where
  "beginLiveOutputBatchForResize T =
     T\<lparr>tqBatchUntil := tqNow T + LIVE_BATCH_AFTER_RESIZE_MS,
       tqBatchTimer := Some (tqNow T + LIVE_BATCH_AFTER_RESIZE_MS)\<rparr>"

text \<open>\<open>term.write\<close> through the filters; whether anything was left to write.\<close>

definition writeTo :: "bool \<Rightarrow> provider \<Rightarrow> byte list \<Rightarrow> termQueue \<Rightarrow> bool \<times> termQueue" where
  "writeTo bypass p bs T =
     (let (out, evs, clear, d) = writePTYChunk bypass p (tqDisplay T) bs
      in (out \<noteq> [], T\<lparr>tqDisplay := d, tqFed := tqFed T @ [bs], tqShown := tqShown T @ out\<rparr>))"

text \<open>What \<open>flushPending\<close> does when nothing is left: scroll, look for an approval, attach.\<close>

definition drained :: "bool \<Rightarrow> termQueue \<Rightarrow> termQueue" where
  "drained att T = T\<lparr>tqChecks := tqChecks T + 1, tqAttached := (tqAttached T \<or> att)\<rparr>"

definition finishFlush :: "closure \<Rightarrow> termQueue \<Rightarrow> termQueue" where
  "finishFlush c T =
     (if List.member (tqDone T) (fst c) then T
      else (let T1 = T\<lparr>tqDone := fst c # tqDone T\<rparr> in
        if tqSeq T1 \<noteq> fst c then T1
        else (let T2 = T1\<lparr>tqWatchdog := None, tqFlushing := False\<rparr> in
          if tqPending T2 \<noteq> [] then T2\<lparr>tqFrames := tqFrames T2 @ [snd c]\<rparr>
          else drained (snd c) T2)))"

definition flushPending :: "bool \<Rightarrow> provider \<Rightarrow> bool \<Rightarrow> termQueue \<Rightarrow> termQueue" where
  "flushPending bypass p att T =
     (let chunks = tqPending T; T1 = T\<lparr>tqPending := [], tqTotal := 0\<rparr> in
      if chunks = [] then drained att T1
      else (let c = (tqSeq T1 + 1, att);
                T2 = T1\<lparr>tqSeq := fst c, tqFlushing := True,
                        tqWatchdog := Some (tqNow T1 + TERMINAL_WRITE_FLUSH_WATCHDOG_MS, c)\<rparr>;
                (writing, T3) = writeTo bypass p (concat chunks) T2
            in if writing then T3\<lparr>tqWrites := tqWrites T3 @ [c]\<rparr> else finishFlush c T3))"

fun trimPending :: "int \<Rightarrow> byte list list \<Rightarrow> int \<times> byte list list" where
  "trimPending n (c # d # cs) =
     (if TERMINAL_PENDING_MAX_BYTES < n then trimPending (n - int (length c)) (d # cs)
      else (n, c # d # cs))"
| "trimPending n cs = (n, cs)"

definition queuePendingTerminalChunk :: "bool \<Rightarrow> provider \<Rightarrow> byte list \<Rightarrow> termQueue \<Rightarrow> termQueue" where
  "queuePendingTerminalChunk bypass p bs T =
     (let T1 = T\<lparr>tqPending := tqPending T @ [bs], tqTotal := tqTotal T + int (length bs)\<rparr> in
      if isLiveOutputBatching T1 then
        (if LIVE_BATCH_MAX_BYTES < tqTotal T1 then flushPending bypass p False (endLiveOutputBatch T1) else T1)
      else (let (n, cs) = trimPending (tqTotal T1) (tqPending T1)
            in T1\<lparr>tqTotal := n, tqPending := cs\<rparr>))"

text \<open>A message \<open>pty_data\<close>; \<open>live\<close> is \<open>isLiveRendered\<close>.\<close>

definition arrive :: "bool \<Rightarrow> provider \<Rightarrow> bool \<Rightarrow> byte list \<Rightarrow> termQueue \<Rightarrow> termQueue" where
  "arrive bypass p live bs T =
     (if live \<and> \<not> tqFlushing T \<and> \<not> isLiveOutputBatching T then snd (writeTo bypass p bs T)
      else queuePendingTerminalChunk bypass p bs T)"

section \<open>Events\<close>

datatype tqEvent =
    Arrive bool "byte list"
  | WriteDone          \<comment> \<open>the widget calls the next callback\<close>
  | WatchdogTimer
  | AnimationFrame
  | Resized
  | BatchTimer
  | Flush bool
  | Pass nat           \<comment> \<open>milliseconds\<close>

fun tqStep :: "bool \<Rightarrow> provider \<Rightarrow> tqEvent \<Rightarrow> termQueue \<Rightarrow> termQueue" where
  "tqStep b p (Arrive live bs) T = arrive b p live bs T"
| "tqStep b p WriteDone T =
     (case tqWrites T of [] \<Rightarrow> T | c # cs \<Rightarrow> finishFlush c (T\<lparr>tqWrites := cs\<rparr>))"
| "tqStep b p WatchdogTimer T =
     (case tqWatchdog T of
        Some (due, c) \<Rightarrow> if due \<le> tqNow T then finishFlush c T else T
      | None \<Rightarrow> T)"
| "tqStep b p AnimationFrame T =
     (case tqFrames T of [] \<Rightarrow> T | att # fs \<Rightarrow> flushPending b p att (T\<lparr>tqFrames := fs\<rparr>))"
| "tqStep b p Resized T = beginLiveOutputBatchForResize T"
| "tqStep b p BatchTimer T =
     (case tqBatchTimer T of
        Some due \<Rightarrow> if due \<le> tqNow T then flushPending b p False (endLiveOutputBatch T) else T
      | None \<Rightarrow> T)"
| "tqStep b p (Flush att) T = flushPending b p att T"
| "tqStep b p (Pass n) T = T\<lparr>tqNow := tqNow T + int n\<rparr>"

fun tqRun :: "bool \<Rightarrow> provider \<Rightarrow> tqEvent list \<Rightarrow> termQueue \<Rightarrow> termQueue" where
  "tqRun b p [] T = T"
| "tqRun b p (e # es) T = tqRun b p es (tqStep b p e T)"

lemma tqRun_append: "tqRun b p (es @ fs) T = tqRun b p fs (tqRun b p es T)"
  by (induction es arbitrary: T) auto

section \<open>What waits\<close>

definition sizes :: "byte list list \<Rightarrow> int" where
  "sizes cs = int (sum_list (map length cs))"

lemma sizes_simps [simp]: "sizes [] = 0" "sizes (c # cs) = int (length c) + sizes cs" "sizes (cs @ ds) = sizes cs + sizes ds"
  by (simp_all add: sizes_def)

lemma sizes_nonneg: "0 \<le> sizes cs"
  by (simp add: sizes_def)

text \<open>
  Trimming drops whole chunks from the front, never the last one, and no more than it must.
\<close>

lemma trimPending_drops:
  "n = sizes cs \<Longrightarrow> trimPending n cs = (m, ds) \<Longrightarrow>
    m = sizes ds \<and> (m \<le> TERMINAL_PENDING_MAX_BYTES \<or> length ds = 1) \<and>
    (\<exists>es. cs = es @ ds \<and> (es \<noteq> [] \<longrightarrow> TERMINAL_PENDING_MAX_BYTES < int (length (last es)) + sizes ds))"
proof (induction n cs arbitrary: m ds rule: trimPending.induct)
  case (1 n c d cs)
  show ?case
  proof (cases "TERMINAL_PENDING_MAX_BYTES < n")
    case True
    with 1(2,3) have "n - int (length c) = sizes (d # cs)" "trimPending (n - int (length c)) (d # cs) = (m, ds)" by simp_all
    from 1(1) [OF True this] obtain es where es: "d # cs = es @ ds" "m = sizes ds"
      "m \<le> TERMINAL_PENDING_MAX_BYTES \<or> length ds = 1"
      "es \<noteq> [] \<longrightarrow> TERMINAL_PENDING_MAX_BYTES < int (length (last es)) + sizes ds"
      by blast
    have "TERMINAL_PENDING_MAX_BYTES < int (length (last (c # es))) + sizes ds"
    proof (cases "es = []")
      case True
      with es(1) have "sizes ds = sizes (d # cs)" by simp
      with \<open>TERMINAL_PENDING_MAX_BYTES < n\<close> 1(2) True show ?thesis by simp
    qed (use es(4) in simp)
    with es show ?thesis by (intro conjI exI [of _ "c # es"]) simp_all
  next
    case False
    with 1(2,3) show ?thesis by auto
  qed
qed (auto simp: TERMINAL_PENDING_MAX_BYTES_def)

lemma trimPending_id: "n \<le> TERMINAL_PENDING_MAX_BYTES \<Longrightarrow> trimPending n cs = (n, cs)"
  by (cases "(n, cs)" rule: trimPending.cases) auto

text \<open>The backlog is counted right and bounded; a flush that has begun has a watchdog.\<close>

definition counted :: "termQueue \<Rightarrow> bool" where
  "counted T \<longleftrightarrow> tqTotal T = sizes (tqPending T)
     \<and> (tqTotal T \<le> LIVE_BATCH_MAX_BYTES \<or> length (tqPending T) = 1)"

definition watched :: "termQueue \<Rightarrow> bool" where
  "watched T \<longleftrightarrow>
     (tqFlushing T \<longrightarrow> (\<exists>due att. tqWatchdog T = Some (due, (tqSeq T, att)) \<and> due \<le> tqNow T + 5000)
        \<and> \<not> List.member (tqDone T) (tqSeq T))
     \<and> (\<forall>s \<in> set (tqDone T). s \<le> tqSeq T) \<and> (\<forall>c \<in> set (tqWrites T). fst c \<le> tqSeq T)
     \<and> (\<forall>due c. tqWatchdog T = Some (due, c) \<longrightarrow> fst c \<le> tqSeq T)"

text \<open>What an operation leaves alone.\<close>

lemma writeTo_frame:
  assumes "writeTo b p bs T = (w, U)"
  shows "tqPending U = tqPending T" "tqTotal U = tqTotal T" "tqFlushing U = tqFlushing T" "tqSeq U = tqSeq T"
    "tqWatchdog U = tqWatchdog T" "tqNow U = tqNow T" "tqDone U = tqDone T" "tqFed U = tqFed T @ [bs]"
    "tqBatchUntil U = tqBatchUntil T" "tqWrites U = tqWrites T"
  using assms by (auto simp: writeTo_def Let_def split: prod.splits)

lemma finish_frame [simp]:
  "tqPending (finishFlush c T) = tqPending T" "tqTotal (finishFlush c T) = tqTotal T"
  "tqFed (finishFlush c T) = tqFed T" "tqNow (finishFlush c T) = tqNow T" "tqSeq (finishFlush c T) = tqSeq T"
  "tqBatchUntil (finishFlush c T) = tqBatchUntil T"
  "tqDisplay (finishFlush c T) = tqDisplay T" "tqShown (finishFlush c T) = tqShown T"
  by (simp_all add: finishFlush_def Let_def drained_def)

lemma drained_frame [simp]:
  "tqPending (drained a T) = tqPending T" "tqTotal (drained a T) = tqTotal T" "tqFed (drained a T) = tqFed T"
  "tqFlushing (drained a T) = tqFlushing T" "tqWatchdog (drained a T) = tqWatchdog T" "tqSeq (drained a T) = tqSeq T"
  "tqDone (drained a T) = tqDone T" "tqNow (drained a T) = tqNow T"
  "tqDisplay (drained a T) = tqDisplay T" "tqShown (drained a T) = tqShown T"
  by (simp_all add: drained_def)

lemma counted_cong: "tqPending U = tqPending T \<Longrightarrow> tqTotal U = tqTotal T \<Longrightarrow> counted U = counted T"
  unfolding counted_def by (simp only:)

lemma finish_counted: "counted T \<Longrightarrow> counted (finishFlush c T)"
  using counted_cong [of "finishFlush c T" T] by simp

lemma finish_watched: "watched T \<Longrightarrow> fst c \<le> tqSeq T \<Longrightarrow> watched (finishFlush c T)"
  by (auto simp: watched_def finishFlush_def Let_def drained_def)

lemma write_counted: "writeTo b p bs T = (w, U) \<Longrightarrow> counted T \<Longrightarrow> counted U"
  using counted_cong [of U T] writeTo_frame(1,2) by blast

lemma write_watched:
  assumes "writeTo b p bs T = (w, U)" "watched T"
  shows "watched U"
  using assms(2) unfolding watched_def writeTo_frame [OF assms(1)] .

lemma flush_empties: "tqPending (flushPending b p att T) = [] \<and> tqTotal (flushPending b p att T) = 0"
  by (auto simp: flushPending_def Let_def writeTo_frame split: prod.split)

lemma flush_counted: "counted (flushPending b p att T)"
  by (simp add: counted_def flush_empties LIVE_BATCH_MAX_BYTES_def)

lemma flush_watched:
  assumes w: "watched T"
  shows "watched (flushPending b p att T)"
proof -
  define c where "c = (Suc (tqSeq T), att)"
  define T2 where "T2 = T\<lparr>tqPending := [], tqTotal := 0, tqSeq := fst c, tqFlushing := True,
                        tqWatchdog := Some (tqNow T + TERMINAL_WRITE_FLUSH_WATCHDOG_MS, c)\<rparr>"
  obtain r T3 where r: "writeTo b p (concat (tqPending T)) T2 = (r, T3)" by force
  have "Suc (tqSeq T) \<notin> set (tqDone T)" using w by (auto simp: watched_def)
  then have "watched T2" using w
    by (auto simp: watched_def T2_def c_def TERMINAL_WRITE_FLUSH_WATCHDOG_MS_def)
  then have w3: "watched T3" by (rule write_watched [OF r])
  have l: "tqSeq T3 = fst c" using writeTo_frame(4) [OF r] by (simp add: T2_def)
  have "watched (T3\<lparr>tqWrites := tqWrites T3 @ [c]\<rparr>)" using w3 l by (auto simp: watched_def)
  moreover have "watched (finishFlush c T3)" using w3 l by (simp add: finish_watched)
  moreover have "watched (drained att (T\<lparr>tqPending := [], tqTotal := 0\<rparr>))"
    using w by (auto simp: watched_def drained_def)
  ultimately show ?thesis
    using r unfolding T2_def c_def by (auto simp: flushPending_def Let_def split: prod.splits)
qed

lemma queue_counted:
  assumes c: "counted T"
  shows "counted (queuePendingTerminalChunk b p bs T)"
proof -
  define T1 where "T1 = T\<lparr>tqPending := tqPending T @ [bs], tqTotal := tqTotal T + int (length bs)\<rparr>"
  have l: "tqTotal T1 = sizes (tqPending T1)" using c by (simp add: T1_def counted_def)
  obtain n cs where t: "trimPending (tqTotal T1) (tqPending T1) = (n, cs)" by force
  have "counted (T1\<lparr>tqTotal := n, tqPending := cs\<rparr>)"
    using trimPending_drops [OF l t]
    by (auto simp: counted_def TERMINAL_PENDING_MAX_BYTES_def LIVE_BATCH_MAX_BYTES_def)
  then show ?thesis
    unfolding queuePendingTerminalChunk_def T1_def [symmetric] Let_def
    using t l by (auto simp: flush_counted) (simp add: counted_def)
qed

lemma queue_watched:
  assumes w: "watched T"
  shows "watched (queuePendingTerminalChunk b p bs T)"
proof -
  have "watched (T\<lparr>tqPending := cs, tqTotal := n\<rparr>)" "watched (T\<lparr>tqTotal := n, tqPending := cs\<rparr>)"
    "watched (endLiveOutputBatch (T\<lparr>tqPending := cs, tqTotal := n\<rparr>))" for cs n
    using w by (auto simp: watched_def endLiveOutputBatch_def)
  then show ?thesis
    by (auto simp: queuePendingTerminalChunk_def Let_def flush_watched split: prod.split)
qed

lemma step_counted: "counted T \<Longrightarrow> counted (tqStep b p e T)"
proof (cases e)
  case (Arrive live bs)
  then show "counted T \<Longrightarrow> ?thesis"
    using write_counted [of b p bs T "fst (writeTo b p bs T)"] by (auto simp: arrive_def queue_counted)
next
  case WriteDone
  then show "counted T \<Longrightarrow> ?thesis"
    using counted_cong [of "T\<lparr>tqWrites := _\<rparr>" T] by (auto simp: finish_counted split: list.split)
next
  case Resized
  then show "counted T \<Longrightarrow> ?thesis"
    using counted_cong [of "beginLiveOutputBatchForResize T" T] by (simp add: beginLiveOutputBatchForResize_def)
next
  case (Pass n)
  then show "counted T \<Longrightarrow> ?thesis" using counted_cong [of "T\<lparr>tqNow := _\<rparr>" T] by simp
qed (auto simp: flush_counted finish_counted split: list.split option.split)

lemma step_watched: "watched T \<Longrightarrow> watched (tqStep b p e T)"
proof (cases e)
  case (Arrive live bs)
  then show "watched T \<Longrightarrow> ?thesis"
    using write_watched [of b p bs T "fst (writeTo b p bs T)"] by (auto simp: arrive_def queue_watched)
next
  case WriteDone
  have "tqWrites T = c # cs \<Longrightarrow> watched T \<Longrightarrow> watched (T\<lparr>tqWrites := cs\<rparr>) \<and> fst c \<le> tqSeq T" for c cs
    by (auto simp: watched_def)
  then show "watched T \<Longrightarrow> ?thesis"
    using WriteDone by (auto intro!: finish_watched split: list.split)
next
  case WatchdogTimer
  have "tqWatchdog T = Some (due, c) \<Longrightarrow> watched T \<Longrightarrow> fst c \<le> tqSeq T" for due c
    unfolding watched_def by blast
  then show "watched T \<Longrightarrow> ?thesis"
    using WatchdogTimer by (fastforce intro!: finish_watched split: option.split)
next
  case AnimationFrame
  have "watched T \<Longrightarrow> watched (T\<lparr>tqFrames := fs\<rparr>)" for fs by (simp add: watched_def)
  then show "watched T \<Longrightarrow> ?thesis"
    using AnimationFrame by (auto simp: flush_watched split: list.split)
next
  case BatchTimer
  have "watched T \<Longrightarrow> watched (endLiveOutputBatch T)" by (simp add: watched_def endLiveOutputBatch_def)
  then show "watched T \<Longrightarrow> ?thesis"
    using BatchTimer by (auto simp: flush_watched split: option.split)
next
  case (Flush att)
  then show "watched T \<Longrightarrow> ?thesis" by (simp add: flush_watched)
qed (auto simp: watched_def beginLiveOutputBatchForResize_def)

section \<open>Invariants of runs\<close>

locale queue_invariant =
  fixes b :: bool and p :: provider and Inv :: "termQueue \<Rightarrow> bool"
  assumes step: "Inv T \<Longrightarrow> Inv (tqStep b p e T)"
begin

lemma run: "Inv T \<Longrightarrow> Inv (tqRun b p es T)"
  by (induction es arbitrary: T) (auto intro: step)

end

interpretation backlog: queue_invariant b p counted for b p
  by unfold_locales (rule step_counted)

interpretation flushes: queue_invariant b p watched for b p
  by unfold_locales (rule step_watched)

section \<open>What the widget is given\<close>

lemma writePTYChunks_append:
  "writePTYChunks b p d (cs @ ds) =
     (let (o1, c1, d1) = writePTYChunks b p d cs; (o2, c2, d2) = writePTYChunks b p d1 ds in (o1 @ o2, c1 @ c2, d2))"
  by (induction cs arbitrary: d) (auto simp: Let_def split: prod.splits)

text \<open>The widget got what the filters made of the chunks they were given.\<close>

definition rendered :: "bool \<Rightarrow> provider \<Rightarrow> termQueue \<Rightarrow> bool" where
  "rendered b p T \<longleftrightarrow>
     (\<exists>cl. writePTYChunks b p displayInit (tqFed T) = (tqShown T, cl, tqDisplay T))"

lemma rendered_cong:
  "tqFed U = tqFed T \<Longrightarrow> tqShown U = tqShown T \<Longrightarrow> tqDisplay U = tqDisplay T \<Longrightarrow> rendered b p U = rendered b p T"
  by (simp add: rendered_def)

lemma write_rendered: "rendered b p T \<Longrightarrow> writeTo b p bs T = (w, U) \<Longrightarrow> rendered b p U"
proof -
  assume a: "rendered b p T" "writeTo b p bs T = (w, U)"
  obtain out evs clear d where c: "writePTYChunk b p (tqDisplay T) bs = (out, evs, clear, d)"
    by (cases "writePTYChunk b p (tqDisplay T) bs")
  then have "U = T\<lparr>tqDisplay := d, tqFed := tqFed T @ [bs], tqShown := tqShown T @ out\<rparr>"
    using a(2) by (simp add: writeTo_def)
  with a(1) c show "rendered b p U"
    unfolding rendered_def by (elim exE) (simp add: writePTYChunks_append del: writePTYChunk_def)
qed

lemma flush_rendered:
  assumes "rendered b p T"
  shows "rendered b p (flushPending b p att T)"
proof -
  let ?T2 = "T\<lparr>tqPending := [], tqTotal := 0, tqSeq := Suc (tqSeq T), tqFlushing := True,
     tqWatchdog := Some (tqNow T + TERMINAL_WRITE_FLUSH_WATCHDOG_MS, (Suc (tqSeq T), att))\<rparr>"
  obtain w U where w: "writeTo b p (concat (tqPending T)) ?T2 = (w, U)" by force
  have "rendered b p ?T2" using assms unfolding rendered_def by simp
  from write_rendered [OF this w] have u: "rendered b p U" .
  then have "rendered b p (U\<lparr>tqWrites := cs\<rparr>)" "rendered b p (finishFlush c U)" for cs c
    unfolding rendered_def by simp_all
  moreover have "rendered b p (drained att (T\<lparr>tqPending := [], tqTotal := 0\<rparr>))"
    using assms unfolding rendered_def by simp
  ultimately show ?thesis using w by (simp add: flushPending_def Let_def split: prod.split)
qed

lemma step_rendered:
  assumes "rendered b p T"
  shows "rendered b p (tqStep b p e T)"
proof -
  have f: "rendered b p (flushPending b p att U)" if "tqFed U = tqFed T" "tqShown U = tqShown T" "tqDisplay U = tqDisplay T" for att U
    using assms rendered_cong [OF that] by (simp add: flush_rendered)
  have same: "rendered b p U" if "tqFed U = tqFed T" "tqShown U = tqShown T" "tqDisplay U = tqDisplay T" for U
    using assms rendered_cong [OF that] by simp
  show ?thesis
  proof (cases e)
    case (Arrive live bs)
    have "rendered b p (queuePendingTerminalChunk b p bs T)"
      by (simp add: queuePendingTerminalChunk_def Let_def endLiveOutputBatch_def f same split: prod.split)
    moreover have "rendered b p (snd (writeTo b p bs T))"
      using write_rendered [OF assms, of bs] by (metis prod.collapse)
    ultimately show ?thesis using Arrive by (simp add: arrive_def)
  qed (simp_all add: endLiveOutputBatch_def beginLiveOutputBatchForResize_def f same split: list.split option.split)
qed

interpretation widget: queue_invariant b p "rendered b p" for b p
  by unfold_locales (rule step_rendered)

text \<open>With no cursor-hide stage in between, how the bytes were cut does not show.\<close>

lemma rendered_whole:
  assumes "bypass \<or> p = Grok" "rendered bypass p T"
  shows "tqShown T = fst (writePTYChunk bypass p displayInit (concat (tqFed T)))"
proof -
  obtain cl where 1: "writePTYChunks bypass p displayInit (tqFed T) = (tqShown T, cl, tqDisplay T)"
    using assms(2) unfolding rendered_def by blast
  obtain o2 e2 c2 t2 where 2: "writePTYChunk bypass p displayInit (concat (tqFed T)) = (o2, e2, c2, t2)"
    by (cases "writePTYChunk bypass p displayInit (concat (tqFed T))")
  have "feed_chunks (plainPipe (p = Codex)) (plainState displayInit) (tqFed T)
      = plainPipe (p = Codex) (plainState displayInit) (concat (tqFed T))"
    unfolding plainPipe_def by (rule hub_tail.piped.chunks_eq) (use plainState_init_settled in auto)
  with writePTYChunks_plain [OF assms(1) 1] writePTYChunk_plain [OF assms(1) 2] 2 show ?thesis
    by simp
qed

section \<open>The order of the stream\<close>

text \<open>
  An arrival keeps the order unless it is written while older output still waits; it loses
  nothing unless the backlog is full.
\<close>

definition orderly :: "tqEvent \<Rightarrow> termQueue \<Rightarrow> bool" where
  "orderly e T =
     (case e of
        Arrive live bs \<Rightarrow>
          if live \<and> \<not> tqFlushing T \<and> \<not> isLiveOutputBatching T then tqPending T = []
          else isLiveOutputBatching T \<or> tqTotal T + int (length bs) \<le> TERMINAL_PENDING_MAX_BYTES
      | _ \<Rightarrow> True)"

fun orderlyRun :: "bool \<Rightarrow> provider \<Rightarrow> tqEvent list \<Rightarrow> termQueue \<Rightarrow> bool" where
  "orderlyRun b p [] T = True"
| "orderlyRun b p (e # es) T = (orderly e T \<and> orderlyRun b p es (tqStep b p e T))"

fun arrived :: "tqEvent list \<Rightarrow> byte list" where
  "arrived [] = []"
| "arrived (Arrive live bs # es) = bs @ arrived es"
| "arrived (e # es) = arrived es"

definition streamOf :: "termQueue \<Rightarrow> byte list" where
  "streamOf T = concat (tqFed T) @ concat (tqPending T)"

lemma streamOf_cong: "tqFed U = tqFed T \<Longrightarrow> tqPending U = tqPending T \<Longrightarrow> streamOf U = streamOf T"
  by (simp add: streamOf_def)

lemma flush_stream: "streamOf (flushPending b p att T) = streamOf T"
  by (auto simp: flushPending_def Let_def streamOf_def writeTo_frame split: prod.split)

lemma arrive_stream:
  assumes "orderly (Arrive live bs) T"
  shows "streamOf (arrive b p live bs T) = streamOf T @ bs"
proof (cases "live \<and> \<not> tqFlushing T \<and> \<not> isLiveOutputBatching T")
  case True
  obtain w U where w: "writeTo b p bs T = (w, U)" by force
  with assms True show ?thesis by (simp add: orderly_def arrive_def streamOf_def writeTo_frame [OF w])
next
  case False
  let ?T1 = "T\<lparr>tqPending := tqPending T @ [bs], tqTotal := tqTotal T + int (length bs)\<rparr>"
  have s: "streamOf ?T1 = streamOf T @ bs" "streamOf (endLiveOutputBatch ?T1) = streamOf T @ bs"
    "streamOf (T\<lparr>tqTotal := n, tqPending := tqPending T @ [bs]\<rparr>) = streamOf T @ bs" for n
    by (simp_all add: streamOf_def endLiveOutputBatch_def)
  have "isLiveOutputBatching ?T1 = isLiveOutputBatching T" by (simp add: isLiveOutputBatching_def)
  with assms False s show ?thesis
    by (auto simp: orderly_def arrive_def queuePendingTerminalChunk_def Let_def flush_stream trimPending_id)
qed

lemma step_stream: "orderly e T \<Longrightarrow> streamOf (tqStep b p e T) = streamOf T @ arrived [e]"
proof (cases e)
  case (Arrive live bs)
  then show "orderly e T \<Longrightarrow> ?thesis" by (simp add: arrive_stream)
qed (simp_all add: flush_stream streamOf_def endLiveOutputBatch_def beginLiveOutputBatchForResize_def
      flush_stream [unfolded streamOf_def] split: list.split option.split)

lemma arrived_Cons: "arrived (e # es) = arrived [e] @ arrived es"
  by (cases e) simp_all

lemma run_stream: "orderlyRun b p es T \<Longrightarrow> streamOf (tqRun b p es T) = streamOf T @ arrived es"
proof (induction es arbitrary: T)
  case (Cons e es)
  then show ?case by (simp add: step_stream arrived_Cons [of e es])
qed simp

lemma streamOf_init: "streamOf tqInit = []"
  by (simp add: streamOf_def tqInit_def)

section \<open>Properties\<close>

text \<open>
  C23: Terminal output reaches the widget complete and in order: as long as no output of a shown
  session arrives while older output still waits, and the backlog of a hidden one stays within
  100 KiB, what the filters were given followed by what still waits is exactly what arrived; and
  without the cursor-hide stage the widget shows what it would show of the unbroken stream.
\<close>

theorem output_in_order:
  assumes "orderlyRun bypass p es tqInit" "R = tqRun bypass p es tqInit"
  shows "concat (tqFed R) @ concat (tqPending R) = arrived es
    \<and> (bypass \<or> p = Grok \<longrightarrow> tqShown R = fst (writePTYChunk bypass p displayInit (concat (tqFed R))))"
proof -
  have "streamOf R = arrived es"
    using run_stream [OF assms(1)] assms(2) by (simp add: streamOf_init)
  moreover have "rendered bypass p tqInit" by (simp add: rendered_def tqInit_def)
  then have "rendered bypass p R" unfolding assms(2) by (rule widget.run)
  ultimately show ?thesis using rendered_whole by (simp add: streamOf_def)
qed

text \<open>A session in the background, shown, then printing while its backlog is being written.\<close>

definition shownRun :: "tqEvent list" where
  "shownRun = [Arrive False [72], Arrive False [105], Flush True, Arrive True [33], WriteDone, AnimationFrame,
     WriteDone, Arrive True [10]]"

theorem output_in_order_witness:
  "concat (tqFed (tqRun True Codex shownRun tqInit)) @ concat (tqPending (tqRun True Codex shownRun tqInit))
     = [72, 105, 33, 10]"
proof -
  have "orderlyRun True Codex shownRun tqInit" by code_simp
  from output_in_order [OF this refl] show ?thesis by (simp add: shownRun_def)
qed

text \<open>
  C27: The backlog of a terminal is counted right and bounded: after any run it holds at most 4 MiB,
  or a single chunk that is larger by itself.
\<close>

theorem backlog_bounded:
  "tqTotal (tqRun bypass p es tqInit) = int (sum_list (map length (tqPending (tqRun bypass p es tqInit))))
   \<and> (tqTotal (tqRun bypass p es tqInit) \<le> 4 * 1024 * 1024 \<or> length (tqPending (tqRun bypass p es tqInit)) = 1)"
proof -
  have "counted tqInit" by (simp add: counted_def tqInit_def LIVE_BATCH_MAX_BYTES_def)
  then have "counted (tqRun bypass p es tqInit)" by (rule backlog.run)
  then show ?thesis unfolding counted_def sizes_def LIVE_BATCH_MAX_BYTES_def .
qed

text \<open>
  A flush cannot block a terminal: whatever happened before, a flush that has begun is over
  five seconds later at the latest, also when the widget never calls back, so output that follows
  is written again.
\<close>

theorem flush_never_sticks:
  assumes "tqFlushing (tqRun bypass p es tqInit)"
  shows "\<not> tqFlushing (tqRun bypass p (es @ [Pass 5000, WatchdogTimer]) tqInit)"
proof -
  let ?R = "tqRun bypass p es tqInit"
  have "watched tqInit" by (simp add: watched_def tqInit_def)
  then have "watched ?R" by (rule flushes.run)
  with assms obtain due att where "tqWatchdog ?R = Some (due, (tqSeq ?R, att))" "due \<le> tqNow ?R + 5000"
    "\<not> List.member (tqDone ?R) (tqSeq ?R)"
    unfolding watched_def by blast
  then show ?thesis by (simp add: tqRun_append finishFlush_def drained_def Let_def)
qed

theorem flush_never_sticks_witness:
  "\<not> tqFlushing (tqRun True Codex ([Arrive False [72], Flush True] @ [Pass 5000, WatchdogTimer]) tqInit)"
proof -
  have "tqFlushing (tqRun True Codex [Arrive False [72], Flush True] tqInit)" by code_simp
  then show ?thesis by (rule flush_never_sticks)
qed

text \<open>
  The backlog of a hidden session keeps the newest chunks: whole chunks are dropped from the
  front, and the last one dropped would not have fitted.
\<close>

lemma hidden_arrivals:
  assumes "tqBatchUntil T \<le> tqNow T" "tqTotal T = sizes (tqPending T)"
  shows "\<exists>ds. tqPending T @ cs = ds @ tqPending (tqRun b p (map (Arrive False) cs) T)
    \<and> (ds \<noteq> [] \<longrightarrow> TERMINAL_PENDING_MAX_BYTES < int (length (last ds)) + sizes (tqPending (tqRun b p (map (Arrive False) cs) T)))"
  using assms
proof (induction cs arbitrary: T)
  case (Cons c cs)
  let ?U = "queuePendingTerminalChunk b p c T"
  obtain n qs where t: "trimPending (tqTotal T + int (length c)) (tqPending T @ [c]) = (n, qs)" by force
  from trimPending_drops [OF _ t] Cons.prems obtain es where es: "tqPending T @ [c] = es @ qs" "n = sizes qs"
    "es \<noteq> [] \<longrightarrow> TERMINAL_PENDING_MAX_BYTES < int (length (last es)) + sizes qs"
    by auto
  have u: "?U = T\<lparr>tqPending := qs, tqTotal := n\<rparr>"
    using Cons.prems(1) t by (simp add: queuePendingTerminalChunk_def isLiveOutputBatching_def)
  let ?R = "tqRun b p (map (Arrive False) cs) ?U"
  from Cons.IH [of ?U] Cons.prems(1) es(2) u obtain ds where ds: "qs @ cs = ds @ tqPending ?R"
    "ds \<noteq> [] \<longrightarrow> TERMINAL_PENDING_MAX_BYTES < int (length (last ds)) + sizes (tqPending ?R)"
    by auto
  have "tqPending T @ c # cs = es @ qs @ cs" using es(1) by (metis append.assoc append_Cons append_Nil)
  then have "tqPending T @ c # cs = (es @ ds) @ tqPending ?R" using ds(1) by simp
  moreover have "es @ ds \<noteq> [] \<longrightarrow> TERMINAL_PENDING_MAX_BYTES < int (length (last (es @ ds))) + sizes (tqPending ?R)"
  proof (cases "ds = []")
    case True
    with ds(1) have "sizes qs \<le> sizes (tqPending ?R)" using sizes_nonneg [of cs] by (metis append_Nil le_add_same_cancel1 sizes_simps(3))
    with True es(3) show ?thesis by auto
  qed (use ds(2) in simp)
  ultimately show ?case by (auto simp: arrive_def)
qed simp

text \<open>
  When a flush ends with output left, the next flush waits for an animation frame but the terminal
  no longer counts as flushing: output that arrives before the frame is written first. The same
  happens after a resize, between the end of the batch and its timer.
\<close>

lemma output_overtakes_backlog:
  "tqFed (tqRun True Codex [Arrive False [65], Flush True, Arrive True [66], WriteDone, Arrive True [67], AnimationFrame] tqInit)
     = [[65], [67], [66]]"
  by code_simp

lemma output_overtakes_batch:
  "tqFed (tqRun True Codex [Resized, Arrive True [65], Pass 400, Arrive True [66], BatchTimer] tqInit) = [[66], [65]]"
  by code_simp

end
