(* ===== verification/Utf8Stream.thy ===== *)
theory Utf8Stream
  imports Utf8 StreamFilter
begin

text \<open>
  The decoder a terminal keeps for its output (\<open>textDecoder.decode(bytes, { stream: true })\<close>): a
  sequence that is not complete at the end of a chunk waits for the next one, and a byte-order mark
  is dropped at the start of the stream only. Decoding does not depend on how the stream is cut,
  and what the encoder wrote is read back.
\<close>

section \<open>Decoding in chunks\<close>

fun u8run :: "u8state \<Rightarrow> byte list \<Rightarrow> int list \<times> u8state" where
  "u8run st [] = ([], st)"
| "u8run st (b # bs) =
     (let (out, st1) = u8byte st (uint b); (out', st2) = u8run st1 bs in (out @ out', st2))"

text \<open>The state: the sequence read so far, and whether the start of the stream has been seen.\<close>

type_synonym decoder = "u8state \<times> bool"

definition freshDecoder :: decoder where "freshDecoder = (u8start, False)"

definition dropFirstBom :: "bool \<Rightarrow> int list \<Rightarrow> int list \<times> bool" where
  "dropFirstBom seen cps = (if cps = [] \<or> seen then (cps, seen) else (drop_bom cps, True))"

definition decodeUnits :: "decoder \<Rightarrow> byte list \<Rightarrow> jstr \<times> decoder" where
  "decodeUnits d bs =
     (let (cps, st) = u8run (fst d) bs; (out, seen) = dropFirstBom (snd d) cps
      in (concat (map units_of_cp out), (st, seen)))"

lemma u8run_append:
  "u8run st (xs @ ys) = (let (o1, s1) = u8run st xs; (o2, s2) = u8run s1 ys in (o1 @ o2, s2))"
  by (induction st xs rule: u8run.induct) (auto simp: Let_def split: prod.splits)

interpretation decoder: chunk_filter decodeUnits "\<lambda>_. True"
proof
  fix d :: decoder
  show "decodeUnits d [] = ([], d)"
    by (simp add: decodeUnits_def dropFirstBom_def)
next
  fix d :: decoder and xs ys
  show "decodeUnits d (xs @ ys) =
      (let (o1, d1) = decodeUnits d xs; (o2, d2) = decodeUnits d1 ys in (o1 @ o2, d2))"
    by (auto simp: decodeUnits_def u8run_append dropFirstBom_def drop_bom_def Let_def
        split: prod.splits list.splits)
qed simp

section \<open>What the encoder writes\<close>

text \<open>Strings without unpaired surrogates.\<close>

fun paired :: "jstr \<Rightarrow> bool" where
  "paired [] = True"
| "paired [c] = (\<not> is_high c \<and> \<not> is_low c \<and> 0 \<le> c \<and> c < 65536)"
| "paired (c # d # cs) =
     (if is_high c then is_low d \<and> paired cs
      else \<not> is_low c \<and> 0 \<le> c \<and> c < 65536 \<and> paired (d # cs))"

definition scalar :: "int \<Rightarrow> bool" where
  "scalar c \<longleftrightarrow> 0 \<le> c \<and> c < 1114112 \<and> (c < 55296 \<or> 57343 < c)"

lemma uint_mk_byte: "0 \<le> k \<Longrightarrow> k < 256 \<Longrightarrow> uint (mk_byte k) = k"
  by (simp add: mk_byte_def uint_word_of_int)

lemma u8_one: "0 \<le> c \<Longrightarrow> c < 128 \<Longrightarrow> u8run u8start (bytes_of_cp c) = ([c], u8start)"
  by (simp add: bytes_of_cp_def uint_mk_byte u8start_def u8lead_def)

lemma u8_lead:
  "2 \<le> k \<Longrightarrow> k < 32 \<Longrightarrow> u8byte u8start (192 + k) = ([], U8 1 k 128 191)"
  "0 \<le> k \<Longrightarrow> k < 16 \<Longrightarrow> u8byte u8start (224 + k)
     = ([], U8 2 k (if k = 0 then 160 else 128) (if k = 13 then 159 else 191))"
  "0 \<le> k \<Longrightarrow> k < 5 \<Longrightarrow> u8byte u8start (240 + k)
     = ([], U8 3 k (if k = 0 then 144 else 128) (if k = 4 then 143 else 191))"
  by (auto simp: u8start_def u8lead_def)

lemma u8_next:
  assumes "lo \<le> 128 + m" "128 + m \<le> hi"
  shows "u8byte (U8 (Suc 0) cp lo hi) (128 + m) = ([cp * 64 + m], u8start)"
    and "u8byte (U8 (Suc (Suc n)) cp lo hi) (128 + m) = ([], U8 (Suc n) (cp * 64 + m) 128 191)"
  using assms by simp_all

lemma u8_seq2:
  assumes "2 \<le> k" "k < 32" "0 \<le> m" "m < 64"
  shows "u8run u8start [mk_byte (192 + k), mk_byte (128 + m)] = ([k * 64 + m], u8start)"
  using assms u8_lead(1) [of k] u8_next(1) [of 128 m 191 k] by (simp add: uint_mk_byte del: u8byte.simps)

lemma u8_seq3:
  assumes "0 \<le> k" "k < 16" "0 \<le> l" "l < 64" "0 \<le> m" "m < 64" "k = 0 \<Longrightarrow> 32 \<le> l" "k = 13 \<Longrightarrow> l < 32"
  shows "u8run u8start [mk_byte (224 + k), mk_byte (128 + l), mk_byte (128 + m)] = ([(k * 64 + l) * 64 + m], u8start)"
proof -
  define lo hi where "lo = (if k = 0 then 160 else (128 :: int))" and "hi = (if k = 13 then 159 else (191 :: int))"
  have "lo \<le> 128 + l" "128 + l \<le> hi" using assms by (auto simp: lo_def hi_def)
  moreover have "u8byte u8start (224 + k) = ([], U8 2 k lo hi)"
    using assms u8_lead(2) [of k] by (simp add: lo_def hi_def)
  ultimately show ?thesis
    using assms(1-6) u8_next(2) [of lo l hi 0 k] u8_next(1) [of 128 m 191 "k * 64 + l"]
    by (simp add: uint_mk_byte numeral_2_eq_2 del: u8byte.simps)
qed

lemma u8_seq4:
  assumes "0 \<le> k" "k < 5" "0 \<le> j" "j < 64" "0 \<le> l" "l < 64" "0 \<le> m" "m < 64" "k = 0 \<Longrightarrow> 16 \<le> j" "k = 4 \<Longrightarrow> j < 16"
  shows "u8run u8start [mk_byte (240 + k), mk_byte (128 + j), mk_byte (128 + l), mk_byte (128 + m)]
     = ([((k * 64 + j) * 64 + l) * 64 + m], u8start)"
proof -
  define lo hi where "lo = (if k = 0 then 144 else (128 :: int))" and "hi = (if k = 4 then 143 else (191 :: int))"
  have "lo \<le> 128 + j" "128 + j \<le> hi" using assms by (auto simp: lo_def hi_def)
  moreover have "u8byte u8start (240 + k) = ([], U8 3 k lo hi)"
    using assms u8_lead(3) [of k] by (simp add: lo_def hi_def)
  ultimately show ?thesis
    using assms(1-8) u8_next(2) [of lo j hi 1 k] u8_next(2) [of 128 l 191 0 "k * 64 + j"]
      u8_next(1) [of 128 m 191 "(k * 64 + j) * 64 + l"]
    by (simp add: uint_mk_byte numeral_3_eq_3 del: u8byte.simps)
qed

lemma digits64:
  "(c div 4096 * 64 + c div 64 mod 64) * 64 + c mod 64 = (c :: int)"
  "((c div 262144 * 64 + c div 4096 mod 64) * 64 + c div 64 mod 64) * 64 + c mod 64 = c"
proof -
  have "c div 4096 = c div 64 div 64" "c div 262144 = c div 64 div 64 div 64"
    using zdiv_zmult2_eq [of 64 c 64] zdiv_zmult2_eq [of 64 "c div 64" 64] zdiv_zmult2_eq [of 4096 c 64] by simp_all
  then show "(c div 4096 * 64 + c div 64 mod 64) * 64 + c mod 64 = (c :: int)"
    "((c div 262144 * 64 + c div 4096 mod 64) * 64 + c div 64 mod 64) * 64 + c mod 64 = c"
    by (simp_all add: div_mult_mod_eq)
qed

lemma middle_digit: "c div 64 mod 64 = c div 64 - 64 * (c div 4096)" "64 * (c div 64) \<le> c" "c < 64 * (c div 64) + (64 :: int)"
proof -
  have "c div 4096 = c div 64 div 64" using zdiv_zmult2_eq [of 64 c 64] by simp
  then show "c div 64 mod 64 = c div 64 - 64 * (c div 4096)" by (simp add: minus_mult_div_eq_mod)
  show "64 * (c div 64) \<le> c" "c < 64 * (c div 64) + 64" by presburger+
qed

lemma u8_scalar:
  assumes "scalar c"
  shows "u8run u8start (bytes_of_cp c) = ([c], u8start)"
proof -
  consider "0 \<le> c" "c < 128" | "128 \<le> c" "c < 2048" | "2048 \<le> c" "c < 65536" "c < 55296 \<or> 57343 < c"
    | "65536 \<le> c" "c < 1114112"
    using assms unfolding scalar_def by linarith
  then show ?thesis
  proof cases
    case 1
    then show ?thesis by (rule u8_one)
  next
    case 2
    then have "2 \<le> c div 64" "c div 64 < 32" by presburger+
    with 2 u8_seq2 [of "c div 64" "c mod 64"] show ?thesis by (simp add: bytes_of_cp_def)
  next
    case 3
    have "0 \<le> c div 4096" "c div 4096 < 16" "c div 4096 = 0 \<Longrightarrow> 32 \<le> c div 64 mod 64"
      "c div 4096 = 13 \<Longrightarrow> c div 64 mod 64 < 32"
      using 3 middle_digit [of c] by (linarith | presburger)+
    with 3 u8_seq3 [of "c div 4096" "c div 64 mod 64" "c mod 64", unfolded digits64(1)] show ?thesis
      by (simp add: bytes_of_cp_def del: u8run.simps)
  next
    case 4
    have m: "c div 4096 mod 64 = c div 4096 - 64 * (c div 262144)"
      using zdiv_zmult2_eq [of 64 "c div 4096" 64] zdiv_zmult2_eq [of 64 c 4096]
      by (simp add: minus_mult_div_eq_mod [symmetric] zdiv_zmult2_eq [symmetric])
    have "4096 * (c div 4096) \<le> c" "c < 4096 * (c div 4096) + 4096" by presburger+
    with 4 m have "0 \<le> c div 262144" "c div 262144 < 5" "c div 262144 = 0 \<Longrightarrow> 16 \<le> c div 4096 mod 64"
      "c div 262144 = 4 \<Longrightarrow> c div 4096 mod 64 < 16"
      by (linarith | presburger)+
    with 4 u8_seq4 [of "c div 262144" "c div 4096 mod 64" "c div 64 mod 64" "c mod 64", unfolded digits64(2)] show ?thesis
      by (simp add: bytes_of_cp_def del: u8run.simps)
  qed
qed

lemma u8_scalars: "\<forall>c \<in> set cps. scalar c \<Longrightarrow> u8run u8start (concat (map bytes_of_cp cps)) = (cps, u8start)"
  by (induction cps) (auto simp: u8run_append u8_scalar)

lemma paired_code_points: "paired s \<Longrightarrow> (\<forall>c \<in> set (code_points s). scalar c) \<and> concat (map units_of_cp (code_points s)) = s"
proof (induction s rule: paired.induct)
  case (2 c)
  then show ?case by (auto simp: scalar_def units_of_cp_def is_high_def is_low_def)
next
  case (3 c d cs)
  show ?case
  proof (cases "is_high c")
    case True
    define x where "x = 65536 + (c - 55296) * 1024 + (d - 56320)"
    have b: "55296 \<le> c" "c \<le> 56319" "56320 \<le> d" "d \<le> 57343"
      using 3 True by (auto simp: is_high_def is_low_def)
    have x: "x - 65536 = (d - 56320) + (c - 55296) * 1024" by (simp add: x_def)
    have "55296 + (x - 65536) div 1024 = c" "56320 + (x - 65536) mod 1024 = d"
      unfolding x using b by (simp_all only: div_mult_self1 mod_mult_self1) (simp_all add: div_pos_pos_trivial mod_pos_pos_trivial)
    moreover have "65536 \<le> x" "x < 1114112" using b unfolding x_def by auto
    ultimately have "units_of_cp x = [c, d]" "scalar x" by (simp_all add: units_of_cp_def scalar_def)
    with 3 True show ?thesis by (simp add: x_def)
  next
    case False
    with 3 have "scalar c" "units_of_cp c = [c]" by (auto simp: scalar_def units_of_cp_def is_high_def is_low_def)
    with 3 False show ?thesis by simp
  qed
qed simp

lemma u8run_encode: "paired s \<Longrightarrow> u8run u8start (utf8_encode s) = (code_points s, u8start)"
  using paired_code_points [of s] by (simp add: utf8_encode_def u8_scalars)

text \<open>A chunk that starts and ends between characters is read as it was written.\<close>

lemma decode_seen:
  "paired s \<Longrightarrow> decodeUnits (u8start, True) (utf8_encode s) = (s, (u8start, True))"
  using paired_code_points [of s] by (simp add: decodeUnits_def u8run_encode dropFirstBom_def)



end
