(* ===== verification/TextUtil.thy ===== *)
theory TextUtil
  imports ChatText SendInput
begin

text \<open>
  The text functions of \<open>src/web/src/app/util.ts\<close> that many pages use: escaping for HTML (and the
  second implementation of it in \<open>chat-payload.ts\<close>), the clean-up of copied terminal text, and the
  elapsed time of a session card.
\<close>

section \<open>Escaping for HTML\<close>

text \<open>\<open>s.replace(/c/g, r)\<close> for a character.\<close>

definition replaceChar :: "cu \<Rightarrow> jstr \<Rightarrow> jstr \<Rightarrow> jstr" where
  "replaceChar c r s = concat (map (\<lambda>x. if x = c then r else [x]) s)"

definition escapeHtml :: "jstr \<Rightarrow> jstr" where
  "escapeHtml s =
     replaceChar 39 (js ''&#39;'') (replaceChar 34 (js ''&quot;'') (replaceChar 62 (js ''&gt;'')
       (replaceChar 60 (js ''&lt;'') (replaceChar 38 (js ''&amp;'') s))))"

definition entityOf :: "cu \<Rightarrow> jstr" where
  "entityOf c =
     (if c = 38 then js ''&amp;'' else if c = 60 then js ''&lt;'' else if c = 62 then js ''&gt;''
      else if c = 34 then js ''&quot;'' else if c = 39 then js ''&#39;'' else [c])"

definition escapeHtmlAtOnce :: "jstr \<Rightarrow> jstr" where
  "escapeHtmlAtOnce s = concat (map entityOf s)"

section \<open>Copied text\<close>

definition blankOrTab :: "cu \<Rightarrow> bool" where
  "blankOrTab c \<longleftrightarrow> c = 32 \<or> c = 9"

definition cutEnd :: "jstr \<Rightarrow> jstr" where
  "cutEnd l = rev (dropWhile blankOrTab (rev l))"

definition isBlank :: "jstr \<Rightarrow> bool" where
  "isBlank l \<longleftrightarrow> trim l = []"

definition dropBlankEnds :: "jstr list \<Rightarrow> jstr list" where
  "dropBlankEnds ls = rev (dropWhile isBlank (rev (dropWhile isBlank ls)))"

definition indentOf :: "jstr \<Rightarrow> nat" where
  "indentOf l = length (takeWhile blankOrTab l)"

definition minIndent :: "jstr list \<Rightarrow> nat" where
  "minIndent ls =
     (case map indentOf (filter (\<lambda>l. \<not> isBlank l) ls) of [] \<Rightarrow> 0 | n # ns \<Rightarrow> fold min ns n)"

definition cleanLines :: "jstr list \<Rightarrow> jstr list" where
  "cleanLines ls0 =
     (let ls = dropBlankEnds (map cutEnd ls0); n = minIndent ls in
      if n \<le> 0 then ls else map (\<lambda>l. if isBlank l then [] else drop n l) ls)"

definition cleanCopiedLines :: "jstr list \<Rightarrow> jstr" where
  "cleanCopiedLines ls = join [10] (cleanLines ls)"

definition cleanCopiedText :: "jstr \<Rightarrow> jstr" where
  "cleanCopiedText s = cleanCopiedLines (split_on 10 (normCr s))"

definition cleanOneLineText :: "jstr \<Rightarrow> jstr" where
  "cleanOneLineText s = join [32] (filter (\<lambda>l. l \<noteq> []) (map trim (split_on 10 (normCr s))))"

section \<open>Elapsed time\<close>

text \<open>\<open>startedMs\<close> is \<open>new Date(isoStr).getTime()\<close>, \<open>None\<close> when it is not a date.\<close>

definition pad2 :: "int \<Rightarrow> jstr" where
  "pad2 n = (let s = num_str n in replicate (2 - length s) 48 @ s)"

definition formatStartedAt :: "int option \<Rightarrow> int \<Rightarrow> jstr" where
  "formatStartedAt startedMs nowMs =
     (case startedMs of
        None \<Rightarrow> []
      | Some t \<Rightarrow>
          (let elapsed = max 0 ((nowMs - t) div 1000); s = elapsed mod 60; m = elapsed div 60 mod 60;
               h = elapsed div 3600
           in if 0 < h then js ''['' @ num_str h @ js '':'' @ pad2 m @ js '':'' @ pad2 s @ js '']''
              else js ''['' @ pad2 m @ js '':'' @ pad2 s @ js '']''))"

section \<open>Escaped text is inert\<close>

lemma replaceChar_simps [simp]:
  "replaceChar c r [] = []" "replaceChar c r (x # s) = (if x = c then r else [x]) @ replaceChar c r s"
  "replaceChar c r (s @ t) = replaceChar c r s @ replaceChar c r t"
  by (simp_all add: replaceChar_def)

lemma escape_agree: "escapeHtml s = escapeHtmlAtOnce s"
proof (induction s)
  case (Cons c s)
  have "escapeHtml (c # s) = escapeHtml [c] @ escapeHtml s" by (simp add: escapeHtml_def)
  moreover have "escapeHtml [c] = entityOf c" by (simp add: escapeHtml_def entityOf_def js_def)
  ultimately show ?case using Cons by (simp add: escapeHtmlAtOnce_def)
qed (simp add: escapeHtml_def escapeHtmlAtOnce_def)

text \<open>How a browser reads the five entities back; \<open>&\<close> that starts none of them stays.\<close>

function unescapeHtml :: "jstr \<Rightarrow> jstr" where
  "unescapeHtml [] = []"
| "unescapeHtml (c # s) =
     (if starts_with (js ''&amp;'') (c # s) then 38 # unescapeHtml (drop 4 s)
      else if starts_with (js ''&lt;'') (c # s) then 60 # unescapeHtml (drop 3 s)
      else if starts_with (js ''&gt;'') (c # s) then 62 # unescapeHtml (drop 3 s)
      else if starts_with (js ''&quot;'') (c # s) then 34 # unescapeHtml (drop 5 s)
      else if starts_with (js ''&#39;'') (c # s) then 39 # unescapeHtml (drop 4 s)
      else c # unescapeHtml s)"
  by pat_completeness auto
termination by (relation "measure length") auto

lemma unescape_entity: "unescapeHtml (entityOf c @ s) = c # unescapeHtml s"
  by (auto simp: entityOf_def js_def)

text \<open>
  Escaped text is harmless and loses nothing: both implementations agree, the result holds no
  angle bracket and no quote, so it cannot end the element or the attribute it is put in, and
  reading its entities back gives the text.
\<close>

theorem escape_is_inert:
  "escapeHtml s = escapeHtmlAtOnce s \<and> set (escapeHtml s) \<inter> {60, 62, 34, 39} = {}
   \<and> unescapeHtml (escapeHtml s) = s"
proof -
  have "set (escapeHtmlAtOnce s) \<inter> {60, 62, 34, 39} = {}"
    by (auto simp: escapeHtmlAtOnce_def entityOf_def js_def split: if_splits)
  moreover have "unescapeHtml (escapeHtmlAtOnce s) = s"
    by (induction s) (simp_all add: escapeHtmlAtOnce_def unescape_entity)
  ultimately show ?thesis by (simp add: escape_agree)
qed

section \<open>Cleaned text\<close>

lemma normCr_id: "13 \<notin> set s \<Longrightarrow> normCr s = s"
  by (induction s) auto

lemma ink_normCr [simp]: "ink (normCr s) = ink s"
proof (induction s rule: normCr.induct)
  case (2 c cs)
  have "ink (if cs \<noteq> [] \<and> hd cs = 10 then tl cs else cs) = ink cs" by (cases cs) auto
  with 2 show ?case by (cases "c = 13") auto
qed simp

lemma ink_join: "ink [d] = [] \<Longrightarrow> ink (join [d] ls) = concat (map ink ls)"
  by (induction "[d]" ls rule: join.induct) (simp_all split: if_splits)

lemma ink_split: "concat (map ink (split_on 10 s)) = ink s"
  using ink_join [of 10 "split_on 10 s"] by (simp add: join_split_on)

lemma blankOrTab_ws: "blankOrTab c \<Longrightarrow> is_ws c"
  by (auto simp: blankOrTab_def)

lemma ink_dropWhile: "(\<And>c. P c \<Longrightarrow> is_ws c) \<Longrightarrow> ink (dropWhile P s) = ink s"
  by (induction s) auto

lemma ink_rev: "ink (rev s) = rev (ink s)"
  by (simp add: ink_def rev_filter)

lemma ink_cutEnd [simp]: "ink (cutEnd l) = ink l"
  by (simp add: cutEnd_def ink_rev ink_dropWhile blankOrTab_ws)

lemma cutEnd_idem [simp]: "cutEnd (cutEnd l) = cutEnd l"
  by (simp add: cutEnd_def)

lemma isBlank_ink: "isBlank l \<longleftrightarrow> ink l = []"
  by (simp add: isBlank_def ink_eq_Nil_iff)

lemma ink_blank_prefix: "n \<le> indentOf l \<Longrightarrow> ink (drop n l) = ink l"
proof -
  assume n: "n \<le> indentOf l"
  then have "take n l = take n (takeWhile blankOrTab l)"
    by (metis indentOf_def takeWhile_eq_take min.absorb1 take_take)
  then have "\<forall>c \<in> set (take n l). is_ws c"
    by (metis blankOrTab_ws in_set_takeD set_takeWhileD)
  then have "ink (take n l) = []" by (auto simp: ink_def filter_empty_conv)
  then show ?thesis by (metis append_Nil append_take_drop_id ink_simps(3))
qed

lemma dropBlankEnds_idem: "dropBlankEnds (dropBlankEnds ls) = dropBlankEnds ls"
proof -
  let ?m = "dropWhile isBlank ls"
  have "dropWhile isBlank (rev (dropWhile isBlank (rev ?m))) = rev (dropWhile isBlank (rev ?m))"
  proof (cases ?m)
    case (Cons l ms)
    then have "\<not> isBlank l" by (metis dropWhile_eq_Cons_conv)
    then show ?thesis unfolding Cons by (simp add: dropWhile_append split: if_splits)
  next
    case Nil
    show ?thesis unfolding Nil by simp
  qed
  then show ?thesis by (simp add: dropBlankEnds_def)
qed

lemma ink_dropWhile_blank: "concat (map ink (dropWhile isBlank ls)) = concat (map ink ls)"
  by (induction ls) (auto simp: isBlank_ink)

lemma ink_dropWhile_blank_end: "concat (map ink (rev (dropWhile isBlank (rev ls)))) = concat (map ink ls)"
  by (induction ls rule: rev_induct) (auto simp: isBlank_ink)

lemma ink_dropBlankEnds: "concat (map ink (dropBlankEnds ls)) = concat (map ink ls)"
  by (simp add: dropBlankEnds_def ink_dropWhile_blank_end ink_dropWhile_blank)

lemma set_dropBlankEnds: "set (dropBlankEnds ls) \<subseteq> set ls"
  by (auto simp: dropBlankEnds_def dest!: set_dropWhileD)

lemma dropBlankEnds_map:
  "(\<And>l. l \<in> set ls \<Longrightarrow> isBlank (f l) = isBlank l) \<Longrightarrow> dropBlankEnds (map f ls) = map f (dropBlankEnds ls)"
proof -
  assume f: "\<And>l. l \<in> set ls \<Longrightarrow> isBlank (f l) = isBlank l"
  have 1: "dropWhile isBlank (map f xs) = map f (dropWhile isBlank xs)" if "set xs \<subseteq> set ls" for xs
    using that f by (induction xs) auto
  have "set (rev (dropWhile isBlank ls)) \<subseteq> set ls" by (auto dest: set_dropWhileD)
  then show ?thesis by (simp add: dropBlankEnds_def 1 rev_map)
qed

lemma minIndent_Min:
  "minIndent ls = (if filter (\<lambda>l. \<not> isBlank l) ls = [] then 0 else Min (indentOf ` set (filter (\<lambda>l. \<not> isBlank l) ls)))"
  unfolding minIndent_def
  by (cases "filter (\<lambda>l. \<not> isBlank l) ls") (simp_all add: Min.set_eq_fold [symmetric] del: Min_insert)

lemma minIndent_le: "l \<in> set ls \<Longrightarrow> \<not> isBlank l \<Longrightarrow> minIndent ls \<le> indentOf l"
  by (auto simp: minIndent_Min filter_empty_conv intro!: Min_le)

text \<open>Lines that are clean already are left as they are, and the result is clean.\<close>

definition cleanAlready :: "jstr list \<Rightarrow> bool" where
  "cleanAlready ls \<longleftrightarrow> dropBlankEnds ls = ls \<and> map cutEnd ls = ls \<and> minIndent ls = 0"

lemma cleanLines_id: "cleanAlready ls \<Longrightarrow> cleanLines ls = ls"
  by (simp add: cleanAlready_def cleanLines_def)

lemma cutEnd_drop: "cutEnd l = l \<Longrightarrow> cutEnd (drop n l) = drop n l"
proof (cases "drop n l = []")
  case False
  assume "cutEnd l = l"
  with False have "\<not> blankOrTab (last l)"
    by (metis cutEnd_def drop_Nil dropWhile_eq_self_iff hd_rev rev_is_Nil_conv rev_swap)
  with False show ?thesis
    by (metis cutEnd_def dropWhile_eq_self_iff hd_rev last_drop linorder_not_less drop_all rev_rev_ident)
qed (simp add: cutEnd_def)

lemma cleanLines_clean: "cleanAlready (cleanLines ls0)"
proof -
  define ls where "ls = dropBlankEnds (map cutEnd ls0)"
  have d: "dropBlankEnds ls = ls" by (simp add: ls_def dropBlankEnds_idem)
  have c: "cutEnd l = l" if "l \<in> set ls" for l
    using that set_dropBlankEnds [of "map cutEnd ls0"] by (auto simp: ls_def)
  then have m: "map cutEnd ls = ls" by (simp add: map_idI)
  define n where "n = minIndent ls"
  define f where "f = (\<lambda>l. if isBlank l then [] else drop n l)"
  have inkf: "ink (f l) = ink l" if "l \<in> set ls" for l
    using that minIndent_le [OF that] by (auto simp: f_def n_def isBlank_ink ink_blank_prefix)
  have "cleanAlready (map f ls)" if "n \<noteq> 0"
  proof -
    have "dropBlankEnds (map f ls) = map f ls"
      using dropBlankEnds_map [of ls f] d inkf by (simp add: isBlank_ink)
    moreover have "map cutEnd (map f ls) = map f ls"
      using c by (auto simp: f_def cutEnd_drop cutEnd_def [of "[]"])
    moreover have "minIndent (map f ls) = 0"
    proof -
      have ne: "filter (\<lambda>l. \<not> isBlank l) ls \<noteq> []" using that by (auto simp: n_def minIndent_Min)
      then have "n \<in> indentOf ` set (filter (\<lambda>l. \<not> isBlank l) ls)"
        by (simp add: n_def minIndent_Min del: set_filter)
      then obtain l where l: "l \<in> set ls" "\<not> isBlank l" "indentOf l = n" by auto
      then have "f l = dropWhile blankOrTab l" by (simp add: f_def indentOf_def dropWhile_eq_drop)
      moreover have "takeWhile blankOrTab (dropWhile blankOrTab xs) = []" for xs by (induction xs) auto
      ultimately have "indentOf (f l) = 0" by (simp add: indentOf_def)
      moreover have "minIndent (map f ls) \<le> indentOf (f l)"
        using l inkf by (intro minIndent_le) (auto simp: isBlank_ink)
      ultimately show ?thesis by simp
    qed
    ultimately show ?thesis by (simp add: cleanAlready_def)
  qed
  moreover have "cleanAlready ls" if "n = 0" using d m that by (simp add: cleanAlready_def n_def)
  moreover have "cleanLines ls0 = (if n \<le> 0 then ls else map f ls)"
    unfolding cleanLines_def Let_def ls_def [symmetric] n_def [symmetric] f_def ..
  ultimately show ?thesis by simp
qed

lemma cleanLines_ink: "concat (map ink (cleanLines ls0)) = concat (map ink ls0)"
proof -
  define ls where "ls = dropBlankEnds (map cutEnd ls0)"
  have "map ink (map (\<lambda>l. if isBlank l then [] else drop (minIndent ls) l) ls) = map ink ls"
    using minIndent_le [of _ ls] by (auto simp: isBlank_ink ink_blank_prefix)
  moreover have "concat (map ink ls) = concat (map ink ls0)"
    by (simp add: ls_def ink_dropBlankEnds comp_def)
  ultimately show ?thesis by (simp add: cleanLines_def Let_def ls_def [symmetric] del: map_map map_eq_conv)
qed

lemma split_on_chars: "l \<in> set (split_on d s) \<Longrightarrow> set l \<subseteq> set s"
proof (induction s arbitrary: l)
  case (Cons c s)
  obtain w ws where "split_on d s = w # ws" by (cases "split_on d s") auto
  with Cons show ?case by (fastforce split: if_splits)
qed simp

lemma cleanLines_chars: "l \<in> set (cleanLines ls) \<Longrightarrow> c \<in> set l \<Longrightarrow> \<exists>l0 \<in> set ls. c \<in> set l0"
proof -
  have e: "set (cutEnd l) \<subseteq> set l" for l by (auto simp: cutEnd_def dest: set_dropWhileD)
  assume "l \<in> set (cleanLines ls)" "c \<in> set l"
  then obtain l1 where "l1 \<in> set (dropBlankEnds (map cutEnd ls))" "c \<in> set l1"
    by (auto simp: cleanLines_def Let_def dest: in_set_dropD split: if_splits)
  with set_dropBlankEnds [of "map cutEnd ls"] e show ?thesis by fastforce
qed

text \<open>
  Cleaning copied terminal text is safe: every character that is not white space is kept, in
  order, and cleaning the result again changes nothing.
\<close>

theorem copied_text_is_clean:
  "ink (cleanCopiedText s) = ink s \<and> cleanCopiedText (cleanCopiedText s) = cleanCopiedText s"
proof
  let ?ls = "cleanLines (split_on 10 (normCr s))"
  show "ink (cleanCopiedText s) = ink s"
    by (simp add: cleanCopiedText_def cleanCopiedLines_def ink_join cleanLines_ink ink_split)
  have n: "10 \<notin> set l \<and> 13 \<notin> set l" if "l \<in> set ?ls" for l
  proof -
    have "\<forall>l0 \<in> set (split_on 10 (normCr s)). 10 \<notin> set l0 \<and> 13 \<notin> set l0"
      using split_on_no_sep [of _ 10 "normCr s"] normCr_no_cr [of s] split_on_chars [of _ 10 "normCr s"] by blast
    with cleanLines_chars [OF that] show ?thesis by blast
  qed
  have "13 \<notin> set (join [10] ls)" if "\<forall>l \<in> set ls. 13 \<notin> set l" for ls :: "jstr list"
    using that by (induction "[10 :: int]" ls rule: join.induct) auto
  with n have "normCr (join [10] ?ls) = join [10] ?ls" by (simp add: normCr_id)
  moreover have "split_on 10 (join [10] ?ls) = (if ?ls = [] then [[]] else ?ls)"
    using n split_on_join [of ?ls 10] by auto
  moreover have "cleanLines ?ls = ?ls" "cleanLines [[]] = []"
    using cleanLines_id [OF cleanLines_clean]
    by (simp_all add: cleanLines_def dropBlankEnds_def cutEnd_def isBlank_def trim_def minIndent_def)
  ultimately show "cleanCopiedText (cleanCopiedText s) = cleanCopiedText s"
    by (auto simp: cleanCopiedText_def cleanCopiedLines_def)
qed

text \<open>
  Copying as one line: the same characters, no line break, and copying the result changes nothing.
\<close>

lemma join_blank_trimmed:
  "\<forall>l \<in> set ls. l \<noteq> [] \<and> trim l = l \<Longrightarrow> ls \<noteq> [] \<Longrightarrow> join [32] ls \<noteq> [] \<and> trim (join [32] ls) = join [32] ls"
proof -
  assume a: "\<forall>l \<in> set ls. l \<noteq> [] \<and> trim l = l" and ne: "ls \<noteq> []"
  have e: "l \<noteq> [] \<and> trim l = l \<longleftrightarrow> l \<noteq> [] \<and> \<not> is_ws (hd l) \<and> \<not> is_ws (last l)" for l
  proof (cases "l = []")
    case False
    show ?thesis
    proof
      assume t: "l \<noteq> [] \<and> trim l = l"
      then have "trimStart l = l" by (metis trim_def trimEnd_hd trimStart_nonws trim_idem trimStart_idem trimEnd_Nil hd_dropWhile trimStart_def)
      moreover from this t have "trimEnd l = l" by (simp add: trim_def)
      ultimately show "l \<noteq> [] \<and> \<not> is_ws (hd l) \<and> \<not> is_ws (last l)"
        using False by (metis dropWhile_eq_self_iff hd_rev rev_is_Nil_conv rev_swap trimEnd_def trimStart_nonws)
    next
      assume t: "l \<noteq> [] \<and> \<not> is_ws (hd l) \<and> \<not> is_ws (last l)"
      then have "trimStart l = l" by (simp add: trimStart_nonws)
      moreover have "trimEnd l = l" using t by (metis dropWhile_eq_self_iff hd_rev rev_rev_ident trimEnd_def)
      ultimately show "l \<noteq> [] \<and> trim l = l" using t by (simp add: trim_def)
    qed
  qed simp
  from ne a show ?thesis
    unfolding e
    by (induction "[32 :: int]" ls rule: join.induct) auto
qed

lemma one_line_clean:
  "ink (cleanOneLineText s) = ink s \<and> 10 \<notin> set (cleanOneLineText s)
   \<and> cleanOneLineText (cleanOneLineText s) = cleanOneLineText s"
proof (intro conjI)
  let ?ls = "filter (\<lambda>l. l \<noteq> []) (map trim (split_on 10 (normCr s)))"
  have "concat (map ink (filter (\<lambda>l. l \<noteq> []) ls)) = concat (map ink ls)" for ls by (induction ls) auto
  then show "ink (cleanOneLineText s) = ink s"
    by (simp add: cleanOneLineText_def ink_join comp_def ink_split)
  have n: "10 \<notin> set l \<and> 13 \<notin> set l \<and> l \<noteq> [] \<and> trim l = l" if "l \<in> set ?ls" for l
    using that split_on_no_sep [of _ 10 "normCr s"] normCr_no_cr [of s] split_on_chars [of _ 10 "normCr s"]
      set_trim_subset by fastforce
  have "10 \<notin> set (join [32] ls) \<and> 13 \<notin> set (join [32] ls)" if "\<forall>l \<in> set ls. 10 \<notin> set l \<and> 13 \<notin> set l" for ls :: "jstr list"
    using that by (induction "[32 :: int]" ls rule: join.induct) auto
  with n have j: "10 \<notin> set (cleanOneLineText s)" "13 \<notin> set (cleanOneLineText s)"
    unfolding cleanOneLineText_def by blast+
  then show "10 \<notin> set (cleanOneLineText s)" by simp
  have one: "split_on 10 t = [t]" if "10 \<notin> set t" for t using that split_on_join [of "[t]" 10] by simp
  have "cleanOneLineText (cleanOneLineText s) = join [32] (filter (\<lambda>l. l \<noteq> []) [trim (cleanOneLineText s)])"
    using j by (simp add: cleanOneLineText_def [of "cleanOneLineText s"] normCr_id one)
  moreover have "?ls \<noteq> [] \<Longrightarrow> trim (cleanOneLineText s) = cleanOneLineText s \<and> cleanOneLineText s \<noteq> []"
    unfolding cleanOneLineText_def using join_blank_trimmed [of ?ls] n by blast
  moreover have "?ls = [] \<Longrightarrow> cleanOneLineText s = []" by (simp only: cleanOneLineText_def join.simps)
  ultimately show "cleanOneLineText (cleanOneLineText s) = cleanOneLineText s"
    by (cases "?ls = []") (simp_all add: trim_def [of "[]"])
qed

end
