(* ===== verification/SessionRecord.thy ===== *)
theory SessionRecord
  imports AppState ChatText
begin

text \<open>
  The objects of the map \<open>sessions\<close> and what a message \<open>session_update\<close> makes of them
  (\<open>src/web/src/app/ws-client.ts\<close>). An object is a function from property names to values,
  \<open>Undef\<close> for a property it does not have.
\<close>

section \<open>JavaScript values\<close>

datatype jsval =
    Undef
  | JNull
  | JBool bool
  | JNum int
  | JStr jstr
  | JObj "(string \<times> jsval) list"

type_synonym jobj = "string \<Rightarrow> jsval"

fun truthy :: "jsval \<Rightarrow> bool" where
  "truthy Undef = False"
| "truthy JNull = False"
| "truthy (JBool b) = b"
| "truthy (JNum n) = (n \<noteq> 0)"
| "truthy (JStr s) = (s \<noteq> [])"
| "truthy (JObj fs) = True"

text \<open>\<open>String(v)\<close>, and \<open>v.f\<close> of a value that is not null or undefined.\<close>

fun jsText :: "jsval \<Rightarrow> jstr" where
  "jsText Undef = js ''undefined''"
| "jsText JNull = js ''null''"
| "jsText (JBool b) = (if b then js ''true'' else js ''false'')"
| "jsText (JNum n) = num_str n"
| "jsText (JStr s) = s"
| "jsText (JObj fs) = js ''[object Object]''"

definition fieldOf :: "jsval \<Rightarrow> string \<Rightarrow> jsval" where
  "fieldOf v f =
     (case v of JObj fs \<Rightarrow> (case map_of fs f of Some x \<Rightarrow> x | None \<Rightarrow> Undef) | _ \<Rightarrow> Undef)"

definition orZero :: "jsval \<Rightarrow> jsval" where
  "orZero v = (if v = Undef \<or> v = JNull then JNum 0 else v)"

section \<open>Updating\<close>

definition keepFirst :: "string list" where
  "keepFirst = [''provider'', ''display_name'']"

definition givenFirst :: "string list" where
  "givenFirst = [''branch'', ''label'']"

definition metaFields :: "string list" where
  "metaFields = [''label'', ''pinned'', ''color'', ''note'', ''auto_title'']"

definition keepNext :: "string list" where
  "keepNext = [''shell'', ''state'']"

definition activityFields :: "string list" where
  "activityFields = [''output_idle'', ''workflow_active'', ''awaiting_user'', ''awaiting_approval'']"

definition keepLast :: "string list" where
  "keepLast = [''last_output_at'', ''started_at'', ''first_message'', ''last_message'', ''log_path'',
     ''jsonl_path'']"

definition givenLast :: "string list" where
  "givenLast = [''model'', ''route'', ''parent_session_id'', ''role'', ''auto'', ''depth'',
     ''orchestration_id'', ''board_path'', ''worktree_branch'', ''board_notify_pending'']"

definition gitFields :: "string list" where
  "gitFields = [''git_files'', ''git_added'', ''git_deleted'']"

text \<open>\<open>if (m.f) cur.f = m.f\<close>; \<open>if (m.f !== undefined) cur.f = m.f\<close>; \<open>cur.f = o.f\<close>.\<close>

definition setIfTruthy :: "jobj \<Rightarrow> string \<Rightarrow> jobj \<Rightarrow> jobj" where
  "setIfTruthy m f c = (if truthy (m f) then c(f := m f) else c)"

definition setIfGiven :: "jobj \<Rightarrow> string \<Rightarrow> jobj \<Rightarrow> jobj" where
  "setIfGiven m f c = (if m f \<noteq> Undef then c(f := m f) else c)"

definition setTo :: "(string \<Rightarrow> jsval) \<Rightarrow> string \<Rightarrow> jobj \<Rightarrow> jobj" where
  "setTo v f c = c(f := v f)"

definition setCwd :: "jobj \<Rightarrow> jobj \<Rightarrow> jobj" where
  "setCwd m c =
     (if truthy (m ''cwd'')
      then c(''cwd'' := m ''cwd'', ''project'' := JStr (deriveProjectKeyFromCwd (jsText (m ''cwd''))))
      else c)"

definition sessionUpdate :: "jobj \<Rightarrow> jobj \<Rightarrow> jobj" where
  "sessionUpdate m c0 =
     (let c1 = fold (setIfTruthy m) keepFirst c0;
          c2 = setCwd m c1;
          c3 = fold (setIfGiven m) givenFirst c2;
          c4 = (if truthy (m ''session_meta'')
                then fold (setTo (fieldOf (m ''session_meta''))) metaFields c3 else c3);
          c5 = fold (setIfTruthy m) keepNext c4;
          c6 = (if truthy (m ''activity'')
                then fold (setTo (fieldOf (m ''activity''))) activityFields c5 else c5);
          c7 = fold (setIfGiven m) activityFields c6;
          c8 = fold (setIfTruthy m) keepLast c7;
          c9 = fold (setIfGiven m) givenLast c8
      in if truthy (m ''git_checked'') then fold (setTo (\<lambda>f. orZero (m f))) gitFields c9 else c9)"

text \<open>A session of a \<open>snapshot\<close>: the nested activity is copied, the project derived.\<close>

definition snapshotSession :: "jobj \<Rightarrow> jobj" where
  "snapshotSession s =
     (let s1 = (if truthy (s ''activity'') then fold (setTo (fieldOf (s ''activity''))) activityFields s else s)
      in s1(''project'' := JStr (if truthy (s1 ''cwd'') then deriveProjectKeyFromCwd (jsText (s1 ''cwd'')) else [])))"

section \<open>The fast path of the rendering\<close>

definition layoutFields :: "string list" where
  "layoutFields = [''provider'', ''display_name'', ''cwd'', ''project'', ''branch'', ''label'', ''shell'',
     ''started_at'', ''first_message'', ''last_message'', ''log_path'', ''jsonl_path'', ''model'', ''route'',
     ''end_reason'']"

definition orText :: "jsval \<Rightarrow> jstr" where
  "orText v = (if truthy v then jsText v else [])"

definition sessionLayoutSnapshot :: "jobj \<Rightarrow> jstr" where
  "sessionLayoutSnapshot s = join [31] (map (\<lambda>f. orText (s f)) layoutFields)"

definition takesFastPath :: "bool \<Rightarrow> jobj \<Rightarrow> jobj \<Rightarrow> bool" where
  "takesFastPath isNew m c \<longleftrightarrow>
     \<not> isNew \<and> sessionLayoutSnapshot c = sessionLayoutSnapshot (sessionUpdate m c)
     \<and> (truthy (m ''state'') \<or> truthy (m ''last_output_at''))"

section \<open>What a message says\<close>

text \<open>
  The abstract reading of a message: for every property at most one new value. The update is the
  object overridden by it.
\<close>

definition saysOf :: "jobj \<Rightarrow> string \<Rightarrow> jsval option" where
  "saysOf m f =
     (if List.member metaFields f \<and> truthy (m ''session_meta'') then Some (fieldOf (m ''session_meta'') f)
      else if List.member activityFields f \<and> m f = Undef \<and> truthy (m ''activity'') then Some (fieldOf (m ''activity'') f)
      else if List.member (givenFirst @ activityFields @ givenLast) f
        then (if m f \<noteq> Undef then Some (m f) else None)
      else if List.member (keepFirst @ [''cwd''] @ keepNext @ keepLast) f
        then (if truthy (m f) then Some (m f) else None)
      else if f = ''project'' \<and> truthy (m ''cwd'')
        then Some (JStr (deriveProjectKeyFromCwd (jsText (m ''cwd''))))
      else if List.member gitFields f \<and> truthy (m ''git_checked'') then Some (orZero (m f))
      else None)"

lemma fold_setIfTruthy: "fold (setIfTruthy m) fs c f = (if List.member fs f \<and> truthy (m f) then m f else c f)"
  by (induction fs arbitrary: c) (auto simp: setIfTruthy_def)

lemma fold_setIfGiven: "fold (setIfGiven m) fs c f = (if List.member fs f \<and> m f \<noteq> Undef then m f else c f)"
  by (induction fs arbitrary: c) (auto simp: setIfGiven_def)

lemma fold_setTo: "fold (setTo v) fs c f = (if List.member fs f then v f else c f)"
  by (induction fs arbitrary: c) (auto simp: setTo_def)

lemma if_fold_setTo:
  "(if b then fold (setTo v) fs c else c) f = (if List.member fs f \<and> b then v f else c f)"
  by (simp add: fold_setTo)

lemmas field_lists = keepFirst_def givenFirst_def metaFields_def keepNext_def activityFields_def
  keepLast_def givenLast_def gitFields_def

lemma setCwd_at:
  "setCwd m c f = (if truthy (m ''cwd'') \<and> f = ''cwd'' then m f
     else if truthy (m ''cwd'') \<and> f = ''project'' then JStr (deriveProjectKeyFromCwd (jsText (m ''cwd'')))
     else c f)"
  by (simp add: setCwd_def)

lemma fields_disjoint:
  "set gitFields \<inter> (set givenLast \<union> set keepLast \<union> set activityFields \<union> set keepNext \<union> set metaFields \<union> set keepFirst) = {}"
  "set givenLast \<inter> (set keepLast \<union> set activityFields \<union> set keepNext \<union> set metaFields \<union> set keepFirst) = {}"
  "set keepLast \<inter> (set activityFields \<union> set keepNext \<union> set metaFields \<union> set keepFirst) = {}"
  "set activityFields \<inter> (set keepNext \<union> set metaFields \<union> set keepFirst) = {}"
  "set keepNext \<inter> (set metaFields \<union> set keepFirst) = {}"
  "set metaFields \<inter> set keepFirst = {}"
  by code_simp+

lemma givenFirst_iff: "f \<in> set givenFirst \<longleftrightarrow> f = ''branch'' \<or> f = ''label''"
  by (simp add: givenFirst_def)

lemma special_fields:
  assumes "f = ''cwd'' \<or> f = ''project'' \<or> f = ''branch'' \<or> f = ''label''"
  shows "f \<notin> set keepFirst" "f \<notin> set keepNext" "f \<notin> set activityFields" "f \<notin> set keepLast"
    "f \<notin> set givenLast" "f \<notin> set gitFields" "f \<in> set metaFields \<longleftrightarrow> f = ''label''"
  using assms by (auto simp: field_lists)

text \<open>The message decides every property it speaks of; the others stay as they were.\<close>

lemma sessionUpdate_override:
  "sessionUpdate m c f = (case saysOf m f of Some v \<Rightarrow> v | None \<Rightarrow> c f)"
proof -
  show ?thesis
  proof (cases "f = ''cwd'' \<or> f = ''project'' \<or> f = ''branch'' \<or> f = ''label''")
    case True
    note sp = special_fields [OF this]
    from True show ?thesis
      by (elim disjE) (use sp in \<open>simp_all add: sessionUpdate_def saysOf_def Let_def fold_setIfTruthy
          fold_setIfGiven fold_setTo setCwd_at givenFirst_iff\<close>)
  next
    case False
    then have g: "f \<notin> set givenFirst" and n: "f \<noteq> ''cwd''" "f \<noteq> ''project''" by (simp_all add: givenFirst_iff)
    have "sessionUpdate m c f =
       (if f \<in> set gitFields \<and> truthy (m ''git_checked'') then orZero (m f)
        else if f \<in> set givenLast \<and> m f \<noteq> Undef then m f
        else if f \<in> set keepLast \<and> truthy (m f) then m f
        else if f \<in> set activityFields \<and> m f \<noteq> Undef then m f
        else if f \<in> set activityFields \<and> truthy (m ''activity'') then fieldOf (m ''activity'') f
        else if f \<in> set keepNext \<and> truthy (m f) then m f
        else if f \<in> set metaFields \<and> truthy (m ''session_meta'') then fieldOf (m ''session_meta'') f
        else if f \<in> set keepFirst \<and> truthy (m f) then m f else c f)"
      unfolding sessionUpdate_def Let_def fold_setIfTruthy fold_setIfGiven if_fold_setTo setCwd_at
      using g n by (simp only: List.member_iff simp_thms if_False if_True)
    moreover have "saysOf m f =
       (if f \<in> set metaFields \<and> truthy (m ''session_meta'') then Some (fieldOf (m ''session_meta'') f)
        else if f \<in> set activityFields \<and> m f = Undef \<and> truthy (m ''activity'') then Some (fieldOf (m ''activity'') f)
        else if f \<in> set activityFields \<or> f \<in> set givenLast then (if m f \<noteq> Undef then Some (m f) else None)
        else if f \<in> set keepFirst \<or> f \<in> set keepNext \<or> f \<in> set keepLast
          then (if truthy (m f) then Some (m f) else None)
        else if f \<in> set gitFields \<and> truthy (m ''git_checked'') then Some (orZero (m f)) else None)"
      using g n by (simp add: saysOf_def)
    moreover have
      "f \<in> set gitFields \<Longrightarrow> f \<notin> set givenLast \<and> f \<notin> set keepLast \<and> f \<notin> set activityFields \<and> f \<notin> set keepNext
        \<and> f \<notin> set metaFields \<and> f \<notin> set keepFirst"
      "f \<in> set givenLast \<Longrightarrow> f \<notin> set keepLast \<and> f \<notin> set activityFields \<and> f \<notin> set keepNext
        \<and> f \<notin> set metaFields \<and> f \<notin> set keepFirst"
      "f \<in> set keepLast \<Longrightarrow> f \<notin> set activityFields \<and> f \<notin> set keepNext \<and> f \<notin> set metaFields \<and> f \<notin> set keepFirst"
      "f \<in> set activityFields \<Longrightarrow> f \<notin> set keepNext \<and> f \<notin> set metaFields \<and> f \<notin> set keepFirst"
      "f \<in> set keepNext \<Longrightarrow> f \<notin> set metaFields \<and> f \<notin> set keepFirst"
      "f \<in> set metaFields \<Longrightarrow> f \<notin> set keepFirst"
      using fields_disjoint by blast+
    ultimately show ?thesis
      by (cases "f \<in> set gitFields"; cases "f \<in> set givenLast"; cases "f \<in> set keepLast"; cases "f \<in> set activityFields";
          cases "f \<in> set keepNext"; cases "f \<in> set metaFields") simp_all
  qed
qed

text \<open>
  A \<open>session_update\<close> message is a partial description of the session: the record becomes the old
  one overridden by what the message says (an empty value says nothing for the properties that are
  only kept when set), properties it does not speak of stay as they were, and receiving the same
  message again changes nothing.
\<close>

theorem update_overrides:
  "sessionUpdate m c = (\<lambda>f. case saysOf m f of Some v \<Rightarrow> v | None \<Rightarrow> c f)
   \<and> sessionUpdate m (sessionUpdate m c) = sessionUpdate m c"
  by (auto simp: fun_eq_iff sessionUpdate_override split: option.split)

lemma snapshot_fields:
  assumes "sessionLayoutSnapshot c = sessionLayoutSnapshot d"
    and "\<forall>f \<in> set layoutFields. 31 \<notin> set (orText (c f)) \<and> 31 \<notin> set (orText (d f))"
  shows "\<forall>f \<in> set layoutFields. orText (c f) = orText (d f)"
proof -
  have n: "layoutFields \<noteq> []" by (simp add: layoutFields_def)
  have "split_on 31 (sessionLayoutSnapshot e) = map (\<lambda>f. orText (e f)) layoutFields"
    if "\<forall>f \<in> set layoutFields. 31 \<notin> set (orText (e f))" for e
    unfolding sessionLayoutSnapshot_def by (rule split_on_join) (use that n in auto)
  then have "map (\<lambda>f. orText (c f)) layoutFields = map (\<lambda>f. orText (d f)) layoutFields"
    using assms by metis
  then show ?thesis by simp
qed

text \<open>
  The fast path of the rendering is sound for what the layout snapshot covers: when an update
  takes it, none of the fifteen properties the card shows besides its state has a new text,
  provided that no value holds the separator character.
\<close>

theorem fast_path_sound:
  assumes "takesFastPath isNew m c" "List.member layoutFields f"
    and "\<forall>g \<in> set layoutFields. 31 \<notin> set (orText (c g)) \<and> 31 \<notin> set (orText (sessionUpdate m c g))"
  shows "orText (sessionUpdate m c f) = orText (c f)"
  using snapshot_fields [OF _ assms(3)] assms(1,2) unfolding takesFastPath_def by simp

definition runningSession :: jobj where
  "runningSession = (\<lambda>_. Undef)(''id'' := JNum 1, ''provider'' := JStr (js ''claude''), ''state'' := JStr (js ''running''))"

definition nowWaiting :: jobj where
  "nowWaiting = (\<lambda>_. Undef)(''type'' := JStr (js ''session_update''), ''state'' := JStr (js ''waiting''))"

lemma fast_path_sound_witness:
  "orText (sessionUpdate nowWaiting runningSession ''provider'') = orText (runningSession ''provider'')"
proof (rule fast_path_sound)
  show "takesFastPath False nowWaiting runningSession" by code_simp
  show "List.member layoutFields ''provider''" by code_simp
  show "\<forall>g \<in> set layoutFields. 31 \<notin> set (orText (runningSession g)) \<and> 31 \<notin> set (orText (sessionUpdate nowWaiting runningSession g))"
    by code_simp
qed

text \<open>
  The snapshot lacks the pin, the colour, the note and the automatic title: the message that the Hub
  sends when another window pins a session takes the fast path, and the list is not drawn again.
\<close>

lemma pin_takes_fast_path:
  "let m = (\<lambda>_. Undef)(''state'' := JStr (js ''running''),
              ''session_meta'' := JObj [(''label'', JStr []), (''pinned'', JBool True)])
   in takesFastPath False m runningSession \<and> runningSession ''pinned'' = Undef
      \<and> sessionUpdate m runningSession ''pinned'' = JBool True"
  by code_simp

end
