(* ===== verification/StoreView.thy ===== *)
theory StoreView
  imports ApprovalRuns
begin

text \<open>
  What the detectors leave alone. A view of the approval store that does not change under the
  primitive updates for one session, nor under the operations on the shared part, does not change
  under the detectors for that session: \<open>trackApprovalHintFromChunk\<close> and \<open>detectApproval\<close>. Two
  views are interpreted: the texts that leave the store, and the part of another session in the
  shared state.
\<close>

text \<open>The part of the store's log that reaches an agent or the record of the conversation.\<close>

fun isTyped :: "event \<Rightarrow> bool" where
  "isTyped (EvText i t) = True"
| "isTyped (EvBody i t) = True"
| "isTyped (EvConsumed i s t) = True"
| "isTyped (EvHistory i t) = True"
| "isTyped _ = False"

definition typed :: "store \<Rightarrow> event list" where
  "typed S = filter isTyped (stLog S)"

lemma onApp_fields [simp]:
  "stRaw (onApp g S) = stRaw S" "stSource (onApp g S) = stSource S" "stConsumed (onApp g S) = stConsumed S"
  "stConsumedTimer (onApp g S) = stConsumedTimer S" "stSel (onApp g S) = stSel S" "stFree (onApp g S) = stFree S"
  "stActiveQ (onApp g S) = stActiveQ S" "stMulti (onApp g S) = stMulti S" "stSeq (onApp g S) = stSeq S"
  "stManualHide (onApp g S) = stManualHide S" "stSingleText (onApp g S) = stSingleText S" "stSingleOpen (onApp g S) = stSingleOpen S"
  "stShownAt (onApp g S) = stShownAt S" "stSwitchCand (onApp g S) = stSwitchCand S" "stH9Misses (onApp g S) = stH9Misses S"
  "stH9Timer (onApp g S) = stH9Timer S" "stBgMisses (onApp g S) = stBgMisses S" "stBgTimer (onApp g S) = stBgTimer S"
  "stHintTimer (onApp g S) = stHintTimer S" "stHintTrusted (onApp g S) = stHintTrusted S" "stSuppress (onApp g S) = stSuppress S"
  "stDismissed (onApp g S) = stDismissed S" "stLatch (onApp g S) = stLatch S" "stTail (onApp g S) = stTail S"
  "stMultiQ (onApp g S) = stMultiQ S" "stRescan (onApp g S) = stRescan S"
  "activeOf (onApp (\<lambda>A. A\<lparr>asBarVisible := v\<rparr>) S) = activeOf S"
  by (simp_all add: onApp_def activeOf_def)

locale store_view =
  fixes view :: "store \<Rightarrow> 'a" and act :: "int \<Rightarrow> appState \<Rightarrow> appState" and i :: int
  assumes fields [simp]:
    "\<And>S f. (\<forall>k. k \<noteq> i \<longrightarrow> f k = stRaw S k) \<Longrightarrow> view (S\<lparr>stRaw := f\<rparr>) = view S"
    "\<And>S f. (\<forall>k. k \<noteq> i \<longrightarrow> f k = stSource S k) \<Longrightarrow> view (S\<lparr>stSource := f\<rparr>) = view S"
    "\<And>S f. (\<forall>k. k \<noteq> i \<longrightarrow> f k = stConsumed S k) \<Longrightarrow> view (S\<lparr>stConsumed := f\<rparr>) = view S"
    "\<And>S f. (\<forall>k. k \<noteq> i \<longrightarrow> f k = stConsumedTimer S k) \<Longrightarrow> view (S\<lparr>stConsumedTimer := f\<rparr>) = view S"
    "\<And>S f. (\<forall>k. k \<noteq> i \<longrightarrow> f k = stSel S k) \<Longrightarrow> view (S\<lparr>stSel := f\<rparr>) = view S"
    "\<And>S f. (\<forall>k. k \<noteq> i \<longrightarrow> f k = stFree S k) \<Longrightarrow> view (S\<lparr>stFree := f\<rparr>) = view S"
    "\<And>S f. (\<forall>k. k \<noteq> i \<longrightarrow> f k = stActiveQ S k) \<Longrightarrow> view (S\<lparr>stActiveQ := f\<rparr>) = view S"
    "\<And>S f. (\<forall>k. k \<noteq> i \<longrightarrow> f k = stMulti S k) \<Longrightarrow> view (S\<lparr>stMulti := f\<rparr>) = view S"
    "\<And>S f. (\<forall>k. k \<noteq> i \<longrightarrow> f k = stSeq S k) \<Longrightarrow> view (S\<lparr>stSeq := f\<rparr>) = view S"
    "\<And>S f. (\<forall>k. k \<noteq> i \<longrightarrow> f k = stManualHide S k) \<Longrightarrow> view (S\<lparr>stManualHide := f\<rparr>) = view S"
    "\<And>S f. (\<forall>k. k \<noteq> i \<longrightarrow> f k = stSingleText S k) \<Longrightarrow> view (S\<lparr>stSingleText := f\<rparr>) = view S"
    "\<And>S f. (\<forall>k. k \<noteq> i \<longrightarrow> f k = stSingleOpen S k) \<Longrightarrow> view (S\<lparr>stSingleOpen := f\<rparr>) = view S"
    "\<And>S f. (\<forall>k. k \<noteq> i \<longrightarrow> f k = stShownAt S k) \<Longrightarrow> view (S\<lparr>stShownAt := f\<rparr>) = view S"
    "\<And>S f. (\<forall>k. k \<noteq> i \<longrightarrow> f k = stSwitchCand S k) \<Longrightarrow> view (S\<lparr>stSwitchCand := f\<rparr>) = view S"
    "\<And>S f. (\<forall>k. k \<noteq> i \<longrightarrow> f k = stH9Misses S k) \<Longrightarrow> view (S\<lparr>stH9Misses := f\<rparr>) = view S"
    "\<And>S f. (\<forall>k. k \<noteq> i \<longrightarrow> f k = stH9Timer S k) \<Longrightarrow> view (S\<lparr>stH9Timer := f\<rparr>) = view S"
    "\<And>S f. (\<forall>k. k \<noteq> i \<longrightarrow> f k = stBgMisses S k) \<Longrightarrow> view (S\<lparr>stBgMisses := f\<rparr>) = view S"
    "\<And>S f. (\<forall>k. k \<noteq> i \<longrightarrow> f k = stBgTimer S k) \<Longrightarrow> view (S\<lparr>stBgTimer := f\<rparr>) = view S"
    "\<And>S f. (\<forall>k. k \<noteq> i \<longrightarrow> f k = stHintTimer S k) \<Longrightarrow> view (S\<lparr>stHintTimer := f\<rparr>) = view S"
    "\<And>S f. (\<forall>k. k \<noteq> i \<longrightarrow> f k = stHintTrusted S k) \<Longrightarrow> view (S\<lparr>stHintTrusted := f\<rparr>) = view S"
    "\<And>S f. (\<forall>k. k \<noteq> i \<longrightarrow> f k = stSuppress S k) \<Longrightarrow> view (S\<lparr>stSuppress := f\<rparr>) = view S"
    "\<And>S f. (\<forall>k. k \<noteq> i \<longrightarrow> f k = stDismissed S k) \<Longrightarrow> view (S\<lparr>stDismissed := f\<rparr>) = view S"
    "\<And>S f. (\<forall>k. k \<noteq> i \<longrightarrow> f k = stLatch S k) \<Longrightarrow> view (S\<lparr>stLatch := f\<rparr>) = view S"
    "\<And>S f. (\<forall>k. k \<noteq> i \<longrightarrow> f k = stTail S k) \<Longrightarrow> view (S\<lparr>stTail := f\<rparr>) = view S"
    "\<And>S f. (\<forall>k. k \<noteq> i \<longrightarrow> f k = stMultiQ S k) \<Longrightarrow> view (S\<lparr>stMultiQ := f\<rparr>) = view S"
    "\<And>S f. (\<forall>k. k \<noteq> i \<longrightarrow> f k = stRescan S k) \<Longrightarrow> view (S\<lparr>stRescan := f\<rparr>) = view S"
    "\<And>S x. view (S\<lparr>stMultiFocus := x\<rparr>) = view S"
    "\<And>S x. view (S\<lparr>stBatchFocus := x\<rparr>) = view S"
    "\<And>S x. view (S\<lparr>stBarFocus := x\<rparr>) = view S"
    "\<And>S x. view (S\<lparr>stRendered := x\<rparr>) = view S"
    "\<And>S x. view (S\<lparr>stBanner := x\<rparr>) = view S"
  and emits [simp]: "\<And>e S. \<not> isTyped e \<Longrightarrow> view (emit e S) = view S"
  and apps [simp]: "\<And>v S. view (onApp (\<lambda>A. A\<lparr>asBarVisible := v\<rparr>) S) = view S"
    "\<And>v S. view (onApp (\<lambda>A. A\<lparr>asVisible := (asVisible A)(i := v)\<rparr>) S) = view S"
    "\<And>S. view (onApp (removeApprovalAutoSwitchTarget i) S) = view S"
    "\<And>S. view (onApp (enqueueApprovalAutoSwitch act i) S) = view S"
    "\<And>S. view (onApp (maybeAutoSwitchToNextApproval act) S) = view S"
begin

lemma basic [simp]:
  "view (sendSessionHint i v S) = view S" "view (notifyApprovalQueue S) = view S"
  "view (setApprovalVisible act i v a fn S) = view S" "view (setMultiQuestionBannerVisible v S) = view S"
  "view (showBanner i v S) = view S" "view (cacheApprovalOptions i c S) = view S"
  "view (clearApprovalOptions i S) = view S" "view (cancelH9Revalidate i S) = view S"
  "view (scheduleH9Revalidate i S) = view S" "view (resetBgApprovalMisses i S) = view S"
  "view (cancelApprovalHintConfirm i S) = view S" "view (setConsumedTimer i S) = view S"
  "view (clearSequentialChoiceState i S) = view S" "view (clearSingleTabState i S) = view S"
  "view (clearCandidate i S) = view S" "view (scheduleApprovalSuppressRescan i S) = view S"
  "view (snd (getBatchActiveQ i n S)) = view S" "view (showSingleSectionBar i S) = view S"
  "view (barShown i S) = view S" "view (showMultiSelectActionBar i os S) = view S"
  "view (h9Reset i S) = view S" "view (trackBgApprovalMiss i ls S) = view S"
  "view (scheduleApprovalHintConfirm i b S) = view S" "view (snd (getSequentialChoiceState i ps S)) = view S"
  by (simp_all add: sendSessionHint_def notifyApprovalQueue_def setApprovalVisible_def
      setMultiQuestionBannerVisible_def showBanner_def cacheApprovalOptions_def clearApprovalOptions_def
      cancelH9Revalidate_def scheduleH9Revalidate_def resetBgApprovalMisses_def cancelApprovalHintConfirm_def
      setConsumedTimer_def clearSequentialChoiceState_def clearSingleTabState_def clearCandidate_def
      scheduleApprovalSuppressRescan_def getBatchActiveQ_def showSingleSectionBar_def barShown_def
      showMultiSelectActionBar_def h9Reset_def trackBgApprovalMiss_def scheduleApprovalHintConfirm_def
      getSequentialChoiceState_def Let_def split: option.splits)

lemma clear_bar [simp]: "activeOf S = Some i \<Longrightarrow> view (clearActionBarDom S) = view S"
  proof -
  assume a: "activeOf S = Some i"
  have "activeOf (S\<lparr>stRendered := r, stBarFocus := b, stBatchFocus := c, stMultiFocus := m\<rparr>) = activeOf S" for r b c m S
    by (simp add: activeOf_def)
  with a show ?thesis by (simp add: clearActionBarDom_def Let_def)
qed

lemma shows_bar [simp]:
  "view (showBatchActionBar i ss S) = view S" "view (showActionBar i c S) = view S" "view (showOptions i c S) = view S"
proof -
  show b: "view (showBatchActionBar i ss S) = view S" for ss S
    by (simp add: showBatchActionBar_def Let_def split: option.splits)
  show a: "view (showActionBar i c S) = view S" for S
    using b by (simp add: showActionBar_def renderBody_def split: approvalBody.splits)
  show "view (showOptions i c S) = view S" using a by (simp add: showOptions_def)
qed

lemma hides_bar [simp]: "view (hideActionBar act i S) = view S"
  by (simp add: hideActionBar_def Let_def cancelApprovalHintConfirm_def)

lemma track: "view (trackApprovalHintFromChunk act E i txt S) = view S"
proof -
  have t: "view (trustedFound i b S) = view S" for b S by (simp add: trustedFound_def Let_def)
  have h: "view (trackHidden i S) = view S" for S by (simp add: trackHidden_def Let_def)
  have f: "view (trackFallback E i lns S) = view S" for lns S using h by (simp add: trackFallback_def Let_def)
  have q: "view (trackSequential E i lns ctx S) = view S" for lns ctx S
    using f by (simp add: trackSequential_def Let_def case_prod_beta split: option.splits)
  have m: "view (trackMarked E i lns ctx S) = view S" for lns ctx S
    using t q by (simp add: trackMarked_def split: option.splits)
  have mq: "view (trackMultiQuestion act i S) = view S" for S by (simp add: trackMultiQuestion_def Let_def)
  have "view (trackScan act E i S) = view S" for S using m mq by (simp add: trackScan_def Let_def)
  then show ?thesis by (simp add: trackApprovalHintFromChunk_def Let_def)
qed

lemma detect: "view (detectApproval act E i S) = view S"
proof -
  have fo: "view (foundNow act i c S) = view S" for c S by (simp add: foundNow_def Let_def)
  have tr: "view (detectTrusted act i b S) = view S" for b S using fo by (simp add: detectTrusted_def)
  have sh: "view (detectShow act i c S) = view S" for c S by (simp add: detectShow_def Let_def)
  have no: "view (detectNothing act E i tl' S) = view S" for tl' S
    by (simp add: detectNothing_def Let_def split: option.splits)
  have sw: "view (detectSwitch act E i new old S) = view S" for new old S
    using sh by (simp add: detectSwitch_def Let_def split: option.splits prod.splits)
  have fb: "view (detectFallback act E i S) = view S" for S
    using sh no sw by (simp add: detectFallback_def Let_def split: option.splits)
  have sq: "view (detectSequential act E i S) = view S" for S
    using fb fo by (simp add: detectSequential_def Let_def case_prod_beta split: option.splits)
  have mk: "view (detectMarked act E i S) = view S" for S
    using tr sq by (simp add: detectMarked_def split: option.splits)
  have en: "view (endMultiQuestion act i S) = view S" for S by (simp add: endMultiQuestion_def Let_def)
  have mq: "activeOf S = Some i \<Longrightarrow> view (detectMultiQuestion act i S) = view S" for S
    by (simp add: detectMultiQuestion_def Let_def)
  have "activeOf S = Some i \<Longrightarrow> view (detectScan act E i S) = view S" for S
    using mk en mq by (simp add: detectScan_def Let_def activeOf_def)
  then show ?thesis by (simp add: detectApproval_def Let_def)
qed

end

section \<open>Texts that leave the store\<close>

interpretation sends: store_view typed act i for act :: "int \<Rightarrow> appState \<Rightarrow> appState" and i :: int
  by unfold_locales (simp_all add: typed_def emit_def onApp_def)

lemma typed_shared [simp]:
  "typed (onApp f S) = typed S" "typed (S\<lparr>stTail := t\<rparr>) = typed S"
  by (simp_all add: typed_def onApp_def)

section \<open>A session that is gone\<close>

text \<open>What the shared state still holds of a session that is not in the map of sessions.\<close>

definition leftInApp :: "int \<Rightarrow> appState \<Rightarrow> (bool \<times> bool \<times> jstr list option) option" where
  "leftInApp j A =
     (if hasSession A j then None else Some (List.member (asOrder A) j, asVisible A j, asAnswered A j))"

text \<open>
  The assumption on \<open>activateSession\<close>: it neither adds nor removes a session and touches the shared
  state of the session it activates only.
\<close>

definition minds :: "int \<Rightarrow> (int \<Rightarrow> appState \<Rightarrow> appState) \<Rightarrow> bool" where
  "minds j act \<longleftrightarrow>
     (\<forall>k A. map fst (asSessions (act k A)) = map fst (asSessions A)
       \<and> (k \<noteq> j \<longrightarrow> leftInApp j (act k A) = leftInApp j A))"

lemma leftInApp_cong:
  "map fst (asSessions B) = map fst (asSessions A) \<Longrightarrow> asOrder B = asOrder A
    \<Longrightarrow> asVisible B j = asVisible A j \<Longrightarrow> asAnswered B j = asAnswered A j \<Longrightarrow> leftInApp j B = leftInApp j A"
  unfolding leftInApp_def hasSession_def by simp

lemma left_update [simp]:
  "leftInApp j (A\<lparr>asQueue := q\<rparr>) = leftInApp j A" "leftInApp j (A\<lparr>asInProgress := b\<rparr>) = leftInApp j A"
  "leftInApp j (A\<lparr>asBarVisible := b\<rparr>) = leftInApp j A" "leftInApp j (A\<lparr>asBadges := bs\<rparr>) = leftInApp j A"
  "leftInApp j (A\<lparr>asActive := a\<rparr>) = leftInApp j A"
  by (rule leftInApp_cong; simp)+

lemma left_badge [simp]: "leftInApp j (badge k st A) = leftInApp j A"
  by (simp add: badge_def)

lemma left_loop:
  assumes m: "minds j act"
  shows "leftInApp j (autoSwitchLoop act q A) = leftInApp j A"
proof (induction q)
  case (Cons n q)
  let ?A = "A\<lparr>asQueue := q, asInProgress := True\<rparr>"
  have "leftInApp j (act n ?A) = leftInApp j A" if "\<not> stale A n"
  proof (cases "n = j")
    case True
    with that have "hasSession A j" by (simp add: stale_def)
    moreover have "map fst (asSessions (act n ?A)) = map fst (asSessions A)" using m by (simp add: minds_def)
    ultimately show ?thesis by (simp add: leftInApp_def hasSession_def)
  next
    case False
    then have "leftInApp j (act n ?A) = leftInApp j ?A" using m unfolding minds_def by blast
    then show ?thesis by simp
  qed
  with Cons show ?case by simp
qed simp

lemma left_view:
  assumes m: "minds j act" and n: "j \<noteq> i"
  shows "store_view (\<lambda>S. leftInApp j (stApp S)) act i"
proof
  have sw: "leftInApp j (maybeAutoSwitchToNextApproval act A) = leftInApp j A" for A
    by (simp add: maybeAutoSwitchToNextApproval_def left_loop [OF m])
  show "leftInApp j (stApp (onApp (maybeAutoSwitchToNextApproval act) S)) = leftInApp j (stApp S)" for S
    by (simp add: onApp_def sw)
  show "leftInApp j (stApp (onApp (enqueueApprovalAutoSwitch act i) S)) = leftInApp j (stApp S)" for S
    by (simp add: onApp_def enqueueApprovalAutoSwitch_def sw)
  show "leftInApp j (stApp (onApp (removeApprovalAutoSwitchTarget i) S)) = leftInApp j (stApp S)" for S
    by (simp add: onApp_def removeApprovalAutoSwitchTarget_def)
  show "leftInApp j (stApp (onApp (\<lambda>A. A\<lparr>asVisible := (asVisible A)(i := v)\<rparr>) S)) = leftInApp j (stApp S)" for v S
    unfolding onApp_def by (simp, rule leftInApp_cong) (use n in simp_all)
qed (simp_all add: onApp_def emit_def)

lemmas left_detect = store_view.detect [OF left_view]

end
