(* ===== verification/Client.thy ===== *)
theory Client
  imports ChatPane SendInput TermQueue Utf8Stream LiveStatus SessionRecord StoreView
begin

text \<open>
  The client put together: the page (approvals, chat, input line, timers), the terminals with their
  backlogs, the live-status pill, and the two timers per session that \<open>approval.ts\<close> and
  \<open>ws-client.ts\<close> keep. On it: what happens when terminal output arrives (the \<open>pty_data\<close> branch of
  \<open>src/web/src/app/ws-client.ts\<close>), and \<open>activateSession\<close> of \<open>session-list.ts\<close>. The operations of
  the components are those of their theories; only their order and their conditions are new here.
\<close>

section \<open>State\<close>

record terminal =
  tmQueue :: termQueue
  tmDecoder :: decoder
  tmMounted :: bool  \<comment> \<open>\<open>t.container\<close> exists\<close>

record client =
  clSessions :: "(int \<times> jobj) list"
  clPage :: page
  clLive :: liveWorld
  clTerms :: "int \<Rightarrow> terminal option"
  clCheck :: "int \<Rightarrow> int option"    \<comment> \<open>\<open>approvalCheckTimers\<close>\<close>
  clDismiss :: "int \<Rightarrow> int option"  \<comment> \<open>\<open>autoDismissTimers\<close>\<close>

text \<open>
  What is read from outside: the debugging bypass, the sessions shown in a pane of the multi view,
  the screens and trigger tables of the detectors, and which sessions are shown as a chat.
\<close>

record clientEnv =
  ceBypass :: bool
  cePane :: "int \<Rightarrow> bool"
  ceEnv :: "int \<Rightarrow> env"
  ceChat :: "int \<Rightarrow> bool"

definition onPage :: "(page \<Rightarrow> page) \<Rightarrow> client \<Rightarrow> client" where
  "onPage f C = C\<lparr>clPage := f (clPage C)\<rparr>"

definition onStore :: "(store \<Rightarrow> store) \<Rightarrow> client \<Rightarrow> client" where
  "onStore f C = onPage (\<lambda>P. P\<lparr>pgStore := f (pgStore P)\<rparr>) C"

definition onChat :: "(chatState \<Rightarrow> chatState) \<Rightarrow> client \<Rightarrow> client" where
  "onChat f C = onPage (\<lambda>P. P\<lparr>pgChat := f (pgChat P)\<rparr>) C"

definition onSweep :: "(sweepWorld \<Rightarrow> sweepWorld) \<Rightarrow> client \<Rightarrow> client" where
  "onSweep f C = onPage (\<lambda>P. P\<lparr>pgSweep := f (pgSweep P)\<rparr>) C"

definition onLine :: "(inputLine \<Rightarrow> inputLine) \<Rightarrow> client \<Rightarrow> client" where
  "onLine f C = onPage (\<lambda>P. P\<lparr>pgLine := f (pgLine P)\<rparr>) C"

definition onLive :: "(liveWorld \<Rightarrow> liveWorld) \<Rightarrow> client \<Rightarrow> client" where
  "onLive f C = C\<lparr>clLive := f (clLive C)\<rparr>"

definition activeIn :: "client \<Rightarrow> int option" where
  "activeIn C = activeOf (pgStore (clPage C))"

definition clNow :: "client \<Rightarrow> int" where
  "clNow C = nowOf (clPage C)"

definition providerIn :: "client \<Rightarrow> int \<Rightarrow> jstr" where
  "providerIn C i = providerOn (clPage C) i"

definition filterProvider :: "jstr \<Rightarrow> provider" where
  "filterProvider p =
     (if p = js ''codex'' then Codex else if p = js ''grok'' then Grok else OtherProvider)"

text \<open>\<open>set_activeSessionId\<close>: the one variable all components read.\<close>

definition setActiveSession :: "int option \<Rightarrow> client \<Rightarrow> client" where
  "setActiveSession a C =
     onLive (\<lambda>w. w\<lparr>activeSessionId := a\<rparr>)
       (onSweep (\<lambda>w. w\<lparr>activeId := a\<rparr>)
         (onChat (\<lambda>S. S\<lparr>chActive := a\<rparr>)
           (onStore (onApp (\<lambda>A. A\<lparr>asActive := a\<rparr>)) C)))"

text \<open>
  The map \<open>sessions\<close>, in the order of insertion, is read by every component, each of which has its
  own view of it. \<open>putSessions\<close> stores a new map and refreshes the views.
\<close>

definition liveStateOf :: "jobj \<Rightarrow> sessState" where
  "liveStateOf s =
     (let st = s ''state'' in
      if st = JStr (js ''running'') then SRunning
      else if st = JStr (js ''waiting'') then SWaiting
      else if st = JStr (js ''error'') then SError
      else if st = JStr (js ''disconnected'') then SDisconnected else SStandby)"

definition sessionView :: "int \<Rightarrow> jobj \<Rightarrow> session" where
  "sessionView i s = \<lparr>ssId = i, ssPinned = truthy (s ''pinned''), ssState = orText (s ''state'')\<rparr>"

definition providerText :: "(int \<times> jobj) list \<Rightarrow> int \<Rightarrow> jstr" where
  "providerText ss i = (case map_of ss i of None \<Rightarrow> [] | Some s \<Rightarrow> orText (s ''provider''))"

definition putSessions :: "(int \<times> jobj) list \<Rightarrow> client \<Rightarrow> client" where
  "putSessions ss C =
     onLive (\<lambda>w. w\<lparr>sessionState := (\<lambda>i. map_option liveStateOf (map_of ss i)), sessionProvider := providerText ss\<rparr>)
       (onSweep (\<lambda>w. w\<lparr>providerOf := providerText ss,
            enters := (enters w)\<lparr>sessionLive := (\<lambda>i. map_of ss i \<noteq> None)\<rparr>\<rparr>)
         (onStore (onApp (\<lambda>A. A\<lparr>asSessions := map (\<lambda>(i, s). (i, sessionView i s)) ss\<rparr>))
           (C\<lparr>clSessions := ss\<rparr>)))"

text \<open>\<open>Map.set\<close> keeps the place of a key that is there.\<close>

fun mapSet :: "int \<Rightarrow> 'a \<Rightarrow> (int \<times> 'a) list \<Rightarrow> (int \<times> 'a) list" where
  "mapSet k v [] = [(k, v)]"
| "mapSet k v ((l, w) # xs) = (if l = k then (k, v) # xs else (l, w) # mapSet k v xs)"

definition mapDelete :: "int \<Rightarrow> (int \<times> 'a) list \<Rightarrow> (int \<times> 'a) list" where
  "mapDelete k xs = filter (\<lambda>(l, _). l \<noteq> k) xs"

section \<open>Terminals\<close>

definition freshLiveTerm :: liveTerm where
  "freshLiveTerm = \<lparr>compactingSince = None, compactSeenAt = 0, compactDetectTail = [], liveStatusText = [],
     liveStatusHideTimer = None, liveLineOf = \<lparr>liveLineRow = None, liveLineCells = []\<rparr>\<rparr>"

definition ensureTerminal :: "int \<Rightarrow> client \<Rightarrow> client" where
  "ensureTerminal i C =
     (if clTerms C i \<noteq> None then C
      else onLive (\<lambda>w. w\<lparr>terminals := (terminals w)(i := Some freshLiveTerm)\<rparr>)
        (onStore (\<lambda>S. S\<lparr>stTail := (stTail S)(i := Some [])\<rparr>)
          (C\<lparr>clTerms := (clTerms C)(i := Some \<lparr>tmQueue = tqInit\<lparr>tqNow := clNow C\<rparr>,
               tmDecoder = freshDecoder, tmMounted = False\<rparr>)\<rparr>)))"

definition scheduleApprovalCheck :: "int \<Rightarrow> client \<Rightarrow> client" where
  "scheduleApprovalCheck i C = C\<lparr>clCheck := (clCheck C)(i := Some (clNow C + 300))\<rparr>"

definition fireApprovalCheck ::
  "(int \<Rightarrow> appState \<Rightarrow> appState) \<Rightarrow> clientEnv \<Rightarrow> int \<Rightarrow> client \<Rightarrow> client" where
  "fireApprovalCheck act E i C =
     (let C1 = C\<lparr>clCheck := (clCheck C)(i := None)\<rparr> in
      if activeIn C1 = Some i
      then onStore (detectApproval act ((ceEnv E i)\<lparr>enNow := clNow C, enProvider := providerIn C i\<rparr>) i) C1 else C1)"

text \<open>An operation on a terminal's backlog; a drained flush asks for an approval check.\<close>

definition onQueue :: "int \<Rightarrow> (provider \<Rightarrow> termQueue \<Rightarrow> termQueue) \<Rightarrow> client \<Rightarrow> client" where
  "onQueue i f C =
     (case clTerms C i of
        None \<Rightarrow> C
      | Some t \<Rightarrow>
          (let q = f (filterProvider (providerIn C i)) (tmQueue t);
               C1 = C\<lparr>clTerms := (clTerms C)(i := Some (t\<lparr>tmQueue := q\<rparr>))\<rparr>
           in if tqChecks q = tqChecks (tmQueue t) then C1 else scheduleApprovalCheck i C1))"

text \<open>
  \<open>attachTerminal\<close>: a terminal that has its element is flushed before it is put back into the page,
  a new one is opened (as soon as the page has a layout) and flushed.
\<close>

definition attachTerminal :: "clientEnv \<Rightarrow> int \<Rightarrow> client \<Rightarrow> client" where
  "attachTerminal E i C =
     (case clTerms C i of
        None \<Rightarrow> C
      | Some t \<Rightarrow>
          (let C1 = onLive syncLiveStatusDomForActive C in
           if tmMounted t then onQueue i (\<lambda>p. flushPending (ceBypass E) p True) C1
           else onQueue i (\<lambda>p. flushPending (ceBypass E) p False)
             (C1\<lparr>clTerms := (clTerms C1)(i := Some (t\<lparr>tmMounted := True\<rparr>))\<rparr>)))"

section \<open>Output arrives\<close>

definition CHAT_HISTORY_USER_TURN_MARKER :: jstr where
  "CHAT_HISTORY_USER_TURN_MARKER = [27, 93] @ js ''47777;user-turn'' @ [7]"

text \<open>\<open>s.split(sep)\<close> for a separator that is not empty.\<close>

fun splitStr :: "jstr \<Rightarrow> nat \<Rightarrow> jstr \<Rightarrow> jstr list" where
  "splitStr sep k [] = [[]]"
| "splitStr sep (Suc k) (c # s) = splitStr sep k s"
| "splitStr sep 0 (c # s) =
     (if starts_with sep (c # s) then [] # splitStr sep (length sep - 1) s
      else (case splitStr sep 0 s of [] \<Rightarrow> [[c]] | w # ws \<Rightarrow> (c # w) # ws))"

text \<open>The turns of a chunk, what the detectors read and what the widget gets.\<close>

definition turnParts :: "jstr \<Rightarrow> jstr list" where
  "turnParts t = splitStr CHAT_HISTORY_USER_TURN_MARKER 0 t"

definition approvalText :: "jstr \<Rightarrow> jstr" where
  "approvalText t = (if str_includes t CHAT_HISTORY_USER_TURN_MARKER then concat (turnParts t) else t)"

definition widgetBytes :: "jstr \<Rightarrow> byte list \<Rightarrow> byte list" where
  "widgetBytes t bs =
     (if str_includes t CHAT_HISTORY_USER_TURN_MARKER then utf8_encode (concat (turnParts t)) else bs)"

definition ptyData ::
  "(int \<Rightarrow> appState \<Rightarrow> appState) \<Rightarrow> clientEnv \<Rightarrow> int \<Rightarrow> byte list \<Rightarrow> client \<Rightarrow> client" where
  "ptyData act E i bs C0 =
     (let C1 = ensureTerminal i C0 in
      case clTerms C1 i of
        None \<Rightarrow> C1
      | Some t \<Rightarrow>
          (let isActive = (activeIn C1 = Some i);
               live = (isActive \<or> cePane E i);
               (txt, d) = decodeUnits (tmDecoder t) bs;
               C2 = C1\<lparr>clTerms := (clTerms C1)(i := Some (t\<lparr>tmDecoder := d\<rparr>))\<rparr>;
               C3 = onQueue i (\<lambda>p. arrive (ceBypass E) p live (widgetBytes txt bs)) C2;
               C4 = onStore (trackApprovalHintFromChunk act
                      ((ceEnv E i)\<lparr>enNow := clNow C3, enProvider := providerIn C3 i\<rparr>) i (approvalText txt)) C3;
               C5 = onLive (markCompactActivity i (approvalText txt)) C4;
               C6 = (if live then scheduleApprovalCheck i C5 else C5);
               C7 = (if isActive then onLive (scheduleLiveStatusExtract i) C6 else C6);
               C8 = onSweep (notifyResidueSweepOutput i)
                      (onSweep (\<lambda>w. w\<lparr>enters := notifyDeferredEnterOutput i (enters w)\<rparr>) C7)
           in if isAIProvider (providerIn C8 i) then onChat (feedParts i (turnParts txt)) C8 else C8))"

section \<open>Turning to a session\<close>

definition showView :: "clientEnv \<Rightarrow> int \<Rightarrow> chatState \<Rightarrow> chatState" where
  "showView E i S = viewModeChanged i (ceChat E i) S"

definition activateSession ::
  "(int \<Rightarrow> appState \<Rightarrow> appState) \<Rightarrow> clientEnv \<Rightarrow> int \<Rightarrow> client \<Rightarrow> client" where
  "activateSession act E i C =
     (let C1 = (case activeIn C of
                  None \<Rightarrow> C
                | Some a \<Rightarrow> if a \<noteq> i then onLine (saveInputStateFor a) C else C);
          C2 = onLine (restoreInputStateFor i) (setActiveSession (Some i) C1);
          C3 = attachTerminal E i (ensureTerminal i C2);
          C4 = onStore (\<lambda>S. setMultiQuestionBannerVisible (stMultiQ S i) S) C3;
          C5 = onStore (detectApproval act ((ceEnv E i)\<lparr>enNow := clNow C4, enProvider := providerIn C4 i\<rparr>) i) C4
      in onChat (rewireChatHistorySub (Some i)) (onChat (showView E i) C5))"

section \<open>Output sends nothing\<close>

text \<open>
  Everything that goes out to an agent: the messages to pseudo terminals, the texts and answers of
  the approval store, what the deferred carriage return and the residue sweep have sent, and the
  texts that wait for an image.
\<close>

definition outgoing :: "client \<Rightarrow> _" where
  "outgoing C = (pgWire (clPage C), typed (pgStore (clPage C)), trace (enters (pgSweep (clPage C))),
     cleared (pgSweep (clPage C)), pgJobs (clPage C))"

lemmas client_on = onPage_def onStore_def onChat_def onSweep_def onLine_def onLive_def

lemma outgoing_on [simp]:
  "outgoing (onLive f C) = outgoing C" "outgoing (onChat g C) = outgoing C" "outgoing (onLine h C) = outgoing C"
  "outgoing (C\<lparr>clTerms := ts\<rparr>) = outgoing C" "outgoing (C\<lparr>clCheck := cs\<rparr>) = outgoing C"
  "typed (k (pgStore (clPage C))) = typed (pgStore (clPage C)) \<Longrightarrow> outgoing (onStore k C) = outgoing C"
  "trace (enters (l (pgSweep (clPage C)))) = trace (enters (pgSweep (clPage C)))
    \<Longrightarrow> cleared (l (pgSweep (clPage C))) = cleared (pgSweep (clPage C)) \<Longrightarrow> outgoing (onSweep l C) = outgoing C"
  by (simp_all add: outgoing_def client_on)

lemma notify_sends_nothing [simp]:
  "trace (notifyDeferredEnterOutput i w) = trace w"
  "trace (enters (notifyResidueSweepOutput i v)) = trace (enters v)"
  "cleared (notifyResidueSweepOutput i v) = cleared v"
  by (simp_all add: notifyDeferredEnterOutput_def armIdle_def notifyResidueSweepOutput_def sweepArmIdle_def
      setSweep_def Let_def split: option.split)

lemma terminal_sends_nothing [simp]:
  "outgoing (ensureTerminal i C) = outgoing C" "outgoing (scheduleApprovalCheck i C) = outgoing C"
  "outgoing (onQueue i f C) = outgoing C" "outgoing (attachTerminal E i C) = outgoing C"
  "outgoing (setActiveSession a C) = outgoing C"
  by (simp_all add: ensureTerminal_def scheduleApprovalCheck_def onQueue_def attachTerminal_def
      setActiveSession_def Let_def split: option.split)

lemma activation_sends_nothing: "outgoing (activateSession act E i C) = outgoing C"
  by (simp add: activateSession_def Let_def sends.detect split: option.split)

lemma output_sends_nothing_step: "outgoing (ptyData act E i bs C) = outgoing C"
  by (simp add: ptyData_def Let_def sends.track split: option.split prod.split)

lemma check_sends_nothing: "outgoing (fireApprovalCheck act E i C) = outgoing C"
  by (simp add: fireApprovalCheck_def Let_def sends.detect)

text \<open>
  What happens without the user typing or clicking an answer: output, activations, the check timer,
  and what the widget's backlog does by itself.
\<close>

datatype clientEvent =
    Output int "byte list"
  | Activate int
  | CheckTimer int
  | Backlog int tqEvent

fun clientStep :: "(int \<Rightarrow> appState \<Rightarrow> appState) \<Rightarrow> clientEnv \<Rightarrow> clientEvent \<Rightarrow> client \<Rightarrow> client" where
  "clientStep act E (Output i bs) C = ptyData act E i bs C"
| "clientStep act E (Activate i) C = activateSession act E i C"
| "clientStep act E (CheckTimer i) C = fireApprovalCheck act E i C"
| "clientStep act E (Backlog i e) C = onQueue i (\<lambda>p. tqStep (ceBypass E) p e) C"

fun clientRun :: "(int \<Rightarrow> appState \<Rightarrow> appState) \<Rightarrow> clientEnv \<Rightarrow> clientEvent list \<Rightarrow> client \<Rightarrow> client" where
  "clientRun act E [] C = C"
| "clientRun act E (e # es) C = clientRun act E es (clientStep act E e C)"


section \<open>Output stays in its session\<close>

definition sessionPart :: "int \<Rightarrow> client \<Rightarrow> _" where
  "sessionPart j C =
     (let P = clPage C; h = pgChat P in
      ((own j (pgStore P), clTerms C j, terminals (clLive C) j),
       (chHistory h j, chSeq h j, chBuf h j, chTimer h j),
       (pendingOf (enters (pgSweep P)) j, sweeps (pgSweep P) j),
       (ilSaved (pgLine P) j, pgTrans P j, clCheck C j, clDismiss C j)))"

lemma sessionPart_on:
  "terminals (f (clLive C)) j = terminals (clLive C) j \<Longrightarrow> sessionPart j (onLive f C) = sessionPart j C"
  "(chHistory (g (pgChat (clPage C))) j, chSeq (g (pgChat (clPage C))) j, chBuf (g (pgChat (clPage C))) j,
      chTimer (g (pgChat (clPage C))) j)
    = (chHistory (pgChat (clPage C)) j, chSeq (pgChat (clPage C)) j, chBuf (pgChat (clPage C)) j, chTimer (pgChat (clPage C)) j)
    \<Longrightarrow> sessionPart j (onChat g C) = sessionPart j C"
  "own j (k (pgStore (clPage C))) = own j (pgStore (clPage C)) \<Longrightarrow> sessionPart j (onStore k C) = sessionPart j C"
  "pendingOf (enters (l (pgSweep (clPage C)))) j = pendingOf (enters (pgSweep (clPage C))) j
    \<Longrightarrow> sweeps (l (pgSweep (clPage C))) j = sweeps (pgSweep (clPage C)) j \<Longrightarrow> sessionPart j (onSweep l C) = sessionPart j C"
  "ts j = clTerms C j \<Longrightarrow> sessionPart j (C\<lparr>clTerms := ts\<rparr>) = sessionPart j C"
  "cs j = clCheck C j \<Longrightarrow> sessionPart j (C\<lparr>clCheck := cs\<rparr>) = sessionPart j C"
  by (simp_all add: sessionPart_def client_on Let_def)

lemma notify_other:
  "j \<noteq> i \<Longrightarrow> pendingOf (notifyDeferredEnterOutput i w) j = pendingOf w j"
  "j \<noteq> i \<Longrightarrow> sweeps (notifyResidueSweepOutput i v) j = sweeps v j"
  "enters (notifyResidueSweepOutput i v) = enters v"
  by (simp_all add: notifyDeferredEnterOutput_def armIdle_def notifyResidueSweepOutput_def sweepArmIdle_def
      setSweep_def Let_def split: option.split)

lemma elapsed_other:
  "activeSessionId w = Some i \<Longrightarrow> j \<noteq> i \<Longrightarrow> terminals (snd (activeCompactElapsedSec w)) j = terminals w j"
  "activeSessionId (snd (activeCompactElapsedSec w)) = activeSessionId w"
  by (simp_all add: activeCompactElapsedSec_def activeTerm_def updTerm_def split: option.split)

lemma tick_other [simp]:
  "activeSessionId (ensureCompactTick w) = activeSessionId w" "terminals (ensureCompactTick w) = terminals w"
  "activeSessionId (stopCompactTick w) = activeSessionId w" "terminals (stopCompactTick w) = terminals w"
  by (simp_all add: ensureCompactTick_def stopCompactTick_def)

lemma render_other:
  "activeSessionId w = Some i \<Longrightarrow> j \<noteq> i \<Longrightarrow> terminals (renderLiveStatusDom m l w) j = terminals w j"
  using elapsed_other(1) [of w i j] by (simp add: renderLiveStatusDom_def Let_def case_prod_beta)

lemma sync_other:
  assumes "activeSessionId w = Some i" "j \<noteq> i"
  shows "terminals (syncLiveStatusDomForActive w) j = terminals w j"
  using elapsed_other [of w] render_other [OF _ assms(2)] assms
  by (simp add: syncLiveStatusDomForActive_def Let_def case_prod_beta split: option.split)

lemma updTerm_other: "j \<noteq> i \<Longrightarrow> terminals (updTerm i f w) j = terminals w j"
  "activeSessionId (updTerm i f w) = activeSessionId w"
  by (simp_all add: updTerm_def)

lemma compact_other: "j \<noteq> i \<Longrightarrow> terminals (markCompactActivity i t w) j = terminals w j"
  by (simp add: markCompactActivity_def noteCompactStart_def noteCompactDone_def Let_def updTerm_other
      sync_other [where i = i] render_other [where i = i] split: option.split)

lemma extract_other: "terminals (scheduleLiveStatusExtract i w) = terminals w"
  by (simp add: scheduleLiveStatusExtract_def Let_def)

definition chatPart :: "int \<Rightarrow> chatState \<Rightarrow> _" where
  "chatPart j S = (chHistory S j, chSeq S j, chBuf S j, chTimer S j)"

lemma chatPart_same: "sameStore S T \<Longrightarrow> chatPart j T = chatPart j S"
  by (simp add: chatPart_def sameStore_def)

lemma chatPart_push: "j \<noteq> i \<Longrightarrow> chatPart j (pushMessage i m S) = chatPart j S"
  using same_notify by (simp add: pushMessage_def chatPart_def sameStore_def chatHistoryNextId_def Let_def)

lemma chatPart_feed: "j \<noteq> i \<Longrightarrow> chatPart j (feedParts i ps S) = chatPart j S"
proof (induction i ps S rule: feedParts.induct)
  case (2 i p S)
  then show ?case by (simp add: chatHistoryAppendOutput_def chatPart_def)
next
  case (3 i p q ps S)
  have a: "chatPart j (if p = [] then S else chatHistoryAppendOutput i p S) = chatPart j S"
    using 3(2) by (simp add: chatHistoryAppendOutput_def chatPart_def)
  have e: "chatPart j (emptyBuf i T) = chatPart j T" "chatPart j (dropTimer i T) = chatPart j T" for T
    using 3(2) by (simp_all add: emptyBuf_def dropTimer_def chatPart_def)
  have c: "chatPart j (chatHistoryCommitOutputOrSeed i T) = chatPart j T" for T
    using chatPart_push [OF 3(2)] e
    by (simp add: chatHistoryCommitOutputOrSeed_def chatHistoryCommitOutput_def Let_def split: option.split)
  show ?case using 3 a c by simp
qed simp

lemma feed_part:
  "j \<noteq> i \<Longrightarrow> sessionPart j (onChat (feedParts i ps) C) = sessionPart j C"
  by (rule sessionPart_on(2)) (use chatPart_feed [of j i ps "pgChat (clPage C)"] in \<open>simp add: chatPart_def\<close>)

lemma queue_part: "j \<noteq> i \<Longrightarrow> sessionPart j (onQueue i f C) = sessionPart j C"
  by (simp add: onQueue_def scheduleApprovalCheck_def sessionPart_on Let_def split: option.split)

lemma ensure_part:
  assumes "j \<noteq> i" shows "sessionPart j (ensureTerminal i C) = sessionPart j C"
proof -
  have o: "own j (S\<lparr>stTail := (stTail S)(i \<mapsto> [])\<rparr>) = own j S" for S
    by (rule own_update) (use assms in simp)
  show ?thesis using assms by (simp add: ensureTerminal_def sessionPart_on o)
qed

lemma output_part:
  assumes n: "j \<noteq> i"
  shows "sessionPart j (ptyData act E i bs C) = sessionPart j C"
proof -
  have sweep: "sessionPart j (onSweep (notifyResidueSweepOutput i) D) = sessionPart j D" for D
    by (rule sessionPart_on(4)) (use n in \<open>simp_all add: notify_other\<close>)
  have enter: "sessionPart j (onSweep (\<lambda>w. w\<lparr>enters := notifyDeferredEnterOutput i (enters w)\<rparr>) D) = sessionPart j D" for D
    by (rule sessionPart_on(4)) (use n in \<open>simp_all add: notify_other\<close>)
  have track: "sessionPart j (onStore (trackApprovalHintFromChunk act F i t) D) = sessionPart j D" for F t D
    by (rule sessionPart_on(3)) (use n in \<open>simp add: own_track\<close>)
  have live: "sessionPart j (onLive (markCompactActivity i t) D) = sessionPart j D"
      "sessionPart j (onLive (scheduleLiveStatusExtract i) D) = sessionPart j D" for t D
    by (rule sessionPart_on(1), use n in \<open>simp add: compact_other extract_other\<close>)+
  have check: "sessionPart j (scheduleApprovalCheck i D) = sessionPart j D" for D
    using n by (simp add: scheduleApprovalCheck_def sessionPart_on)
  show ?thesis
    using n by (simp add: ptyData_def Let_def case_prod_beta feed_part sweep enter live check track queue_part
        ensure_part sessionPart_on(5) split: option.split)
qed


text \<open>The client as it starts.\<close>

definition clientInit :: client where
  "clientInit = \<lparr>clSessions = [],
     clPage = \<lparr>pgStore = emptyStore, pgChat = chatInit,
       pgSweep = \<lparr>enters = deInit (\<lambda>_. False) 0, activeId = None, providerOf = (\<lambda>_. []), screenOf = (\<lambda>_. []),
                  sweeps = (\<lambda>_. None), cleared = []\<rparr>,
       pgLine = emptyLine, pgTrans = (\<lambda>_. None), pgLastSend = 0, pgInFlight = {}, pgNudgeOff = {},
       pgOverride = 0, pgJobs = [], pgWire = []\<rparr>,
     clLive = \<lparr>now = 0, activeSessionId = None, terminals = (\<lambda>_. None), sessionState = (\<lambda>_. None),
       sessionProvider = (\<lambda>_. []), compactTickTimer = None, extractTimers = (\<lambda>_. None),
       runningSince = (\<lambda>_. None), mobileView = False,
       pill = \<lparr>pHidden = True, pIdle = False, pWaiting = False, pText = Plain [], pBarHidden = True,
               pLongproc = None\<rparr>\<rparr>,
     clTerms = (\<lambda>_. None), clCheck = (\<lambda>_. None), clDismiss = (\<lambda>_. None)\<rparr>"

definition quietEnv :: clientEnv where
  "quietEnv = \<lparr>ceBypass = False, cePane = (\<lambda>_. False),
     ceEnv = (\<lambda>_. \<lparr>enProvider = [], enAttached = False, enRows = 0, enScreen = [], enNow = 0,
                   enTriggers = (\<lambda>_. []), enCommon = []\<rparr>), ceChat = (\<lambda>_. False)\<rparr>"


text \<open>
  The widget is given bytes, not the decoded text, unless the chunk holds a turn marker: a character
  that was cut at the end of the chunk before is then written twice, first in part.
\<close>

lemma split_character_is_doubled:
  "(let (t1, d1) = decodeUnits freshDecoder [227, 129];
        bs = [130] @ utf8_encode CHAT_HISTORY_USER_TURN_MARKER;
        (t2, d2) = decodeUnits d1 bs
    in widgetBytes t1 [227, 129] @ widgetBytes t2 bs) = [227, 129, 227, 129, 130]"
  by code_simp

end
