(* ===== verification/Removal.thy ===== *)
theory Removal
  imports Client
begin

text \<open>
  Sessions end: \<open>removeLocalSession\<close> with its clean-up functions, and the resets of a session's
  history (\<open>src/web/src/app.ts\<close>), on the whole client. The managers of panes and tabs and the
  drawing of the list are left out.
\<close>

section \<open>Resets\<close>

text \<open>\<open>hideActionBar(undefined)\<close>: nothing that is kept per session is touched.\<close>

definition hideBar :: "store \<Rightarrow> store" where
  "hideBar S = (onApp (\<lambda>A. A\<lparr>asBarVisible := False\<rparr>) S)
     \<lparr>stRendered := None, stBarFocus := -1, stBatchFocus := -1, stMultiFocus := -1\<rparr>"

text \<open>Of the filters' state only the two carries that the code names are emptied.\<close>

definition resetDisplay :: "displayState \<Rightarrow> displayState" where
  "resetDisplay d = d\<lparr>hubFilter := ([], snd (hubFilter d)), screenClearSeqCarry := []\<rparr>"

definition resetTerminalHistoryForSession :: "int \<Rightarrow> client \<Rightarrow> client" where
  "resetTerminalHistoryForSession i C =
     (case clTerms C i of
        None \<Rightarrow> C
      | Some t \<Rightarrow>
          onStore (\<lambda>S. S\<lparr>stTail := (stTail S)(i := Some [])\<rparr>)
            (C\<lparr>clTerms := (clTerms C)(i := Some (t\<lparr>tmQueue :=
               (tmQueue t)\<lparr>tqPending := [], tqTotal := 0, tqDisplay := resetDisplay (tqDisplay (tmQueue t))\<rparr>\<rparr>))\<rparr>))"

definition clearMessages :: "jobj \<Rightarrow> jobj" where
  "clearMessages s = s(''first_message'' := JStr [], ''last_message'' := JStr [])"

definition dropMultiQuestion :: "int \<Rightarrow> store \<Rightarrow> store" where
  "dropMultiQuestion i S =
     (let S1 = S\<lparr>stMultiQ := (stMultiQ S)(i := False)\<rparr>;
          S2 = (if stMultiQ S i \<and> activeOf S = Some i then setMultiQuestionBannerVisible False S1 else S1)
      in S2\<lparr>stDismissed := (stDismissed S2)(i := False), stLatch := (stLatch S2)(i := None)\<rparr>)"

definition resetApproval :: "int \<Rightarrow> store \<Rightarrow> store" where
  "resetApproval i S =
     (let S1 = dropMultiQuestion i (onApp (\<lambda>A. A\<lparr>asVisible := (asVisible A)(i := False)\<rparr>) S);
          S2 = clearSequentialChoiceState i S1
      in onApp (removeApprovalAutoSwitchTarget i)
           (S2\<lparr>stRaw := (stRaw S2)(i := None), stSource := (stSource S2)(i := None),
               stConsumedTimer := (stConsumedTimer S2)(i := False), stConsumed := (stConsumed S2)(i := None),
               stSwitchCand := (stSwitchCand S2)(i := None), stSel := (stSel S2)(i := None),
               stSuppress := (stSuppress S2)(i := None)\<rparr>))"

definition resetLocalSessionHistory :: "int \<Rightarrow> client \<Rightarrow> client" where
  "resetLocalSessionHistory i C =
     (let C1 = (case map_of (clSessions C) i of
                  None \<Rightarrow> C | Some s \<Rightarrow> putSessions (mapSet i (clearMessages s) (clSessions C)) C);
          C2 = onChat (resetChatHistoryForSession i)
                 (onStore (resetApproval i) (resetTerminalHistoryForSession i C1))
      in if activeIn C2 = Some i then onChat (mountChatPane (Some i)) (onStore hideBar C2) else C2)"

text \<open>\<open>ids\<close> lists the sessions that have a terminal, \<open>chats\<close> those the chat store knows.\<close>

definition resetAllLocalSessionHistory :: "int list \<Rightarrow> int list \<Rightarrow> client \<Rightarrow> client" where
  "resetAllLocalSessionHistory ids chats C =
     (let C1 = putSessions (map (\<lambda>(i, s). (i, clearMessages s)) (clSessions C)) C;
          C2 = fold resetTerminalHistoryForSession ids C1;
          C3 = onStore (\<lambda>S. onApp (\<lambda>A. A\<lparr>asVisible := (\<lambda>_. False), asAnswered := (\<lambda>_. None), asQueue := []\<rparr>)
                 (S\<lparr>stMultiQ := (\<lambda>_. False), stDismissed := (\<lambda>_. False), stLatch := (\<lambda>_. None),
                    stSeq := (\<lambda>_. None), stRaw := (\<lambda>_. None), stSource := (\<lambda>_. None),
                    stConsumedTimer := (\<lambda>_. False), stConsumed := (\<lambda>_. None), stSwitchCand := (\<lambda>_. None),
                    stSel := (\<lambda>_. None), stSuppress := (\<lambda>_. None)\<rparr>)) C2;
          C4 = onStore (setMultiQuestionBannerVisible False) (onStore hideBar (onChat (resetAllChatHistory chats) C3))
      in case activeIn C4 of None \<Rightarrow> C4 | Some a \<Rightarrow> onChat (mountChatPane (Some a)) C4)"

section \<open>Removal\<close>

definition cleanupRemovedSessionState :: "int \<Rightarrow> client \<Rightarrow> client" where
  "cleanupRemovedSessionState i C =
     (let C1 = C\<lparr>clCheck := (clCheck C)(i := None)\<rparr>;
          C2 = onStore (\<lambda>S. S\<lparr>stRescan := (stRescan S)(i := False),
                              stConsumedTimer := (stConsumedTimer S)(i := False)\<rparr>) C1;
          C3 = onSweep (cancelResidueSweep i) (onSweep (\<lambda>w. w\<lparr>enters := cancelDeferredEnter i (enters w)\<rparr>) C2)
      in onPage (\<lambda>P. P\<lparr>pgInFlight := pgInFlight P - {i}\<rparr>) C3)"

definition forgetApproval :: "int \<Rightarrow> store \<Rightarrow> store" where
  "forgetApproval i S =
     (let S1 = dropMultiQuestion i (onApp (\<lambda>A. A\<lparr>asVisible := (asVisible A)(i := False)\<rparr>) S);
          S2 = onApp (removeApprovalAutoSwitchTarget i) S1;
          S3 = onApp (\<lambda>A. A\<lparr>asAnswered := (asAnswered A)(i := None)\<rparr>)
                 (S2\<lparr>stRaw := (stRaw S2)(i := None), stSource := (stSource S2)(i := None),
                     stConsumed := (stConsumed S2)(i := None)\<rparr>);
          S4 = cancelApprovalHintConfirm i
                 (clearSequentialChoiceState i (S3\<lparr>stSel := (stSel S3)(i := None)\<rparr>))
      in S4\<lparr>stSuppress := (stSuppress S4)(i := None)\<rparr>)"

text \<open>The card above the removed one, the one below for the first.\<close>

fun neighbourIn :: "int \<Rightarrow> int option \<Rightarrow> int list \<Rightarrow> int option" where
  "neighbourIn i before [] = None"
| "neighbourIn i before (k # ks) =
     (if k = i then (case before of Some a \<Rightarrow> Some a | None \<Rightarrow> (case ks of [] \<Rightarrow> None | n # _ \<Rightarrow> Some n))
      else neighbourIn i (Some k) ks)"

definition appOf :: "client \<Rightarrow> appState" where
  "appOf C = stApp (pgStore (clPage C))"

definition neighbourOf :: "int \<Rightarrow> client \<Rightarrow> int option" where
  "neighbourOf i C =
     (if activeIn C = Some i then neighbourIn i None (map ssId (orderSessions (appOf C))) else None)"

text \<open>\<open>maybeAutoSwitchToNextApproval\<close> and the first lines of \<open>render\<close>, on the client.\<close>

fun switchLoop ::
  "(int \<Rightarrow> appState \<Rightarrow> appState) \<Rightarrow> clientEnv \<Rightarrow> int list \<Rightarrow> client \<Rightarrow> client" where
  "switchLoop act E [] C = onStore (onApp (\<lambda>A. A\<lparr>asQueue := []\<rparr>)) C"
| "switchLoop act E (n # q) C =
     (if stale (appOf C) n then switchLoop act E q C
      else onStore (onApp (\<lambda>A. A\<lparr>asInProgress := False\<rparr>))
             (activateSession act E n (onStore (onApp (\<lambda>A. A\<lparr>asQueue := q, asInProgress := True\<rparr>)) C)))"

definition autoSwitch :: "(int \<Rightarrow> appState \<Rightarrow> appState) \<Rightarrow> clientEnv \<Rightarrow> client \<Rightarrow> client" where
  "autoSwitch act E C = (if mayAutoSwitch (appOf C) then switchLoop act E (asQueue (appOf C)) C else C)"

definition renderFirst :: "(int \<Rightarrow> appState \<Rightarrow> appState) \<Rightarrow> clientEnv \<Rightarrow> client \<Rightarrow> client" where
  "renderFirst act E C =
     (case clSessions C of
        [] \<Rightarrow> C
      | (k, _) # _ \<Rightarrow> if activeIn C = None then activateSession act E k C else C)"

text \<open>Everything up to the choice of the next session.\<close>

definition dropSession :: "int \<Rightarrow> client \<Rightarrow> client" where
  "dropSession i C =
     (let C1 = cleanupRemovedSessionState i (C\<lparr>clDismiss := (clDismiss C)(i := None)\<rparr>);
          C2 = onPage (\<lambda>P. P\<lparr>pgTrans := (pgTrans P)(i := None)\<rparr>) (onChat (onChatHistorySessionRemoved i) C1);
          C3 = onStore (onApp (removeFromSessionOrder i)) (putSessions (mapDelete i (clSessions C2)) C2);
          C4 = onLive (\<lambda>w. w\<lparr>terminals := (terminals w)(i := None)\<rparr>)
                 (onStore (\<lambda>S. S\<lparr>stTail := (stTail S)(i := None)\<rparr>) (C3\<lparr>clTerms := (clTerms C3)(i := None)\<rparr>));
          C5 = onStore (forgetApproval i) C4
      in onChat (onChatHistorySessionRemoved i) (onLine (cleanupSessionInputState i) C5))"

definition leaveSession :: "int \<Rightarrow> client \<Rightarrow> client" where
  "leaveSession i C =
     onStore (setMultiQuestionBannerVisible False) (onStore hideBar (setActiveSession None C))"

definition removeLocalSession ::
  "(int \<Rightarrow> appState \<Rightarrow> appState) \<Rightarrow> clientEnv \<Rightarrow> int \<Rightarrow> client \<Rightarrow> client" where
  "removeLocalSession act E i C =
     (let neighbour = neighbourOf i C; C1 = dropSession i C in
      if activeIn C1 = Some i then
        (let C2 = leaveSession i C1 in
         case clSessions C2 of
           [] \<Rightarrow> renderFirst act E (autoSwitch act E C2)
         | (k, _) # _ \<Rightarrow>
             (case neighbour of
                Some n \<Rightarrow> if List.member (map fst (clSessions C2)) n then activateSession act E n C2
                          else activateSession act E k C2
              | None \<Rightarrow> activateSession act E k C2))
      else renderFirst act E (autoSwitch act E C1))"

text \<open>After a restart of the Hub; \<open>ids\<close> lists the known sessions, terminals and histories.\<close>

definition purgeLocalStateForHubRestart ::
  "(int \<Rightarrow> appState \<Rightarrow> appState) \<Rightarrow> clientEnv \<Rightarrow> int list \<Rightarrow> client \<Rightarrow> client" where
  "purgeLocalStateForHubRestart act E ids C = fold (removeLocalSession act E) ids C"

section \<open>Another session is activated\<close>

lemma appOf_on [simp]:
  "appOf (onLive f C) = appOf C" "appOf (onChat g C) = appOf C" "appOf (onLine h C) = appOf C"
  "appOf (onSweep l C) = appOf C" "appOf (C\<lparr>clTerms := ts\<rparr>) = appOf C" "appOf (C\<lparr>clCheck := cs\<rparr>) = appOf C"
  "appOf (C\<lparr>clDismiss := ds\<rparr>) = appOf C" "appOf (C\<lparr>clSessions := ss\<rparr>) = appOf C"
  "appOf (onStore k C) = stApp (k (pgStore (clPage C)))"
  by (simp_all add: appOf_def client_on)

lemma terminal_app [simp]:
  "appOf (ensureTerminal i C) = appOf C" "appOf (scheduleApprovalCheck i C) = appOf C"
  "appOf (onQueue i f C) = appOf C" "appOf (attachTerminal E i C) = appOf C"
  by (simp_all add: ensureTerminal_def scheduleApprovalCheck_def onQueue_def attachTerminal_def Let_def appOf_def client_on
      split: option.split)

lemma activation_app:
  assumes m: "minds j act" and n: "j \<noteq> k"
  shows "leftInApp j (appOf (activateSession act E k C)) = leftInApp j (appOf C)"
proof -
  have d: "leftInApp j (stApp (detectApproval act F k S)) = leftInApp j (stApp S)" for F S
    by (rule left_detect [OF m n])
  have p: "stApp (pgStore (clPage D)) = appOf D" for D by (simp add: appOf_def)
  have a: "leftInApp j (appOf (setActiveSession a D)) = leftInApp j (appOf D)" for a D
    by (simp add: setActiveSession_def onApp_def) (simp add: appOf_def)
  show ?thesis
    unfolding activateSession_def Let_def
    by (simp add: d p a setMultiQuestionBannerVisible_def split: option.split)
qed

definition aside :: "int \<Rightarrow> client \<Rightarrow> (int \<times> jobj) list \<times> bool \<times> bool" where
  "aside j C = (clSessions C, j \<in> pgInFlight (clPage C), j \<in> chRestored (pgChat (clPage C)))"

lemma aside_on [simp]:
  "aside j (onLive f C) = aside j C" "aside j (onLine h C) = aside j C" "aside j (onSweep l C) = aside j C"
  "aside j (onStore k C) = aside j C" "aside j (C\<lparr>clTerms := ts\<rparr>) = aside j C" "aside j (C\<lparr>clCheck := cs\<rparr>) = aside j C"
  "chRestored (g (pgChat (clPage C))) = chRestored (pgChat (clPage C)) \<Longrightarrow> aside j (onChat g C) = aside j C"
  by (simp_all add: aside_def client_on)

lemma restored_view [simp]:
  "chRestored (mountChatPane x S) = chRestored S" "chRestored (viewModeChanged k c S) = chRestored S"
  "chRestored (rewireChatHistorySub y S) = chRestored S"
  by (simp_all add: viewModeChanged_def mountChatPane_def restoreBegin_def rewireChatHistorySub_def subscribe_def
      unsubscribe_def Let_def split: option.split)

lemma activation_aside: "aside j (activateSession act E k C) = aside j C"
  by (simp add: activateSession_def setActiveSession_def attachTerminal_def onQueue_def scheduleApprovalCheck_def
      ensureTerminal_def showView_def Let_def split: option.split)

lemma save_part: "j \<noteq> a \<Longrightarrow> sessionPart j (onLine (saveInputStateFor a) C) = sessionPart j C"
  by (simp add: sessionPart_def client_on saveInputStateFor_def Let_def)

lemma restore_part: "sessionPart j (onLine (restoreInputStateFor a) C) = sessionPart j C"
  by (simp add: sessionPart_def client_on restoreInputStateFor_def Let_def split: option.split)

lemma active_part: "sessionPart j (setActiveSession a C) = sessionPart j C"
  by (simp add: setActiveSession_def sessionPart_on onApp_def)

lemma chat_view_part:
  "sessionPart j (onChat (rewireChatHistorySub y) C) = sessionPart j C" "sessionPart j (onChat (showView E k) C) = sessionPart j C"
  "sessionPart j (onChat (mountChatPane z) C) = sessionPart j C"
  using same_rewire same_view same_mount
  by (auto intro!: sessionPart_on(2) simp: showView_def sameStore_def)

lemma attach_part:
  assumes "j \<noteq> k" "activeSessionId (clLive C) = Some k"
  shows "sessionPart j (attachTerminal E k C) = sessionPart j C"
proof -
  have "sessionPart j (onLive syncLiveStatusDomForActive C) = sessionPart j C"
    by (rule sessionPart_on(1)) (use assms in \<open>simp add: sync_other\<close>)
  then show ?thesis
    using assms by (simp add: attachTerminal_def Let_def queue_part sessionPart_on(5) client_on split: option.split)
qed

lemma live_active:
  "activeSessionId (clLive (ensureTerminal k C)) = activeSessionId (clLive C)"
  "activeSessionId (clLive (onLine h C)) = activeSessionId (clLive C)"
  "activeSessionId (clLive (setActiveSession a C)) = a"
  by (simp_all add: ensureTerminal_def setActiveSession_def client_on)

lemma activation_part:
  assumes n: "j \<noteq> k" and a: "activeIn C \<noteq> Some j"
  shows "sessionPart j (activateSession act E k C) = sessionPart j C"
proof -
  have d: "sessionPart j (onStore (detectApproval act F k) D) = sessionPart j D" for F D
    by (rule sessionPart_on(3)) (use n in \<open>simp add: own_detect\<close>)
  have b: "sessionPart j (onStore (\<lambda>S. setMultiQuestionBannerVisible (stMultiQ S k) S) D) = sessionPart j D" for D
    by (rule sessionPart_on(3)) simp
  have s: "sessionPart j (case activeIn C of None \<Rightarrow> C
      | Some a \<Rightarrow> if a \<noteq> k then onLine (saveInputStateFor a) C else C) = sessionPart j C"
    using a by (auto simp: save_part split: option.split)
  show ?thesis
    unfolding activateSession_def Let_def
    by (simp add: chat_view_part d b attach_part live_active n ensure_part restore_part active_part s)
qed

section \<open>What is forgotten\<close>

text \<open>Nothing that could reach a new session of the same number, as far as the removal clears it.\<close>

definition forgotten :: "int \<Rightarrow> client \<Rightarrow> bool" where
  "forgotten i C \<longleftrightarrow>
     (let P = clPage C; S = pgStore P; H = pgChat P in
      \<not> List.member (map fst (clSessions C)) i \<and> leftInApp i (stApp S) = Some (False, False, None)
      \<and> stRaw S i = None \<and> stSource S i = None \<and> stConsumed S i = None \<and> \<not> stConsumedTimer S i
      \<and> stSel S i = None \<and> stSeq S i = None \<and> stHintTimer S i = None \<and> stSuppress S i = None
      \<and> \<not> stDismissed S i \<and> stLatch S i = None \<and> \<not> stMultiQ S i \<and> \<not> stRescan S i \<and> stTail S i = None
      \<and> clTerms C i = None \<and> terminals (clLive C) i = None
      \<and> chHistory H i = None \<and> chSeq H i = None \<and> chBuf H i = None \<and> chTimer H i = None \<and> i \<notin> chRestored H
      \<and> pendingOf (enters (pgSweep P)) i = None \<and> sweeps (pgSweep P) i = None
      \<and> ilSaved (pgLine P) i = None \<and> pgTrans P i = None \<and> i \<notin> pgInFlight P
      \<and> clCheck C i = None \<and> clDismiss C i = None)"

lemma forgotten_cong:
  assumes "sessionPart i D = sessionPart i C" "aside i D = aside i C" "leftInApp i (appOf D) = leftInApp i (appOf C)"
    "forgotten i C"
  shows "forgotten i D"
  using assms unfolding forgotten_def sessionPart_def aside_def appOf_def own_def Let_def by simp

lemma activation_forgotten:
  assumes "minds i act" "i \<noteq> k" "activeIn C \<noteq> Some i" "forgotten i C"
  shows "forgotten i (activateSession act E k C)"
  using forgotten_cong [OF activation_part [OF assms(2,3)] activation_aside activation_app [OF assms(1,2)] assms(4)] .

lemma on_parts [simp]:
  "pgStore (clPage (onStore k C)) = k (pgStore (clPage C))" "pgChat (clPage (onStore k C)) = pgChat (clPage C)"
  "pgSweep (clPage (onStore k C)) = pgSweep (clPage C)" "pgLine (clPage (onStore k C)) = pgLine (clPage C)"
  "pgTrans (clPage (onStore k C)) = pgTrans (clPage C)" "pgInFlight (clPage (onStore k C)) = pgInFlight (clPage C)"
  "pgStore (clPage (onChat g C)) = pgStore (clPage C)" "pgChat (clPage (onChat g C)) = g (pgChat (clPage C))"
  "pgSweep (clPage (onChat g C)) = pgSweep (clPage C)" "pgLine (clPage (onChat g C)) = pgLine (clPage C)"
  "pgTrans (clPage (onChat g C)) = pgTrans (clPage C)" "pgInFlight (clPage (onChat g C)) = pgInFlight (clPage C)"
  "pgStore (clPage (onSweep l C)) = pgStore (clPage C)" "pgChat (clPage (onSweep l C)) = pgChat (clPage C)"
  "pgSweep (clPage (onSweep l C)) = l (pgSweep (clPage C))" "pgLine (clPage (onSweep l C)) = pgLine (clPage C)"
  "pgTrans (clPage (onSweep l C)) = pgTrans (clPage C)" "pgInFlight (clPage (onSweep l C)) = pgInFlight (clPage C)"
  "pgStore (clPage (onLine h C)) = pgStore (clPage C)" "pgChat (clPage (onLine h C)) = pgChat (clPage C)"
  "pgSweep (clPage (onLine h C)) = pgSweep (clPage C)" "pgLine (clPage (onLine h C)) = h (pgLine (clPage C))"
  "pgTrans (clPage (onLine h C)) = pgTrans (clPage C)" "pgInFlight (clPage (onLine h C)) = pgInFlight (clPage C)"
  "clPage (onLive f C) = clPage C" "clLive (onLive f C) = f (clLive C)" "clPage (onPage q C) = q (clPage C)"
  by (simp_all add: client_on)

lemma on_tops [simp]:
  "clSessions (onStore k C) = clSessions C" "clSessions (onChat g C) = clSessions C" "clSessions (onSweep l C) = clSessions C"
  "clSessions (onLine h C) = clSessions C" "clSessions (onLive f C) = clSessions C" "clSessions (onPage q C) = clSessions C"
  "clTerms (onStore k C) = clTerms C" "clTerms (onChat g C) = clTerms C" "clTerms (onSweep l C) = clTerms C"
  "clTerms (onLine h C) = clTerms C" "clTerms (onLive f C) = clTerms C" "clTerms (onPage q C) = clTerms C"
  "clCheck (onStore k C) = clCheck C" "clCheck (onChat g C) = clCheck C" "clCheck (onSweep l C) = clCheck C"
  "clCheck (onLine h C) = clCheck C" "clCheck (onLive f C) = clCheck C" "clCheck (onPage q C) = clCheck C"
  "clDismiss (onStore k C) = clDismiss C" "clDismiss (onChat g C) = clDismiss C" "clDismiss (onSweep l C) = clDismiss C"
  "clDismiss (onLine h C) = clDismiss C" "clDismiss (onLive f C) = clDismiss C" "clDismiss (onPage q C) = clDismiss C"
  "clLive (onStore k C) = clLive C" "clLive (onChat g C) = clLive C" "clLive (onSweep l C) = clLive C"
  "clLive (onLine h C) = clLive C" "clLive (onPage q C) = clLive C"
  by (simp_all add: client_on)

lemma cleanup_parts [simp]:
  "clSessions (cleanupRemovedSessionState i C) = clSessions C" "clTerms (cleanupRemovedSessionState i C) = clTerms C"
  "clLive (cleanupRemovedSessionState i C) = clLive C" "clDismiss (cleanupRemovedSessionState i C) = clDismiss C"
  "clCheck (cleanupRemovedSessionState i C) i = None" "pgTrans (clPage (cleanupRemovedSessionState i C)) = pgTrans (clPage C)"
  "pgLine (clPage (cleanupRemovedSessionState i C)) = pgLine (clPage C)" "pgChat (clPage (cleanupRemovedSessionState i C)) = pgChat (clPage C)"
  "i \<notin> pgInFlight (clPage (cleanupRemovedSessionState i C))"
  "pendingOf (enters (pgSweep (clPage (cleanupRemovedSessionState i C)))) i = None"
  "sweeps (pgSweep (clPage (cleanupRemovedSessionState i C))) i = None"
  "\<not> stRescan (pgStore (clPage (cleanupRemovedSessionState i C))) i"
  "\<not> stConsumedTimer (pgStore (clPage (cleanupRemovedSessionState i C))) i"
  "stApp (pgStore (clPage (cleanupRemovedSessionState i C))) = stApp (pgStore (clPage C))"
  by (simp_all add: cleanupRemovedSessionState_def cancelResidueSweep_def cancelDeferredEnter_def setSweep_def Let_def)

lemma put_parts [simp]:
  "clSessions (putSessions ss C) = ss" "clTerms (putSessions ss C) = clTerms C" "clCheck (putSessions ss C) = clCheck C"
  "clDismiss (putSessions ss C) = clDismiss C" "terminals (clLive (putSessions ss C)) = terminals (clLive C)"
  "pgChat (clPage (putSessions ss C)) = pgChat (clPage C)" "pgLine (clPage (putSessions ss C)) = pgLine (clPage C)"
  "pgTrans (clPage (putSessions ss C)) = pgTrans (clPage C)" "pgInFlight (clPage (putSessions ss C)) = pgInFlight (clPage C)"
  "pendingOf (enters (pgSweep (clPage (putSessions ss C)))) = pendingOf (enters (pgSweep (clPage C)))"
  "sweeps (pgSweep (clPage (putSessions ss C))) = sweeps (pgSweep (clPage C))"
  "pgStore (clPage (putSessions ss C)) =
     onApp (\<lambda>A. A\<lparr>asSessions := map (\<lambda>(i, s). (i, sessionView i s)) ss\<rparr>) (pgStore (clPage C))"
  by (simp_all add: putSessions_def)

lemma removed_chat [simp]:
  "chHistory (onChatHistorySessionRemoved i H) i = None" "chSeq (onChatHistorySessionRemoved i H) i = None"
  "chBuf (onChatHistorySessionRemoved i H) i = None" "chTimer (onChatHistorySessionRemoved i H) i = None"
  "i \<notin> chRestored (onChatHistorySessionRemoved i H)"
  by (simp_all add: onChatHistorySessionRemoved_def forgetSession_def dropTimer_def revokeChatHistoryAttachmentURLs_def Let_def)

lemma mapDelete_keys [simp]: "map fst (mapDelete i xs) = filter (\<lambda>k. k \<noteq> i) (map fst xs)"
  by (induction xs) (auto simp: mapDelete_def)

lemma dropMulti_parts [simp]:
  "\<not> stMultiQ (dropMultiQuestion i S) i" "\<not> stDismissed (dropMultiQuestion i S) i" "stLatch (dropMultiQuestion i S) i = None"
  "stApp (dropMultiQuestion i S) = stApp S" "stHintTimer (dropMultiQuestion i S) = stHintTimer S"
  "stRescan (dropMultiQuestion i S) = stRescan S" "stConsumedTimer (dropMultiQuestion i S) = stConsumedTimer S"
  "stTail (dropMultiQuestion i S) = stTail S"
  by (simp_all add: dropMultiQuestion_def setMultiQuestionBannerVisible_def Let_def)

lemma stApp_onApp [simp]: "stApp (onApp f S) = f (stApp S)"
  by (simp add: onApp_def)

lemma forget_store:
  "stRaw (forgetApproval i S) i = None" "stSource (forgetApproval i S) i = None" "stConsumed (forgetApproval i S) i = None"
  "stSel (forgetApproval i S) i = None" "stSeq (forgetApproval i S) i = None" "stHintTimer (forgetApproval i S) i = None"
  "stSuppress (forgetApproval i S) i = None" "\<not> stDismissed (forgetApproval i S) i" "stLatch (forgetApproval i S) i = None"
  "\<not> stMultiQ (forgetApproval i S) i" "stRescan (forgetApproval i S) = stRescan S"
  "stConsumedTimer (forgetApproval i S) = stConsumedTimer S" "stTail (forgetApproval i S) = stTail S"
  by (simp_all add: forgetApproval_def clearSequentialChoiceState_def cancelApprovalHintConfirm_def Let_def)

lemma forget_app:
  "stApp (forgetApproval i S) =
     (removeApprovalAutoSwitchTarget i ((stApp S)\<lparr>asVisible := (asVisible (stApp S))(i := False)\<rparr>))
       \<lparr>asAnswered := (asAnswered (stApp S))(i := None)\<rparr>"
  by (simp add: forgetApproval_def clearSequentialChoiceState_def cancelApprovalHintConfirm_def Let_def
      removeApprovalAutoSwitchTarget_def badge_def)

lemma drop_sessions [simp]: "clSessions (dropSession i C) = mapDelete i (clSessions C)"
  by (simp add: dropSession_def Let_def)

lemma drop_app:
  "stApp (pgStore (clPage (dropSession i C))) =
     (let A = removeFromSessionOrder i ((appOf C)\<lparr>asSessions := map (\<lambda>(i, s). (i, sessionView i s)) (mapDelete i (clSessions C))\<rparr>)
      in (removeApprovalAutoSwitchTarget i (A\<lparr>asVisible := (asVisible A)(i := False)\<rparr>))
           \<lparr>asAnswered := (asAnswered A)(i := None)\<rparr>)"
  by (simp add: dropSession_def Let_def forget_app appOf_def)

lemma target_app [simp]:
  "asActive (removeApprovalAutoSwitchTarget i A) = asActive A" "asOrder (removeApprovalAutoSwitchTarget i A) = asOrder A"
  "asSessions (removeApprovalAutoSwitchTarget i A) = asSessions A" "asVisible (removeApprovalAutoSwitchTarget i A) = asVisible A"
  "asAnswered (removeApprovalAutoSwitchTarget i A) = asAnswered A"
  by (simp_all add: removeApprovalAutoSwitchTarget_def badge_def)

lemma order_app [simp]:
  "asActive (removeFromSessionOrder i A) = asActive A" "asSessions (removeFromSessionOrder i A) = asSessions A"
  "asOrder (removeFromSessionOrder i A) = remove1 i (asOrder A)"
  by (simp_all add: removeFromSessionOrder_def saveSessionOrder_def remove1_idem)

lemma drop_active [simp]: "activeIn (dropSession i C) = activeIn C"
  by (simp add: activeIn_def activeOf_def drop_app Let_def) (simp add: appOf_def)

lemma drop_left:
  assumes "distinct (asOrder (appOf C))"
  shows "leftInApp i (stApp (pgStore (clPage (dropSession i C)))) = Some (False, False, None)"
proof -
  have m: "map fst (map (\<lambda>(i, s). (i, sessionView i s)) xs) = map fst xs" for xs by (induction xs) auto
  show ?thesis using assms by (simp add: drop_app Let_def leftInApp_def hasSession_def m del: map_map)
qed

lemma drop_forgotten:
  assumes "distinct (asOrder (appOf C))"
  shows "forgotten i (dropSession i C)"
  using drop_left [OF assms, of i]
  by (simp add: forgotten_def Let_def) (simp add: dropSession_def Let_def forget_store cleanupSessionInputState_def)

lemma leave_forgotten:
  assumes "forgotten i C" shows "forgotten i (leaveSession i C)"
proof (rule forgotten_cong [OF _ _ _ assms])
  show "sessionPart i (leaveSession i C) = sessionPart i C"
    by (simp add: leaveSession_def sessionPart_on(3) hideBar_def active_part)
  show "aside i (leaveSession i C) = aside i C"
    by (simp add: leaveSession_def setActiveSession_def)
  show "leftInApp i (appOf (leaveSession i C)) = leftInApp i (appOf C)"
    by (simp add: leaveSession_def setMultiQuestionBannerVisible_def hideBar_def setActiveSession_def) (simp add: appOf_def)
qed

lemma forgotten_keys: "forgotten i C \<Longrightarrow> \<not> List.member (map fst (clSessions C)) i"
  by (simp add: forgotten_def Let_def)

lemma forgotten_gone: "forgotten i C \<Longrightarrow> \<not> hasSession (appOf C) i"
  by (simp add: forgotten_def leftInApp_def appOf_def Let_def split: if_splits)

lemma first_forgotten:
  assumes "minds i act" "forgotten i C"
  shows "forgotten i (renderFirst act E C)"
  using assms forgotten_keys [OF assms(2)]
  by (auto simp: renderFirst_def split: list.split intro!: activation_forgotten)

lemma queue_forgotten:
  assumes "forgotten i C"
  shows "forgotten i (onStore (onApp (\<lambda>A. A\<lparr>asQueue := q\<rparr>)) C)"
    "forgotten i (onStore (onApp (\<lambda>A. A\<lparr>asInProgress := b\<rparr>)) C)"
    "forgotten i (onStore (onApp (\<lambda>A. A\<lparr>asQueue := q, asInProgress := b\<rparr>)) C)"
  by (rule forgotten_cong [OF _ _ _ assms]; simp add: sessionPart_on(3); simp add: appOf_def)+

lemma switch_forgotten:
  assumes m: "minds i act" and a: "activeIn C \<noteq> Some i" and f: "forgotten i C"
  shows "forgotten i (autoSwitch act E C)"
proof -
  have "forgotten i (switchLoop act E q C)" for q
  proof (induction q)
    case Nil
    show ?case using queue_forgotten(1) [OF f] by simp
  next
    case (Cons n q)
    let ?D = "onStore (onApp (\<lambda>A. A\<lparr>asQueue := q, asInProgress := True\<rparr>)) C"
    have "\<not> stale (appOf C) n \<Longrightarrow> i \<noteq> n" using forgotten_gone [OF f] by (auto simp: stale_def)
    moreover have "activeIn ?D \<noteq> Some i" using a by (simp add: activeIn_def activeOf_def)
    ultimately have "\<not> stale (appOf C) n \<Longrightarrow> forgotten i (activateSession act E n ?D)"
      using activation_forgotten [OF m _ _ queue_forgotten(3) [OF f]] by blast
    with Cons queue_forgotten(2) show ?case by simp
  qed
  with f show ?thesis by (simp add: autoSwitch_def)
qed


definition makeActive :: "int \<Rightarrow> appState \<Rightarrow> appState" where
  "makeActive k A = A\<lparr>asActive := Some k\<rparr>"

lemma minds_makeActive: "minds j makeActive"
  by (simp add: minds_def makeActive_def)

text \<open>Two sessions; the first is active, with ticked boxes and a question hidden by hand.\<close>

definition newSession :: "int \<Rightarrow> jobj" where
  "newSession i = (\<lambda>_. Undef)(''id'' := JNum i, ''provider'' := JStr (js ''claude''), ''state'' := JStr (js ''running''))"

definition twoOpen :: client where
  "twoOpen = onStore (\<lambda>S. S\<lparr>stMulti := (stMulti S)(1 := Some [2]), stManualHide := (stManualHide S)(1 := Some (js ''q''))\<rparr>)
     (onStore (onApp (\<lambda>A. A\<lparr>asOrder := [1, 2]\<rparr>))
       (setActiveSession (Some 1) (putSessions [(1, newSession 1), (2, newSession 2)] clientInit)))"


text \<open>
  Not everything is forgotten: the ticked boxes, a signature hidden by hand and other marks of the
  action bar stay, so after a restart of the Hub, which counts sessions from 1 again, they belong to
  another session: its first question with check boxes shows the boxes ticked that the old one had.
\<close>

lemma marks_survive_removal:
  assumes "activeIn C = Some i" "mapDelete i (clSessions C) \<noteq> []"
  shows "stMulti (pgStore (clPage (removeLocalSession act E i C))) i = stMulti (pgStore (clPage C)) i
     \<and> stManualHide (pgStore (clPage (removeLocalSession act E i C))) i = stManualHide (pgStore (clPage C)) i"
proof -
  let ?L = "leaveSession i (dropSession i C)"
  have ss: "clSessions ?L = mapDelete i (clSessions C)"
    by (simp add: leaveSession_def setActiveSession_def)
  have a: "activeIn ?L \<noteq> Some i"
    by (simp add: leaveSession_def activeIn_def activeOf_def setMultiQuestionBannerVisible_def hideBar_def setActiveSession_def)
  have k: "k \<in> fst ` set (clSessions ?L) \<Longrightarrow> i \<noteq> k" for k
    unfolding ss by (auto simp: mapDelete_def)
  obtain b s xs where m: "mapDelete i (clSessions C) = (b, s) # xs"
    using assms(2) by (cases "mapDelete i (clSessions C)") auto
  have "\<exists>k. k \<in> fst ` set (clSessions ?L) \<and> removeLocalSession act E i C = activateSession act E k ?L"
    using assms(1) ss m by (cases "neighbourOf i C") (auto simp: removeLocalSession_def Let_def)
  then obtain k where k': "k \<in> fst ` set (clSessions ?L)" "removeLocalSession act E i C = activateSession act E k ?L"
    by blast
  have "stMulti (pgStore (clPage ?L)) i = stMulti (pgStore (clPage C)) i
     \<and> stManualHide (pgStore (clPage ?L)) i = stManualHide (pgStore (clPage C)) i"
    by (simp add: leaveSession_def setMultiQuestionBannerVisible_def hideBar_def setActiveSession_def dropSession_def
        Let_def forgetApproval_def dropMultiQuestion_def cleanupRemovedSessionState_def
        cancelApprovalHintConfirm_def clearSequentialChoiceState_def)
  then show ?thesis
    using activation_part [OF k [OF k'(1)] a, of act E] k'(2) by (simp add: sessionPart_def own_def Let_def)
qed

lemma ticks_survive_removal:
  assumes "stMulti S i = Some ns"
  shows "stMulti (showMultiSelectActionBar i os S) i = Some ns"
  using assms by (simp add: showMultiSelectActionBar_def)

text \<open>
  Resetting a terminal before the Hub replays its history does not reset the filters: if the
  connection was lost inside a marker block, the replayed output is taken for the rest of the block.
\<close>

lemma replay_is_swallowed:
  "let d = displayInit;
       (out1, e1, c1, d1) = writePTYChunk True OtherProvider d (asciiBytes (''[MANY-AI-CLI]'' @ ''Proceed?''));
       (out2, e2, c2, d2) = writePTYChunk True OtherProvider (resetDisplay d1) (asciiBytes ''hello'')
   in out2 = []"
  by code_simp

lemma replay_to_fresh_terminal:
  "let (out, e, c, d) = writePTYChunk True OtherProvider displayInit (asciiBytes ''hello'') in out = asciiBytes ''hello''"
  by code_simp

end
