(* ===== verification/Connection.thy ===== *)
theory Connection
  imports Removal
begin

text \<open>
  The WebSocket to the Hub (\<open>src/web/src/app/ws-client.ts\<close>): opening, closing, reconnecting with
  growing delays, the watchdog for connections that are dead but not closed, and the messages that
  change the list of sessions. The browser's sockets are a list of states; what the browser does is
  a step relation.
\<close>

section \<open>State\<close>

datatype sockState = SockConnecting | SockOpen | SockClosing | SockClosed

text \<open>
  \<open>cnTimer\<close> is the pending reconnection with the socket its call-back belongs to, \<open>cnWatchdog\<close> the
  next tick of the interval. \<open>cnRegistered\<close> logs the session that each registration names,
  \<open>cnDismissed\<close> the \<open>session_dismiss\<close> messages. Ids are 0 for none, as in the code.
\<close>

record connection =
  cnClient :: client
  cnSockets :: "sockState list"
  cnWs :: "nat option"
  cnRetry :: int
  cnTimer :: "(int \<times> nat) option"
  cnWatchdog :: "int option"
  cnLastMsg :: int
  cnNow :: int
  cnLastActive :: int
  cnPendingOpen :: int
  cnHub :: jstr
  cnPendingSwitch :: bool
  cnRegistered :: "int list"
  cnDismissed :: "int list"

text \<open>
  Parameters: the client's environment, the keys of \<open>terminals\<close> and \<open>chatHistory\<close>, and which
  sessions have a card in the list.
\<close>

record connEnv =
  coClient :: clientEnv
  coIds :: "client \<Rightarrow> int list"
  coCard :: "client \<Rightarrow> int \<Rightarrow> bool"

definition WS_RETRY_MIN :: int where "WS_RETRY_MIN = 500"
definition wsRetryMax :: int where "wsRetryMax = 10000"
definition WS_STALE_MS :: int where "WS_STALE_MS = 75000"
definition WS_WATCHDOG_INTERVAL_MS :: int where "WS_WATCHDOG_INTERVAL_MS = 15000"

definition wsState :: "connection \<Rightarrow> sockState option" where
  "wsState c = map_option (\<lambda>k. cnSockets c ! k) (cnWs c)"

definition wsOpen :: "connection \<Rightarrow> bool" where
  "wsOpen c \<longleftrightarrow> wsState c = Some SockOpen"

datatype shownState = ShownOpen | ShownConnecting | ShownClosed

definition wsConnectionState :: "connection \<Rightarrow> shownState" where
  "wsConnectionState c =
     (if wsState c = Some SockOpen then ShownOpen
      else if wsState c = Some SockConnecting then ShownConnecting
      else if cnTimer c \<noteq> None then ShownConnecting else ShownClosed)"

definition onClient :: "(client \<Rightarrow> client) \<Rightarrow> connection \<Rightarrow> connection" where
  "onClient f c = c\<lparr>cnClient := f (cnClient c)\<rparr>"

text \<open>The approval adapter asks the socket whether it is open.\<close>

definition setSock :: "nat \<Rightarrow> sockState \<Rightarrow> connection \<Rightarrow> connection" where
  "setSock k s c =
     (let c1 = c\<lparr>cnSockets := (cnSockets c)[k := s]\<rparr>
      in onClient (onStore (\<lambda>S. S\<lparr>stWsOpen := wsOpen c1\<rparr>)) c1)"

section \<open>Opening and closing\<close>

definition connectWs :: "connection \<Rightarrow> connection" where
  "connectWs c =
     c\<lparr>cnSockets := cnSockets c @ [SockConnecting], cnWs := Some (length (cnSockets c))\<rparr>"

definition closeWs :: "connection \<Rightarrow> connection" where
  "closeWs c = (case cnWs c of None \<Rightarrow> c | Some k \<Rightarrow> setSock k SockClosing c)"

text \<open>\<open>jitter\<close> is \<open>Math.random() * 200\<close>; \<open>setTimeout\<close> drops the fraction of the sum.\<close>

definition clearOnClose :: "client \<Rightarrow> client" where
  "clearOnClose C =
     onStore hideBar (setActiveSession None ((putSessions [] C)\<lparr>clDismiss := (\<lambda>_. None)\<rparr>))"

definition onClose :: "nat \<Rightarrow> int \<Rightarrow> connection \<Rightarrow> connection" where
  "onClose k jitter c =
     (if cnWs c \<noteq> Some k then c
      else (let c1 = c\<lparr>cnWatchdog := None,
                 cnLastActive := (case activeIn (cnClient c) of None \<Rightarrow> cnLastActive c | Some a \<Rightarrow> a)\<rparr>;
                c2 = onClient clearOnClose c1;
                delay = min wsRetryMax (cnRetry c2) + jitter
            in c2\<lparr>cnRetry := min wsRetryMax (cnRetry c2 * 2), cnTimer := Some (cnNow c2 + delay, k)\<rparr>))"

definition fireReconnect :: "connection \<Rightarrow> connection" where
  "fireReconnect c =
     (case cnTimer c of
        None \<Rightarrow> c
      | Some (due, k) \<Rightarrow>
          (let c1 = c\<lparr>cnTimer := None\<rparr> in if cnWs c1 \<noteq> Some k then c1 else connectWs c1))"

definition sendRegister :: "connection \<Rightarrow> connection" where
  "sendRegister c =
     c\<lparr>cnRegistered := cnRegistered c @
         [case activeIn (cnClient c) of Some a \<Rightarrow> if a \<noteq> 0 then a else cnLastActive c | None \<Rightarrow> cnLastActive c]\<rparr>"

text \<open>
  The size that is registered: the widget's when it is usable, else an estimate from the area
  (cells of 7.5 by 16 pixels), else 200 by 50.
\<close>

definition estimateRegisterTerminalSize :: "(int \<times> int) option \<Rightarrow> int \<times> int \<Rightarrow> int \<times> int" where
  "estimateRegisterTerminalSize term area =
     (let (cols, rows) = (case term of None \<Rightarrow> (0, 0) | Some s \<Rightarrow> s);
          approxCols = (if 0 < fst area then 2 * fst area div 15 else 0);
          approxRows = (if 0 < snd area then snd area div 16 else 0)
      in if 80 \<le> cols \<and> 20 \<le> rows then (cols, rows)
         else (if 80 \<le> approxCols then approxCols else 200, if 20 \<le> approxRows then approxRows else 50))"

lemma register_size_usable:
  "80 \<le> fst (estimateRegisterTerminalSize t a) \<and> 20 \<le> snd (estimateRegisterTerminalSize t a)"
  by (auto simp: estimateRegisterTerminalSize_def Let_def split: option.split prod.split)

definition onOpen :: "connEnv \<Rightarrow> connection \<Rightarrow> connection" where
  "onOpen E c =
     (let c1 = c\<lparr>cnTimer := None, cnRetry := WS_RETRY_MIN, cnLastMsg := cnNow c,
                cnWatchdog := Some (cnNow c + WS_WATCHDOG_INTERVAL_MS),
                cnPendingOpen := (if cnPendingOpen c = 0 \<and> cnLastActive c \<noteq> 0 then cnLastActive c else cnPendingOpen c)\<rparr>;
          ids = coIds E (cnClient c1);
          c2 = (if ids \<noteq> [] then onClient (resetAllLocalSessionHistory ids ids) c1 else c1);
          c3 = sendRegister c2
      in onClient (onStore (reassertApprovalHints ids)) c3)"

definition wsWatchdogTick :: "connection \<Rightarrow> connection" where
  "wsWatchdogTick c =
     (let c1 = c\<lparr>cnWatchdog := map_option (\<lambda>due. due + WS_WATCHDOG_INTERVAL_MS) (cnWatchdog c)\<rparr> in
      if wsOpen c1 \<and> WS_STALE_MS < cnNow c1 - cnLastMsg c1 then closeWs c1 else c1)"

definition ensureWsAlive :: "connection \<Rightarrow> connection" where
  "ensureWsAlive c =
     (if wsState c \<in> {None, Some SockClosed, Some SockClosing}
      then connectWs (c\<lparr>cnTimer := None, cnRetry := WS_RETRY_MIN\<rparr>)
      else if wsOpen c \<and> WS_STALE_MS < cnNow c - cnLastMsg c then closeWs c
      else c)"

section \<open>The list of sessions\<close>

definition idOf :: "jobj \<Rightarrow> int" where
  "idOf s = (case s ''id'' of JNum n \<Rightarrow> n | _ \<Rightarrow> 0)"

definition requestSessionDismiss :: "int \<Rightarrow> connection \<Rightarrow> connection" where
  "requestSessionDismiss i c = (if wsOpen c then c\<lparr>cnDismissed := cnDismissed c @ [i]\<rparr> else c)"

definition dismissSession :: "int \<Rightarrow> connection \<Rightarrow> connection" where
  "dismissSession i c =
     (if List.member (map fst (clSessions (cnClient c))) i then requestSessionDismiss i c else c)"

definition fireDismissTimer :: "int \<Rightarrow> connection \<Rightarrow> connection" where
  "fireDismissTimer i c =
     dismissSession i (onClient (\<lambda>C. C\<lparr>clDismiss := (clDismiss C)(i := None)\<rparr>) c)"

definition putSession :: "int \<Rightarrow> jobj \<Rightarrow> client \<Rightarrow> client" where
  "putSession i s C =
     onStore (onApp (addToSessionOrder i False)) (putSessions (mapSet i s (clSessions C)) C)"

definition takeSession :: "jobj \<Rightarrow> connection \<Rightarrow> connection" where
  "takeSession s c =
     (if s ''state'' = JStr (js ''completed'') then requestSessionDismiss (idOf s) c
      else onClient (putSession (idOf s) (snapshotSession s)) c)"

definition openPending :: "(int \<Rightarrow> appState \<Rightarrow> appState) \<Rightarrow> connEnv \<Rightarrow> connection \<Rightarrow> connection" where
  "openPending act E c =
     (let i = cnPendingOpen c in
      if i \<noteq> 0 \<and> List.member (map fst (clSessions (cnClient c))) i
      then onClient (activateSession act (coClient E) i) (c\<lparr>cnPendingOpen := 0\<rparr>) else c)"

definition applySnapshot ::
  "(int \<Rightarrow> appState \<Rightarrow> appState) \<Rightarrow> connEnv \<Rightarrow> jstr \<Rightarrow> jobj list \<Rightarrow> connection \<Rightarrow> connection" where
  "applySnapshot act E inst ss c =
     (let c1 = (if inst \<noteq> [] \<and> cnHub c \<noteq> [] \<and> inst \<noteq> cnHub c
                then onClient (\<lambda>C. purgeLocalStateForHubRestart act (coClient E)
                       (coIds E C @ map fst (clSessions C)) C) c else c);
          c2 = (if inst \<noteq> [] then c1\<lparr>cnHub := inst\<rparr> else c1)
      in onClient (renderFirst act (coClient E)) (openPending act E (fold takeSession ss c2)))"

definition badgeStatus :: "jsval \<Rightarrow> jstr" where
  "badgeStatus st =
     (if st = JStr (js ''waiting'') then js ''waiting''
      else if st = JStr (js ''running'') then js ''running'' else js ''standby'')"

definition removeCompleted ::
  "(int \<Rightarrow> appState \<Rightarrow> appState) \<Rightarrow> connEnv \<Rightarrow> int \<Rightarrow> connection \<Rightarrow> connection" where
  "removeCompleted act E i c =
     onClient (removeLocalSession act (coClient E) i) (requestSessionDismiss i c)"

definition applySessionUpdate ::
  "(int \<Rightarrow> appState \<Rightarrow> appState) \<Rightarrow> connEnv \<Rightarrow> int \<Rightarrow> jobj \<Rightarrow> connection \<Rightarrow> connection" where
  "applySessionUpdate act E i m c =
     (if m ''state'' = JStr (js ''completed'') then removeCompleted act E i c
      else
        (let C = cnClient c; isNew = (\<not> List.member (map fst (clSessions C)) i);
             cur = (case map_of (clSessions C) i of Some s \<Rightarrow> s | None \<Rightarrow> (\<lambda>_. Undef)(''id'' := JNum i));
             c1 = onClient (\<lambda>D. putSessions (mapSet i (sessionUpdate m cur) (clSessions D)) D) c;
             c2 = (if truthy (m ''state'') \<and> activeIn (cnClient c1) = Some i
                   then onClient (onLive syncLiveStatusDomForActive) c1 else c1);
             c3 = (if truthy (m ''state'')
                   then onClient (onStore (onApp (badge i (badgeStatus (m ''state''))))) c2 else c2);
             c4 = onClient (onStore (onApp (addToSessionOrder i False))) c3;
             c5 = (if isNew \<and> cnPendingSwitch c4
                   then onClient (activateSession act (coClient E) i) (c4\<lparr>cnPendingSwitch := False\<rparr>) else c4)
         in if takesFastPath isNew m cur \<and> coCard E (cnClient c5) i then c5
            else onClient (renderFirst act (coClient E)) c5))"

definition orDisconnected :: "jsval \<Rightarrow> jsval" where
  "orDisconnected v = (if truthy v then v else JStr (js ''disconnected''))"

definition endedSession :: "jsval \<Rightarrow> jsval \<Rightarrow> jobj \<Rightarrow> jobj" where
  "endedSession st reason s =
     (let s1 = s(''state'' := orDisconnected st) in if truthy reason then s1(''end_reason'' := reason) else s1)"

definition endApproval :: "int \<Rightarrow> store \<Rightarrow> store" where
  "endApproval i S =
     (let S1 = onApp (\<lambda>A. A\<lparr>asVisible := (asVisible A)(i := False)\<rparr>) (cancelApprovalHintConfirm i S);
          S2 = S1\<lparr>stMultiQ := (stMultiQ S1)(i := False)\<rparr>;
          S3 = (if stMultiQ S1 i \<and> activeOf S1 = Some i then setMultiQuestionBannerVisible False S2 else S2)
      in onApp (removeApprovalAutoSwitchTarget i) (S3\<lparr>stLatch := (stLatch S3)(i := None)\<rparr>))"

definition applySessionEnd ::
  "(int \<Rightarrow> appState \<Rightarrow> appState) \<Rightarrow> connEnv \<Rightarrow> int \<Rightarrow> jsval \<Rightarrow> jsval \<Rightarrow> connection \<Rightarrow> connection" where
  "applySessionEnd act E i st reason c =
     (if orDisconnected st = JStr (js ''completed'') then removeCompleted act E i c
      else
        (let c1 = (case map_of (clSessions (cnClient c)) i of
                     None \<Rightarrow> c
                   | Some s \<Rightarrow> onClient (\<lambda>D. putSessions (mapSet i (endedSession st reason s) (clSessions D)) D) c);
             c2 = (if activeIn (cnClient c1) = Some i then onClient (onLive syncLiveStatusDomForActive) c1 else c1);
             c3 = onClient (\<lambda>C. autoSwitch act (coClient E) (onStore (endApproval i) C)) c2;
             dead = (st = JStr (js ''error'') \<or> st = JStr (js ''disconnected''));
             c4 = (if dead \<and> clDismiss (cnClient c3) i = None
                   then onClient (\<lambda>C. C\<lparr>clDismiss := (clDismiss C)(i := Some (cnNow c3 + 5000))\<rparr>) c3 else c3)
         in onClient (renderFirst act (coClient E)) c4))"

section \<open>Messages\<close>

datatype hubMsg =
    Ping
  | PtyData int "byte list"
  | GoApproval goMessage
  | ApprovalMarker int jstr jstr
  | ApprovalCleared int jstr
  | HistoryReset int
  | Snapshot jstr "jobj list option"
  | SessionUpdate int jobj
  | SessionEnd int jsval jsval
  | SessionRemoved int

fun handleMessage :: "(int \<Rightarrow> appState \<Rightarrow> appState) \<Rightarrow> connEnv \<Rightarrow> hubMsg \<Rightarrow> connection \<Rightarrow> connection" where
  "handleMessage act E Ping c = onClient (renderFirst act (coClient E)) c"
| "handleMessage act E (PtyData i bs) c = onClient (ptyData act (coClient E) i bs) c"
| "handleMessage act E (GoApproval m) c = onClient (onStore (handleGoApprovalDetected act m)) c"
| "handleMessage act E (ApprovalMarker i b t) c = onClient (onStore (handleHubApprovalMarker act i b t)) c"
| "handleMessage act E (ApprovalCleared i sig) c = onClient (onStore (handleGoApprovalCleared act i sig)) c"
| "handleMessage act E (HistoryReset i) c =
     onClient (\<lambda>C. if i \<noteq> 0 then resetLocalSessionHistory i C
                   else resetAllLocalSessionHistory (coIds E C) (coIds E C) C) c"
| "handleMessage act E (Snapshot inst None) c = c"
| "handleMessage act E (Snapshot inst (Some ss)) c = applySnapshot act E inst ss c"
| "handleMessage act E (SessionUpdate i m) c = applySessionUpdate act E i m c"
| "handleMessage act E (SessionEnd i st reason) c = applySessionEnd act E i st reason c"
| "handleMessage act E (SessionRemoved i) c =
     onClient (\<lambda>C. renderFirst act (coClient E) (removeLocalSession act (coClient E) i C)) c"

definition onMessage :: "(int \<Rightarrow> appState \<Rightarrow> appState) \<Rightarrow> connEnv \<Rightarrow> hubMsg \<Rightarrow> connection \<Rightarrow> connection" where
  "onMessage act E m c = handleMessage act E m (c\<lparr>cnLastMsg := cnNow c\<rparr>)"

section \<open>Runs\<close>

text \<open>
  What the browser and the user do: a socket opens, closes or delivers a message (only an open
  socket does), a timer is due, the page becomes visible or online again, a card's dismissal is due,
  the user turns to a session, time passes.
\<close>

inductive cstep :: "(int \<Rightarrow> appState \<Rightarrow> appState) \<Rightarrow> connEnv \<Rightarrow> connection \<Rightarrow> connection \<Rightarrow> bool"
  for act E where
  cs_open: "k < length (cnSockets c) \<Longrightarrow> cnSockets c ! k = SockConnecting
     \<Longrightarrow> cstep act E c (onOpen E (setSock k SockOpen c))"
| cs_close: "k < length (cnSockets c) \<Longrightarrow> cnSockets c ! k \<noteq> SockClosed \<Longrightarrow> 0 \<le> jitter \<Longrightarrow> jitter < 200
     \<Longrightarrow> cstep act E c (onClose k jitter (setSock k SockClosed c))"
| cs_message: "k < length (cnSockets c) \<Longrightarrow> cnSockets c ! k = SockOpen \<Longrightarrow> cstep act E c (onMessage act E m c)"
| cs_reconnect: "cnTimer c = Some (due, k) \<Longrightarrow> due \<le> cnNow c \<Longrightarrow> cstep act E c (fireReconnect c)"
| cs_tick: "cnWatchdog c = Some due \<Longrightarrow> due \<le> cnNow c \<Longrightarrow> cstep act E c (wsWatchdogTick c)"
| cs_wake: "cstep act E c (ensureWsAlive c)"
| cs_dismiss: "clDismiss (cnClient c) i = Some due \<Longrightarrow> due \<le> cnNow c \<Longrightarrow> cstep act E c (fireDismissTimer i c)"
| cs_user: "cstep act E c (onClient f c)"
| cs_pass: "cstep act E c (c\<lparr>cnNow := cnNow c + int n\<rparr>)"

definition connInit :: connection where
  "connInit = connectWs \<lparr>cnClient = clientInit, cnSockets = [], cnWs = None, cnRetry = WS_RETRY_MIN, cnTimer = None,
     cnWatchdog = None, cnLastMsg = 0, cnNow = 0, cnLastActive = 0, cnPendingOpen = 0, cnHub = [],
     cnPendingSwitch = False, cnRegistered = [], cnDismissed = []\<rparr>"

inductive creach :: "(int \<Rightarrow> appState \<Rightarrow> appState) \<Rightarrow> connEnv \<Rightarrow> connection \<Rightarrow> bool" for act E where
  cr_init: "creach act E connInit"
| cr_step: "creach act E c \<Longrightarrow> cstep act E c d \<Longrightarrow> creach act E d"

text \<open>The part of the state that concerns the socket.\<close>

definition link :: "connection \<Rightarrow> _" where
  "link c = (cnSockets c, cnWs c, cnRetry c, cnTimer c, cnWatchdog c, cnLastMsg c, cnNow c)"

lemma link_onClient [simp]: "link (onClient f c) = link c"
  by (simp add: link_def onClient_def)

lemma link_misc [simp]:
  "link (c\<lparr>cnPendingOpen := a\<rparr>) = link c" "link (c\<lparr>cnHub := h\<rparr>) = link c" "link (c\<lparr>cnPendingSwitch := b\<rparr>) = link c"
  "link (c\<lparr>cnRegistered := rs\<rparr>) = link c" "link (c\<lparr>cnDismissed := ds\<rparr>) = link c" "link (c\<lparr>cnLastActive := l\<rparr>) = link c"
  by (simp_all add: link_def)

lemma link_sessions [simp]:
  "link (requestSessionDismiss i c) = link c" "link (dismissSession i c) = link c" "link (fireDismissTimer i c) = link c"
  "link (takeSession s c) = link c" "link (openPending act E c) = link c" "link (sendRegister c) = link c"
  "link (removeCompleted act E i c) = link c"
  by (simp_all add: requestSessionDismiss_def dismissSession_def fireDismissTimer_def takeSession_def openPending_def
      sendRegister_def removeCompleted_def Let_def)

lemma link_fold: "link (fold takeSession ss c) = link c"
  by (induction ss arbitrary: c) simp_all

lemma link_message [simp]: "link (handleMessage act E m c) = link c"
  by (induction act E m c rule: handleMessage.induct)
     (simp_all add: applySnapshot_def applySessionUpdate_def applySessionEnd_def Let_def link_fold split: option.split)

section \<open>One live socket, never stuck\<close>

definition linkOk :: "connection \<Rightarrow> bool" where
  "linkOk c \<longleftrightarrow>
     (case cnWs c of
        None \<Rightarrow> False
      | Some k \<Rightarrow> k < length (cnSockets c)
          \<and> (\<forall>j < length (cnSockets c). j \<noteq> k \<longrightarrow> cnSockets c ! j = SockClosing \<or> cnSockets c ! j = SockClosed)
          \<and> 500 \<le> cnRetry c \<and> cnRetry c \<le> 10000
          \<and> (case cnTimer c of
               None \<Rightarrow> cnSockets c ! k \<noteq> SockClosed
             | Some (due, j) \<Rightarrow> j = k \<and> cnSockets c ! k = SockClosed \<and> due < cnNow c + 10200)
          \<and> (cnSockets c ! k = SockOpen \<longrightarrow>
               (case cnWatchdog c of None \<Rightarrow> False | Some due \<Rightarrow> due \<le> cnNow c + 15000)))"

lemmas socket_consts = WS_RETRY_MIN_def wsRetryMax_def WS_STALE_MS_def WS_WATCHDOG_INTERVAL_MS_def

lemma linkOk_cong: "link d = link c \<Longrightarrow> linkOk c \<Longrightarrow> linkOk d"
  unfolding link_def linkOk_def by (simp split: option.splits prod.splits)

lemma link_setSock: "link (setSock k s c) = link (c\<lparr>cnSockets := (cnSockets c)[k := s]\<rparr>)"
  by (simp add: setSock_def Let_def)

lemma nth_append_one: "(xs @ [x]) ! j = (if j < length xs then xs ! j else x)" if "j < Suc (length xs)"
  using that by (auto simp: nth_append less_Suc_eq)

lemma connect_ok:
  assumes "linkOk c" "wsState c = Some SockClosed \<or> wsState c = Some SockClosing"
    and "link d = link (connectWs (c\<lparr>cnTimer := None, cnRetry := r\<rparr>))" "500 \<le> r" "r \<le> 10000"
  shows "linkOk d"
proof (rule linkOk_cong [OF assms(3)])
  obtain k where k: "cnWs c = Some k" using assms(1) by (auto simp: linkOk_def split: option.splits)
  have "\<forall>j < length (cnSockets c). cnSockets c ! j = SockClosing \<or> cnSockets c ! j = SockClosed"
    using assms(1,2) k unfolding linkOk_def wsState_def by (auto split: option.splits)
  then show "linkOk (connectWs (c\<lparr>cnTimer := None, cnRetry := r\<rparr>))"
    using assms(4,5) by (auto simp: linkOk_def connectWs_def nth_append_one less_Suc_eq)
qed

lemma open_ok:
  assumes "linkOk c" "k < length (cnSockets c)" "cnSockets c ! k = SockConnecting"
  shows "linkOk (onOpen E (setSock k SockOpen c))"
proof -
  let ?d = "c\<lparr>cnSockets := (cnSockets c)[k := SockOpen], cnTimer := None, cnRetry := 500, cnLastMsg := cnNow c,
     cnWatchdog := Some (cnNow c + 15000)\<rparr>"
  have w: "cnWs c = Some k"
    using assms unfolding linkOk_def by (force split: option.splits)
  have "linkOk ?d"
    using assms w unfolding linkOk_def by (auto simp: nth_list_update split: option.splits)
  moreover have "link (onOpen E (setSock k SockOpen c)) = link ?d"
    by (simp add: onOpen_def setSock_def onClient_def Let_def socket_consts) (simp add: link_def sendRegister_def)
  ultimately show ?thesis using linkOk_cong by blast
qed

lemma close_ok:
  assumes ok: "linkOk c" and k: "k < length (cnSockets c)" "cnSockets c ! k \<noteq> SockClosed" and j: "0 \<le> jitter" "jitter < 200"
  shows "linkOk (onClose k jitter (setSock k SockClosed c))"
proof (cases "cnWs c = Some k")
  case True
  let ?d = "c\<lparr>cnSockets := (cnSockets c)[k := SockClosed], cnWatchdog := None, cnRetry := min 10000 (cnRetry c * 2),
     cnTimer := Some (cnNow c + (min 10000 (cnRetry c) + jitter), k)\<rparr>"
  have "linkOk ?d" using ok k(1) j True unfolding linkOk_def by (auto simp: nth_list_update split: option.splits)
  moreover have "link (onClose k jitter (setSock k SockClosed c)) = link ?d"
    using True by (simp add: onClose_def setSock_def onClient_def Let_def socket_consts link_def)
  ultimately show ?thesis using linkOk_cong by blast
next
  case False
  let ?d = "c\<lparr>cnSockets := (cnSockets c)[k := SockClosed]\<rparr>"
  have "linkOk ?d"
    using ok k(1) False unfolding linkOk_def by (auto simp: nth_list_update split: option.splits)
  moreover have "link (onClose k jitter (setSock k SockClosed c)) = link ?d"
    using False by (simp add: onClose_def setSock_def onClient_def Let_def link_def)
  ultimately show ?thesis using linkOk_cong by blast
qed

lemma closeWs_ok:
  assumes "linkOk c" "wsOpen c" shows "linkOk (closeWs c)"
proof -
  obtain k where k: "cnWs c = Some k" using assms(1) by (auto simp: linkOk_def split: option.splits)
  have "linkOk (c\<lparr>cnSockets := (cnSockets c)[k := SockClosing]\<rparr>)"
    using assms k unfolding linkOk_def wsOpen_def wsState_def by (auto simp: nth_list_update split: option.splits)
  then show ?thesis
    using k by (auto simp: closeWs_def link_setSock intro: linkOk_cong [rotated])
qed

lemma tick_ok:
  assumes "linkOk c" "cnWatchdog c = Some due" "due \<le> cnNow c"
  shows "linkOk (wsWatchdogTick c)"
proof -
  let ?c = "c\<lparr>cnWatchdog := Some (due + 15000)\<rparr>"
  have "linkOk ?c" using assms unfolding linkOk_def by (auto split: option.splits)
  then show ?thesis using closeWs_ok [of ?c] assms(2) by (auto simp: wsWatchdogTick_def socket_consts Let_def)
qed

lemma wake_ok:
  assumes "linkOk c" shows "linkOk (ensureWsAlive c)"
proof -
  have "wsState c \<noteq> None" using assms by (auto simp: linkOk_def wsState_def split: option.splits)
  then show ?thesis
    using assms closeWs_ok connect_ok [OF assms _ refl] by (auto simp: ensureWsAlive_def socket_consts)
qed

lemma reconnect_ok:
  assumes ok: "linkOk c" and t: "cnTimer c = Some (due, k)"
  shows "linkOk (fireReconnect c)" "fireReconnect c = connectWs (c\<lparr>cnTimer := None\<rparr>)"
proof -
  have k: "cnWs c = Some k" "cnSockets c ! k = SockClosed" using ok t by (auto simp: linkOk_def split: option.splits)
  then show f: "fireReconnect c = connectWs (c\<lparr>cnTimer := None\<rparr>)" using t by (simp add: fireReconnect_def)
  have r: "500 \<le> cnRetry c" "cnRetry c \<le> 10000" using ok k by (auto simp: linkOk_def)
  show "linkOk (fireReconnect c)"
    unfolding f by (rule connect_ok [OF ok _ _ r]) (use k in \<open>simp_all add: wsState_def\<close>)
qed

lemma step_ok: "cstep act E c d \<Longrightarrow> linkOk c \<Longrightarrow> linkOk d"
proof (induction rule: cstep.induct)
  case (cs_message k c m)
  have "linkOk (c\<lparr>cnLastMsg := cnNow c\<rparr>)" using cs_message(3) by (auto simp: linkOk_def split: option.splits)
  then show ?case by (rule linkOk_cong [rotated]) (simp add: onMessage_def)
next
  case (cs_dismiss c i due)
  then show ?case by (auto intro: linkOk_cong [rotated])
next
  case (cs_user c f)
  then show ?case by (auto intro: linkOk_cong [rotated])
next
  case (cs_pass c n)
  then show ?case unfolding linkOk_def by (auto split: option.splits)
qed (auto intro: open_ok close_ok reconnect_ok tick_ok wake_ok)

lemma reach_ok: "creach act E c \<Longrightarrow> linkOk c"
proof (induction rule: creach.induct)
  case cr_init
  show ?case by (simp add: linkOk_def connInit_def connectWs_def WS_RETRY_MIN_def)
qed (rule step_ok)


text \<open>The first connection fails.\<close>

definition lostConn :: connection where
  "lostConn = onClose 0 150 (setSock 0 SockClosed connInit)"

lemma lostConn_reach: "creach act E lostConn"
  unfolding lostConn_def
  by (rule cr_step [OF cr_init], rule cs_close) (simp_all add: connInit_def connectWs_def)



definition quietConn :: connEnv where
  "quietConn = \<lparr>coClient = quietEnv, coIds = (\<lambda>_. []), coCard = (\<lambda>_ _. True)\<rparr>"


section \<open>What a reconnection loses\<close>

text \<open>
  A socket that is replaced while it closes is no longer \<open>ws\<close> when it closes: the clean-up is
  skipped, and sessions that ended meanwhile stay in the list.
\<close>

lemma clean_up_skipped:
  assumes "cnWs c = Some k" "k < length (cnSockets c)" "cnSockets c ! k = SockClosing"
  shows "clSessions (cnClient (onClose k j (setSock k SockClosed (ensureWsAlive c)))) = clSessions (cnClient c)"
  using assms
  by (simp add: ensureWsAlive_def wsState_def connectWs_def onClose_def setSock_def onClient_def Let_def onStore_def onPage_def)

text \<open>
  Closing forgets which session the typed text belongs to without putting it away: when the snapshot
  turns to the session again, the line becomes the draft of an earlier visit.
\<close>

lemma typed_text_lost:
  "ilValue (pgLine (clPage (activateSession act E a (clearOnClose C))))
     = (case ilSaved (pgLine (clPage C)) a of None \<Rightarrow> [] | Some d \<Rightarrow> drValue d)"
proof -
  have line: "pgLine (clPage (attachTerminal E a D)) = pgLine (clPage D)" "pgLine (clPage (ensureTerminal a D)) = pgLine (clPage D)"
    "pgLine (clPage (setActiveSession b D)) = pgLine (clPage D)" for D b
    by (simp_all add: attachTerminal_def onQueue_def scheduleApprovalCheck_def ensureTerminal_def setActiveSession_def Let_def
        split: option.split)
  have "activeIn (clearOnClose C) = None"
    by (simp add: clearOnClose_def activeIn_def activeOf_def hideBar_def setActiveSession_def)
  then show ?thesis
    by (simp add: activateSession_def Let_def line clearOnClose_def restoreInputStateFor_def split: option.split)
qed

text \<open>
  The visible approvals are to be asserted again after a reconnection, but the reset of the history
  has just forgotten them.
\<close>

lemma nothing_is_reasserted:
  assumes "asVisible (stApp S) = (\<lambda>_. False)"
  shows "reassertApprovalHints ids S = S"
proof -
  have "fold (\<lambda>i T. if visibleOf T i then sendSessionHint i True T else T) ids S = S"
    using assms by (induction ids) (simp_all add: visibleOf_def)
  then show ?thesis by (simp add: reassertApprovalHints_def)
qed

lemma reset_hides_all:
  "asVisible (stApp (pgStore (clPage (resetAllLocalSessionHistory ids chats C)))) = (\<lambda>_. False)"
  by (simp add: resetAllLocalSessionHistory_def Let_def setMultiQuestionBannerVisible_def hideBar_def split: option.split)

end
