(* ===== verification/SwipeGesture.thy ===== *)
theory SwipeGesture
  imports Main
begin

text \<open>
  \<open>attachSwipeGesture\<close> of \<open>src/web/src/app/approval-queue-tab.ts\<close>: the swipe on a card of the
  approval queue. The local variables of the closure are a record, the four pointer listeners
  operations on it. Coordinates are whole pixels.
\<close>

section \<open>State\<close>

definition SWIPE_THRESHOLD :: int where "SWIPE_THRESHOLD = 72"
definition SWIPE_AXIS_LOCK_THRESHOLD :: int where "SWIPE_AXIS_LOCK_THRESHOLD = 10"

datatype axis = Horizontal | Vertical

text \<open>The class of the overlay, with its label, and what a released swipe asks for.\<close>

datatype overlay = PlainOverlay | AcceptOverlay | RejectOverlay
datatype verdict = Accept | Reject

text \<open>
  \<open>gsShift\<close> is the \<open>translateX\<close> of the card, \<open>gsOpacity\<close> the opacity of the overlay in steps of
  0.85 / 72.
\<close>

record gesture =
  gsStartX :: int
  gsStartY :: int
  gsCurrentX :: int
  gsAxis :: "axis option"
  gsDragging :: bool
  gsConsumed :: bool
  gsShift :: int
  gsOverlay :: overlay
  gsOpacity :: int

definition freshGesture :: gesture where
  "freshGesture =
     \<lparr>gsStartX = 0, gsStartY = 0, gsCurrentX = 0, gsAxis = None, gsDragging = False,
      gsConsumed = False, gsShift = 0, gsOverlay = PlainOverlay, gsOpacity = 0\<rparr>"

section \<open>Listeners\<close>

definition resetCardPosition :: "gesture \<Rightarrow> gesture" where
  "resetCardPosition G = G\<lparr>gsShift := 0, gsOverlay := PlainOverlay, gsOpacity := 0\<rparr>"

text \<open>\<open>button\<close>: the pointer went down on a button of the card.\<close>

definition onPointerDown :: "int \<Rightarrow> int \<Rightarrow> bool \<Rightarrow> gesture \<Rightarrow> gesture" where
  "onPointerDown x y button G =
     (if gsConsumed G then G
      else if button then G
      else G\<lparr>gsStartX := x, gsStartY := y, gsCurrentX := x, gsAxis := None, gsDragging := False\<rparr>)"

definition lockAxis :: "int \<Rightarrow> int \<Rightarrow> axis option" where
  "lockAxis dx dy =
     (if \<bar>dx\<bar> < SWIPE_AXIS_LOCK_THRESHOLD \<and> \<bar>dy\<bar> < SWIPE_AXIS_LOCK_THRESHOLD then None
      else if \<bar>dy\<bar> \<le> \<bar>dx\<bar> then Some Horizontal else Some Vertical)"

definition clampedDx :: "bool \<Rightarrow> int \<Rightarrow> int" where
  "clampedDx canReject dx = (if canReject then dx else max 0 dx)"

definition dragTo :: "bool \<Rightarrow> int \<Rightarrow> gesture \<Rightarrow> gesture" where
  "dragTo canReject dx G =
     (let c = clampedDx canReject dx;
          G1 = G\<lparr>gsDragging := True, gsShift := c, gsOpacity := min SWIPE_THRESHOLD \<bar>c\<bar>\<rparr>
      in if 0 < c then G1\<lparr>gsOverlay := AcceptOverlay\<rparr>
         else if c < 0 \<and> canReject then G1\<lparr>gsOverlay := RejectOverlay\<rparr>
         else G1\<lparr>gsOpacity := 0\<rparr>)"

definition onPointerMove :: "bool \<Rightarrow> int \<Rightarrow> int \<Rightarrow> gesture \<Rightarrow> gesture" where
  "onPointerMove canReject x y G =
     (if gsConsumed G then G
      else
        (let G1 = G\<lparr>gsCurrentX := x\<rparr>; dx = x - gsStartX G; dy = y - gsStartY G;
             ax = (case gsAxis G of None \<Rightarrow> lockAxis dx dy | Some a \<Rightarrow> Some a);
             G2 = G1\<lparr>gsAxis := ax\<rparr>
         in if ax = Some Horizontal then dragTo canReject dx G2 else G2))"

definition onPointerUp :: "bool \<Rightarrow> gesture \<Rightarrow> gesture \<times> verdict option" where
  "onPointerUp canReject G =
     (let G1 = G\<lparr>gsDragging := False, gsAxis := None\<rparr>; dx = gsCurrentX G - gsStartX G in
      if gsConsumed G \<or> \<not> gsDragging G then (G1, None)
      else if SWIPE_THRESHOLD \<le> dx then (G1\<lparr>gsConsumed := True\<rparr>, Some Accept)
      else if dx \<le> - SWIPE_THRESHOLD \<and> canReject then (G1\<lparr>gsConsumed := True\<rparr>, Some Reject)
      else (resetCardPosition G1, None))"

definition onPointerCancel :: "gesture \<Rightarrow> gesture" where
  "onPointerCancel G =
     (let G1 = (if gsConsumed G then G else resetCardPosition G)
      in G1\<lparr>gsDragging := False, gsAxis := None\<rparr>)"

section \<open>Runs\<close>

datatype pointer = PtDown int int bool | PtMove int int | PtUp | PtCancel

fun onPointer :: "bool \<Rightarrow> pointer \<Rightarrow> gesture \<Rightarrow> gesture \<times> verdict option" where
  "onPointer canReject (PtDown x y b) G = (onPointerDown x y b G, None)"
| "onPointer canReject (PtMove x y) G = (onPointerMove canReject x y G, None)"
| "onPointer canReject PtUp G = onPointerUp canReject G"
| "onPointer canReject PtCancel G = (onPointerCancel G, None)"

fun runPointer :: "bool \<Rightarrow> pointer list \<Rightarrow> gesture \<Rightarrow> gesture \<times> verdict list" where
  "runPointer canReject [] G = (G, [])"
| "runPointer canReject (e # es) G =
     (let (G1, v) = onPointer canReject e G; (G2, vs) = runPointer canReject es G1
      in (G2, (case v of None \<Rightarrow> vs | Some w \<Rightarrow> w # vs)))"

lemmas gesture_defs = resetCardPosition_def onPointerDown_def clampedDx_def dragTo_def
  onPointerMove_def onPointerUp_def onPointerCancel_def Let_def

section \<open>The overlay tells what the release will do\<close>

definition verdictOverlay :: "verdict \<Rightarrow> overlay" where
  "verdictOverlay v = (case v of Accept \<Rightarrow> AcceptOverlay | Reject \<Rightarrow> RejectOverlay)"

text \<open>While a card is dragged it lies where the pointer has moved it, under the fitting overlay.\<close>

definition dragOk :: "bool \<Rightarrow> gesture \<Rightarrow> bool" where
  "dragOk canReject G \<longleftrightarrow>
     (gsDragging G \<longrightarrow> gsConsumed G \<or>
        gsAxis G = Some Horizontal
        \<and> gsShift G = clampedDx canReject (gsCurrentX G - gsStartX G)
        \<and> gsOpacity G = min SWIPE_THRESHOLD \<bar>gsShift G\<bar>
        \<and> (0 < gsShift G \<longrightarrow> gsOverlay G = AcceptOverlay)
        \<and> (gsShift G < 0 \<longrightarrow> gsOverlay G = RejectOverlay))"

lemma fresh_drag_ok: "dragOk c freshGesture"
  by (simp add: dragOk_def freshGesture_def)

lemma pointer_drag_ok: "dragOk c G \<Longrightarrow> dragOk c (fst (onPointer c e G))"
  by (cases e) (auto simp: dragOk_def gesture_defs SWIPE_THRESHOLD_def)

lemma run_drag_ok: "dragOk c G \<Longrightarrow> dragOk c (fst (runPointer c es G))"
  by (induction es arbitrary: G) (auto simp: split_def Let_def intro: pointer_drag_ok)

lemma consumed_pointer: "gsConsumed G \<Longrightarrow> snd (onPointer c e G) = None \<and> gsConsumed (fst (onPointer c e G))"
  by (cases e) (auto simp: gesture_defs)

lemma consumed_run: "gsConsumed G \<Longrightarrow> snd (runPointer c es G) = []"
  by (induction es arbitrary: G) (auto simp: split_def Let_def consumed_pointer)

lemma verdict_consumes: "snd (onPointer c e G) = Some v \<Longrightarrow> gsConsumed (fst (onPointer c e G))"
  by (cases e) (auto simp: gesture_defs split: if_splits)

lemma verdict_shown:
  assumes "dragOk c G" "snd (onPointerUp c G) = Some v"
  shows "gsOverlay G = verdictOverlay v \<and> gsOpacity G = SWIPE_THRESHOLD \<and> (v = Reject \<longrightarrow> c)"
  using assms
  by (auto simp: onPointerUp_def dragOk_def clampedDx_def verdictOverlay_def SWIPE_THRESHOLD_def
      Let_def split: if_splits)



lemma at_most_one_verdict: "length (snd (runPointer c es G)) \<le> 1"
proof (induction es arbitrary: G)
  case (Cons e es)
  obtain G1 v where s: "onPointer c e G = (G1, v)" by fastforce
  show ?case
  proof (cases v)
    case (Some w)
    then have "gsConsumed G1" using verdict_consumes [of c e G w] s by simp
    then show ?thesis using s Some by (simp add: split_def Let_def consumed_run)
  qed (use Cons [of G1] s in \<open>simp add: split_def Let_def\<close>)
qed simp

section \<open>Scrolling, swiping, and tapping a button\<close>

text \<open>A touch that starts as a scroll decides nothing until it is lifted.\<close>

definition isMove :: "pointer \<Rightarrow> bool" where
  "isMove e = (case e of PtMove x y \<Rightarrow> True | _ \<Rightarrow> False)"

lemma scroll_stays_a_scroll:
  assumes "gsAxis G = Some Vertical" "\<not> gsDragging G" "list_all isMove es"
  shows "let G' = fst (runPointer c es G)
    in gsShift G' = gsShift G \<and> gsOverlay G' = gsOverlay G \<and> snd (onPointerUp c G') = None"
  using assms
proof (induction es arbitrary: G)
  case Nil
  then show ?case by (simp add: onPointerUp_def Let_def)
next
  case (Cons e es)
  obtain x y where e: "e = PtMove x y" using Cons.prems(3) by (auto simp: isMove_def split: pointer.splits)
  let ?G = "onPointerMove c x y G"
  have "gsAxis ?G = Some Vertical" "\<not> gsDragging ?G" "gsShift ?G = gsShift G" "gsOverlay ?G = gsOverlay G"
    using Cons.prems(1,2) by (auto simp: onPointerMove_def Let_def)
  then show ?case using Cons.IH [of ?G] Cons.prems(3) e by (simp add: split_def Let_def)
qed

text \<open>A swipe of at least the threshold that is more horizontal than vertical accepts.\<close>

lemma right_swipe_accepts:
  assumes "\<not> gsConsumed G" "SWIPE_THRESHOLD \<le> x' - x" "\<bar>y' - y\<bar> \<le> x' - x"
  shows "snd (runPointer c [PtDown x y False, PtMove x' y', PtUp] G) = [Accept]"
  using assms by (auto simp: gesture_defs lockAxis_def SWIPE_THRESHOLD_def SWIPE_AXIS_LOCK_THRESHOLD_def)

lemma left_swipe_rejects:
  assumes "\<not> gsConsumed G" "SWIPE_THRESHOLD \<le> x - x'" "\<bar>y' - y\<bar> \<le> x - x'"
  shows "snd (runPointer True [PtDown x y False, PtMove x' y', PtUp] G) = [Reject]"
  using assms by (auto simp: gesture_defs lockAxis_def SWIPE_THRESHOLD_def SWIPE_AXIS_LOCK_THRESHOLD_def)

text \<open>
  The pointer does not have to be down for a card to be dragged, and a press on a button does not
  restart the drag: a pointer that reaches a button of the card and clicks it accepts, because the
  distance is counted from the left edge of the page.
\<close>

lemma click_on_a_button_accepts:
  assumes "SWIPE_THRESHOLD \<le> x" "0 \<le> y" "y \<le> x"
  shows "snd (runPointer c [PtMove x y, PtDown x y True, PtUp] freshGesture) = [Accept]"
  using assms by (auto simp: gesture_defs freshGesture_def lockAxis_def SWIPE_THRESHOLD_def
      SWIPE_AXIS_LOCK_THRESHOLD_def)

end
