(* ===== verification/ApprovalTab.thy ===== *)
theory ApprovalTab
  imports ApprovalAnswer SessionRecord SwipeGesture
begin

text \<open>
  The approval queue (\<open>src/web/src/app/approval-queue-tab.ts\<close>): one card for every session that
  waits for an answer, answered by its buttons or by a swipe, a rejection with three seconds to
  undo it. The swipe itself is in \<open>SwipeGesture\<close>, what an answer does in \<open>ApprovalAnswer\<close>.
\<close>

section \<open>What a card shows\<close>

definition pendingSessionIds :: "store \<Rightarrow> int list" where
  "pendingSessionIds S =
     map ssId (filter (\<lambda>s. visibleOf S (ssId s) \<or> stMultiQ S (ssId s)) (orderSessions (stApp S)))"

text \<open>The first truthy property, \<open>(s.cwd || '')\<close> split at its slashes, or the number.\<close>

definition firstTruthy :: "jobj \<Rightarrow> string list \<Rightarrow> jsval option" where
  "firstTruthy s fs = List.find truthy (map s fs)"

definition sessionTitle :: "int \<Rightarrow> jobj option \<Rightarrow> jstr" where
  "sessionTitle i s =
     (case s of
        None \<Rightarrow> js ''Session''
      | Some o' \<Rightarrow>
          (case firstTruthy o' [''label'', ''last_message'', ''first_message''] of
             Some v \<Rightarrow> jsText v
           | None \<Rightarrow>
               (let base = deriveProjectKeyFromCwd (orText (o' ''cwd''))
                in if base \<noteq> [] then base else 35 # num_str i)))"

text \<open>
  The properties \<open>_preamble\<close> and \<open>_question\<close> of the array of options, and
  \<open>_sequentialQuestion\<close> and \<open>_menuTitle\<close> of each option; a missing one is empty.
\<close>

record optionsMeta =
  omPreamble :: jstr
  omQuestion :: jstr
  omOptions :: "(jstr \<times> jstr) list"

definition approvalQuestionContext :: "optionsMeta option \<Rightarrow> jstr \<times> jstr" where
  "approvalQuestionContext om =
     (case om of
        None \<Rightarrow> ([], [])
      | Some m \<Rightarrow>
          (let q0 = trim (omQuestion m);
               q1 = (if q0 \<noteq> [] then q0
                     else (case List.find (\<lambda>(a, b). a \<noteq> [] \<or> b \<noteq> []) (omOptions m) of
                             None \<Rightarrow> []
                           | Some (a, b) \<Rightarrow> trim (if a \<noteq> [] then a else b)));
               q2 = (if test True (seqs [RBol, lit (js ''approval needed''), REol]) q1 then [] else q1)
           in (trim (omPreamble m), q2)))"

text \<open>What is read from elsewhere: the sessions, the array properties, the summaries, the open cards.\<close>

record tabEnv =
  teSession :: "int \<Rightarrow> jobj option"
  teMeta :: "int \<Rightarrow> optionsMeta"
  teSummary :: "int \<Rightarrow> summary option"

section \<open>Equal questions of several sessions\<close>

definition riskText :: "summary \<Rightarrow> jstr" where
  "riskText a = trim (if smRisk a = [] then js ''mid'' else smRisk a)"

definition batchSignature :: "tabEnv \<Rightarrow> int \<Rightarrow> jstr option" where
  "batchSignature E i =
     (case (teSummary E i, teSession E i) of
        (Some sm, Some s) \<Rightarrow>
          Some (toLowerCase (trim (orText (s ''provider''))) @ [0] @ trim (smCommand sm) @ [0]
            @ riskText sm @ [0] @ trim (orText (s ''cwd'')))
      | _ \<Rightarrow> None)"

definition cardSignature :: "tabEnv \<Rightarrow> store \<Rightarrow> int \<Rightarrow> jstr option" where
  "cardSignature E S i = (case stRaw S i of None \<Rightarrow> None | Some c \<Rightarrow> batchSignature E i)"

fun addToGroup :: "jstr \<Rightarrow> int \<Rightarrow> (jstr \<times> int list) list \<Rightarrow> (jstr \<times> int list) list" where
  "addToGroup g i [] = [(g, [i])]"
| "addToGroup g i ((h, js') # gs) =
     (if h = g then (h, js' @ [i]) # gs else (h, js') # addToGroup g i gs)"

fun signatureGroups :: "(int \<Rightarrow> jstr option) \<Rightarrow> int list \<Rightarrow> (jstr \<times> int list) list \<Rightarrow> (jstr \<times> int list) list" where
  "signatureGroups sig [] gs = gs"
| "signatureGroups sig (i # is) gs =
     signatureGroups sig is
       (case sig i of None \<Rightarrow> gs | Some g \<Rightarrow> if g = [] then gs else addToGroup g i gs)"

text \<open>The controls for a whole group: on its first card, with the size; the two buttons only at low risk.\<close>

definition batchControls :: "tabEnv \<Rightarrow> store \<Rightarrow> int list \<Rightarrow> int \<Rightarrow> (nat \<times> bool) option" where
  "batchControls E S ids i =
     (case cardSignature E S i of
        None \<Rightarrow> None
      | Some g \<Rightarrow>
          (case map_of (signatureGroups (cardSignature E S) ids []) g of
             None \<Rightarrow> None
           | Some members \<Rightarrow>
               if g \<noteq> [] \<and> 1 < length members \<and> hd members = i
               then Some (length members, map_option smRisk (teSummary E i) = Some (js ''low'')) else None))"

section \<open>Cards\<close>

text \<open>A hint to open the terminal, the options as buttons (with a swipe or without), or no options yet.\<close>

datatype cardBody =
    OpenTerminal
  | OptionButtons "approvalOption list" bool
  | Detecting

definition cardBodyOf :: "store \<Rightarrow> int \<Rightarrow> cardBody" where
  "cardBodyOf S i =
     (let os = stRaw S i;
          none = (case os of None \<Rightarrow> True | Some c \<Rightarrow> emptyBody (coBody c))
      in if stMultiQ S i \<and> none then OpenTerminal
         else if none then Detecting
         else (case os of
                 None \<Rightarrow> Detecting
               | Some c \<Rightarrow>
                   (case coBody c of
                      Batch ss \<Rightarrow> OpenTerminal
                    | Single xs \<Rightarrow> OptionButtons xs (1 \<le> length xs \<and> length xs \<le> 2))))"

text \<open>The signature of a card: everything that the drawing depends on.\<close>

record cardSig =
  csId :: int
  csTitle :: jstr
  csProvider :: jsval
  csActive :: bool
  csMultiQ :: bool
  csBatch :: bool
  csContext :: "jstr \<times> jstr"
  csOptions :: "jstr list option"
  csExpanded :: bool

text \<open>The options of the caches have no \<open>send_text\<close>, so that part of the string is empty.\<close>

definition optionSig :: "approvalOption \<Rightarrow> jstr" where
  "optionSig a = num_str (oNum a) @ [32] @ oLabel a @ [32, 32] @ (if oCurrent a then [49] else [48])"

definition sectionSig :: "approvalSection \<Rightarrow> jstr" where
  "sectionSig s = num_str (sNum s) @ [32, 32, 32, 48]"

definition approvalPaneSig :: "tabEnv \<Rightarrow> (int \<Rightarrow> bool) \<Rightarrow> store \<Rightarrow> cardSig list" where
  "approvalPaneSig E expanded S =
     map (\<lambda>i.
       \<lparr>csId = i, csTitle = sessionTitle i (teSession E i),
        csProvider = (case teSession E i of None \<Rightarrow> JStr [] | Some s \<Rightarrow> s ''provider''),
        csActive = (activeOf S = Some i), csMultiQ = stMultiQ S i,
        csBatch = (case stRaw S i of None \<Rightarrow> False | Some c \<Rightarrow> isBatchOptions (coBody c)),
        csContext = approvalQuestionContext (map_option (\<lambda>c. teMeta E i) (stRaw S i)),
        csOptions = map_option (\<lambda>c. case coBody c of
            Single xs \<Rightarrow> map optionSig xs | Batch ss \<Rightarrow> map sectionSig ss) (stRaw S i),
        csExpanded = expanded i\<rparr>) (pendingSessionIds S)"

record card =
  cdId :: int
  cdActive :: bool
  cdControls :: "(nat \<times> bool) option"
  cdBody :: cardBody
  cdDisabled :: bool
  cdGesture :: gesture

definition makeCard :: "tabEnv \<Rightarrow> store \<Rightarrow> int list \<Rightarrow> int \<Rightarrow> card" where
  "makeCard E S ids i =
     \<lparr>cdId = i, cdActive = (activeOf S = Some i), cdControls = batchControls E S ids i,
      cdBody = cardBodyOf S i, cdDisabled = False, cdGesture = freshGesture\<rparr>"

section \<open>The pane\<close>

text \<open>A rejection that was swiped: the closure of its timer and of its undo button.\<close>

record rejection =
  rjSession :: int
  rjNum :: int
  rjUndone :: bool

text \<open>
  \<open>tbSig\<close> is \<open>_lastPaneSig\<close>, \<open>tbDrawn\<close> that the pane has children, \<open>tbExpanded\<close>
  \<open>_expandedCards\<close>, \<open>tbAccepts\<close> the answers whose 180 ms are running, \<open>tbRejects\<close> every rejection
  made so far, \<open>tbTimers\<close> those whose 3 s are running, \<open>tbUndo\<close> the module variable \<open>_undoTimer\<close>,
  \<open>tbButton\<close> the rejection whose undo button is in the toast, \<open>tbSent\<close> the rejections that were sent.
\<close>

record tab =
  tbStore :: store
  tbSig :: "cardSig list option"
  tbDrawn :: bool
  tbCards :: "card list"
  tbExpanded :: "int \<Rightarrow> bool"
  tbAccepts :: "(int \<times> int) list"
  tbRejects :: "rejection list"
  tbTimers :: "nat list"
  tbUndo :: "nat option"
  tbButton :: "nat option"
  tbSent :: "nat list"

definition freshTab :: "store \<Rightarrow> tab" where
  "freshTab S =
     \<lparr>tbStore = S, tbSig = None, tbDrawn = False, tbCards = [], tbExpanded = (\<lambda>_. False),
      tbAccepts = [], tbRejects = [], tbTimers = [], tbUndo = None, tbButton = None, tbSent = []\<rparr>"

text \<open>
  What an event meets: \<open>tcEnv\<close> for the drawing, whether the pane is shown, \<open>activateSession\<close>,
  the time, and the mode of the confirmation of risky answers.
\<close>

record tabCtx =
  tcEnv :: tabEnv
  tcVisible :: bool
  tcActivate :: "int \<Rightarrow> appState \<Rightarrow> appState"
  tcNow :: int
  tcDialog :: bool

definition renderApprovalPane :: "tabEnv \<Rightarrow> tab \<Rightarrow> tab" where
  "renderApprovalPane E T =
     (let S = tbStore T; ids = pendingSessionIds S; sig = approvalPaneSig E (tbExpanded T) S in
      if tbSig T = Some sig \<and> tbDrawn T then T
      else T\<lparr>tbSig := Some sig, tbDrawn := True, tbCards := map (makeCard E S ids) ids\<rparr>)"

definition refreshApprovalTab :: "tabCtx \<Rightarrow> tab \<Rightarrow> tab" where
  "refreshApprovalTab X T = (if tcVisible X then renderApprovalPane (tcEnv X) T else T)"

text \<open>
  A change of the caches. When there is an \<open>approval-queue-updated\<close> among its events, the pane is
  refreshed, here once, after the change.
\<close>

definition onTabStore :: "tabCtx \<Rightarrow> (store \<Rightarrow> store) \<Rightarrow> tab \<Rightarrow> tab" where
  "onTabStore X f T =
     (let S = tbStore T; T1 = T\<lparr>tbStore := f S\<rparr> in
      if List.member (drop (length (stLog S)) (stLog (f S))) EvQueue then refreshApprovalTab X T1 else T1)"

definition answerFrom :: "tabCtx \<Rightarrow> int \<Rightarrow> int \<Rightarrow> tab \<Rightarrow> tab" where
  "answerFrom X i n = onTabStore X (sendChoice (tcActivate X) (tcNow X) (tcDialog X) i n False)"

definition onCard :: "int \<Rightarrow> (card \<Rightarrow> card) \<Rightarrow> tab \<Rightarrow> tab" where
  "onCard i f T = T\<lparr>tbCards := map (\<lambda>c. if cdId c = i then f c else c) (tbCards T)\<rparr>"

definition cardFor :: "int \<Rightarrow> tab \<Rightarrow> card option" where
  "cardFor i T = List.find (\<lambda>c. cdId c = i) (tbCards T)"

text \<open>A button of a card: the answer is sent and the buttons of the (old) card are disabled.\<close>

definition clickOption :: "tabCtx \<Rightarrow> int \<Rightarrow> nat \<Rightarrow> tab \<Rightarrow> tab" where
  "clickOption X i k T =
     (case cardFor i T of
        None \<Rightarrow> T
      | Some c \<Rightarrow>
          (case cdBody c of
             OptionButtons os sw \<Rightarrow>
               if cdDisabled c \<or> length os \<le> k then T
               else answerFrom X i (oNum (os ! k)) (onCard i (\<lambda>d. d\<lparr>cdDisabled := True\<rparr>) T)
           | _ \<Rightarrow> T))"

definition toggleExpanded :: "int \<Rightarrow> tab \<Rightarrow> tab" where
  "toggleExpanded i T = T\<lparr>tbExpanded := (tbExpanded T)(i := \<not> tbExpanded T i), tbSig := None\<rparr>"

section \<open>Swiped answers\<close>

definition executeSwipeAccept :: "int \<Rightarrow> int \<Rightarrow> tab \<Rightarrow> tab" where
  "executeSwipeAccept i n T = T\<lparr>tbAccepts := tbAccepts T @ [(i, n)]\<rparr>"

definition fireAccept :: "tabCtx \<Rightarrow> nat \<Rightarrow> tab \<Rightarrow> tab" where
  "fireAccept X j T =
     (if length (tbAccepts T) \<le> j then T
      else (case tbAccepts T ! j of (i, n) \<Rightarrow>
        answerFrom X i n (T\<lparr>tbAccepts := take j (tbAccepts T) @ drop (Suc j) (tbAccepts T)\<rparr>)))"

definition clearUndoTimer :: "tab \<Rightarrow> tab" where
  "clearUndoTimer T =
     (case tbUndo T of None \<Rightarrow> T | Some j \<Rightarrow> T\<lparr>tbTimers := filter (\<lambda>k. k \<noteq> j) (tbTimers T)\<rparr>)"

text \<open>\<open>showToast\<close> replaces the content of the toast, and with it an older undo button.\<close>

definition executeSwipeRejectWithUndo :: "int \<Rightarrow> int \<Rightarrow> tab \<Rightarrow> tab" where
  "executeSwipeRejectWithUndo i n T =
     (let k = length (tbRejects T); T1 = clearUndoTimer T in
      T1\<lparr>tbRejects := tbRejects T @ [\<lparr>rjSession = i, rjNum = n, rjUndone = False\<rparr>],
         tbButton := Some k, tbTimers := tbTimers T1 @ [k], tbUndo := Some k\<rparr>)"

definition undoReject :: "tabCtx \<Rightarrow> tab \<Rightarrow> tab" where
  "undoReject X T =
     (case tbButton T of
        None \<Rightarrow> T
      | Some k \<Rightarrow>
          if rjUndone (tbRejects T ! k) then T
          else
            (let T1 = clearUndoTimer
                   (T\<lparr>tbRejects := (tbRejects T)[k := (tbRejects T ! k)\<lparr>rjUndone := True\<rparr>]\<rparr>)
             in refreshApprovalTab X (T1\<lparr>tbUndo := None, tbButton := None\<rparr>)))"

definition fireReject :: "tabCtx \<Rightarrow> nat \<Rightarrow> tab \<Rightarrow> tab" where
  "fireReject X k T =
     (if \<not> List.member (tbTimers T) k then T
      else
        (let T1 = T\<lparr>tbTimers := filter (\<lambda>j. j \<noteq> k) (tbTimers T), tbUndo := None,
                    tbButton := (if tbButton T = Some k then None else tbButton T)\<rparr>;
             r = tbRejects T ! k
         in if rjUndone r then T1
            else answerFrom X (rjSession r) (rjNum r) (T1\<lparr>tbSent := tbSent T @ [k]\<rparr>)))"

definition otherToast :: "tab \<Rightarrow> tab" where
  "otherToast T = T\<lparr>tbButton := None\<rparr>"

definition swipeCard :: "int \<Rightarrow> pointer \<Rightarrow> tab \<Rightarrow> tab" where
  "swipeCard i e T =
     (case cardFor i T of
        None \<Rightarrow> T
      | Some c \<Rightarrow>
          (case cdBody c of
             OptionButtons os sw \<Rightarrow>
               if \<not> sw then T
               else
                 (let (G, v) = onPointer (2 \<le> length os) e (cdGesture c);
                      T1 = onCard i (\<lambda>d. d\<lparr>cdGesture := G\<rparr>) T
                  in case v of
                       None \<Rightarrow> T1
                     | Some Accept \<Rightarrow> executeSwipeAccept i (oNum (os ! 0)) T1
                     | Some Reject \<Rightarrow> executeSwipeRejectWithUndo i (oNum (os ! 1)) T1)
           | _ \<Rightarrow> T))"

section \<open>Runs\<close>

text \<open>\<open>CachesChange\<close>: another part of the client changed the caches, with an event for it or without.\<close>

datatype tabEvent =
    Refresh
  | Pointer int pointer
  | ClickOption int nat
  | ToggleExpanded int
  | UndoButton
  | RejectTimer nat
  | AcceptTimer nat
  | OtherToast
  | CachesChange bool store

fun tabDo :: "tabCtx \<Rightarrow> tabEvent \<Rightarrow> tab \<Rightarrow> tab" where
  "tabDo X Refresh T = refreshApprovalTab X T"
| "tabDo X (Pointer i e) T = swipeCard i e T"
| "tabDo X (ClickOption i k) T = clickOption X i k T"
| "tabDo X (ToggleExpanded i) T = toggleExpanded i T"
| "tabDo X UndoButton T = undoReject X T"
| "tabDo X (RejectTimer k) T = fireReject X k T"
| "tabDo X (AcceptTimer j) T = fireAccept X j T"
| "tabDo X OtherToast T = otherToast T"
| "tabDo X (CachesChange told S) T =
     (if told then refreshApprovalTab X (T\<lparr>tbStore := S\<rparr>) else T\<lparr>tbStore := S\<rparr>)"

fun runTab :: "(tabCtx \<times> tabEvent) list \<Rightarrow> tab \<Rightarrow> tab" where
  "runTab [] T = T"
| "runTab ((X, e) # es) T = runTab es (tabDo X e T)"

section \<open>Rejections\<close>

text \<open>The part of the state that the timers and the undo button are about.\<close>

definition undoPart :: "tab \<Rightarrow> rejection list \<times> nat list \<times> nat option \<times> nat option \<times> nat list" where
  "undoPart T = (tbRejects T, tbTimers T, tbUndo T, tbButton T, tbSent T)"

lemma undo_refresh [simp]: "undoPart (refreshApprovalTab X T) = undoPart T"
  by (simp add: refreshApprovalTab_def renderApprovalPane_def undoPart_def Let_def)

lemma undo_store [simp]: "undoPart (onTabStore X f T) = undoPart T"
  unfolding onTabStore_def Let_def by (simp add: if_distrib cong: if_cong) (simp add: undoPart_def)

lemma undo_answer [simp]: "undoPart (answerFrom X i n T) = undoPart T"
  by (simp add: answerFrom_def)

lemma undo_card [simp]: "undoPart (onCard i f T) = undoPart T"
  by (simp add: onCard_def undoPart_def)

lemma undo_updates [simp]:
  "undoPart (T\<lparr>tbStore := S\<rparr>) = undoPart T"
  "undoPart (T\<lparr>tbAccepts := a\<rparr>) = undoPart T"
  "undoPart (T\<lparr>tbExpanded := e, tbSig := g\<rparr>) = undoPart T"
  by (simp_all add: undoPart_def)

fun undoOk :: "rejection list \<times> nat list \<times> nat option \<times> nat option \<times> nat list \<Rightarrow> bool" where
  "undoOk (rs, ts, u, b, ss) \<longleftrightarrow>
     ts = (case u of None \<Rightarrow> [] | Some k \<Rightarrow> [k])
     \<and> (\<forall>k. u = Some k \<longrightarrow> k < length rs \<and> \<not> rjUndone (rs ! k) \<and> k \<notin> set ss)
     \<and> (\<forall>k. b = Some k \<longrightarrow> u = Some k)
     \<and> distinct ss \<and> (\<forall>k \<in> set ss. k < length rs \<and> \<not> rjUndone (rs ! k))"

lemma undo_reject:
  "undoPart (executeSwipeRejectWithUndo i n T) =
     (case undoPart T of (rs, ts, u, b, ss) \<Rightarrow>
        (rs @ [\<lparr>rjSession = i, rjNum = n, rjUndone = False\<rparr>],
         (case u of None \<Rightarrow> ts | Some j \<Rightarrow> filter (\<lambda>k. k \<noteq> j) ts) @ [length rs],
         Some (length rs), Some (length rs), ss))"
  by (simp add: undoPart_def executeSwipeRejectWithUndo_def clearUndoTimer_def Let_def split: option.splits)

lemma undo_undo:
  "undoPart (undoReject X T) =
     (case undoPart T of (rs, ts, u, b, ss) \<Rightarrow>
        (case b of None \<Rightarrow> undoPart T
         | Some k \<Rightarrow> if rjUndone (rs ! k) then undoPart T
             else (rs[k := (rs ! k)\<lparr>rjUndone := True\<rparr>],
               (case u of None \<Rightarrow> ts | Some j \<Rightarrow> filter (\<lambda>k. k \<noteq> j) ts), None, None, ss)))"
  unfolding undoReject_def Let_def
  by (simp split: option.splits) (simp add: undoPart_def clearUndoTimer_def split: option.splits)

lemma undo_fire:
  "undoPart (fireReject X k T) =
     (case undoPart T of (rs, ts, u, b, ss) \<Rightarrow>
        if k \<notin> set ts then undoPart T
        else (rs, filter (\<lambda>j. j \<noteq> k) ts, None, (if b = Some k then None else b),
              (if rjUndone (rs ! k) then ss else ss @ [k])))"
  unfolding fireReject_def Let_def
  by (simp add: if_distrib) (simp add: undoPart_def)

lemma undo_toast:
  "undoPart (otherToast T) = (case undoPart T of (rs, ts, u, b, ss) \<Rightarrow> (rs, ts, u, None, ss))"
  by (simp add: undoPart_def otherToast_def)

lemma undo_swipe:
  "undoPart (swipeCard i e T) = undoPart T
   \<or> (\<exists>n. undoPart (swipeCard i e T) = undoPart (executeSwipeRejectWithUndo i n T))"
proof -
  have "undoPart (executeSwipeRejectWithUndo i n (onCard i f T)) = undoPart (executeSwipeRejectWithUndo i n T)"
    for n f by (simp add: undo_reject)
  then show ?thesis
    by (auto simp: swipeCard_def executeSwipeAccept_def Let_def split: option.splits cardBody.splits prod.splits verdict.splits)
qed

lemma undo_do:
  "undoPart (tabDo X e T) = undoPart T
   \<or> (\<exists>i n. undoPart (tabDo X e T) = undoPart (executeSwipeRejectWithUndo i n T))
   \<or> undoPart (tabDo X e T) = undoPart (undoReject X T)
   \<or> (\<exists>k. undoPart (tabDo X e T) = undoPart (fireReject X k T))
   \<or> undoPart (tabDo X e T) = undoPart (otherToast T)"
proof (cases e)
  case (Pointer i p)
  then show ?thesis using undo_swipe [of i p T] by auto
next
  case (ClickOption i k)
  have "undoPart (clickOption X i k T) = undoPart T"
    by (simp add: clickOption_def split: option.splits cardBody.splits)
  then show ?thesis using ClickOption by simp
next
  case (AcceptTimer j)
  have "undoPart (fireAccept X j T) = undoPart T"
    by (simp add: fireAccept_def split: prod.splits)
  then show ?thesis using AcceptTimer by simp
qed (auto simp: toggleExpanded_def)

lemma undo_ok_reject:
  assumes "undoOk (rs, ts, u, b, ss)"
  shows "undoOk (rs @ [\<lparr>rjSession = i, rjNum = n, rjUndone = False\<rparr>],
    (case u of None \<Rightarrow> ts | Some j \<Rightarrow> filter (\<lambda>k. k \<noteq> j) ts) @ [length rs],
    Some (length rs), Some (length rs), ss)"
  using assms by (cases u) (auto simp: nth_append)

lemma undo_ok_undo:
  assumes "undoOk (rs, ts, u, Some k, ss)"
  shows "undoOk (rs[k := (rs ! k)\<lparr>rjUndone := True\<rparr>],
    (case u of None \<Rightarrow> ts | Some j \<Rightarrow> filter (\<lambda>k. k \<noteq> j) ts), None, None, ss)"
proof -
  have "u = Some k" "ts = [k]" "k \<notin> set ss" "distinct ss"
    "\<forall>j \<in> set ss. j < length rs \<and> \<not> rjUndone (rs ! j)" using assms by auto
  moreover have "k \<noteq> j" if "j \<in> set ss" for j using that \<open>k \<notin> set ss\<close> by auto
  ultimately show ?thesis by (simp add: nth_list_update)
qed

lemma undo_ok_fire:
  assumes "undoOk (rs, ts, u, b, ss)" "k \<in> set ts"
  shows "undoOk (rs, filter (\<lambda>j. j \<noteq> k) ts, None, (if b = Some k then None else b),
    (if rjUndone (rs ! k) then ss else ss @ [k]))"
proof -
  have "u = Some k" "ts = [k]" "b = None \<or> b = Some k"
    using assms by (cases b; auto split: option.splits)+
  then show ?thesis using assms(1) by auto
qed

lemma undo_ok_rejecting:
  "undoOk (undoPart T) \<Longrightarrow> undoOk (undoPart (executeSwipeRejectWithUndo i n T))"
  by (cases "undoPart T") (simp add: undo_reject undo_ok_reject del: undoOk.simps)

lemma undo_ok_do:
  assumes "undoOk (undoPart T)"
  shows "undoOk (undoPart (tabDo X e T))"
proof -
  obtain rs ts u b ss where p: "undoPart T = (rs, ts, u, b, ss)" by (metis prod_cases5)
  note ok = assms [unfolded p]
  have "undoOk (undoPart (executeSwipeRejectWithUndo i n T))" for i n
    by (rule undo_ok_rejecting [OF assms])
  moreover have "undoOk (undoPart (undoReject X T))"
  proof (cases b)
    case (Some k)
    then show ?thesis using undo_ok_undo [of rs ts u k ss] ok by (simp add: undo_undo p del: undoOk.simps)
  qed (use ok in \<open>simp add: undo_undo p del: undoOk.simps\<close>)
  moreover have "undoOk (undoPart (fireReject X k T))" for k
    using undo_ok_fire [OF ok, of k] ok by (simp add: undo_fire p del: undoOk.simps)
  moreover have "undoOk (undoPart (otherToast T))"
    using ok by (simp add: undo_toast p)
  ultimately show ?thesis using undo_do [of X e T] assms by metis
qed

lemma undo_ok_run: "undoOk (undoPart T) \<Longrightarrow> undoOk (undoPart (runTab es T))"
  by (induction es T rule: runTab.induct) (auto intro: undo_ok_do simp del: tabDo.simps)

lemma undo_ok_fresh: "undoOk (undoPart (freshTab S))"
  by (simp add: undoPart_def freshTab_def)

text \<open>
  C13: A rejection can be taken back, and is sent at most once: in every run of the approval queue,
  a rejection whose undo button was pressed is not sent and its timer does not run, no rejection is
  sent twice, and at most one rejection is waiting to be sent.
\<close>

theorem undone_rejection_not_sent:
  "let T = runTab es (freshTab S) in
     distinct (tbSent T) \<and> length (tbTimers T) \<le> 1
     \<and> list_all (\<lambda>k. \<not> (rjUndone (tbRejects T ! k)
           \<and> (List.member (tbTimers T) k \<or> List.member (tbSent T) k))) [0..<length (tbRejects T)]
     \<and> list_all (\<lambda>k. \<not> List.member (tbTimers T) k) (tbSent T)"
  using undo_ok_run [OF undo_ok_fresh [of S], of es]
  by (auto simp: Let_def undoPart_def list_all_iff split: option.splits)

text \<open>
  A rejection that is no longer waiting stays as it was settled: whatever follows, it is never
  sent. A second rejection within the three seconds settles the first one that way, without
  sending it.
\<close>

lemma settled_do:
  assumes "undoOk (undoPart T)" "k < length (tbRejects T)" "k \<notin> set (tbTimers T)" "k \<notin> set (tbSent T)"
  shows "k < length (tbRejects (tabDo X e T)) \<and> k \<notin> set (tbTimers (tabDo X e T))
    \<and> k \<notin> set (tbSent (tabDo X e T))"
proof -
  obtain rs ts u b ss where p: "undoPart T = (rs, ts, u, b, ss)" by (metis prod_cases5)
  have part: "tbRejects T' = fst (undoPart T') \<and> tbTimers T' = fst (snd (undoPart T'))
    \<and> tbSent T' = snd (snd (snd (snd (undoPart T'))))" for T' by (simp add: undoPart_def)
  have k: "k < length rs" "k \<notin> set ts" "k \<notin> set ss" using assms(2-4) p by (auto simp: part)
  show ?thesis
    using undo_do [of X e T] k
    by (elim disjE exE)
       (auto simp: part undo_reject undo_undo undo_fire undo_toast p split: option.splits)
qed

lemma settled_run:
  assumes "undoOk (undoPart T)" "k < length (tbRejects T)" "k \<notin> set (tbTimers T)" "k \<notin> set (tbSent T)"
  shows "k \<notin> set (tbSent (runTab es T))"
  using assms
proof (induction es T rule: runTab.induct)
  case (2 X e es T)
  then show ?case using settled_do [OF 2(2-5), of X e] undo_ok_do [OF 2(2), of X e] by simp
qed simp

lemma second_rejection_drops_first:
  assumes "undoOk (undoPart T)"
  shows "length (tbRejects T) \<notin> set (tbSent (runTab es
    (executeSwipeRejectWithUndo j m (executeSwipeRejectWithUndo i n T))))"
proof -
  obtain rs ts u b ss where p: "undoPart T = (rs, ts, u, b, ss)" by (metis prod_cases5)
  note ok = assms [unfolded p]
  let ?T2 = "executeSwipeRejectWithUndo j m (executeSwipeRejectWithUndo i n T)"
  have "undoOk (undoPart ?T2)" by (intro undo_ok_rejecting assms)
  moreover have "undoPart ?T2 = (rs @ [\<lparr>rjSession = i, rjNum = n, rjUndone = False\<rparr>,
      \<lparr>rjSession = j, rjNum = m, rjUndone = False\<rparr>], [Suc (length rs)], Some (Suc (length rs)),
      Some (Suc (length rs)), ss)" using ok by (cases u) (simp_all add: undo_reject p)
  moreover have "length rs \<notin> set ss" using ok by auto
  ultimately show ?thesis
    using settled_run [of ?T2 "length (tbRejects T)" es] p by (simp add: undoPart_def)
qed

text \<open>
  Undoing makes the card visible again but draws nothing, because the signature of the pane has not
  changed: the card stays consumed, and every further swipe on it is ignored.
\<close>

lemma undone_card_stays_consumed:
  assumes "tbSig T = Some (approvalPaneSig (tcEnv X) (tbExpanded T) (tbStore T))" "tbDrawn T"
  shows "tbCards (undoReject X T) = tbCards T"
  using assms
  by (simp add: undoReject_def Let_def refreshApprovalTab_def renderApprovalPane_def clearUndoTimer_def
      split: option.splits)

text \<open>
  A click on a button of a swipeable card that is reached with a moving pointer answers twice: the
  click sends the chosen number, and 180 ms later the swipe sends the first one.
\<close>

definition twoChoices :: "approvalOption list" where
  "twoChoices = [mkOption 1 (js ''Yes'') True, mkOption 2 (js ''No'') False]"

definition askTwo :: store where
  "askTwo = emptyStore\<lparr>stRaw := (\<lambda>_. None)(1 := Some (plainCache (Single twoChoices))),
     stApp := emptyApp\<lparr>asSessions := [(1, \<lparr>ssId = 1, ssPinned = False, ssState = []\<rparr>)],
                       asVisible := (\<lambda>_. False)(1 := True)\<rparr>\<rparr>"

definition plainCtx :: tabCtx where
  "plainCtx = \<lparr>tcEnv = \<lparr>teSession = \<lambda>_. None, teMeta = \<lambda>_. \<lparr>omPreamble = [], omQuestion = [], omOptions = []\<rparr>,
      teSummary = \<lambda>_. None\<rparr>, tcVisible = True, tcActivate = \<lambda>_ A. A, tcNow = 0, tcDialog = False\<rparr>"

definition clickNo :: "tabEvent list" where
  "clickNo = [Refresh, Pointer 1 (PtMove 400 300), Pointer 1 (PtDown 400 300 True), Pointer 1 PtUp,
     ClickOption 1 1, AcceptTimer 0]"

lemma one_click_answers_twice:
  "sent 1 (tbStore (runTab (map (Pair plainCtx) clickNo) (freshTab askTwo)))
     = [EvText 1 (js ''2'' @ [13]), EvText 1 (js ''1'' @ [13])]"
  by code_simp

section \<open>Skipping a drawing\<close>

definition valueOf :: "jstr \<Rightarrow> int" where
  "valueOf ds = foldl (\<lambda>a d. 10 * a + (d - 48)) 0 ds"

lemma radix_chars: "0 \<le> n \<Longrightarrow> \<forall>c \<in> set (radix_digits 10 n). 48 \<le> c \<and> c \<le> 57"
proof (induction "10::int" n rule: radix_digits.induct)
  case (1 n)
  then show ?case by (subst radix_digits.simps) (auto simp: digit_cu_def)
qed

lemma value_snoc: "valueOf (ds @ [d]) = 10 * valueOf ds + (d - 48)"
  by (simp add: valueOf_def)

lemma radix_value: "0 \<le> n \<Longrightarrow> valueOf (radix_digits 10 n) = n"
proof (induction "10::int" n rule: radix_digits.induct)
  case (1 n)
  show ?case
  proof (cases "n < 10")
    case True
    then show ?thesis using 1(2) by (subst radix_digits.simps) (simp add: valueOf_def digit_cu_def)
  next
    case False
    then have "valueOf (radix_digits 10 (n div 10)) = n div 10" using 1 by simp
    then show ?thesis
      using False 1(2) by (subst radix_digits.simps) (simp add: value_snoc digit_cu_def)
  qed
qed

lemma num_str_chars: "c \<in> set (num_str n) \<Longrightarrow> c = 45 \<or> 48 \<le> c \<and> c \<le> 57"
  using radix_chars [of n] radix_chars [of "- n"] by (auto simp: num_str_def split: if_splits)

lemma radix_hd: "0 \<le> n \<Longrightarrow> radix_digits 10 n \<noteq> 45 # xs"
  using radix_chars [of n] by auto

lemma num_str_inj: "num_str m = num_str n \<Longrightarrow> m = n"
proof -
  assume eq: "num_str m = num_str n"
  consider "0 \<le> m" "0 \<le> n" | "m < 0" "n < 0" | "m < 0" "0 \<le> n" | "0 \<le> m" "n < 0" by linarith
  then show ?thesis
  proof cases
    case 1
    then have "valueOf (radix_digits 10 m) = valueOf (radix_digits 10 n)" using eq by (simp add: num_str_def)
    then show ?thesis unfolding radix_value [OF 1(1)] radix_value [OF 1(2)] .
  next
    case 2
    then have "valueOf (radix_digits 10 (- m)) = valueOf (radix_digits 10 (- n))" "0 \<le> - m" "0 \<le> - n"
      using eq by (simp_all add: num_str_def)
    then show ?thesis using radix_value [of "- m"] radix_value [of "- n"] by linarith
  next
    case 3
    then show ?thesis using eq radix_hd [of n "radix_digits 10 (- m)"] by (simp add: num_str_def)
  next
    case 4
    then show ?thesis using eq radix_hd [of m "radix_digits 10 (- n)"] by (simp add: num_str_def)
  qed
qed

lemma cut_at:
  "c \<notin> set xs \<Longrightarrow> c \<notin> set ys \<Longrightarrow> xs @ c # r = ys @ c # s \<Longrightarrow> xs = ys \<and> r = s"
proof (induction xs arbitrary: ys)
  case Nil
  then show ?case by (cases ys) auto
next
  case (Cons x xs)
  then show ?case by (cases ys) auto
qed

definition shownOption :: "approvalOption \<Rightarrow> int \<times> jstr \<times> bool" where
  "shownOption a = (oNum a, oLabel a, oCurrent a)"

lemma option_sig_inj: "optionSig a = optionSig b \<Longrightarrow> shownOption a = shownOption b"
proof -
  assume eq: "optionSig a = optionSig b"
  have no: "32 \<notin> set (num_str n)" for n using num_str_chars [of 32 n] by auto
  have sig: "optionSig a = num_str (oNum a) @ 32 # (oLabel a @ [32, 32, if oCurrent a then 49 else 48])" for a
    by (simp add: optionSig_def)
  have "num_str (oNum a) = num_str (oNum b) \<and>
      oLabel a @ [32, 32, if oCurrent a then 49 else 48] = oLabel b @ [32, 32, if oCurrent b then 49 else 48]"
    by (rule cut_at [OF no no]) (use eq in \<open>simp only: sig\<close>)
  then show ?thesis using num_str_inj [of "oNum a" "oNum b"] by (auto simp: shownOption_def split: if_splits)
qed

text \<open>What the drawing of a card shows, apart from the controls of a group.\<close>

datatype shownBody = ShowHint | ShowButtons "(int \<times> jstr \<times> bool) list" bool | ShowDetecting

definition shownBodyOf :: "cardBody \<Rightarrow> shownBody" where
  "shownBodyOf b =
     (case b of OpenTerminal \<Rightarrow> ShowHint | OptionButtons os sw \<Rightarrow> ShowButtons (map shownOption os) sw
      | Detecting \<Rightarrow> ShowDetecting)"

definition shownCard :: "card \<Rightarrow> int \<times> bool \<times> shownBody" where
  "shownCard c = (cdId c, cdActive c, shownBodyOf (cdBody c))"

definition drawnNow :: "store \<Rightarrow> (int \<times> bool \<times> shownBody) list" where
  "drawnNow S = map (\<lambda>i. (i, activeOf S = Some i, shownBodyOf (cardBodyOf S i))) (pendingSessionIds S)"

lemma map_option_sigs:
  "map optionSig xs = map optionSig ys \<Longrightarrow> map shownOption xs = map shownOption ys"
proof (induction xs arbitrary: ys)
  case (Cons x xs)
  then obtain y zs where "ys = y # zs" "optionSig x = optionSig y" "map optionSig xs = map optionSig zs"
    by (cases ys) simp_all
  then show ?case using Cons.IH [of zs] option_sig_inj [of x y] by simp
qed simp

definition bodyKey :: "store \<Rightarrow> int \<Rightarrow> bool \<times> bool \<times> jstr list option" where
  "bodyKey S i =
     (stMultiQ S i, (case stRaw S i of None \<Rightarrow> False | Some c \<Rightarrow> isBatchOptions (coBody c)),
      map_option (\<lambda>c. case coBody c of
        Single xs \<Rightarrow> map optionSig xs | Batch ss \<Rightarrow> map sectionSig ss) (stRaw S i))"

lemma body_key:
  assumes "bodyKey S i = bodyKey T i"
  shows "shownBodyOf (cardBodyOf S i) = shownBodyOf (cardBodyOf T i)"
proof (cases "stRaw S i")
  case None
  then have "stRaw T i = None" using assms by (simp add: bodyKey_def split: option.splits)
  then show ?thesis using assms None by (simp add: bodyKey_def cardBodyOf_def)
next
  case (Some c)
  then obtain d where d: "stRaw T i = Some d" using assms by (auto simp: bodyKey_def split: option.splits)
  have m: "stMultiQ S i = stMultiQ T i" using assms by (simp add: bodyKey_def)
  have os: "(case coBody c of Single xs \<Rightarrow> map optionSig xs | Batch ss \<Rightarrow> map sectionSig ss)
      = (case coBody d of Single xs \<Rightarrow> map optionSig xs | Batch ss \<Rightarrow> map sectionSig ss)"
    and b: "isBatchOptions (coBody c) = isBatchOptions (coBody d)"
    using assms Some d by (simp_all add: bodyKey_def)
  show ?thesis
  proof (cases "coBody c"; cases "coBody d")
    fix xs ys assume c: "coBody c = Single xs" "coBody d = Single ys"
    then have "map shownOption xs = map shownOption ys" by (intro map_option_sigs) (use os in simp)
    then show ?thesis
      using c Some d m map_eq_imp_length_eq [of shownOption xs shownOption ys]
      by (auto simp: cardBodyOf_def shownBodyOf_def emptyBody_def Let_def)
  qed (use os b Some d m in \<open>auto simp: cardBodyOf_def shownBodyOf_def emptyBody_def isBatchOptions_def Let_def\<close>)
qed

lemma pane_sig_shown:
  assumes "approvalPaneSig E x S = approvalPaneSig F y T"
  shows "drawnNow S = drawnNow T"
proof -
  have key: "map (\<lambda>s. (csId s, csActive s, csMultiQ s, csBatch s, csOptions s)) (approvalPaneSig G z U)
      = map (\<lambda>i. (i, activeOf U = Some i, bodyKey U i)) (pendingSessionIds U)" for G z U
    by (simp add: approvalPaneSig_def bodyKey_def)
  have "map (\<lambda>i. (i, activeOf S = Some i, bodyKey S i)) (pendingSessionIds S)
      = map (\<lambda>i. (i, activeOf T = Some i, bodyKey T i)) (pendingSessionIds T)"
    using key [of E x S] key [of F y T] assms by metis
  then have "map (\<lambda>i. (i, activeOf S = Some i, bodyKey S i)) is = map (\<lambda>i. (i, activeOf T = Some i, bodyKey T i)) js'
      \<Longrightarrow> map (\<lambda>i. (i, activeOf S = Some i, shownBodyOf (cardBodyOf S i))) is
        = map (\<lambda>i. (i, activeOf T = Some i, shownBodyOf (cardBodyOf T i))) js'" for "is" js'
  proof (induction "is" arbitrary: js')
    case (Cons i is')
    then show ?case by (cases js') (auto dest: body_key)
  qed simp
  then show ?thesis
    using \<open>map _ (pendingSessionIds S) = map _ (pendingSessionIds T)\<close> by (simp add: drawnNow_def)
qed

definition paneOk :: "tab \<Rightarrow> bool" where
  "paneOk T \<longleftrightarrow>
     (\<forall>g. tbSig T = Some g \<longrightarrow> tbDrawn T \<longrightarrow>
        (\<exists>E x S. g = approvalPaneSig E x S \<and> map shownCard (tbCards T) = drawnNow S))"

lemma pane_cong:
  "tbSig T = tbSig U \<Longrightarrow> tbDrawn T = tbDrawn U \<Longrightarrow> map shownCard (tbCards T) = map shownCard (tbCards U)
   \<Longrightarrow> paneOk T = paneOk U"
  unfolding paneOk_def by (simp only:)

lemma make_card_shown:
  "map shownCard (map (makeCard E S (pendingSessionIds S)) (pendingSessionIds S)) = drawnNow S"
  by (simp add: makeCard_def shownCard_def drawnNow_def)

lemma pane_render: "paneOk T \<Longrightarrow> paneOk (renderApprovalPane E T)"
  using make_card_shown [of E "tbStore T"] by (auto simp: renderApprovalPane_def paneOk_def Let_def)

lemma render_shows:
  assumes "paneOk T"
  shows "map shownCard (tbCards (renderApprovalPane E T)) = drawnNow (tbStore T)"
proof (cases "tbSig T = Some (approvalPaneSig E (tbExpanded T) (tbStore T)) \<and> tbDrawn T")
  case True
  then obtain F x S where "approvalPaneSig E (tbExpanded T) (tbStore T) = approvalPaneSig F x S"
    "map shownCard (tbCards T) = drawnNow S" using assms by (auto simp: paneOk_def)
  then show ?thesis
    using pane_sig_shown [of E "tbExpanded T" "tbStore T" F x S] True by (simp add: renderApprovalPane_def)
next
  case False
  then show ?thesis
    using make_card_shown [of E "tbStore T"] by (simp only: renderApprovalPane_def Let_def if_False) simp
qed

lemma pane_refresh: "paneOk T \<Longrightarrow> paneOk (refreshApprovalTab X T)"
  by (simp add: refreshApprovalTab_def pane_render)

lemma pane_updates:
  "paneOk T \<Longrightarrow> paneOk (T\<lparr>tbStore := S\<rparr>)"
  "paneOk T \<Longrightarrow> paneOk (T\<lparr>tbAccepts := a\<rparr>)"
  "paneOk (T\<lparr>tbExpanded := e, tbSig := None\<rparr>)"
  by (simp_all add: paneOk_def)

lemma pane_answer: "paneOk T \<Longrightarrow> paneOk (answerFrom X i n T)"
  by (simp add: answerFrom_def onTabStore_def Let_def pane_refresh pane_updates)

lemma shown_update:
  "shownCard (c\<lparr>cdDisabled := d\<rparr>) = shownCard c" "shownCard (c\<lparr>cdGesture := g\<rparr>) = shownCard c"
  by (simp_all add: shownCard_def)

lemma pane_card: "(\<And>c. shownCard (f c) = shownCard c) \<Longrightarrow> paneOk T \<Longrightarrow> paneOk (onCard i f T)"
  by (subst pane_cong [of "onCard i f T" T]) (simp_all add: onCard_def if_distrib comp_def)

lemma pane_reject: "paneOk T \<Longrightarrow> paneOk (executeSwipeRejectWithUndo i n T)"
  by (subst pane_cong [of _ T]) (simp_all add: executeSwipeRejectWithUndo_def clearUndoTimer_def Let_def
      split: option.splits)

lemma pane_undo: "paneOk T \<Longrightarrow> paneOk (undoReject X T)"
proof -
  assume "paneOk T"
  then have "paneOk ((clearUndoTimer (T\<lparr>tbRejects := rs\<rparr>))\<lparr>tbUndo := None, tbButton := None\<rparr>)" for rs
    by (subst pane_cong [of _ T]) (simp_all add: clearUndoTimer_def split: option.split)
  with \<open>paneOk T\<close> show ?thesis
    by (simp add: undoReject_def Let_def pane_refresh split: option.split)
qed

lemma pane_swipe: "paneOk T \<Longrightarrow> paneOk (swipeCard i e T)"
  by (auto simp: swipeCard_def executeSwipeAccept_def Let_def pane_card shown_update pane_updates pane_reject
      split: option.split cardBody.split prod.split verdict.split)

lemma pane_do: "paneOk T \<Longrightarrow> paneOk (tabDo X e T)"
proof (cases e)
  case (RejectTimer k)
  assume "paneOk T"
  moreover have "paneOk (T\<lparr>tbTimers := t, tbUndo := u, tbButton := b\<rparr>) = paneOk T"
    "paneOk (T\<lparr>tbTimers := t, tbUndo := u, tbButton := b, tbSent := s\<rparr>) = paneOk T" for t u b s
    by (simp_all add: paneOk_def)
  ultimately show ?thesis using RejectTimer by (simp add: fireReject_def Let_def pane_answer)
next
  case OtherToast
  assume "paneOk T"
  then show ?thesis using OtherToast by (simp add: otherToast_def paneOk_def)
qed (auto simp: pane_refresh pane_swipe pane_undo pane_updates toggleExpanded_def clickOption_def
    fireAccept_def pane_answer pane_card shown_update split: option.split cardBody.split prod.split)

lemma pane_run: "paneOk T \<Longrightarrow> paneOk (runTab es T)"
  by (induction es T rule: runTab.induct) (auto intro: pane_do simp del: tabDo.simps)

text \<open>
  C14: Skipping a drawing never leaves a stale queue: after any run, drawing the pane (which keeps
  the cards when their signature has not changed) shows exactly the sessions, the marked session
  and the numbers, labels and marks of the options that drawing from scratch would show.
\<close>

theorem pane_never_stale:
  "map shownCard (tbCards (renderApprovalPane E (runTab es (freshTab S))))
   = drawnNow (tbStore (runTab es (freshTab S)))"
  by (rule render_shows, rule pane_run) (simp add: paneOk_def freshTab_def)

section \<open>Groups\<close>

definition sharing :: "(int \<Rightarrow> jstr option) \<Rightarrow> jstr \<Rightarrow> int list \<Rightarrow> int list" where
  "sharing sig g ids = filter (\<lambda>i. sig i = Some g) ids"

lemma addToGroup_map:
  "map_of (addToGroup g i gs) h = (if h = g then Some ((case map_of gs g of None \<Rightarrow> [] | Some xs \<Rightarrow> xs) @ [i])
     else map_of gs h)"
  by (induction g i gs rule: addToGroup.induct) auto

lemma groups_map:
  "g \<noteq> [] \<Longrightarrow> map_of (signatureGroups sig ids gs) g =
     (if sharing sig g ids = [] then map_of gs g
      else Some ((case map_of gs g of None \<Rightarrow> [] | Some xs \<Rightarrow> xs) @ sharing sig g ids))"
  by (induction ids arbitrary: gs) (auto simp: sharing_def addToGroup_map split: option.split)

lemma signature_nonempty: "cardSignature E S i = Some g \<Longrightarrow> g \<noteq> []"
  by (auto simp: cardSignature_def batchSignature_def split: option.splits)

text \<open>
  The controls of a group stand on the first of at least two pending sessions with the same
  signature, and count them all.
\<close>

lemma batch_controls:
  "batchControls E S ids i =
     (case cardSignature E S i of
        None \<Rightarrow> None
      | Some g \<Rightarrow>
          (let same = sharing (cardSignature E S) g ids in
           if 1 < length same \<and> hd same = i
           then Some (length same, map_option smRisk (teSummary E i) = Some (js ''low'')) else None))"
  using signature_nonempty [of E S i]
  by (auto simp: batchControls_def groups_map Let_def split: option.split)

text \<open>Sessions of one group ask for the same command of the same risk in the same directory.\<close>

lemma four_parts:
  fixes p c r d p' c' r' d' :: jstr
  assumes "p @ 0 # c @ 0 # r @ 0 # d = p' @ 0 # c' @ 0 # r' @ 0 # d'"
    "list_all (\<lambda>x. 0 \<notin> set x) [p, c, r, p', c', r']"
  shows "c = c' \<and> r = r' \<and> d = d'"
proof -
  have n: "0 \<notin> set p" "0 \<notin> set c" "0 \<notin> set r" "0 \<notin> set p'" "0 \<notin> set c'" "0 \<notin> set r'"
    using assms(2) by simp_all
  have "c @ 0 # r @ 0 # d = c' @ 0 # r' @ 0 # d'" using cut_at [OF n(1,4) assms(1)] by (rule conjunct2)
  from cut_at [OF n(2,5) this] have c: "c = c'" and rest: "r @ 0 # d = r' @ 0 # d'" by (rule conjunct1, rule conjunct2)
  from cut_at [OF n(3,6) rest] c show ?thesis by simp
qed

lemma same_group_same_command:
  assumes "batchSignature E i = Some g" "batchSignature E j = Some g"
    "teSummary E i = Some a" "teSummary E j = Some b" "teSession E i = Some s" "teSession E j = Some t"
    "list_all (\<lambda>x. 0 \<notin> set x) [toLowerCase (trim (orText (s ''provider''))), trim (smCommand a), riskText a,
       toLowerCase (trim (orText (t ''provider''))), trim (smCommand b), riskText b]"
  shows "trim (smCommand a) = trim (smCommand b) \<and> riskText a = riskText b
    \<and> trim (orText (s ''cwd'')) = trim (orText (t ''cwd''))"
proof (rule four_parts [OF _ assms(7)])
  have "batchSignature E i = batchSignature E j" using assms(1,2) by simp
  then show "toLowerCase (trim (orText (s ''provider''))) @ 0 # trim (smCommand a) @ 0 # riskText a @ 0 # trim (orText (s ''cwd''))
    = toLowerCase (trim (orText (t ''provider''))) @ 0 # trim (smCommand b) @ 0 # riskText b @ 0 # trim (orText (t ''cwd''))"
    using assms(3-6) by (simp only: batchSignature_def option.case prod.case option.inject append_Cons append_Nil)
qed

section \<open>Risky questions\<close>

text \<open>
  Outside the dialog mode a risky answer has to be confirmed by holding its button, which the cards
  do not offer: a swipe that accepts such a question sends nothing.
\<close>

lemma risky_swipe_sends_nothing:
  assumes "isHighRiskApprovalSelection i n (tbStore T)" "\<not> tcDialog X" "tbAccepts T = [(i, n)]"
  shows "fireAccept X 0 T = T\<lparr>tbAccepts := []\<rparr>"
  using assms by (simp add: fireAccept_def answerFrom_def onTabStore_def sendChoice_def)

end
