(* ===== verification/ApprovalSheet.thy ===== *)
theory ApprovalSheet
  imports ApprovalTab
begin

text \<open>
  The approvals on a telephone: the sheet that opens over the terminal
  (\<open>src/web/src/app/mobile-approval-sheet.ts\<close>), with its memory of questions that were put aside,
  and the choice of the two buttons of the approval-only page
  (\<open>src/web/src/app/mobile-approval-only.ts\<close>).
\<close>

section \<open>State\<close>

text \<open>
  What the sheet shows: the question of a batch with its index and whether the main button is
  enabled, a multiple selection with its button, or the options of one question.
\<close>

datatype drawn =
    NothingDrawn
  | DrawnBatch int "approvalSection list" nat bool
  | DrawnMulti int "approvalOption list" bool
  | DrawnSingle int "approvalOption list"
  | DrawnFallback int

text \<open>
  \<open>shBuilt\<close>: the elements of the sheet exist; \<open>shShown\<close>: they are not hidden; \<open>shDismissed\<close> is
  \<open>manuallyDismissedApprovalSigs\<close>, \<open>shTouch\<close> is \<open>touchStartY\<close>.
\<close>

record sheet =
  shStore :: store
  shBuilt :: bool
  shShown :: bool
  shOpen :: "int option"
  shSuppressed :: bool
  shTouch :: "int option"
  shDismissed :: "int \<Rightarrow> jstr option"
  shToasts :: nat
  shDrawn :: drawn

text \<open>
  What an event meets: the width of the window, whether the input line has the focus and its text,
  \<open>activateSession\<close>, the time, and the mode of the confirmation of risky answers.
\<close>

record sheetCtx =
  scMobile :: bool
  scFocus :: bool
  scDraft :: jstr
  scActivate :: "int \<Rightarrow> appState \<Rightarrow> appState"
  scNow :: int
  scDialog :: bool

definition freshSheet :: "store \<Rightarrow> sheet" where
  "freshSheet S =
     \<lparr>shStore = S, shBuilt = False, shShown = False, shOpen = None, shSuppressed = False,
      shTouch = None, shDismissed = (\<lambda>_. None), shToasts = 0, shDrawn = NothingDrawn\<rparr>"

section \<open>Questions put aside\<close>

definition isApprovalPending :: "store \<Rightarrow> int option \<Rightarrow> bool" where
  "isApprovalPending S x =
     (case x of None \<Rightarrow> False | Some i \<Rightarrow> visibleOf S i \<or> stMultiQ S i)"

definition noOptionsSig :: "int \<Rightarrow> jstr" where
  "noOptionsSig i = js ''session:'' @ num_str i"

definition approvalDismissSig :: "store \<Rightarrow> int \<Rightarrow> jstr" where
  "approvalDismissSig S i =
     (case stRaw S i of Some c \<Rightarrow> approvalSig (coBody c) | None \<Rightarrow> noOptionsSig i)"

text \<open>A question put aside before its options were known is recognised by the first options that come.\<close>

definition isApprovalManuallyDismissed :: "int \<Rightarrow> sheet \<Rightarrow> bool \<times> sheet" where
  "isApprovalManuallyDismissed i H =
     (let d = shDismissed H i; cur = approvalDismissSig (shStore H) i in
      if d = Some (noOptionsSig i) \<and> d \<noteq> Some cur
      then (True, H\<lparr>shDismissed := (shDismissed H)(i := Some cur)\<rparr>)
      else (d = Some cur, H))"

definition clearDismissedResolvedApprovals :: "sheet \<Rightarrow> sheet" where
  "clearDismissedResolvedApprovals H =
     H\<lparr>shDismissed := (\<lambda>i. if isApprovalPending (shStore H) (Some i) then shDismissed H i else None)\<rparr>"

definition latchManualDismissal :: "int option \<Rightarrow> sheet \<Rightarrow> sheet" where
  "latchManualDismissal x H =
     (case x of
        None \<Rightarrow> H
      | Some i \<Rightarrow>
          if \<not> isApprovalPending (shStore H) (Some i) then H
          else H\<lparr>shDismissed := (shDismissed H)(i := Some (approvalDismissSig (shStore H) i))\<rparr>)"

definition hasComposerDraft :: "sheetCtx \<Rightarrow> bool" where
  "hasComposerDraft X \<longleftrightarrow> trim (scDraft X) \<noteq> []"

definition isComposerBusy :: "sheetCtx \<Rightarrow> bool" where
  "isComposerBusy X \<longleftrightarrow> scFocus X \<or> hasComposerDraft X"

definition mobileApprovalActiveBadgeCount :: "sheetCtx \<Rightarrow> sheet \<Rightarrow> nat" where
  "mobileApprovalActiveBadgeCount X H =
     (if \<not> scMobile X then 0
      else if shOpen H \<noteq> None then 0
      else if isApprovalPending (shStore H) (activeOf (shStore H)) then 1 else 0)"

section \<open>Opening and closing\<close>

definition ensureSheet :: "sheetCtx \<Rightarrow> sheet \<Rightarrow> sheet" where
  "ensureSheet X H =
     (if \<not> scMobile X then H else if shBuilt H then H else H\<lparr>shBuilt := True, shShown := False\<rparr>)"

definition hideExistingSheet :: "sheet \<Rightarrow> sheet" where
  "hideExistingSheet H = H\<lparr>shShown := False, shOpen := None, shTouch := None\<rparr>"

definition setSheetOpen :: "sheetCtx \<Rightarrow> bool \<Rightarrow> sheet \<Rightarrow> sheet" where
  "setSheetOpen X b H =
     (if \<not> scMobile X then (if \<not> b then hideExistingSheet H else H)
      else
        (let H1 = (if b then ensureSheet X H else H) in
         if \<not> shBuilt H1 then H1
         else H1\<lparr>shShown := b, shOpen := (if b then shOpen H1 else None)\<rparr>))"

definition closeApprovalSheet :: "sheetCtx \<Rightarrow> bool \<Rightarrow> sheet \<Rightarrow> sheet" where
  "closeApprovalSheet X manual H =
     setSheetOpen X False (if manual then latchManualDismissal (shOpen H) H else H)"

section \<open>Drawing the sheet\<close>

definition ensureBatchState :: "int \<Rightarrow> approvalSection list \<Rightarrow> store \<Rightarrow> store" where
  "ensureBatchState i ss S =
     (let n = length ss;
          S1 = (case stSel S i of
                  Some sel \<Rightarrow> if length sel = n then S else S\<lparr>stSel := (stSel S)(i := Some (replicate n None))\<rparr>
                | None \<Rightarrow> S\<lparr>stSel := (stSel S)(i := Some (replicate n None))\<rparr>);
          S2 = (case stFree S1 i of
                  Some fr \<Rightarrow> if length fr = n then S1 else S1\<lparr>stFree := (stFree S1)(i := Some (replicate n []))\<rparr>
                | None \<Rightarrow> S1\<lparr>stFree := (stFree S1)(i := Some (replicate n []))\<rparr>)
      in case stActiveQ S2 i of
           Some k \<Rightarrow> if k < 0 \<or> int n \<le> k then S2\<lparr>stActiveQ := (stActiveQ S2)(i := Some 0)\<rparr> else S2
         | None \<Rightarrow> S2\<lparr>stActiveQ := (stActiveQ S2)(i := Some 0)\<rparr>)"

definition isBatchAnswered :: "int \<Rightarrow> nat \<Rightarrow> store \<Rightarrow> bool" where
  "isBatchAnswered i k S =
     (case stSel S i of
        None \<Rightarrow> False
      | Some sel \<Rightarrow>
          (case (if k < length sel then sel ! k else None) of
             None \<Rightarrow> False
           | Some n \<Rightarrow> if n \<noteq> BATCH_FREE then True else trim (freeAt i k S) \<noteq> []))"

text \<open>What is drawn changes the selections only where they are missing.\<close>

definition renderStore :: "int \<Rightarrow> store \<Rightarrow> store" where
  "renderStore i S =
     (case stRaw S i of
        None \<Rightarrow> S
      | Some c \<Rightarrow>
          (case coBody c of
             Batch ss \<Rightarrow> if ss = [] then S else ensureBatchState i ss S
           | Single os \<Rightarrow>
               if isMultiSelectOptions (Single os)
               then (if stMulti S i = None then S\<lparr>stMulti := (stMulti S)(i := Some [])\<rparr> else S)
               else S))"

definition activeQuestion :: "int \<Rightarrow> store \<Rightarrow> nat" where
  "activeQuestion i S = (case stActiveQ S i of None \<Rightarrow> 0 | Some k \<Rightarrow> nat k)"

definition primaryEnabled :: "int \<Rightarrow> approvalSection list \<Rightarrow> store \<Rightarrow> bool" where
  "primaryEnabled i ss S =
     (let k = activeQuestion i S in
      if k < length ss - 1 then isBatchAnswered i k S
      else list_all (\<lambda>j. isBatchAnswered i j S) [0..<length ss])"

definition drawnOf :: "int \<Rightarrow> store \<Rightarrow> drawn" where
  "drawnOf i S =
     (case stRaw S i of
        None \<Rightarrow> DrawnFallback i
      | Some c \<Rightarrow>
          (case coBody c of
             Batch ss \<Rightarrow> if ss = [] then DrawnFallback i
               else DrawnBatch i ss (activeQuestion i S) (primaryEnabled i ss S)
           | Single os \<Rightarrow>
               if isMultiSelectOptions (Single os) then DrawnMulti i os (selectedOf i S \<noteq> [])
               else if os = [] then DrawnFallback i else DrawnSingle i os))"

definition renderSheet :: "sheetCtx \<Rightarrow> sheet \<Rightarrow> sheet" where
  "renderSheet X H =
     (if \<not> scMobile X then H
      else
        (let H1 = ensureSheet X H in
         case shOpen H1 of
           None \<Rightarrow> H1
         | Some i \<Rightarrow>
             (let S = renderStore i (shStore H1) in H1\<lparr>shStore := S, shDrawn := drawnOf i S\<rparr>)))"

definition openApprovalSheet :: "sheetCtx \<Rightarrow> int option \<Rightarrow> sheet \<Rightarrow> sheet" where
  "openApprovalSheet X x H =
     (if \<not> scMobile X then H
      else case x of
        None \<Rightarrow> H
      | Some i \<Rightarrow>
          if \<not> isApprovalPending (shStore H) (Some i) then H
          else setSheetOpen X True (renderSheet X
            (H\<lparr>shDismissed := (shDismissed H)(i := None), shOpen := Some i, shSuppressed := False\<rparr>)))"

section \<open>Opening by itself\<close>

text \<open>The checks that \<open>maybeAutoOpen\<close> and the two retries share, and what they do then.\<close>

definition activePending :: "sheet \<Rightarrow> int option" where
  "activePending H =
     (if isApprovalPending (shStore H) (activeOf (shStore H)) then activeOf (shStore H) else None)"

definition maybeAutoOpen :: "sheetCtx \<Rightarrow> sheet \<Rightarrow> sheet" where
  "maybeAutoOpen X H0 =
     (if \<not> scMobile X then hideExistingSheet H0
      else
        (let H = clearDismissedResolvedApprovals H0 in
         if shOpen H \<noteq> None \<and> \<not> isApprovalPending (shStore H) (shOpen H)
         then (closeApprovalSheet X False H)\<lparr>shToasts := Suc (shToasts H)\<rparr>
         else if shOpen H \<noteq> None then renderSheet X H
         else
           (case activePending H of
              None \<Rightarrow> H\<lparr>shSuppressed := False\<rparr>
            | Some a \<Rightarrow>
                (let (dismissed, H1) = isApprovalManuallyDismissed a H in
                 if dismissed then H1\<lparr>shSuppressed := False\<rparr>
                 else if isComposerBusy X then H1\<lparr>shSuppressed := True\<rparr>
                 else openApprovalSheet X (Some a) H1))))"

definition retrySuppressedOpen :: "sheetCtx \<Rightarrow> sheet \<Rightarrow> sheet" where
  "retrySuppressedOpen X H =
     (if \<not> scMobile X then H
      else if \<not> shSuppressed H then H
      else
        (case activePending H of
           None \<Rightarrow> H\<lparr>shSuppressed := False\<rparr>
         | Some a \<Rightarrow>
             (let (dismissed, H1) = isApprovalManuallyDismissed a H in
              if dismissed then H1\<lparr>shSuppressed := False\<rparr>
              else if \<not> isComposerBusy X then openApprovalSheet X (Some a) H1 else H1)))"

definition openAfterComposerIdle :: "sheetCtx \<Rightarrow> sheet \<Rightarrow> sheet" where
  "openAfterComposerIdle X H =
     (if \<not> scMobile X then H
      else if \<not> shSuppressed H then H
      else
        (case activePending H of
           None \<Rightarrow> H
         | Some a \<Rightarrow>
             (let (dismissed, H1) = isApprovalManuallyDismissed a H in
              if dismissed then H1
              else if \<not> hasComposerDraft X then openApprovalSheet X (Some a) H1 else H1)))"

section \<open>The buttons\<close>

text \<open>
  A change of the caches; \<open>maybeAutoOpen\<close> listens to \<open>approval-queue-updated\<close> and runs here once,
  after the change.
\<close>

definition onSheetStore :: "sheetCtx \<Rightarrow> (store \<Rightarrow> store) \<Rightarrow> sheet \<Rightarrow> sheet" where
  "onSheetStore X f H =
     (let S = shStore H; H1 = H\<lparr>shStore := f S\<rparr> in
      if List.member (drop (length (stLog S)) (stLog (f S))) EvQueue then maybeAutoOpen X H1 else H1)"

definition inSheet :: "(store \<Rightarrow> store) \<Rightarrow> sheet \<Rightarrow> sheet" where
  "inSheet f H = H\<lparr>shStore := f (shStore H)\<rparr>"

definition putSelection :: "int \<Rightarrow> nat \<Rightarrow> int \<Rightarrow> store \<Rightarrow> store" where
  "putSelection i k n S =
     (case stSel S i of
        None \<Rightarrow> S
      | Some sel \<Rightarrow> S\<lparr>stSel := (stSel S)(i := Some ((sel @ replicate (Suc k - length sel) None)[k := Some n]))\<rparr>)"

definition goToQuestion :: "int \<Rightarrow> int \<Rightarrow> store \<Rightarrow> store" where
  "goToQuestion i k S = S\<lparr>stActiveQ := (stActiveQ S)(i := Some k)\<rparr>"

definition toggleNumber :: "int \<Rightarrow> int \<Rightarrow> store \<Rightarrow> store" where
  "toggleNumber i n S =
     S\<lparr>stMulti := (stMulti S)(i := Some
        (if List.member (selectedOf i S) n then filter (\<lambda>k. k \<noteq> n) (selectedOf i S)
         else selectedOf i S @ [n]))\<rparr>"

definition chooseSingle :: "sheetCtx \<Rightarrow> int \<Rightarrow> approvalOption list \<Rightarrow> nat \<Rightarrow> sheet \<Rightarrow> sheet" where
  "chooseSingle X i os k H =
     (if length os \<le> k then H
      else closeApprovalSheet X False (onSheetStore X
        (sendChoice (scActivate X) (scNow X) (scDialog X) i (oNum (os ! k)) False) H))"

definition chooseInBatch :: "sheetCtx \<Rightarrow> int \<Rightarrow> approvalSection list \<Rightarrow> nat \<Rightarrow> nat \<Rightarrow> sheet \<Rightarrow> sheet" where
  "chooseInBatch X i ss q k H =
     (if length ss \<le> q \<or> length (sOptions (ss ! q)) \<le> k then H
      else if stSel (shStore H) i = None then H
      else
        (let H1 = inSheet (putSelection i q (oNum (sOptions (ss ! q) ! k))) H;
             H2 = (if q < length ss - 1 then inSheet (goToQuestion i (int q + 1)) H1 else H1)
         in renderSheet X H2))"

definition chooseInMulti :: "sheetCtx \<Rightarrow> int \<Rightarrow> approvalOption list \<Rightarrow> nat \<Rightarrow> sheet \<Rightarrow> sheet" where
  "chooseInMulti X i os k H =
     (if length os \<le> k then H else renderSheet X (inSheet (toggleNumber i (oNum (os ! k))) H))"

definition chooseOption :: "sheetCtx \<Rightarrow> nat \<Rightarrow> sheet \<Rightarrow> sheet" where
  "chooseOption X k H =
     (case shDrawn H of
        DrawnSingle i os \<Rightarrow> chooseSingle X i os k H
      | DrawnBatch i ss q en \<Rightarrow> chooseInBatch X i ss q k H
      | DrawnMulti i os en \<Rightarrow> chooseInMulti X i os k H
      | _ \<Rightarrow> H)"

definition chooseFree :: "sheetCtx \<Rightarrow> sheet \<Rightarrow> sheet" where
  "chooseFree X H =
     (case shDrawn H of
        DrawnBatch i ss q en \<Rightarrow>
          if stSel (shStore H) i = None then H
          else renderSheet X (inSheet (putSelection i q BATCH_FREE) H)
      | _ \<Rightarrow> H)"

text \<open>The \<open>input\<close> listeners of the two text fields.\<close>

definition typeInBatch :: "int \<Rightarrow> nat \<Rightarrow> jstr \<Rightarrow> store \<Rightarrow> store" where
  "typeInBatch i q t S =
     (case stFree S i of
        None \<Rightarrow> S
      | Some fr \<Rightarrow> S\<lparr>stFree := (stFree S)(i := Some ((fr @ replicate (Suc q - length fr) [])[q := t]))\<rparr>)"

definition typeAnswer :: "jstr \<Rightarrow> sheet \<Rightarrow> sheet" where
  "typeAnswer t H =
     (case shDrawn H of
        DrawnBatch i ss q en \<Rightarrow> inSheet (typeInBatch i q t) H
      | DrawnSingle i os \<Rightarrow> inSheet (setSingleFreeText i t) H
      | _ \<Rightarrow> H)"

definition sendTyped :: "sheetCtx \<Rightarrow> sheet \<Rightarrow> sheet" where
  "sendTyped X H =
     (case shDrawn H of
        DrawnSingle i os \<Rightarrow>
          closeApprovalSheet X False (onSheetStore X (sendSingleFreeText (scActivate X) (scNow X) i) H)
      | _ \<Rightarrow> H)"

definition goBack :: "sheetCtx \<Rightarrow> sheet \<Rightarrow> sheet" where
  "goBack X H =
     (case shDrawn H of
        DrawnBatch i ss q en \<Rightarrow>
          if q = 0 then H else renderSheet X (inSheet (goToQuestion i (max 0 (int q - 1))) H)
      | _ \<Rightarrow> H)"

definition pressBatch :: "sheetCtx \<Rightarrow> int \<Rightarrow> approvalSection list \<Rightarrow> nat \<Rightarrow> sheet \<Rightarrow> sheet" where
  "pressBatch X i ss q H =
     (if q < length ss - 1 then renderSheet X (inSheet (goToQuestion i (int q + 1)) H)
      else closeApprovalSheet X False (onSheetStore X (sendBatchChoices (scActivate X) (scNow X) i) H))"

definition submitMulti :: "sheetCtx \<Rightarrow> int \<Rightarrow> sheet \<Rightarrow> sheet" where
  "submitMulti X i H =
     closeApprovalSheet X False (onSheetStore X (sendMultiSelectChoices (scActivate X) (scNow X) i) H)"

text \<open>A disabled button does nothing.\<close>

definition pressPrimary :: "sheetCtx \<Rightarrow> sheet \<Rightarrow> sheet" where
  "pressPrimary X H =
     (case shDrawn H of
        DrawnBatch i ss q en \<Rightarrow> if en then pressBatch X i ss q H else H
      | DrawnMulti i os en \<Rightarrow> if en then submitMulti X i H else H
      | _ \<Rightarrow> H)"

definition clearMulti :: "sheetCtx \<Rightarrow> sheet \<Rightarrow> sheet" where
  "clearMulti X H =
     (case shDrawn H of
        DrawnMulti i os en \<Rightarrow> renderSheet X (inSheet (\<lambda>S. S\<lparr>stMulti := (stMulti S)(i := Some [])\<rparr>) H)
      | _ \<Rightarrow> H)"

text \<open>Pulling the sheet down by its handle.\<close>

definition touchStart :: "sheetCtx \<Rightarrow> int option \<Rightarrow> sheet \<Rightarrow> sheet" where
  "touchStart X y H = (if \<not> scMobile X then H else H\<lparr>shTouch := y\<rparr>)"

definition touchEnd :: "sheetCtx \<Rightarrow> int option \<Rightarrow> sheet \<Rightarrow> sheet" where
  "touchEnd X y H =
     (case shTouch H of
        None \<Rightarrow> H
      | Some y0 \<Rightarrow>
          (let e = (case y of None \<Rightarrow> y0 | Some y1 \<Rightarrow> y1);
               H1 = (if 56 < e - y0 then closeApprovalSheet X True H else H)
           in H1\<lparr>shTouch := None\<rparr>))"

section \<open>Runs\<close>

datatype sheetEvent =
    QueueUpdated
  | ComposerChanged
  | ComposerIdle
  | OpenFor "int option"
  | CloseByHand
  | Choose nat
  | ChooseFree
  | TypeAnswer jstr
  | SendTyped
  | GoBack
  | PressPrimary
  | ClearMulti
  | TouchStart "int option"
  | TouchEnd "int option"
  | StoreChanged store

fun sheetDo :: "sheetCtx \<Rightarrow> sheetEvent \<Rightarrow> sheet \<Rightarrow> sheet" where
  "sheetDo X QueueUpdated H = maybeAutoOpen X H"
| "sheetDo X ComposerChanged H = retrySuppressedOpen X H"
| "sheetDo X ComposerIdle H = openAfterComposerIdle X H"
| "sheetDo X (OpenFor x) H = openApprovalSheet X x H"
| "sheetDo X CloseByHand H = closeApprovalSheet X True H"
| "sheetDo X (Choose k) H = chooseOption X k H"
| "sheetDo X ChooseFree H = chooseFree X H"
| "sheetDo X (TypeAnswer t) H = typeAnswer t H"
| "sheetDo X SendTyped H = sendTyped X H"
| "sheetDo X GoBack H = goBack X H"
| "sheetDo X PressPrimary H = pressPrimary X H"
| "sheetDo X ClearMulti H = clearMulti X H"
| "sheetDo X (TouchStart y) H = touchStart X y H"
| "sheetDo X (TouchEnd y) H = touchEnd X y H"
| "sheetDo X (StoreChanged S) H = H\<lparr>shStore := S\<rparr>"

fun runSheet :: "(sheetCtx \<times> sheetEvent) list \<Rightarrow> sheet \<Rightarrow> sheet" where
  "runSheet [] H = H"
| "runSheet ((X, e) # es) H = runSheet es (sheetDo X e H)"

section \<open>When the sheet opens\<close>

definition byItself :: "sheetEvent \<Rightarrow> bool" where
  "byItself e = (case e of QueueUpdated \<Rightarrow> True | ComposerChanged \<Rightarrow> True | ComposerIdle \<Rightarrow> True | _ \<Rightarrow> False)"

lemmas opening_defs = maybeAutoOpen_def retrySuppressedOpen_def openAfterComposerIdle_def
  openApprovalSheet_def closeApprovalSheet_def setSheetOpen_def hideExistingSheet_def ensureSheet_def
  renderSheet_def isApprovalManuallyDismissed_def clearDismissedResolvedApprovals_def
  activePending_def Let_def

lemma render_asks [simp]:
  "stRaw (renderStore i S) = stRaw S" "visibleOf (renderStore i S) = visibleOf S"
  "stMultiQ (renderStore i S) = stMultiQ S" "activeOf (renderStore i S) = activeOf S"
  by (auto simp: renderStore_def ensureBatchState_def visibleOf_def activeOf_def Let_def
      split: option.split approvalBody.split)

lemma pending_render [simp]: "isApprovalPending (renderStore i S) = isApprovalPending S"
  by (rule ext) (simp add: isApprovalPending_def split: option.split)

lemma render_parts [simp]:
  "shOpen (renderSheet X H) = shOpen H" "shDismissed (renderSheet X H) = shDismissed H"
  "shSuppressed (renderSheet X H) = shSuppressed H"
  by (simp_all add: renderSheet_def ensureSheet_def Let_def split: option.split)

lemma open_opens:
  "shOpen (openApprovalSheet X (Some i) H) =
     (if scMobile X \<and> isApprovalPending (shStore H) (Some i) then Some i else shOpen H)"
  by (auto simp: openApprovalSheet_def setSheetOpen_def ensureSheet_def Let_def)

lemma dismissed_parts [simp]:
  "shOpen (snd (isApprovalManuallyDismissed i H)) = shOpen H"
  "shStore (snd (isApprovalManuallyDismissed i H)) = shStore H"
  by (simp_all add: isApprovalManuallyDismissed_def Let_def)

lemma not_dismissed:
  "\<not> fst (isApprovalManuallyDismissed i H) \<Longrightarrow>
     shDismissed H i \<noteq> Some (approvalDismissSig (shStore H) i) \<and> shDismissed H i \<noteq> Some (noOptionsSig i)"
  by (auto simp: isApprovalManuallyDismissed_def Let_def split: if_splits)

lemma active_pending: "activePending H = Some i \<Longrightarrow> activeOf (shStore H) = Some i \<and> isApprovalPending (shStore H) (Some i)"
  by (auto simp: activePending_def split: if_splits)

lemma clear_parts [simp]:
  "shOpen (clearDismissedResolvedApprovals H) = shOpen H" "shStore (clearDismissedResolvedApprovals H) = shStore H"
  "isApprovalPending (shStore H) (Some i) \<Longrightarrow> shDismissed (clearDismissedResolvedApprovals H) i = shDismissed H i"
  by (simp_all add: clearDismissedResolvedApprovals_def)

text \<open>Opening by itself, as one function of what the three listeners allow.\<close>

definition mayOpen :: "sheetCtx \<Rightarrow> sheet \<Rightarrow> int \<Rightarrow> bool" where
  "mayOpen X H i \<longleftrightarrow>
     scMobile X \<and> activeOf (shStore H) = Some i \<and> isApprovalPending (shStore H) (Some i)
     \<and> \<not> hasComposerDraft X \<and> shDismissed H i \<noteq> Some (approvalDismissSig (shStore H) i)
     \<and> shDismissed H i \<noteq> Some (noOptionsSig i)"

lemma opens_if:
  assumes "shOpen H = None" "scMobile X" "activePending H = Some a" "\<not> hasComposerDraft X"
    "\<not> fst (isApprovalManuallyDismissed a H)"
    "shOpen (openApprovalSheet X (Some a) (snd (isApprovalManuallyDismissed a H))) = Some i"
  shows "mayOpen X H i"
  using assms active_pending [OF assms(3)] not_dismissed [OF assms(5)]
  by (auto simp: open_opens mayOpen_def split: if_splits)

lemma close_none: "shOpen (closeApprovalSheet X m H) = None \<or> shOpen (closeApprovalSheet X m H) = shOpen H"
  by (auto simp: closeApprovalSheet_def setSheetOpen_def hideExistingSheet_def latchManualDismissal_def
      Let_def split: option.split)

lemma auto_opens:
  assumes "shOpen H = None" "shOpen (maybeAutoOpen X H) = Some i"
  shows "mayOpen X H i"
proof (cases "scMobile X \<and> \<not> isComposerBusy X")
  case True
  let ?H = "clearDismissedResolvedApprovals H"
  show ?thesis
  proof (cases "activePending ?H")
    case (Some a)
    then have nd: "\<not> fst (isApprovalManuallyDismissed a ?H)"
      using assms True by (auto simp: maybeAutoOpen_def split_def Let_def)
    then have "shOpen (openApprovalSheet X (Some a) (snd (isApprovalManuallyDismissed a ?H))) = Some i"
      using assms True Some by (simp add: maybeAutoOpen_def split_def Let_def)
    then have "mayOpen X ?H i" using assms(1) True Some nd by (intro opens_if) (auto simp: isComposerBusy_def)
    then show ?thesis by (auto simp: mayOpen_def)
  qed (use assms True in \<open>simp add: maybeAutoOpen_def Let_def\<close>)
qed (use assms in \<open>auto simp: maybeAutoOpen_def hideExistingSheet_def split_def Let_def split: option.splits if_splits\<close>)

lemma retry_opens:
  assumes "shOpen H = None" "shOpen (retrySuppressedOpen X H) = Some i"
  shows "mayOpen X H i"
proof (cases "activePending H")
  case (Some a)
  have c: "scMobile X" "shSuppressed H" using assms by (auto simp: retrySuppressedOpen_def split: if_splits)
  have "\<not> fst (isApprovalManuallyDismissed a H)" "\<not> isComposerBusy X"
    using assms c Some by (auto simp: retrySuppressedOpen_def split_def Let_def split: if_splits)
  then show ?thesis using assms c Some
    by (intro opens_if) (auto simp: retrySuppressedOpen_def isComposerBusy_def split_def Let_def)
qed (use assms in \<open>auto simp: retrySuppressedOpen_def split: if_splits\<close>)

lemma idle_opens:
  assumes "shOpen H = None" "shOpen (openAfterComposerIdle X H) = Some i"
  shows "mayOpen X H i"
proof (cases "activePending H")
  case (Some a)
  have c: "scMobile X" "shSuppressed H" using assms by (auto simp: openAfterComposerIdle_def split: if_splits)
  have "\<not> fst (isApprovalManuallyDismissed a H)" "\<not> hasComposerDraft X"
    using assms c Some by (auto simp: openAfterComposerIdle_def split_def Let_def split: if_splits)
  then show ?thesis using assms c Some
    by (intro opens_if) (auto simp: openAfterComposerIdle_def split_def Let_def)
qed (use assms in \<open>auto simp: openAfterComposerIdle_def split: if_splits\<close>)

text \<open>
  The sheet never gets in the way: when it opens by itself, the window is narrow, the session
  is the active one and waits for an answer, nothing is written in the input line, and the question
  is not the one that was put aside for that session.
\<close>

theorem sheet_opens_only_when_due:
  assumes "byItself e" "shOpen H = None" "shOpen (sheetDo X e H) = Some i"
  shows "scMobile X \<and> activeOf (shStore H) = Some i \<and> isApprovalPending (shStore H) (Some i)
    \<and> trim (scDraft X) = [] \<and> shDismissed H i \<noteq> Some (approvalDismissSig (shStore H) i)
    \<and> shDismissed H i \<noteq> Some (noOptionsSig i)"
proof -
  have "mayOpen X H i"
    using assms auto_opens retry_opens idle_opens by (cases e) (simp_all add: byItself_def)
  then show ?thesis by (simp add: mayOpen_def hasComposerDraft_def)
qed

definition sameQuestion :: "int \<Rightarrow> jstr \<Rightarrow> sheetEvent \<Rightarrow> bool" where
  "sameQuestion i sig e =
     (case e of
        StoreChanged S \<Rightarrow> isApprovalPending S (Some i) \<and> approvalDismissSig S i = sig
      | _ \<Rightarrow> byItself e)"

definition putAside :: "int \<Rightarrow> jstr \<Rightarrow> sheet \<Rightarrow> bool" where
  "putAside i sig H \<longleftrightarrow>
     shOpen H \<noteq> Some i \<and> shDismissed H i = Some sig \<and> isApprovalPending (shStore H) (Some i)
     \<and> approvalDismissSig (shStore H) i = sig"

lemma sig_render [simp]: "approvalDismissSig (renderStore j S) i = approvalDismissSig S i"
  by (simp add: approvalDismissSig_def)

lemma shown_ask:
  "isApprovalPending (shStore (renderSheet X H)) x = isApprovalPending (shStore H) x"
  "approvalDismissSig (shStore (renderSheet X H)) i = approvalDismissSig (shStore H) i"
  by (simp_all add: renderSheet_def ensureSheet_def Let_def split: option.split)

lemma aside_cong:
  "putAside i sig H \<Longrightarrow> shOpen G = shOpen H \<or> shOpen G \<noteq> Some i \<Longrightarrow> shDismissed G i = shDismissed H i \<Longrightarrow>
     isApprovalPending (shStore G) (Some i) = isApprovalPending (shStore H) (Some i) \<Longrightarrow>
     approvalDismissSig (shStore G) i = approvalDismissSig (shStore H) i \<Longrightarrow> putAside i sig G"
  by (auto simp: putAside_def)

lemma aside_open: "putAside i sig H \<Longrightarrow> a \<noteq> i \<Longrightarrow> putAside i sig (openApprovalSheet X (Some a) H)"
  by (erule aside_cong) (auto simp: openApprovalSheet_def setSheetOpen_def ensureSheet_def shown_ask Let_def)

lemma aside_hide: "putAside i sig H \<Longrightarrow> putAside i sig (hideExistingSheet H)"
  by (erule aside_cong) (auto simp: hideExistingSheet_def)

lemma aside_close: "putAside i sig H \<Longrightarrow> putAside i sig (closeApprovalSheet X False H)"
  by (erule aside_cong) (auto simp: closeApprovalSheet_def setSheetOpen_def hideExistingSheet_def Let_def)

lemma aside_render: "putAside i sig H \<Longrightarrow> putAside i sig (renderSheet X H)"
  by (erule aside_cong) (auto simp: shown_ask)

lemma aside_dismissed: "putAside i sig H \<Longrightarrow> putAside i sig (snd (isApprovalManuallyDismissed a H))"
  by (auto simp: isApprovalManuallyDismissed_def putAside_def Let_def)

lemma aside_is_dismissed: "putAside i sig H \<Longrightarrow> fst (isApprovalManuallyDismissed i H)"
  by (auto simp: isApprovalManuallyDismissed_def putAside_def Let_def)

lemma aside_clear: "putAside i sig H \<Longrightarrow> putAside i sig (clearDismissedResolvedApprovals H)"
  by (auto simp: putAside_def)

lemma aside_flags:
  "putAside i sig H \<Longrightarrow> putAside i sig (H\<lparr>shSuppressed := b\<rparr>)"
  "putAside i sig H \<Longrightarrow> putAside i sig (H\<lparr>shToasts := n\<rparr>)"
  by (simp_all add: putAside_def)

lemma aside_offer:
  assumes "putAside i sig H" "\<not> fst (isApprovalManuallyDismissed a H)"
  shows "putAside i sig (openApprovalSheet X (Some a) (snd (isApprovalManuallyDismissed a H)))"
  using assms aside_is_dismissed [OF assms(1)] by (cases "a = i") (auto intro: aside_open aside_dismissed)

lemma aside_do:
  assumes "putAside i sig H" "sameQuestion i sig e"
  shows "putAside i sig (sheetDo X e H)"
proof -
  note rules = aside_offer aside_dismissed aside_clear aside_flags aside_hide aside_close aside_render
  have "putAside i sig (maybeAutoOpen X H)"
    using assms(1) by (auto simp: maybeAutoOpen_def split_def Let_def intro!: rules split: option.split)
  moreover have "putAside i sig (retrySuppressedOpen X H)" "putAside i sig (openAfterComposerIdle X H)"
    using assms(1) by (auto simp: retrySuppressedOpen_def openAfterComposerIdle_def split_def Let_def
        intro!: rules split: option.split)
  ultimately show ?thesis
    using assms by (cases e) (simp_all add: sameQuestion_def byItself_def putAside_def)
qed

lemma aside_run:
  "putAside i sig H \<Longrightarrow> list_all (\<lambda>(X, e). sameQuestion i sig e) es \<Longrightarrow> putAside i sig (runSheet es H)"
  by (induction es H rule: runSheet.induct) (auto intro: aside_do simp del: sheetDo.simps)

text \<open>
  C15: A question that was put aside stays aside: after the sheet of a waiting session was closed by
  hand, neither the listeners nor changes of the caches open it again as long as the session waits
  for an answer to the same question.
\<close>

theorem put_aside_stays_aside:
  assumes "scMobile X" "shBuilt H" "shOpen H = Some i" "isApprovalPending (shStore H) (Some i)"
    "list_all (\<lambda>(Y, e). sameQuestion i (approvalDismissSig (shStore H) i) e) es"
  shows "shOpen (runSheet es (closeApprovalSheet X True H)) \<noteq> Some i"
proof -
  have "putAside i (approvalDismissSig (shStore H) i) (closeApprovalSheet X True H)"
    using assms(1-4) by (simp add: putAside_def closeApprovalSheet_def latchManualDismissal_def setSheetOpen_def Let_def)
  from aside_run [OF this assms(5)] show ?thesis by (simp add: putAside_def)
qed

text \<open>Once the queue was updated, an open sheet is one of a session that still waits.\<close>

lemma open_asks:
  "isApprovalPending (shStore (openApprovalSheet X a H)) x = isApprovalPending (shStore H) x"
  by (simp add: openApprovalSheet_def setSheetOpen_def ensureSheet_def shown_ask Let_def split: option.split)

lemma close_closes:
  "scMobile X \<Longrightarrow> shBuilt H \<Longrightarrow> shOpen (closeApprovalSheet X False H) = None"
  by (simp add: closeApprovalSheet_def setSheetOpen_def Let_def)

lemma open_sheet_is_pending:
  assumes "scMobile X" "shBuilt H" "shOpen (maybeAutoOpen X H) = Some i"
  shows "isApprovalPending (shStore (maybeAutoOpen X H)) (Some i)"
proof -
  have b: "shBuilt (clearDismissedResolvedApprovals H)"
    using assms(2) by (simp add: clearDismissedResolvedApprovals_def)
  show ?thesis
  proof (cases "shOpen H")
    case (Some j)
    then show ?thesis
      using assms(1,3) close_closes [OF assms(1) b]
      by (auto simp: maybeAutoOpen_def shown_ask Let_def split: if_splits)
  next
    case None
    then show ?thesis
      using assms(1,3) by (auto simp: maybeAutoOpen_def open_opens open_asks split_def Let_def
          split: option.splits if_splits)
  qed
qed

definition waitingOne :: store where
  "waitingOne = askTwo\<lparr>stApp := (stApp askTwo)\<lparr>asActive := Some 1\<rparr>\<rparr>"

definition phone :: sheetCtx where
  "phone = \<lparr>scMobile = True, scFocus = False, scDraft = js ''  '', scActivate = \<lambda>_ A. A, scNow = 0, scDialog = False\<rparr>"

theorem sheet_opens_only_when_due_witness:
  "shOpen (sheetDo phone QueueUpdated (freshSheet waitingOne)) = Some 1 \<and> activeOf (shStore (freshSheet waitingOne)) = Some 1"
proof -
  have "shOpen (sheetDo phone QueueUpdated (freshSheet waitingOne)) = Some 1" by code_simp
  then show ?thesis
    using sheet_opens_only_when_due [of QueueUpdated "freshSheet waitingOne" phone 1]
    by (simp add: byItself_def freshSheet_def)
qed

theorem put_aside_stays_aside_witness:
  "shOpen (runSheet [(phone, QueueUpdated), (phone, ComposerChanged)]
     (closeApprovalSheet phone True (openApprovalSheet phone (Some 1) (freshSheet waitingOne)))) \<noteq> Some 1"
proof (rule put_aside_stays_aside)
  show "scMobile phone" by (simp add: phone_def)
  show "shBuilt (openApprovalSheet phone (Some 1) (freshSheet waitingOne))" by code_simp
  show "shOpen (openApprovalSheet phone (Some 1) (freshSheet waitingOne)) = Some 1" by code_simp
  show "isApprovalPending (shStore (openApprovalSheet phone (Some 1) (freshSheet waitingOne))) (Some 1)" by code_simp
qed (simp add: sameQuestion_def byItself_def)

section \<open>The button of a batch\<close>

lemma same_answered: "isBatchAnswered i k S = batchSectionAnswered i k S"
  by (simp add: isBatchAnswered_def batchSectionAnswered_def split: option.split)

text \<open>When the button of the last question is enabled, pressing it is not refused.\<close>

lemma enabled_button_sends:
  assumes "primaryEnabled i ss S" "activeQuestion i S = length ss - 1" "ss \<noteq> []"
  shows "batchAllAnswered i ss S"
  using assms by (simp add: primaryEnabled_def batchAllAnswered_def same_answered Let_def)

text \<open>
  The button is enabled when the sheet is drawn, and typing does not draw it: an answer in free
  text leaves the button of its question disabled.
\<close>

lemma typed_answer_leaves_button_disabled:
  assumes "shDrawn H = DrawnBatch i ss q False"
  shows "pressPrimary X (typeAnswer t H) = typeAnswer t H"
  using assms by (simp add: typeAnswer_def pressPrimary_def inSheet_def)

lemma free_text_starts_disabled:
  assumes "stRaw (shStore H) i = Some c" "coBody c = Batch ss" "shDrawn H = DrawnBatch i ss q en"
    "scMobile X" "shBuilt H" "shOpen H = Some i" "stSel (shStore H) i = Some sel" "length sel = length ss"
    "stFree (shStore H) i = Some (replicate (length ss) [])" "stActiveQ (shStore H) i = Some (int q)"
    "q < length ss"
  shows "shDrawn (chooseFree X H) = DrawnBatch i ss q False"
proof -
  let ?S = "putSelection i q BATCH_FREE (shStore H)"
  have S: "stRaw ?S = stRaw (shStore H)" "stFree ?S = stFree (shStore H)" "stActiveQ ?S = stActiveQ (shStore H)"
    "stSel ?S i = Some (sel[q := Some BATCH_FREE])"
    using assms(7,8,11) by (simp_all add: putSelection_def)
  have r: "renderStore i ?S = ?S"
    using assms S by (auto simp: renderStore_def ensureBatchState_def Let_def)
  have "\<not> isBatchAnswered i q ?S"
    using assms S by (simp add: isBatchAnswered_def freeAt_def BATCH_FREE_def trim_def trimStart_def trimEnd_def)
  then have "\<not> primaryEnabled i ss ?S"
    using assms S by (auto simp: primaryEnabled_def activeQuestion_def list_all_iff Let_def)
  then show ?thesis
    using assms S r by (auto simp: chooseFree_def inSheet_def renderSheet_def ensureSheet_def drawnOf_def
        activeQuestion_def Let_def)
qed

section \<open>The approval-only page\<close>

definition approveLabelRe :: rx where
  "approveLabelRe =
     seqs [RWordB, alts (map (\<lambda>w. lit (js w))
       [''yes'', ''approve'', ''allow'', ''continue'', ''proceed'', ''confirm'', ''accept'', ''run'', ''execute'']),
       RWordB]"

text \<open>Options are compared as objects, here by their places in the list.\<close>

definition findPlace :: "(nat \<Rightarrow> approvalOption \<Rightarrow> bool) \<Rightarrow> approvalOption list \<Rightarrow> nat option" where
  "findPlace f os = map_option fst (List.find (\<lambda>(k, a). f k a) (enumerate 0 os))"

definition orElse :: "'a option \<Rightarrow> 'a option \<Rightarrow> 'a option" where
  "orElse x y = (case x of None \<Rightarrow> y | Some v \<Rightarrow> Some v)"

definition selectPlaces :: "approvalOption list \<Rightarrow> nat option \<times> nat option" where
  "selectPlaces os =
     (let reject = findPlace (\<lambda>k a. test True denyLabelRe (oLabel a)) os
      in (orElse (findPlace (\<lambda>k a. test True approveLabelRe (oLabel a) \<and> Some k \<noteq> reject) os)
                 (findPlace (\<lambda>k a. Some k \<noteq> reject) os), reject))"

definition selectOptions :: "store \<Rightarrow> int \<Rightarrow> approvalOption option \<times> approvalOption option" where
  "selectOptions S i =
     (case stRaw S i of
        None \<Rightarrow> (None, None)
      | Some c \<Rightarrow>
          (case coBody c of
             Batch ss \<Rightarrow> (None, None)
           | Single os \<Rightarrow>
               (let (approve, reject) = selectPlaces os
                in (map_option (nth os) approve, map_option (nth os) reject))))"

text \<open>The word for the risk, and whether the button to approve has to be held or confirmed.\<close>

definition riskLabel :: "summary option \<Rightarrow> jstr" where
  "riskLabel sm =
     (let r = map_option smRisk sm in
      if r = Some (js ''high'') then js ''HIGH'' else if r = Some (js ''low'') then js ''LOW'' else js ''MID'')"

definition mustConfirm :: "summary option \<Rightarrow> approvalOption \<Rightarrow> bool" where
  "mustConfirm sm a \<longleftrightarrow>
     map_option smRisk sm = Some (js ''high'') \<and> \<not> test True denyLabelRe (oLabel a)"

definition promptText :: "jstr \<times> jstr \<Rightarrow> jstr" where
  "promptText cx =
     (if snd cx \<noteq> [] then snd cx else if fst cx \<noteq> [] then fst cx
      else [25215, 35469, 24453, 12385, 12398, 20869, 23481, 12434, 30906, 35469, 12375, 12390, 12356, 12414, 12377])"

text \<open>Which page is shown: the mode is remembered, and leads back to the page.\<close>

definition ROUTE :: jstr where "ROUTE = js ''/mobile/approvals''"

definition isApprovalRoute :: "jstr \<Rightarrow> bool" where
  "isApprovalRoute path \<longleftrightarrow> rev (dropWhile (\<lambda>c. c = 47) (rev path)) = ROUTE"

datatype pageStart = GoToApprovals | OtherPage | ApprovalPage

definition initMobileApprovalOnly :: "jstr \<Rightarrow> jstr \<Rightarrow> pageStart \<times> jstr" where
  "initMobileApprovalOnly path mode =
     (let route = isApprovalRoute path in
      if \<not> route \<and> mode = js ''approval'' then (GoToApprovals, mode)
      else if \<not> route then (OtherPage, mode)
      else (ApprovalPage, js ''approval''))"

lemma find_place_SomeD: "findPlace f os = Some k \<Longrightarrow> k < length os \<and> f k (os ! k)"
  by (auto simp: findPlace_def find_Some_iff nth_enumerate_eq)

lemma find_place_NoneD: "findPlace f os = None \<Longrightarrow> k < length os \<Longrightarrow> \<not> f k (os ! k)"
  by (auto simp: findPlace_def find_None_iff in_set_enumerate_eq)

lemma or_else_place:
  "orElse (findPlace f os) (findPlace g os) = Some k \<Longrightarrow> k < length os \<and> (f k (os ! k) \<or> g k (os ! k))"
  by (cases "findPlace f os") (auto simp: orElse_def dest: find_place_SomeD)

text \<open>
  The two buttons are for different options, the one to reject is for an option that declines, and
  as soon as there are options there is a button.
\<close>

lemma buttons_differ:
  assumes "selectPlaces os = (a, r)"
  shows "(a = None \<or> a \<noteq> r) \<and> (case a of None \<Rightarrow> True | Some k \<Rightarrow> k < length os)
    \<and> (case r of None \<Rightarrow> True | Some k \<Rightarrow> k < length os \<and> test True denyLabelRe (oLabel (os ! k)))
    \<and> (os \<noteq> [] \<longrightarrow> a \<noteq> None \<or> r \<noteq> None)"
proof -
  let ?any = "findPlace (\<lambda>k a. Some k \<noteq> r) os"
  have r: "r = findPlace (\<lambda>k a. test True denyLabelRe (oLabel a)) os"
    and a: "a = orElse (findPlace (\<lambda>k a. test True approveLabelRe (oLabel a) \<and> Some k \<noteq> r) os) ?any"
    using assms by (auto simp: selectPlaces_def Let_def)
  have "a = None \<or> (\<exists>k. a = Some k \<and> k < length os \<and> Some k \<noteq> r)"
  proof (cases a)
    case (Some k)
    from or_else_place [OF a [symmetric, unfolded Some]] Some show ?thesis by blast
  qed simp
  moreover have "r = None \<or> (\<exists>k. r = Some k \<and> k < length os \<and> test True denyLabelRe (oLabel (os ! k)))"
    using find_place_SomeD [of "\<lambda>k a. test True denyLabelRe (oLabel a)" os] r by (cases r) auto
  moreover have "a \<noteq> None" if "os \<noteq> []" "r = None"
  proof
    assume "a = None"
    then have "?any = None" using a by (auto simp: orElse_def split: option.splits)
    then show False using find_place_NoneD [of "\<lambda>k a. Some k \<noteq> r" os 0] that by simp
  qed
  ultimately show ?thesis by auto
qed

text \<open>
  The button to approve sends the first other option when none looks like an approval, so it can
  send an option that declines.
\<close>

lemma approve_button_may_decline:
  "selectPlaces [mkOption 1 (js ''No, keep it'') False, mkOption 2 (js ''Cancel'') False] = (Some 1, Some 0)"
  by code_simp

text \<open>On the page the risky answer is held for confirmation, exactly when sending it asks for that.\<close>

lemma page_confirms_risky:
  assumes "stRaw S i = Some c" "coBody c = Single os" "\<not> isMultiSelectOptions (Single os)"
    "findNum (oNum a) os = Some a" "coRisk c = map_option smRisk sm"
  shows "mustConfirm sm a = isHighRiskApprovalSelection i (oNum a) S"
  using assms by (auto simp: mustConfirm_def isHighRiskApprovalSelection_def)

text \<open>On the sheet it is not: outside the dialog mode, tapping it sends nothing and closes the sheet.\<close>

lemma sheet_cannot_approve_risky:
  assumes "shDrawn H = DrawnSingle i os" "k < length os" "\<not> scDialog X"
    "isHighRiskApprovalSelection i (oNum (os ! k)) (shStore H)"
  shows "chooseOption X k H = closeApprovalSheet X False H"
  using assms by (simp add: chooseOption_def chooseSingle_def onSheetStore_def sendChoice_def)

end
