(* ===== verification/StableSort.thy ===== *)
theory StableSort
  imports Main "HOL-Library.Multiset"
begin

text \<open>
  \<open>Array.prototype.sort\<close> with a comparison function: a stable sort, here by insertion. A comparison
  that is consistent has one stable result, whatever the algorithm.
\<close>

fun insertSorted :: "('a \<Rightarrow> 'a \<Rightarrow> int) \<Rightarrow> 'a \<Rightarrow> 'a list \<Rightarrow> 'a list" where
  "insertSorted cmp x [] = [x]"
| "insertSorted cmp x (y # ys) = (if cmp x y \<le> 0 then x # y # ys else y # insertSorted cmp x ys)"

definition sortBy :: "('a \<Rightarrow> 'a \<Rightarrow> int) \<Rightarrow> 'a list \<Rightarrow> 'a list" where
  "sortBy cmp xs = foldr (insertSorted cmp) xs []"

lemma sortBy_simps [simp]:
  "sortBy cmp [] = []" "sortBy cmp (x # xs) = insertSorted cmp x (sortBy cmp xs)"
  by (simp_all add: sortBy_def)

lemma insertSorted_mset [simp]: "mset (insertSorted cmp x xs) = add_mset x (mset xs)"
  by (induction cmp x xs rule: insertSorted.induct) auto

lemma sortBy_mset [simp]: "mset (sortBy cmp xs) = mset xs"
  by (induction xs) simp_all

lemma insertSorted_set [simp]: "set (insertSorted cmp x xs) = insert x (set xs)"
  by (induction cmp x xs rule: insertSorted.induct) auto

lemma sortBy_set [simp]: "set (sortBy cmp xs) = set xs"
  by (induction xs) simp_all

text \<open>Consistent: transitive, and one of two elements comes first.\<close>

definition consistent :: "('a \<Rightarrow> 'a \<Rightarrow> int) \<Rightarrow> bool" where
  "consistent cmp \<longleftrightarrow>
     (\<forall>x y. cmp x y \<le> 0 \<or> cmp y x \<le> 0) \<and> (\<forall>x y z. cmp x y \<le> 0 \<longrightarrow> cmp y z \<le> 0 \<longrightarrow> cmp x z \<le> 0)"

lemma insertSorted_sorted:
  assumes "consistent cmp" "sorted_wrt (\<lambda>a b. cmp a b \<le> 0) xs"
  shows "sorted_wrt (\<lambda>a b. cmp a b \<le> 0) (insertSorted cmp x xs)"
  using assms(2)
proof (induction xs)
  case (Cons y ys)
  have flip: "cmp x y \<le> 0 \<or> cmp y x \<le> 0" and trans: "\<And>b. cmp x y \<le> 0 \<Longrightarrow> cmp y b \<le> 0 \<Longrightarrow> cmp x b \<le> 0"
    using assms(1) unfolding consistent_def by blast+
  show ?case using Cons flip trans by auto
qed simp

lemma sortBy_sorted: "consistent cmp \<Longrightarrow> sorted_wrt (\<lambda>a b. cmp a b \<le> 0) (sortBy cmp xs)"
  by (induction xs) (simp_all add: insertSorted_sorted)

text \<open>Sorting a sorted list changes nothing.\<close>

lemma sortBy_id: "sorted_wrt (\<lambda>a b. cmp a b \<le> 0) xs \<Longrightarrow> sortBy cmp xs = xs"
proof (induction xs)
  case (Cons x xs)
  then show ?case by (cases xs) simp_all
qed simp

end
