(* ===== verification/PromptTemplates.thy ===== *)
theory PromptTemplates
  imports Utf8 StableSort
begin

text \<open>
  The prompt templates (\<open>src/web/src/app/prompt-templates.ts\<close>): the saved list with its bounds, the
  palette that inserts, adds, edits and deletes templates, and the undo of a deletion. The value in
  \<open>localStorage\<close> is kept as the array that its JSON text stands for.
\<close>

section \<open>The saved list\<close>

definition MAX_TEMPLATES :: nat where "MAX_TEMPLATES = 100"
definition MAX_BODY_LENGTH :: nat where "MAX_BODY_LENGTH = 8000"
definition MOBILE_LABEL_LENGTH :: nat where "MOBILE_LABEL_LENGTH = 5"

record promptTemplate =
  tpBody :: jstr
  tpProviders :: "jstr list"
  tpTags :: "jstr list"
  tpFrequency :: int

text \<open>
  An element of a stored array: its \<open>body\<close> when it is an object whose body is a string, its two
  arrays when they are arrays (an element is missing when it is not a string), and the number
  \<open>Number(v.frequency) || 0\<close>.
\<close>

record rawTemplate =
  rtBody :: "jstr option"
  rtProviders :: "jstr option list option"
  rtTags :: "jstr option list option"
  rtFrequency :: int

text \<open>\<open>null\<close>, a text that is not an array, or an array.\<close>

datatype stored = NotStored | NotAnArray | Stored "rawTemplate list"

definition DEFAULT_TEMPLATES :: "promptTemplate list" where
  "DEFAULT_TEMPLATES =
     [\<lparr>tpBody = [22793, 26356, 20869, 23481, 12434, 30906, 35469, 12375, 12390, 12289, 80, 82, 32, 12434, 20316, 25104, 12391, 12365, 12427, 29366, 24907, 12414, 12391, 36914, 12417, 12390, 12367, 12384, 12373, 12356, 12290],
       tpProviders = [], tpTags = [js ''git''], tpFrequency = 0\<rparr>,
      \<lparr>tpBody = [12371, 12398, 22793, 26356, 12434, 12524, 12499, 12517, 12540, 12375, 12390, 12289, 21839, 38988, 12364, 12354, 12428, 12400, 37325, 35201, 24230, 38918, 12395, 25351, 25688, 12375, 12390, 12367, 12384, 12373, 12356, 12290],
       tpProviders = [], tpTags = [js ''review''], tpFrequency = 0\<rparr>,
      \<lparr>tpBody = [12371, 12371, 12414, 12391, 12398, 20316, 26989, 20869, 23481, 12289, 22793, 26356, 12501, 12449, 12452, 12523, 12289, 26908, 35388, 32080, 26524, 12289, 27425, 12395, 12420, 12427, 12371, 12392, 12434, 35201, 32004, 12375, 12390, 12367, 12384, 12373, 12356, 12290],
       tpProviders = [], tpTags = [js ''summary''], tpFrequency = 0\<rparr>]"

definition normalizeBody :: "jstr \<Rightarrow> jstr" where
  "normalizeBody s = take MAX_BODY_LENGTH (trim s)"

fun strings :: "jstr option list \<Rightarrow> jstr list" where
  "strings [] = []"
| "strings (None # xs) = strings xs"
| "strings (Some s # xs) = s # strings xs"

definition firstStrings :: "jstr option list option \<Rightarrow> jstr list" where
  "firstStrings x = (case x of None \<Rightarrow> [] | Some xs \<Rightarrow> take 10 (strings xs))"

definition normalizeOne :: "rawTemplate \<Rightarrow> promptTemplate" where
  "normalizeOne r =
     \<lparr>tpBody = (case rtBody r of None \<Rightarrow> [] | Some b \<Rightarrow> normalizeBody b),
      tpProviders = firstStrings (rtProviders r), tpTags = firstStrings (rtTags r),
      tpFrequency = max 0 (min 100000 (rtFrequency r))\<rparr>"

definition normalizeTemplates :: "rawTemplate list \<Rightarrow> promptTemplate list" where
  "normalizeTemplates rs =
     filter (\<lambda>t. tpBody t \<noteq> [])
       (map normalizeOne (take MAX_TEMPLATES (filter (\<lambda>r. rtBody r \<noteq> None) rs)))"

definition getPromptTemplates :: "stored \<Rightarrow> promptTemplate list" where
  "getPromptTemplates st =
     (case st of NotStored \<Rightarrow> DEFAULT_TEMPLATES | NotAnArray \<Rightarrow> DEFAULT_TEMPLATES
      | Stored rs \<Rightarrow> normalizeTemplates rs)"

definition toRaw :: "promptTemplate \<Rightarrow> rawTemplate" where
  "toRaw t = \<lparr>rtBody = Some (tpBody t), rtProviders = Some (map Some (tpProviders t)),
     rtTags = Some (map Some (tpTags t)), rtFrequency = tpFrequency t\<rparr>"

definition saveTemplates :: "promptTemplate list \<Rightarrow> stored" where
  "saveTemplates ts = Stored (map toRaw ts)"

definition newTemplate :: "jstr \<Rightarrow> promptTemplate" where
  "newTemplate b = \<lparr>tpBody = b, tpProviders = [], tpTags = [], tpFrequency = 0\<rparr>"

definition hasBody :: "jstr \<Rightarrow> promptTemplate list \<Rightarrow> bool" where
  "hasBody b ts \<longleftrightarrow> list_ex (\<lambda>t. tpBody t = b) ts"

text \<open>\<open>None\<close> is the answer \<open>false\<close>.\<close>

definition addPromptTemplate :: "jstr \<Rightarrow> stored \<Rightarrow> stored option" where
  "addPromptTemplate body st =
     (let b = normalizeBody body; ts = getPromptTemplates st in
      if b = [] then None
      else if MAX_TEMPLATES \<le> length ts \<or> hasBody b ts then None
      else Some (saveTemplates (ts @ [newTemplate b])))"

fun charsOf :: "jstr \<Rightarrow> jstr list" where
  "charsOf [] = []"
| "charsOf [c] = [[c]]"
| "charsOf (c # d # cs) = (if is_high c \<and> is_low d then [c, d] # charsOf cs else [c] # charsOf (d # cs))"

definition promptTemplateLabel :: "jstr \<Rightarrow> nat \<Rightarrow> jstr" where
  "promptTemplateLabel body n =
     (let cs = charsOf body in if length cs \<le> n then concat cs else concat (take n cs) @ [8230])"

fun indexWhere :: "('a \<Rightarrow> bool) \<Rightarrow> 'a list \<Rightarrow> nat option" where
  "indexWhere p [] = None"
| "indexWhere p (x # xs) = (if p x then Some 0 else map_option Suc (indexWhere p xs))"

definition templateIndex :: "promptTemplate list \<Rightarrow> jstr \<Rightarrow> nat option" where
  "templateIndex ts b = indexWhere (\<lambda>t. tpBody t = b) ts"

section \<open>What the palette lists\<close>

text \<open>\<open>localeCompare\<close> is a parameter.\<close>

definition compareTemplates :: "(jstr \<Rightarrow> jstr \<Rightarrow> int) \<Rightarrow> promptTemplate \<Rightarrow> promptTemplate \<Rightarrow> int" where
  "compareTemplates localeCompare a b =
     (let d = tpFrequency b - tpFrequency a in if d \<noteq> 0 then d else localeCompare (tpBody a) (tpBody b))"

definition templateMatches :: "jstr \<Rightarrow> jstr \<Rightarrow> promptTemplate \<Rightarrow> bool" where
  "templateMatches provider needle t \<longleftrightarrow>
     (provider = [] \<or> tpProviders t = [] \<or> List.member (tpProviders t) provider)
     \<and> (needle = [] \<or> str_includes (toLowerCase (tpBody t @ [32] @ join [32] (tpTags t))) needle)"

definition templatesForProvider ::
  "(jstr \<Rightarrow> jstr \<Rightarrow> int) \<Rightarrow> jstr \<Rightarrow> jstr \<Rightarrow> stored \<Rightarrow> promptTemplate list" where
  "templatesForProvider localeCompare provider query st =
     sortBy (compareTemplates localeCompare)
       (filter (templateMatches provider (toLowerCase (trim query))) (getPromptTemplates st))"

section \<open>The palette\<close>

text \<open>
  \<open>plInserted\<close> are the texts given to the input line, \<open>plToasts\<close> the refusals that were shown.
\<close>

record palette =
  plStored :: stored
  plOpen :: bool
  plEditing :: "jstr option"
  plEditDraft :: jstr
  plAdding :: bool
  plAddDraft :: jstr
  plUndo :: "(promptTemplate \<times> nat) option"
  plInserted :: "jstr list"
  plToasts :: nat

definition onTemplates :: "(promptTemplate list \<Rightarrow> promptTemplate list) \<Rightarrow> palette \<Rightarrow> palette" where
  "onTemplates f P = P\<lparr>plStored := saveTemplates (f (getPromptTemplates (plStored P)))\<rparr>"

definition refuse :: "palette \<Rightarrow> palette" where
  "refuse P = P\<lparr>plToasts := Suc (plToasts P)\<rparr>"

definition closePalette :: "palette \<Rightarrow> palette" where
  "closePalette P =
     P\<lparr>plOpen := False, plEditing := None, plEditDraft := [], plAdding := False, plAddDraft := [],
       plUndo := None\<rparr>"

definition togglePalette :: "palette \<Rightarrow> palette" where
  "togglePalette P = (if plOpen P then closePalette P else P\<lparr>plOpen := True\<rparr>)"

definition insertPromptTemplate :: "jstr \<Rightarrow> palette \<Rightarrow> palette" where
  "insertPromptTemplate b P =
     (let ts = getPromptTemplates (plStored P);
          P1 = (case templateIndex ts b of
                  None \<Rightarrow> P
                | Some k \<Rightarrow>
                    onTemplates (\<lambda>us. us[k := (us ! k)\<lparr>tpFrequency := tpFrequency (us ! k) + 1\<rparr>]) P)
      in P1\<lparr>plInserted := plInserted P @ [b]\<rparr>)"

definition selectTemplate :: "jstr \<Rightarrow> palette \<Rightarrow> palette" where
  "selectTemplate b P = closePalette (insertPromptTemplate b P)"

definition startAdding :: "palette \<Rightarrow> palette" where
  "startAdding P = P\<lparr>plAdding := True, plAddDraft := []\<rparr>"

definition cancelAdding :: "palette \<Rightarrow> palette" where
  "cancelAdding P = P\<lparr>plAdding := False, plAddDraft := []\<rparr>"

definition saveAdded :: "jstr \<Rightarrow> palette \<Rightarrow> palette" where
  "saveAdded text P =
     (let b = normalizeBody text in
      if b = [] then refuse P
      else if hasBody b (getPromptTemplates (plStored P)) then refuse P
      else (case addPromptTemplate b (plStored P) of
              Some st \<Rightarrow> cancelAdding (P\<lparr>plStored := st\<rparr>)
            | None \<Rightarrow> refuse P))"

definition startEditing :: "jstr \<Rightarrow> palette \<Rightarrow> palette" where
  "startEditing b P = P\<lparr>plEditing := Some b, plEditDraft := b\<rparr>"

definition cancelEditing :: "palette \<Rightarrow> palette" where
  "cancelEditing P = P\<lparr>plEditing := None, plEditDraft := []\<rparr>"

text \<open>\<open>old\<close> is the body of the row that is edited.\<close>

definition otherHasBody :: "nat \<Rightarrow> jstr \<Rightarrow> promptTemplate list \<Rightarrow> bool" where
  "otherHasBody k b ts \<longleftrightarrow> list_ex (\<lambda>(j, t). j \<noteq> k \<and> tpBody t = b) (enumerate 0 ts)"

definition saveEdited :: "jstr \<Rightarrow> jstr \<Rightarrow> palette \<Rightarrow> palette" where
  "saveEdited old text P =
     (let b = normalizeBody text; ts = getPromptTemplates (plStored P) in
      if b = [] then refuse P
      else
        (case templateIndex ts old of
           None \<Rightarrow> P
         | Some k \<Rightarrow>
             if otherHasBody k b ts then refuse P
             else onTemplates (\<lambda>us. us[k := (us ! k)\<lparr>tpBody := b\<rparr>]) (cancelEditing P)))"

definition removeAt :: "nat \<Rightarrow> 'a list \<Rightarrow> 'a list" where
  "removeAt k xs = take k xs @ drop (Suc k) xs"

definition insertAt :: "nat \<Rightarrow> 'a \<Rightarrow> 'a list \<Rightarrow> 'a list" where
  "insertAt k x xs = take k xs @ [x] @ drop k xs"

definition deleteTemplate :: "jstr \<Rightarrow> palette \<Rightarrow> palette" where
  "deleteTemplate b P =
     (let ts = getPromptTemplates (plStored P) in
      case templateIndex ts b of
        None \<Rightarrow> P
      | Some k \<Rightarrow>
          onTemplates (removeAt k)
            (P\<lparr>plUndo := Some (ts ! k, k),
               plEditing := (if plEditing P = Some b then None else plEditing P)\<rparr>))"

definition undoDelete :: "palette \<Rightarrow> palette" where
  "undoDelete P =
     (case plUndo P of
        None \<Rightarrow> P
      | Some (t, k) \<Rightarrow>
          if hasBody (tpBody t) (getPromptTemplates (plStored P)) then P
          else onTemplates (\<lambda>ts. insertAt (min k (length ts)) t ts) (P\<lparr>plUndo := None\<rparr>))"

datatype paletteEvent =
    TogglePalette
  | ClosePalette
  | SelectTemplate jstr
  | StartAdding
  | TypeAdded jstr
  | SaveAdded
  | CancelAdding
  | StartEditing jstr
  | TypeEdited jstr
  | SaveEdited
  | CancelEditing
  | DeleteTemplate jstr
  | UndoDelete

fun paletteDo :: "paletteEvent \<Rightarrow> palette \<Rightarrow> palette" where
  "paletteDo TogglePalette P = togglePalette P"
| "paletteDo ClosePalette P = closePalette P"
| "paletteDo (SelectTemplate b) P = selectTemplate b P"
| "paletteDo StartAdding P = startAdding P"
| "paletteDo (TypeAdded t) P = (if plAdding P then P\<lparr>plAddDraft := t\<rparr> else P)"
| "paletteDo SaveAdded P = (if plAdding P then saveAdded (plAddDraft P) P else P)"
| "paletteDo CancelAdding P = cancelAdding P"
| "paletteDo (StartEditing b) P =
     (if hasBody b (getPromptTemplates (plStored P)) then startEditing b P else P)"
| "paletteDo (TypeEdited t) P = (if plEditing P = None then P else P\<lparr>plEditDraft := t\<rparr>)"
| "paletteDo SaveEdited P = (case plEditing P of None \<Rightarrow> P | Some old \<Rightarrow> saveEdited old (plEditDraft P) P)"
| "paletteDo CancelEditing P = cancelEditing P"
| "paletteDo (DeleteTemplate b) P = deleteTemplate b P"
| "paletteDo UndoDelete P = undoDelete P"

definition runPalette :: "paletteEvent list \<Rightarrow> palette \<Rightarrow> palette" where
  "runPalette es P = fold paletteDo es P"

section \<open>Bounds\<close>

definition withinBounds :: "promptTemplate \<Rightarrow> bool" where
  "withinBounds t \<longleftrightarrow>
     tpBody t \<noteq> [] \<and> length (tpBody t) \<le> MAX_BODY_LENGTH \<and> length (tpProviders t) \<le> 10
     \<and> length (tpTags t) \<le> 10 \<and> 0 \<le> tpFrequency t \<and> tpFrequency t \<le> 100000"

lemma normalized_bounds: "tpBody (normalizeOne r) \<noteq> [] \<Longrightarrow> withinBounds (normalizeOne r)"
  by (simp add: withinBounds_def normalizeOne_def normalizeBody_def firstStrings_def split: option.split)

lemma default_bounds: "list_all withinBounds DEFAULT_TEMPLATES \<and> length DEFAULT_TEMPLATES = 3"
  by (simp add: DEFAULT_TEMPLATES_def withinBounds_def MAX_BODY_LENGTH_def js_def)

text \<open>
  Whatever is stored (a value edited by hand, of an older version, or another device's), the
  program reads at most 100 templates, none empty, none longer than 8000 code units, with at most
  ten providers and tags each, and a frequency from 0 to 100000.
\<close>

theorem templates_within_bounds:
  "length (getPromptTemplates st) \<le> MAX_TEMPLATES \<and> list_all withinBounds (getPromptTemplates st)"
proof (cases st)
  case (Stored rs)
  have "length (getPromptTemplates st) \<le> length (take MAX_TEMPLATES (filter (\<lambda>r. rtBody r \<noteq> None) rs))"
    unfolding Stored getPromptTemplates_def normalizeTemplates_def stored.case
    by (rule le_trans [OF length_filter_le]) simp
  then show ?thesis
    using Stored by (auto simp: getPromptTemplates_def normalizeTemplates_def list_all_iff intro: normalized_bounds)
qed (use default_bounds in \<open>simp_all add: getPromptTemplates_def MAX_TEMPLATES_def\<close>)

section \<open>Saving and reading back\<close>

text \<open>A text that reading back does not change (cutting it at 8000 units can leave a space at its end).\<close>

definition tidy :: "jstr \<Rightarrow> bool" where
  "tidy b \<longleftrightarrow> normalizeBody b = b \<and> b \<noteq> []"

lemma short_texts_tidy: "length (trim b) \<le> MAX_BODY_LENGTH \<Longrightarrow> trim b \<noteq> [] \<Longrightarrow> tidy (normalizeBody b)"
  by (simp add: tidy_def normalizeBody_def)

lemma strings_map [simp]: "strings (map Some xs) = xs"
  by (induction xs) auto

lemma reload_bodies:
  assumes "list_all (\<lambda>t. tidy (tpBody t)) ts"
  shows "map tpBody (getPromptTemplates (saveTemplates ts)) = take MAX_TEMPLATES (map tpBody ts)"
proof -
  have raw: "filter (\<lambda>r. \<exists>b. rtBody r = Some b) (map toRaw ts) = map toRaw ts"
    by (rule filter_True) (auto simp: toRaw_def)
  have body: "tpBody (normalizeOne (toRaw t)) = normalizeBody (tpBody t)" for t
    by (simp add: normalizeOne_def toRaw_def)
  have "map tpBody (filter (\<lambda>t. tpBody t \<noteq> []) (map (normalizeOne \<circ> toRaw) us)) = map tpBody us"
    if "list_all (\<lambda>t. tidy (tpBody t)) us" for us
    using that by (induction us) (auto simp: body tidy_def)
  moreover have "list_all (\<lambda>t. tidy (tpBody t)) (take MAX_TEMPLATES ts)"
    using assms by (auto simp: list_all_iff dest: in_set_takeD)
  ultimately show ?thesis
    by (simp add: getPromptTemplates_def saveTemplates_def normalizeTemplates_def raw take_map)
qed

definition settled :: "promptTemplate list \<Rightarrow> bool" where
  "settled ts \<longleftrightarrow> list_all (\<lambda>t. tidy (tpBody t) \<and> withinBounds t) ts \<and> length ts \<le> MAX_TEMPLATES"

lemma settled_one: "tidy (tpBody t) \<Longrightarrow> withinBounds t \<Longrightarrow> normalizeOne (toRaw t) = t"
  by (simp add: normalizeOne_def toRaw_def tidy_def withinBounds_def firstStrings_def)

lemma reload_take:
  assumes "list_all (\<lambda>t. tidy (tpBody t) \<and> withinBounds t) ts"
  shows "getPromptTemplates (saveTemplates ts) = take MAX_TEMPLATES ts"
proof -
  have "filter (\<lambda>r. rtBody r \<noteq> None) (map toRaw ts) = map toRaw ts"
    by (rule filter_True) (auto simp: toRaw_def)
  moreover have "filter (\<lambda>t. tpBody t \<noteq> []) (map (normalizeOne \<circ> toRaw) us) = us"
    if "list_all (\<lambda>t. tidy (tpBody t) \<and> withinBounds t) us" for us
    using that by (induction us) (auto simp: settled_one tidy_def)
  moreover have "list_all (\<lambda>t. tidy (tpBody t) \<and> withinBounds t) (take MAX_TEMPLATES ts)"
    using assms by (auto simp: list_all_iff dest: in_set_takeD)
  ultimately show ?thesis
    by (simp add: getPromptTemplates_def saveTemplates_def normalizeTemplates_def take_map)
qed

lemma reload: "settled ts \<Longrightarrow> getPromptTemplates (saveTemplates ts) = ts"
  by (auto simp: settled_def reload_take)

lemma trim_shorter: "length (trim t) \<le> length t"
  by (simp add: trim_def trimStart_def trimEnd_def le_trans [OF length_dropWhile_le])

lemma tidy_iff: "length b \<le> MAX_BODY_LENGTH \<Longrightarrow> tidy b \<longleftrightarrow> trim b = b \<and> b \<noteq> []"
  using trim_shorter [of b] by (simp add: tidy_def normalizeBody_def)

lemma trimmed: "b \<noteq> [] \<Longrightarrow> \<not> is_ws (hd b) \<Longrightarrow> \<not> is_ws (last b) \<Longrightarrow> trim b = b"
proof -
  assume b: "b \<noteq> []" "\<not> is_ws (hd b)" "\<not> is_ws (last b)"
  then have "trimStart b = b" "dropWhile is_ws (rev b) = rev b"
    by (simp_all add: trimStart_nonws dropWhile_eq_self_iff hd_rev)
  then show "trim b = b" by (simp add: trim_def trimEnd_def)
qed

lemma default_settled: "settled DEFAULT_TEMPLATES \<and> distinct (map tpBody DEFAULT_TEMPLATES)"
proof
  have "list_all (\<lambda>t. tpBody t \<noteq> [] \<and> length (tpBody t) \<le> MAX_BODY_LENGTH
      \<and> \<not> is_ws (hd (tpBody t)) \<and> \<not> is_ws (last (tpBody t))) DEFAULT_TEMPLATES"
    by (simp add: DEFAULT_TEMPLATES_def MAX_BODY_LENGTH_def is_ws_def)
  then have "list_all (\<lambda>t. tidy (tpBody t)) DEFAULT_TEMPLATES"
    by (auto simp: list_all_iff tidy_iff trimmed)
  then show "settled DEFAULT_TEMPLATES"
    using default_bounds by (auto simp: settled_def list_all_iff MAX_TEMPLATES_def)
  show "distinct (map tpBody DEFAULT_TEMPLATES)" by (simp add: DEFAULT_TEMPLATES_def)
qed

section \<open>Deleting and undoing\<close>

lemma index_where: "indexWhere p xs = Some k \<Longrightarrow> k < length xs \<and> p (xs ! k)"
  by (induction p xs arbitrary: k rule: indexWhere.induct) (auto split: if_splits)

lemma index_None: "indexWhere p xs = None \<longleftrightarrow> \<not> list_ex p xs"
  by (induction p xs rule: indexWhere.induct) auto

lemma set_removeAt: "set (removeAt k xs) \<subseteq> set xs"
  by (auto simp: removeAt_def dest: in_set_takeD in_set_dropD)

lemma insert_removed: "k < length xs \<Longrightarrow> insertAt (min k (length (removeAt k xs))) (xs ! k) (removeAt k xs) = xs"
proof -
  assume k: "k < length xs"
  then have "min k (length (removeAt k xs)) = k" by (simp add: removeAt_def)
  then show ?thesis using k by (simp add: insertAt_def removeAt_def id_take_nth_drop [symmetric])
qed

lemma settled_removeAt: "settled ts \<Longrightarrow> settled (removeAt k ts)"
  using set_removeAt [of k ts] by (auto simp: settled_def list_all_iff removeAt_def)

lemma has_body: "hasBody b ts \<longleftrightarrow> b \<in> set (map tpBody ts)"
  by (auto simp: hasBody_def list_ex_iff)

lemma removed_body:
  assumes "distinct (map tpBody ts)" "k < length ts"
  shows "\<not> hasBody (tpBody (ts ! k)) (removeAt k ts)"
proof -
  have "distinct (map tpBody (take k ts @ ts ! k # drop (Suc k) ts))"
    using assms id_take_nth_drop [OF assms(2)] by simp
  then show ?thesis unfolding has_body removeAt_def by simp
qed

text \<open>
  C20: Undoing a deletion brings the template back to its place: deleting a template of a list
  without duplicates and pressing undo leaves the list as it was.
\<close>

theorem undo_restores_template:
  assumes "settled (getPromptTemplates (plStored P))" "distinct (map tpBody (getPromptTemplates (plStored P)))"
    "hasBody b (getPromptTemplates (plStored P))"
  shows "getPromptTemplates (plStored (undoDelete (deleteTemplate b P))) = getPromptTemplates (plStored P)"
proof -
  let ?ts = "getPromptTemplates (plStored P)"
  obtain k where k: "templateIndex ?ts b = Some k"
    using assms(3) index_None [of "\<lambda>t. tpBody t = b" ?ts]
    by (cases "templateIndex ?ts b") (auto simp: templateIndex_def hasBody_def)
  then have kk: "k < length ?ts" using index_where by (fastforce simp: templateIndex_def)
  have del: "plStored (deleteTemplate b P) = saveTemplates (removeAt k ?ts)"
    "plUndo (deleteTemplate b P) = Some (?ts ! k, k)"
    by (simp_all add: deleteTemplate_def onTemplates_def k Let_def)
  have get: "getPromptTemplates (plStored (deleteTemplate b P)) = removeAt k ?ts"
    by (simp add: del reload settled_removeAt assms(1))
  then have "plStored (undoDelete (deleteTemplate b P)) = saveTemplates ?ts"
    using removed_body [OF assms(2) kk] insert_removed [OF kk]
    by (simp add: undoDelete_def onTemplates_def del(2))
  then show ?thesis by (simp add: reload assms(1))
qed

definition threeTemplates :: palette where
  "threeTemplates = \<lparr>plStored = NotStored, plOpen = True, plEditing = None, plEditDraft = [], plAdding = False,
     plAddDraft = [], plUndo = None, plInserted = [], plToasts = 0\<rparr>"

theorem undo_restores_template_witness:
  "getPromptTemplates (plStored (undoDelete (deleteTemplate (tpBody (DEFAULT_TEMPLATES ! 1)) threeTemplates)))
   = DEFAULT_TEMPLATES"
proof -
  have get: "getPromptTemplates (plStored threeTemplates) = DEFAULT_TEMPLATES"
    by (simp add: getPromptTemplates_def threeTemplates_def)
  have "hasBody (tpBody (DEFAULT_TEMPLATES ! 1)) DEFAULT_TEMPLATES"
    by (simp add: DEFAULT_TEMPLATES_def hasBody_def)
  then show ?thesis
    using undo_restores_template [of threeTemplates "tpBody (DEFAULT_TEMPLATES ! 1)"] default_settled
    by (simp add: get)
qed

text \<open>
  The undo does not look at the limit: after a deletion from a full list and an addition, it makes
  a list of 101 templates, of which the last one is not read back.
\<close>

lemma undo_can_push_out:
  assumes "settled ts" "length ts = MAX_TEMPLATES" "plStored P = saveTemplates ts" "plUndo P = Some (t, k)"
    "tidy (tpBody t)" "withinBounds t" "\<not> hasBody (tpBody t) ts" "k < MAX_TEMPLATES"
  shows "getPromptTemplates (plStored (undoDelete P)) = insertAt k t (butlast ts)"
proof -
  have all: "list_all (\<lambda>t. tidy (tpBody t) \<and> withinBounds t) (insertAt k t ts)"
    using assms(1,5,6) by (auto simp: settled_def insertAt_def list_all_iff dest: in_set_takeD in_set_dropD)
  have "getPromptTemplates (plStored (undoDelete P)) = take MAX_TEMPLATES (insertAt k t ts)"
    using assms(2-4,7,8) reload [OF assms(1)] reload_take [OF all]
    by (simp add: undoDelete_def onTemplates_def)
  also have "\<dots> = insertAt k t (butlast ts)"
    using assms(2,8) by (simp add: insertAt_def butlast_conv_take take_Cons' min_def drop_take)
  finally show ?thesis .
qed

section \<open>What is listed\<close>

definition oftenFirst :: "promptTemplate list \<Rightarrow> bool" where
  "oftenFirst = sorted_wrt (\<lambda>a b. tpFrequency b \<le> tpFrequency a)"

lemma compare_often:
  "compareTemplates lc t u \<le> 0 \<Longrightarrow> tpFrequency u \<le> tpFrequency t"
  "\<not> compareTemplates lc t u \<le> 0 \<Longrightarrow> tpFrequency t \<le> tpFrequency u"
  by (auto simp: compareTemplates_def Let_def split: if_splits)

lemma insertSorted_often:
  "oftenFirst ts \<Longrightarrow> oftenFirst (insertSorted (compareTemplates lc) t ts)"
proof (induction ts)
  case (Cons u us)
  show ?case
  proof (cases "compareTemplates lc t u \<le> 0")
    case True
    then show ?thesis using Cons.prems compare_often(1) [OF True] by (auto simp: oftenFirst_def)
  next
    case False
    then show ?thesis
      using Cons compare_often(2) [OF False] by (simp add: oftenFirst_def)
  qed
qed (simp add: oftenFirst_def)

text \<open>
  The palette lists exactly the templates that match, the most used ones first, whatever the order
  of equally used ones is.
\<close>

lemma listed_templates:
  "mset (templatesForProvider lc provider query st)
     = mset (filter (templateMatches provider (toLowerCase (trim query))) (getPromptTemplates st))
   \<and> oftenFirst (templatesForProvider lc provider query st)"
proof
  have "oftenFirst (sortBy (compareTemplates lc) ts)" for ts
    by (induction ts) (simp_all add: insertSorted_often, simp add: oftenFirst_def)
  then show "oftenFirst (templatesForProvider lc provider query st)" by (simp add: templatesForProvider_def)
qed (simp add: templatesForProvider_def)

text \<open>A label that is cut is a beginning of the text, cut between characters.\<close>

lemma charsOf_concat: "concat (charsOf s) = s"
  by (induction s rule: charsOf.induct) auto

lemma label_of_short: "length (charsOf b) \<le> n \<Longrightarrow> promptTemplateLabel b n = b"
  by (simp add: promptTemplateLabel_def charsOf_concat)

lemma label_is_beginning:
  "n < length (charsOf b) \<Longrightarrow> \<exists>rest. b = concat (take n (charsOf b)) @ rest
     \<and> promptTemplateLabel b n = concat (take n (charsOf b)) @ [8230]"
proof -
  assume "n < length (charsOf b)"
  moreover have "b = concat (take n (charsOf b)) @ concat (drop n (charsOf b))"
    unfolding concat_append [symmetric] append_take_drop_id charsOf_concat ..
  ultimately show ?thesis
    by (intro exI [of _ "concat (drop n (charsOf b))"]) (simp add: promptTemplateLabel_def Let_def)
qed

section \<open>No duplicates\<close>

text \<open>A typed text that is not cut before a space.\<close>

definition tidyDraft :: "jstr \<Rightarrow> bool" where
  "tidyDraft t \<longleftrightarrow> normalizeBody t = [] \<or> tidy (normalizeBody t)"

definition tidyTyping :: "paletteEvent \<Rightarrow> bool" where
  "tidyTyping e = (case e of TypeAdded t \<Rightarrow> tidyDraft t | TypeEdited t \<Rightarrow> tidyDraft t | _ \<Rightarrow> True)"

definition bodiesOf :: "palette \<Rightarrow> jstr list" where
  "bodiesOf P = map tpBody (getPromptTemplates (plStored P))"

definition paletteOk :: "palette \<Rightarrow> bool" where
  "paletteOk P \<longleftrightarrow>
     distinct (bodiesOf P) \<and> list_all tidy (bodiesOf P) \<and> tidyDraft (plAddDraft P) \<and> tidyDraft (plEditDraft P)
     \<and> (case plUndo P of None \<Rightarrow> True | Some (t, k) \<Rightarrow> tidy (tpBody t))"

lemma empty_draft: "tidyDraft []"
  by (simp add: tidyDraft_def normalizeBody_def trim_def trimStart_def trimEnd_def)

lemma tidy_draft: "tidy b \<Longrightarrow> tidyDraft b"
  by (simp add: tidyDraft_def tidy_def)

lemma short_typing: "length t \<le> MAX_BODY_LENGTH \<Longrightarrow> tidyDraft t"
  using trim_shorter [of t] short_texts_tidy [of t] by (auto simp: tidyDraft_def normalizeBody_def)

lemma saved_bodies:
  assumes "list_all tidy (map tpBody ts)"
  shows "map tpBody (getPromptTemplates (saveTemplates ts)) = take MAX_TEMPLATES (map tpBody ts)"
  using assms by (intro reload_bodies) (simp add: list_all_iff)

lemma saved_ok:
  assumes "distinct (map tpBody ts)" "list_all tidy (map tpBody ts)"
  shows "distinct (map tpBody (getPromptTemplates (saveTemplates ts)))
    \<and> list_all tidy (map tpBody (getPromptTemplates (saveTemplates ts)))"
  using assms by (auto simp: saved_bodies list_all_iff take_map distinct_map dest: in_set_takeD intro: inj_on_subset)

lemma map_removeAt: "map f (removeAt k xs) = removeAt k (map f xs)"
  by (simp add: removeAt_def take_map drop_map)

lemma map_insertAt: "map f (insertAt k x xs) = insertAt k (f x) (map f xs)"
  by (simp add: insertAt_def take_map drop_map)

lemma distinct_removeAt: "distinct xs \<Longrightarrow> distinct (removeAt k xs)"
  by (auto simp: removeAt_def set_take_disj_set_drop_if_distinct)

lemma distinct_insertAt: "distinct xs \<Longrightarrow> x \<notin> set xs \<Longrightarrow> distinct (insertAt k x xs)"
  by (auto simp: insertAt_def set_take_disj_set_drop_if_distinct dest: in_set_takeD in_set_dropD)

lemma set_insertAt: "set (insertAt k x xs) = insert x (set xs)"
proof -
  have "set xs = set (take k xs) \<union> set (drop k xs)" by (metis append_take_drop_id set_append)
  then show ?thesis by (auto simp: insertAt_def)
qed

lemma other_body:
  "\<not> otherHasBody k b ts \<longleftrightarrow> (\<forall>j < length ts. j \<noteq> k \<longrightarrow> tpBody (ts ! j) \<noteq> b)"
  by (auto simp: otherHasBody_def list_ex_iff in_set_enumerate_eq)

lemma paletteOkD:
  "paletteOk P \<Longrightarrow> distinct (map tpBody (getPromptTemplates (plStored P)))"
  "paletteOk P \<Longrightarrow> list_all tidy (map tpBody (getPromptTemplates (plStored P)))"
  by (simp_all add: paletteOk_def bodiesOf_def)

lemma ok_stored:
  assumes "paletteOk P" "distinct (map tpBody ts)" "list_all tidy (map tpBody ts)"
  shows "paletteOk (P\<lparr>plStored := saveTemplates ts\<rparr>)"
  using assms saved_ok [OF assms(2,3)] by (simp add: paletteOk_def bodiesOf_def split: option.split)

lemma ok_add:
  assumes "paletteOk P" "addPromptTemplate b (plStored P) = Some st" "b = [] \<or> tidy b"
  shows "paletteOk (P\<lparr>plStored := st\<rparr>)"
proof -
  have b: "normalizeBody b \<noteq> []" "\<not> hasBody (normalizeBody b) (getPromptTemplates (plStored P))"
    "st = saveTemplates (getPromptTemplates (plStored P) @ [newTemplate (normalizeBody b)])"
    using assms(2) by (auto simp: addPromptTemplate_def Let_def split: if_splits)
  have "b \<noteq> []" using b(1) by (auto simp: normalizeBody_def trim_def trimStart_def trimEnd_def)
  then have "tidy (normalizeBody b)" using assms(3) by (auto simp: tidy_def)
  then show ?thesis
    unfolding b(3) using paletteOkD [OF assms(1)] b(2)
    by (intro ok_stored assms(1)) (auto simp: has_body newTemplate_def)
qed

lemma ok_update_body:
  assumes "paletteOk P" "k < length (getPromptTemplates (plStored P))" "tidy b"
    "\<not> otherHasBody k b (getPromptTemplates (plStored P))"
  shows "paletteOk (onTemplates (\<lambda>us. us[k := (us ! k)\<lparr>tpBody := b\<rparr>]) P)"
  unfolding onTemplates_def
proof (rule ok_stored [OF assms(1)])
  let ?ts = "getPromptTemplates (plStored P)"
  have m: "map tpBody (?ts[k := (?ts ! k)\<lparr>tpBody := b\<rparr>]) = (map tpBody ?ts)[k := b]"
    by (simp add: map_update)
  show "distinct (map tpBody (?ts[k := (?ts ! k)\<lparr>tpBody := b\<rparr>]))"
    unfolding m using paletteOkD(1) [OF assms(1)] assms(2,4)
    by (auto simp: distinct_conv_nth nth_list_update other_body)
  show "list_all tidy (map tpBody (?ts[k := (?ts ! k)\<lparr>tpBody := b\<rparr>]))"
    unfolding m using paletteOkD(2) [OF assms(1)] assms(3)
    by (auto simp: list_all_iff dest!: set_update_subset_insert [THEN subsetD])
qed

lemma ok_update_same:
  assumes "paletteOk P"
  shows "paletteOk (onTemplates (\<lambda>us. us[k := (us ! k)\<lparr>tpFrequency := f us\<rparr>]) P)"
  unfolding onTemplates_def
proof (rule ok_stored [OF assms])
  let ?ts = "getPromptTemplates (plStored P)"
  have m: "map tpBody (?ts[k := (?ts ! k)\<lparr>tpFrequency := f ?ts\<rparr>]) = map tpBody ?ts"
    by (cases "k < length ?ts") (auto simp: map_update list_update_same_conv list_update_beyond)
  show "distinct (map tpBody (?ts[k := (?ts ! k)\<lparr>tpFrequency := f ?ts\<rparr>]))"
    unfolding m by (rule paletteOkD(1) [OF assms])
  show "list_all tidy (map tpBody (?ts[k := (?ts ! k)\<lparr>tpFrequency := f ?ts\<rparr>]))"
    unfolding m by (rule paletteOkD(2) [OF assms])
qed

lemma ok_reset: 
  "paletteOk P \<Longrightarrow> paletteOk (P\<lparr>plOpen := x, plEditing := e, plEditDraft := [], plAdding := a, plAddDraft := [], plUndo := None\<rparr>)"
  "paletteOk P \<Longrightarrow> paletteOk (P\<lparr>plAdding := a, plAddDraft := []\<rparr>)"
  "paletteOk P \<Longrightarrow> paletteOk (P\<lparr>plEditing := e, plEditDraft := []\<rparr>)"
  "paletteOk P \<Longrightarrow> tidy b \<Longrightarrow> paletteOk (P\<lparr>plEditing := e, plEditDraft := b\<rparr>)"
  "paletteOk P \<Longrightarrow> paletteOk (P\<lparr>plToasts := n\<rparr>)"
  "paletteOk P \<Longrightarrow> paletteOk (P\<lparr>plOpen := x\<rparr>)"
  "paletteOk P \<Longrightarrow> paletteOk (P\<lparr>plInserted := i\<rparr>)"
  "paletteOk P \<Longrightarrow> tidyDraft t \<Longrightarrow> paletteOk (P\<lparr>plAddDraft := t\<rparr>)"
  "paletteOk P \<Longrightarrow> tidyDraft t \<Longrightarrow> paletteOk (P\<lparr>plEditDraft := t\<rparr>)"
  by (simp_all add: paletteOk_def bodiesOf_def empty_draft tidy_draft)

lemma ok_delete: "paletteOk P \<Longrightarrow> paletteOk (deleteTemplate b P)"
proof -
  assume P: "paletteOk P"
  let ?ts = "getPromptTemplates (plStored P)"
  show ?thesis
  proof (cases "templateIndex ?ts b")
    case (Some k)
    then have k: "k < length ?ts" using index_where by (fastforce simp: templateIndex_def)
    have "tidy (tpBody (?ts ! k))" using paletteOkD(2) [OF P] k by (simp add: list_all_length)
    then have Q: "paletteOk (P\<lparr>plUndo := Some (?ts ! k, k), plEditing := e\<rparr>)" for e
      using P by (simp add: paletteOk_def bodiesOf_def split: option.splits)
    have "distinct (map tpBody (removeAt k ?ts))" "list_all tidy (map tpBody (removeAt k ?ts))"
      using paletteOkD [OF P] set_removeAt [of k ?ts]
      by (auto simp: map_removeAt distinct_removeAt list_all_iff)
         (metis (no_types, lifting) imageE image_eqI list.set_map map_removeAt subsetD)+
    then show ?thesis
      using ok_stored [OF Q] Some by (simp add: deleteTemplate_def onTemplates_def Let_def)
  qed (simp add: deleteTemplate_def Let_def P)
qed

lemma ok_undo: "paletteOk P \<Longrightarrow> paletteOk (undoDelete P)"
proof -
  assume P: "paletteOk P"
  let ?ts = "getPromptTemplates (plStored P)"
  show ?thesis
  proof (cases "plUndo P")
    case (Some u)
    obtain t k where u: "u = (t, k)" by (cases u)
    have t: "tidy (tpBody t)" using P Some u by (simp add: paletteOk_def)
    have Q: "paletteOk (P\<lparr>plUndo := None\<rparr>)" using P by (simp add: paletteOk_def bodiesOf_def)
    have "paletteOk ((P\<lparr>plUndo := None\<rparr>)\<lparr>plStored := saveTemplates (insertAt (min k (length ?ts)) t ?ts)\<rparr>)"
      if "\<not> hasBody (tpBody t) ?ts"
      using that paletteOkD [OF P] t
      by (intro ok_stored Q) (simp_all add: map_insertAt distinct_insertAt has_body list_all_iff set_insertAt)
    then show ?thesis using P Some u by (simp add: undoDelete_def onTemplates_def)
  qed (simp add: undoDelete_def P)
qed

lemma tidy_saved: "tidyDraft t \<Longrightarrow> normalizeBody t = [] \<or> tidy (normalizeBody t)"
  by (simp add: tidyDraft_def)

lemma ok_save_added: "paletteOk P \<Longrightarrow> paletteOk (saveAdded (plAddDraft P) P)"
proof -
  assume P: "paletteOk P"
  then have "normalizeBody (plAddDraft P) = [] \<or> tidy (normalizeBody (plAddDraft P))"
    by (simp add: paletteOk_def tidyDraft_def)
  then show ?thesis
    using P ok_add [OF P] by (auto simp: saveAdded_def refuse_def cancelAdding_def Let_def ok_reset split: option.split)
qed

lemma ok_save_edited: "paletteOk P \<Longrightarrow> paletteOk (saveEdited old (plEditDraft P) P)"
proof -
  assume P: "paletteOk P"
  let ?b = "normalizeBody (plEditDraft P)" and ?ts = "getPromptTemplates (plStored P)"
  have b: "?b = [] \<or> tidy ?b" using P by (simp add: paletteOk_def tidyDraft_def)
  have Q: "paletteOk (cancelEditing P)" using P by (simp add: cancelEditing_def ok_reset)
  have st: "plStored (cancelEditing P) = plStored P" by (simp add: cancelEditing_def)
  have "paletteOk (onTemplates (\<lambda>us. us[k := (us ! k)\<lparr>tpBody := ?b\<rparr>]) (cancelEditing P))"
    if "?b \<noteq> []" "templateIndex ?ts old = Some k" "\<not> otherHasBody k ?b ?ts" for k
    using that b index_where [of "\<lambda>t. tpBody t = old" ?ts k]
    by (intro ok_update_body Q) (simp_all add: st templateIndex_def)
  then show ?thesis
    using P by (auto simp: saveEdited_def refuse_def Let_def ok_reset split: option.split)
qed

lemma ok_do:
  assumes "paletteOk P" "tidyTyping e"
  shows "paletteOk (paletteDo e P)"
proof (cases e)
  case (SelectTemplate b)
  have "paletteOk (insertPromptTemplate b P)"
    using assms(1) ok_update_same [OF assms(1), of _ "\<lambda>us. tpFrequency (us ! _) + 1"]
    by (simp add: insertPromptTemplate_def Let_def ok_reset split: option.split)
  then show ?thesis using SelectTemplate by (simp add: selectTemplate_def closePalette_def ok_reset)
next
  case (StartEditing b)
  have "tidy b" if "hasBody b (getPromptTemplates (plStored P))"
    using that paletteOkD(2) [OF assms(1)] by (auto simp: has_body list_all_iff)
  then show ?thesis using StartEditing assms(1) by (simp add: startEditing_def ok_reset)
qed (use assms in \<open>auto simp: tidyTyping_def togglePalette_def closePalette_def startAdding_def cancelAdding_def
      cancelEditing_def ok_reset ok_delete ok_undo ok_save_added ok_save_edited split: option.split\<close>)

text \<open>
  The list never holds a text twice: whatever is added, edited, inserted, deleted and undone in
  the palette, from a list without duplicates no operation makes one with duplicates (as long as no
  typed text is cut right before a space).
\<close>

theorem templates_stay_distinct:
  assumes "paletteOk P" "list_all tidyTyping es"
  shows "distinct (bodiesOf (runPalette es P))"
proof -
  have "paletteOk (fold paletteDo es P)"
    using assms by (induction es arbitrary: P) (simp_all add: ok_do)
  then show ?thesis by (simp add: paletteOk_def runPalette_def)
qed

theorem templates_stay_distinct_witness:
  "distinct (bodiesOf (runPalette [StartAdding, TypeAdded (js '' fix the tests ''), SaveAdded,
     DeleteTemplate (js ''fix the tests''), UndoDelete] threeTemplates))"
proof (rule templates_stay_distinct)
  have "getPromptTemplates (plStored threeTemplates) = DEFAULT_TEMPLATES"
    by (simp add: getPromptTemplates_def threeTemplates_def)
  then show "paletteOk threeTemplates"
    using default_settled
    by (auto simp: paletteOk_def bodiesOf_def settled_def list_all_iff empty_draft threeTemplates_def)
  have "length (js '' fix the tests '') = 15" by (simp add: js_def)
  then show "list_all tidyTyping [StartAdding, TypeAdded (js '' fix the tests ''), SaveAdded,
     DeleteTemplate (js ''fix the tests''), UndoDelete]"
    by (simp add: tidyTyping_def short_typing MAX_BODY_LENGTH_def)
qed

end
