(* ===== verification/PathLinks.thy ===== *)
theory PathLinks
  imports RegexFacts StableSort
begin

text \<open>
  Paths in terminal output and in tool results (\<open>src/web/src/app/path-links.ts\<close>): which parts of a
  text are paths, how a candidate is trimmed and resolved against the directory of the session, the
  text with its links, and the operations on path names. The popup and its HTTP actions are left out.
\<close>

section \<open>Trimming a candidate\<close>

definition letterCh :: rx where "letterCh = RCls (CC False [CRange 65 90, CRange 97 122])"
definition slashCh :: rx where "slashCh = anyOf [47, 92]"
definition punctuation :: jstr where "punctuation = js '',;:'' @ [39, 34] @ js ''<>])}''"

definition wideText :: "citem list" where
  "wideText = [CRange 12352 12543, CRange 13312 40959, CRange 65280 65519]"

text \<open>\<open>(?:\s*[,;:'"<>\])}]+)+$\<close>\<close>

definition trailingRe :: rx where
  "trailingRe = RSeq (many1 (RSeq (many wsCh) (many1 (anyOf punctuation)))) REol"

text \<open>\<open>(\.[a-zA-Z0-9]{1,15})\s*[...].*$\<close>: wide characters behind an extension.\<close>

definition extensionCh :: rx where
  "extensionCh = RCls (CC False [CRange 97 122, CRange 65 90, CRange 48 57])"

definition afterExtensionRe :: rx where
  "afterExtensionRe =
     RSeq (RGrp 1 (RSeq (chr 46) (times 1 15 extensionCh)))
       (seqs [many wsCh, RCls (CC False (wideText @ [CRange 19968 40959])), many dot, REol])"

definition afterSlashRe :: rx where
  "afterSlashRe = RSeq (RGrp 1 slashCh) (seqs [many1 wsCh, many dot, REol])"

definition wideTailRe :: rx where
  "wideTailRe = seqs [many1 wsCh, RCls (CC False wideText), many dot, REol]"

definition letterTailRe :: rx where
  "letterTailRe = seqs [many1 wsCh, letterCh, REol]"

definition lineSuffixRe :: rx where
  "lineSuffixRe =
     RSeq (RGrp 1 (RCls (CC True [CWs, CRange 58 58])))
       (seqs [chr 58, many1 digit, opt (RSeq (chr 58) (many1 digit)), REol])"

definition driveRe :: rx where
  "driveRe = seqs [RBol, letterCh, chr 58, slashCh]"

definition driveStartRe :: rx where "driveStartRe = seqs [RBol, letterCh, chr 58]"

definition firstGroup :: "rx \<Rightarrow> jstr \<Rightarrow> jstr" where
  "firstGroup r s = replace_first False r (\<lambda>m. grp m 1) s"

definition cutTail :: "rx \<Rightarrow> jstr \<Rightarrow> jstr" where
  "cutTail r s = replace_first False r (\<lambda>_. []) s"

definition trimWindowsPathCandidate :: "jstr \<Rightarrow> jstr" where
  "trimWindowsPathCandidate p =
     cutTail trailingRe (cutTail letterTailRe (cutTail wideTailRe
       (firstGroup afterExtensionRe (firstGroup afterSlashRe p))))"

definition stripTerminalLineSuffix :: "jstr \<Rightarrow> jstr" where
  "stripTerminalLineSuffix p = firstGroup lineSuffixRe p"

definition trimTerminalPathCandidate :: "jstr \<Rightarrow> jstr" where
  "trimTerminalPathCandidate p =
     (let t1 = firstGroup afterExtensionRe (cutTail trailingRe (trim p));
          t2 = (if test False driveRe t1 then trimWindowsPathCandidate t1 else t1)
      in stripTerminalLineSuffix t2)"

section \<open>Resolving\<close>

definition isAbsolutePath :: "jstr \<Rightarrow> bool" where
  "isAbsolutePath p \<longleftrightarrow> test False driveRe p \<or> starts_with [47] p"

definition isSlash :: "cu \<Rightarrow> bool" where "isSlash c \<longleftrightarrow> c = 47 \<or> c = 92"

text \<open>\<open>rest.split(/[\\/]+/)\<close>, empty parts dropped.\<close>

fun partsFrom :: "jstr \<Rightarrow> jstr \<Rightarrow> jstr list" where
  "partsFrom acc [] = (if acc = [] then [] else [rev acc])"
| "partsFrom acc (c # cs) =
     (if isSlash c then (if acc = [] then partsFrom [] cs else rev acc # partsFrom [] cs)
      else partsFrom (c # acc) cs)"

definition pathParts :: "jstr \<Rightarrow> jstr list" where
  "pathParts s = partsFrom [] s"

definition dots :: jstr where "dots = [46, 46]"

definition pushPart :: "bool \<Rightarrow> jstr list \<Rightarrow> jstr \<Rightarrow> jstr list" where
  "pushPart rooted out p =
     (if p = [] \<or> p = [46] then out
      else if p = dots \<and> out \<noteq> [] \<and> last out \<noteq> dots then butlast out
      else if p \<noteq> dots \<or> \<not> rooted then out @ [p] else out)"

definition resolveParts :: "bool \<Rightarrow> jstr list \<Rightarrow> jstr list" where
  "resolveParts rooted ps = foldl (pushPart rooted) [] ps"

definition normalizePathSegments :: "jstr \<Rightarrow> jstr \<Rightarrow> jstr" where
  "normalizePathSegments path sep =
     (let drive = (if test False driveStartRe path then take 2 path else []);
          rest0 = drop (length drive) path;
          rooted = starts_with sep rest0
      in drive @ (if rooted then sep else []) @ join sep (resolveParts rooted (pathParts rest0)))"

definition backslash :: jstr where "backslash = [92]"

definition separatorOf :: "jstr \<Rightarrow> jstr" where
  "separatorOf p = (if List.member p 92 then backslash else [47])"

definition cutSlashes :: "jstr \<Rightarrow> jstr" where
  "cutSlashes p = rev (dropWhile isSlash (rev p))"

definition joinPath :: "jstr \<Rightarrow> jstr \<Rightarrow> jstr" where
  "joinPath base rel =
     (if base = [] \<or> rel = [] then (if rel \<noteq> [] then rel else base)
      else
        (let sep = separatorOf base in
         normalizePathSegments
           (cutSlashes base @ sep @ concat (map (\<lambda>c. if isSlash c then sep else [c]) (dropWhile isSlash rel)))
           sep))"

text \<open>\<open>cwd\<close> is the directory of the session, empty when there is none.\<close>

definition resolveTerminalPathCandidate :: "jstr \<Rightarrow> jstr \<Rightarrow> jstr" where
  "resolveTerminalPathCandidate path cwd =
     (let cleaned = trimTerminalPathCandidate path in
      if cleaned = [] then []
      else if isAbsolutePath cleaned then cleaned
      else if cwd = [] then cleaned
      else joinPath cwd cleaned)"

section \<open>Candidates\<close>

definition noPathCh :: "citem list" where
  "noPathCh = [CRange 0 31, CRange 34 34, CRange 39 39, CRange 60 60, CRange 62 62, CRange 96 96,
     CRange 124 124, CRange 40 40]"

definition winPathBody :: rx where
  "winPathBody =
     seqs [letterCh, chr 58, slashCh,
       many1 (RSeq (RLook True (seqs [many1 wsCh, letterCh, chr 58, slashCh]))
         (RCls (CC True [CRange 0 31, CRange 60 60, CRange 62 62, CRange 58 58, CRange 34 34, CRange 124 124,
            CRange 63 63, CRange 42 42, CRange 40 40])))]"

definition ABS_WIN_PATH_RE :: rx where "ABS_WIN_PATH_RE = RGrp 1 winPathBody"

definition unixPathBody :: rx where
  "unixPathBody =
     seqs [chr 47, many1 (RCls (CC True ([CWs, CRange 47 47] @ noPathCh))),
       many (RSeq (chr 47) (many (RCls (CC True ([CWs, CRange 47 47] @ noPathCh)))))]"

definition ABS_UNIX_PATH_RE :: rx where "ABS_UNIX_PATH_RE = RGrp 1 unixPathBody"

definition boundaryCh :: rx where
  "boundaryCh = RCls (CC False [CWs, CRange 40 40, CRange 91 91, CRange 123 123, CRange 34 34, CRange 39 39,
     CRange 96 96])"

definition relPathBody :: rx where
  "relPathBody =
     seqs [RAlt (RSeq (times 1 2 (chr 46)) slashCh)
             (RSeq (many1 (RCls (CC False [CRange 65 90, CRange 97 122, CRange 48 57, CRange 95 95,
                CRange 46 46, CRange 45 45]))) slashCh),
       many (RSeq (many1 (RCls (CC True (CWs # noPathCh)))) slashCh),
       many1 (RCls (CC True (CWs # noPathCh)))]"

definition REL_PATH_RE :: rx where
  "REL_PATH_RE = RSeq (RGrp 1 (RAlt RBol boundaryCh)) (RGrp 2 relPathBody)"

definition isLikelyRelPath :: "jstr \<Rightarrow> bool" where
  "isLikelyRelPath p \<longleftrightarrow>
     p \<noteq> [] \<and> (test False (seqs [RBol, times 1 2 (chr 46), slashCh]) p
       \<or> 2 \<le> length (filter isSlash p)
       \<or> test False (seqs [chr 46, times 1 15 extensionCh, REol]) p)"

definition isTerminalPathStartBoundary :: "jstr \<Rightarrow> int \<Rightarrow> bool" where
  "isTerminalPathStartBoundary text start0 \<longleftrightarrow>
     start0 \<le> 0 \<or> test False boundaryCh (substring text (start0 - 1) start0)"

record candidate =
  cStart :: int
  cEnd :: int
  cText :: jstr

definition candidateAt :: "int \<Rightarrow> jstr \<Rightarrow> candidate list" where
  "candidateAt a p =
     (if 3 \<le> length p then [\<lparr>cStart = a, cEnd = a + int (length p), cText = p\<rparr>] else [])"

definition absCandidate :: "rmatch \<Rightarrow> candidate list" where
  "absCandidate m = candidateAt (m_index m) (trimTerminalPathCandidate (grp m 1))"

definition relCandidate :: "rmatch \<Rightarrow> candidate list" where
  "relCandidate m =
     (let p = trimTerminalPathCandidate (grp m 2) in
      if isLikelyRelPath p then candidateAt (m_index m + int (length (grp m 1))) p else [])"

definition compareCandidates :: "candidate \<Rightarrow> candidate \<Rightarrow> int" where
  "compareCandidates a b = (let d = cStart a - cStart b in if d \<noteq> 0 then d else cEnd b - cEnd a)"

definition collides :: "candidate \<Rightarrow> candidate \<Rightarrow> bool" where
  "collides c x \<longleftrightarrow> cStart c < cEnd x \<and> cStart x < cEnd c"

fun keepDisjoint :: "candidate list \<Rightarrow> candidate list \<Rightarrow> candidate list" where
  "keepDisjoint out [] = out"
| "keepDisjoint out (c # cs) = keepDisjoint (if list_ex (collides c) out then out else out @ [c]) cs"

definition allCandidates :: "jstr \<Rightarrow> candidate list" where
  "allCandidates text =
     concat (map absCandidate (exec_all False ABS_WIN_PATH_RE text))
     @ concat (map absCandidate
         (filter (\<lambda>m. isTerminalPathStartBoundary text (m_index m)) (exec_all False ABS_UNIX_PATH_RE text)))
     @ concat (map relCandidate (exec_all False REL_PATH_RE text))"

definition findPathCandidates :: "jstr \<Rightarrow> candidate list" where
  "findPathCandidates text = keepDisjoint [] (sortBy compareCandidates (allCandidates text))"

section \<open>The text with its links\<close>

text \<open>A text node, or a link with its text and the path it opens.\<close>

datatype linkNode = PlainNode jstr | PathNode jstr jstr

fun linkNodesFrom :: "jstr \<Rightarrow> jstr \<Rightarrow> int \<Rightarrow> candidate list \<Rightarrow> linkNode list" where
  "linkNodesFrom cwd text p [] = (if p < int (length text) then [PlainNode (slice_from text p)] else [])"
| "linkNodesFrom cwd text p (c # cs) =
     (if p < cStart c then [PlainNode (slice text p (cStart c))] else [])
     @ [PathNode (cText c) (resolveTerminalPathCandidate (cText c) cwd)]
     @ linkNodesFrom cwd text (cEnd c) cs"

definition appendLinkedText :: "jstr \<Rightarrow> jstr \<Rightarrow> linkNode list" where
  "appendLinkedText text cwd =
     (let cs = findPathCandidates text in
      if cs = [] then [PlainNode text] else linkNodesFrom cwd text 0 cs)"

section \<open>Names and directories\<close>

definition lastSlash :: "jstr \<Rightarrow> nat option" where
  "lastSlash p =
     (let k = length (dropWhile (\<lambda>c. \<not> isSlash c) (rev p)) in if k = 0 then None else Some (k - 1))"

definition basenameForPath :: "jstr \<Rightarrow> jstr" where
  "basenameForPath p =
     (let n = cutSlashes p in case lastSlash n of None \<Rightarrow> n | Some k \<Rightarrow> drop (Suc k) n)"

definition rootedFileRe :: rx where
  "rootedFileRe = seqs [RBol, letterCh, chr 58, opt slashCh, many (RCls (CC True [CRange 92 92, CRange 47 47])), REol]"

definition dirnameForPath :: "jstr \<Rightarrow> jstr" where
  "dirnameForPath p =
     (let n = cutSlashes p in
      case lastSlash n of
        None \<Rightarrow> []
      | Some k \<Rightarrow> if k = 0 then []
                  else if test False rootedFileRe n then take (Suc k) n else take k n)"

fun commonParts :: "jstr list \<Rightarrow> jstr list \<Rightarrow> nat" where
  "commonParts (a # as) (b # bs) = (if a = b then Suc (commonParts as bs) else 0)"
| "commonParts as bs = 0"

definition slashParts :: "jstr \<Rightarrow> jstr list" where
  "slashParts s = filter (\<lambda>p. p \<noteq> []) (split_on 47 (map (\<lambda>c. if c = 92 then 47 else c) s))"

text \<open>\<open>toUpperCase\<close> of the drive letter, an ASCII letter.\<close>

definition driveLetter :: "jstr \<Rightarrow> cu option" where
  "driveLetter p = (if test False driveRe p then Some (let c = hd p in if 97 \<le> c then c - 32 else c) else None)"

definition computeRelPath :: "jstr \<Rightarrow> jstr \<Rightarrow> jstr" where
  "computeRelPath from' to' =
     (let fd = driveLetter from'; td = driveLetter to'; fu = starts_with [47] from'; tu = starts_with [47] to' in
      if (fd \<noteq> None) \<noteq> (td \<noteq> None) then to'
      else if fd \<noteq> None \<and> td \<noteq> None \<and> fd \<noteq> td then to'
      else if fu \<noteq> tu \<and> fd = None \<and> td = None then to'
      else
        (let fp = slashParts from'; tp = slashParts to'; n = commonParts fp tp;
             rel = join (separatorOf to') (replicate (length fp - n) dots @ drop n tp)
         in if rel = [] then [46] else rel))"

definition imageRe :: rx where
  "imageRe = seqs [chr 46, alts [lit (js ''png''), seqs [lit (js ''jp''), opt (chr 101), chr 103], lit (js ''gif''),
     lit (js ''webp''), lit (js ''bmp''), lit (js ''svg'')], REol]"

definition videoRe :: rx where
  "videoRe = seqs [chr 46, alts [lit (js ''mp4''), lit (js ''webm''), lit (js ''ogv''), lit (js ''mov''),
     lit (js ''m4v'')], REol]"

definition isImagePath :: "jstr \<Rightarrow> bool" where "isImagePath p \<longleftrightarrow> test True imageRe (trim p)"
definition isVideoPath :: "jstr \<Rightarrow> bool" where "isVideoPath p \<longleftrightarrow> test True videoRe (trim p)"
definition isMediaPath :: "jstr \<Rightarrow> bool" where "isMediaPath p \<longleftrightarrow> isImagePath p \<or> isVideoPath p"

section \<open>A candidate is a piece of the text\<close>

text \<open>Expressions that match up to the end of the input: what they leave is a beginning of it.\<close>

definition toTheEnd :: "rx \<Rightarrow> bool" where
  "toTheEnd r \<longleftrightarrow> (\<forall>ic x y. y \<in> den ic r x \<longrightarrow> rest y = [])"

lemma to_the_end [simp]:
  "toTheEnd REol" "toTheEnd b \<Longrightarrow> toTheEnd (RSeq a b)"
  by (auto simp: toTheEnd_def split: if_splits)

lemma match_to_end:
  assumes "exec ic r s = Some m" "toTheEnd r"
  shows "m_end m = int (length s)"
proof -
  from exec_den [OF assms(1)] obtain x y where x: "st_of s x" "y \<in> den ic r x" "m = RM (pos x) (pos y) (caps y) s"
    by metis
  from den_lang [OF x(2)] obtain u where u: "consumes x u y" by blast
  have "st_of s y" by (rule state_text(2) [OF x(1) u])
  moreover have "rest y = []" using assms(2) x(2) by (auto simp: toTheEnd_def)
  ultimately show ?thesis using x(3) by (auto simp: st_of_def)
qed

lemma replace_first_Some:
  assumes "exec False r s = Some m"
  shows "replace_first False r f s = take (nat (m_index m)) s @ f m @ drop (nat (m_end m)) s"
  using assms by (simp add: replace_first_def substring_def)

lemma cutTail_prefix: "toTheEnd r \<Longrightarrow> prefix (cutTail r s) s"
proof (cases "exec False r s")
  case (Some m)
  assume "toTheEnd r"
  then have "m_end m = int (length s)" by (rule match_to_end [OF Some])
  then show ?thesis unfolding cutTail_def replace_first_Some [OF Some] by (simp add: take_is_prefix)
qed (simp add: cutTail_def replace_first_def)

lemma firstGroup_prefix:
  assumes "toTheEnd b" "groups b = []"
  shows "prefix (firstGroup (RSeq (RGrp 1 a) b) s) s"
proof (cases "exec False (RSeq (RGrp 1 a) b) s")
  case (Some m)
  have e: "m_end m = int (length s)" by (rule match_to_end [OF Some]) (use assms in simp)
  from exec_den [OF Some] obtain x y where x: "st_of s x" "y \<in> den False (RSeq (RGrp 1 a) b) x"
      "m = RM (pos x) (pos y) (caps y) s" by metis
  from x(2) obtain z where z: "z \<in> den False a x"
      "y \<in> den False b (St (pos z) (prev z) (rest z) ((1, pos x, pos z) # caps z))" by auto
  from den_lang [OF z(1)] obtain v where v: "consumes x v z" by blast
  have "caps y = (1, pos x, pos z) # caps z" using den_no_groups [OF z(2) assms(2)] by simp
  then have g: "grp m 1 = v"
    using x(3) state_text(1) [OF x(1) v] by (simp add: grp_def m_group_def)
  from x(1) obtain t where t: "s = t @ rest x" "pos x = int (length t)" by (auto simp: st_of_def)
  have "replace_first False (RSeq (RGrp 1 a) b) (\<lambda>m. grp m 1) s = t @ v"
    unfolding replace_first_Some [OF Some] using g e t x(3) by simp
  moreover have "rest x = v @ rest z" using v by (simp add: consumes_def)
  ultimately show ?thesis using t by (simp add: firstGroup_def)
qed (simp add: firstGroup_def replace_first_def)

lemmas path_rx = seqs.simps times_def many_def many1_def opt_def chr_def anyOf_def wsCh_def dot_def digit_def
  slashCh_def letterCh_def extensionCh_def

lemma trimming_steps:
  "prefix (firstGroup afterExtensionRe s) s" "prefix (firstGroup afterSlashRe s) s"
  "prefix (firstGroup lineSuffixRe s) s" "prefix (cutTail trailingRe s) s"
  "prefix (cutTail wideTailRe s) s" "prefix (cutTail letterTailRe s) s"
  unfolding afterExtensionRe_def afterSlashRe_def lineSuffixRe_def
  by (rule firstGroup_prefix; simp add: path_rx)+
     (rule cutTail_prefix; simp add: trailingRe_def wideTailRe_def letterTailRe_def path_rx)+

lemma prefix_after: "prefix (f t) t \<Longrightarrow> prefix t s \<Longrightarrow> prefix (f t) s"
  by (rule prefix_order.trans)

lemma trimWindows_prefix: "prefix (trimWindowsPathCandidate s) s"
  unfolding trimWindowsPathCandidate_def
  by (intro prefix_order.trans [OF trimming_steps(4)] prefix_order.trans [OF trimming_steps(6)]
      prefix_order.trans [OF trimming_steps(5)] prefix_order.trans [OF trimming_steps(1)] trimming_steps(2))

lemma trim_prefix: "s = [] \<or> \<not> is_ws (hd s) \<Longrightarrow> prefix (trim s) s"
proof -
  assume "s = [] \<or> \<not> is_ws (hd s)"
  then have "trim s = trimEnd s" by (simp add: trim_def trimStart_nonws [THEN iffD2])
  also have "prefix (trimEnd s) s"
    unfolding trimEnd_def prefix_def
    by (rule exI [of _ "rev (takeWhile is_ws (rev s))"]) (simp flip: rev_append)
  finally show ?thesis .
qed

lemma trimTerminal_prefix:
  assumes "s = [] \<or> \<not> is_ws (hd s)"
  shows "prefix (trimTerminalPathCandidate s) s"
proof -
  let ?t1 = "firstGroup afterExtensionRe (cutTail trailingRe (trim s))"
  have t1: "prefix ?t1 s"
    by (intro prefix_order.trans [OF trimming_steps(1)] prefix_order.trans [OF trimming_steps(4)] trim_prefix assms)
  have "prefix (if test False driveRe ?t1 then trimWindowsPathCandidate ?t1 else ?t1) s"
    using t1 trimWindows_prefix [of ?t1] by (auto intro: prefix_order.trans)
  then show ?thesis
    unfolding trimTerminalPathCandidate_def stripTerminalLineSuffix_def Let_def
    by (rule prefix_order.trans [OF trimming_steps(3)])
qed

definition fits :: "jstr \<Rightarrow> candidate \<Rightarrow> bool" where
  "fits text c \<longleftrightarrow>
     0 \<le> cStart c \<and> cStart c < cEnd c \<and> cEnd c \<le> int (length text)
     \<and> cText c = substring text (cStart c) (cEnd c)"

lemma candidate_fits:
  assumes "c \<in> set (candidateAt a p)" "prefix p (substring text a e)" "0 \<le> a"
  shows "fits text c"
proof -
  have l: "length p \<le> length (substring text a e)" using assms(2) by (rule prefix_length_le)
  have c: "c = \<lparr>cStart = a, cEnd = a + int (length p), cText = p\<rparr>" "p \<noteq> []"
    using assms(1) by (auto simp: candidateAt_def split: if_splits)
  have l1: "length p \<le> nat (e - a)" "length p \<le> length text - nat a"
    using l by (simp_all add: substring_def)
  have "p = take (length p) (substring text a e)" using assms(2) by (auto simp: prefix_def)
  also have "\<dots> = substring text a (a + int (length p))" using l1 by (simp add: substring_def min_def)
  finally have "p = substring text a (a + int (length p))" .
  moreover have "0 < length p" using c(2) by simp
  then have "a + int (length p) \<le> int (length text)" using l1(2) assms(3) by linarith
  ultimately show ?thesis using c assms(3) by (simp add: fits_def)
qed

lemma whole_group:
  assumes "m \<in> set (exec_all ic (RGrp 1 r) s)"
  shows "grp m 1 = substring s (m_index m) (m_end m)" "grp m 1 \<in> lang ic r" "0 \<le> m_index m"
proof -
  from exec_all_den [OF assms] obtain x y where x: "st_of s x" "y \<in> den ic (RGrp 1 r) x"
      "m = RM (pos x) (pos y) (caps y) s" by metis
  from x(2) obtain z where z: "z \<in> den ic r x" "y = St (pos z) (prev z) (rest z) ((1, pos x, pos z) # caps z)" by auto
  then show g: "grp m 1 = substring s (m_index m) (m_end m)"
    using x(3) by (simp add: grp_def m_group_def)
  from den_lang [OF z(1)] obtain u where u: "u \<in> lang ic r" "consumes x u z" by blast
  show "grp m 1 \<in> lang ic r" unfolding g using x(3) z(2) u(1) state_text(1) [OF x(1) u(2)] by simp
  show "0 \<le> m_index m" using x(1,3) by (auto simp: st_of_def)
qed

lemma second_group:
  assumes "m \<in> set (exec_all ic (RSeq (RGrp 1 a) (RGrp 2 b)) s)" "groups b = []"
  obtains "grp m 2 = substring s (m_index m + int (length (grp m 1))) (m_end m)" "grp m 2 \<in> lang ic b" "0 \<le> m_index m"
proof -
  from exec_all_den [OF assms(1)] obtain x y where x: "st_of s x" "y \<in> den ic (RSeq (RGrp 1 a) (RGrp 2 b)) x"
      "m = RM (pos x) (pos y) (caps y) s" by metis
  from x(2) obtain z w where z: "z \<in> den ic a x"
      "w \<in> den ic b (St (pos z) (prev z) (rest z) ((1, pos x, pos z) # caps z))"
      "y = St (pos w) (prev w) (rest w) ((2, pos z, pos w) # caps w)" by auto
  let ?z = "St (pos z) (prev z) (rest z) ((1, pos x, pos z) # caps z)"
  from den_lang [OF z(1)] obtain v where v: "consumes x v z" by blast
  from den_lang [OF z(2)] obtain u where u: "u \<in> lang ic b" "consumes ?z u w" by blast
  have c: "caps w = (1, pos x, pos z) # caps z" using den_no_groups [OF z(2) assms(2)] by simp
  have g1: "grp m 1 = v" using x(3) z(3) c state_text(1) [OF x(1) v] by (simp add: grp_def m_group_def)
  have st: "st_of s ?z" using state_text(2) [OF x(1) v] by (simp add: st_of_def)
  have g2: "grp m 2 = substring s (pos z) (pos w)" using x(3) z(3) by (simp add: grp_def m_group_def)
  have pz: "pos z = pos x + int (length v)" using v by (simp add: consumes_def)
  show thesis
  proof (rule that)
    show "grp m 2 = substring s (m_index m + int (length (grp m 1))) (m_end m)"
      using g2 g1 pz x(3) z(3) by simp
    show "grp m 2 \<in> lang ic b" using g2 u(1) state_text(1) [OF st u(2)] by simp
    show "0 \<le> m_index m" using x(1,3) by (auto simp: st_of_def)
  qed
qed

definition noBlankFirst :: "jstr set \<Rightarrow> bool" where
  "noBlankFirst L \<longleftrightarrow> (\<forall>u \<in> L. u \<noteq> [] \<longrightarrow> \<not> is_ws (hd u))"

lemma blank_class:
  "(\<And>c. in_class ic C c \<Longrightarrow> \<not> is_ws c) \<Longrightarrow> noBlankFirst (lang ic (RSeq (RCls C) r))"
  by (auto simp: noBlankFirst_def)

lemma win_first: "noBlankFirst (lang False winPathBody)"
  unfolding winPathBody_def letterCh_def seqs.simps by (rule blank_class) (auto simp: is_ws_def split: if_splits)

lemma unix_first: "noBlankFirst (lang False unixPathBody)"
  unfolding unixPathBody_def chr_def seqs.simps by (rule blank_class) (auto simp: is_ws_def split: if_splits)

lemma rep_first:
  assumes "\<And>c. in_class ic C c \<Longrightarrow> \<not> is_ws c" "u \<in> lang ic (RRep g mn mx (RCls C))" "u \<noteq> []"
  shows "\<not> is_ws (hd u)"
proof -
  obtain us where us: "u = concat us" "set us \<subseteq> {[c] | c. in_class ic C c}" using assms(2) by auto
  with assms(3) obtain v vs where "us = v # vs" by (cases us) auto
  then show ?thesis using us assms(1) by auto
qed

lemma rep_nonempty: "u \<in> lang ic (RRep g mn mx (RCls C)) \<Longrightarrow> 0 < mn \<Longrightarrow> u \<noteq> []"
proof -
  assume "u \<in> lang ic (RRep g mn mx (RCls C))" "0 < mn"
  then obtain us where us: "u = concat us" "set us \<subseteq> {[c] | c. in_class ic C c}" "mn \<le> length us" by auto
  then obtain v vs where "us = v # vs" using \<open>0 < mn\<close> by (cases us) auto
  then show "u \<noteq> []" using us by auto
qed

lemma rel_first: "noBlankFirst (lang False relPathBody)"
  unfolding noBlankFirst_def
proof (intro ballI impI)
  fix u assume u: "u \<in> lang False relPathBody" "u \<noteq> []"
  let ?A = "CC False [CRange 46 46]"
  let ?B = "CC False [CRange 65 90, CRange 97 122, CRange 48 57, CRange 95 95, CRange 46 46, CRange 45 45]"
  obtain a b where ab: "u = a @ b"
      "a \<in> lang False (RRep True 1 (Some 2) (RCls ?A)) \<or> a \<in> lang False (RRep True 1 None (RCls ?B))"
    using u(1) unfolding relPathBody_def times_def many1_def chr_def seqs.simps lang.simps(3,4)
    by (simp del: lang.simps(5)) (metis append.assoc)
  have "a \<noteq> []" by (rule disjE [OF ab(2)]; drule rep_nonempty; simp)
  moreover have "in_class False ?A c \<Longrightarrow> \<not> is_ws c" "in_class False ?B c \<Longrightarrow> \<not> is_ws c" for c
    by (auto simp: is_ws_def split: if_splits)
  ultimately have "\<not> is_ws (hd a)" using ab(2) rep_first by metis
  then show "\<not> is_ws (hd u)" using \<open>a \<noteq> []\<close> ab(1) by simp
qed

lemma abs_fits:
  assumes "m \<in> set (exec_all False (RGrp 1 r) text)" "noBlankFirst (lang False r)" "c \<in> set (absCandidate m)"
  shows "fits text c"
proof -
  note g = whole_group [OF assms(1)]
  have "grp m 1 = [] \<or> \<not> is_ws (hd (grp m 1))" using assms(2) g(2) by (auto simp: noBlankFirst_def)
  from trimTerminal_prefix [OF this]
  have "prefix (trimTerminalPathCandidate (grp m 1)) (substring text (m_index m) (m_end m))" using g(1) by simp
  with assms(3) g(3) show ?thesis unfolding absCandidate_def by (intro candidate_fits)
qed

lemma rel_fits:
  assumes "m \<in> set (exec_all False REL_PATH_RE text)" "c \<in> set (relCandidate m)"
  shows "fits text c"
proof -
  have "groups relPathBody = []"
    by (simp add: relPathBody_def path_rx)
  from second_group [OF assms(1) [unfolded REL_PATH_RE_def] this]
  have g: "grp m 2 = substring text (m_index m + int (length (grp m 1))) (m_end m)"
    "grp m 2 \<in> lang False relPathBody" "0 \<le> m_index m" by blast+
  have "grp m 2 = [] \<or> \<not> is_ws (hd (grp m 2))" using rel_first g(2) by (auto simp: noBlankFirst_def)
  from trimTerminal_prefix [OF this]
  have "prefix (trimTerminalPathCandidate (grp m 2)) (substring text (m_index m + int (length (grp m 1))) (m_end m))"
    using g(1) by simp
  moreover have "c \<in> set (candidateAt (m_index m + int (length (grp m 1))) (trimTerminalPathCandidate (grp m 2)))"
    using assms(2) by (auto simp: relCandidate_def Let_def split: if_splits)
  moreover have "0 \<le> m_index m + int (length (grp m 1))" using g(3) by simp
  ultimately show ?thesis using candidate_fits by blast
qed

lemma all_fit: "c \<in> set (allCandidates text) \<Longrightarrow> fits text c"
  unfolding allCandidates_def ABS_WIN_PATH_RE_def ABS_UNIX_PATH_RE_def
  using abs_fits [OF _ win_first] abs_fits [OF _ unix_first] rel_fits by auto

text \<open>The chosen candidates follow each other.\<close>

definition following :: "candidate list \<Rightarrow> bool" where
  "following cs \<longleftrightarrow> sorted_wrt (\<lambda>x y. cEnd x \<le> cStart y) cs"

lemma keep_following:
  assumes "following out" "list_all (fits text) out" "list_all (fits text) cs"
    "sorted_wrt (\<lambda>a b. cStart a \<le> cStart b) (out @ cs)"
  shows "following (keepDisjoint out cs) \<and> list_all (fits text) (keepDisjoint out cs)"
  using assms
proof (induction out cs rule: keepDisjoint.induct)
  case (2 out c cs)
  show ?case
  proof (cases "list_ex (collides c) out")
    case True
    have "sorted_wrt (\<lambda>a b. cStart a \<le> cStart b) (out @ cs)" using 2(5) by (simp add: sorted_wrt_append)
    with 2 True show ?thesis by simp
  next
    case False
    have "cEnd x \<le> cStart c" if "x \<in> set out" for x
    proof -
      have "\<not> collides c x" using False that by (auto simp: list_ex_iff)
      moreover have "cStart x \<le> cStart c" using 2(5) that by (simp add: sorted_wrt_append)
      moreover have "cStart c < cEnd c" using 2(4) by (simp add: fits_def)
      ultimately show ?thesis by (auto simp: collides_def)
    qed
    then have "following (out @ [c])" using 2(2) by (simp add: following_def sorted_wrt_append)
    moreover have "list_all (fits text) (out @ [c])" "list_all (fits text) cs" using 2(3,4) by simp_all
    ultimately show ?thesis using 2(1) 2(5) False by simp
  qed
qed simp

lemma candidate_order: "consistent compareCandidates"
  by (auto simp: consistent_def compareCandidates_def Let_def split: if_splits)

lemma found_candidates:
  "following (findPathCandidates text) \<and> list_all (fits text) (findPathCandidates text)"
proof -
  let ?cs = "sortBy compareCandidates (allCandidates text)"
  have "sorted_wrt (\<lambda>a b. cStart a \<le> cStart b) ?cs"
    using sortBy_sorted [OF candidate_order, of "allCandidates text"]
    by (rule sorted_wrt_mono_rel [rotated]) (auto simp: compareCandidates_def Let_def split: if_splits)
  moreover have "list_all (fits text) ?cs" by (auto simp: list_all_iff all_fit)
  ultimately show ?thesis
    unfolding findPathCandidates_def by (intro keep_following) (simp_all add: following_def)
qed

fun nodeText :: "linkNode \<Rightarrow> jstr" where
  "nodeText (PlainNode t) = t"
| "nodeText (PathNode t p) = t"

lemma link_nodes_text:
  assumes "following cs" "list_all (fits text) cs" "0 \<le> p" "p \<le> int (length text)"
    "case cs of [] \<Rightarrow> True | c # _ \<Rightarrow> p \<le> cStart c"
  shows "concat (map nodeText (linkNodesFrom cwd text p cs)) = drop (nat p) text"
  using assms
proof (induction cs arbitrary: p)
  case Nil
  then show ?case by (auto simp: slice_from_drop)
next
  case (Cons c cs)
  have c: "p \<le> cStart c" "0 \<le> cStart c" "cStart c < cEnd c" "cEnd c \<le> int (length text)"
    "cText c = substring text (cStart c) (cEnd c)" using Cons.prems by (simp_all add: fits_def)
  have "case cs of [] \<Rightarrow> True | d # _ \<Rightarrow> cEnd c \<le> cStart d"
    using Cons.prems(1) by (cases cs) (simp_all add: following_def)
  then have IH: "concat (map nodeText (linkNodesFrom cwd text (cEnd c) cs)) = drop (nat (cEnd c)) text"
    using Cons c by (intro Cons.IH) (simp_all add: following_def)
  have a: "drop (nat (cStart c)) text = cText c @ drop (nat (cEnd c)) text"
    unfolding c(5) by (rule drop_substring) (use c in simp_all)
  have "drop (nat p) text = substring text p (cStart c) @ drop (nat (cStart c)) text"
    by (rule drop_substring) (use c Cons.prems(3) in simp_all)
  moreover have "slice text p (cStart c) = substring text p (cStart c)"
    by (rule slice_substring) (use c Cons.prems(3) in simp_all)
  ultimately have b: "drop (nat p) text = slice text p (cStart c) @ drop (nat (cStart c)) text"
    by (simp only:)
  show ?case
  proof (cases "p < cStart c")
    case True
    then show ?thesis by (simp add: IH b a)
  next
    case False
    then have "p = cStart c" using c(1) by simp
    then show ?thesis by (simp add: IH a)
  qed
qed

text \<open>
  C31: Linking paths never changes a text: the text nodes and the links that are made of it give, one
  after the other, the text itself, and every link shows the piece it stands for.
\<close>

theorem linked_text_is_text:
  "concat (map nodeText (appendLinkedText text cwd)) = text"
proof (cases "findPathCandidates text")
  case Nil
  then show ?thesis by (simp add: appendLinkedText_def)
next
  case (Cons c cs)
  have f: "following (findPathCandidates text)" "list_all (fits text) (findPathCandidates text)"
    using found_candidates by blast+
  have "0 \<le> cStart c" using f(2) unfolding Cons by (simp add: fits_def)
  then have "concat (map nodeText (linkNodesFrom cwd text 0 (findPathCandidates text))) = drop (nat 0) text"
    using f Cons by (intro link_nodes_text) simp_all
  then show ?thesis using Cons by (simp add: appendLinkedText_def)
qed

section \<open>Resolved paths\<close>

definition properPart :: "jstr \<Rightarrow> bool" where
  "properPart p \<longleftrightarrow> p \<noteq> [] \<and> p \<noteq> [46] \<and> p \<noteq> dots \<and> list_all (\<lambda>c. \<not> isSlash c) p"

lemma push_rooted:
  assumes "list_all properPart out" "list_all (\<lambda>c. \<not> isSlash c) p"
  shows "list_all properPart (pushPart True out p)"
proof -
  have "list_all properPart (butlast out)" using assms(1) by (auto simp: list_all_iff dest: in_set_butlastD)
  moreover have "out \<noteq> [] \<Longrightarrow> last out \<noteq> dots" using assms(1) by (auto simp: list_all_iff properPart_def)
  moreover have "p \<noteq> [] \<Longrightarrow> p \<noteq> [46] \<Longrightarrow> p \<noteq> dots \<Longrightarrow> properPart p" using assms(2) by (simp add: properPart_def)
  ultimately show ?thesis using assms(1) unfolding pushPart_def by (simp split: if_split)
qed

lemma resolve_rooted:
  "list_all properPart out \<Longrightarrow> list_all (list_all (\<lambda>c. \<not> isSlash c)) ps \<Longrightarrow>
     list_all properPart (foldl (pushPart True) out ps)"
  by (induction ps arbitrary: out) (simp_all add: push_rooted)

lemma parts_no_slash:
  "list_all (\<lambda>c. \<not> isSlash c) acc \<Longrightarrow> list_all (list_all (\<lambda>c. \<not> isSlash c)) (partsFrom acc s)"
  by (induction acc s rule: partsFrom.induct) (simp_all add: list_all_rev)

lemma resolved_rooted: "list_all properPart (resolveParts True (pathParts s))"
  unfolding resolveParts_def pathParts_def by (rule resolve_rooted) (simp_all add: parts_no_slash)

section \<open>From one directory to another\<close>

text \<open>\<open>computeRelPath\<close> and \<open>joinPath\<close> split a path in the same parts.\<close>

lemma parts_word:
  "list_all (\<lambda>c. \<not> isSlash c) p \<Longrightarrow> partsFrom acc (p @ s) = partsFrom (rev p @ acc) s"
  by (induction p arbitrary: acc) simp_all

definition solidPart :: "jstr \<Rightarrow> bool" where
  "solidPart p \<longleftrightarrow> p \<noteq> [] \<and> list_all (\<lambda>c. \<not> isSlash c) p"

lemma parts_join: "list_all solidPart ps \<Longrightarrow> isSlash sep \<Longrightarrow> partsFrom [] (join [sep] ps) = ps"
proof (induction ps)
  case (Cons w ws)
  then show ?case
    using parts_word [of w "[]"] parts_word [of w "[]" "[]"]
    by (cases "ws = []") (simp_all add: solidPart_def join_Cons)
qed simp

lemma slash_parts:
  "slashParts s = pathParts s"
proof -
  have "\<exists>w ws. split_on 47 (map (\<lambda>c. if c = 92 then 47 else c) s) = w # ws
      \<and> partsFrom acc s = filter (\<lambda>p. p \<noteq> []) ((rev acc @ w) # ws)" for acc
  proof (induction s arbitrary: acc)
    case (Cons c cs)
    show ?case
    proof (cases "isSlash c")
      case True
      then show ?thesis using Cons [of "[]"] by (auto simp: isSlash_def)
    next
      case False
      then show ?thesis using Cons [of "c # acc"] by (auto simp: isSlash_def)
    qed
  qed simp
  from this [of "[]"] show ?thesis by (auto simp: slashParts_def pathParts_def)
qed

lemma push_proper: "list_all properPart ps \<Longrightarrow> foldl (pushPart True) out ps = out @ ps"
  by (induction ps arbitrary: out) (simp_all add: pushPart_def properPart_def)

lemma push_up:
  "list_all properPart out \<Longrightarrow> k \<le> length out \<Longrightarrow>
     foldl (pushPart True) out (replicate k dots) = take (length out - k) out"
proof (induction k arbitrary: out)
  case (Suc k)
  then have o: "out \<noteq> []" by auto
  then have "last out \<noteq> dots" using Suc.prems(1) by (auto simp: list_all_iff properPart_def)
  then have "pushPart True out dots = butlast out" using o by (simp add: pushPart_def dots_def)
  moreover have "list_all properPart (butlast out)"
    using Suc.prems(1) by (auto simp: list_all_iff dest: in_set_butlastD)
  ultimately show ?case using Suc.IH [of "butlast out"] Suc.prems(2) by (simp add: take_butlast)
qed simp

lemma common_parts:
  "commonParts as bs \<le> length as" "commonParts as bs \<le> length bs"
  "take (commonParts as bs) as = take (commonParts as bs) bs"
  by (induction as bs rule: commonParts.induct) simp_all

lemma walk:
  assumes "list_all properPart fp" "list_all properPart tp"
  shows "resolveParts True
      (fp @ replicate (length fp - commonParts fp tp) dots @ drop (commonParts fp tp) tp) = tp"
proof -
  let ?n = "commonParts fp tp"
  have "foldl (pushPart True) [] fp = fp" using push_proper [OF assms(1), of "[]"] by simp
  moreover have "foldl (pushPart True) fp (replicate (length fp - ?n) dots) = take ?n tp"
    using push_up [OF assms(1), of "length fp - ?n"] common_parts [of fp tp] by simp
  moreover have "list_all properPart (drop ?n tp)"
    using assms(2) by (auto simp: list_all_iff dest: in_set_dropD)
  ultimately show ?thesis by (simp add: resolveParts_def push_proper)
qed


text \<open>A drive is empty or a letter and a colon; a rooted path is a drive, a separator and parts.\<close>

definition letter :: "cu \<Rightarrow> bool" where
  "letter c \<longleftrightarrow> 65 \<le> c \<and> c \<le> 90 \<or> 97 \<le> c \<and> c \<le> 122"

definition driveName :: "jstr \<Rightarrow> bool" where
  "driveName d \<longleftrightarrow> d = [] \<or> (\<exists>c. letter c \<and> d = [c, 58])"

definition rootedPath :: "jstr \<Rightarrow> cu \<Rightarrow> jstr list \<Rightarrow> jstr" where
  "rootedPath d sep ps = d @ sep # join [sep] ps"

lemma test_bol: "test ic (RSeq RBol r) s \<longleftrightarrow> run ic r Some (start s) \<noteq> None"
  by (cases s) (auto simp: test_def find_at_def start_def seek_bol split: option.splits)

lemma drive_tests [simp]:
  "letter c \<Longrightarrow> test False driveRe (c # 58 # e # s) \<longleftrightarrow> isSlash e"
  "isSlash c \<Longrightarrow> \<not> test False driveRe (c # s)"
  "letter c \<Longrightarrow> test False driveStartRe (c # 58 # s)"
  "isSlash c \<Longrightarrow> \<not> test False driveStartRe (c # s)"
  by (auto simp: driveRe_def driveStartRe_def test_bol start_def path_rx letter_def isSlash_def)

lemma letter_no_slash [simp]: "letter c \<Longrightarrow> \<not> isSlash c"
  by (auto simp: letter_def isSlash_def)

lemma drive_of: "driveName d \<Longrightarrow> isSlash sep \<Longrightarrow> (driveLetter (rootedPath d sep ps) = None) = (d = [])"
  by (auto simp: driveName_def driveLetter_def rootedPath_def)

lemma proper_solid: "list_all properPart ps \<Longrightarrow> list_all solidPart ps"
  by (auto simp: list_all_iff properPart_def solidPart_def)

lemma parts_of_rooted:
  assumes "driveName d" "isSlash sep" "list_all solidPart ps"
  shows "pathParts (rootedPath d sep ps) = (if d = [] then [] else [d]) @ ps"
proof -
  have "partsFrom [] (join [sep] ps) = ps" using assms by (intro parts_join)
  then have "partsFrom [] (sep # join [sep] ps) = ps" using assms(2) by simp
  moreover have "\<not> isSlash 58" by (simp add: isSlash_def)
  ultimately show ?thesis
    using assms(1,2) \<open>partsFrom [] (join [sep] ps) = ps\<close>
    by (auto simp: driveName_def pathParts_def rootedPath_def)
qed

lemma join_chars: "c \<in> set (join [sep] ps) \<Longrightarrow> list_all solidPart ps \<Longrightarrow> isSlash c \<Longrightarrow> c = sep"
proof (induction ps)
  case (Cons w ws)
  then show ?case
    by (cases "ws = []") (auto simp: solidPart_def list_all_iff join_Cons)
qed simp

lemma separator_of_rooted:
  assumes "driveName d" "isSlash sep" "list_all solidPart ps"
  shows "separatorOf (rootedPath d sep ps) = [sep]"
proof -
  have "92 \<in> set (rootedPath d sep ps) \<longleftrightarrow> sep = 92"
    using assms(1) join_chars [of 92 sep ps] assms(2,3)
    by (auto simp: rootedPath_def driveName_def letter_def isSlash_def)
  then show ?thesis using assms(2) by (auto simp: separatorOf_def isSlash_def backslash_def)
qed

lemma join_ends:
  assumes "list_all solidPart ps" "ps \<noteq> []"
  shows "join [sep] ps \<noteq> []" "\<not> isSlash (hd (join [sep] ps))" "\<not> isSlash (last (join [sep] ps))"
proof -
  show a: "join [sep] ps \<noteq> []" "\<not> isSlash (hd (join [sep] ps))"
    using assms by (cases ps; cases "tl ps"; simp add: solidPart_def list_all_iff; metis hd_append hd_in_set)+
  show "\<not> isSlash (last (join [sep] ps))"
    using assms
  proof (induction ps)
    case (Cons w ws)
    show ?case
    proof (cases "ws = []")
      case True
      then show ?thesis using Cons.prems by (simp add: solidPart_def list_all_iff)
    next
      case False
      then have "join [sep] ws \<noteq> []" using Cons.prems
        by (cases ws; cases "tl ws") (auto simp: solidPart_def)
      then show ?thesis using False Cons by (simp add: join_Cons)
    qed
  qed simp
qed


lemma cut_rooted:
  assumes "driveName d" "isSlash sep" "list_all solidPart ps"
  shows "cutSlashes (rootedPath d sep ps) = (if ps = [] then d else rootedPath d sep ps)"
proof (cases "ps = []")
  case True
  moreover have "rev d = [] \<or> \<not> isSlash (hd (rev d))"
    using assms(1) by (auto simp: driveName_def isSlash_def)
  then have "dropWhile isSlash (rev d) = rev d" by (cases "rev d") auto
  ultimately show ?thesis using assms(2) by (simp add: cutSlashes_def rootedPath_def)
next
  case False
  note e = join_ends [OF assms(3) False, of sep]
  have "rootedPath d sep ps \<noteq> []" "last (rootedPath d sep ps) = last (join [sep] ps)"
    using e(1) by (simp_all add: rootedPath_def)
  then have "dropWhile isSlash (rev (rootedPath d sep ps)) = rev (rootedPath d sep ps)"
    using e(3) by (cases "rootedPath d sep ps" rule: rev_cases) auto
  then show ?thesis using False by (simp add: cutSlashes_def)
qed

text \<open>A path made of a rooted one and more parts is rooted in the same drive.\<close>

lemma normalize_rooted:
  assumes "driveName d" "isSlash sep" "list_all solidPart ps"
  shows "normalizePathSegments (rootedPath d sep ps) [sep] = rootedPath d sep (resolveParts True ps)"
proof -
  have "pathParts (sep # join [sep] ps) = ps"
    using parts_of_rooted [OF _ assms(2,3), of "[]"] by (simp add: rootedPath_def driveName_def)
  then show ?thesis
    using assms(1,2) by (auto simp: normalizePathSegments_def rootedPath_def driveName_def Let_def split: if_splits)
qed

lemma join_append:
  "ps \<noteq> [] \<Longrightarrow> qs \<noteq> [] \<Longrightarrow> join [sep] (ps @ qs) = join [sep] ps @ sep # join [sep] qs"
proof (induction ps)
  case (Cons w ws)
  then show ?case by (cases "ws = []") (simp_all add: join_Cons)
qed simp

lemma joined_path:
  assumes "driveName d" "isSlash sep" "list_all solidPart ps" "list_all solidPart qs" "qs \<noteq> []"
  shows "joinPath (rootedPath d sep ps) (join [sep] qs) = rootedPath d sep (resolveParts True (ps @ qs))"
proof -
  note e = join_ends [OF assms(4,5), of sep]
  have "dropWhile isSlash (join [sep] qs) = join [sep] qs" using e by (cases "join [sep] qs") auto
  moreover have "map (\<lambda>c. if isSlash c then [sep] else [c]) (join [sep] qs) = map (\<lambda>c. [c]) (join [sep] qs)"
    using join_chars [OF _ assms(4)] by auto
  then have "concat (map (\<lambda>c. if isSlash c then [sep] else [c]) (join [sep] qs)) = join [sep] qs"
    by (simp only: concat_map_singleton map_ident)
  moreover have "cutSlashes (rootedPath d sep ps) @ [sep] @ join [sep] qs = rootedPath d sep (ps @ qs)"
    using assms(5) unfolding cut_rooted [OF assms(1-3)] by (simp add: rootedPath_def join_append)
  moreover have "rootedPath d sep ps \<noteq> []" by (simp add: rootedPath_def)
  ultimately show ?thesis
    using e(1) normalize_rooted [OF assms(1,2), of "ps @ qs"] assms(3,4)
    by (simp add: joinPath_def separator_of_rooted [OF assms(1-3)])
qed

text \<open>A rooted path stays rooted in its drive, and nothing in it climbs.\<close>

theorem normalized_never_climbs:
  assumes "driveName d" "isSlash sep"
  shows "\<exists>ps. list_all properPart ps \<and> normalizePathSegments (d @ sep # s) [sep] = rootedPath d sep ps"
proof (intro exI conjI)
  show "list_all properPart (resolveParts True (pathParts (sep # s)))" by (rule resolved_rooted)
  show "normalizePathSegments (d @ sep # s) [sep] = rootedPath d sep (resolveParts True (pathParts (sep # s)))"
    using assms by (auto simp: normalizePathSegments_def rootedPath_def driveName_def Let_def split: if_splits)
qed

text \<open>
  C32: A path relative to a directory leads back: for two rooted paths of one drive, without empty,
  dot or dot-dot parts, joining the directory with \<open>computeRelPath\<close> from it to a file gives the
  file, whatever the two have in common, for either separator.
\<close>

theorem relative_path_leads_back:
  assumes "driveName d" "isSlash sep" "list_all properPart fp" "list_all properPart tp"
  shows "joinPath (rootedPath d sep fp) (computeRelPath (rootedPath d sep fp) (rootedPath d sep tp))
     = rootedPath d sep tp"
proof -
  let ?n = "commonParts fp tp"
  let ?qs = "replicate (length fp - ?n) dots @ drop ?n tp"
  note solid = assms(3,4) [THEN proper_solid]
  have same: "driveLetter (rootedPath d sep fp) = driveLetter (rootedPath d sep tp)"
    "starts_with [47] (rootedPath d sep fp) = starts_with [47] (rootedPath d sep tp)"
    using assms(1,2) by (auto simp: driveLetter_def driveName_def rootedPath_def split: if_splits)
  have rel: "computeRelPath (rootedPath d sep fp) (rootedPath d sep tp)
      = (if join [sep] ?qs = [] then [46] else join [sep] ?qs)"
    unfolding computeRelPath_def Let_def same separator_of_rooted [OF assms(1,2) solid(2)] slash_parts
      parts_of_rooted [OF assms(1,2) solid(1)] parts_of_rooted [OF assms(1,2) solid(2)]
    by simp
  have q: "list_all solidPart ?qs"
    using solid(2) by (auto simp: list_all_iff solidPart_def dots_def isSlash_def dest: in_set_dropD)
  note w = walk [OF assms(3,4)]
  show ?thesis
  proof (cases "?qs = []")
    case True
    have "resolveParts True (fp @ [[46]]) = tp"
      using w True by (simp add: resolveParts_def pushPart_def)
    moreover have "list_all solidPart [[46]]" by (simp add: solidPart_def isSlash_def)
    ultimately show ?thesis
      using rel True joined_path [OF assms(1,2) solid(1), of "[[46]]"] by simp
  next
    case False
    then show ?thesis
      using rel joined_path [OF assms(1,2) solid(1) q False] join_ends(1) [OF q False, of sep] w by simp
  qed
qed

theorem relative_path_leads_back_witness:
  "joinPath (js ''C:/dev/src'') (computeRelPath (js ''C:/dev/src'') (js ''C:/dev/docs/a.md'')) = js ''C:/dev/docs/a.md''
   \<and> computeRelPath (js ''C:/dev/src'') (js ''C:/dev/docs/a.md'') = js ''../docs/a.md''"
proof -
  have p: "rootedPath (js ''C:'') 47 [js ''dev'', js ''src''] = js ''C:/dev/src''"
    "rootedPath (js ''C:'') 47 [js ''dev'', js ''docs'', js ''a.md''] = js ''C:/dev/docs/a.md''"
    by code_simp+
  have "driveName (js ''C:'')" by (simp add: driveName_def letter_def js_def)
  moreover have "isSlash 47" by (simp add: isSlash_def)
  moreover have "list_all properPart [js ''dev'', js ''src'']"
    "list_all properPart [js ''dev'', js ''docs'', js ''a.md'']" by code_simp+
  ultimately have "joinPath (rootedPath (js ''C:'') 47 [js ''dev'', js ''src''])
      (computeRelPath (rootedPath (js ''C:'') 47 [js ''dev'', js ''src''])
         (rootedPath (js ''C:'') 47 [js ''dev'', js ''docs'', js ''a.md'']))
      = rootedPath (js ''C:'') 47 [js ''dev'', js ''docs'', js ''a.md'']"
    by (rule relative_path_leads_back)
  moreover have "computeRelPath (js ''C:/dev/src'') (js ''C:/dev/docs/a.md'') = js ''../docs/a.md''"
    by code_simp
  ultimately show ?thesis unfolding p by blast
qed


section \<open>Directory and name\<close>

lemma last_slash:
  "isSlash sep \<Longrightarrow> list_all (\<lambda>c. \<not> isSlash c) p \<Longrightarrow> lastSlash (u @ sep # p) = Some (length u)"
proof -
  assume a: "isSlash sep" "list_all (\<lambda>c. \<not> isSlash c) p"
  have "dropWhile (\<lambda>c. \<not> isSlash c) (rev p @ sep # rev u) = sep # rev u"
    using a by (subst dropWhile_append2) (auto simp: list_all_iff)
  then show ?thesis by (simp add: lastSlash_def)
qed

lemma den_opt_slash:
  assumes "y \<in> den ic (opt (RCls C)) x"
  obtains o' where "rest x = o' @ rest y" "length o' \<le> 1"
proof -
  obtain j where j: "j \<le> 1" "(x, y) \<in> iter1 (den ic (RCls C)) [] ^^ j"
    using assms by (auto simp: opt_def loop_den_def)
  consider "j = 0" | "j = 1" using j(1) by linarith
  then show thesis
  proof cases
    case 1
    then show ?thesis using that [of "[]"] j(2) by simp
  next
    case 2
    then have "(x, y) \<in> iter1 (den ic (RCls C)) []" using j(2) by simp
    then obtain a where "rest x = a # rest y"
      by (auto simp: iter1_def split: list.splits if_splits)
    then show ?thesis using that [of "[a]"] by simp
  qed
qed

lemma den_class:
  "y \<in> den ic (RCls C) x \<longleftrightarrow>
     (\<exists>a as. rest x = a # as \<and> in_class ic C a \<and> y = St (pos x + 1) (Some a) as (caps x))"
  by (cases "rest x") auto

lemma rooted_file_one_slash:
  assumes "test False rootedFileRe n"
  shows "length (filter isSlash n) \<le> 1"
proof -
  from assms have "run False rootedFileRe Some (start n) \<noteq> None"
    by (simp add: rootedFileRe_def test_bol start_def)
  then obtain y where "y \<in> den False rootedFileRe (start n)"
    unfolding run_Some_iff by blast
  then obtain c as z where z: "n = c # 58 # as" "\<not> isSlash c" "z \<in> den False (opt slashCh) (St 2 (Some 58) as [])"
      "y \<in> den False (many (RCls (CC True [CRange 92 92, CRange 47 47]))) z" "rest y = []"
    by (auto simp: rootedFileRe_def letterCh_def chr_def start_def isSlash_def den_class
        simp del: den.simps(2) split: if_splits)
  obtain o' where o': "rest (St 2 (Some 58) as []) = o' @ rest z" "length o' \<le> 1"
    using z(3) unfolding slashCh_def anyOf_def by (rule den_opt_slash)
  from den_lang [OF z(4)] obtain v where v: "v \<in> lang False (many (RCls (CC True [CRange 92 92, CRange 47 47])))"
      "consumes z v y" by blast
  have "\<forall>e \<in> set v. \<not> isSlash e"
    using lang_many_class [OF v(1) [unfolded many_def]] by (auto simp: isSlash_def)
  moreover have "rest z = v" using v(2) z(5) by (simp add: consumes_def)
  ultimately have "filter isSlash (rest z) = []" by (simp add: filter_empty_conv)
  moreover have "length (filter isSlash o') \<le> 1" using o'(2) length_filter_le le_trans by blast
  moreover have "\<not> isSlash 58" by (simp add: isSlash_def)
  ultimately show ?thesis using z(1,2) o'(1) by simp
qed

text \<open>
  The path popup takes a path apart as it was put together: for a rooted path with at least two
  parts, \<open>basenameForPath\<close> gives the last part and \<open>dirnameForPath\<close> the path of the others, with a
  drive or without, for either separator.
\<close>

theorem directory_and_name:
  assumes "driveName d" "isSlash sep" "list_all solidPart ps" "solidPart p" "ps \<noteq> []"
  shows "basenameForPath (rootedPath d sep (ps @ [p])) = p
    \<and> dirnameForPath (rootedPath d sep (ps @ [p])) = rootedPath d sep ps"
proof -
  have all: "list_all solidPart (ps @ [p])" using assms(3,4) by simp
  have cut: "cutSlashes (rootedPath d sep (ps @ [p])) = rootedPath d sep (ps @ [p])"
    using cut_rooted [OF assms(1,2) all] by simp
  have n: "rootedPath d sep (ps @ [p]) = rootedPath d sep ps @ sep # p"
    using assms(5) by (simp add: rootedPath_def join_append)
  have l: "lastSlash (rootedPath d sep ps @ sep # p) = Some (length (rootedPath d sep ps))"
    using last_slash [OF assms(2)] assms(4) by (simp add: solidPart_def)
  have base: "basenameForPath (rootedPath d sep (ps @ [p])) = p"
    by (simp add: basenameForPath_def cut [unfolded n] n l)
  have "2 \<le> length (filter isSlash (rootedPath d sep ps @ sep # p))"
    using assms(2) by (simp add: rootedPath_def)
  then have "\<not> test False rootedFileRe (rootedPath d sep ps @ sep # p)"
    using rooted_file_one_slash by force
  then have "dirnameForPath (rootedPath d sep (ps @ [p])) = rootedPath d sep ps"
    by (simp add: dirnameForPath_def cut [unfolded n] n l) (simp add: rootedPath_def)
  with base show ?thesis by simp
qed

text \<open>
  The drives are compared without regard to case, the parts behind them with it: for the same drive
  written in the other case the drive is repeated inside the path.
\<close>

theorem other_case_of_drive:
  "computeRelPath (js ''c:/dev'') (js ''C:/dev/a.md'') = js ''../../C:/dev/a.md''
   \<and> joinPath (js ''c:/dev'') (js ''../../C:/dev/a.md'') = js ''c:/C:/dev/a.md''"
  by code_simp

end
