(* ===== verification/Spec2Isabelle.thy ===== *)
theory Spec2Isabelle
  imports LiveStatus ResidueSweep WorkflowProgress HubBlockSpec ApprovalStability ChatPane SendInput
    TermQueue Utf8Stream TextUtil Connection ApprovalSheet PromptTemplates PathLinks
begin

text \<open>
  A verification development for many-ai-cli, a Hub that runs several command-line AI agents in
  pseudo terminals and shows them in one web page. The modelled program is the web client
  (\<open>src/web/src\<close>, TypeScript). The Hub (\<open>src/internal\<close>, Go) sends the client, over one WebSocket,
  the bytes a session's terminal printed, detections of approval prompts, and session states; the
  client shows the bytes in a terminal widget, finds in them the questions an agent asks, offers
  the answers as buttons and sends the chosen one back as key strokes. The model is that path:
  bytes in, display out, questions found, answers sent, nothing sent twice or to the wrong session.

  \<^bold>\<open>Foundations.\<close>
  \<^item> \<open>Prelude\<close>: JavaScript strings as lists of 16-bit code units (integers), and the string and
    number operations of the language the client uses.
  \<^item> \<open>JsRegex\<close>: the backtracking matcher of ECMA-262 in continuation-passing style. The regular
    expressions of the client are values of a data type and are run by this matcher; it is proved
    sound and complete for a relational semantics. \<open>RegexLang\<close>: the language of an expression and
    where its captures lie. \<open>Utf8\<close>: \<open>TextDecoder\<close> and \<open>TextEncoder\<close>.

  \<^bold>\<open>From the pseudo terminal to the display\<close> (\<open>hub-marker-filter.ts\<close>, \<open>cursor-hide-filter.ts\<close>,
  \<open>terminal.ts\<close>). A chunk passes the filter that removes the \<open>[MANY-AI-CLI]\<close> blocks, the filter
  that takes hidden-cursor status frames out, and the four display filters, in this order.
  \<^item> \<open>StreamFilter\<close> states what such filters share as locales: a function on chunks with a carry
    (\<open>chunk_filter\<close>), a scan whose decision does not change when more bytes arrive
    (\<open>stable_scan\<close>), and their composition (\<open>filter_pipe\<close>); the filters interpret them.
  \<^item> \<open>HubMarkerFilter\<close>, \<open>CursorHideFilter\<close>, \<open>DisplayFilters\<close>: one function per function of the
    source, the module's variables as a record. Lemmas: the output does not depend on how the
    stream is cut into chunks, blocks are removed whole, the buffer is bounded, bytes are only
    dropped where the code means to.
  \<^item> \<open>LiveLine\<close>, \<open>LiveStatus\<close>: the text of the status frames taken out, and the pill that shows it,
    with compaction timers. \<open>WorkflowProgress\<close>: the parser of workflow displays.
  \<^item> \<open>Utf8Stream\<close>: \<open>TextDecoder\<close> with \<open>stream: true\<close>, which reads a stream cut anywhere.
    \<open>TermQueue\<close>: the backlog of a terminal that is hidden or was just resized, its flushes with
    their call-backs, watchdog and animation frames as events. Lemmas: what waits and what was
    written is what arrived, in order; the backlog is bounded; no flush blocks a terminal.

  \<^bold>\<open>Sending\<close> (\<open>deferred-enter.ts\<close>, \<open>residue-sweep.ts\<close>). \<open>DeferredEnter\<close>: timers as explicit events
  with a time; the carriage return is sent at most once, not early, and is sent.
  \<open>ResidueSweep\<close>: a line is cleared only with evidence, and the retries end.

  \<^bold>\<open>Approvals\<close> (\<open>approval-parser.ts\<close>, \<open>approval-ui.ts\<close>, \<open>approval.ts\<close>, \<open>state.ts\<close>).
  \<^item> \<open>ApprovalText\<close>, \<open>ApprovalUnglue\<close>, \<open>HubBlock\<close>, \<open>ApprovalOptions\<close>: the parser, in the order of
    its file. \<open>HubBlockSpec\<close>: the loop that chooses a block refines a plain search for the tags.
  \<^item> \<open>AppState\<close>: answered signatures, session order, automatic switching. \<open>ApprovalStore\<close>: the
    caches and timers of the action bar as one record, sessions as keys of maps.
  \<^item> \<open>ApprovalAnswer\<close>: detection messages and every gesture that answers, as functions on that
    record; what is sent is a log in it. \<open>ApprovalDetect\<close>: the two detectors as chains of stages,
    reading the screen and the clock from an environment record.
  \<^item> \<open>ApprovalSending\<close>: what a run of gestures sends. \<open>ApprovalRuns\<close>: all operations as one data
    type of steps; what holds for every run (sessions do not touch each other's state, the bar
    shows the active session). \<open>ApprovalStability\<close>: what the detectors promise over time, with a
    locale \<open>step_invariant\<close> for invariants of runs.

  \<^bold>\<open>Chat\<close> (\<open>chat-history.ts\<close>).
  \<^item> \<open>RegexFacts\<close>: what an expression can match by its shape (characters it needs, anchors).
    \<open>ChatText\<close>: noise lines, normalisation of output, rendering of a message into text, code,
    links and paths.
  \<^item> \<open>ChatHistory\<close>: the message store as one record, output buffers with commit timers, turns of
    the user, restoration from the Hub's database as a request and an answer that may be far
    apart. The locale \<open>store_invariant\<close> carries invariants through every run of operations.
    \<open>ChatPane\<close>: the pane that is mounted on one session and follows its messages.
  \<^item> \<open>Overlap\<close>, \<open>MobileTranscript\<close> (\<open>mobile-transcript.ts\<close>): the transcript shown on a phone, read
    off the screen; the overlap of two readings is the failure function of Knuth, Morris, Pratt.

  \<^bold>\<open>The input line\<close> (\<open>state.ts\<close>, \<open>attachments.ts\<close>, \<open>app.ts\<close>).
  \<^item> \<open>InputLine\<close>: typed text, chips of pasted text, attachments, and the drafts put away when the
    user turns to another session.
  \<^item> \<open>SendInput\<close>: \<open>doSend\<close> in two halves, before and after the upload it waits for, on a page
    record that composes the input line, the deferred carriage return and the approval store.

  \<^bold>\<open>The client put together\<close> (\<open>ws-client.ts\<close>, \<open>session-list.ts\<close>, \<open>app.ts\<close>).
  \<^item> \<open>SessionRecord\<close>: what a message makes of the object of a session, and when the list need not
    be drawn again. \<open>StoreView\<close>: a locale for what the detectors leave alone.
  \<^item> \<open>Client\<close>: one record of the page, the terminals, the status line and the map of sessions; the
    way of a chunk through all components, and the activation of a session. Output sends nothing
    and stays in its session.
  \<^item> \<open>Removal\<close>: a session ends or its history is reset; what is forgotten, and what is not.
  \<^item> \<open>Connection\<close>: the sockets of the browser as a list of states and a step relation; opening,
    closing, reconnecting, the watchdog, and the messages that change the list of sessions. Every
    reachable state has one live socket at most and is never stuck without one.

  \<^bold>\<open>Text\<close> (\<open>util.ts\<close>, \<open>chat-payload.ts\<close>). \<open>TextUtil\<close>: escaping for HTML and its inverse,
  clean-up of copied text, the elapsed time.

  \<^bold>\<open>Answering many questions at once\<close> (\<open>approval-queue-tab.ts\<close>,
  \<open>mobile-approval-sheet.ts\<close>, \<open>mobile-approval-only.ts\<close>).
  \<^item> \<open>SwipeGesture\<close>: a finger on a card, from touch to release; what is done is what was announced.
  \<^item> \<open>ApprovalTab\<close>: the cards of the queue, the signature that decides whether they are drawn
    again, groups of equal questions, the delayed acceptance and the rejection that can be undone.
  \<^item> \<open>ApprovalSheet\<close>: the sheet a phone shows, when it opens and closes by itself and what it
    remembers of questions put aside; the two buttons of the page that only answers.

  \<^bold>\<open>Templates\<close> (\<open>prompt-templates.ts\<close>). \<open>StableSort\<close>: the sort of JavaScript arrays.
  \<open>PromptTemplates\<close>: the saved texts with their bounds, the palette that lists, edits and inserts
  them, deletion and its undo.

  \<^bold>\<open>Links\<close> (\<open>path-links.ts\<close>). \<open>PathLinks\<close>: the paths in a text, found by the matcher of
  \<open>JsRegex\<close>, trimmed and resolved; the text with its links is the text, and relative paths lead back.

  \<^bold>\<open>Bounds and fuel.\<close> Loops are structural recursions or functions with a proved measure (the
  unread part of the input); the inner loop of the failure function is a \<open>partial_function\<close> that
  is proved to return. The only numbers bounded by choice are doubles below \<open>2^53\<close>, beyond which
  the model rounds as JavaScript does (\<open>dbl\<close>). No definition carries fuel.

  \<^bold>\<open>Not modelled.\<close> Creation and styling of page elements, sounds, notifications, scrolling, the
  terminal widget itself (its screen is an input of the detectors), translations, and the HTTP
  requests (their answers are arguments); the pages that only show data of the Hub (files, git,
  settings, spawn panel); voice input; and the Go side. Trigger phrases that the Hub delivers and
  the compatibility normalisation of Unicode are parameters. The code units above ASCII that
  \<open>toLowerCase\<close> and the \<open>i\<close> flag change are those of the scripts listed in \<open>Prelude\<close> and \<open>JsRegex\<close>.
\<close>

end
